(* ===== verification/Prelude.thy ===== *)
theory Prelude
  imports Main "HOL-Library.Word" "HOL-Library.Code_Target_Nat"
begin

text \<open>
  Shared vocabulary of the development.

  The C sources are modelled on explicit bytes. A read-only pointer is the \<^emph>\<open>view\<close> of the
  bytes from the pointer to the end of the object it points into; a writable pointer is a block
  of a \<open>heap\<close>. Every access is checked: what C leaves undefined (a read or write outside the
  object, a null or dangling pointer, signed overflow, an out-of-range floating-point cast, a
  loop that never ends, a failed assertion) is a \<open>Fault\<close> value of the result type, so that
  ``no fault'' is a theorem and never an assumption. Unsigned 32-bit arithmetic is carried out
  on \<open>nat\<close> with the wrap-around written out (\<open>w32\<close>, \<open>sub32\<close>); field values are words.

  Allocation always succeeds in this model: none of the modelled functions tests the result of
  \<open>malloc\<close>, and \<open>bson_malloc\<close> aborts instead of returning NULL.
\<close>

unbundle bit_operations_syntax

named_theorems view_simps \<open>reads of a view inside its bounds\<close>
named_theorems wrap_simps \<open>32-bit operations that do not wrap\<close>
named_theorems codec_simps \<open>little-endian encoding and decoding\<close>

section \<open>Bytes and faults\<close>

type_synonym byte = "8 word"
type_synonym view = "byte list"

datatype c_fault =
    Null_Deref
  | Dangling_Pointer
  | Out_Of_Bounds
  | Signed_Overflow
  | Bad_Float_Cast
  | Assertion_Failed
  | No_Termination

type_synonym 'a result = "c_fault + 'a"

abbreviation Ok :: "'a \<Rightarrow> 'a result" where
  "Ok \<equiv> Inr"

abbreviation Fault :: "c_fault \<Rightarrow> 'a result" where
  "Fault \<equiv> Inl"

text \<open>Sequencing: the first fault ends the computation, as it ends the C program.\<close>

definition rbind :: "'a result \<Rightarrow> ('a \<Rightarrow> 'b result) \<Rightarrow> 'b result" where
  "rbind m f = (case m of Inl e \<Rightarrow> Inl e | Inr x \<Rightarrow> f x)"

lemma rbind_simps [simp]:
  "rbind (Ok x) f = f x"
  "rbind (Fault e) f = Fault e"
  by (simp_all add: rbind_def)

lemma rbind_cong [fundef_cong]:
  "m = m' \<Longrightarrow> (\<And>x. m' = Ok x \<Longrightarrow> f x = g x) \<Longrightarrow> rbind m f = rbind m' g"
  by (simp add: rbind_def split: sum.split)

lemma rbind_Ok_iff: "rbind m f = Ok y \<longleftrightarrow> (\<exists>x. m = Ok x \<and> f x = Ok y)"
  by (cases m) auto

lemma rbind_assoc: "rbind (rbind m f) g = rbind m (\<lambda>x. rbind (f x) g)"
  by (cases m) auto

definition safe :: "'a result \<Rightarrow> bool" where
  "safe m = (case m of Inl _ \<Rightarrow> False | Inr _ \<Rightarrow> True)"

lemma safe_simps [simp]: "safe (Ok x)" "\<not> safe (Fault e)"
  by (simp_all add: safe_def)

lemma safe_iff: "safe m \<longleftrightarrow> (\<exists>x. m = Ok x)"
  by (cases m) auto

lemma safe_rbind [intro]: "m = Ok x \<Longrightarrow> safe (f x) \<Longrightarrow> safe (rbind m f)"
  by simp

section \<open>Little-endian numbers\<close>

fun le_nat :: "byte list \<Rightarrow> nat" where
  "le_nat [] = 0"
| "le_nat (b # bs) = unat b + 256 * le_nat bs"

fun le_bytes :: "nat \<Rightarrow> nat \<Rightarrow> byte list" where
  "le_bytes 0 v = []"
| "le_bytes (Suc n) v = of_nat v # le_bytes n (v div 256)"

lemma length_le_bytes [simp]: "length (le_bytes n v) = n"
  by (induction n arbitrary: v) auto

lemma unat_of_nat_byte [simp]: "unat (of_nat v :: byte) = v mod 256"
  by (simp add: unat_of_nat)

lemma le_nat_le_bytes [codec_simps]: "le_nat (le_bytes n v) = v mod 256 ^ n"
proof (induction n arbitrary: v)
  case (Suc n)
  have "v mod 256 + 256 * ((v div 256) mod 256 ^ n) = v mod (256 * 256 ^ n)"
    by (simp add: mod_mult2_eq)
  then show ?case by (simp add: Suc.IH)
qed simp

lemma unat_byte_less: "unat (b :: byte) < 256"
proof -
  have "unat b < 2 ^ LENGTH(8)" by (rule unsigned_less)
  then show ?thesis by simp
qed

lemma le_nat_bound: "le_nat bs < 256 ^ length bs"
proof (induction bs)
  case (Cons b bs)
  have "unat b < 256" by (rule unat_byte_less)
  moreover have "Suc (le_nat bs) \<le> 256 ^ length bs" using Cons.IH by simp
  then have "256 * Suc (le_nat bs) \<le> 256 * 256 ^ length bs" by (rule mult_le_mono2)
  ultimately show ?case by simp
qed simp

lemma le_bytes_le_nat [codec_simps]: "le_bytes (length bs) (le_nat bs) = bs"
proof (induction bs)
  case (Cons b bs)
  have "unat b < 256" by (rule unat_byte_less)
  then have "(unat b + 256 * le_nat bs) div 256 = le_nat bs" by simp
  moreover have "(of_nat (unat b + 256 * le_nat bs) :: byte) = b"
    by (simp only: word_unat_eq_iff unat_of_nat_byte) (simp add: unat_byte_less)
  ultimately show ?case using Cons.IH by simp
qed simp

lemma le_bytes_le_nat_len: "length bs = n \<Longrightarrow> le_bytes n (le_nat bs) = bs"
  using le_bytes_le_nat [of bs] by simp

lemma le_bytes_add: "le_bytes (m + n) v = le_bytes m v @ le_bytes n (v div 256 ^ m)"
  by (induction m arbitrary: v) (simp_all add: div_mult2_eq)

lemma le_bytes_mod: "le_bytes m (v mod 256 ^ m) = le_bytes m v"
proof (rule trans [OF _ le_bytes_le_nat_len [of "le_bytes m v" m]])
qed (simp_all add: le_nat_le_bytes)

lemma le_nat_le_bytes_word32 [codec_simps]: "le_nat (le_bytes 4 (unat (w :: 32 word))) = unat w"
  proof -
  have "unat w < 2 ^ LENGTH(32)" by (rule unsigned_less)
  then show ?thesis by (simp add: le_nat_le_bytes)
qed

lemma le_nat_le_bytes_word64 [codec_simps]: "le_nat (le_bytes 8 (unat (w :: 64 word))) = unat w"
  proof -
  have "unat w < 2 ^ LENGTH(64)" by (rule unsigned_less)
  then show ?thesis by (simp add: le_nat_le_bytes)
qed

lemma unat_word_less: "unat (w :: 32 word) < 4294967296" "unat (q :: 64 word) < 2 ^ 64"
  using unsigned_less [of w] unsigned_less [of q] by simp_all

section \<open>Unsigned and signed 32-bit arithmetic\<close>

abbreviation INT32_MAX :: nat where
  "INT32_MAX \<equiv> 2147483647"

definition w32 :: "nat \<Rightarrow> nat" where
  "w32 n = n mod 4294967296"

definition sub32 :: "nat \<Rightarrow> nat \<Rightarrow> nat" where
  "sub32 a b = (a + 4294967296 - b mod 4294967296) mod 4294967296"

lemma w32_id [wrap_simps]: "n < 4294967296 \<Longrightarrow> w32 n = n"
  by (simp add: w32_def)

lemma w32_less [simp]: "w32 n < 4294967296"
  by (simp add: w32_def)

lemma sub32_diff [wrap_simps]: "b \<le> a \<Longrightarrow> a < 4294967296 \<Longrightarrow> sub32 a b = a - b"
proof -
  assume b: "b \<le> a" and a: "a < 4294967296"
  then have "a + 4294967296 - b mod 4294967296 = (a - b) + 4294967296" by simp
  then show ?thesis using a by (simp add: sub32_def)
qed

lemma sub32_less [simp]: "sub32 a b < 4294967296"
  by (simp add: sub32_def)

text \<open>The value of a 32-bit pattern read as a two's complement \<open>int\<close>.\<close>

definition as_int32 :: "nat \<Rightarrow> int" where
  "as_int32 n = (let m = w32 n in if m < 2147483648 then int m else int m - 4294967296)"

lemma as_int32_nonneg [wrap_simps]: "n < 2147483648 \<Longrightarrow> as_int32 n = int n"
  by (simp add: as_int32_def w32_def)

text \<open>Signed addition and multiplication on \<open>int\<close>: leaving the range is undefined.\<close>

definition in_int32 :: "int \<Rightarrow> bool" where
  "in_int32 i \<longleftrightarrow> - 2147483648 \<le> i \<and> i \<le> 2147483647"

definition add_int32 :: "int \<Rightarrow> int \<Rightarrow> int result" where
  "add_int32 a b = (if in_int32 (a + b) then Ok (a + b) else Fault Signed_Overflow)"

definition mul_int32 :: "int \<Rightarrow> int \<Rightarrow> int result" where
  "mul_int32 a b = (if in_int32 (a * b) then Ok (a * b) else Fault Signed_Overflow)"

section \<open>Reading through a view\<close>

definition rd8 :: "view \<Rightarrow> nat \<Rightarrow> byte result" where
  "rd8 v i = (if i < length v then Ok (v ! i) else Fault Out_Of_Bounds)"

definition rdn :: "nat \<Rightarrow> view \<Rightarrow> nat \<Rightarrow> byte list result" where
  "rdn n v i = (if i + n \<le> length v then Ok (take n (drop i v)) else Fault Out_Of_Bounds)"

text \<open>A \<open>memcpy\<close> of four bytes followed by \<open>BSON_UINT32_FROM_LE\<close>.\<close>

definition rd32 :: "view \<Rightarrow> nat \<Rightarrow> nat result" where
  "rd32 v i = rbind (rdn 4 v i) (\<lambda>bs. Ok (le_nat bs))"

definition rd64 :: "view \<Rightarrow> nat \<Rightarrow> nat result" where
  "rd64 v i = rbind (rdn 8 v i) (\<lambda>bs. Ok (le_nat bs))"

lemma rd8_ok [view_simps]: "i < length v \<Longrightarrow> rd8 v i = Ok (v ! i)"
  by (simp add: rd8_def)

lemma rdn_ok [view_simps]: "i + n \<le> length v \<Longrightarrow> rdn n v i = Ok (take n (drop i v))"
  by (simp add: rdn_def)

text \<open>The bytes at a pointer that must not be NULL.\<close>

definition read_ptr :: "nat \<Rightarrow> view option \<Rightarrow> byte list result" where
  "read_ptr n p = (case p of None \<Rightarrow> Fault Null_Deref | Some v \<Rightarrow> rdn n v 0)"

text \<open>The 32-bit length stored at offset \<open>i\<close> of a view.\<close>

definition len_at :: "view \<Rightarrow> nat \<Rightarrow> nat" where
  "len_at v i = le_nat (take 4 (drop i v))"

lemma rd32_ok [view_simps]: "i + 4 \<le> length v \<Longrightarrow> rd32 v i = Ok (len_at v i)"
  by (simp add: rd32_def rdn_def len_at_def)

lemma rd64_ok [view_simps]: "i + 8 \<le> length v \<Longrightarrow> rd64 v i = Ok (le_nat (take 8 (drop i v)))"
  by (simp add: rd64_def rdn_def)

lemma le_nat_take4: "le_nat (take 4 bs) < 4294967296"
proof -
  have "le_nat (take 4 bs) < 256 ^ length (take 4 bs)" by (rule le_nat_bound)
  also have "(256 :: nat) ^ length (take 4 bs) \<le> 256 ^ 4" by (rule power_increasing) auto
  finally show ?thesis by simp
qed

lemma len_at_bound: "len_at v i < 4294967296"
  by (simp add: len_at_def le_nat_take4)

lemma rd32_bound: "rd32 v i = Ok l \<Longrightarrow> l < 4294967296"
  by (auto simp: rd32_def rdn_def le_nat_take4 split: if_splits)

section \<open>C strings\<close>

text \<open>The characters up to the first NUL; running off the object is a fault.\<close>

definition c_string :: "view \<Rightarrow> byte list result" where
  "c_string v = (if 0 \<in> set v then Ok (takeWhile (\<lambda>b. b \<noteq> 0) v) else Fault Out_Of_Bounds)"

definition c_strlen :: "view \<Rightarrow> nat result" where
  "c_strlen v = rbind (c_string v) (\<lambda>s. Ok (length s))"

text \<open>\<open>strstr (s, t) != NULL\<close>.\<close>

fun c_strstr :: "byte list \<Rightarrow> byte list \<Rightarrow> bool" where
  "c_strstr [] t = (t = [])"
| "c_strstr (a # s) t = (take (length t) (a # s) = t \<or> c_strstr s t)"

lemma c_strstr_char: "c_strstr s [c] = (c \<in> set s)"
  by (induction s) auto

fun c_strncmp_eq :: "nat \<Rightarrow> view \<Rightarrow> view \<Rightarrow> bool result" where
  "c_strncmp_eq 0 s t = Ok True"
| "c_strncmp_eq (Suc n) (a # s) (b # t) =
     (if a \<noteq> b then Ok False else if a = 0 then Ok True else c_strncmp_eq n s t)"
| "c_strncmp_eq (Suc n) s t = Fault Out_Of_Bounds"

lemma c_strncmp_eq_code [code]:
  "c_strncmp_eq n s t =
     (if n = 0 then Ok True
      else case (s, t) of
          (a # s', b # t') \<Rightarrow>
            if a \<noteq> b then Ok False else if a = 0 then Ok True else c_strncmp_eq (n - 1) s' t'
        | _ \<Rightarrow> Fault Out_Of_Bounds)"
  by (cases n; cases s; cases t) auto

lemma mem_take_drop:
  assumes "a \<le> z" "z < a + n" "z < length v" "v ! z = x"
  shows "x \<in> set (take n (drop a v))"
proof -
  have "take n (drop a v) ! (z - a) = x" "z - a < length (take n (drop a v))"
    using assms by auto
  then show ?thesis by (metis nth_mem)
qed

lemma takeWhile_append_0: "0 \<notin> set s \<Longrightarrow> takeWhile (\<lambda>b. b \<noteq> (0::byte)) (s @ 0 # t) = s"
  by (induction s) auto

lemma c_string_append [view_simps]: "0 \<notin> set s \<Longrightarrow> c_string (s @ 0 # t) = Ok s"
  by (simp add: c_string_def takeWhile_append_0)

lemma c_strlen_append [view_simps]: "0 \<notin> set s \<Longrightarrow> c_strlen (s @ 0 # t) = Ok (length s)"
  by (simp add: c_strlen_def view_simps)

lemma c_strncmp_eq_keys:
  assumes "0 \<notin> set k" "n \<le> length k" "0 \<notin> set j"
  shows "c_strncmp_eq n (k @ 0 # u) (j @ 0 # t) = Ok (take n k = take n j)"
  using assms
proof (induction n arbitrary: k j)
  case (Suc n)
  then obtain a k' where k: "k = a # k'" by (cases k) auto
  with Suc show ?case by (cases j) auto
qed simp

section \<open>The heap\<close>

type_synonym heap = "nat \<Rightarrow> byte list option"

definition splice :: "nat \<Rightarrow> byte list \<Rightarrow> byte list \<Rightarrow> byte list" where
  "splice i bs m = take i m @ bs @ drop (i + length bs) m"

definition slice :: "nat \<Rightarrow> nat \<Rightarrow> byte list \<Rightarrow> byte list" where
  "slice i n m = take n (drop i m)"

text \<open>
  \<open>memcpy\<close> to \<open>base + off\<close>: the offset is a signed quantity, as in C pointer arithmetic.
\<close>

definition poke :: "heap \<Rightarrow> nat option \<Rightarrow> int \<Rightarrow> byte list \<Rightarrow> heap result" where
  "poke h p off bs =
     (case p of
        None \<Rightarrow> Fault Null_Deref
      | Some b \<Rightarrow>
          (case h b of
             None \<Rightarrow> Fault Dangling_Pointer
           | Some m \<Rightarrow>
               if 0 \<le> off \<and> nat off + length bs \<le> length m
               then Ok (h(b := Some (splice (nat off) bs m)))
               else Fault Out_Of_Bounds))"

lemma length_splice [simp]: "i + length bs \<le> length m \<Longrightarrow> length (splice i bs m) = length m"
  by (simp add: splice_def)

lemma slice_splice [simp]:
  "i + length bs \<le> length m \<Longrightarrow> n = length bs \<Longrightarrow> slice i n (splice i bs m) = bs"
  by (simp add: slice_def splice_def)

lemma nth_splice_other:
  assumes "i + length bs \<le> length m" "j < length m" "j < i \<or> i + length bs \<le> j"
  shows "splice i bs m ! j = m ! j"
  using assms by (auto simp: splice_def nth_append min_def)

lemma slice_splice_other:
  assumes "i + length bs \<le> length m" "j + n \<le> length m" "j + n \<le> i \<or> i + length bs \<le> j"
  shows "slice j n (splice i bs m) = slice j n m"
  using assms by (intro nth_equalityI) (auto simp: slice_def nth_splice_other)

lemma poke_ok [view_simps]:
  "h b = Some m \<Longrightarrow> 0 \<le> off \<Longrightarrow> nat off + length bs \<le> length m
     \<Longrightarrow> poke h (Some b) off bs = Ok (h(b := Some (splice (nat off) bs m)))"
  by (simp add: poke_def)

lemma poke_frame: "poke h (Some b) off bs = Ok h' \<Longrightarrow> c \<noteq> b \<Longrightarrow> h' c = h c"
  by (auto simp: poke_def split: option.splits if_splits)

end
