(* ===== verification/Bson_Types.thy ===== *)
theory Bson_Types
  imports Prelude
begin

text \<open>
  The data types of \<open>bson-types.h\<close> and \<open>bson-private.h\<close>: the element type codes, the document
  handle \<open>bson_t\<close> and the iterator \<open>bson_iter_t\<close>.

  A \<open>bson_t\<close> owns or borrows one buffer. The C structure is polymorphic (an inline array of
  120 bytes, or a pointer to a buffer pointer and an offset into it); here \<open>b_buf\<close> is the whole
  buffer in both cases and \<open>b_offset\<close> the place where this document starts. A child document
  under construction works on its parent's buffer; while the parent is flagged
  \<open>BSON_FLAG_IN_CHILD\<close> nobody else may use it, so the buffer moves to the child at
  \<open>begin\<close> and back at \<open>end\<close>.
\<close>

section \<open>Element types\<close>

datatype bson_type_t =
    BSON_TYPE_EOD
  | BSON_TYPE_DOUBLE
  | BSON_TYPE_UTF8
  | BSON_TYPE_DOCUMENT
  | BSON_TYPE_ARRAY
  | BSON_TYPE_BINARY
  | BSON_TYPE_UNDEFINED
  | BSON_TYPE_OID
  | BSON_TYPE_BOOL
  | BSON_TYPE_DATE_TIME
  | BSON_TYPE_NULL
  | BSON_TYPE_REGEX
  | BSON_TYPE_DBPOINTER
  | BSON_TYPE_CODE
  | BSON_TYPE_SYMBOL
  | BSON_TYPE_CODEWSCOPE
  | BSON_TYPE_INT32
  | BSON_TYPE_TIMESTAMP
  | BSON_TYPE_INT64
  | BSON_TYPE_MAXKEY
  | BSON_TYPE_MINKEY
  | BSON_TYPE_OTHER byte

text \<open>The cast from a byte of the document to the enumeration, and the code of a type.\<close>

definition bson_type_of :: "byte \<Rightarrow> bson_type_t" where
  "bson_type_of b =
     (if b = 0 then BSON_TYPE_EOD
      else if b = 1 then BSON_TYPE_DOUBLE
      else if b = 2 then BSON_TYPE_UTF8
      else if b = 3 then BSON_TYPE_DOCUMENT
      else if b = 4 then BSON_TYPE_ARRAY
      else if b = 5 then BSON_TYPE_BINARY
      else if b = 6 then BSON_TYPE_UNDEFINED
      else if b = 7 then BSON_TYPE_OID
      else if b = 8 then BSON_TYPE_BOOL
      else if b = 9 then BSON_TYPE_DATE_TIME
      else if b = 10 then BSON_TYPE_NULL
      else if b = 11 then BSON_TYPE_REGEX
      else if b = 12 then BSON_TYPE_DBPOINTER
      else if b = 13 then BSON_TYPE_CODE
      else if b = 14 then BSON_TYPE_SYMBOL
      else if b = 15 then BSON_TYPE_CODEWSCOPE
      else if b = 16 then BSON_TYPE_INT32
      else if b = 17 then BSON_TYPE_TIMESTAMP
      else if b = 18 then BSON_TYPE_INT64
      else if b = 127 then BSON_TYPE_MAXKEY
      else if b = 255 then BSON_TYPE_MINKEY
      else BSON_TYPE_OTHER b)"

fun type_code :: "bson_type_t \<Rightarrow> byte" where
  "type_code BSON_TYPE_EOD = 0"
| "type_code BSON_TYPE_DOUBLE = 1"
| "type_code BSON_TYPE_UTF8 = 2"
| "type_code BSON_TYPE_DOCUMENT = 3"
| "type_code BSON_TYPE_ARRAY = 4"
| "type_code BSON_TYPE_BINARY = 5"
| "type_code BSON_TYPE_UNDEFINED = 6"
| "type_code BSON_TYPE_OID = 7"
| "type_code BSON_TYPE_BOOL = 8"
| "type_code BSON_TYPE_DATE_TIME = 9"
| "type_code BSON_TYPE_NULL = 10"
| "type_code BSON_TYPE_REGEX = 11"
| "type_code BSON_TYPE_DBPOINTER = 12"
| "type_code BSON_TYPE_CODE = 13"
| "type_code BSON_TYPE_SYMBOL = 14"
| "type_code BSON_TYPE_CODEWSCOPE = 15"
| "type_code BSON_TYPE_INT32 = 16"
| "type_code BSON_TYPE_TIMESTAMP = 17"
| "type_code BSON_TYPE_INT64 = 18"
| "type_code BSON_TYPE_MAXKEY = 127"
| "type_code BSON_TYPE_MINKEY = 255"
| "type_code (BSON_TYPE_OTHER b) = b"

lemma type_code_bson_type_of [simp]: "type_code (bson_type_of b) = b"
  by (simp add: bson_type_of_def)

lemma bson_type_of_type_code [simp]:
  "(\<forall>b. t \<noteq> BSON_TYPE_OTHER b) \<Longrightarrow> bson_type_of (type_code t) = t"
  by (cases t) (simp_all add: bson_type_of_def)

abbreviation (input) BSON_SUBTYPE_BINARY :: byte where
  "BSON_SUBTYPE_BINARY \<equiv> 0"

abbreviation (input) BSON_SUBTYPE_BINARY_DEPRECATED :: byte where
  "BSON_SUBTYPE_BINARY_DEPRECATED \<equiv> 2"

section \<open>Documents\<close>

datatype bson_flag =
    BSON_FLAG_INLINE
  | BSON_FLAG_STATIC
  | BSON_FLAG_RDONLY
  | BSON_FLAG_CHILD
  | BSON_FLAG_IN_CHILD
  | BSON_FLAG_NO_FREE

record bson_t =
  b_flags :: "bson_flag set"
  b_len :: nat
  b_buf :: "byte list"
  b_offset :: nat
  b_depth :: nat
  b_realloc :: bool

abbreviation (input) BSON_MAX_SIZE :: nat where
  "BSON_MAX_SIZE \<equiv> 2147483647"

text \<open>\<open>_bson_data\<close>: the bytes from the start of the document to the end of its buffer.\<close>

definition bson_data :: "bson_t \<Rightarrow> view" where
  "bson_data b = drop (b_offset b) (b_buf b)"

definition bson_get_data :: "bson_t \<Rightarrow> view" where
  "bson_get_data b = bson_data b"

text \<open>The document itself: the first \<open>len\<close> bytes.\<close>

definition bson_bytes :: "bson_t \<Rightarrow> byte list" where
  "bson_bytes b = take (b_len b) (bson_data b)"

text \<open>
  A read-only handle on a buffer of the caller. The stored length, which is compared, and the last
  byte are read, so \<open>length\<close> is trusted to be within the buffer.
\<close>

definition bson_init_static :: "view \<Rightarrow> nat \<Rightarrow> bson_t option result" where
  "bson_init_static data len =
     (if len < 5 \<or> len > INT32_MAX then Ok None
      else rbind (rd32 data 0) (\<lambda>stored.
        if stored \<noteq> len then Ok None
        else rbind (rd8 data (len - 1)) (\<lambda>b.
          if b \<noteq> 0 then Ok None
          else Ok (Some \<lparr>b_flags = {BSON_FLAG_STATIC, BSON_FLAG_RDONLY}, b_len = len,
                        b_buf = take len data, b_offset = 0, b_depth = 0, b_realloc = False\<rparr>))))"

lemma bson_init_static_some:
  assumes "bson_init_static data len = Ok (Some b)"
  shows "b_len b = len \<and> bson_data b = take len data \<and> len \<le> length data \<and> 5 \<le> len
     \<and> len \<le> INT32_MAX \<and> len_at data 0 = len \<and> data ! (len - 1) = 0
     \<and> b_flags b = {BSON_FLAG_STATIC, BSON_FLAG_RDONLY}"
  using assms
  by (auto simp: bson_init_static_def rd8_def rd32_def rdn_def len_at_def bson_data_def
        rbind_Ok_iff split: if_splits)

section \<open>Iterators\<close>

record bson_iter_t =
  i_raw :: "view option"
  i_len :: nat
  i_off :: nat
  i_type :: nat
  i_key :: nat
  i_d1 :: nat
  i_d2 :: nat
  i_d3 :: nat
  i_d4 :: nat
  i_next_off :: nat
  i_err_off :: nat

end
