(* ===== verification/Bson_Iter.thy ===== *)
theory Bson_Iter
  imports Bson_Types
begin

text \<open>
  \<open>bson-iter.c\<close>: starting an iterator and moving it to the next element. The switch of
  \<open>bson_iter_next\<close> is split into one definition per group of cases; \<open>Invalid\<close> is the jump
  to \<open>mark_invalid\<close>, \<open>Filled\<close> carries the value of the offset variable \<open>o\<close> where the switch
  is left.

  The main results: on any bytes whatsoever, an iterator whose length does not exceed its
  buffer or 2 GiB never reads outside it, every step that succeeds moves strictly forward, and
  the offsets it leaves describe a field that lies inside the document.
\<close>

section \<open>Initialisation\<close>

definition iter_at_start :: "view option \<Rightarrow> nat \<Rightarrow> bson_iter_t" where
  "iter_at_start data len =
     \<lparr>i_raw = data, i_len = len, i_off = 0, i_type = 0, i_key = 0,
      i_d1 = 0, i_d2 = 0, i_d3 = 0, i_d4 = 0, i_next_off = 4, i_err_off = 0\<rparr>"

definition iter_zero :: bson_iter_t where
  "iter_zero =
     \<lparr>i_raw = None, i_len = 0, i_off = 0, i_type = 0, i_key = 0,
      i_d1 = 0, i_d2 = 0, i_d3 = 0, i_d4 = 0, i_next_off = 0, i_err_off = 0\<rparr>"

definition bson_iter_init :: "bson_t \<Rightarrow> bool \<times> bson_iter_t" where
  "bson_iter_init bson =
     (if b_len bson < 5 then (False, iter_zero)
      else (True, iter_at_start (Some (bson_get_data bson)) (b_len bson)))"

section \<open>The type of the current field\<close>

definition iter_view :: "bson_iter_t \<Rightarrow> view result" where
  "iter_view it = (case i_raw it of None \<Rightarrow> Fault Null_Deref | Some v \<Rightarrow> Ok v)"

definition ITER_TYPE :: "bson_iter_t \<Rightarrow> bson_type_t result" where
  "ITER_TYPE it =
     rbind (iter_view it) (\<lambda>v. rbind (rd8 v (i_type it)) (\<lambda>b. Ok (bson_type_of b)))"

section \<open>Advancing\<close>

datatype fill = Filled nat bson_iter_t | Invalid bson_iter_t

text \<open>The loops that look for a NUL byte; \<open>o < len < 2\<^sup>3\<^sup>2\<close> keeps the increment exact.\<close>

function scan_nul :: "view \<Rightarrow> nat \<Rightarrow> nat \<Rightarrow> nat option result" where
  "scan_nul data len o1 =
     (if o1 < len
      then rbind (rd8 data o1) (\<lambda>b. if b = 0 then Ok (Some o1) else scan_nul data len (Suc o1))
      else Ok None)"
  by pat_completeness auto
termination
  by (relation "measure (\<lambda>(data, len, o1). len - o1)") auto

declare scan_nul.simps [simp del]

definition fill_fixed :: "bson_iter_t \<Rightarrow> nat \<Rightarrow> nat \<Rightarrow> fill result" where
  "fill_fixed it o1 n = Ok (Filled o1 (it\<lparr>i_next_off := w32 (o1 + n)\<rparr>))"

definition fill_string :: "bson_iter_t \<Rightarrow> view \<Rightarrow> nat \<Rightarrow> nat \<Rightarrow> fill result" where
  "fill_string it data len o1 =
     (if w32 (o1 + 4) \<ge> len then Ok (Invalid (it\<lparr>i_err_off := o1\<rparr>))
      else
        let it2 = it\<lparr>i_d2 := w32 (o1 + 4)\<rparr> in
        rbind (rd32 data (i_d1 it2)) (\<lambda>l.
          if l > sub32 len (w32 (o1 + 4)) then Ok (Invalid (it2\<lparr>i_err_off := o1\<rparr>))
          else
            let it3 = it2\<lparr>i_next_off := w32 (o1 + 4 + l)\<rparr> in
            if l = 0 \<or> i_next_off it3 \<ge> len then Ok (Invalid (it3\<lparr>i_err_off := o1\<rparr>))
            else rbind (rd8 data (i_d2 it3 + (l - 1))) (\<lambda>b.
              if b \<noteq> 0 then Ok (Invalid (it3\<lparr>i_err_off := w32 (o1 + 4 + l - 1)\<rparr>))
              else Ok (Filled o1 it3))))"

definition fill_binary :: "bson_iter_t \<Rightarrow> view \<Rightarrow> nat \<Rightarrow> nat \<Rightarrow> fill result" where
  "fill_binary it data len o1 =
     (if o1 \<ge> sub32 len 4 then Ok (Invalid (it\<lparr>i_err_off := o1\<rparr>))
      else
        let it2 = it\<lparr>i_d2 := w32 (o1 + 4), i_d3 := w32 (o1 + 5)\<rparr> in
        rbind (rd32 data (i_d1 it2)) (\<lambda>l.
          if l \<ge> sub32 len o1 then Ok (Invalid (it2\<lparr>i_err_off := o1\<rparr>))
          else rbind (rd8 data (i_d2 it2)) (\<lambda>subtype.
            if subtype = BSON_SUBTYPE_BINARY_DEPRECATED \<and> l < 4
            then Ok (Invalid (it2\<lparr>i_err_off := o1\<rparr>))
            else Ok (Filled o1 (it2\<lparr>i_next_off := w32 (o1 + 5 + l)\<rparr>)))))"

definition fill_document :: "bson_iter_t \<Rightarrow> view \<Rightarrow> nat \<Rightarrow> nat \<Rightarrow> fill result" where
  "fill_document it data len o1 =
     (if o1 \<ge> sub32 len 4 then Ok (Invalid (it\<lparr>i_err_off := o1\<rparr>))
      else rbind (rd32 data (i_d1 it)) (\<lambda>l.
        if l > len \<or> l > sub32 len o1 then Ok (Invalid (it\<lparr>i_err_off := o1\<rparr>))
        else Ok (Filled o1 (it\<lparr>i_next_off := w32 (o1 + l)\<rparr>))))"

definition fill_regex :: "bson_iter_t \<Rightarrow> view \<Rightarrow> nat \<Rightarrow> nat \<Rightarrow> fill result" where
  "fill_regex it data len o1 =
     rbind (scan_nul data len o1) (\<lambda>eor.
       case eor of
         None \<Rightarrow> Ok (Invalid (it\<lparr>i_err_off := i_next_off it\<rparr>))
       | Some z \<Rightarrow>
           let o2 = w32 (z + 1); it2 = it\<lparr>i_d2 := o2\<rparr> in
           rbind (scan_nul data len o2) (\<lambda>eoo.
             case eoo of
               None \<Rightarrow> Ok (Invalid (it2\<lparr>i_err_off := i_next_off it2\<rparr>))
             | Some z2 \<Rightarrow> Ok (Filled z2 (it2\<lparr>i_next_off := w32 (z2 + 1)\<rparr>))))"

definition fill_dbpointer :: "bson_iter_t \<Rightarrow> view \<Rightarrow> nat \<Rightarrow> nat \<Rightarrow> fill result" where
  "fill_dbpointer it data len o1 =
     (if o1 \<ge> sub32 len 4 then Ok (Invalid (it\<lparr>i_err_off := o1\<rparr>))
      else
        let it2 = it\<lparr>i_d2 := w32 (o1 + 4)\<rparr> in
        rbind (rd32 data (i_d1 it2)) (\<lambda>l.
          if l > len \<or> l > sub32 len o1 then Ok (Invalid (it2\<lparr>i_err_off := o1\<rparr>))
          else Ok (Filled o1 (it2\<lparr>i_d3 := w32 (o1 + 4 + l),
                                   i_next_off := w32 (o1 + 4 + l + 12)\<rparr>))))"

definition fill_codewscope :: "bson_iter_t \<Rightarrow> view \<Rightarrow> nat \<Rightarrow> nat \<Rightarrow> fill result" where
  "fill_codewscope it data len o1 =
     (if len < 19 \<or> o1 \<ge> sub32 len 14 then Ok (Invalid (it\<lparr>i_err_off := o1\<rparr>))
      else
        let it2 = it\<lparr>i_d2 := w32 (o1 + 4), i_d3 := w32 (o1 + 8)\<rparr> in
        rbind (rd32 data (i_d1 it2)) (\<lambda>l.
          if l < 14 \<or> l \<ge> sub32 len o1 then Ok (Invalid (it2\<lparr>i_err_off := o1\<rparr>))
          else
            let it3 = it2\<lparr>i_next_off := w32 (o1 + l)\<rparr> in
            if i_next_off it3 \<ge> len then Ok (Invalid (it3\<lparr>i_err_off := o1\<rparr>))
            else rbind (rd32 data (i_d2 it3)) (\<lambda>l2.
              if l2 \<ge> sub32 (sub32 (sub32 len o1) 4) 4
              then Ok (Invalid (it3\<lparr>i_err_off := o1\<rparr>))
              else if w32 (o1 + 4 + 4 + l2 + 4) \<ge> i_next_off it3
              then Ok (Invalid (it3\<lparr>i_err_off := w32 (o1 + 4)\<rparr>))
              else
                let it4 = it3\<lparr>i_d4 := w32 (o1 + 4 + 4 + l2)\<rparr> in
                rbind (rd32 data (i_d4 it4)) (\<lambda>doclen.
                  if w32 (o1 + 4 + 4 + l2 + doclen) \<noteq> i_next_off it4
                  then Ok (Invalid (it4\<lparr>i_err_off := w32 (o1 + 4 + 4 + l2)\<rparr>))
                  else Ok (Filled o1 it4)))))"

definition fill_empty :: "bson_iter_t \<Rightarrow> nat \<Rightarrow> fill result" where
  "fill_empty it o1 = Ok (Filled o1 (it\<lparr>i_d1 := 4294967295, i_next_off := o1\<rparr>))"

definition fill_data_fields :: "bson_iter_t \<Rightarrow> view \<Rightarrow> nat \<Rightarrow> nat \<Rightarrow> fill result" where
  "fill_data_fields it data len o1 =
     rbind (ITER_TYPE it) (\<lambda>t.
       if t \<in> {BSON_TYPE_DATE_TIME, BSON_TYPE_DOUBLE, BSON_TYPE_INT64, BSON_TYPE_TIMESTAMP}
       then fill_fixed it o1 8
       else if t \<in> {BSON_TYPE_CODE, BSON_TYPE_SYMBOL, BSON_TYPE_UTF8}
       then fill_string it data len o1
       else if t = BSON_TYPE_BINARY then fill_binary it data len o1
       else if t \<in> {BSON_TYPE_ARRAY, BSON_TYPE_DOCUMENT} then fill_document it data len o1
       else if t = BSON_TYPE_OID then fill_fixed it o1 12
       else if t = BSON_TYPE_BOOL then fill_fixed it o1 1
       else if t = BSON_TYPE_REGEX then fill_regex it data len o1
       else if t = BSON_TYPE_DBPOINTER then fill_dbpointer it data len o1
       else if t = BSON_TYPE_CODEWSCOPE then fill_codewscope it data len o1
       else if t = BSON_TYPE_INT32 then fill_fixed it o1 4
       else if t \<in> {BSON_TYPE_MAXKEY, BSON_TYPE_MINKEY, BSON_TYPE_NULL, BSON_TYPE_UNDEFINED}
       then fill_empty it o1
       else Ok (Invalid (it\<lparr>i_err_off := o1\<rparr>)))"

definition mark_invalid :: "bson_iter_t \<Rightarrow> bson_iter_t" where
  "mark_invalid it = it\<lparr>i_raw := None, i_len := 0, i_next_off := 0\<rparr>"

definition iter_begin :: "bson_iter_t \<Rightarrow> bson_iter_t" where
  "iter_begin it =
     it\<lparr>i_off := i_next_off it, i_type := i_next_off it, i_key := w32 (i_next_off it + 1),
        i_d1 := 0, i_d2 := 0, i_d3 := 0, i_d4 := 0\<rparr>"

definition bson_iter_next :: "bson_iter_t \<Rightarrow> (bool \<times> bson_iter_t) result" where
  "bson_iter_next it =
     (case i_raw it of
        None \<Rightarrow> Ok (False, it)
      | Some data \<Rightarrow>
          let len = i_len it; it1 = iter_begin it in
          rbind (scan_nul data len (w32 (i_off it1 + 1))) (\<lambda>r.
            case r of
              None \<Rightarrow> Ok (False, mark_invalid it1)
            | Some z \<Rightarrow>
                let o1 = w32 (z + 1) in
                rbind (fill_data_fields (it1\<lparr>i_d1 := o1\<rparr>) data len o1) (\<lambda>f.
                  case f of
                    Invalid it3 \<Rightarrow> Ok (False, mark_invalid it3)
                  | Filled o2 it3 \<Rightarrow>
                      if i_next_off it3 \<ge> len
                      then Ok (False, mark_invalid (it3\<lparr>i_err_off := o2\<rparr>))
                      else Ok (True, it3\<lparr>i_err_off := 0\<rparr>))))"

section \<open>Well-formed iterators and the layout of a field\<close>

definition iter_ok :: "bson_iter_t \<Rightarrow> bool" where
  "iter_ok it =
     (case i_raw it of
        None \<Rightarrow> True
      | Some v \<Rightarrow> i_len it \<le> length v \<and> i_len it \<le> INT32_MAX
                  \<and> 4 \<le> i_next_off it \<and> i_next_off it \<le> INT32_MAX)"

definition field_layout :: "bson_type_t \<Rightarrow> view \<Rightarrow> bson_iter_t \<Rightarrow> bool" where
  "field_layout t v it =
     (let d1 = i_d1 it; n = i_next_off it in
      case t of
        BSON_TYPE_DOUBLE \<Rightarrow> n = d1 + 8
      | BSON_TYPE_DATE_TIME \<Rightarrow> n = d1 + 8
      | BSON_TYPE_INT64 \<Rightarrow> n = d1 + 8
      | BSON_TYPE_TIMESTAMP \<Rightarrow> n = d1 + 8
      | BSON_TYPE_UTF8 \<Rightarrow>
          i_d2 it = d1 + 4 \<and> 0 < len_at v d1 \<and> n = d1 + 4 + len_at v d1 \<and> v ! (n - 1) = 0
      | BSON_TYPE_CODE \<Rightarrow>
          i_d2 it = d1 + 4 \<and> 0 < len_at v d1 \<and> n = d1 + 4 + len_at v d1 \<and> v ! (n - 1) = 0
      | BSON_TYPE_SYMBOL \<Rightarrow>
          i_d2 it = d1 + 4 \<and> 0 < len_at v d1 \<and> n = d1 + 4 + len_at v d1 \<and> v ! (n - 1) = 0
      | BSON_TYPE_BINARY \<Rightarrow>
          i_d2 it = d1 + 4 \<and> i_d3 it = d1 + 5 \<and> n = d1 + 5 + len_at v d1
          \<and> (v ! (d1 + 4) = BSON_SUBTYPE_BINARY_DEPRECATED \<longrightarrow> 4 \<le> len_at v d1)
      | BSON_TYPE_DOCUMENT \<Rightarrow> n = d1 + len_at v d1 \<and> d1 + 4 < i_len it
      | BSON_TYPE_ARRAY \<Rightarrow> n = d1 + len_at v d1 \<and> d1 + 4 < i_len it
      | BSON_TYPE_OID \<Rightarrow> n = d1 + 12
      | BSON_TYPE_BOOL \<Rightarrow> n = d1 + 1
      | BSON_TYPE_REGEX \<Rightarrow>
          d1 < i_d2 it \<and> i_d2 it < n \<and> v ! (i_d2 it - 1) = 0 \<and> v ! (n - 1) = 0
          \<and> (\<forall>j \<in> {d1..<i_d2 it - 1} \<union> {i_d2 it..<n - 1}. v ! j \<noteq> 0)
      | BSON_TYPE_DBPOINTER \<Rightarrow>
          i_d2 it = d1 + 4 \<and> i_d3 it = d1 + 4 + len_at v d1 \<and> n = i_d3 it + 12
      | BSON_TYPE_CODEWSCOPE \<Rightarrow>
          i_d2 it = d1 + 4 \<and> i_d3 it = d1 + 8 \<and> i_d4 it = d1 + 8 + len_at v (d1 + 4)
          \<and> n = d1 + len_at v d1 \<and> n = i_d4 it + len_at v (i_d4 it) \<and> i_d4 it + 4 < n
      | BSON_TYPE_INT32 \<Rightarrow> n = d1 + 4
      | BSON_TYPE_MAXKEY \<Rightarrow> True
      | BSON_TYPE_MINKEY \<Rightarrow> True
      | BSON_TYPE_NULL \<Rightarrow> True
      | BSON_TYPE_UNDEFINED \<Rightarrow> True
      | _ \<Rightarrow> False)"

text \<open>The types without a value; for them \<open>d1\<close> is -1.\<close>

definition no_value :: "bson_type_t \<Rightarrow> bool" where
  "no_value t \<longleftrightarrow> t \<in> {BSON_TYPE_MAXKEY, BSON_TYPE_MINKEY, BSON_TYPE_NULL, BSON_TYPE_UNDEFINED}"

text \<open>
  An iterator that stands on a field: the type byte and the key lie inside the document, the
  key is terminated, and the value occupies the bytes up to \<open>next_off\<close>.
\<close>

definition on_field :: "bson_iter_t \<Rightarrow> bool" where
  "on_field it =
     (case i_raw it of
        None \<Rightarrow> False
      | Some v \<Rightarrow>
          i_len it \<le> length v \<and> i_len it \<le> INT32_MAX \<and> 4 \<le> i_off it
          \<and> i_type it = i_off it \<and> i_key it = Suc (i_off it)
          \<and> i_key it < i_next_off it \<and> i_next_off it < i_len it
          \<and> 0 \<in> set (take (i_next_off it - i_key it) (drop (i_key it) v))
          \<and> (\<not> no_value (bson_type_of (v ! i_type it)) \<longrightarrow> i_key it < i_d1 it)
          \<and> field_layout (bson_type_of (v ! i_type it)) v it)"

lemma field_layout_err_off [simp]: "field_layout t v (it\<lparr>i_err_off := e\<rparr>) = field_layout t v it"
  by (cases t) (simp_all add: field_layout_def)

lemma on_field_iter_ok: "on_field it \<Longrightarrow> iter_ok it"
  by (auto simp: on_field_def iter_ok_def split: option.splits)

section \<open>Safety of the steps\<close>

definition fill_holds :: "fill result \<Rightarrow> (nat \<Rightarrow> bson_iter_t \<Rightarrow> bool) \<Rightarrow> bool" where
  "fill_holds m P =
     (case m of Inl _ \<Rightarrow> False | Inr (Invalid _) \<Rightarrow> True | Inr (Filled o2 it) \<Rightarrow> P o2 it)"

lemma fill_holds_simps [simp]:
  "\<not> fill_holds (Fault e) P"
  "fill_holds (Ok (Invalid it)) P"
  "fill_holds (Ok (Filled o2 it)) P = P o2 it"
  by (simp_all add: fill_holds_def)

lemma fill_holds_mono: "fill_holds m P \<Longrightarrow> (\<And>o2 it. P o2 it \<Longrightarrow> Q o2 it) \<Longrightarrow> fill_holds m Q"
  by (auto simp: fill_holds_def split: sum.splits fill.splits)

lemma scan_nul_spec:
  "len \<le> length data \<Longrightarrow>
     (\<exists>z. scan_nul data len o1 = Ok (Some z) \<and> o1 \<le> z \<and> z < len \<and> data ! z = 0
          \<and> (\<forall>j. o1 \<le> j \<and> j < z \<longrightarrow> data ! j \<noteq> 0))
     \<or> (scan_nul data len o1 = Ok None \<and> (\<forall>j. o1 \<le> j \<and> j < len \<longrightarrow> data ! j \<noteq> 0))"
proof (induction data len o1 rule: scan_nul.induct)
  case (1 data len o1)
  show ?case
  proof (cases "o1 < len \<and> data ! o1 \<noteq> 0")
    case True
    with "1.prems" have rd: "rd8 data o1 = Ok (data ! o1)" by (simp add: view_simps)
    with True have eq: "scan_nul data len o1 = scan_nul data len (Suc o1)"
      by (simp add: scan_nul.simps [of data len o1])
    have step: "\<forall>j. o1 \<le> j \<and> j < n \<longrightarrow> data ! j \<noteq> 0"
      if "\<forall>j. Suc o1 \<le> j \<and> j < n \<longrightarrow> data ! j \<noteq> 0" for n
      using that True by (metis Suc_leI le_neq_implies_less)
    from "1.IH" [OF _ rd] True "1.prems"
    consider z where "scan_nul data len (Suc o1) = Ok (Some z)" "Suc o1 \<le> z" "z < len"
        "data ! z = 0" "\<forall>j. Suc o1 \<le> j \<and> j < z \<longrightarrow> data ! j \<noteq> 0"
      | "scan_nul data len (Suc o1) = Ok None" "\<forall>j. Suc o1 \<le> j \<and> j < len \<longrightarrow> data ! j \<noteq> 0"
      by blast
    then show ?thesis unfolding eq by cases (simp_all add: step Suc_leD)
  next
    case False
    with "1.prems" show ?thesis
      by (auto simp: scan_nul.simps [of data len o1] view_simps)
  qed
qed

lemma scan_nul_cases [consumes 1]:
  assumes "len \<le> length data"
  obtains (found) z where "scan_nul data len o1 = Ok (Some z)" "o1 \<le> z" "z < len" "data ! z = 0"
      "\<And>j. o1 \<le> j \<Longrightarrow> j < z \<Longrightarrow> data ! j \<noteq> 0"
    | (missing) "scan_nul data len o1 = Ok None"
  using scan_nul_spec [OF assms, of o1] by blast

text \<open>
  The cases of the switch, each under the assumptions that hold when it is reached: \<open>o1\<close> is at
  most \<open>len\<close> and \<open>d1\<close> is \<open>o1\<close>.
\<close>

lemma fill_string_spec:
  assumes "len \<le> length data" "len \<le> INT32_MAX" "o1 \<le> len" "i_d1 it = o1"
  shows "fill_holds (fill_string it data len o1) (\<lambda>o2 it'. o2 = o1
     \<and> it' = it\<lparr>i_d2 := o1 + 4, i_next_off := o1 + 4 + len_at data o1\<rparr>
     \<and> 0 < len_at data o1 \<and> i_next_off it' < len \<and> data ! (i_next_off it' - 1) = 0)"
  using assms len_at_bound [of data o1]
  by (auto simp: fill_string_def Let_def wrap_simps view_simps not_less not_le)

lemma fill_binary_spec:
  assumes "len \<le> length data" "len \<le> INT32_MAX" "o1 \<le> len" "i_d1 it = o1" "4 \<le> len"
  shows "fill_holds (fill_binary it data len o1) (\<lambda>o2 it'. o2 = o1
     \<and> it' = it\<lparr>i_d2 := o1 + 4, i_d3 := o1 + 5, i_next_off := o1 + 5 + len_at data o1\<rparr>
     \<and> (data ! (o1 + 4) = BSON_SUBTYPE_BINARY_DEPRECATED \<longrightarrow> 4 \<le> len_at data o1))"
  using assms len_at_bound [of data o1]
  by (auto simp: fill_binary_def Let_def wrap_simps view_simps not_less not_le)

lemma fill_document_spec:
  assumes "len \<le> length data" "len \<le> INT32_MAX" "o1 \<le> len" "i_d1 it = o1" "4 \<le> len"
  shows "fill_holds (fill_document it data len o1) (\<lambda>o2 it'. o2 = o1
     \<and> it' = it\<lparr>i_next_off := o1 + len_at data o1\<rparr> \<and> o1 + 4 < len)"
  using assms len_at_bound [of data o1]
  by (auto simp: fill_document_def Let_def wrap_simps view_simps not_less not_le)

lemma fill_dbpointer_spec:
  assumes "len \<le> length data" "len \<le> INT32_MAX" "o1 \<le> len" "i_d1 it = o1" "4 \<le> len"
  shows "fill_holds (fill_dbpointer it data len o1) (\<lambda>o2 it'. o2 = o1
     \<and> it' = it\<lparr>i_d2 := o1 + 4, i_d3 := o1 + 4 + len_at data o1,
                i_next_off := o1 + 4 + len_at data o1 + 12\<rparr>)"
  using assms len_at_bound [of data o1]
  by (auto simp: fill_dbpointer_def Let_def wrap_simps view_simps not_less not_le)

lemma fill_regex_spec:
  assumes "len \<le> length data" "len \<le> INT32_MAX" "o1 \<le> len"
  shows "fill_holds (fill_regex it data len o1) (\<lambda>o2 it'. \<exists>z z2.
     o2 = z2 \<and> it' = it\<lparr>i_d2 := Suc z, i_next_off := Suc z2\<rparr>
     \<and> o1 \<le> z \<and> z < z2 \<and> z2 < len \<and> data ! z = 0 \<and> data ! z2 = 0
     \<and> (\<forall>j \<in> {o1..<z} \<union> {Suc z..<z2}. data ! j \<noteq> 0))"
using assms(1)
proof (cases rule: scan_nul_cases [of _ _ o1])
  case (found z)
  then have o2: "w32 (z + 1) = Suc z" using assms(2) by (simp add: wrap_simps)
  show ?thesis using assms(1)
  proof (cases rule: scan_nul_cases [of _ _ "Suc z"])
    case (found z2)
    with \<open>z < len\<close> assms(2) \<open>o1 \<le> z\<close> \<open>data ! z = 0\<close> \<open>scan_nul data len o1 = Ok (Some z)\<close> o2
      \<open>\<And>j. o1 \<le> j \<Longrightarrow> j < z \<Longrightarrow> data ! j \<noteq> 0\<close>
    show ?thesis
      by (auto simp: fill_regex_def Let_def wrap_simps intro!: exI [of _ z])
  next
    case missing
    with found o2 show ?thesis by (simp add: fill_regex_def Let_def)
  qed
next
  case missing
  then show ?thesis by (simp add: fill_regex_def)
qed

lemma fill_codewscope_spec:
  assumes "len \<le> length data" "len \<le> INT32_MAX" "o1 \<le> len" "i_d1 it = o1"
  shows "fill_holds (fill_codewscope it data len o1) (\<lambda>o2 it'. o2 = o1
     \<and> it' = it\<lparr>i_d2 := o1 + 4, i_d3 := o1 + 8, i_d4 := o1 + 8 + len_at data (o1 + 4),
                i_next_off := o1 + len_at data o1\<rparr>
     \<and> i_next_off it' < len \<and> i_d4 it' + 4 < i_next_off it'
     \<and> i_next_off it' = i_d4 it' + len_at data (i_d4 it'))"
proof -
  have wrap: "x + y = n" if "w32 (x + y) = n" "x < n" "n \<le> INT32_MAX" "y < 4294967296" for x y n
  proof (cases "x + y < 4294967296")
    case False
    then have "(x + y) mod 4294967296 = x + y - 4294967296"
      using that by (simp add: mod_if)
    with that False show ?thesis by (simp add: w32_def)
  qed (use that in \<open>simp add: w32_def\<close>)
  note b = len_at_bound [of data]
  show ?thesis
    using assms b [of o1] b [of "o1 + 4"] b [of "o1 + 8 + len_at data (o1 + 4)"]
      wrap [of "o1 + 8 + len_at data (o1 + 4)" "len_at data (o1 + 8 + len_at data (o1 + 4))"
              "o1 + len_at data o1"]
    by (auto simp: fill_codewscope_def Let_def wrap_simps view_simps not_less not_le ac_simps)
qed

definition same_field :: "bson_iter_t \<Rightarrow> bson_iter_t \<Rightarrow> bool" where
  "same_field it it' \<longleftrightarrow> i_raw it' = i_raw it \<and> i_len it' = i_len it \<and> i_off it' = i_off it
     \<and> i_type it' = i_type it \<and> i_key it' = i_key it"

lemmas fill_specs =
  fill_string_spec fill_binary_spec fill_document_spec fill_dbpointer_spec fill_regex_spec
  fill_codewscope_spec

lemma fill_data_fields_spec:
  assumes "i_raw it = Some data" "i_len it = len" "i_type it < len" "i_d1 it = o1"
    and "len \<le> length data" "len \<le> INT32_MAX" "o1 \<le> len" "4 \<le> len"
  shows "fill_holds (fill_data_fields it data len o1) (\<lambda>o2 it'.
     same_field it it' \<and> o1 \<le> i_next_off it'
     \<and> (\<not> no_value (bson_type_of (data ! i_type it)) \<longrightarrow> i_d1 it' = o1)
     \<and> (i_next_off it' < len \<longrightarrow> field_layout (bson_type_of (data ! i_type it)) data it'))"
proof -
  define t where "t = bson_type_of (data ! i_type it)"
  have ty: "ITER_TYPE it = Ok t"
    using assms by (simp add: ITER_TYPE_def iter_view_def view_simps t_def)
  show ?thesis
    unfolding t_def [symmetric]
    using assms
    by (cases t)
      (simp_all add: fill_data_fields_def ty fill_fixed_def fill_empty_def wrap_simps
         field_layout_def same_field_def no_value_def,
       (rule fill_holds_mono [OF fill_string_spec] fill_holds_mono [OF fill_binary_spec]
          fill_holds_mono [OF fill_document_spec] fill_holds_mono [OF fill_dbpointer_spec]
          fill_holds_mono [OF fill_regex_spec] fill_holds_mono [OF fill_codewscope_spec]; auto)+)
qed

text \<open>What one step does to a well-formed iterator, on any bytes.\<close>

definition stepped :: "bson_iter_t \<Rightarrow> bson_iter_t \<Rightarrow> bool" where
  "stepped it it' \<longleftrightarrow> on_field it' \<and> i_raw it' = i_raw it \<and> i_len it' = i_len it
     \<and> i_off it' = i_next_off it \<and> i_next_off it + 2 \<le> i_next_off it' \<and> i_err_off it' = 0"

lemma bson_iter_next_cases:
  assumes "iter_ok it"
  shows "(\<exists>it'. bson_iter_next it = Ok (True, it') \<and> stepped it it')
       \<or> (\<exists>it'. bson_iter_next it = Ok (False, it') \<and> i_raw it' = None)"
proof (cases "i_raw it")
  case None
  then show ?thesis by (simp add: bson_iter_next_def)
next
  case (Some data)
  define len where "len = i_len it"
  define it1 where "it1 = iter_begin it"
  from assms Some have len: "len \<le> length data" "len \<le> INT32_MAX"
    and off: "4 \<le> i_next_off it" "i_next_off it \<le> INT32_MAX"
    by (simp_all add: iter_ok_def len_def)
  have it1: "i_raw it1 = Some data" "i_len it1 = len" "i_off it1 = i_next_off it"
    "i_type it1 = i_next_off it" "i_key it1 = Suc (i_next_off it)"
    using Some off by (simp_all add: it1_def iter_begin_def len_def wrap_simps)
  from off have start: "w32 (i_off it1 + 1) = Suc (i_next_off it)"
    by (simp add: it1(3) wrap_simps)
  show ?thesis using len(1)
  proof (cases rule: scan_nul_cases [of _ _ "Suc (i_next_off it)"])
    case (found z)
    define it2 where "it2 = it1\<lparr>i_d1 := Suc z\<rparr>"
    from found len have o1: "w32 (z + 1) = Suc z" by (simp add: wrap_simps)
    have eq: "bson_iter_next it = rbind (fill_data_fields it2 data len (Suc z)) (\<lambda>f.
        case f of
          Invalid it3 \<Rightarrow> Ok (False, mark_invalid it3)
        | Filled o2 it3 \<Rightarrow>
            if i_next_off it3 \<ge> len then Ok (False, mark_invalid (it3\<lparr>i_err_off := o2\<rparr>))
            else Ok (True, it3\<lparr>i_err_off := 0\<rparr>))"
      using Some start found(1) o1
      unfolding len_def it1_def it2_def by (simp add: bson_iter_next_def Let_def)
    have it2: "i_type it2 = i_next_off it" "i_raw it2 = Some data" "i_len it2 = len"
      "i_d1 it2 = Suc z" "i_off it2 = i_next_off it" "i_key it2 = Suc (i_next_off it)"
      using it1 by (simp_all add: it2_def)
    have nul: "0 \<in> set (take (n - Suc (i_next_off it)) (drop (Suc (i_next_off it)) data))"
      if "Suc z \<le> n" for n
      using that found len by (intro mem_take_drop [of _ z]) auto
    have "fill_holds (fill_data_fields it2 data len (Suc z)) (\<lambda>o2 it'.
        same_field it2 it' \<and> Suc z \<le> i_next_off it'
        \<and> (\<not> no_value (bson_type_of (data ! i_type it2)) \<longrightarrow> i_d1 it' = Suc z)
        \<and> (i_next_off it' < len \<longrightarrow> field_layout (bson_type_of (data ! i_type it2)) data it'))"
      using found(3) len off it2 found(2) by (intro fill_data_fields_spec) simp_all
    then consider o2 it3 where "fill_data_fields it2 data len (Suc z) = Ok (Filled o2 it3)"
        "same_field it2 it3" "Suc z \<le> i_next_off it3"
        "\<not> no_value (bson_type_of (data ! i_type it2)) \<Longrightarrow> i_d1 it3 = Suc z"
        "i_next_off it3 < len \<Longrightarrow> field_layout (bson_type_of (data ! i_type it2)) data it3"
      | it3 where "fill_data_fields it2 data len (Suc z) = Ok (Invalid it3)"
      by (auto simp: fill_holds_def split: sum.splits fill.splits)
    then show ?thesis
    proof cases
      case 1
      show ?thesis
      proof (cases "i_next_off it3 < len")
        case True
        with 1 have "stepped it (it3\<lparr>i_err_off := 0\<rparr>)"
          using Some it2 nul [of "i_next_off it3"] len off found(2) len_def
          by (simp add: stepped_def on_field_def same_field_def)
        with 1 True show ?thesis by (simp add: eq)
      qed (use 1 in \<open>simp add: eq mark_invalid_def\<close>)
    qed (simp add: eq mark_invalid_def)
  next
    case missing
    with Some start have "bson_iter_next it = Ok (False, mark_invalid it1)"
      unfolding len_def it1_def by (simp add: bson_iter_next_def Let_def)
    then show ?thesis by (simp add: mark_invalid_def)
  qed
qed

section \<open>Properties\<close>

text \<open>
  C5: on any bytes whatsoever, a step of an iterator whose length exceeds neither its buffer nor
  2 GiB reads only inside the buffer and returns; if it succeeds, it has moved strictly forward
  by at least a type byte and a key terminator, the field it stands on lies inside the document
  and is laid out as its type demands; if it fails, the iterator is closed for good.
\<close>

theorem bson_iter_next_memory_safe:
  assumes "iter_ok it"
  shows "\<exists>more it'. bson_iter_next it = Ok (more, it') \<and> iter_ok it'
     \<and> (more \<longrightarrow> on_field it' \<and> i_raw it' = i_raw it \<and> i_len it' = i_len it
           \<and> i_off it' = i_next_off it \<and> i_next_off it + 2 \<le> i_next_off it'
           \<and> i_next_off it' < i_len it)
     \<and> (\<not> more \<longrightarrow> bson_iter_next it' = Ok (False, it'))"
  using bson_iter_next_cases [OF assms]
proof
  assume "\<exists>it'. bson_iter_next it = Ok (True, it') \<and> stepped it it'"
  then obtain it' where "bson_iter_next it = Ok (True, it')" and s: "stepped it it'" by blast
  moreover from s have "on_field it'" by (simp add: stepped_def)
  moreover from this have "i_next_off it' < i_len it'"
    by (auto simp: on_field_def split: option.splits)
  ultimately show ?thesis using on_field_iter_ok s by (auto simp: stepped_def)
next
  assume "\<exists>it'. bson_iter_next it = Ok (False, it') \<and> i_raw it' = None"
  then show ?thesis by (auto simp: iter_ok_def bson_iter_next_def)
qed

theorem bson_iter_next_memory_safe_witness:
  "\<exists>more it'. bson_iter_next (iter_at_start (Some [12, 0, 0, 0, 16, 0x61, 0, 7, 0, 0, 0, 0]) 12)
       = Ok (more, it') \<and> more \<and> on_field it' \<and> i_next_off it' = 11"
proof -
  let ?it = "iter_at_start (Some [12, 0, 0, 0, 16, 0x61, 0, 7, 0, 0, 0, 0]) 12"
  have "iter_ok ?it" by (simp add: iter_ok_def iter_at_start_def)
  moreover have "map_sum id (\<lambda>(more, it'). (more, i_next_off it')) (bson_iter_next ?it) = Ok (True, 11)"
    by code_simp
  ultimately show ?thesis
    using bson_iter_next_memory_safe [of ?it] by auto
qed

end
