(* ===== verification/C_Float.thy ===== *)
theory C_Float
  imports Prelude
begin

text \<open>
  The floating-point conversions the sources rely on, on IEEE 754 bit patterns: \<open>double\<close> is a
  64-bit word, \<open>float\<close> a 32-bit word. Integer to floating point and \<open>double\<close> to \<open>float\<close> round to
  nearest, ties to even (the default mode, which nothing in the sources changes); floating point
  to integer truncates, and is a fault where C leaves it undefined (NaN, infinities, and values
  whose integral part does not fit the target).
\<close>

section \<open>Rounding\<close>

fun bitlen :: "nat \<Rightarrow> nat" where
  "bitlen n = (if n = 0 then 0 else Suc (bitlen (n div 2)))"

declare bitlen.simps [simp del]

text \<open>\<open>m / 2\<^sup>d\<close> to the nearest integer, ties to even.\<close>

definition round_even :: "nat \<Rightarrow> nat \<Rightarrow> nat" where
  "round_even m d =
     (let q = m div 2 ^ d; r = m mod 2 ^ d in
      if 2 * r > 2 ^ d \<or> (2 * r = 2 ^ d \<and> odd q) then q + 1 else q)"

text \<open>
  The magnitude bits of \<open>m \<cdot> 2\<^sup>e\<close> in the format with \<open>p\<close> significand bits (the hidden one
  included) and \<open>w\<close> exponent bits. Consecutive magnitudes have consecutive codes, so a carry out
  of the significand moves into the exponent by itself, and overflow is capped at infinity.
\<close>

definition fp_round :: "nat \<Rightarrow> nat \<Rightarrow> nat \<Rightarrow> int \<Rightarrow> nat" where
  "fp_round p w m e =
     (if m = 0 then 0
      else
        let qmin = 3 - 2 ^ (w - 1) - int p;
            q = max (int (bitlen m) - int p + e) qmin;
            r = (if q \<le> e then m * 2 ^ nat (e - q) else round_even m (nat (q - e)))
        in min (nat (q - qmin) * 2 ^ (p - 1) + r) ((2 ^ w - 1) * 2 ^ (p - 1)))"

section \<open>Double precision patterns\<close>

definition double_negative :: "64 word \<Rightarrow> bool" where
  "double_negative d \<longleftrightarrow> 2 ^ 63 \<le> unat d"

definition double_exponent :: "64 word \<Rightarrow> nat" where
  "double_exponent d = unat d div 2 ^ 52 mod 2048"

definition double_fraction :: "64 word \<Rightarrow> nat" where
  "double_fraction d = unat d mod 2 ^ 52"

text \<open>A finite value is \<open>\<plusminus> m \<cdot> 2\<^sup>e\<close>.\<close>

definition double_magnitude :: "64 word \<Rightarrow> nat \<times> int" where
  "double_magnitude d =
     (if double_exponent d = 0 then (double_fraction d, - 1074)
      else (double_fraction d + 2 ^ 52, int (double_exponent d) - 1075))"

text \<open>\<open>d == 0.0\<close>, true of both zeros and of nothing else.\<close>

definition double_is_zero :: "64 word \<Rightarrow> bool" where
  "double_is_zero d \<longleftrightarrow> unat d mod 2 ^ 63 = 0"

definition double_trunc :: "64 word \<Rightarrow> int option" where
  "double_trunc d =
     (if double_exponent d = 2047 then None
      else
        let (m, e) = double_magnitude d;
            t = (if 0 \<le> e then m * 2 ^ nat e else m div 2 ^ nat (- e))
        in Some (if double_negative d then - int t else int t))"

text \<open>The cast of a \<open>double\<close> to an integer type with the given range.\<close>

definition double_to_int :: "int \<Rightarrow> int \<Rightarrow> 64 word \<Rightarrow> int result" where
  "double_to_int lo hi d =
     (case double_trunc d of
        None \<Rightarrow> Fault Bad_Float_Cast
      | Some i \<Rightarrow> if lo \<le> i \<and> i \<le> hi then Ok i else Fault Bad_Float_Cast)"

section \<open>Conversions to floating point\<close>

definition int_to_double :: "int \<Rightarrow> 64 word" where
  "int_to_double i = of_nat ((if i < 0 then 2 ^ 63 else 0) + fp_round 53 11 (nat \<bar>i\<bar>) 0)"

definition int_to_float :: "int \<Rightarrow> 32 word" where
  "int_to_float i = of_nat ((if i < 0 then 2 ^ 31 else 0) + fp_round 24 8 (nat \<bar>i\<bar>) 0)"

text \<open>A NaN keeps the leading bits of its payload and becomes quiet, as on the supported targets.\<close>

definition double_to_float :: "64 word \<Rightarrow> 32 word" where
  "double_to_float d =
     of_nat ((if double_negative d then 2 ^ 31 else 0)
       + (if double_exponent d = 2047
          then if double_fraction d = 0 then 0x7F800000
               else 0x7FC00000 + double_fraction d div 2 ^ 29 mod 2 ^ 22
          else let (m, e) = double_magnitude d in fp_round 24 8 m e))"

section \<open>Integers of at most 53 bits are exact\<close>

lemma bitlen_bounds: "0 < m \<Longrightarrow> 0 < bitlen m \<and> 2 ^ (bitlen m - 1) \<le> m \<and> m < 2 ^ bitlen m"
proof (induction m rule: less_induct)
  case (less m)
  show ?case
  proof (cases "m = 1")
    case False
    with less.prems have "0 < m div 2" "m div 2 < m" by auto
    from less.IH [OF this(2,1)] obtain k where k: "bitlen (m div 2) = Suc k"
      "2 ^ k \<le> m div 2" "m div 2 < 2 * 2 ^ k"
      by (auto dest: gr0_implies_Suc)
    from k(2) have "2 * 2 ^ k \<le> m" by linarith
    moreover from k(3) have "m < 4 * 2 ^ k" by linarith
    ultimately show ?thesis using less.prems k(1) by (simp add: bitlen.simps [of m])
  qed (simp add: bitlen.simps [of "Suc 0"] bitlen.simps [of 0])
qed

lemma bitlen_le: "m < 2 ^ n \<Longrightarrow> bitlen m \<le> n"
proof (cases "m = 0")
  case False
  assume "m < 2 ^ n"
  with bitlen_bounds [of m] False have "(2 :: nat) ^ (bitlen m - 1) < 2 ^ n"
    by (meson gr0I le_less_trans)
  then have "bitlen m - 1 < n" by simp
  then show ?thesis by simp
qed (simp add: bitlen.simps)

text \<open>The shape of the code of a positive integer below \<open>2\<^sup>5\<^sup>3\<close>.\<close>

lemma fp_round_exact:
  assumes "0 < m" "m < 2 ^ 53"
  obtains s f where "s \<le> 52" "f < 2 ^ 52" "m * 2 ^ s = 2 ^ 52 + f"
    "fp_round 53 11 m 0 = (1075 - s) * 2 ^ 52 + f"
proof -
  define L s where "L = bitlen m" and "s = 53 - L"
  have L: "0 < L" "2 ^ (L - 1) \<le> m" "m < 2 ^ L" "L \<le> 53"
    using bitlen_bounds [OF assms(1)] bitlen_le [OF assms(2)] by (simp_all add: L_def)
  then have s: "s \<le> 52" "L = 53 - s" by (auto simp: s_def)
  have "L - 1 + s = 52" "L + s = 53" using L s by auto
  then have "(2 :: nat) ^ (L - 1) * 2 ^ s = 2 ^ 52" "(2 :: nat) ^ L * 2 ^ s = 2 ^ 53"
    by (metis power_add)+
  moreover have "2 ^ (L - 1) * 2 ^ s \<le> m * 2 ^ s" "m * 2 ^ s < 2 ^ L * 2 ^ s"
    using L by simp_all
  ultimately have r: "2 ^ 52 \<le> m * 2 ^ s" "m * 2 ^ s < 2 ^ 53" by simp_all
  define f where "f = m * 2 ^ s - 2 ^ 52"
  have f: "f < 2 ^ 52" "m * 2 ^ s = 2 ^ 52 + f" using r by (simp_all add: f_def)
  have q: "max (int L - 53) (- 1074) = int L - 53" using L by simp
  have "fp_round 53 11 m 0 = min (nat (int L - 53 + 1074) * 2 ^ 52 + m * 2 ^ s) (2047 * 2 ^ 52)"
    using assms(1) L q s by (simp add: fp_round_def L_def [symmetric] Let_def)
  also have "nat (int L - 53 + 1074) = 1074 - s" using s by simp
  also have "(1074 - s) * 2 ^ 52 + m * 2 ^ s = (1075 - s) * 2 ^ 52 + f"
    using s f(2) by (simp add: Suc_diff_le [of s 1074, simplified] algebra_simps)
  also have "min ((1075 - s) * 2 ^ 52 + f) (2047 * 2 ^ 52) = (1075 - s) * 2 ^ 52 + f"
    using f(1) s by simp
  finally show thesis using that s f by blast
qed

lemma double_trunc_int_to_double:
  assumes "\<bar>i\<bar> < 2 ^ 53"
  shows "double_trunc (int_to_double i) = Some i"
proof (cases "i = 0")
  case True
  then show ?thesis
    by (simp add: int_to_double_def fp_round_def double_trunc_def double_exponent_def
          double_magnitude_def double_fraction_def)
next
  case False
  define m where "m = nat \<bar>i\<bar>"
  have m: "0 < m" "m < 2 ^ 53" using False assms by (simp_all add: m_def nat_less_iff)
  obtain s f where sf: "s \<le> 52" "f < 2 ^ 52" "m * 2 ^ s = 2 ^ 52 + f"
    "fp_round 53 11 m 0 = (1075 - s) * 2 ^ 52 + f"
    by (rule fp_round_exact [OF m])
  define n where "n = (if i < 0 then 2 ^ 63 else 0) + ((1075 - s) * 2 ^ 52 + f)"
  have small: "(1075 - s) * 2 ^ 52 + f < 2 ^ 63" using sf(1,2) by simp
  then have "n < 2 ^ 64" by (simp add: n_def)
  then have "unat (of_nat n :: 64 word) = n" by (simp add: unat_of_nat)
  moreover have "int_to_double i = of_nat n"
    unfolding int_to_double_def n_def m_def [symmetric] sf(4) by (rule refl)
  ultimately have u: "unat (int_to_double i) = n" by simp
  have neg: "double_negative (int_to_double i) \<longleftrightarrow> i < 0"
    using small by (simp add: double_negative_def u n_def)
  define k where "k = (if i < 0 then 2048 else 0) + (1075 - s)"
  have nn: "n = k * 2 ^ 52 + f"
    by (simp add: n_def k_def algebra_simps)
  have fr: "double_fraction (int_to_double i) = f"
    unfolding double_fraction_def u nn using sf(2) by simp
  have "n div 2 ^ 52 = k"
    unfolding nn using sf(2) by simp
  then have ex: "double_exponent (int_to_double i) = 1075 - s"
    by (simp add: double_exponent_def u k_def)
  have mag: "double_magnitude (int_to_double i) = (m * 2 ^ s, - int s)"
    using sf(1,3) by (simp add: double_magnitude_def ex fr)
  show ?thesis
    using ex sf(1) mag neg m_def by (auto simp: double_trunc_def)
qed

end
