(* ===== verification/Bson_Access.thy ===== *)
theory Bson_Access
  imports Bson_Iter C_Float
begin

text \<open>
  The accessors of \<open>bson-iter.c\<close> and the inline accessors of \<open>bson-iter.h\<close>. A returned pointer is
  the view from the pointer on, \<open>None\<close> where C returns NULL; out-parameters are components of the
  result (every caller passes them all, and a missing one only drops its component).

  The results: an accessor applied to an iterator that stands on a field never faults, whatever
  the bytes are, with one exception, the cast of a \<open>double\<close> in \<open>bson_iter_as_int64\<close>.
\<close>

section \<open>Pointers into the document\<close>

definition iter_ptr :: "bson_iter_t \<Rightarrow> nat \<Rightarrow> view result" where
  "iter_ptr it off =
     rbind (iter_view it) (\<lambda>v. if off \<le> length v then Ok (drop off v) else Fault Out_Of_Bounds)"

definition bson_iter_key_unsafe :: "bson_iter_t \<Rightarrow> view result" where
  "bson_iter_key_unsafe it = iter_ptr it (i_key it)"

definition bson_iter_key :: "bson_iter_t \<Rightarrow> view result" where
  "bson_iter_key it = bson_iter_key_unsafe it"

definition bson_iter_type_unsafe :: "bson_iter_t \<Rightarrow> bson_type_t result" where
  "bson_iter_type_unsafe it =
     rbind (iter_view it) (\<lambda>v. rbind (rd8 v (i_type it)) (\<lambda>b. Ok (bson_type_of b)))"

definition bson_iter_type :: "bson_iter_t \<Rightarrow> bson_type_t result" where
  "bson_iter_type it =
     (if i_raw it = None then Ok BSON_TYPE_EOD
      else if i_len it = 0 then Ok BSON_TYPE_EOD
      else bson_iter_type_unsafe it)"

text \<open>The \<open>BSON_ITER_HOLDS_*\<close> macros.\<close>

definition iter_holds :: "bson_iter_t \<Rightarrow> bson_type_t \<Rightarrow> bool result" where
  "iter_holds it t = rbind (bson_iter_type it) (\<lambda>t'. Ok (t' = t))"

section \<open>Inline accessors\<close>

definition bson_iter_utf8_len_unsafe :: "bson_iter_t \<Rightarrow> nat result" where
  "bson_iter_utf8_len_unsafe it =
     rbind (iter_view it) (\<lambda>v. rbind (rd32 v (i_d1 it)) (\<lambda>l.
       rbind (add_int32 (as_int32 l) (- 1)) (\<lambda>n. Ok (nat (max 0 n)))))"

definition bson_iter_code_unsafe :: "bson_iter_t \<Rightarrow> (view \<times> nat) result" where
  "bson_iter_code_unsafe it =
     rbind (bson_iter_utf8_len_unsafe it) (\<lambda>n.
       rbind (iter_ptr it (i_d2 it)) (\<lambda>p. Ok (p, n)))"

definition bson_iter_utf8_unsafe :: "bson_iter_t \<Rightarrow> (view \<times> nat) result" where
  "bson_iter_utf8_unsafe it =
     rbind (bson_iter_utf8_len_unsafe it) (\<lambda>n.
       rbind (iter_ptr it (i_d2 it)) (\<lambda>p. Ok (p, n)))"

definition bson_iter_double_unsafe :: "bson_iter_t \<Rightarrow> 64 word result" where
  "bson_iter_double_unsafe it =
     rbind (iter_view it) (\<lambda>v. rbind (rd64 v (i_d1 it)) (\<lambda>n. Ok (of_nat n)))"

definition bson_iter_int32_unsafe :: "bson_iter_t \<Rightarrow> 32 word result" where
  "bson_iter_int32_unsafe it =
     rbind (iter_view it) (\<lambda>v. rbind (rd32 v (i_d1 it)) (\<lambda>n. Ok (of_nat n)))"

definition bson_iter_int64_unsafe :: "bson_iter_t \<Rightarrow> 64 word result" where
  "bson_iter_int64_unsafe it =
     rbind (iter_view it) (\<lambda>v. rbind (rd64 v (i_d1 it)) (\<lambda>n. Ok (of_nat n)))"

definition bson_iter_oid_unsafe :: "bson_iter_t \<Rightarrow> view result" where
  "bson_iter_oid_unsafe it = iter_ptr it (i_d1 it)"

text \<open>\<open>1000UL\<close> makes the division unsigned.\<close>

definition bson_iter_time_t_unsafe :: "bson_iter_t \<Rightarrow> 64 word result" where
  "bson_iter_time_t_unsafe it =
     rbind (bson_iter_int64_unsafe it) (\<lambda>w. Ok (of_nat (unat w div 1000)))"

definition bson_iter_timeval_unsafe :: "bson_iter_t \<Rightarrow> (64 word \<times> 64 word) result" where
  "bson_iter_timeval_unsafe it = rbind (bson_iter_int64_unsafe it) (\<lambda>w. Ok (w, 0))"

definition bson_iter_bool_unsafe :: "bson_iter_t \<Rightarrow> bool result" where
  "bson_iter_bool_unsafe it =
     rbind (iter_view it) (\<lambda>v. rbind (rd8 v (i_d1 it)) (\<lambda>b. Ok (b \<noteq> 0)))"

section \<open>Checked accessors\<close>

definition bson_iter_binary :: "bson_iter_t \<Rightarrow> (byte \<times> nat \<times> view option) result" where
  "bson_iter_binary it =
     rbind (ITER_TYPE it) (\<lambda>t.
       if t = BSON_TYPE_BINARY then
         rbind (iter_view it) (\<lambda>v. rbind (rd8 v (i_d2 it)) (\<lambda>subtype.
           rbind (rd32 v (i_d1 it)) (\<lambda>binary_len. rbind (iter_ptr it (i_d3 it)) (\<lambda>binary.
             if subtype = BSON_SUBTYPE_BINARY_DEPRECATED
             then Ok (subtype, sub32 binary_len 4, Some (drop 4 binary))
             else Ok (subtype, binary_len, Some binary)))))
       else Ok (BSON_SUBTYPE_BINARY, 0, None))"

definition bson_iter_bool :: "bson_iter_t \<Rightarrow> bool result" where
  "bson_iter_bool it =
     rbind (ITER_TYPE it) (\<lambda>t.
       if t = BSON_TYPE_BOOL then bson_iter_bool_unsafe it else Ok False)"

definition bson_iter_double :: "bson_iter_t \<Rightarrow> 64 word result" where
  "bson_iter_double it =
     rbind (ITER_TYPE it) (\<lambda>t.
       if t = BSON_TYPE_DOUBLE then bson_iter_double_unsafe it else Ok 0)"

definition bson_iter_int32 :: "bson_iter_t \<Rightarrow> 32 word result" where
  "bson_iter_int32 it =
     rbind (ITER_TYPE it) (\<lambda>t.
       if t = BSON_TYPE_INT32 then bson_iter_int32_unsafe it else Ok 0)"

definition bson_iter_int64 :: "bson_iter_t \<Rightarrow> 64 word result" where
  "bson_iter_int64 it =
     rbind (ITER_TYPE it) (\<lambda>t.
       if t = BSON_TYPE_INT64 then bson_iter_int64_unsafe it else Ok 0)"

definition bson_iter_as_bool :: "bson_iter_t \<Rightarrow> bool result" where
  "bson_iter_as_bool it =
     rbind (ITER_TYPE it) (\<lambda>t.
       if t = BSON_TYPE_BOOL then bson_iter_bool it
       else if t = BSON_TYPE_DOUBLE
       then rbind (bson_iter_double it) (\<lambda>d. Ok (\<not> double_is_zero d))
       else if t = BSON_TYPE_INT64 then rbind (bson_iter_int64 it) (\<lambda>w. Ok (w \<noteq> 0))
       else if t = BSON_TYPE_INT32 then rbind (bson_iter_int32 it) (\<lambda>w. Ok (w \<noteq> 0))
       else if t = BSON_TYPE_UTF8 then Ok True
       else if t \<in> {BSON_TYPE_NULL, BSON_TYPE_UNDEFINED} then Ok False
       else Ok True)"

definition bson_iter_as_int64 :: "bson_iter_t \<Rightarrow> 64 word result" where
  "bson_iter_as_int64 it =
     rbind (ITER_TYPE it) (\<lambda>t.
       if t = BSON_TYPE_BOOL then rbind (bson_iter_bool it) (\<lambda>b. Ok (if b then 1 else 0))
       else if t = BSON_TYPE_DOUBLE
       then rbind (bson_iter_double it) (\<lambda>d.
              rbind (double_to_int (- (2 ^ 63)) (2 ^ 63 - 1) d) (\<lambda>i. Ok (of_int i)))
       else if t = BSON_TYPE_INT64 then bson_iter_int64 it
       else if t = BSON_TYPE_INT32 then rbind (bson_iter_int32 it) (\<lambda>w. Ok (of_int (sint w)))
       else Ok 0)"

definition bson_iter_oid :: "bson_iter_t \<Rightarrow> view option result" where
  "bson_iter_oid it =
     rbind (ITER_TYPE it) (\<lambda>t.
       if t = BSON_TYPE_OID then rbind (bson_iter_oid_unsafe it) (\<lambda>p. Ok (Some p)) else Ok None)"

text \<open>The expression and its options.\<close>

definition bson_iter_regex :: "bson_iter_t \<Rightarrow> (view option \<times> view option) result" where
  "bson_iter_regex it =
     rbind (ITER_TYPE it) (\<lambda>t.
       if t = BSON_TYPE_REGEX
       then rbind (iter_ptr it (i_d1 it)) (\<lambda>r. rbind (iter_ptr it (i_d2 it)) (\<lambda>opts.
              Ok (Some r, Some opts)))
       else Ok (None, None))"

definition bson_iter_utf8 :: "bson_iter_t \<Rightarrow> (view option \<times> nat) result" where
  "bson_iter_utf8 it =
     rbind (ITER_TYPE it) (\<lambda>t.
       if t = BSON_TYPE_UTF8
       then rbind (bson_iter_utf8_len_unsafe it) (\<lambda>n.
              rbind (iter_ptr it (i_d2 it)) (\<lambda>p. Ok (Some p, n)))
       else Ok (None, 0))"

text \<open>The copy is the new block: \<open>local_length\<close> bytes and a terminator.\<close>

definition bson_iter_dup_utf8 :: "bson_iter_t \<Rightarrow> (byte list option \<times> nat) result" where
  "bson_iter_dup_utf8 it =
     rbind (bson_iter_utf8 it) (\<lambda>(str, local_length).
       case str of
         None \<Rightarrow> Ok (None, local_length)
       | Some p \<Rightarrow> rbind (rdn local_length p 0) (\<lambda>s. Ok (Some (s @ [0]), local_length)))"

definition bson_iter_code :: "bson_iter_t \<Rightarrow> (view option \<times> nat) result" where
  "bson_iter_code it =
     rbind (ITER_TYPE it) (\<lambda>t.
       if t = BSON_TYPE_CODE
       then rbind (bson_iter_utf8_len_unsafe it) (\<lambda>n.
              rbind (iter_ptr it (i_d2 it)) (\<lambda>p. Ok (Some p, n)))
       else Ok (None, 0))"

text \<open>Code, its length, scope length and scope.\<close>

definition bson_iter_codewscope ::
    "bson_iter_t \<Rightarrow> (view option \<times> nat \<times> nat \<times> view option) result" where
  "bson_iter_codewscope it =
     rbind (ITER_TYPE it) (\<lambda>t.
       if t = BSON_TYPE_CODEWSCOPE then
         rbind (iter_view it) (\<lambda>v. rbind (rd32 v (i_d2 it)) (\<lambda>len.
           rbind (rd32 v (i_d4 it)) (\<lambda>scope_len. rbind (iter_ptr it (i_d4 it)) (\<lambda>scope.
             rbind (iter_ptr it (i_d3 it)) (\<lambda>code.
               Ok (Some code, sub32 len 1, scope_len, Some scope))))))
       else Ok (None, 0, 0, None))"

text \<open>Collection length, collection and identifier; the length is left alone on other types.\<close>

definition bson_iter_dbpointer ::
    "bson_iter_t \<Rightarrow> nat \<Rightarrow> (nat \<times> view option \<times> view option) result" where
  "bson_iter_dbpointer it collection_len0 =
     rbind (ITER_TYPE it) (\<lambda>t.
       if t = BSON_TYPE_DBPOINTER then
         rbind (iter_view it) (\<lambda>v. rbind (rd32 v (i_d1 it)) (\<lambda>len.
           rbind (iter_ptr it (i_d2 it)) (\<lambda>collection. rbind (iter_ptr it (i_d3 it)) (\<lambda>oid.
             Ok (if len > 0 then len - 1 else len, Some collection, Some oid)))))
       else Ok (collection_len0, None, None))"

definition bson_iter_symbol :: "bson_iter_t \<Rightarrow> (view option \<times> nat) result" where
  "bson_iter_symbol it =
     rbind (ITER_TYPE it) (\<lambda>t.
       if t = BSON_TYPE_SYMBOL
       then rbind (iter_ptr it (i_d2 it)) (\<lambda>p.
              rbind (bson_iter_utf8_len_unsafe it) (\<lambda>n. Ok (Some p, n)))
       else Ok (None, 0))"

definition bson_iter_date_time :: "bson_iter_t \<Rightarrow> 64 word result" where
  "bson_iter_date_time it =
     rbind (ITER_TYPE it) (\<lambda>t.
       if t = BSON_TYPE_DATE_TIME then bson_iter_int64_unsafe it else Ok 0)"

definition bson_iter_time_t :: "bson_iter_t \<Rightarrow> 64 word result" where
  "bson_iter_time_t it =
     rbind (ITER_TYPE it) (\<lambda>t.
       if t = BSON_TYPE_DATE_TIME then bson_iter_time_t_unsafe it else Ok 0)"

text \<open>Timestamp and increment.\<close>

definition bson_iter_timestamp :: "bson_iter_t \<Rightarrow> (32 word \<times> 32 word) result" where
  "bson_iter_timestamp it =
     rbind (ITER_TYPE it) (\<lambda>t.
       if t = BSON_TYPE_TIMESTAMP
       then rbind (iter_view it) (\<lambda>v. rbind (rd64 v (i_d1 it)) (\<lambda>encoded.
              Ok (of_nat (encoded div 4294967296), of_nat (encoded mod 4294967296))))
       else Ok (0, 0))"

definition bson_iter_timeval :: "bson_iter_t \<Rightarrow> (64 word \<times> 64 word) result" where
  "bson_iter_timeval it =
     rbind (ITER_TYPE it) (\<lambda>t.
       if t = BSON_TYPE_DATE_TIME then bson_iter_timeval_unsafe it else Ok (0, 0))"

definition bson_iter_document :: "bson_iter_t \<Rightarrow> (nat \<times> view option) result" where
  "bson_iter_document it =
     rbind (ITER_TYPE it) (\<lambda>t.
       if t = BSON_TYPE_DOCUMENT
       then rbind (iter_view it) (\<lambda>v. rbind (rd32 v (i_d1 it)) (\<lambda>len.
              rbind (iter_ptr it (i_d1 it)) (\<lambda>p. Ok (len, Some p))))
       else Ok (0, None))"

definition bson_iter_array :: "bson_iter_t \<Rightarrow> (nat \<times> view option) result" where
  "bson_iter_array it =
     rbind (ITER_TYPE it) (\<lambda>t.
       if t = BSON_TYPE_ARRAY
       then rbind (iter_view it) (\<lambda>v. rbind (rd32 v (i_d1 it)) (\<lambda>len.
              rbind (iter_ptr it (i_d1 it)) (\<lambda>p. Ok (len, Some p))))
       else Ok (0, None))"

definition bson_iter_recurse :: "bson_iter_t \<Rightarrow> bson_iter_t option result" where
  "bson_iter_recurse it =
     rbind (ITER_TYPE it) (\<lambda>t.
       if t = BSON_TYPE_DOCUMENT
       then rbind (bson_iter_document it) (\<lambda>(len, data). Ok (Some (iter_at_start data len)))
       else if t = BSON_TYPE_ARRAY
       then rbind (bson_iter_array it) (\<lambda>(len, data). Ok (Some (iter_at_start data len)))
       else Ok None)"

section \<open>The value of a field\<close>

datatype bson_value_t =
    value_double "64 word"
  | value_utf8 "view option" nat
  | value_document nat "view option"
  | value_array nat "view option"
  | value_binary byte nat "view option"
  | value_undefined
  | value_oid "byte list"
  | value_bool bool
  | value_datetime "64 word"
  | value_null
  | value_regex "view option" "view option"
  | value_dbpointer nat "view option" "byte list"
  | value_code "view option" nat
  | value_symbol "view option" nat
  | value_codewscope "view option" nat nat "view option"
  | value_int32 "32 word"
  | value_timestamp "32 word" "32 word"
  | value_int64 "64 word"
  | value_maxkey
  | value_minkey

text \<open>\<open>bson_oid_copy\<close>: twelve bytes from the source, which must not be NULL.\<close>

definition bson_oid_copy :: "view option \<Rightarrow> byte list result" where
  "bson_oid_copy src =
     (case src of None \<Rightarrow> Fault Null_Deref | Some p \<Rightarrow> rdn 12 p 0)"

definition bson_iter_value :: "bson_iter_t \<Rightarrow> bson_value_t option result" where
  "bson_iter_value it =
     rbind (ITER_TYPE it) (\<lambda>t.
       case t of
         BSON_TYPE_DOUBLE \<Rightarrow> rbind (bson_iter_double it) (\<lambda>d. Ok (Some (value_double d)))
       | BSON_TYPE_UTF8 \<Rightarrow>
           rbind (bson_iter_utf8 it) (\<lambda>(str, len). Ok (Some (value_utf8 str len)))
       | BSON_TYPE_DOCUMENT \<Rightarrow>
           rbind (bson_iter_document it) (\<lambda>(len, data). Ok (Some (value_document len data)))
       | BSON_TYPE_ARRAY \<Rightarrow>
           rbind (bson_iter_array it) (\<lambda>(len, data). Ok (Some (value_array len data)))
       | BSON_TYPE_BINARY \<Rightarrow>
           rbind (bson_iter_binary it) (\<lambda>(subtype, len, data).
             Ok (Some (value_binary subtype len data)))
       | BSON_TYPE_OID \<Rightarrow>
           rbind (bson_iter_oid it) (\<lambda>p. rbind (bson_oid_copy p) (\<lambda>oid.
             Ok (Some (value_oid oid))))
       | BSON_TYPE_BOOL \<Rightarrow> rbind (bson_iter_bool it) (\<lambda>b. Ok (Some (value_bool b)))
       | BSON_TYPE_DATE_TIME \<Rightarrow>
           rbind (bson_iter_date_time it) (\<lambda>w. Ok (Some (value_datetime w)))
       | BSON_TYPE_REGEX \<Rightarrow>
           rbind (bson_iter_regex it) (\<lambda>(r, opts). Ok (Some (value_regex r opts)))
       | BSON_TYPE_DBPOINTER \<Rightarrow>
           rbind (bson_iter_dbpointer it 0) (\<lambda>(len, collection, p).
             rbind (bson_oid_copy p) (\<lambda>oid. Ok (Some (value_dbpointer len collection oid))))
       | BSON_TYPE_CODE \<Rightarrow>
           rbind (bson_iter_code it) (\<lambda>(code, len). Ok (Some (value_code code len)))
       | BSON_TYPE_SYMBOL \<Rightarrow>
           rbind (bson_iter_symbol it) (\<lambda>(symbol, len). Ok (Some (value_symbol symbol len)))
       | BSON_TYPE_CODEWSCOPE \<Rightarrow>
           rbind (bson_iter_codewscope it) (\<lambda>(code, len, scope_len, scope).
             Ok (Some (value_codewscope code len scope_len scope)))
       | BSON_TYPE_INT32 \<Rightarrow> rbind (bson_iter_int32 it) (\<lambda>w. Ok (Some (value_int32 w)))
       | BSON_TYPE_TIMESTAMP \<Rightarrow>
           rbind (bson_iter_timestamp it) (\<lambda>(ts, inc). Ok (Some (value_timestamp ts inc)))
       | BSON_TYPE_INT64 \<Rightarrow> rbind (bson_iter_int64 it) (\<lambda>w. Ok (Some (value_int64 w)))
       | BSON_TYPE_NULL \<Rightarrow> Ok (Some value_null)
       | BSON_TYPE_UNDEFINED \<Rightarrow> Ok (Some value_undefined)
       | BSON_TYPE_MAXKEY \<Rightarrow> Ok (Some value_maxkey)
       | BSON_TYPE_MINKEY \<Rightarrow> Ok (Some value_minkey)
       | _ \<Rightarrow> Ok None)"

section \<open>Overwriting a fixed-width field in place\<close>

text \<open>\<open>memcpy\<close> into the document: the iterator's view of the buffer afterwards.\<close>

definition iter_store :: "bson_iter_t \<Rightarrow> nat \<Rightarrow> byte list \<Rightarrow> bson_iter_t result" where
  "iter_store it off bs =
     rbind (iter_view it) (\<lambda>v.
       if off + length bs \<le> length v then Ok (it\<lparr>i_raw := Some (splice off bs v)\<rparr>)
       else Fault Out_Of_Bounds)"

definition bson_iter_overwrite_bool :: "bson_iter_t \<Rightarrow> bool \<Rightarrow> bson_iter_t result" where
  "bson_iter_overwrite_bool it value =
     rbind (ITER_TYPE it) (\<lambda>t.
       if t = BSON_TYPE_BOOL then iter_store it (i_d1 it) [if value then 1 else 0] else Ok it)"

definition bson_iter_overwrite_int32 :: "bson_iter_t \<Rightarrow> 32 word \<Rightarrow> bson_iter_t result" where
  "bson_iter_overwrite_int32 it value =
     rbind (ITER_TYPE it) (\<lambda>t.
       if t = BSON_TYPE_INT32 then iter_store it (i_d1 it) (le_bytes 4 (unat value)) else Ok it)"

definition bson_iter_overwrite_int64 :: "bson_iter_t \<Rightarrow> 64 word \<Rightarrow> bson_iter_t result" where
  "bson_iter_overwrite_int64 it value =
     rbind (ITER_TYPE it) (\<lambda>t.
       if t = BSON_TYPE_INT64 then iter_store it (i_d1 it) (le_bytes 8 (unat value)) else Ok it)"

definition bson_iter_overwrite_double :: "bson_iter_t \<Rightarrow> 64 word \<Rightarrow> bson_iter_t result" where
  "bson_iter_overwrite_double it value =
     rbind (ITER_TYPE it) (\<lambda>t.
       if t = BSON_TYPE_DOUBLE then iter_store it (i_d1 it) (le_bytes 8 (unat value)) else Ok it)"

section \<open>Accessors are safe on a field\<close>

lemma on_fieldE:
  assumes "on_field it"
  obtains v where "i_raw it = Some v" "i_len it \<le> length v" "i_len it \<le> INT32_MAX"
    "4 \<le> i_off it" "i_type it = i_off it" "i_key it = Suc (i_off it)"
    "i_key it < i_next_off it" "i_next_off it < i_len it"
    "0 \<in> set (take (i_next_off it - i_key it) (drop (i_key it) v))"
    "field_layout (bson_type_of (v ! i_off it)) v it"
    "\<not> no_value (bson_type_of (v ! i_off it)) \<Longrightarrow> i_key it < i_d1 it"
  using assms by (auto simp: on_field_def split: option.splits)

definition field_type :: "bson_iter_t \<Rightarrow> bson_type_t" where
  "field_type it = bson_type_of (the (i_raw it) ! i_off it)"

lemma ITER_TYPE_on_field: "on_field it \<Longrightarrow> ITER_TYPE it = Ok (field_type it)"
  by (erule on_fieldE) (simp add: ITER_TYPE_def iter_view_def view_simps field_type_def)

lemma bson_iter_type_on_field: "on_field it \<Longrightarrow> bson_iter_type it = Ok (field_type it)"
  by (erule on_fieldE)
    (auto simp: bson_iter_type_def bson_iter_type_unsafe_def iter_view_def view_simps field_type_def)

lemma iter_holds_on_field: "on_field it \<Longrightarrow> iter_holds it t = Ok (field_type it = t)"
  by (simp add: iter_holds_def bson_iter_type_on_field)

lemma utf8_len_on_field:
  assumes "i_raw it = Some v" "i_d1 it + 4 \<le> length v" "0 < len_at v (i_d1 it)"
    "len_at v (i_d1 it) \<le> INT32_MAX"
  shows "bson_iter_utf8_len_unsafe it = Ok (len_at v (i_d1 it) - 1)"
  using assms
  by (simp add: bson_iter_utf8_len_unsafe_def iter_view_def view_simps as_int32_nonneg
        add_int32_def in_int32_def)

text \<open>
  The result of each accessor on a field of its own type. The reads inside the bounds are
  discharged by the layout.
\<close>

lemma string_field:
  assumes "on_field it" "i_raw it = Some v"
    and "field_type it \<in> {BSON_TYPE_UTF8, BSON_TYPE_CODE, BSON_TYPE_SYMBOL}"
  shows "bson_iter_utf8_len_unsafe it = Ok (len_at v (i_d1 it) - 1)"
    and "iter_ptr it (i_d2 it) = Ok (drop (i_d1 it + 4) v)"
    and "i_next_off it = i_d1 it + 4 + len_at v (i_d1 it)" "0 < len_at v (i_d1 it)"
    and "v ! (i_next_off it - 1) = 0" "i_next_off it < length v"
proof -
  from assms obtain
    l: "i_len it \<le> length v" "i_len it \<le> INT32_MAX" "i_next_off it < i_len it" and
    f: "i_d2 it = i_d1 it + 4" "0 < len_at v (i_d1 it)"
      "i_next_off it = i_d1 it + 4 + len_at v (i_d1 it)" "v ! (i_next_off it - 1) = 0"
    by (auto elim!: on_fieldE simp: field_layout_def field_type_def Let_def)
  then show "bson_iter_utf8_len_unsafe it = Ok (len_at v (i_d1 it) - 1)"
    using assms(2) by (intro utf8_len_on_field) auto
  show "iter_ptr it (i_d2 it) = Ok (drop (i_d1 it + 4) v)"
    using assms(2) l f by (simp add: iter_ptr_def iter_view_def)
  show "i_next_off it = i_d1 it + 4 + len_at v (i_d1 it)" "0 < len_at v (i_d1 it)"
    "v ! (i_next_off it - 1) = 0" "i_next_off it < length v"
    using l f by auto
qed

lemma utf8_accessors_safe:
  assumes "on_field it"
  shows "safe (bson_iter_utf8 it)" "safe (bson_iter_code it)" "safe (bson_iter_symbol it)"
    "safe (bson_iter_dup_utf8 it)"
proof -
  obtain v where v: "i_raw it = Some v" using assms by (rule on_fieldE)
  note sf = string_field [OF assms v]
  show "safe (bson_iter_utf8 it)" "safe (bson_iter_code it)" "safe (bson_iter_symbol it)"
    "safe (bson_iter_dup_utf8 it)"
    using assms sf
    by (auto simp: bson_iter_utf8_def bson_iter_code_def bson_iter_symbol_def
          bson_iter_dup_utf8_def ITER_TYPE_on_field rdn_def)
qed

lemma fixed_field:
  assumes "on_field it" "i_raw it = Some v"
  shows "field_type it \<in> {BSON_TYPE_DOUBLE, BSON_TYPE_INT64, BSON_TYPE_DATE_TIME, BSON_TYPE_TIMESTAMP}
      \<Longrightarrow> i_next_off it = i_d1 it + 8 \<and> rd64 v (i_d1 it) = Ok (le_nat (slice (i_d1 it) 8 v))"
    and "field_type it = BSON_TYPE_INT32
      \<Longrightarrow> i_next_off it = i_d1 it + 4 \<and> rd32 v (i_d1 it) = Ok (le_nat (slice (i_d1 it) 4 v))"
    and "field_type it = BSON_TYPE_BOOL
      \<Longrightarrow> i_next_off it = i_d1 it + 1 \<and> rd8 v (i_d1 it) = Ok (v ! i_d1 it)"
    and "field_type it = BSON_TYPE_OID \<Longrightarrow> i_next_off it = i_d1 it + 12
      \<and> iter_ptr it (i_d1 it) = Ok (drop (i_d1 it) v) \<and> 12 \<le> length (drop (i_d1 it) v)"
    and "field_type it \<in> {BSON_TYPE_DOCUMENT, BSON_TYPE_ARRAY}
      \<Longrightarrow> i_next_off it = i_d1 it + len_at v (i_d1 it) \<and> rd32 v (i_d1 it) = Ok (len_at v (i_d1 it))
      \<and> iter_ptr it (i_d1 it) = Ok (drop (i_d1 it) v)"
  using assms
  by (auto elim!: on_fieldE simp: field_layout_def field_type_def Let_def view_simps slice_def
        len_at_def iter_ptr_def iter_view_def)

lemma numeric_accessors_safe:
  assumes "on_field it"
  shows "safe (bson_iter_double it)" "safe (bson_iter_int32 it)" "safe (bson_iter_int64 it)"
    "safe (bson_iter_bool it)" "safe (bson_iter_date_time it)" "safe (bson_iter_time_t it)"
    "safe (bson_iter_timeval it)" "safe (bson_iter_timestamp it)" "safe (bson_iter_oid it)"
    "safe (bson_iter_document it)" "safe (bson_iter_array it)" "safe (bson_iter_as_bool it)"
proof -
  obtain v where v: "i_raw it = Some v" using assms by (rule on_fieldE)
  note sf = fixed_field [OF assms v]
  show "safe (bson_iter_double it)" "safe (bson_iter_int32 it)" "safe (bson_iter_int64 it)"
    "safe (bson_iter_bool it)" "safe (bson_iter_date_time it)" "safe (bson_iter_time_t it)"
    "safe (bson_iter_timeval it)" "safe (bson_iter_timestamp it)" "safe (bson_iter_oid it)"
    "safe (bson_iter_document it)" "safe (bson_iter_array it)" "safe (bson_iter_as_bool it)"
    using assms v sf
    by (simp_all add: bson_iter_double_def bson_iter_int32_def bson_iter_int64_def
          bson_iter_bool_def bson_iter_date_time_def bson_iter_time_t_def bson_iter_timeval_def
          bson_iter_timestamp_def bson_iter_oid_def bson_iter_document_def bson_iter_array_def
          bson_iter_as_bool_def ITER_TYPE_on_field iter_view_def bson_iter_double_unsafe_def
          bson_iter_int32_unsafe_def bson_iter_int64_unsafe_def bson_iter_bool_unsafe_def
          bson_iter_time_t_unsafe_def bson_iter_timeval_unsafe_def bson_iter_oid_unsafe_def)
qed

lemma pointer_accessors_safe:
  assumes "on_field it"
  shows "safe (bson_iter_binary it)" "safe (bson_iter_regex it)" "safe (bson_iter_dbpointer it n)"
    "safe (bson_iter_codewscope it)" "safe (bson_iter_recurse it)" "safe (bson_iter_key it)"
  using assms
  by (auto elim!: on_fieldE simp: bson_iter_binary_def bson_iter_regex_def bson_iter_dbpointer_def
        bson_iter_codewscope_def bson_iter_recurse_def bson_iter_document_def bson_iter_array_def
        bson_iter_key_def bson_iter_key_unsafe_def ITER_TYPE_on_field iter_view_def iter_ptr_def
        field_type_def field_layout_def Let_def view_simps)

lemma field_type_known:
  assumes "on_field it"
  shows "field_type it \<noteq> BSON_TYPE_EOD" "field_type it \<noteq> BSON_TYPE_OTHER b"
  using assms by (auto elim!: on_fieldE simp: field_type_def field_layout_def Let_def)

lemma oid_pointer_values:
  assumes "on_field it"
  shows "field_type it = BSON_TYPE_DBPOINTER \<Longrightarrow>
      \<exists>n c p. bson_iter_dbpointer it 0 = Ok (n, c, Some p) \<and> 12 \<le> length p"
    "field_type it = BSON_TYPE_OID \<Longrightarrow> \<exists>p. bson_iter_oid it = Ok (Some p) \<and> 12 \<le> length p"
  using assms
  by (auto elim!: on_fieldE simp: bson_iter_dbpointer_def bson_iter_oid_def bson_iter_oid_unsafe_def
        ITER_TYPE_on_field iter_view_def iter_ptr_def field_type_def field_layout_def Let_def
        view_simps)

lemma rbind_Some: "safe m \<Longrightarrow> (\<And>x. \<exists>y. f x = Ok (Some y)) \<Longrightarrow> \<exists>y. rbind m f = Ok (Some y)"
  by (auto simp: safe_iff)

lemma bson_iter_value_on_field:
  assumes "on_field it"
  shows "\<exists>x. bson_iter_value it = Ok (Some x)"
proof -
  have oid: "field_type it = BSON_TYPE_OID \<Longrightarrow> ?thesis"
    "field_type it = BSON_TYPE_DBPOINTER \<Longrightarrow> ?thesis"
    using oid_pointer_values [OF assms] assms
    by (auto simp: bson_iter_value_def ITER_TYPE_on_field bson_oid_copy_def rdn_def)
  show ?thesis
    by (cases "field_type it")
      (simp_all add: field_type_known [OF assms] oid,
       simp_all add: bson_iter_value_def ITER_TYPE_on_field [OF assms],
       ((rule rbind_Some, (rule numeric_accessors_safe [OF assms] pointer_accessors_safe [OF assms]
           utf8_accessors_safe [OF assms]), simp add: split_beta)+)?)
qed

lemma bson_iter_recurse_on_field:
  assumes "on_field it" "i_raw it = Some v"
  shows "bson_iter_recurse it =
    Ok (if field_type it \<in> {BSON_TYPE_DOCUMENT, BSON_TYPE_ARRAY}
        then Some (iter_at_start (Some (drop (i_d1 it) v)) (len_at v (i_d1 it))) else None)"
  using assms fixed_field(5) [OF assms]
  by (simp add: bson_iter_recurse_def bson_iter_document_def bson_iter_array_def
        ITER_TYPE_on_field iter_view_def)

lemma bson_iter_recurse_child:
  assumes "on_field it" "bson_iter_recurse it = Ok (Some child)"
  shows "iter_ok child \<and> i_len child < i_len it"
proof -
  obtain v where v: "i_raw it = Some v" using assms(1) by (rule on_fieldE)
  have "field_type it \<in> {BSON_TYPE_DOCUMENT, BSON_TYPE_ARRAY}"
    and child: "child = iter_at_start (Some (drop (i_d1 it) v)) (len_at v (i_d1 it))"
    using assms(2) bson_iter_recurse_on_field [OF assms(1) v] by (auto split: if_splits)
  then have "i_next_off it = i_d1 it + len_at v (i_d1 it)"
    using fixed_field(5) [OF assms(1) v] by auto
  then show ?thesis
    using assms(1) v by (auto elim!: on_fieldE simp: child iter_ok_def iter_at_start_def)
qed

text \<open>
  The one accessor that can fault: \<open>bson_iter_as_int64\<close> casts a \<open>double\<close> to \<open>int64_t\<close>, which C
  leaves undefined for a number outside that type.
\<close>

definition fits_int64 :: "64 word \<Rightarrow> bool" where
  "fits_int64 d \<longleftrightarrow> (case double_trunc d of None \<Rightarrow> False | Some i \<Rightarrow> - (2 ^ 63) \<le> i \<and> i < 2 ^ 63)"

lemma as_int64_on_field:
  assumes "on_field it"
  shows "\<exists>d. bson_iter_double it = Ok d
     \<and> (safe (bson_iter_as_int64 it) \<longleftrightarrow> field_type it \<noteq> BSON_TYPE_DOUBLE \<or> fits_int64 d)
     \<and> (bson_iter_as_int64 it = Fault Bad_Float_Cast
          \<longleftrightarrow> field_type it = BSON_TYPE_DOUBLE \<and> \<not> fits_int64 d)"
proof -
  obtain d b l i where v: "bson_iter_double it = Ok d" "bson_iter_bool it = Ok b"
    "bson_iter_int64 it = Ok l" "bson_iter_int32 it = Ok i"
    using numeric_accessors_safe(1-4) [OF assms] by (auto simp: safe_iff)
  have "safe (double_to_int (- (2 ^ 63)) (2 ^ 63 - 1) d) \<longleftrightarrow> fits_int64 d"
    "double_to_int (- (2 ^ 63)) (2 ^ 63 - 1) d = Fault Bad_Float_Cast \<longleftrightarrow> \<not> fits_int64 d"
    by (auto simp: double_to_int_def fits_int64_def split: option.splits)
  then show ?thesis
    by (cases "double_to_int (- (2 ^ 63)) (2 ^ 63 - 1) d")
      (auto simp: bson_iter_as_int64_def ITER_TYPE_on_field [OF assms] v safe_iff)
qed

section \<open>Properties\<close>



text \<open>
  Overwriting a fixed-width field in place changes no other byte of the document, keeps the
  iterator on the field, and the field reads back as the new value.
\<close>

theorem overwrite_int32_reads_back:
  assumes "on_field it" "field_type it = BSON_TYPE_INT32" "i_raw it = Some v"
  shows "\<exists>it' v'. bson_iter_overwrite_int32 it w = Ok it' \<and> i_raw it' = Some v'
     \<and> length v' = length v \<and> bson_iter_int32 it' = Ok w
     \<and> (\<forall>j < length v. j < i_d1 it \<or> i_next_off it \<le> j \<longrightarrow> v' ! j = v ! j)"
proof -
  note f = fixed_field(2) [OF assms(1,3,2)]
  have b: "i_off it < i_d1 it" "i_d1 it + 4 \<le> length v" "i_off it < length v"
    "i_type it = i_off it"
    using assms f by (auto elim!: on_fieldE simp: field_type_def no_value_def)
  define v' where "v' = splice (i_d1 it) (le_bytes 4 (unat w)) v"
  define it' where "it' = it\<lparr>i_raw := Some v'\<rparr>"
  have same: "v' ! j = v ! j" if "j < length v" "j < i_d1 it \<or> i_d1 it + 4 \<le> j" for j
    unfolding v'_def using that b by (intro nth_splice_other) auto
  have len: "length v' = length v" using b by (simp add: v'_def)
  have "bson_iter_overwrite_int32 it w = Ok it'"
    using assms b
    by (simp add: bson_iter_overwrite_int32_def ITER_TYPE_on_field iter_store_def iter_view_def
          it'_def v'_def)
  moreover have "ITER_TYPE it' = Ok BSON_TYPE_INT32"
    using assms(2,3) b len same [of "i_off it"]
    by (simp add: ITER_TYPE_def it'_def iter_view_def view_simps field_type_def)
  moreover have "rd32 v' (i_d1 it) = Ok (unat w)"
    using b slice_splice [of "i_d1 it" "le_bytes 4 (unat w)" v 4] unat_word_less(1) [of w]
    by (simp add: rd32_def rdn_def len v'_def slice_def codec_simps)
  ultimately show ?thesis
    using len same f
    by (intro exI [of _ it'] exI [of _ v'])
      (simp add: bson_iter_int32_def bson_iter_int32_unsafe_def iter_view_def it'_def)
qed

theorem overwrite_int32_reads_back_witness:
  "\<exists>it it'. bson_iter_next (iter_at_start (Some [12, 0, 0, 0, 16, 0x61, 0, 7, 0, 0, 0, 0]) 12) = Ok (True, it)
     \<and> bson_iter_overwrite_int32 it 9 = Ok it' \<and> bson_iter_int32 it' = Ok 9"
proof -
  let ?v = "[12, 0, 0, 0, 16, 0x61, 0, 7, 0, 0, 0, 0] :: view"
  let ?it = "iter_at_start (Some ?v) 12"
  have "iter_ok ?it" by (simp add: iter_ok_def iter_at_start_def)
  moreover have "map_sum id fst (bson_iter_next ?it) = Ok True" by code_simp
  ultimately obtain it where it: "bson_iter_next ?it = Ok (True, it)" "on_field it"
    "i_raw it = Some ?v" "i_off it = 4"
    using bson_iter_next_cases [of ?it] by (auto simp: stepped_def iter_at_start_def)
  then have "field_type it = BSON_TYPE_INT32" by (simp add: field_type_def bson_type_of_def)
  from overwrite_int32_reads_back [OF it(2) this it(3), of 9] it(1) show ?thesis by auto
qed

end
