(* ===== verification/Bson_Spec.thy ===== *)
theory Bson_Spec
  imports Bson_Access
begin

text \<open>
  An abstract view of BSON: a document is a list of keys and values, and \<open>encode_doc\<close> writes it in
  the layout of the BSON specification. The iterator and its accessors are proved to read back
  exactly the keys and values of any well-formed document, in order, and to stop after the last
  one.
\<close>

section \<open>Documents and their encoding\<close>

type_synonym bytes = "byte list"

datatype bval =
    BDouble "64 word"
  | BUtf8 bytes
  | BDocument "(bytes \<times> bval) list"
  | BArray "(bytes \<times> bval) list"
  | BBinary byte bytes
  | BUndefined
  | BOid bytes
  | BBool bool
  | BDateTime "64 word"
  | BNull
  | BRegex bytes bytes
  | BDBPointer bytes bytes
  | BCode bytes
  | BSymbol bytes
  | BCodeWScope bytes "(bytes \<times> bval) list"
  | BInt32 "32 word"
  | BTimestamp "32 word" "32 word"
  | BInt64 "64 word"
  | BMaxKey
  | BMinKey

type_synonym bdoc = "(bytes \<times> bval) list"

fun val_type :: "bval \<Rightarrow> bson_type_t" where
  "val_type (BDouble _) = BSON_TYPE_DOUBLE"
| "val_type (BUtf8 _) = BSON_TYPE_UTF8"
| "val_type (BDocument _) = BSON_TYPE_DOCUMENT"
| "val_type (BArray _) = BSON_TYPE_ARRAY"
| "val_type (BBinary _ _) = BSON_TYPE_BINARY"
| "val_type BUndefined = BSON_TYPE_UNDEFINED"
| "val_type (BOid _) = BSON_TYPE_OID"
| "val_type (BBool _) = BSON_TYPE_BOOL"
| "val_type (BDateTime _) = BSON_TYPE_DATE_TIME"
| "val_type BNull = BSON_TYPE_NULL"
| "val_type (BRegex _ _) = BSON_TYPE_REGEX"
| "val_type (BDBPointer _ _) = BSON_TYPE_DBPOINTER"
| "val_type (BCode _) = BSON_TYPE_CODE"
| "val_type (BSymbol _) = BSON_TYPE_SYMBOL"
| "val_type (BCodeWScope _ _) = BSON_TYPE_CODEWSCOPE"
| "val_type (BInt32 _) = BSON_TYPE_INT32"
| "val_type (BTimestamp _ _) = BSON_TYPE_TIMESTAMP"
| "val_type (BInt64 _) = BSON_TYPE_INT64"
| "val_type BMaxKey = BSON_TYPE_MAXKEY"
| "val_type BMinKey = BSON_TYPE_MINKEY"

definition enc_string :: "bytes \<Rightarrow> bytes" where
  "enc_string s = le_bytes 4 (length s + 1) @ s @ [0]"

definition frame :: "bytes \<Rightarrow> bytes" where
  "frame body = le_bytes 4 (length body + 5) @ body @ [0]"

fun enc_value :: "bval \<Rightarrow> bytes" and enc_elems :: "bdoc \<Rightarrow> bytes" where
  "enc_value (BDouble w) = le_bytes 8 (unat w)"
| "enc_value (BUtf8 s) = enc_string s"
| "enc_value (BDocument es) = frame (enc_elems es)"
| "enc_value (BArray es) = frame (enc_elems es)"
| "enc_value (BBinary sub d) =
     (if sub = BSON_SUBTYPE_BINARY_DEPRECATED
      then le_bytes 4 (length d + 4) @ [sub] @ le_bytes 4 (length d) @ d
      else le_bytes 4 (length d) @ [sub] @ d)"
| "enc_value BUndefined = []"
| "enc_value (BOid d) = d"
| "enc_value (BBool b) = [if b then 1 else 0]"
| "enc_value (BDateTime w) = le_bytes 8 (unat w)"
| "enc_value BNull = []"
| "enc_value (BRegex r opts) = r @ [0] @ opts @ [0]"
| "enc_value (BDBPointer c d) = enc_string c @ d"
| "enc_value (BCode s) = enc_string s"
| "enc_value (BSymbol s) = enc_string s"
| "enc_value (BCodeWScope s es) =
     le_bytes 4 (4 + length (enc_string s) + length (frame (enc_elems es)))
     @ enc_string s @ frame (enc_elems es)"
| "enc_value (BInt32 w) = le_bytes 4 (unat w)"
| "enc_value (BTimestamp ts inc) = le_bytes 4 (unat inc) @ le_bytes 4 (unat ts)"
| "enc_value (BInt64 w) = le_bytes 8 (unat w)"
| "enc_value BMaxKey = []"
| "enc_value BMinKey = []"
| "enc_elems [] = []"
| "enc_elems ((k, x) # es) = type_code (val_type x) # k @ 0 # enc_value x @ enc_elems es"

definition encode_doc :: "bdoc \<Rightarrow> bytes" where
  "encode_doc es = frame (enc_elems es)"

fun wf_value :: "bval \<Rightarrow> bool" and wf_elems :: "bdoc \<Rightarrow> bool" where
  "wf_value (BDocument es) = wf_elems es"
| "wf_value (BArray es) = wf_elems es"
| "wf_value (BOid d) \<longleftrightarrow> length d = 12"
| "wf_value (BRegex r opts) \<longleftrightarrow> 0 \<notin> set r \<and> 0 \<notin> set opts"
| "wf_value (BDBPointer c d) \<longleftrightarrow> length d = 12"
| "wf_value (BCodeWScope s es) = wf_elems es"
| "wf_value _ = True"
| "wf_elems [] = True"
| "wf_elems ((k, x) # es) \<longleftrightarrow> 0 \<notin> set k \<and> wf_value x \<and> wf_elems es"

text \<open>A document that the C code can represent: well-formed and at most 2 GiB long.\<close>

definition wf_doc :: "bdoc \<Rightarrow> bool" where
  "wf_doc es \<longleftrightarrow> wf_elems es \<and> length (encode_doc es) \<le> INT32_MAX"

lemma length_enc_string [simp]: "length (enc_string s) = length s + 5"
  by (simp add: enc_string_def)

lemma length_frame [simp]: "length (frame b) = length b + 5"
  by (simp add: frame_def)

lemma length_encode_doc [simp]: "length (encode_doc es) = length (enc_elems es) + 5"
  by (simp add: encode_doc_def)

lemma enc_elems_append [simp]: "enc_elems (xs @ ys) = enc_elems xs @ enc_elems ys"
  by (induction xs) auto

lemma wf_elems_append [simp]: "wf_elems (xs @ ys) \<longleftrightarrow> wf_elems xs \<and> wf_elems ys"
  by (induction xs) auto

section \<open>Reading at a known position\<close>

text \<open>\<open>at v i bs\<close>: the bytes \<open>bs\<close> stand at offset \<open>i\<close> of the view.\<close>

definition at :: "view \<Rightarrow> nat \<Rightarrow> bytes \<Rightarrow> bool" where
  "at v i bs \<longleftrightarrow> i + length bs \<le> length v \<and> take (length bs) (drop i v) = bs"

lemma at_appendD: "at v i (xs @ ys) \<Longrightarrow> at v i xs \<and> at v (i + length xs) ys"
  unfolding at_def
  by (auto simp: take_add add.commute)

lemma at_ConsD: "at v i (b # ys) \<Longrightarrow> i < length v \<and> v ! i = b \<and> at v (Suc i) ys"
  using at_appendD [of v i "[b]" ys] by (auto simp: at_def take_Suc_conv_app_nth hd_drop_conv_nth)

lemma at_nth: "at v i bs \<Longrightarrow> j < length bs \<Longrightarrow> v ! (i + j) = bs ! j"
  unfolding at_def by (metis add_leD1 nth_drop nth_take)

lemma at_length: "at v i bs \<Longrightarrow> i + length bs \<le> length v"
  by (simp add: at_def)

lemma at_len: "at v i (le_bytes 4 n @ bs) \<Longrightarrow> n < 4294967296 \<Longrightarrow> len_at v i = n"
proof -
  assume "at v i (le_bytes 4 n @ bs)" "n < 4294967296"
  then have "take 4 (drop i v) = le_bytes 4 n"
    using at_appendD [of v i "le_bytes 4 n" bs] by (simp add: at_def)
  then show ?thesis using \<open>n < 4294967296\<close> by (simp add: len_at_def le_nat_le_bytes)
qed

lemma at_whole: "at (bs @ slack) 0 bs"
  by (simp add: at_def)

lemma at_drop: "at v (i + j) bs \<Longrightarrow> at (drop i v) j bs"
  by (auto simp: at_def add.commute)

lemma scan_nul_at:
  assumes "at data o1 (k @ 0 # t)" "0 \<notin> set k" "o1 + length k < len" "len \<le> length data"
  shows "scan_nul data len o1 = Ok (Some (o1 + length k))"
proof -
  have z: "data ! (o1 + length k) = 0"
    using at_nth [OF assms(1), of "length k"] by simp
  have nz: "data ! (o1 + j) \<noteq> 0" if "j < length k" for j
    using at_nth [OF assms(1), of j] that assms(2) by (auto simp: nth_append in_set_conv_nth)
  show ?thesis using assms(4)
  proof (cases rule: scan_nul_cases [of _ _ o1])
    case (found z')
    then have "z' = o1 + length k"
      using z nz [of "z' - o1"] found(5) [of "o1 + length k"]
      by (metis add_diff_inverse_nat add_less_cancel_left le_add1 linorder_neqE_nat not_less)
    with found show ?thesis by simp
  next
    case missing
    then show ?thesis using scan_nul_spec [OF assms(4), of o1] z assms(3) by auto
  qed
qed

section \<open>The cases of the switch on encoded values\<close>

lemma fill_string_at:
  assumes "at data o1 (enc_string s)" "o1 + length (enc_string s) < len" "len \<le> length data"
    "len \<le> INT32_MAX" "i_d1 it = o1"
  shows "fill_string it data len o1 =
    Ok (Filled o1 (it\<lparr>i_d2 := o1 + 4, i_next_off := o1 + length (enc_string s)\<rparr>))"
proof -
  have l: "len_at data o1 = length s + 1"
    using assms by (intro at_len [of _ _ _ "s @ [0]"]) (simp_all add: enc_string_def)
  have z: "data ! (o1 + (4 + length s)) = 0"
    using at_nth [OF assms(1), of "4 + length s"] by (simp add: enc_string_def nth_append)
  show ?thesis
    using assms l z
    by (simp add: fill_string_def Let_def wrap_simps view_simps add.assoc)
qed

lemma fill_document_at:
  assumes "at data o1 (frame body)" "o1 + length (frame body) < len" "len \<le> length data"
    "len \<le> INT32_MAX" "i_d1 it = o1"
  shows "fill_document it data len o1 = Ok (Filled o1 (it\<lparr>i_next_off := o1 + length (frame body)\<rparr>))"
proof -
  have l: "len_at data o1 = length body + 5"
    using assms by (intro at_len [of _ _ _ "body @ [0]"]) (simp_all add: frame_def)
  then show ?thesis
    using assms by (simp add: fill_document_def Let_def wrap_simps view_simps) linarith
qed

lemma fill_binary_at:
  assumes "at data o1 (enc_value (BBinary sub d))" "o1 + length (enc_value (BBinary sub d)) < len"
    "len \<le> length data" "len \<le> INT32_MAX" "i_d1 it = o1"
  shows "fill_binary it data len o1 =
    Ok (Filled o1 (it\<lparr>i_d2 := o1 + 4, i_d3 := o1 + 5,
                      i_next_off := o1 + length (enc_value (BBinary sub d))\<rparr>))"
proof -
  have sub: "data ! (o1 + 4) = sub"
    using at_nth [OF assms(1), of 4] by (auto simp: nth_append split: if_splits)
  define n where "n = (if sub = BSON_SUBTYPE_BINARY_DEPRECATED then length d + 4 else length d)"
  have len: "length (enc_value (BBinary sub d)) = n + 5"
    by (simp add: n_def)
  have "\<exists>t. enc_value (BBinary sub d) = le_bytes 4 n @ t" by (simp add: n_def)
  then have l: "len_at data o1 = n"
    using assms len by (auto intro!: at_len simp del: enc_value.simps)
  show ?thesis
    using assms(2-) l sub unfolding len
    by (auto simp: fill_binary_def Let_def wrap_simps view_simps n_def)
qed

lemma fill_dbpointer_at:
  assumes "at data o1 (enc_string c @ d)" "o1 + length (enc_string c @ d) < len" "len \<le> length data"
    "len \<le> INT32_MAX" "i_d1 it = o1" "length d = 12"
  shows "fill_dbpointer it data len o1 =
    Ok (Filled o1 (it\<lparr>i_d2 := o1 + 4, i_d3 := o1 + length (enc_string c),
                      i_next_off := o1 + length (enc_string c @ d)\<rparr>))"
proof -
  have l: "len_at data o1 = length c + 1"
    using assms by (intro at_len [of _ _ _ "c @ [0] @ d"]) (simp_all add: enc_string_def)
  then show ?thesis
    using assms by (simp add: fill_dbpointer_def Let_def wrap_simps view_simps) linarith
qed

lemma fill_regex_at:
  assumes "at data o1 (r @ [0] @ opts @ [0])" "o1 + length (r @ [0] @ opts @ [0]) < len"
    "len \<le> length data" "len \<le> INT32_MAX" "0 \<notin> set r" "0 \<notin> set opts"
  shows "fill_regex it data len o1 =
    Ok (Filled (o1 + length r + 1 + length opts)
      (it\<lparr>i_d2 := o1 + length r + 1, i_next_off := o1 + length (r @ [0] @ opts @ [0])\<rparr>))"
proof -
  have s1: "scan_nul data len o1 = Ok (Some (o1 + length r))"
    using assms by (intro scan_nul_at [where t = "opts @ [0]"]) auto
  have "at data (o1 + length (r @ [0])) (opts @ [0])"
    using at_appendD [of data o1 "r @ [0]" "opts @ [0]"] assms(1) by simp
  then have s2: "scan_nul data len (Suc (o1 + length r)) = Ok (Some (Suc (o1 + length r) + length opts))"
    using assms by (intro scan_nul_at [where t = "[]"]) auto
  show ?thesis
    using assms(2-) s1 s2 by (simp add: fill_regex_def Let_def wrap_simps)
qed

lemma fill_codewscope_at:
  fixes s body
  defines "bs \<equiv> le_bytes 4 (4 + length (enc_string s) + length (frame body)) @ enc_string s @ frame body"
  assumes "at data o1 bs" "o1 + length bs < len" "len \<le> length data"
    "len \<le> INT32_MAX" "i_d1 it = o1" "4 \<le> o1"
  shows "fill_codewscope it data len o1 =
    Ok (Filled o1 (it\<lparr>i_d2 := o1 + 4, i_d3 := o1 + 8, i_d4 := o1 + 4 + length (enc_string s),
                      i_next_off := o1 + length bs\<rparr>))"
proof -
  note a1 = assms(2) [unfolded bs_def]
  from at_appendD [OF a1] have a2: "at data (o1 + 4) (enc_string s @ frame body)" by simp
  from at_appendD [OF a2] have a3: "at data (o1 + 9 + length s) (frame body)"
    by (simp add: ac_simps)
  have l1: "len_at data o1 = length s + length body + 14"
    using a1 assms(3-5) by (intro at_len [of _ _ _ "enc_string s @ frame body"]) (simp_all add: bs_def ac_simps)
  have l2: "len_at data (o1 + 4) = length s + 1"
    using a2 assms(3-5)
    by (intro at_len [of _ _ _ "s @ [0] @ frame body"]) (simp_all add: enc_string_def bs_def)
  have l3: "len_at data (o1 + 9 + length s) = length body + 5"
    using a3 assms(3-5) by (intro at_len [of _ _ _ "body @ [0]"]) (simp_all add: frame_def bs_def)
  have o: "o1 + 8 + (length s + 1) = o1 + 9 + length s" by simp
  show ?thesis
    using assms(3-) l1 l2 l3
    by (auto simp: fill_codewscope_def Let_def wrap_simps view_simps bs_def ac_simps not_le)
qed

section \<open>One step over an encoded element\<close>

definition empty_value :: "bval \<Rightarrow> bool" where
  "empty_value x \<longleftrightarrow> x \<in> {BUndefined, BNull, BMaxKey, BMinKey}"

lemma fill_value_at:
  assumes "at data o1 (enc_value x)" "o1 + length (enc_value x) < len" "len \<le> length data"
    "len \<le> INT32_MAX" "i_d1 it = o1" "4 \<le> o1" "wf_value x" "ITER_TYPE it = Ok (val_type x)"
  shows "\<exists>o2 it'. fill_data_fields it data len o1 = Ok (Filled o2 it')
    \<and> i_next_off it' = o1 + length (enc_value x) \<and> (\<not> empty_value x \<longrightarrow> i_d1 it' = o1)"
  using assms
  by (cases x)
    (simp_all add: fill_data_fields_def fill_fixed_def fill_empty_def wrap_simps fill_string_at
       fill_document_at fill_binary_at fill_dbpointer_at fill_regex_at fill_codewscope_at
       empty_value_def del: length_enc_string length_frame)

lemma type_code_val_type [simp]: "bson_type_of (type_code (val_type x)) = val_type x"
  by (cases x) (simp_all add: bson_type_of_def)

text \<open>The bytes of one element, and what the iterator knows once it stands on it.\<close>

definition enc_elem :: "bytes \<Rightarrow> bval \<Rightarrow> bytes" where
  "enc_elem k x = type_code (val_type x) # k @ 0 # enc_value x"

lemma length_enc_elem: "length (enc_elem k x) = length k + length (enc_value x) + 2"
  by (simp add: enc_elem_def)

lemma enc_elems_Cons: "enc_elems ((k, x) # es) = enc_elem k x @ enc_elems es"
  by (simp add: enc_elem_def)

definition on_elem :: "bytes \<Rightarrow> bval \<Rightarrow> bson_iter_t \<Rightarrow> bool" where
  "on_elem k x it \<longleftrightarrow> on_field it \<and> wf_value x \<and> 0 \<notin> set k
     \<and> i_next_off it = i_off it + length (enc_elem k x)
     \<and> (\<exists>v. i_raw it = Some v \<and> at v (i_off it) (enc_elem k x))
     \<and> (\<not> empty_value x \<longrightarrow> i_d1 it = i_off it + 2 + length k)"

lemma bson_iter_next_at:
  assumes it: "i_raw it = Some data" "i_len it \<le> length data" "i_len it \<le> INT32_MAX"
      "4 \<le> i_next_off it"
    and el: "at data (i_next_off it) (enc_elem k x)"
      "i_next_off it + length (enc_elem k x) < i_len it" "wf_value x" "0 \<notin> set k"
  shows "\<exists>it'. bson_iter_next it = Ok (True, it') \<and> stepped it it' \<and> on_elem k x it'
    \<and> i_next_off it' = i_next_off it + length (enc_elem k x)"
proof -
  define off len o1 where "off = i_next_off it" and "len = i_len it" and "o1 = off + 2 + length k"
  define it2 where "it2 = (iter_begin it)\<lparr>i_d1 := o1\<rparr>"
  note at = at_ConsD [OF el(1) [folded off_def, unfolded enc_elem_def]]
  from at have ak: "at data (Suc off) (k @ 0 # enc_value x)" by simp
  have av: "at data o1 (enc_value x)"
    using at_appendD [of data "Suc off" "k @ [0]" "enc_value x"] ak by (simp add: o1_def ac_simps)
  have bnd: "o1 + length (enc_value x) < len"
    using el(2) by (simp add: length_enc_elem o1_def off_def len_def)
  with it have w: "off + 1 < 4294967296" "off + length k + 2 < 4294967296"
    by (auto simp: o1_def len_def)
  have scan: "scan_nul data len (Suc off) = Ok (Some (Suc off + length k))"
    using ak el(4) bnd it by (intro scan_nul_at) (auto simp: o1_def len_def)
  have ty: "ITER_TYPE it2 = Ok (val_type x)"
    using at it by (simp add: it2_def iter_begin_def ITER_TYPE_def iter_view_def view_simps off_def)
  obtain o2 it3 where f: "fill_data_fields it2 data len o1 = Ok (Filled o2 it3)"
    "i_next_off it3 = o1 + length (enc_value x)" "\<not> empty_value x \<longrightarrow> i_d1 it3 = o1"
    using fill_value_at [OF av bnd _ _ _ _ el(3) ty] it by (auto simp: len_def it2_def o1_def off_def)
  have eq: "bson_iter_next it = Ok (True, it3\<lparr>i_err_off := 0\<rparr>)"
    using scan f bnd w it
    by (simp add: bson_iter_next_def Let_def iter_begin_def wrap_simps flip: off_def len_def)
      (simp add: it2_def iter_begin_def o1_def off_def ac_simps wrap_simps)
  have "iter_ok it" using it el(2) by (simp add: iter_ok_def length_enc_elem)
  with bson_iter_next_cases [OF this] eq have st: "stepped it (it3\<lparr>i_err_off := 0\<rparr>)" by auto
  moreover have "i_next_off it3 = off + length (enc_elem k x)"
    using f(2) by (simp add: length_enc_elem o1_def)
  moreover from this have "on_elem k x (it3\<lparr>i_err_off := 0\<rparr>)"
    using st f(3) el it(1) by (simp add: on_elem_def stepped_def o1_def off_def)
  ultimately show ?thesis using eq by (simp add: off_def)
qed

text \<open>After the last element only the terminator is left, and the iterator stops.\<close>

lemma bson_iter_next_end:
  assumes "i_raw it = Some data" "i_len it \<le> length data" "i_len it \<le> INT32_MAX"
    "Suc (i_next_off it) = i_len it"
  shows "\<exists>it'. bson_iter_next it = Ok (False, it') \<and> i_raw it' = None \<and> i_err_off it' = i_err_off it"
  using assms
  by (simp add: bson_iter_next_def Let_def iter_begin_def wrap_simps scan_nul.simps mark_invalid_def)

section \<open>Accessors on an encoded element\<close>

lemma on_elemE:
  assumes "on_elem k x it"
  obtains v where "on_field it" "i_raw it = Some v" "field_type it = val_type x" "wf_value x"
    "0 \<notin> set k" "at v (i_key it) (k @ [0])" "i_len it \<le> INT32_MAX"
    "i_off it + length (enc_elem k x) < i_len it" "i_len it \<le> length v"
    "\<not> empty_value x \<Longrightarrow> at v (i_d1 it) (enc_value x)"
    "\<not> empty_value x \<Longrightarrow> i_d1 it + length (enc_value x) = i_next_off it"
    "\<not> empty_value x \<Longrightarrow> field_layout (val_type x) v it"
proof -
  from assms obtain v where a: "on_field it" "wf_value x" "0 \<notin> set k"
    "i_next_off it = i_off it + length (enc_elem k x)"
    "i_raw it = Some v" "at v (i_off it) (enc_elem k x)"
    "\<not> empty_value x \<longrightarrow> i_d1 it = i_off it + 2 + length k"
    by (auto simp: on_elem_def)
  have b: "i_key it = Suc (i_off it)" "i_next_off it < i_len it" "i_len it \<le> length v"
    "i_len it \<le> INT32_MAX" "field_layout (bson_type_of (v ! i_off it)) v it"
    using a(1,5) by (auto elim!: on_fieldE)
  note c = at_ConsD [OF a(6) [unfolded enc_elem_def]]
  have ft: "field_type it = val_type x" using c a(5) by (simp add: field_type_def)
  have d: "at v (i_key it) (k @ [0])" "at v (i_off it + 2 + length k) (enc_value x)"
    using at_appendD [of v "i_key it" "k @ [0]" "enc_value x"] c b(1) by (simp_all add: ac_simps)
  show thesis
    using a b c d ft by (intro that [of v]) (auto simp: length_enc_elem)
qed

lemma on_elem_key:
  assumes "on_elem k x it"
  shows "\<exists>t. bson_iter_key it = Ok (k @ 0 # t)"
proof -
  obtain v where v: "i_raw it = Some v" "at v (i_key it) (k @ [0])"
    using assms by (rule on_elemE)
  then have "drop (i_key it) v = k @ 0 # drop (Suc (i_key it + length k)) v"
    unfolding at_def
    by (metis (no_types, lifting) add.commute append.assoc append_Cons append_Nil append_take_drop_id
        drop_drop length_append_singleton add_Suc)
  with v show ?thesis
    by (auto simp: bson_iter_key_def bson_iter_key_unsafe_def iter_ptr_def iter_view_def
          dest!: at_length)
qed

lemma at_rd32: "at v i (le_bytes 4 n) \<Longrightarrow> n < 4294967296 \<Longrightarrow> rd32 v i = Ok n"
  by (simp add: at_def rd32_def rdn_def le_nat_le_bytes)

lemma at_rd64: "at v i (le_bytes 8 n) \<Longrightarrow> n < 2 ^ 64 \<Longrightarrow> rd64 v i = Ok n"
  by (simp add: at_def rd64_def rdn_def le_nat_le_bytes)

lemma at_rd8: "at v i [b] \<Longrightarrow> rd8 v i = Ok b"
  by (drule at_ConsD) (simp add: rd8_def)

lemmas at_reads = at_rd32 [OF _ unat_word_less(1)] at_rd64 [OF _ unat_word_less(2)] at_rd8

lemma fixed_accessors_on_elem:
  shows "on_elem k (BInt32 w) it \<Longrightarrow> bson_iter_int32 it = Ok w"
    and "on_elem k (BInt64 q) it \<Longrightarrow> bson_iter_int64 it = Ok q"
    and "on_elem k (BDouble q) it \<Longrightarrow> bson_iter_double it = Ok q"
    and "on_elem k (BDateTime q) it \<Longrightarrow> bson_iter_date_time it = Ok q"
    and "on_elem k (BBool b) it \<Longrightarrow> bson_iter_bool it = Ok b"
  by (auto elim!: on_elemE
        simp: bson_iter_int32_def bson_iter_int64_def bson_iter_double_def
          bson_iter_date_time_def bson_iter_bool_def ITER_TYPE_on_field iter_view_def
          bson_iter_double_unsafe_def bson_iter_int32_unsafe_def bson_iter_int64_unsafe_def
          bson_iter_bool_unsafe_def empty_value_def at_reads)

lemma timestamp_on_elem:
  assumes "on_elem k (BTimestamp ts inc) it"
  shows "bson_iter_timestamp it = Ok (ts, inc)"
proof -
  obtain v where v: "on_field it" "i_raw it = Some v" "field_type it = BSON_TYPE_TIMESTAMP"
    "at v (i_d1 it) (le_bytes 4 (unat inc) @ le_bytes 4 (unat ts))"
    using assms by (rule on_elemE) (auto simp: empty_value_def)
  have split: "le_nat (xs @ ys) = le_nat xs + 256 ^ length xs * le_nat ys" for xs ys
    by (induction xs) (simp_all add: algebra_simps)
  have "rd64 v (i_d1 it) = Ok (unat inc + 4294967296 * unat ts)"
    using v(4) unat_word_less(1) [of inc] unat_word_less(1) [of ts]
    by (simp add: at_def rd64_def rdn_def split codec_simps)
  then show ?thesis
    using v unat_word_less(1) [of inc] unat_word_less(1) [of ts]
    by (simp add: bson_iter_timestamp_def ITER_TYPE_on_field iter_view_def)
qed

text \<open>Strings come back as a pointer to the bytes and their terminator, with the length.\<close>

definition points_to :: "view option \<Rightarrow> bytes \<Rightarrow> bool" where
  "points_to p bs \<longleftrightarrow> (\<exists>t. p = Some (bs @ t))"

lemma at_points_to: "at v i bs \<Longrightarrow> points_to (Some (drop i v)) bs"
  unfolding at_def points_to_def by (metis append_take_drop_id)

lemma string_on_elem:
  assumes "on_elem k x it" "(x, f) \<in> {(BUtf8 s, bson_iter_utf8), (BCode s, bson_iter_code),
     (BSymbol s, bson_iter_symbol)}"
  shows "\<exists>p. f it = Ok (p, length s) \<and> points_to p (s @ [0])"
proof -
  have x: "\<not> empty_value x" "enc_value x = enc_string s"
    "val_type x \<in> {BSON_TYPE_UTF8, BSON_TYPE_CODE, BSON_TYPE_SYMBOL}"
    using assms(2) by (auto simp: empty_value_def)
  obtain v where v: "on_field it" "i_raw it = Some v" "field_type it = val_type x"
    "at v (i_d1 it) (enc_string s)" "i_d1 it + length (enc_string s) = i_next_off it"
    "i_len it \<le> INT32_MAX"
    using assms(1) x by (elim on_elemE) auto
  have "i_next_off it \<le> INT32_MAX" using v(1,6) by (auto elim: on_fieldE)
  with v have l: "len_at v (i_d1 it) = length s + 1"
    by (intro at_len [of _ _ _ "s @ [0]"]) (simp_all add: enc_string_def)
  note sf = string_field [OF v(1,2)]
  have "at v (i_d1 it + 4) (s @ [0])"
    using at_appendD [OF v(4) [unfolded enc_string_def]] by simp
  from at_points_to [OF this] show ?thesis
    using assms(2) v(1,3) x sf l
    by (auto simp: bson_iter_utf8_def bson_iter_code_def bson_iter_symbol_def ITER_TYPE_on_field)
qed

lemma document_on_elem:
  assumes "on_elem k x it" "x = BDocument es \<or> x = BArray es"
  shows "\<exists>p. points_to p (encode_doc es)
     \<and> (if x = BDocument es then bson_iter_document it else bson_iter_array it)
       = Ok (length (encode_doc es), p)
     \<and> bson_iter_recurse it = Ok (Some (iter_at_start p (length (encode_doc es))))"
proof -
  have x: "\<not> empty_value x" "enc_value x = encode_doc es"
    "val_type x = (if x = BDocument es then BSON_TYPE_DOCUMENT else BSON_TYPE_ARRAY)"
    using assms(2) by (auto simp: empty_value_def encode_doc_def)
  obtain v where v: "on_field it" "i_raw it = Some v" "field_type it = val_type x"
    "at v (i_d1 it) (encode_doc es)" "i_d1 it + length (encode_doc es) = i_next_off it"
    "i_len it \<le> INT32_MAX"
    using assms(1) x by (elim on_elemE) auto
  have "i_next_off it \<le> INT32_MAX" using v(1,6) by (auto elim: on_fieldE)
  with v have "len_at v (i_d1 it) = length (enc_elems es) + 5"
    by (intro at_len [of _ _ _ "enc_elems es @ [0]"]) (simp_all add: encode_doc_def frame_def)
  then have l: "len_at v (i_d1 it) = length (encode_doc es)" by simp
  show ?thesis
    using v x l at_points_to [OF v(4)] fixed_field(5) [OF v(1,2)]
      bson_iter_recurse_on_field [OF v(1,2)]
    by (intro exI [of _ "Some (drop (i_d1 it) v)"])
      (simp add: bson_iter_document_def bson_iter_array_def ITER_TYPE_on_field iter_view_def)
qed

lemma oid_on_elem:
  assumes "on_elem k (BOid d) it"
  shows "\<exists>p. bson_iter_oid it = Ok p \<and> points_to p d"
proof -
  obtain v where v: "on_field it" "i_raw it = Some v" "field_type it = BSON_TYPE_OID"
    "at v (i_d1 it) d"
    using assms by (rule on_elemE) (auto simp: empty_value_def)
  then show ?thesis
    using fixed_field(4) [OF v(1,2)] at_points_to [OF v(4)]
    by (auto simp: bson_iter_oid_def bson_iter_oid_unsafe_def ITER_TYPE_on_field)
qed

lemma binary_on_elem:
  assumes "on_elem k (BBinary sub d) it"
  shows "\<exists>p. bson_iter_binary it = Ok (sub, length d, p) \<and> points_to p d"
proof -
  obtain v where v: "on_field it" "i_raw it = Some v" "field_type it = BSON_TYPE_BINARY"
    "at v (i_d1 it) (enc_value (BBinary sub d))"
    "i_d1 it + length (enc_value (BBinary sub d)) = i_next_off it" "i_len it \<le> INT32_MAX"
    "field_layout BSON_TYPE_BINARY v it"
    using assms by (rule on_elemE) (auto simp: empty_value_def simp del: enc_value.simps)
  define n where "n = (if sub = BSON_SUBTYPE_BINARY_DEPRECATED then length d + 4 else length d)"
  define t where "t = (if sub = BSON_SUBTYPE_BINARY_DEPRECATED then le_bytes 4 (length d) @ d else d)"
  have e: "enc_value (BBinary sub d) = le_bytes 4 n @ [sub] @ t" "length t = n"
    by (simp_all add: n_def t_def)
  note a = v(4) [unfolded e(1)]
  have b: "i_next_off it \<le> INT32_MAX" "i_next_off it < length v"
    using v(1,2,6) by (auto elim: on_fieldE)
  with v(5) e a have l: "len_at v (i_d1 it) = n"
    by (intro at_len [OF a]) simp
  have c: "rd8 v (i_d1 it + 4) = Ok sub" "at v (i_d1 it + 5) t"
    using at_appendD [OF a] at_ConsD [of v "i_d1 it + 4" sub t]
    by (auto simp: rd8_def add.commute)
  have dd: "at v (i_d1 it + 9) d" if "sub = BSON_SUBTYPE_BINARY_DEPRECATED"
    using at_appendD [of v "i_d1 it + 5" "le_bytes 4 (length d)" d] c(2) that by (simp add: t_def add.commute)
  have f: "i_d2 it = i_d1 it + 4" "i_d3 it = i_d1 it + 5" using v(7) by (auto simp: field_layout_def Let_def)
  show ?thesis
    using v(1-3) v(5) b l c f at_points_to [OF c(2)] dd at_points_to [of v "i_d1 it + 9" d] e
    by (auto simp: bson_iter_binary_def ITER_TYPE_on_field iter_view_def iter_ptr_def view_simps
          n_def t_def wrap_simps add.commute)
qed

lemma regex_on_elem:
  assumes "on_elem k (BRegex r opts) it"
  shows "\<exists>p q. bson_iter_regex it = Ok (p, q) \<and> points_to p (r @ [0]) \<and> points_to q (opts @ [0])"
proof -
  obtain v where v: "on_field it" "i_raw it = Some v" "field_type it = BSON_TYPE_REGEX"
    "at v (i_d1 it) (r @ [0] @ opts @ [0])" "0 \<notin> set r" "0 \<notin> set opts"
    "i_d1 it + length (r @ [0] @ opts @ [0]) = i_next_off it" "field_layout BSON_TYPE_REGEX v it"
    using assms by (rule on_elemE) (auto simp: empty_value_def)
  have a: "at v (i_d1 it) (r @ [0])" "at v (i_d1 it + length r + 1) (opts @ [0])"
    using at_appendD [of v "i_d1 it" "r @ [0]" "opts @ [0]"] v(4) by simp_all
  have nz: "v ! (i_d1 it + j) \<noteq> 0" if "j < length r" for j
    using at_nth [OF a(1), of j] that v(5) by (auto simp: nth_append in_set_conv_nth)
  have z: "v ! (i_d1 it + length r) = 0" using at_nth [OF a(1), of "length r"] by simp
  have l: "i_d1 it < i_d2 it" "i_d2 it < i_next_off it" "v ! (i_d2 it - 1) = 0"
    "\<And>j. i_d1 it \<le> j \<Longrightarrow> j < i_d2 it - 1 \<Longrightarrow> v ! j \<noteq> 0"
    using v(8) by (auto simp: field_layout_def Let_def)
  have d2: "i_d2 it = i_d1 it + length r + 1"
  proof (rule ccontr)
    assume ne: "i_d2 it \<noteq> i_d1 it + length r + 1"
    show False
    proof (cases "i_d2 it \<le> i_d1 it + length r")
      case True
      then show ?thesis using nz [of "i_d2 it - 1 - i_d1 it"] l(1,3) by simp
    next
      case False
      with ne have "i_d1 it + length r < i_d2 it - 1" by linarith
      then show ?thesis using l(4) [of "i_d1 it + length r"] z by simp
    qed
  qed
  have "i_next_off it < length v" using v(1,2) by (auto elim: on_fieldE)
  then show ?thesis
    using v(1-3) d2 l(2) at_points_to [OF a(1)] at_points_to [OF a(2)]
    by (auto simp: bson_iter_regex_def ITER_TYPE_on_field iter_ptr_def iter_view_def)
qed

lemma dbpointer_on_elem:
  assumes "on_elem k (BDBPointer c d) it"
  shows "\<exists>p q. bson_iter_dbpointer it n = Ok (length c, p, q) \<and> points_to p (c @ [0]) \<and> points_to q d"
proof -
  obtain v where v: "on_field it" "i_raw it = Some v" "field_type it = BSON_TYPE_DBPOINTER"
    "at v (i_d1 it) (enc_string c @ d)"
    "i_d1 it + length (enc_string c @ d) = i_next_off it" "i_len it \<le> INT32_MAX"
    "field_layout BSON_TYPE_DBPOINTER v it"
    using assms by (rule on_elemE) (auto simp: empty_value_def)
  have b: "i_next_off it \<le> INT32_MAX" "i_next_off it < length v"
    using v(1,2,6) by (auto elim: on_fieldE)
  have a: "at v (i_d1 it) (le_bytes 4 (length c + 1) @ c @ [0])" "at v (i_d1 it + 5 + length c) d"
    using at_appendD [OF v(4)] by (simp_all add: enc_string_def ac_simps)
  with b v(5) have l: "len_at v (i_d1 it) = length c + 1" by (intro at_len) auto
  have a2: "at v (i_d1 it + 4) (c @ [0])" using at_appendD [OF a(1)] by simp
  have f: "i_d2 it = i_d1 it + 4" "i_d3 it = i_d1 it + 5 + length c"
    using v(7) l by (auto simp: field_layout_def Let_def)
  show ?thesis
    using v(1-3) v(5) f l b at_points_to [OF a2] at_points_to [OF a(2)]
    by (auto simp: bson_iter_dbpointer_def ITER_TYPE_on_field iter_view_def iter_ptr_def
          view_simps)
qed

lemma codewscope_on_elem:
  assumes "on_elem k (BCodeWScope s es) it"
  shows "\<exists>p q. bson_iter_codewscope it = Ok (p, length s, length (encode_doc es), q)
     \<and> points_to p (s @ [0]) \<and> points_to q (encode_doc es)"
proof -
  let ?f = "frame (enc_elems es)"
  obtain v where v: "on_field it" "i_raw it = Some v" "field_type it = BSON_TYPE_CODEWSCOPE"
    "at v (i_d1 it) (le_bytes 4 (4 + length (enc_string s) + length ?f) @ enc_string s @ ?f)"
    "i_d1 it + (9 + length s + length ?f) = i_next_off it" "i_len it \<le> INT32_MAX"
    "field_layout BSON_TYPE_CODEWSCOPE v it"
    using assms by (rule on_elemE) (auto simp: empty_value_def ac_simps)
  have b: "i_next_off it \<le> INT32_MAX" "i_next_off it < length v"
    using v(1,2,6) by (auto elim: on_fieldE)
  have a: "at v (i_d1 it + 4) (enc_string s @ ?f)" using at_appendD [OF v(4)] by simp
  from at_appendD [OF a] have a1: "at v (i_d1 it + 4) (le_bytes 4 (length s + 1) @ s @ [0])"
    and a2: "at v (i_d1 it + 9 + length s) ?f"
    by (simp_all add: enc_string_def ac_simps)
  have a3: "at v (i_d1 it + 8) (s @ [0])" using at_appendD [OF a1] by (simp add: add.commute)
  have l1: "len_at v (i_d1 it + 4) = length s + 1" using a1 b v(5) by (intro at_len) auto
  have l2: "len_at v (i_d1 it + 9 + length s) = length (enc_elems es) + 5"
    using a2 b v(5) unfolding frame_def by (intro at_len) auto
  have f: "i_d2 it = i_d1 it + 4" "i_d3 it = i_d1 it + 8" "i_d4 it = i_d1 it + 9 + length s"
    using v(7) l1 by (auto simp: field_layout_def Let_def)
  show ?thesis
    using v(1-3) v(5) f l1 l2 b at_points_to [OF a2] at_points_to [OF a3]
    by (auto simp: bson_iter_codewscope_def ITER_TYPE_on_field iter_view_def iter_ptr_def
          view_simps encode_doc_def wrap_simps)
qed

section \<open>Values\<close>

text \<open>What \<open>bson_iter_value\<close> returns for an abstract value.\<close>

fun value_holds :: "bson_value_t \<Rightarrow> bval \<Rightarrow> bool" where
  "value_holds val (BDouble w) \<longleftrightarrow> val = value_double w"
| "value_holds val (BUtf8 s) \<longleftrightarrow> (\<exists>p. val = value_utf8 p (length s) \<and> points_to p (s @ [0]))"
| "value_holds val (BDocument es) \<longleftrightarrow>
     (\<exists>p. val = value_document (length (encode_doc es)) p \<and> points_to p (encode_doc es))"
| "value_holds val (BArray es) \<longleftrightarrow>
     (\<exists>p. val = value_array (length (encode_doc es)) p \<and> points_to p (encode_doc es))"
| "value_holds val (BBinary sub d) \<longleftrightarrow> (\<exists>p. val = value_binary sub (length d) p \<and> points_to p d)"
| "value_holds val BUndefined \<longleftrightarrow> val = value_undefined"
| "value_holds val (BOid d) \<longleftrightarrow> val = value_oid d"
| "value_holds val (BBool b) \<longleftrightarrow> val = value_bool b"
| "value_holds val (BDateTime w) \<longleftrightarrow> val = value_datetime w"
| "value_holds val BNull \<longleftrightarrow> val = value_null"
| "value_holds val (BRegex r opts) \<longleftrightarrow>
     (\<exists>p q. val = value_regex p q \<and> points_to p (r @ [0]) \<and> points_to q (opts @ [0]))"
| "value_holds val (BDBPointer c d) \<longleftrightarrow>
     (\<exists>p. val = value_dbpointer (length c) p d \<and> points_to p (c @ [0]))"
| "value_holds val (BCode s) \<longleftrightarrow> (\<exists>p. val = value_code p (length s) \<and> points_to p (s @ [0]))"
| "value_holds val (BSymbol s) \<longleftrightarrow> (\<exists>p. val = value_symbol p (length s) \<and> points_to p (s @ [0]))"
| "value_holds val (BCodeWScope s es) \<longleftrightarrow>
     (\<exists>p q. val = value_codewscope p (length s) (length (encode_doc es)) q
            \<and> points_to p (s @ [0]) \<and> points_to q (encode_doc es))"
| "value_holds val (BInt32 w) \<longleftrightarrow> val = value_int32 w"
| "value_holds val (BTimestamp ts inc) \<longleftrightarrow> val = value_timestamp ts inc"
| "value_holds val (BInt64 w) \<longleftrightarrow> val = value_int64 w"
| "value_holds val BMaxKey \<longleftrightarrow> val = value_maxkey"
| "value_holds val BMinKey \<longleftrightarrow> val = value_minkey"

lemma oid_copy_points_to: "points_to p d \<Longrightarrow> length d = 12 \<Longrightarrow> bson_oid_copy p = Ok d"
  by (auto simp: points_to_def bson_oid_copy_def rdn_def)

lemma ITER_TYPE_on_elem: "on_elem k x it \<Longrightarrow> ITER_TYPE it = Ok (val_type x)"
  by (elim on_elemE) (simp add: ITER_TYPE_on_field)

lemma bson_iter_value_on_elem:
  assumes "on_elem k x it"
  shows "\<exists>val. bson_iter_value it = Ok (Some val) \<and> value_holds val x"
proof -
  have wf: "wf_value x" using assms by (simp add: on_elem_def)
  note ty = ITER_TYPE_on_elem [OF assms]
  show ?thesis
  proof (cases x)
    case (BUtf8 s)
    then show ?thesis using string_on_elem [OF assms, of bson_iter_utf8 s] ty
      by (auto simp: bson_iter_value_def)
  next
    case (BCode s)
    then show ?thesis using string_on_elem [OF assms, of bson_iter_code s] ty
      by (auto simp: bson_iter_value_def)
  next
    case (BSymbol s)
    then show ?thesis using string_on_elem [OF assms, of bson_iter_symbol s] ty
      by (auto simp: bson_iter_value_def)
  next
    case (BDocument es)
    then show ?thesis using document_on_elem [OF assms, of es] ty
      by (auto simp: bson_iter_value_def)
  next
    case (BArray es)
    then show ?thesis using document_on_elem [OF assms, of es] ty
      by (auto simp: bson_iter_value_def)
  next
    case (BOid d)
    then show ?thesis using oid_on_elem [of k d it] assms ty wf oid_copy_points_to
      by (fastforce simp: bson_iter_value_def)
  next
    case (BDBPointer c d)
    then show ?thesis using dbpointer_on_elem [of k c d it 0] assms ty wf oid_copy_points_to
      by (fastforce simp: bson_iter_value_def)
  next
    case (BBinary sub d)
    then show ?thesis using binary_on_elem [of k sub d it] assms ty
      by (auto simp: bson_iter_value_def)
  next
    case (BRegex r opts)
    then show ?thesis using regex_on_elem [of k r opts it] assms ty
      by (auto simp: bson_iter_value_def)
  next
    case (BCodeWScope s es)
    then show ?thesis using codewscope_on_elem [of k s es it] assms ty
      by (auto simp: bson_iter_value_def)
  next
    case (BTimestamp ts inc)
    then show ?thesis using timestamp_on_elem [of k ts inc it] assms ty
      by (auto simp: bson_iter_value_def)
  qed (use assms ty fixed_accessors_on_elem in \<open>auto simp: bson_iter_value_def\<close>)
qed

section \<open>Iterating over an encoded document\<close>

text \<open>
  \<open>iter_upto es n it\<close>: the iterator walks over \<open>es\<close> and the next element is number \<open>n\<close>.
\<close>

definition iter_upto :: "bdoc \<Rightarrow> nat \<Rightarrow> bson_iter_t \<Rightarrow> bool" where
  "iter_upto es n it \<longleftrightarrow> wf_elems es \<and> n \<le> length es
     \<and> (\<exists>t. i_raw it = Some (encode_doc es @ t))
     \<and> i_len it = length (encode_doc es) \<and> i_len it \<le> INT32_MAX
     \<and> i_next_off it = 4 + length (enc_elems (take n es)) \<and> i_err_off it = 0"

lemma iter_upto_ok: "iter_upto es n it \<Longrightarrow> iter_ok it"
proof -
  assume a: "iter_upto es n it"
  have "length (enc_elems (take n es)) \<le> length (enc_elems es)"
    by (metis append_take_drop_id enc_elems_append le_add1 length_append)
  with a show ?thesis by (auto simp: iter_upto_def iter_ok_def)
qed

lemma iter_upto_start:
  "wf_doc es \<Longrightarrow> points_to p (encode_doc es)
     \<Longrightarrow> iter_upto es 0 (iter_at_start p (length (encode_doc es)))"
  by (auto simp: iter_upto_def wf_doc_def points_to_def iter_at_start_def)

lemma iter_upto_next:
  assumes "iter_upto es n it" "n < length es"
  obtains it' where "bson_iter_next it = Ok (True, it')" "iter_upto es (Suc n) it'"
    "on_elem (fst (es ! n)) (snd (es ! n)) it'"
proof -
  obtain k x where kx: "es ! n = (k, x)" by fastforce
  define pre post where "pre = take n es" and "post = drop (Suc n) es"
  have es: "es = pre @ (k, x) # post"
    using assms(2) kx by (metis id_take_nth_drop pre_def post_def)
  obtain t where t: "i_raw it = Some (encode_doc es @ t)"
    using assms(1) by (auto simp: iter_upto_def)
  have it: "i_len it = length (encode_doc es)" "i_len it \<le> INT32_MAX" "wf_elems es"
    "i_next_off it = 4 + length (enc_elems pre)"
    using assms(1) by (simp_all add: iter_upto_def pre_def)
  have split: "encode_doc es @ t = (le_bytes 4 (length (enc_elems es) + 5) @ enc_elems pre)
      @ enc_elem k x @ enc_elems post @ [0] @ t"
    by (simp add: encode_doc_def frame_def es enc_elem_def)
  have el: "at (encode_doc es @ t) (i_next_off it) (enc_elem k x)"
    unfolding split by (simp add: at_def it(4))
  have len: "length (enc_elems es) = length (enc_elems pre) + length (enc_elem k x) + length (enc_elems post)"
    by (simp add: es enc_elem_def)
  have wf: "wf_value x" "0 \<notin> set k" using it(3) by (simp_all add: es)
  obtain it' where s: "bson_iter_next it = Ok (True, it')" "stepped it it'" "on_elem k x it'"
    "i_next_off it' = i_next_off it + length (enc_elem k x)"
    using bson_iter_next_at [OF t _ it(2) _ el _ wf] it(1,4) len by auto
  have "enc_elems (take (Suc n) es) = enc_elems pre @ enc_elem k x"
    using assms(2) kx by (simp add: pre_def take_Suc_conv_app_nth enc_elem_def)
  then have "iter_upto es (Suc n) it'"
    using s(2,4) t it assms(2) by (auto simp: iter_upto_def stepped_def)
  with s kx show thesis using that by simp
qed

lemma iter_upto_end:
  assumes "iter_upto es (length es) it"
  obtains it' where "bson_iter_next it = Ok (False, it')" "i_raw it' = None" "i_err_off it' = 0"
  using assms bson_iter_next_end [of it] by (auto simp: iter_upto_def)

section \<open>Properties\<close>

text \<open>
  The loop \<open>while (bson_iter_next (&it)) ...\<close> of every reader of a document, collecting key and
  value of each field; the fuel bounds the number of calls.
\<close>

fun read_all :: "nat \<Rightarrow> bson_iter_t \<Rightarrow> (bytes \<times> bson_value_t option) list result" where
  "read_all 0 it = Fault No_Termination"
| "read_all (Suc fuel) it =
     rbind (bson_iter_next it) (\<lambda>(more, it').
       if \<not> more then Ok []
       else rbind (bson_iter_key it') (\<lambda>kp. rbind (c_string kp) (\<lambda>k.
         rbind (bson_iter_value it') (\<lambda>val.
           rbind (read_all fuel it') (\<lambda>rest. Ok ((k, val) # rest))))))"

definition reads_as :: "bytes \<times> bson_value_t option \<Rightarrow> bytes \<times> bval \<Rightarrow> bool" where
  "reads_as r e \<longleftrightarrow> fst r = fst e \<and> (\<exists>val. snd r = Some val \<and> value_holds val (snd e))"

lemma read_all_upto:
  "iter_upto es n it \<Longrightarrow> length es - n < fuel \<Longrightarrow>
     \<exists>rs. read_all fuel it = Ok rs \<and> list_all2 reads_as rs (drop n es)"
proof (induction fuel arbitrary: n it)
  case (Suc fuel)
  show ?case
  proof (cases "n < length es")
    case True
    obtain it' where s: "bson_iter_next it = Ok (True, it')" "iter_upto es (Suc n) it'"
      "on_elem (fst (es ! n)) (snd (es ! n)) it'"
      using iter_upto_next [OF Suc.prems(1) True] .
    have nz: "0 \<notin> set (fst (es ! n))" using s(3) by (simp add: on_elem_def)
    obtain t where k: "bson_iter_key it' = Ok (fst (es ! n) @ 0 # t)" using on_elem_key [OF s(3)] by blast
    obtain val where val: "bson_iter_value it' = Ok (Some val)" "value_holds val (snd (es ! n))"
      using bson_iter_value_on_elem [OF s(3)] by blast
    obtain rs where rs: "read_all fuel it' = Ok rs" "list_all2 reads_as rs (drop (Suc n) es)"
      using Suc.IH [OF s(2)] Suc.prems(2) True by fastforce
    have "reads_as (fst (es ! n), Some val) (es ! n)" using val(2) by (simp add: reads_as_def)
    then show ?thesis
      using s(1) k val(1) rs True c_string_append [OF nz, of t]
      by (simp add: Cons_nth_drop_Suc [symmetric])
  next
    case False
    with Suc.prems(1) have n: "n = length es" by (simp add: iter_upto_def)
    obtain it' where "bson_iter_next it = Ok (False, it')"
      using iter_upto_end Suc.prems(1) unfolding n by blast
    then show ?thesis by (simp add: n)
  qed
qed simp

text \<open>
  C6: iterating over the encoding of a well-formed document, whatever follows it in memory, ends
  without a fault and yields exactly its keys and values, in order: decoding with
  \<open>bson_iter_next\<close>, \<open>bson_iter_key\<close> and \<open>bson_iter_value\<close> inverts the encoding of the BSON
  specification, for all twenty element types.
\<close>

theorem iterate_reads_document:
  assumes "wf_doc es"
  shows "\<exists>rs. read_all (Suc (length es))
              (iter_at_start (Some (encode_doc es @ t)) (length (encode_doc es))) = Ok rs
     \<and> list_all2 reads_as rs es"
proof -
  have "points_to (Some (encode_doc es @ t)) (encode_doc es)" by (simp add: points_to_def)
  from read_all_upto [OF iter_upto_start [OF assms this]] show ?thesis by fastforce
qed

theorem iterate_reads_document_witness:
  "\<exists>rs. read_all 4 (iter_at_start (Some (encode_doc
         [([0x61], BInt32 7), ([0x62], BUtf8 [0x68, 0x69]), ([0x63], BArray [([0x30], BNull)])] @ [])) 33) = Ok rs
     \<and> list_all2 reads_as rs
         [([0x61], BInt32 7), ([0x62], BUtf8 [0x68, 0x69]), ([0x63], BArray [([0x30], BNull)])]"
proof -
  let ?es = "[([0x61], BInt32 7), ([0x62], BUtf8 [0x68, 0x69]), ([0x63], BArray [([0x30], BNull)])] :: bdoc"
  have len: "length (encode_doc ?es) = 33" by code_simp
  then have wf: "wf_doc ?es" by (simp add: wf_doc_def del: length_encode_doc)
  have n: "Suc (length ?es) = 4" by simp
  show ?thesis by (rule iterate_reads_document [OF wf, of "[]", unfolded len n])
qed

end
