(* ===== verification/Readers.thy ===== *)
theory Readers
  imports Prelude
begin

text \<open>
  Loops of the form \<open>while (next (it)) ...\<close>, which the C sources write again and again over BSON
  iterators and over cursors, and the two contracts such a \<open>next\<close> has to meet.

  A loop carries fuel, the number of calls it may make; running out of it is the fault
  \<open>No_Termination\<close>, so that a theorem which excludes every fault also shows that the loop ends.
  \<open>safe_reader\<close> is what makes the loops safe on arbitrary input: a step never faults, and one that
  succeeds consumes something. \<open>list_reader\<close> adds what makes them correct: the steps present the
  elements of a list in order.
\<close>

section \<open>Loops\<close>

text \<open>\<open>while (next (it)) if (found (it)) return true; return false;\<close>\<close>

fun search_loop ::
    "nat \<Rightarrow> ('s \<Rightarrow> (bool \<times> 's) result) \<Rightarrow> ('s \<Rightarrow> bool result) \<Rightarrow> 's \<Rightarrow> (bool \<times> 's) result" where
  "search_loop 0 step found s = Fault No_Termination"
| "search_loop (Suc fuel) step found s =
     rbind (step s) (\<lambda>(more, s').
       if \<not> more then Ok (False, s')
       else rbind (found s') (\<lambda>b.
         if b then Ok (True, s') else search_loop fuel step found s'))"

text \<open>\<open>for (count = c; next (it); count++);\<close> with a 32-bit counter.\<close>

fun count_loop :: "nat \<Rightarrow> ('s \<Rightarrow> (bool \<times> 's) result) \<Rightarrow> 's \<Rightarrow> nat \<Rightarrow> nat result" where
  "count_loop 0 step s c = Fault No_Termination"
| "count_loop (Suc fuel) step s c =
     rbind (step s) (\<lambda>(more, s').
       if more then count_loop fuel step s' (w32 (c + 1)) else Ok c)"

section \<open>Safety\<close>

locale safe_reader =
  fixes step :: "'s \<Rightarrow> (bool \<times> 's) result"
    and good :: "'s \<Rightarrow> bool"
    and current :: "'s \<Rightarrow> bool"
    and left :: "'s \<Rightarrow> nat"
  assumes step_good:
    "good s \<Longrightarrow> (\<exists>s'. step s = Ok (True, s') \<and> good s' \<and> current s' \<and> left s' < left s)
              \<or> (\<exists>s'. step s = Ok (False, s') \<and> good s')"
begin

lemma step_cases [consumes 1, case_names more stop]:
  assumes "good s"
  obtains (more) s' where "step s = Ok (True, s')" "good s'" "current s'" "left s' < left s"
    | (stop) s' where "step s = Ok (False, s')" "good s'"
  using step_good [OF assms] by blast

lemma search_safe:
  assumes "\<And>s. good s \<Longrightarrow> current s \<Longrightarrow> safe (found s)"
  shows "good s \<Longrightarrow> left s < fuel \<Longrightarrow>
    \<exists>b s'. search_loop fuel step found s = Ok (b, s') \<and> good s' \<and> (b \<longrightarrow> current s')"
proof (induction fuel arbitrary: s)
  case (Suc fuel)
  show ?case using Suc.prems(1)
  proof (cases rule: step_cases)
    case (more s')
    with assms obtain b where "found s' = Ok b" by (auto simp: safe_iff)
    then show ?thesis using more Suc.IH [of s'] Suc.prems(2) by (cases b) auto
  next
    case (stop s')
    then show ?thesis by (intro exI [of _ False] exI [of _ s']) simp
  qed
qed simp

lemma count_safe: "good s \<Longrightarrow> left s < fuel \<Longrightarrow> safe (count_loop fuel step s c)"
proof (induction fuel arbitrary: s c)
  case (Suc fuel)
  show ?case using Suc.prems(1)
  proof (cases rule: step_cases)
    case (more s')
    then show ?thesis using Suc.IH [of s'] Suc.prems(2) by simp
  next
    case (stop s')
    then show ?thesis by simp
  qed
qed simp

end

section \<open>Reading a list\<close>

locale list_reader = safe_reader step good current left
  for step :: "'s \<Rightarrow> (bool \<times> 's) result" and good current left +
  fixes upto :: "'e list \<Rightarrow> nat \<Rightarrow> 's \<Rightarrow> bool"
    and current_is :: "'e \<Rightarrow> 's \<Rightarrow> bool"
  assumes upto_good: "upto es n s \<Longrightarrow> good s"
    and upto_step: "upto es n s \<Longrightarrow> n < length es \<Longrightarrow>
      \<exists>s'. step s = Ok (True, s') \<and> upto es (Suc n) s' \<and> current_is (es ! n) s'"
    and upto_stop: "upto es (length es) s \<Longrightarrow> \<exists>s'. step s = Ok (False, s')"
begin

lemma step_left: "step s = Ok (True, s') \<Longrightarrow> good s \<Longrightarrow> left s' < left s"
  using step_good [of s] by auto

lemma search_finds:
  assumes found: "\<And>e s. e \<in> set es \<Longrightarrow> current_is e s \<Longrightarrow> found s = Ok (P e)"
  shows "upto es n s \<Longrightarrow> n \<le> length es \<Longrightarrow> left s < fuel \<Longrightarrow>
    (case find P (drop n es) of
       None \<Rightarrow> \<exists>s'. search_loop fuel step found s = Ok (False, s')
     | Some e \<Rightarrow> \<exists>s'. search_loop fuel step found s = Ok (True, s') \<and> current_is e s')"
proof (induction fuel arbitrary: n s)
  case (Suc fuel)
  show ?case
  proof (cases "n < length es")
    case True
    then obtain s' where s': "step s = Ok (True, s')" "upto es (Suc n) s'" "current_is (es ! n) s'"
      using upto_step Suc.prems by blast
    have d: "drop n es = es ! n # drop (Suc n) es" using True by (simp add: Cons_nth_drop_Suc)
    have "found s' = Ok (P (es ! n))" using found s'(3) True by simp
    moreover have "left s' < fuel"
      using step_left [OF s'(1)] upto_good [OF Suc.prems(1)] Suc.prems(3) by simp
    ultimately show ?thesis
      using s' Suc.IH [OF s'(2)] True by (auto simp: d split: option.splits)
  next
    case False
    with Suc.prems(2) have n: "n = length es" by simp
    with upto_stop Suc.prems(1) obtain s' where "step s = Ok (False, s')" by blast
    then show ?thesis by (simp add: n)
  qed
qed simp

lemma count_all:
  "upto es n s \<Longrightarrow> n \<le> length es \<Longrightarrow> left s < fuel \<Longrightarrow> c + (length es - n) < 4294967296 \<Longrightarrow>
    count_loop fuel step s c = Ok (c + (length es - n))"
proof (induction fuel arbitrary: n s c)
  case (Suc fuel)
  show ?case
  proof (cases "n < length es")
    case True
    then obtain s' where s': "step s = Ok (True, s')" "upto es (Suc n) s'"
      using upto_step Suc.prems by blast
    moreover have "left s' < fuel"
      using step_left [OF s'(1)] upto_good [OF Suc.prems(1)] Suc.prems(3) by simp
    ultimately show ?thesis
      using Suc.IH [OF s'(2), of "Suc c"] True Suc.prems(4) by (simp add: wrap_simps)
  next
    case False
    with Suc.prems(2) have n: "n = length es" by simp
    with upto_stop Suc.prems(1) obtain s' where "step s = Ok (False, s')" by blast
    then show ?thesis by (simp add: n)
  qed
qed simp

end

end
