(* ===== verification/Bson_Find.thy ===== *)
theory Bson_Find
  imports Bson_Spec Readers
begin

text \<open>
  Looking up a field: \<open>bson_iter_find\<close> and its variants, \<open>bson_iter_find_descendant\<close> with a dotted
  path, and the functions of \<open>bson.c\<close> built on them. The loops over \<open>bson_iter_next\<close> are the
  generic loops of \<open>Readers\<close>; both reader contracts are discharged here for the iterator.
\<close>

section \<open>String functions of the C library\<close>

fun c_strchr :: "byte \<Rightarrow> view \<Rightarrow> nat option result" where
  "c_strchr c [] = Fault Out_Of_Bounds"
| "c_strchr c (b # v) =
     (if b = c then Ok (Some 0)
      else if b = 0 then Ok None
      else rbind (c_strchr c v) (\<lambda>r. Ok (map_option Suc r)))"

definition c_tolower :: "byte \<Rightarrow> byte" where
  "c_tolower b = (if 65 \<le> unat b \<and> unat b \<le> 90 then b + 32 else b)"

fun c_strcasecmp_eq :: "view \<Rightarrow> view \<Rightarrow> bool result" where
  "c_strcasecmp_eq (a # s) (b # t) =
     (if c_tolower a \<noteq> c_tolower b then Ok False
      else if a = 0 then Ok True else c_strcasecmp_eq s t)"
| "c_strcasecmp_eq _ _ = Fault Out_Of_Bounds"

section \<open>The code\<close>

text \<open>A bound on the number of calls of \<open>bson_iter_next\<close>: every one that succeeds moves forward.\<close>

definition iter_fuel :: "bson_iter_t \<Rightarrow> nat" where
  "iter_fuel it = Suc (i_len it)"

definition key_matches :: "view \<Rightarrow> nat \<Rightarrow> bson_iter_t \<Rightarrow> bool result" where
  "key_matches key keylen it =
     rbind (bson_iter_key it) (\<lambda>ikey.
       rbind (c_strncmp_eq keylen key ikey) (\<lambda>eq.
         if eq then rbind (rd8 ikey keylen) (\<lambda>b. Ok (b = 0)) else Ok False))"

definition bson_iter_find_with_len ::
    "bson_iter_t \<Rightarrow> view \<Rightarrow> int \<Rightarrow> (bool \<times> bson_iter_t) result" where
  "bson_iter_find_with_len it key keylen =
     (if keylen = 0 then Ok (False, it)
      else rbind (if keylen < 0 then c_strlen key else Ok (nat keylen)) (\<lambda>n.
        search_loop (iter_fuel it) bson_iter_next (key_matches key n) it))"

definition bson_iter_find :: "bson_iter_t \<Rightarrow> view \<Rightarrow> (bool \<times> bson_iter_t) result" where
  "bson_iter_find it key = bson_iter_find_with_len it key (- 1)"

definition bson_iter_find_case :: "bson_iter_t \<Rightarrow> view \<Rightarrow> (bool \<times> bson_iter_t) result" where
  "bson_iter_find_case it key =
     search_loop (iter_fuel it) bson_iter_next
       (\<lambda>it'. rbind (bson_iter_key it') (c_strcasecmp_eq key)) it"

definition bson_iter_init_find :: "bson_t \<Rightarrow> view \<Rightarrow> (bool \<times> bson_iter_t) result" where
  "bson_iter_init_find bson key =
     (case bson_iter_init bson of
        (False, it) \<Rightarrow> Ok (False, it)
      | (True, it) \<Rightarrow> bson_iter_find it key)"

definition bson_iter_init_find_case :: "bson_t \<Rightarrow> view \<Rightarrow> (bool \<times> bson_iter_t) result" where
  "bson_iter_init_find_case bson key =
     (case bson_iter_init bson of
        (False, it) \<Rightarrow> Ok (False, it)
      | (True, it) \<Rightarrow> bson_iter_find_case it key)"

lemma c_strchr_bound: "c_strchr c v = Ok (Some p) \<Longrightarrow> p < length v"
  by (induction c v arbitrary: p rule: c_strchr.induct)
    (auto split: if_splits simp: rbind_Ok_iff)

text \<open>
  The descendant (\<open>None\<close> where the C function returns false) and the iterator, which is left on
  the field of the first component.
\<close>

function bson_iter_find_descendant ::
    "bson_iter_t \<Rightarrow> view \<Rightarrow> (bson_iter_t option \<times> bson_iter_t) result" where
  "bson_iter_find_descendant it dotkey =
     rbind (c_strchr 0x2E dotkey) (\<lambda>dot.
       rbind (case dot of Some p \<Rightarrow> Ok p | None \<Rightarrow> c_strlen dotkey) (\<lambda>sublen.
         rbind (bson_iter_find_with_len it dotkey (as_int32 sublen)) (\<lambda>(found, it').
           if \<not> found then Ok (None, it')
           else
             case dot of
               None \<Rightarrow> Ok (Some it', it')
             | Some p \<Rightarrow>
                 rbind (iter_holds it' BSON_TYPE_DOCUMENT) (\<lambda>is_doc.
                   rbind (if is_doc then Ok True else iter_holds it' BSON_TYPE_ARRAY) (\<lambda>h.
                     if \<not> h then Ok (None, it')
                     else rbind (bson_iter_recurse it') (\<lambda>r.
                       case r of
                         None \<Rightarrow> Ok (None, it')
                       | Some tmp \<Rightarrow>
                           rbind (bson_iter_find_descendant tmp (drop (p + 1) dotkey))
                             (\<lambda>(d, _). Ok (d, it'))))))))"
  by pat_completeness auto
termination
  by (relation "measure (\<lambda>(it, dotkey). length dotkey)") (auto dest: c_strchr_bound)

declare bson_iter_find_descendant.simps [simp del]

definition bson_has_field :: "bson_t \<Rightarrow> view \<Rightarrow> bool result" where
  "bson_has_field bson key =
     rbind (c_strchr 0x2E key) (\<lambda>dot.
       case dot of
         Some p \<Rightarrow>
           (case bson_iter_init bson of
              (False, _) \<Rightarrow> Ok False
            | (True, it) \<Rightarrow>
                rbind (bson_iter_find_descendant it key) (\<lambda>(d, _). Ok (d \<noteq> None)))
       | None \<Rightarrow> rbind (bson_iter_init_find bson key) (\<lambda>(b, _). Ok b))"

definition bson_count_keys :: "bson_t \<Rightarrow> nat result" where
  "bson_count_keys bson =
     (case bson_iter_init bson of
        (False, _) \<Rightarrow> Ok 0
      | (True, it) \<Rightarrow> count_loop (iter_fuel it) bson_iter_next it 0)"

section \<open>The iterator as a reader\<close>

definition iter_left :: "bson_iter_t \<Rightarrow> nat" where
  "iter_left it = i_len it - i_next_off it"

lemma iter_left_fuel: "iter_left it < iter_fuel it"
  by (simp add: iter_left_def iter_fuel_def)

interpretation bson_reader: list_reader bson_iter_next iter_ok on_field iter_left
  iter_upto "\<lambda>(k, x). on_elem k x"
proof
  fix it assume "iter_ok it"
  from bson_iter_next_cases [OF this]
  show "(\<exists>it'. bson_iter_next it = Ok (True, it') \<and> iter_ok it' \<and> on_field it' \<and> iter_left it' < iter_left it)
      \<or> (\<exists>it'. bson_iter_next it = Ok (False, it') \<and> iter_ok it')"
  proof
    assume "\<exists>it'. bson_iter_next it = Ok (True, it') \<and> stepped it it'"
    then obtain it' where "bson_iter_next it = Ok (True, it')" and s: "stepped it it'" by blast
    moreover from s have f: "on_field it'" by (simp add: stepped_def)
    moreover from s have "iter_left it' < iter_left it"
      by (auto simp: stepped_def iter_left_def elim!: on_fieldE)
    ultimately show ?thesis using on_field_iter_ok by blast
  next
    assume "\<exists>it'. bson_iter_next it = Ok (False, it') \<and> i_raw it' = None"
    then show ?thesis by (auto simp: iter_ok_def)
  qed
next
  fix es n it assume "iter_upto es n it"
  then show "iter_ok it" by (rule iter_upto_ok)
  assume "n < length es"
  with \<open>iter_upto es n it\<close> show "\<exists>it'. bson_iter_next it = Ok (True, it') \<and> iter_upto es (Suc n) it'
      \<and> (case es ! n of (k, x) \<Rightarrow> on_elem k x) it'"
    by (rule iter_upto_next) (auto simp: split_beta)
next
  fix es it assume "iter_upto es (length es) it"
  then show "\<exists>it'. bson_iter_next it = Ok (False, it')"
    by (rule iter_upto_end) auto
qed

section \<open>Comparing keys\<close>

lemma on_field_key:
  assumes "on_field it"
  obtains j t where "bson_iter_key it = Ok (j @ 0 # t)" "0 \<notin> set j" "length j < INT32_MAX"
proof -
  obtain v where v: "i_raw it = Some v" "i_key it < i_next_off it" "i_next_off it < i_len it"
    "i_len it \<le> length v" "0 \<in> set (take (i_next_off it - i_key it) (drop (i_key it) v))"
    "i_len it \<le> INT32_MAX"
    using assms by (rule on_fieldE)
  let ?n = "i_next_off it - i_key it" and ?d = "drop (i_key it) v"
  from v(5) obtain j t where j: "take ?n ?d = j @ 0 # t" "0 \<notin> set j" by (meson split_list_first)
  then obtain u where u: "?d = j @ 0 # u" by (metis append_Cons append_assoc append_take_drop_id)
  have "length (take ?n ?d) \<le> ?n" by simp
  then have "length j < INT32_MAX" using v(2,3,6) unfolding j(1) by simp
  with v(1-4) u j(2) show thesis
    by (intro that [of j u]) (simp_all add: bson_iter_key_def bson_iter_key_unsafe_def iter_ptr_def iter_view_def)
qed

lemma key_matches_eq:
  assumes "bson_iter_key it = Ok (j @ 0 # t)" "0 \<notin> set j" "0 \<notin> set K" "n \<le> length K"
  shows "key_matches (K @ 0 # u) n it = Ok (j = take n K)"
proof (cases "take n K = take n j")
  case True
  with assms(4) have len: "n \<le> length j"
    by (metis length_take min_def nat_le_linear)
  have "(j @ 0 # t) ! n = 0 \<longleftrightarrow> length j = n"
    using len assms(2) by (auto simp: nth_append in_set_conv_nth)
  moreover have "j = take n K \<longleftrightarrow> length j = n" using True len assms(4) by auto
  ultimately show ?thesis
    using assms True len by (simp add: key_matches_def c_strncmp_eq_keys rd8_def)
next
  case False
  then have "j \<noteq> take n K" by auto
  with False show ?thesis using assms by (simp add: key_matches_def c_strncmp_eq_keys)
qed

lemma c_strlen_key: "0 \<notin> set K \<Longrightarrow> c_strlen (K @ 0 # u) = Ok (length K)"
  by (rule c_strlen_append)

lemma c_strchr_key:
  "0 \<notin> set K \<Longrightarrow> c \<noteq> 0 \<Longrightarrow>
     c_strchr c (K @ 0 # u) = Ok (if c \<in> set K then Some (length (takeWhile (\<lambda>b. b \<noteq> c) K)) else None)"
  by (induction K) auto

section \<open>Finding a key\<close>

lemma find_with_len_safe:
  assumes "iter_ok it" "0 \<notin> set K" "keylen \<le> int (length K)"
  shows "\<exists>b it'. bson_iter_find_with_len it (K @ 0 # u) keylen = Ok (b, it')
     \<and> iter_ok it' \<and> (b \<longrightarrow> on_field it')"
proof -
  have m: "safe (key_matches (K @ 0 # u) n it')" if "on_field it'" "n \<le> length K" for n it'
    using on_field_key [OF that(1)] key_matches_eq assms(2) that(2) by (metis safe_simps(1))
  have s: "\<exists>b it'. search_loop (iter_fuel it) bson_iter_next (key_matches (K @ 0 # u) n) it = Ok (b, it')
      \<and> iter_ok it' \<and> (b \<longrightarrow> on_field it')" if "n \<le> length K" for n
    using bson_reader.search_safe [of "key_matches (K @ 0 # u) n" it] m that assms(1) iter_left_fuel
    by blast
  show ?thesis
    using assms s [of "length K"] s [of "nat keylen"]
    by (auto simp: bson_iter_find_with_len_def c_strlen_key)
qed

text \<open>The first element with the given key; an empty key never matches.\<close>

definition first_elem :: "bytes \<Rightarrow> bdoc \<Rightarrow> (bytes \<times> bval) option" where
  "first_elem k es = (if k = [] then None else find (\<lambda>e. fst e = k) es)"

lemma search_key_correct:
  assumes "iter_upto es 0 it" "0 \<notin> set K" "n \<le> length K"
  shows "case find (\<lambda>e. fst e = take n K) es of
      None \<Rightarrow> \<exists>it'. search_loop (iter_fuel it) bson_iter_next (key_matches (K @ 0 # u) n) it = Ok (False, it')
    | Some (k, x) \<Rightarrow> \<exists>it'. search_loop (iter_fuel it) bson_iter_next (key_matches (K @ 0 # u) n) it
        = Ok (True, it') \<and> on_elem k x it'"
proof -
  have m: "key_matches (K @ 0 # u) n it' = Ok (fst e = take n K)"
    if "(case e of (k, x) \<Rightarrow> on_elem k x) it'" for e it'
  proof -
    obtain k x where e: "e = (k, x)" by fastforce
    with that have "on_elem k x it'" by simp
    from on_elem_key [OF this] this show ?thesis
      using key_matches_eq [of it' k _ K n u] assms(2,3) by (auto simp: e on_elem_def)
  qed
  have "case find (\<lambda>e. fst e = take n K) (drop 0 es) of
      None \<Rightarrow> \<exists>it'. search_loop (iter_fuel it) bson_iter_next (key_matches (K @ 0 # u) n) it = Ok (False, it')
    | Some e \<Rightarrow> \<exists>it'. search_loop (iter_fuel it) bson_iter_next (key_matches (K @ 0 # u) n) it = Ok (True, it')
        \<and> (case e of (k, x) \<Rightarrow> on_elem k x) it'"
    using assms(1) by (intro bson_reader.search_finds) (auto simp: m iter_left_fuel)
  then show ?thesis by (simp split: option.splits prod.splits)
qed

lemma find_with_len_correct:
  assumes "iter_upto es 0 it" "0 \<notin> set K" "n \<le> length K"
  shows "case first_elem (take n K) es of
      None \<Rightarrow> \<exists>it'. bson_iter_find_with_len it (K @ 0 # u) (int n) = Ok (False, it')
    | Some (k, x) \<Rightarrow> \<exists>it'. bson_iter_find_with_len it (K @ 0 # u) (int n) = Ok (True, it') \<and> on_elem k x it'"
proof (cases "n = 0")
  case True
  then show ?thesis by (simp add: first_elem_def bson_iter_find_with_len_def)
next
  case False
  then have "take n K \<noteq> []" using assms(3) by auto
  with False search_key_correct [OF assms, of u] show ?thesis
    by (auto simp: bson_iter_find_with_len_def first_elem_def split: option.splits)
qed

text \<open>\<open>bson_iter_find\<close>, unlike \<open>bson_iter_find_descendant\<close>, does find an empty key.\<close>

lemma bson_iter_find_correct:
  assumes "iter_upto es 0 it" "0 \<notin> set K"
  shows "case find (\<lambda>e. fst e = K) es of
      None \<Rightarrow> \<exists>it'. bson_iter_find it (K @ 0 # u) = Ok (False, it')
    | Some (k, x) \<Rightarrow> \<exists>it'. bson_iter_find it (K @ 0 # u) = Ok (True, it') \<and> on_elem k x it'"
  using search_key_correct [OF assms order_refl, of u] assms(2)
  by (auto simp: bson_iter_find_def bson_iter_find_with_len_def c_strlen_key split: option.splits)

section \<open>Dotted paths\<close>

lemma takeWhile_shorter: "c \<in> set K \<Longrightarrow> length (takeWhile (\<lambda>b. b \<noteq> c) K) < length K"
  by (induction K) auto

text \<open>The components of a path, and what a path denotes in a document.\<close>

function split_dots :: "bytes \<Rightarrow> bytes list" where
  "split_dots K =
     (let p = takeWhile (\<lambda>b. b \<noteq> 0x2E) K in
      if 0x2E \<in> set K then p # split_dots (drop (length p + 1) K) else [K])"
  by pat_completeness auto
termination
proof (relation "measure length", goal_cases)
  case (2 K p)
  have "length (takeWhile (\<lambda>b. b \<noteq> 0x2E) K) < length K"
    using 2(2) by (rule takeWhile_shorter)
  with 2 show ?case by simp
qed simp

declare split_dots.simps [simp del]

fun lookup_path :: "bytes list \<Rightarrow> bdoc \<Rightarrow> (bytes \<times> bval) option" where
  "lookup_path [] es = None"
| "lookup_path [k] es = first_elem k es"
| "lookup_path (k # ks) es =
     (case first_elem k es of
        Some (_, BDocument ds) \<Rightarrow> lookup_path ks ds
      | Some (_, BArray ds) \<Rightarrow> lookup_path ks ds
      | _ \<Rightarrow> None)"

lemma split_dots_nonempty: "split_dots K \<noteq> []"
  by (simp add: split_dots.simps [of K] Let_def)

lemma lookup_path_Cons:
  "ks \<noteq> [] \<Longrightarrow> lookup_path (k # ks) es =
     (case first_elem k es of
        Some (_, BDocument ds) \<Rightarrow> lookup_path ks ds
      | Some (_, BArray ds) \<Rightarrow> lookup_path ks ds
      | _ \<Rightarrow> None)"
proof (cases ks)
  case (Cons a l)
  show ?thesis unfolding Cons by (rule lookup_path.simps(3))
qed simp

lemma split_at_dot:
  assumes "0x2E \<in> set K" "p = length (takeWhile (\<lambda>b. b \<noteq> 0x2E) K)"
  shows "p < length K" "take p K = takeWhile (\<lambda>b. b \<noteq> 0x2E) K"
    "split_dots K = take p K # split_dots (drop (Suc p) K)"
    "drop (Suc p) (K @ 0 # u) = drop (Suc p) K @ 0 # u"
proof -
  show p: "p < length K" using assms by (simp add: takeWhile_shorter)
  show t: "take p K = takeWhile (\<lambda>b. b \<noteq> 0x2E) K"
    using assms(2) by (metis takeWhile_eq_take)
  show "split_dots K = take p K # split_dots (drop (Suc p) K)"
    using assms t by (simp add: split_dots.simps [of K] Let_def)
  show "drop (Suc p) (K @ 0 # u) = drop (Suc p) K @ 0 # u" using p by simp
qed

text \<open>One level of the search, without and with a dot.\<close>

lemma find_descendant_last:
  assumes "0 \<notin> set K" "0x2E \<notin> set K" "length K \<le> INT32_MAX"
    "bson_iter_find_with_len it (K @ 0 # u) (int (length K)) = Ok (b, it')"
  shows "bson_iter_find_descendant it (K @ 0 # u) = Ok (if b then Some it' else None, it')"
  using assms
  by (simp add: bson_iter_find_descendant.simps [of it "K @ 0 # u"] c_strchr_key c_strlen_key
        as_int32_nonneg)

lemma find_descendant_dot:
  assumes "0 \<notin> set K" "0x2E \<in> set K" "length K \<le> INT32_MAX"
    and p: "p = length (takeWhile (\<lambda>b. b \<noteq> 0x2E) K)"
    and f: "bson_iter_find_with_len it (K @ 0 # u) (int p) = Ok (b, it')"
  shows "\<not> b \<Longrightarrow> bson_iter_find_descendant it (K @ 0 # u) = Ok (None, it')"
    "b \<Longrightarrow> on_field it' \<Longrightarrow> bson_iter_recurse it' = Ok None \<Longrightarrow>
      bson_iter_find_descendant it (K @ 0 # u) = Ok (None, it')"
    "b \<Longrightarrow> on_field it' \<Longrightarrow> bson_iter_recurse it' = Ok (Some tmp) \<Longrightarrow>
      bson_iter_find_descendant tmp (drop (Suc p) K @ 0 # u) = Ok (d, it'') \<Longrightarrow>
      bson_iter_find_descendant it (K @ 0 # u) = Ok (d, it')"
proof -
  note sp = split_at_dot [OF assms(2) p]
  have i: "as_int32 p = int p" using sp(1) assms(3) by (simp add: as_int32_nonneg)
  note c = c_strchr_key [OF assms(1), of "0x2E" u, folded p]
  note unfold = bson_iter_find_descendant.simps [of it "K @ 0 # u"] c
  show "\<not> b \<Longrightarrow> bson_iter_find_descendant it (K @ 0 # u) = Ok (None, it')"
    using assms(2) i f by (simp add: unfold)
  assume b: b and fld: "on_field it'"
  obtain v where v: "i_raw it' = Some v" using fld by (rule on_fieldE)
  note rec = bson_iter_recurse_on_field [OF fld v]
  show "bson_iter_recurse it' = Ok None \<Longrightarrow> bson_iter_find_descendant it (K @ 0 # u) = Ok (None, it')"
    using assms(2) i f b iter_holds_on_field [OF fld] rec by (simp add: unfold split: if_splits)
  show "bson_iter_recurse it' = Ok (Some tmp) \<Longrightarrow>
      bson_iter_find_descendant tmp (drop (Suc p) K @ 0 # u) = Ok (d, it'') \<Longrightarrow>
      bson_iter_find_descendant it (K @ 0 # u) = Ok (d, it')"
    using assms(2) i f b iter_holds_on_field [OF fld] rec sp(4)
    by (auto simp: unfold split: if_splits)
qed

text \<open>Safety: any bytes, any path.\<close>

lemma find_descendant_safe:
  assumes "iter_ok it" "0 \<notin> set K" "length K \<le> INT32_MAX"
  shows "\<exists>d it'. bson_iter_find_descendant it (K @ 0 # u) = Ok (d, it')
     \<and> (\<forall>x. d = Some x \<longrightarrow> on_field x)"
  using assms
proof (induction K arbitrary: it rule: length_induct)
  case (1 K)
  define p where "p = (if 0x2E \<in> set K then length (takeWhile (\<lambda>b. b \<noteq> 0x2E) K) else length K)"
  have p: "p \<le> length K" by (simp add: p_def length_takeWhile_le)
  obtain b it' where f: "bson_iter_find_with_len it (K @ 0 # u) (int p) = Ok (b, it')"
    and f': "b \<Longrightarrow> on_field it'"
    using find_with_len_safe [OF "1.prems"(1,2), of "int p" u] p by auto
  show ?case
  proof (cases "0x2E \<in> set K")
    case False
    with f f' show ?thesis using find_descendant_last [OF "1.prems"(2) False "1.prems"(3)]
      by (auto simp: p_def)
  next
    case dot: True
    then have p': "p = length (takeWhile (\<lambda>b. b \<noteq> 0x2E) K)" by (simp add: p_def)
    note fd = find_descendant_dot [OF "1.prems"(2) dot "1.prems"(3) p' f]
    show ?thesis
    proof (cases b)
      case True
      obtain r where r: "bson_iter_recurse it' = Ok r"
        using pointer_accessors_safe(5) [OF f' [OF True]] by (auto simp: safe_iff)
      show ?thesis
      proof (cases r)
        case (Some tmp)
        have "iter_ok tmp" using bson_iter_recurse_child [OF f' [OF True]] r Some by simp
        moreover have "length (drop (Suc p) K) < length K" "0 \<notin> set (drop (Suc p) K)"
          "length (drop (Suc p) K) \<le> INT32_MAX"
          using split_at_dot(1) [OF dot p'] "1.prems"(2,3) by (auto dest: in_set_dropD)
        ultimately obtain d it'' where
          "bson_iter_find_descendant tmp (drop (Suc p) K @ 0 # u) = Ok (d, it'')"
          "\<forall>x. d = Some x \<longrightarrow> on_field x"
          using "1.IH" by blast
        with fd(3) [OF True f' [OF True], of tmp d it''] r Some show ?thesis by simp
      qed (use fd(2) [OF True f' [OF True]] r in simp)
    qed (use fd(1) in simp)
  qed
qed

text \<open>Correctness on an encoded document.\<close>

lemma wf_doc_child:
  assumes "on_elem k x it" "x = BDocument ds \<or> x = BArray ds"
  shows "wf_doc ds"
proof -
  obtain v where "wf_value x" "i_off it + length (enc_elem k x) < i_len it" "i_len it \<le> INT32_MAX"
    using assms(1) by (rule on_elemE)
  then show ?thesis using assms(2) by (auto simp: wf_doc_def length_enc_elem)
qed

lemma recurse_container:
  assumes "on_elem k x it" "x = BDocument ds \<or> x = BArray ds"
  obtains tmp where "bson_iter_recurse it = Ok (Some tmp)" "iter_upto ds 0 tmp"
proof -
  obtain q where q: "points_to q (encode_doc ds)"
    "bson_iter_recurse it = Ok (Some (iter_at_start q (length (encode_doc ds))))"
    using document_on_elem [OF assms] by blast
  show thesis
    using that [OF q(2)] iter_upto_start [OF wf_doc_child [OF assms] q(1)] .
qed

lemma recurse_scalar:
  assumes "on_elem k x it" "\<nexists>ds. x = BDocument ds \<or> x = BArray ds"
  shows "bson_iter_recurse it = Ok None"
proof -
  obtain v where v: "on_field it" "i_raw it = Some v" "field_type it = val_type x"
    using assms(1) by (rule on_elemE)
  moreover have "val_type x \<notin> {BSON_TYPE_DOCUMENT, BSON_TYPE_ARRAY}"
    using assms(2) by (cases x) auto
  ultimately show ?thesis by (auto simp: bson_iter_recurse_on_field)
qed

lemma find_descendant_correct:
  assumes "iter_upto es 0 it" "0 \<notin> set K" "length K \<le> INT32_MAX"
  shows "case lookup_path (split_dots K) es of
      None \<Rightarrow> \<exists>it'. bson_iter_find_descendant it (K @ 0 # u) = Ok (None, it')
    | Some (k, x) \<Rightarrow> \<exists>d it'. bson_iter_find_descendant it (K @ 0 # u) = Ok (Some d, it') \<and> on_elem k x d"
  using assms
proof (induction K arbitrary: it es rule: length_induct)
  case (1 K)
  show ?case
  proof (cases "0x2E \<in> set K")
    case False
    then have "split_dots K = [K]" by (simp add: split_dots.simps [of K])
    with find_with_len_correct [OF "1.prems"(1,2) order_refl, of u] show ?thesis
      by (auto split: option.splits
            dest!: find_descendant_last [OF "1.prems"(2) False "1.prems"(3)])
  next
    case dot: True
    define p where "p = length (takeWhile (\<lambda>b. b \<noteq> 0x2E) K)"
    note sp = split_at_dot [OF dot p_def]
    have less: "length (drop (Suc p) K) < length K" "0 \<notin> set (drop (Suc p) K)"
      "length (drop (Suc p) K) \<le> INT32_MAX"
      using sp(1) "1.prems"(2,3) by (auto dest: in_set_dropD)
    note fd = find_descendant_dot [OF "1.prems"(2) dot "1.prems"(3) p_def]
    note look = lookup_path_Cons [OF split_dots_nonempty [of "drop (Suc p) K"]]
    note fw = find_with_len_correct [OF "1.prems"(1,2), of p u]
    show ?thesis
    proof (cases "first_elem (take p K) es")
      case None
      with fw sp(1) obtain it' where
        "bson_iter_find_with_len it (K @ 0 # u) (int p) = Ok (False, it')" by auto
      from fd(1) [OF this] None sp(3) show ?thesis by (auto simp: look)
    next
      case (Some e)
      obtain k x where e: "e = (k, x)" by fastforce
      with Some fw sp(1) obtain it' where
        f: "bson_iter_find_with_len it (K @ 0 # u) (int p) = Ok (True, it')" "on_elem k x it'"
        by auto
      then have fld: "on_field it'" by (simp add: on_elem_def)
      show ?thesis
      proof (cases "\<exists>ds. x = BDocument ds \<or> x = BArray ds")
        case True
        then obtain ds where ds: "x = BDocument ds \<or> x = BArray ds" by blast
        obtain tmp where tmp: "bson_iter_recurse it' = Ok (Some tmp)" "iter_upto ds 0 tmp"
          using f(2) ds by (rule recurse_container)
        from "1.IH" less tmp(2) have
          "case lookup_path (split_dots (drop (Suc p) K)) ds of
             None \<Rightarrow> \<exists>it''. bson_iter_find_descendant tmp (drop (Suc p) K @ 0 # u) = Ok (None, it'')
           | Some (k, x) \<Rightarrow> \<exists>d it''. bson_iter_find_descendant tmp (drop (Suc p) K @ 0 # u)
               = Ok (Some d, it'') \<and> on_elem k x d"
          by blast
        moreover have "lookup_path (split_dots K) es = lookup_path (split_dots (drop (Suc p) K)) ds"
          using Some e ds by (auto simp: sp(3) look)
        ultimately show ?thesis
          using fd(3) [OF f(1) TrueI fld tmp(1)] by (auto split: option.splits) 
      next
        case False
        then have n: "lookup_path (split_dots K) es = None"
          using Some e by (auto simp: sp(3) look split: bval.splits)
        from fd(2) [OF f(1) TrueI fld recurse_scalar [OF f(2) False]] n show ?thesis by simp
      qed
    qed
  qed
qed

section \<open>Documents behind a handle\<close>

text \<open>\<open>holds_doc b es\<close>: the handle describes the encoding of \<open>es\<close>.\<close>

definition holds_doc :: "bson_t \<Rightarrow> bdoc \<Rightarrow> bool" where
  "holds_doc b es \<longleftrightarrow> wf_doc es \<and> b_len b = length (encode_doc es)
     \<and> points_to (Some (bson_data b)) (encode_doc es)"

lemma iter_init_holds_doc:
  assumes "holds_doc b es"
  obtains it where "bson_iter_init b = (True, it)" "iter_upto es 0 it"
  using assms iter_upto_start
  by (auto simp: holds_doc_def bson_iter_init_def bson_get_data_def)

text \<open>A handle whose length does not exceed its buffer, whatever the buffer holds.\<close>

definition bson_ok :: "bson_t \<Rightarrow> bool" where
  "bson_ok b \<longleftrightarrow> b_len b \<le> length (bson_data b) \<and> b_len b \<le> INT32_MAX"

lemma iter_init_ok: "bson_ok b \<Longrightarrow> iter_ok (snd (bson_iter_init b))"
  by (simp add: bson_ok_def bson_iter_init_def iter_ok_def iter_at_start_def iter_zero_def
        bson_get_data_def)

lemma length_le_enc_elems: "2 * length es \<le> length (enc_elems es)"
  by (induction es) auto

lemma bson_count_keys_holds_doc:
  assumes "holds_doc b es"
  shows "bson_count_keys b = Ok (length es)"
proof -
  obtain it where it: "bson_iter_init b = (True, it)" "iter_upto es 0 it"
    using assms by (rule iter_init_holds_doc)
  have "length es < 4294967296"
    using assms length_le_enc_elems [of es] by (simp add: holds_doc_def wf_doc_def)
  with it show ?thesis
    using bson_reader.count_all [OF it(2) _ iter_left_fuel, of 0] by (simp add: bson_count_keys_def)
qed

lemma bson_has_field_holds_doc:
  assumes "holds_doc b es" "0 \<notin> set K" "length K \<le> INT32_MAX" "K \<noteq> []"
  shows "bson_has_field b (K @ 0 # u) = Ok (lookup_path (split_dots K) es \<noteq> None)"
proof -
  obtain it where it: "bson_iter_init b = (True, it)" "iter_upto es 0 it"
    using assms(1) by (rule iter_init_holds_doc)
  show ?thesis
  proof (cases "0x2E \<in> set K")
    case True
    with find_descendant_correct [OF it(2) assms(2,3), of u] it(1) assms(2) show ?thesis
      by (auto simp: bson_has_field_def c_strchr_key split: option.splits)
  next
    case False
    then have "split_dots K = [K]" by (simp add: split_dots.simps [of K])
    with bson_iter_find_correct [OF it(2) assms(2), of u] it(1) assms(2,4) False show ?thesis
      by (auto simp: bson_has_field_def bson_iter_init_find_def c_strchr_key first_elem_def
            split: option.splits)
  qed
qed

section \<open>Properties\<close>

text \<open>
  C27: on any bytes, looking up any dotted path returns (no read outside the document, no endless
  loop), and what it returns is an iterator that stands on a field inside the document.
\<close>

theorem find_descendant_memory_safe:
  assumes "bson_ok b" "0 \<notin> set path" "length path \<le> INT32_MAX"
  shows "\<exists>d it. bson_iter_find_descendant (snd (bson_iter_init b)) (path @ 0 # u) = Ok (d, it)
     \<and> (\<forall>x. d = Some x \<longrightarrow> on_field x)"
  by (rule find_descendant_safe [OF iter_init_ok [OF assms(1)] assms(2,3)])

theorem find_descendant_memory_safe_witness:
  "\<exists>d it. bson_iter_find_descendant
     (snd (bson_iter_init \<lparr>b_flags = {}, b_len = 6, b_buf = [6, 0, 0, 0, 2, 0xFF], b_offset = 0,
        b_depth = 0, b_realloc = False\<rparr>)) ([0x61, 0x2E, 0x62] @ 0 # []) = Ok (d, it)
     \<and> (\<forall>x. d = Some x \<longrightarrow> on_field x)"
  by (rule find_descendant_memory_safe) (simp_all add: bson_ok_def bson_data_def)

text \<open>
  C7: on an encoded document, looking up a dotted path finds exactly the value that the path
  denotes: the first element with the first component as its key, then, inside that embedded
  document or array, the rest of the path; nothing is found when a component is missing, empty,
  or leads through a scalar.
\<close>

theorem find_descendant_is_path_lookup:
  assumes "holds_doc b es" "0 \<notin> set path" "length path \<le> INT32_MAX"
  shows "\<exists>it. bson_iter_init b = (True, it)
     \<and> (case lookup_path (split_dots path) es of
          None \<Rightarrow> \<exists>it'. bson_iter_find_descendant it (path @ 0 # u) = Ok (None, it')
        | Some (k, x) \<Rightarrow> \<exists>d it'. bson_iter_find_descendant it (path @ 0 # u) = Ok (Some d, it')
            \<and> on_elem k x d
            \<and> (\<exists>val. bson_iter_value d = Ok (Some val) \<and> value_holds val x))"
proof -
  obtain it where it: "bson_iter_init b = (True, it)" "iter_upto es 0 it"
    using assms(1) by (rule iter_init_holds_doc)
  with find_descendant_correct [OF it(2) assms(2,3), of u] bson_iter_value_on_elem show ?thesis
    by (auto split: option.splits)
qed

theorem find_descendant_is_path_lookup_witness:
  "\<exists>it d it'. bson_iter_init \<lparr>b_flags = {}, b_len = 20,
       b_buf = [20, 0, 0, 0, 3, 0x61, 0, 12, 0, 0, 0, 16, 0x62, 0, 7, 0, 0, 0, 0, 0],
       b_offset = 0, b_depth = 0, b_realloc = False\<rparr> = (True, it)
     \<and> bson_iter_find_descendant it [0x61, 0x2E, 0x62, 0] = Ok (Some d, it')
     \<and> bson_iter_value d = Ok (Some (value_int32 7))"
proof -
  let ?es = "[([0x61], BDocument [([0x62], BInt32 7)])] :: bdoc"
  let ?buf = "[20, 0, 0, 0, 3, 0x61, 0, 12, 0, 0, 0, 16, 0x62, 0, 7, 0, 0, 0, 0, 0] :: bytes"
  let ?b = "\<lparr>b_flags = {}, b_len = 20, b_buf = ?buf, b_offset = 0, b_depth = 0, b_realloc = False\<rparr>"
  have "encode_doc ?es = ?buf" by code_simp
  moreover from this have "length (encode_doc ?es) = 20" by (simp del: length_encode_doc)
  ultimately have "holds_doc ?b ?es"
    by (simp add: holds_doc_def wf_doc_def points_to_def bson_data_def del: length_encode_doc)
  moreover have "lookup_path (split_dots [0x61, 0x2E, 0x62]) ?es = Some ([0x62], BInt32 7)"
    by code_simp
  ultimately show ?thesis
    using find_descendant_is_path_lookup [of ?b ?es "[0x61, 0x2E, 0x62]" "[]"] by auto
qed

end
