(* ===== verification/Bson_Build.thy ===== *)
theory Bson_Build
  imports Bson_Find
begin

text \<open>
  Building documents, the first part of \<open>bson.c\<close>: growing the buffer behind a handle, the append
  primitive that all \<open>bson_append_*\<close> functions call, nested documents, and the creation of
  handles.

  The buffer of a handle is \<open>b_buf\<close>. A handle with \<open>BSON_FLAG_INLINE\<close> has the 120 bytes inside
  the structure; otherwise the length of \<open>b_buf\<close> is \<open>buflen\<close>. The bytes that \<open>malloc\<close> and
  \<open>realloc\<close> add are indeterminate in C and zero here; no byte at or beyond \<open>len\<close> is ever read by
  the modelled code. The custom \<open>realloc\<close> function of \<open>bson_new_from_buffer\<close> is assumed to keep
  the old contents, as \<open>realloc\<close> does; \<open>b_realloc\<close> says whether there is one. Sources of a copy
  are views: they are taken not to overlap the buffer they are copied to. Handles passed to the
  functions are not NULL; the precondition macros and assertions are compiled in, as they are by
  default.
\<close>

named_theorems build_defs \<open>definitions that open an append function up to the primitive\<close>

section \<open>Growing the buffer\<close>

definition bson_next_power_of_two :: "64 word \<Rightarrow> 64 word" where
  "bson_next_power_of_two v =
     (let v = v - 1;
          v = v OR drop_bit 1 v;
          v = v OR drop_bit 2 v;
          v = v OR drop_bit 4 v;
          v = v OR drop_bit 8 v;
          v = v OR drop_bit 16 v;
          v = v OR drop_bit 32 v
      in v + 1)"

abbreviation npot :: "nat \<Rightarrow> nat" where
  "npot n \<equiv> unat (bson_next_power_of_two (of_nat n))"

definition bson_impl_inline_grow :: "bson_t \<Rightarrow> nat \<Rightarrow> (bool \<times> bson_t) result" where
  "bson_impl_inline_grow b n =
     (if BSON_FLAG_RDONLY \<in> b_flags b \<or> BSON_FLAG_CHILD \<in> b_flags b then Fault Assertion_Failed
      else if b_len b + n \<le> 120 then Ok (True, b)
      else
        let req = npot (b_len b + n) in
        if req \<le> INT32_MAX then
          rbind (rdn (b_len b) (b_buf b) 0) (\<lambda>bs.
            Ok (True, b\<lparr>b_flags := b_flags b - {BSON_FLAG_INLINE},
                        b_buf := bs @ replicate (req - b_len b) 0,
                        b_offset := 0, b_depth := 0, b_realloc := True\<rparr>))
        else Ok (False, b))"

definition bson_impl_alloc_grow :: "bson_t \<Rightarrow> nat \<Rightarrow> (bool \<times> bson_t) result" where
  "bson_impl_alloc_grow b n =
     (let req = b_offset b + b_len b + n + b_depth b in
      if req \<le> length (b_buf b) then Ok (True, b)
      else
        let req = npot req in
        if req \<le> INT32_MAX \<and> b_realloc b
        then Ok (True, b\<lparr>b_buf := b_buf b @ replicate (req - length (b_buf b)) 0\<rparr>)
        else Ok (False, b))"

definition bson_grow :: "bson_t \<Rightarrow> nat \<Rightarrow> (bool \<times> bson_t) result" where
  "bson_grow b n =
     (if BSON_FLAG_RDONLY \<in> b_flags b then Fault Assertion_Failed
      else if BSON_FLAG_INLINE \<in> b_flags b then bson_impl_inline_grow b n
      else bson_impl_alloc_grow b n)"

section \<open>The append primitive\<close>

text \<open>\<open>memcpy\<close> to \<open>_bson_data (bson) + off\<close>.\<close>

definition put_data :: "bson_t \<Rightarrow> int \<Rightarrow> bytes \<Rightarrow> bson_t result" where
  "put_data b off bs =
     (let p = int (b_offset b) + off in
      if 0 \<le> p \<and> nat p + length bs \<le> length (b_buf b)
      then Ok (b\<lparr>b_buf := splice (nat p) bs (b_buf b)\<rparr>)
      else Fault Out_Of_Bounds)"

definition bson_encode_length :: "bson_t \<Rightarrow> bson_t result" where
  "bson_encode_length b = put_data b 0 (le_bytes 4 (b_len b))"

type_synonym src = "nat \<times> view option"

text \<open>The loop over the pairs of a length and a pointer; \<open>buf\<close> counts from \<open>_bson_data\<close>.\<close>

fun append_pairs :: "bson_t \<Rightarrow> int \<Rightarrow> src list \<Rightarrow> (int \<times> bson_t) result" where
  "append_pairs b buf [] = Ok (buf, b)"
| "append_pairs b buf ((data_len, data) # ps) =
     rbind (read_ptr data_len data) (\<lambda>bs. rbind (put_data b buf bs) (\<lambda>b'.
       append_pairs (b'\<lparr>b_len := w32 (b_len b' + data_len)\<rparr>) (buf + int data_len) ps))"

definition bson_append_va :: "bson_t \<Rightarrow> nat \<Rightarrow> src list \<Rightarrow> (bool \<times> bson_t) result" where
  "bson_append_va b n_bytes pairs =
     (if BSON_FLAG_IN_CHILD \<in> b_flags b \<or> BSON_FLAG_RDONLY \<in> b_flags b \<or> pairs = []
         \<or> fst (hd pairs) = 0 \<or> snd (hd pairs) = None
      then Fault Assertion_Failed
      else rbind (bson_grow b n_bytes) (\<lambda>(ok, b).
        if \<not> ok then Ok (False, b)
        else rbind (append_pairs b (int (b_len b) - 1) pairs) (\<lambda>(buf, b).
          rbind (bson_encode_length b) (\<lambda>b.
            rbind (put_data b buf [0]) (\<lambda>b. Ok (True, b))))))"

text \<open>The limit is computed in \<open>size_t\<close>.\<close>

definition bson_append :: "bson_t \<Rightarrow> nat \<Rightarrow> src list \<Rightarrow> (bool \<times> bson_t) result" where
  "bson_append b n_bytes pairs =
     (if pairs = [] \<or> fst (hd pairs) = 0 \<or> snd (hd pairs) = None then Fault Assertion_Failed
      else if n_bytes > (BSON_MAX_SIZE + 2 ^ 64 - b_len b) mod 2 ^ 64 then Ok (False, b)
      else bson_append_va b n_bytes pairs)"

text \<open>The \<open>int\<close> arguments that may be negative to ask for \<open>strlen\<close>.\<close>

definition str_length :: "view \<Rightarrow> int \<Rightarrow> int result" where
  "str_length s n = (if n < 0 then rbind (c_strlen s) (\<lambda>l. Ok (as_int32 l)) else Ok n)"

text \<open>A sum of \<open>int\<close> operands, and one that goes on with \<open>uint32_t\<close> operands.\<close>

fun int_sum :: "int \<Rightarrow> int list \<Rightarrow> int result" where
  "int_sum a [] = Ok a"
| "int_sum a (i # is) = rbind (add_int32 a i) (\<lambda>s. int_sum s is)"

definition u32 :: "int \<Rightarrow> nat" where
  "u32 i = nat (i mod 4294967296)"

definition mixed_sum :: "int list \<Rightarrow> nat list \<Rightarrow> nat result" where
  "mixed_sum is us = rbind (int_sum 0 is) (\<lambda>s. Ok (w32 (u32 s + sum_list us)))"

section \<open>Nested documents\<close>

text \<open>
  The buffer passes from the parent to the child, which works on the same allocation; the parent
  refuses every append until \<open>end\<close>, which hands the buffer back.
\<close>

definition begin_child :: "bson_t \<Rightarrow> bson_t" where
  "begin_child b =
     \<lparr>b_flags = {BSON_FLAG_CHILD, BSON_FLAG_NO_FREE, BSON_FLAG_STATIC}, b_len = 5, b_buf = b_buf b,
      b_offset = b_offset b + b_len b - 1 - 5,
      b_depth = (if BSON_FLAG_CHILD \<in> b_flags b then b_depth b + 1 else 1),
      b_realloc = b_realloc b\<rparr>"

text \<open>The step that moves an inline handle to the heap.\<close>

definition to_heap :: "bson_t \<Rightarrow> (bool \<times> bson_t) result" where
  "to_heap b =
     (if BSON_FLAG_INLINE \<in> b_flags b then
        if b_len b > 120 then Fault Assertion_Failed
        else rbind (bson_grow b (128 - b_len b)) (\<lambda>(ok, b).
          if ok \<and> BSON_FLAG_INLINE \<in> b_flags b then Fault Assertion_Failed else Ok (ok, b))
      else Ok (True, b))"

definition bson_append_bson_begin ::
    "bson_t \<Rightarrow> view option \<Rightarrow> int \<Rightarrow> bson_type_t \<Rightarrow> (bool \<times> bson_t \<times> bson_t option) result" where
  "bson_append_bson_begin b key key_length child_type =
     (if BSON_FLAG_RDONLY \<in> b_flags b \<or> BSON_FLAG_IN_CHILD \<in> b_flags b
         \<or> child_type \<notin> {BSON_TYPE_DOCUMENT, BSON_TYPE_ARRAY}
      then Fault Assertion_Failed
      else case key of None \<Rightarrow> Fault Assertion_Failed | Some k \<Rightarrow>
        rbind (str_length k key_length) (\<lambda>kl.
        rbind (to_heap b) (\<lambda>(ok, b).
          if \<not> ok then Ok (False, b, None)
          else rbind (mixed_sum [1, kl, 1, 5] []) (\<lambda>n.
            rbind (bson_append b n
                     [(1, Some [type_code child_type]), (u32 kl, Some k), (1, Some [0]),
                      (5, Some [5, 0, 0, 0, 0])]) (\<lambda>(ok, b).
              if \<not> ok then Ok (False, b, None)
              else Ok (True, b\<lparr>b_flags := insert BSON_FLAG_IN_CHILD (b_flags b)\<rparr>,
                       Some (begin_child b)))))))"

definition bson_append_bson_end :: "bson_t \<Rightarrow> bson_t \<Rightarrow> (bool \<times> bson_t) result" where
  "bson_append_bson_end b child =
     (if BSON_FLAG_IN_CHILD \<notin> b_flags b \<or> BSON_FLAG_IN_CHILD \<in> b_flags child
      then Fault Assertion_Failed
      else
        let b = b\<lparr>b_flags := b_flags b - {BSON_FLAG_IN_CHILD},
                  b_len := sub32 (b_len b + b_len child) 5, b_buf := b_buf child\<rparr>
        in rbind (put_data b (int (b_len b) - 1) [0]) (\<lambda>b.
             rbind (bson_encode_length b) (\<lambda>b. Ok (True, b))))"

definition bson_append_array_begin where
  "bson_append_array_begin b key key_length =
     (if key = None then Ok (False, b, None)
      else bson_append_bson_begin b key key_length BSON_TYPE_ARRAY)"

definition bson_append_array_end where
  "bson_append_array_end b child = bson_append_bson_end b child"

definition bson_append_document_begin where
  "bson_append_document_begin b key key_length =
     (if key = None then Ok (False, b, None)
      else bson_append_bson_begin b key key_length BSON_TYPE_DOCUMENT)"

definition bson_append_document_end where
  "bson_append_document_end b child = bson_append_bson_end b child"

section \<open>Creating handles\<close>

definition empty_data :: bytes where
  "empty_data = [5, 0, 0, 0, 0]"

definition bson_init :: bson_t where
  "bson_init =
     \<lparr>b_flags = {BSON_FLAG_INLINE, BSON_FLAG_STATIC}, b_len = 5,
      b_buf = empty_data @ replicate 115 0, b_offset = 0, b_depth = 0, b_realloc = False\<rparr>"

definition bson_reinit :: "bson_t \<Rightarrow> bson_t result" where
  "bson_reinit b = put_data (b\<lparr>b_len := 5\<rparr>) 0 empty_data"

definition bson_new :: bson_t where
  "bson_new = bson_init\<lparr>b_flags := {BSON_FLAG_INLINE}\<rparr>"

definition bson_sized_new :: "nat \<Rightarrow> bson_t option" where
  "bson_sized_new n =
     (if n > INT32_MAX then None
      else if n \<le> 120 then Some (bson_init\<lparr>b_flags := b_flags bson_init - {BSON_FLAG_STATIC}\<rparr>)
      else Some \<lparr>b_flags = {}, b_len = 5, b_buf = empty_data @ replicate (max 5 n - 5) 0,
                 b_offset = 0, b_depth = 0, b_realloc = True\<rparr>)"

definition bson_new_from_data :: "view \<Rightarrow> nat \<Rightarrow> bson_t option result" where
  "bson_new_from_data data len =
     (if len < 5 \<or> len > INT32_MAX then Ok None
      else rbind (rd8 data (len - 1)) (\<lambda>z.
        if z \<noteq> 0 then Ok None
        else rbind (rd32 data 0) (\<lambda>stored.
          if stored \<noteq> len then Ok None
          else case bson_sized_new len of
              None \<Rightarrow> Fault Null_Deref
            | Some b \<Rightarrow> rbind (rdn len data 0) (\<lambda>bs.
                rbind (put_data b 0 bs) (\<lambda>b. Ok (Some (b\<lparr>b_len := len\<rparr>)))))))"

text \<open>
  \<open>buf\<close> is the caller's buffer, NULL to have one allocated, \<open>buf_len\<close> its length as the caller
  states it.
\<close>

definition bson_new_from_buffer :: "view option \<Rightarrow> nat \<Rightarrow> bson_t option result" where
  "bson_new_from_buffer buf buf_len =
     (let attach = (\<lambda>data len.
            rbind (if len = 0 then Fault Out_Of_Bounds else rd8 data (len - 1)) (\<lambda>z.
              if z \<noteq> 0 then Ok None
              else Ok (Some \<lparr>b_flags = {BSON_FLAG_NO_FREE}, b_len = len, b_buf = data,
                             b_offset = 0, b_depth = 0, b_realloc = True\<rparr>)))
      in case buf of
           None \<Rightarrow> attach (le_bytes 4 5 @ [0]) 5
         | Some data \<Rightarrow>
             if buf_len < 5 \<or> buf_len > INT32_MAX then Ok None
             else rbind (rd32 data 0) (\<lambda>len. attach data len))"

definition bson_copy :: "bson_t \<Rightarrow> bson_t option result" where
  "bson_copy b = bson_new_from_data (bson_data b) (b_len b)"

definition bson_copy_to :: "bson_t \<Rightarrow> bson_t result" where
  "bson_copy_to src =
     (if BSON_FLAG_INLINE \<in> b_flags src
      then Ok (src\<lparr>b_flags := {BSON_FLAG_STATIC, BSON_FLAG_INLINE}\<rparr>)
      else
        let len = w32 (npot (b_len src)) in
        rbind (rdn (b_len src) (bson_data src) 0) (\<lambda>bs.
          put_data \<lparr>b_flags = {BSON_FLAG_STATIC}, b_len = b_len src, b_buf = replicate len 0,
                    b_offset = 0, b_depth = 0, b_realloc = True\<rparr> 0 bs))"

text \<open>What is released: the buffer, the handle, or both.\<close>

definition bson_destroy :: "bson_t \<Rightarrow> bool \<times> bool" where
  "bson_destroy b =
     (b_flags b \<inter> {BSON_FLAG_RDONLY, BSON_FLAG_INLINE, BSON_FLAG_NO_FREE} = {},
      BSON_FLAG_STATIC \<notin> b_flags b)"

text \<open>
  The bytes handed to the caller, if any, the stored length, and what is released. Stealing leaves
  NULL behind as the buffer, whose release does nothing.
\<close>

definition bson_destroy_with_steal ::
    "bson_t \<Rightarrow> bool \<Rightarrow> (bytes option \<times> nat \<times> bool \<times> bool) result" where
  "bson_destroy_with_steal b steal =
     (if \<not> steal then Ok (None, b_len b, bson_destroy b)
      else if b_flags b \<inter> {BSON_FLAG_CHILD, BSON_FLAG_IN_CHILD, BSON_FLAG_RDONLY} \<noteq> {}
      then Ok (None, b_len b, bson_destroy b)
      else if BSON_FLAG_INLINE \<in> b_flags b
      then rbind (rdn (b_len b) (b_buf b) 0) (\<lambda>bs. Ok (Some bs, b_len b, bson_destroy b))
      else Ok (Some (b_buf b), b_len b, False, snd (bson_destroy b)))"

text \<open>\<open>memcmp\<close>: the difference of the first bytes that differ (C fixes only its sign).\<close>

fun memcmp :: "bytes \<Rightarrow> bytes \<Rightarrow> int" where
  "memcmp (a # as) (b # bs) = (if a = b then memcmp as bs else uint a - uint b)"
| "memcmp _ _ = 0"

definition bson_compare :: "bson_t \<Rightarrow> bson_t \<Rightarrow> int result" where
  "bson_compare b other =
     (let len1 = sub32 (b_len b) 4; len2 = sub32 (b_len other) 4 in
      rbind (rdn (min len1 len2) (bson_data b) 4) (\<lambda>d1.
      rbind (rdn (min len1 len2) (bson_data other) 4) (\<lambda>d2.
        if len1 = len2 then Ok (memcmp d1 d2)
        else if memcmp d1 d2 = 0 then Ok (as_int32 (sub32 len1 len2))
        else Ok (memcmp d1 d2))))"

definition bson_equal :: "bson_t \<Rightarrow> bson_t \<Rightarrow> bool result" where
  "bson_equal b other = rbind (bson_compare b other) (\<lambda>r. Ok (r = 0))"

definition bson_concat :: "bson_t \<Rightarrow> bson_t \<Rightarrow> (bool \<times> bson_t) result" where
  "bson_concat dst src =
     (if b_len src = 5 then Ok (True, dst)
      else rbind (rd8 (bson_get_data src) 4) (\<lambda>z.
        if z = 0 then Ok (True, dst)
        else bson_append dst (sub32 (b_len src) 5) [(sub32 (b_len src) 5, Some (drop 4 (bson_data src)))]))"

section \<open>Powers of two\<close>

text \<open>
  \<open>spreads n v w\<close>: a bit is set in \<open>w\<close> when one of the \<open>n\<close> bits from it upwards is set in \<open>v\<close>.
  Each line of \<open>bson_next_power_of_two\<close> doubles \<open>n\<close>.
\<close>

definition spreads :: "nat \<Rightarrow> 64 word \<Rightarrow> 64 word \<Rightarrow> bool" where
  "spreads n v w \<longleftrightarrow> (\<forall>i. bit w i \<longleftrightarrow> (\<exists>j < n. bit v (i + j)))"

lemma spreads_double: "spreads n v w \<Longrightarrow> m = 2 * n \<Longrightarrow> spreads m v (w OR drop_bit n w)"
proof -
  assume s: "spreads n v w" and m: "m = 2 * n"
  show ?thesis
    unfolding spreads_def m
  proof (intro allI iffI)
    fix i assume "bit (w OR drop_bit n w) i"
    then have "bit w i \<or> bit w (n + i)" by (simp add: bit_or_iff bit_drop_bit_eq)
    then show "\<exists>j < 2 * n. bit v (i + j)"
    proof
      assume "bit w (n + i)"
      then obtain j where "j < n" "bit v (n + i + j)" using s by (auto simp: spreads_def)
      then have "n + j < 2 * n" "bit v (i + (n + j))" by (simp_all add: ac_simps)
      then show ?thesis by blast
    next
      assume "bit w i"
      then obtain j where "j < n" "bit v (i + j)" using s by (auto simp: spreads_def)
      then show ?thesis by (auto intro: exI [of _ j])
    qed
  next
    fix i assume "\<exists>j < 2 * n. bit v (i + j)"
    then obtain j where j: "j < 2 * n" "bit v (i + j)" by blast
    have "bit w i \<or> bit w (n + i)"
    proof (cases "j < n")
      case True
      with j s show ?thesis by (auto simp: spreads_def)
    next
      case False
      with j have "j - n < n" "bit v (n + i + (j - n))" by (simp_all add: ac_simps)
      with s show ?thesis by (auto simp: spreads_def)
    qed
    then show "bit (w OR drop_bit n w) i" by (simp add: bit_or_iff bit_drop_bit_eq)
  qed
qed

lemma spreads_smear:
  "\<exists>w. bson_next_power_of_two v = w + 1 \<and> spreads 64 (v - 1) w"
proof -
  have "spreads 1 (v - 1) (v - 1)" by (simp add: spreads_def)
  from spreads_double [OF this refl] have
    "spreads 2 (v - 1) ((v - 1) OR drop_bit 1 (v - 1))" by simp
  note s = spreads_double [OF spreads_double [OF spreads_double [OF spreads_double [OF
    spreads_double [OF this, of 4], of 8], of 16], of 32], of 64]
  show ?thesis
    unfolding bson_next_power_of_two_def Let_def
    by (rule exI, rule conjI [OF refl s]) simp_all
qed

lemma unat_power_two: "h < 64 \<Longrightarrow> unat ((2 :: 64 word) ^ h) = 2 ^ h"
proof -
  assume "h < 64"
  then have "(2 :: nat) ^ h < 2 ^ LENGTH(64)" by (intro power_strict_increasing) auto
  then have "unat (of_nat (2 ^ h) :: 64 word) = 2 ^ h" by (simp only: unat_of_nat mod_less)
  then show ?thesis by simp
qed

lemma spreads_mask:
  assumes "spreads 64 v w" "v \<noteq> 0"
  obtains h where "w = mask (Suc h)" "2 ^ h \<le> unat v" "unat v < 2 ^ Suc h" "h < 64"
proof -
  define h where "h = Max {i. bit v i}"
  have fin: "finite {i. bit v i}"
    by (rule finite_subset [of _ "{..< 64}"]) (auto dest: bit_imp_le_length)
  obtain n0 where "bit v n0" using assms(2) by (metis bit_eqI bit_0_eq bot_apply bot_bool_def)
  then have top: "bit v h" "\<And>i. bit v i \<Longrightarrow> i \<le> h"
    using fin Max_in [OF fin] Max_ge [OF fin] by (auto simp: h_def)
  then have h64: "h < 64" using bit_imp_le_length [of v h] by simp
  have "bit w i \<longleftrightarrow> i < Suc h" for i
  proof
    assume "bit w i"
    then obtain j where "bit v (i + j)" using assms(1) by (auto simp: spreads_def)
    then show "i < Suc h" using top(2) by fastforce
  next
    assume "i < Suc h"
    then have "h - i < 64" "bit v (i + (h - i))" using top(1) h64 by simp_all
    then show "bit w i" using assms(1) by (auto simp: spreads_def)
  qed
  then have "w = mask (Suc h)"
    using h64 by (intro bit_word_eqI) (simp add: bit_mask_iff)
  moreover have "2 ^ h \<le> unat v"
  proof -
    have "push_bit h 1 = v AND push_bit h 1"
      using top(1) h64 by (intro bit_word_eqI) (auto simp: bit_and_iff bit_push_bit_iff bit_1_iff bit_exp_iff)
    then have "(2 :: 64 word) ^ h = v AND 2 ^ h" by simp
    then have "(2 :: 64 word) ^ h \<le> v" by (metis word_and_le2 word_and_le1 word_bw_comms(1))
    then have "unat ((2 :: 64 word) ^ h) \<le> unat v" by (rule word_le_nat_alt [THEN iffD1])
    then show ?thesis using h64 by (simp add: unat_power_two)
  qed
  moreover have "unat v < 2 ^ Suc h"
  proof -
    have "take_bit (Suc h) v = v"
      by (intro bit_word_eqI) (use top(2) in \<open>fastforce simp: bit_take_bit_iff\<close>)
    then have "take_bit (Suc h) (unat v) = unat v" by (metis unsigned_take_bit_eq)
    then show ?thesis by (metis take_bit_nat_less_exp)
  qed
  ultimately show ?thesis using that h64 by blast
qed

text \<open>The result is the least power of two that is not below the argument.\<close>

lemma npot_least:
  assumes "0 < n" "n \<le> 2 ^ 63"
  obtains k where "npot n = 2 ^ k" "n \<le> 2 ^ k" "\<And>j. n \<le> 2 ^ j \<Longrightarrow> k \<le> j" "k \<le> 63"
proof -
  let ?v = "of_nat n - 1 :: 64 word"
  have n1: "unat ?v = n - 1"
  proof -
    have "?v = of_nat (n - 1)" using assms(1) by (simp add: of_nat_diff)
    moreover have "n - 1 < 2 ^ LENGTH(64)" using assms by simp
    ultimately show ?thesis by (simp add: unat_of_nat)
  qed
  obtain w where w: "bson_next_power_of_two (of_nat n) = w + 1" "spreads 64 ?v w"
    using spreads_smear by blast
  show ?thesis
  proof (cases "?v = 0")
    case True
    then have "w = 0" using w(2) by (intro bit_word_eqI) (auto simp: spreads_def)
    moreover have "n = 1" using True n1 assms(1) by simp
    ultimately show ?thesis using w(1) that [of 0] by simp
  next
    case False
    obtain h where h: "w = mask (Suc h)" "2 ^ h \<le> n - 1" "n - 1 < 2 ^ Suc h" "h < 64"
      using spreads_mask [OF w(2) False] n1 by metis
    have "(2 :: nat) ^ h < 2 ^ 63" using h(2) assms by linarith
    then have h63: "h < 63" by (rule power_less_imp_less_exp [rotated]) simp
    have "w + 1 = 2 ^ Suc h" by (simp add: h(1) mask_eq_exp_minus_1)
    then have "npot n = 2 ^ Suc h" using h63 w(1) by (simp add: unat_power_two del: power_Suc)
    moreover have "n \<le> 2 ^ Suc h" using h(3) by linarith
    moreover have "Suc h \<le> j" if "n \<le> 2 ^ j" for j
    proof -
      have "(2 :: nat) ^ h < 2 ^ j" using that h(2) assms(1) by linarith
      then show ?thesis by simp
    qed
    ultimately show ?thesis using that h63 by (metis Suc_leI)
  qed
qed

lemma npot_bounds:
  assumes "0 < n" "n \<le> 2 ^ 63"
  shows "n \<le> npot n" "npot n \<le> INT32_MAX \<longleftrightarrow> n \<le> 2 ^ 30"
proof -
  obtain k where k: "npot n = 2 ^ k" "n \<le> 2 ^ k" "\<And>j. n \<le> 2 ^ j \<Longrightarrow> k \<le> j"
    using npot_least [OF assms] by metis
  show "n \<le> npot n" using k by simp
  show "npot n \<le> INT32_MAX \<longleftrightarrow> n \<le> 2 ^ 30"
  proof
    assume "npot n \<le> INT32_MAX"
    then have "(2 :: nat) ^ k < 2 ^ 31" using k(1) by simp
    then have "k < 31" by (rule power_less_imp_less_exp [rotated]) simp
    then have "(2 :: nat) ^ k \<le> 2 ^ 30" by (intro power_increasing) auto
    with k(2) show "n \<le> 2 ^ 30" by linarith
  next
    assume "n \<le> 2 ^ 30"
    then have "(2 :: nat) ^ k \<le> 2 ^ 30" using k(3) by (intro power_increasing) auto
    then show "npot n \<le> INT32_MAX" using k(1) by simp
  qed
qed

section \<open>The invariant of a handle under construction\<close>

text \<open>
  A handle that may be appended to. An inline handle is a document of its own; the buffer has room
  for the document and, for a child, for the final NUL bytes of its ancestors.
\<close>

definition builder :: "bson_t \<Rightarrow> bool" where
  "builder b \<longleftrightarrow> BSON_FLAG_RDONLY \<notin> b_flags b \<and> BSON_FLAG_IN_CHILD \<notin> b_flags b
     \<and> (BSON_FLAG_INLINE \<in> b_flags b \<longrightarrow> b_offset b = 0 \<and> length (b_buf b) = 120
          \<and> BSON_FLAG_CHILD \<notin> b_flags b)
     \<and> (BSON_FLAG_CHILD \<notin> b_flags b \<longrightarrow> b_depth b = 0)
     \<and> 5 \<le> b_len b \<and> b_len b \<le> INT32_MAX
     \<and> b_offset b + b_len b + b_depth b \<le> length (b_buf b) \<and> length (b_buf b) \<le> INT32_MAX"

definition growable :: "bson_t \<Rightarrow> bool" where
  "growable b \<longleftrightarrow> BSON_FLAG_INLINE \<in> b_flags b \<or> b_realloc b"

text \<open>Whether \<open>n\<close> more bytes can be appended.\<close>

definition room :: "bson_t \<Rightarrow> nat \<Rightarrow> bool" where
  "room b n \<longleftrightarrow>
     (let req = b_offset b + b_len b + n + b_depth b in
      req \<le> length (b_buf b) \<or> growable b \<and> req \<le> 2 ^ 30)"

definition fits :: "bson_t \<Rightarrow> nat \<Rightarrow> bool" where
  "fits b n \<longleftrightarrow> b_len b + n \<le> BSON_MAX_SIZE \<and> room b n"

text \<open>What an append leaves alone: the place of the document and everything before it.\<close>

definition grown :: "bson_t \<Rightarrow> bson_t \<Rightarrow> bool" where
  "grown b b' \<longleftrightarrow> b_offset b' = b_offset b \<and> b_depth b' = b_depth b
     \<and> b_flags b' - {BSON_FLAG_INLINE} = b_flags b - {BSON_FLAG_INLINE}
     \<and> b_flags b' \<subseteq> b_flags b
     \<and> growable b' = growable b
     \<and> take (b_offset b) (b_buf b') = take (b_offset b) (b_buf b)
     \<and> length (b_buf b) \<le> length (b_buf b')"

lemma grown_refl [simp]: "grown b b"
  by (simp add: grown_def)

lemma grown_trans [trans]: "grown a b \<Longrightarrow> grown b c \<Longrightarrow> grown a c"
  by (auto simp: grown_def)

lemma splice_append [simp]: "n = length xs \<Longrightarrow> splice n bs (xs @ ys) = xs @ bs @ drop (length bs) ys"
  by (simp add: splice_def)

lemma builder_cases:
  assumes "builder b"
  obtains (inline) "BSON_FLAG_INLINE \<in> b_flags b" "b_offset b = 0" "b_depth b = 0"
      "length (b_buf b) = 120" "BSON_FLAG_CHILD \<notin> b_flags b" "b_len b \<le> 120"
    | (alloc) "BSON_FLAG_INLINE \<notin> b_flags b"
  using assms by (cases "BSON_FLAG_INLINE \<in> b_flags b") (auto simp: builder_def)

lemma bson_grow_ok:
  assumes "builder b" "n \<le> INT32_MAX" "room b n"
  shows "\<exists>b'. bson_grow b n = Ok (True, b') \<and> builder b' \<and> grown b b' \<and> b_len b' = b_len b
     \<and> take (b_offset b + b_len b) (b_buf b') = take (b_offset b + b_len b) (b_buf b)
     \<and> b_offset b + b_len b + n + b_depth b \<le> length (b_buf b')"
  using assms(1)
proof (cases rule: builder_cases)
  case inline
  define req where "req = b_len b + n"
  have req: "0 < req" "req \<le> 2 ^ 63" using assms by (auto simp: req_def builder_def)
  show ?thesis
  proof (cases "req \<le> 120")
    case True
    with inline assms show ?thesis
      by (simp add: bson_grow_def bson_impl_inline_grow_def builder_def req_def)
  next
    case False
    then have "req \<le> 2 ^ 30" using assms(3) inline by (simp add: room_def req_def)
    with npot_bounds [OF req] have np: "req \<le> npot req" "npot req \<le> INT32_MAX" by auto
    let ?b = "b\<lparr>b_flags := b_flags b - {BSON_FLAG_INLINE},
      b_buf := take (b_len b) (b_buf b) @ replicate (npot req - b_len b) 0,
      b_offset := 0, b_depth := 0, b_realloc := True\<rparr>"
    have "bson_grow b n = Ok (True, ?b)"
      using assms inline False np
      by (simp add: bson_grow_def bson_impl_inline_grow_def builder_def req_def [symmetric]
          Let_def rdn_def)
    moreover have "builder ?b" "grown b ?b"
      using assms inline False np by (auto simp: builder_def grown_def growable_def req_def)
    ultimately show ?thesis
      using inline np False by (auto simp: req_def)
  qed
next
  case alloc
  define req where "req = b_offset b + b_len b + n + b_depth b"
  have req: "0 < req" "req \<le> 2 ^ 63" using assms by (auto simp: req_def builder_def)
  show ?thesis
  proof (cases "req \<le> length (b_buf b)")
    case True
    with alloc assms show ?thesis
      by (simp add: bson_grow_def bson_impl_alloc_grow_def builder_def req_def)
  next
    case False
    then have r: "req \<le> 2 ^ 30" "b_realloc b"
      using assms(3) alloc by (auto simp: room_def growable_def req_def Let_def)
    with npot_bounds [OF req] have np: "req \<le> npot req" "npot req \<le> INT32_MAX" by auto
    let ?b = "b\<lparr>b_buf := b_buf b @ replicate (npot req - length (b_buf b)) 0\<rparr>"
    have "bson_grow b n = Ok (True, ?b)"
      using assms alloc False np r
      by (simp add: bson_grow_def bson_impl_alloc_grow_def builder_def req_def [symmetric] Let_def)
    moreover have "builder ?b" "grown b ?b"
      using assms alloc False np by (auto simp: builder_def grown_def growable_def req_def)
    ultimately show ?thesis
      using assms(1) np False by (auto simp: req_def builder_def)
  qed
qed

lemma bson_grow_fail:
  assumes "builder b" "n \<le> INT32_MAX" "\<not> room b n"
  shows "bson_grow b n = Ok (False, b)"
proof -
  define req where "req = b_offset b + b_len b + n + b_depth b"
  have req: "0 < req" "req \<le> 2 ^ 63" using assms by (auto simp: req_def builder_def)
  note np = npot_bounds(2) [OF req]
  from assms(1) show ?thesis
  proof (cases rule: builder_cases)
    case inline
    with assms np show ?thesis
      by (auto simp: bson_grow_def bson_impl_inline_grow_def builder_def req_def room_def
          growable_def Let_def)
  next
    case alloc
    with assms np show ?thesis
      by (auto simp: bson_grow_def bson_impl_alloc_grow_def builder_def req_def room_def
          growable_def Let_def)
  qed
qed

section \<open>The append primitive on a builder\<close>

definition pairs_ok :: "src list \<Rightarrow> bool" where
  "pairs_ok ps \<longleftrightarrow> list_all (\<lambda>(n, d). d \<noteq> None \<and> n \<le> length (the d)) ps"

definition pairs_bytes :: "src list \<Rightarrow> bytes" where
  "pairs_bytes ps = concat (map (\<lambda>(n, d). take n (the d)) ps)"

lemma append_pairs_ok:
  assumes "pairs_ok ps" "b_buf b = X @ Y" "int (b_offset b) + buf = int (length X)"
    "length (pairs_bytes ps) \<le> length Y" "b_len b + length (pairs_bytes ps) < 4294967296"
  shows "append_pairs b buf ps = Ok (buf + int (length (pairs_bytes ps)),
    b\<lparr>b_buf := X @ pairs_bytes ps @ drop (length (pairs_bytes ps)) Y,
      b_len := b_len b + length (pairs_bytes ps)\<rparr>)"
  using assms
proof (induction ps arbitrary: b buf X Y)
  case Nil
  then show ?case by (simp add: pairs_bytes_def)
next
  case (Cons p ps)
  then obtain n v where p: "p = (n, Some v)" "n \<le> length v" "pairs_ok ps"
    by (cases p) (auto simp: pairs_ok_def)
  have bs: "pairs_bytes (p # ps) = take n v @ pairs_bytes ps"
    using p(1) by (simp add: pairs_bytes_def)
  let ?b = "b\<lparr>b_buf := X @ take n v @ drop n Y, b_len := b_len b + n\<rparr>"
  have "append_pairs b buf (p # ps) = append_pairs ?b (buf + int n) ps"
    using p Cons.prems(2-) bs
    by (simp add: read_ptr_def rdn_def put_data_def wrap_simps)
  also have "\<dots> = Ok (buf + int n + int (length (pairs_bytes ps)),
      ?b\<lparr>b_buf := (X @ take n v) @ pairs_bytes ps @ drop (length (pairs_bytes ps)) (drop n Y),
         b_len := b_len ?b + length (pairs_bytes ps)\<rparr>)"
    using p Cons.prems(2-) bs by (intro Cons.IH) auto
  finally show ?case using p(2) bs by (simp add: ac_simps)
qed

text \<open>The document part of the buffer, opened into the length, the body and the final NUL.\<close>

lemma builder_split:
  assumes "builder b" "b_offset b + b_len b + n \<le> length (b_buf b)"
  obtains P H T Q where "b_buf b = P @ H @ T @ Q" "length P = b_offset b" "length H = 4"
    "length T = b_len b - 5" "n < length Q" "bson_bytes b = H @ T @ [hd Q]"
proof -
  define D where "D = drop (b_offset b) (b_buf b)"
  define P where "P = take (b_offset b) (b_buf b)"
  define H where "H = take 4 D"
  define T where "T = take (b_len b - 5) (drop 4 D)"
  define Q where "Q = drop (b_len b - 5) (drop 4 D)"
  have l: "5 \<le> b_len b" using assms(1) by (simp add: builder_def)
  have D: "D = (H @ T) @ Q" by (simp add: H_def T_def Q_def del: drop_drop)
  have len: "length P = b_offset b" "length H = 4" "length T = b_len b - 5" "n < length Q"
    using assms(2) l by (auto simp: P_def H_def T_def Q_def D_def)
  then have "take 1 Q = [hd Q]" by (cases Q) auto
  moreover have "b_len b - length (H @ T) = 1" "length (H @ T) \<le> b_len b" using len l by auto
  ultimately have "take (b_len b) D = H @ T @ [hd Q]"
    unfolding D take_append by simp
  moreover have "b_buf b = P @ D" by (simp add: P_def D_def)
  then have "b_buf b = P @ H @ T @ Q" using D by simp
  ultimately show ?thesis using that len by (simp add: bson_bytes_def bson_data_def D_def)
qed

lemma bson_append_open:
  assumes "builder b" "pairs_ok ps" "ps \<noteq> []" "0 < fst (hd ps)"
  shows "bson_append b n ps
    = (if b_len b + n > BSON_MAX_SIZE then Ok (False, b) else bson_append_va b n ps)"
    and "snd (hd ps) \<noteq> None"
proof -
  show p: "snd (hd ps) \<noteq> None" using assms(2,3) by (cases ps) (auto simp: pairs_ok_def)
  have l: "b_len b \<le> INT32_MAX" using assms(1) by (simp add: builder_def)
  then have "BSON_MAX_SIZE + 2 ^ 64 - b_len b = (BSON_MAX_SIZE - b_len b) + 2 ^ 64" by simp
  then have "(BSON_MAX_SIZE + 2 ^ 64 - b_len b) mod 2 ^ 64 = BSON_MAX_SIZE - b_len b"
    by (simp only: mod_add_self2) simp
  with assms p l show "bson_append b n ps
      = (if b_len b + n > BSON_MAX_SIZE then Ok (False, b) else bson_append_va b n ps)"
    unfolding bson_append_def by auto
qed

lemma bson_append_ok:
  assumes "builder b" "pairs_ok ps" "ps \<noteq> []" "0 < fst (hd ps)" "n = length (pairs_bytes ps)" "fits b n"
  shows "\<exists>b'. bson_append b n ps = Ok (True, b') \<and> builder b' \<and> grown b b' \<and> b_len b' = b_len b + n
     \<and> bson_bytes b' = le_bytes 4 (b_len b') @ drop 4 (butlast (bson_bytes b)) @ pairs_bytes ps @ [0]"
proof -
  have n: "n \<le> INT32_MAX" "b_len b + n \<le> INT32_MAX" "room b n"
    using assms(6) by (auto simp: fits_def)
  obtain c where c: "bson_grow b n = Ok (True, c)" "builder c" "grown b c" "b_len c = b_len b"
    "take (b_offset b + b_len b) (b_buf c) = take (b_offset b + b_len b) (b_buf b)"
    "b_offset b + b_len b + n + b_depth b \<le> length (b_buf c)"
    using bson_grow_ok [OF assms(1) n(1,3)] by blast
  have off: "b_offset c = b_offset b" "b_depth c = b_depth b" using c(3) by (auto simp: grown_def)
  have bytes: "bson_bytes c = bson_bytes b"
    using c(5) off c(4) by (simp add: bson_bytes_def bson_data_def take_drop add.commute)
  obtain P H T Q where s: "b_buf c = P @ H @ T @ Q" "length P = b_offset b" "length H = 4"
      "length T = b_len b - 5" "n < length Q" "bson_bytes b = H @ T @ [hd Q]"
    by (rule builder_split [OF c(2), of n]) (use c(4,6) off bytes in auto)
  have l5: "5 \<le> b_len b" using assms(1) by (simp add: builder_def)
  let ?bs = "pairs_bytes ps"
  define c1 where "c1 = c\<lparr>b_buf := (P @ H @ T) @ ?bs @ drop n Q, b_len := b_len b + n\<rparr>"
  define c2 where "c2 = c1\<lparr>b_buf := P @ le_bytes 4 (b_len b + n) @ T @ ?bs @ drop n Q\<rparr>"
  define c3 where "c3 = c1\<lparr>b_buf := (P @ le_bytes 4 (b_len b + n) @ T @ ?bs) @ 0 # drop (Suc n) Q\<rparr>"
  have f1: "append_pairs c (int (b_len c) - 1) ps = Ok (int (b_len b) - 1 + int n, c1)"
    unfolding c1_def
    using append_pairs_ok [OF assms(2), of c "P @ H @ T" Q "int (b_len c) - 1"] s off c(4) n l5 assms(5)
    by simp
  have f2: "bson_encode_length c1 = Ok c2"
    using s off by (simp add: bson_encode_length_def put_data_def c1_def c2_def)
  have f3: "put_data c2 (int (b_len b) - 1 + int n) [0] = Ok c3"
  proof -
    have "nat (int (b_offset b) + (int (b_len b) - 1 + int n)) = b_offset b + b_len b - 1 + n"
      using l5 by simp
    moreover have "splice (b_offset b + b_len b - 1 + n) [0]
       ((P @ le_bytes 4 (b_len b + n) @ T @ ?bs) @ drop n Q) = b_buf c3"
      using s l5 assms(5) by (subst splice_append) (auto simp: c3_def)
    ultimately show ?thesis
      using s off l5 assms(5) by (simp add: put_data_def c1_def c2_def c3_def)
  qed
  have "bson_append_va b n ps = Ok (True, c3)"
    using assms(1,3,4) bson_append_open(2) [OF assms(1-4)]
    by (simp add: bson_append_va_def builder_def c(1) f1 f2 f3)
  then have "bson_append b n ps = Ok (True, c3)"
    using bson_append_open(1) [OF assms(1-4)] n(2) by simp
  moreover have len3: "length (b_buf c3) = length (b_buf c)" "b_offset c3 = b_offset b"
      "b_depth c3 = b_depth b" "b_flags c3 = b_flags c" "b_realloc c3 = b_realloc c" "b_len c3 = b_len b + n"
      "take (b_offset b) (b_buf c3) = take (b_offset b) (b_buf c)"
    using s off l5 assms(5) by (simp_all add: c1_def c3_def)
  then have "builder c3" "grown b c3"
    using c(2,3,6) off n(2) l5 unfolding builder_def grown_def growable_def by simp_all
  moreover have "bson_bytes c3 = le_bytes 4 (b_len b + n) @ drop 4 (butlast (bson_bytes b)) @ ?bs @ [0]"
  proof -
    have "drop (b_offset b) (b_buf c3) = (le_bytes 4 (b_len b + n) @ T @ ?bs @ [0]) @ drop (Suc n) Q"
      using s(2) by (simp add: c3_def)
    moreover have "length (le_bytes 4 (b_len b + n) @ T @ ?bs @ [0]) = b_len b + n"
      using s(4) l5 assms(5) by simp
    ultimately have "take (b_len b + n) (drop (b_offset b) (b_buf c3)) = le_bytes 4 (b_len b + n) @ T @ ?bs @ [0]"
      by (metis append_eq_conv_conj)
    then show ?thesis
      using s(3,6) len3(2,6) by (simp add: bson_bytes_def [of c3] bson_data_def butlast_append)
  qed
  ultimately show ?thesis using len3(6) by metis
qed

lemma bson_append_fail:
  assumes "builder b" "pairs_ok ps" "ps \<noteq> []" "0 < fst (hd ps)" "n \<le> INT32_MAX" "\<not> fits b n"
  shows "bson_append b n ps = Ok (False, b)"
proof -
  have "b_len b + n \<le> BSON_MAX_SIZE \<Longrightarrow> bson_grow b n = Ok (False, b)"
    using assms by (intro bson_grow_fail) (auto simp: fits_def)
  then show ?thesis
    using assms bson_append_open [OF assms(1-4)] by (auto simp: bson_append_va_def builder_def)
qed

section \<open>Builders of documents\<close>

text \<open>\<open>building b es\<close>: the handle can be appended to and holds the encoding of \<open>es\<close>.\<close>

definition building :: "bson_t \<Rightarrow> bdoc \<Rightarrow> bool" where
  "building b es \<longleftrightarrow> builder b \<and> holds_doc b es"

lemma building_iff:
  "building b es \<longleftrightarrow> builder b \<and> wf_elems es \<and> bson_bytes b = encode_doc es"
proof
  assume "building b es"
  then show "builder b \<and> wf_elems es \<and> bson_bytes b = encode_doc es"
    by (auto simp: building_def holds_doc_def points_to_def bson_bytes_def wf_doc_def)
next
  assume *: "builder b \<and> wf_elems es \<and> bson_bytes b = encode_doc es"
  then have l: "b_len b = length (encode_doc es)"
    by (metis add.commute add_leD1 add_le_imp_le_diff bson_bytes_def bson_data_def builder_def
        length_drop length_take min.absorb2)
  moreover have "\<exists>t. bson_data b = encode_doc es @ t"
    using * by (metis append_take_drop_id bson_bytes_def)
  ultimately show "building b es"
    using * by (auto simp: building_def holds_doc_def points_to_def wf_doc_def builder_def)
qed

text \<open>
  The outcome of appending the elements \<open>fs\<close>: either all of them are there and nothing else of the
  handle changed, or there is no room and nothing happened.
\<close>

definition appended :: "bson_t \<Rightarrow> bdoc \<Rightarrow> bdoc \<Rightarrow> (bool \<times> bson_t) result \<Rightarrow> bool" where
  "appended b es fs r \<longleftrightarrow>
     (if fits b (length (enc_elems fs))
      then \<exists>b'. r = Ok (True, b') \<and> building b' (es @ fs) \<and> grown b b'
             \<and> b_len b' = b_len b + length (enc_elems fs)
      else r = Ok (False, b))"

lemma bson_append_elems:
  assumes "building b es" "wf_elems fs" "pairs_ok ps" "ps \<noteq> []" "0 < fst (hd ps)"
    "pairs_bytes ps = enc_elems fs" "n = length (enc_elems fs)" "n \<le> INT32_MAX"
  shows "appended b es fs (bson_append b n ps)"
proof (cases "fits b n")
  case True
  have b: "builder b" "wf_elems es" "bson_bytes b = encode_doc es" using assms(1) building_iff by auto
  obtain b' where b': "bson_append b n ps = Ok (True, b')" "builder b'" "grown b b'"
    "b_len b' = b_len b + n"
    "bson_bytes b' = le_bytes 4 (b_len b') @ drop 4 (butlast (bson_bytes b)) @ pairs_bytes ps @ [0]"
    using bson_append_ok [OF b(1) assms(3-5) _ True] assms(6,7) by auto
  have "b_len b = length (enc_elems es) + 5"
    using assms(1) by (simp add: building_def holds_doc_def)
  then have "bson_bytes b' = encode_doc (es @ fs)"
    unfolding b'(5) b(3) using b'(4) assms(6,7)
    by (simp add: encode_doc_def frame_def butlast_append ac_simps)
  with b' b assms True show ?thesis
    by (auto simp: appended_def building_iff)
next
  case False
  have "bson_append b n ps = Ok (False, b)"
    using assms False by (intro bson_append_fail) (auto simp: building_def)
  with False assms(7) show ?thesis by (simp add: appended_def)
qed

end
