(* ===== verification/Bson_Append.thy ===== *)
theory Bson_Append
  imports Bson_Build
begin

text \<open>
  The \<open>bson_append_*\<close> functions of \<open>bson.c\<close>, one per element type, and \<open>bson_append_value\<close>. Each
  computes the number of bytes in C arithmetic, \<open>int\<close> as long as only \<open>int\<close> operands occur and
  \<open>uint32_t\<close> from the first unsigned operand on, and passes its pieces to the append primitive.

  The locale \<open>appender\<close> states the contract they share: the pieces are exactly the encoding of the
  element. Its lemma \<open>appends\<close>, proved once, gives the refinement of ``append to a list of
  elements'' for every function.
\<close>

section \<open>The functions\<close>

definition bson_empty :: "bson_t \<Rightarrow> bool result" where
  "bson_empty b =
     (if b_len b = 5 then Ok True else rbind (rd8 (bson_get_data b) 4) (\<lambda>z. Ok (z = 0)))"

definition bson_empty0 :: "bson_t option \<Rightarrow> bool result" where
  "bson_empty0 b = (case b of None \<Rightarrow> Ok True | Some b \<Rightarrow> bson_empty b)"

text \<open>\<open>strcmp\<close> tested for equality.\<close>

definition c_strcmp_eq :: "view \<Rightarrow> view \<Rightarrow> bool result" where
  "c_strcmp_eq s t = c_strncmp_eq (Suc (length s)) s t"

text \<open>The checks and the default of the key length that all functions begin with.\<close>

definition with_key ::
    "bson_t \<Rightarrow> view option \<Rightarrow> int \<Rightarrow> (view \<Rightarrow> int \<Rightarrow> (bool \<times> bson_t) result) \<Rightarrow> (bool \<times> bson_t) result" where
  "with_key b key key_length f =
     (case key of None \<Rightarrow> Ok (False, b) | Some k \<Rightarrow> rbind (str_length k key_length) (f k))"

text \<open>The first three pairs: type, key, NUL.\<close>

definition key_pairs :: "bson_type_t \<Rightarrow> view \<Rightarrow> int \<Rightarrow> src list" where
  "key_pairs t k kl = [(1, Some [type_code t]), (u32 kl, Some k), (1, Some [0])]"

definition int_strlen :: "view \<Rightarrow> int result" where
  "int_strlen s = rbind (c_strlen s) (\<lambda>l. Ok (as_int32 l))"

text \<open>\<open>(int)strlen (s) + 1\<close> stored in a \<open>uint32_t\<close>.\<close>

definition strlen1 :: "view \<Rightarrow> nat result" where
  "strlen1 s = rbind (int_strlen s) (\<lambda>l. rbind (add_int32 l 1) (\<lambda>n. Ok (u32 n)))"

text \<open>The look at the first key of an array, which only prints a warning.\<close>

definition array_first_key :: "bson_t \<Rightarrow> bool result" where
  "array_first_key array =
     rbind (bson_empty array) (\<lambda>e.
       if e then Ok True
       else let (ok, it) = bson_iter_init array in
         if \<not> ok then Ok True
         else rbind (bson_iter_next it) (\<lambda>(ok, it).
           if \<not> ok then Ok True
           else rbind (bson_iter_key it) (\<lambda>k. c_strcmp_eq [0x30, 0] k)))"

definition bson_append_array :: "bson_t \<Rightarrow> view option \<Rightarrow> int \<Rightarrow> bson_t \<Rightarrow> (bool \<times> bson_t) result" where
  "bson_append_array b key key_length array =
     with_key b key key_length (\<lambda>k kl.
       rbind (array_first_key array) (\<lambda>_.
       rbind (mixed_sum [1, kl, 1] [b_len array]) (\<lambda>n.
         bson_append b n (key_pairs BSON_TYPE_ARRAY k kl @ [(b_len array, Some (bson_data array))]))))"

definition bson_append_binary ::
    "bson_t \<Rightarrow> view option \<Rightarrow> int \<Rightarrow> byte \<Rightarrow> view option \<Rightarrow> nat \<Rightarrow> (bool \<times> bson_t) result" where
  "bson_append_binary b key key_length subtype binary len =
     (if key = None \<or> binary = None then Ok (False, b)
      else with_key b key key_length (\<lambda>k kl.
        if subtype = BSON_SUBTYPE_BINARY_DEPRECATED then
          rbind (mixed_sum [1, kl, 1, 4, 1, 4] [len]) (\<lambda>n.
            bson_append b n (key_pairs BSON_TYPE_BINARY k kl @
              [(4, Some (le_bytes 4 (w32 (len + 4)))), (1, Some [subtype]),
               (4, Some (le_bytes 4 len)), (len, binary)]))
        else
          rbind (mixed_sum [1, kl, 1, 4, 1] [len]) (\<lambda>n.
            bson_append b n (key_pairs BSON_TYPE_BINARY k kl @
              [(4, Some (le_bytes 4 len)), (1, Some [subtype]), (len, binary)]))))"

definition bson_append_bool :: "bson_t \<Rightarrow> view option \<Rightarrow> int \<Rightarrow> bool \<Rightarrow> (bool \<times> bson_t) result" where
  "bson_append_bool b key key_length value =
     with_key b key key_length (\<lambda>k kl.
       rbind (mixed_sum [1, kl, 1, 1] []) (\<lambda>n.
         bson_append b n (key_pairs BSON_TYPE_BOOL k kl @ [(1, Some [if value then 1 else 0])])))"

definition bson_append_code :: "bson_t \<Rightarrow> view option \<Rightarrow> int \<Rightarrow> view option \<Rightarrow> (bool \<times> bson_t) result" where
  "bson_append_code b key key_length javascript =
     (if key = None then Ok (False, b)
      else case javascript of None \<Rightarrow> Ok (False, b) | Some js \<Rightarrow>
        with_key b key key_length (\<lambda>k kl.
          rbind (strlen1 js) (\<lambda>len.
          rbind (mixed_sum [1, kl, 1, 4] [len]) (\<lambda>n.
            bson_append b n (key_pairs BSON_TYPE_CODE k kl @
              [(4, Some (le_bytes 4 len)), (len, Some js)])))))"

definition bson_append_code_with_scope ::
    "bson_t \<Rightarrow> view option \<Rightarrow> int \<Rightarrow> view option \<Rightarrow> bson_t option \<Rightarrow> (bool \<times> bson_t) result" where
  "bson_append_code_with_scope b key key_length javascript scope =
     (if key = None then Ok (False, b)
      else case javascript of None \<Rightarrow> Ok (False, b) | Some js \<Rightarrow>
        rbind (bson_empty0 scope) (\<lambda>e.
          if e then bson_append_code b key key_length javascript
          else with_key b key key_length (\<lambda>k kl.
            rbind (strlen1 js) (\<lambda>js_len.
              let scope_len = b_len (the scope); codews_len = w32 (4 + 4 + js_len + scope_len) in
              rbind (mixed_sum [1, kl, 1, 4, 4] [js_len, scope_len]) (\<lambda>n.
                bson_append b n (key_pairs BSON_TYPE_CODEWSCOPE k kl @
                  [(4, Some (le_bytes 4 codews_len)), (4, Some (le_bytes 4 js_len)),
                   (js_len, Some js), (scope_len, Some (bson_data (the scope)))]))))))"

definition bson_append_dbpointer ::
    "bson_t \<Rightarrow> view option \<Rightarrow> int \<Rightarrow> view option \<Rightarrow> view option \<Rightarrow> (bool \<times> bson_t) result" where
  "bson_append_dbpointer b key key_length collection oid =
     (if key = None \<or> oid = None then Ok (False, b)
      else case collection of None \<Rightarrow> Ok (False, b) | Some c \<Rightarrow>
        with_key b key key_length (\<lambda>k kl.
          rbind (strlen1 c) (\<lambda>len.
          rbind (mixed_sum [1, kl, 1, 4] [len, 12]) (\<lambda>n.
            bson_append b n (key_pairs BSON_TYPE_DBPOINTER k kl @
              [(4, Some (le_bytes 4 len)), (len, Some c), (12, oid)])))))"

definition bson_append_document :: "bson_t \<Rightarrow> view option \<Rightarrow> int \<Rightarrow> bson_t \<Rightarrow> (bool \<times> bson_t) result" where
  "bson_append_document b key key_length value =
     with_key b key key_length (\<lambda>k kl.
       rbind (mixed_sum [1, kl, 1] [b_len value]) (\<lambda>n.
         bson_append b n (key_pairs BSON_TYPE_DOCUMENT k kl @ [(b_len value, Some (bson_data value))])))"

definition bson_append_double :: "bson_t \<Rightarrow> view option \<Rightarrow> int \<Rightarrow> 64 word \<Rightarrow> (bool \<times> bson_t) result" where
  "bson_append_double b key key_length value =
     with_key b key key_length (\<lambda>k kl.
       rbind (mixed_sum [1, kl, 1, 8] []) (\<lambda>n.
         bson_append b n (key_pairs BSON_TYPE_DOUBLE k kl @ [(8, Some (le_bytes 8 (unat value)))])))"

definition bson_append_int32 :: "bson_t \<Rightarrow> view option \<Rightarrow> int \<Rightarrow> 32 word \<Rightarrow> (bool \<times> bson_t) result" where
  "bson_append_int32 b key key_length value =
     with_key b key key_length (\<lambda>k kl.
       rbind (mixed_sum [1, kl, 1, 4] []) (\<lambda>n.
         bson_append b n (key_pairs BSON_TYPE_INT32 k kl @ [(4, Some (le_bytes 4 (unat value)))])))"

definition bson_append_int64 :: "bson_t \<Rightarrow> view option \<Rightarrow> int \<Rightarrow> 64 word \<Rightarrow> (bool \<times> bson_t) result" where
  "bson_append_int64 b key key_length value =
     with_key b key key_length (\<lambda>k kl.
       rbind (mixed_sum [1, kl, 1, 8] []) (\<lambda>n.
         bson_append b n (key_pairs BSON_TYPE_INT64 k kl @ [(8, Some (le_bytes 8 (unat value)))])))"

definition bson_append_maxkey :: "bson_t \<Rightarrow> view option \<Rightarrow> int \<Rightarrow> (bool \<times> bson_t) result" where
  "bson_append_maxkey b key key_length =
     with_key b key key_length (\<lambda>k kl.
       rbind (mixed_sum [1, kl, 1] []) (\<lambda>n. bson_append b n (key_pairs BSON_TYPE_MAXKEY k kl)))"

definition bson_append_minkey :: "bson_t \<Rightarrow> view option \<Rightarrow> int \<Rightarrow> (bool \<times> bson_t) result" where
  "bson_append_minkey b key key_length =
     with_key b key key_length (\<lambda>k kl.
       rbind (mixed_sum [1, kl, 1] []) (\<lambda>n. bson_append b n (key_pairs BSON_TYPE_MINKEY k kl)))"

definition bson_append_null :: "bson_t \<Rightarrow> view option \<Rightarrow> int \<Rightarrow> (bool \<times> bson_t) result" where
  "bson_append_null b key key_length =
     with_key b key key_length (\<lambda>k kl.
       rbind (mixed_sum [1, kl, 1] []) (\<lambda>n. bson_append b n (key_pairs BSON_TYPE_NULL k kl)))"

definition bson_append_undefined :: "bson_t \<Rightarrow> view option \<Rightarrow> int \<Rightarrow> (bool \<times> bson_t) result" where
  "bson_append_undefined b key key_length =
     with_key b key key_length (\<lambda>k kl.
       rbind (mixed_sum [1, kl, 1] []) (\<lambda>n. bson_append b n (key_pairs BSON_TYPE_UNDEFINED k kl)))"

definition bson_append_oid :: "bson_t \<Rightarrow> view option \<Rightarrow> int \<Rightarrow> view option \<Rightarrow> (bool \<times> bson_t) result" where
  "bson_append_oid b key key_length value =
     (if key = None \<or> value = None then Ok (False, b)
      else with_key b key key_length (\<lambda>k kl.
        rbind (mixed_sum [1, kl, 1, 12] []) (\<lambda>n.
          bson_append b n (key_pairs BSON_TYPE_OID k kl @ [(12, value)]))))"

definition bson_append_regex ::
    "bson_t \<Rightarrow> view option \<Rightarrow> int \<Rightarrow> view option \<Rightarrow> view option \<Rightarrow> (bool \<times> bson_t) result" where
  "bson_append_regex b key key_length regex options =
     with_key b key key_length (\<lambda>k kl.
       let r = (case regex of None \<Rightarrow> [0] | Some r \<Rightarrow> r);
           opts = (case options of None \<Rightarrow> [0] | Some p \<Rightarrow> p)
       in rbind (strlen1 r) (\<lambda>r_len. rbind (strlen1 opts) (\<lambda>opts_len.
            rbind (mixed_sum [1, kl, 1] [r_len, opts_len]) (\<lambda>n.
              bson_append b n (key_pairs BSON_TYPE_REGEX k kl @
                [(r_len, Some r), (opts_len, Some opts)])))))"

definition bson_append_utf8 ::
    "bson_t \<Rightarrow> view option \<Rightarrow> int \<Rightarrow> view option \<Rightarrow> int \<Rightarrow> (bool \<times> bson_t) result" where
  "bson_append_utf8 b key key_length value len =
     (if key = None then Ok (False, b)
      else case value of None \<Rightarrow> bson_append_null b key key_length | Some v \<Rightarrow>
        with_key b key key_length (\<lambda>k kl.
          rbind (str_length v len) (\<lambda>len. rbind (add_int32 len 1) (\<lambda>len1.
          rbind (mixed_sum [1, kl, 1, 4, len, 1] []) (\<lambda>n.
            bson_append b n (key_pairs BSON_TYPE_UTF8 k kl @
              [(4, Some (le_bytes 4 (u32 len1))), (u32 len, Some v), (1, Some [0])]))))))"

definition bson_append_symbol ::
    "bson_t \<Rightarrow> view option \<Rightarrow> int \<Rightarrow> view option \<Rightarrow> int \<Rightarrow> (bool \<times> bson_t) result" where
  "bson_append_symbol b key key_length value len =
     (if key = None then Ok (False, b)
      else case value of None \<Rightarrow> bson_append_null b key key_length | Some v \<Rightarrow>
        with_key b key key_length (\<lambda>k kl.
          rbind (str_length v len) (\<lambda>len. rbind (add_int32 len 1) (\<lambda>len1.
          rbind (mixed_sum [1, kl, 1, 4, len, 1] []) (\<lambda>n.
            bson_append b n (key_pairs BSON_TYPE_SYMBOL k kl @
              [(4, Some (le_bytes 4 (u32 len1))), (u32 len, Some v), (1, Some [0])]))))))"

definition bson_append_timestamp ::
    "bson_t \<Rightarrow> view option \<Rightarrow> int \<Rightarrow> 32 word \<Rightarrow> 32 word \<Rightarrow> (bool \<times> bson_t) result" where
  "bson_append_timestamp b key key_length timestamp increment =
     with_key b key key_length (\<lambda>k kl.
       let value = push_bit 32 (ucast timestamp :: 64 word) OR ucast increment in
       rbind (mixed_sum [1, kl, 1, 8] []) (\<lambda>n.
         bson_append b n (key_pairs BSON_TYPE_TIMESTAMP k kl @ [(8, Some (le_bytes 8 (unat value)))])))"

definition bson_append_date_time :: "bson_t \<Rightarrow> view option \<Rightarrow> int \<Rightarrow> 64 word \<Rightarrow> (bool \<times> bson_t) result" where
  "bson_append_date_time b key key_length value =
     with_key b key key_length (\<lambda>k kl.
       rbind (mixed_sum [1, kl, 1, 8] []) (\<lambda>n.
         bson_append b n (key_pairs BSON_TYPE_DATE_TIME k kl @ [(8, Some (le_bytes 8 (unat value)))])))"

text \<open>A \<open>struct timeval\<close> is the pair of its seconds and microseconds, 64 bits each.\<close>

definition bson_append_timeval ::
    "bson_t \<Rightarrow> view option \<Rightarrow> int \<Rightarrow> (64 word \<times> 64 word) option \<Rightarrow> (bool \<times> bson_t) result" where
  "bson_append_timeval b key key_length value =
     (case value of None \<Rightarrow> Ok (False, b) | Some (tv_sec, tv_usec) \<Rightarrow>
        if key = None then Ok (False, b)
        else bson_append_date_time b key key_length (tv_sec * 1000 + tv_usec div 1000))"

definition bson_append_time_t :: "bson_t \<Rightarrow> view option \<Rightarrow> int \<Rightarrow> 64 word \<Rightarrow> (bool \<times> bson_t) result" where
  "bson_append_time_t b key key_length value =
     (if key = None then Ok (False, b) else bson_append_timeval b key key_length (Some (value, 0)))"

text \<open>\<open>now\<close> is the value of \<open>time (NULL)\<close>.\<close>

definition bson_append_now_utc :: "bson_t \<Rightarrow> view option \<Rightarrow> int \<Rightarrow> 64 word \<Rightarrow> (bool \<times> bson_t) result" where
  "bson_append_now_utc b key key_length now =
     (if key = None \<or> key_length < -1 then Ok (False, b)
      else bson_append_time_t b key key_length now)"

text \<open>A read-only handle on the stack of the caller, for a pointer that may be NULL.\<close>

definition static_doc :: "view option \<Rightarrow> nat \<Rightarrow> bson_t option result" where
  "static_doc data len = (case data of None \<Rightarrow> Ok None | Some d \<Rightarrow> bson_init_static d len)"

definition append_static ::
    "(bson_t \<Rightarrow> (bool \<times> bson_t) result) \<Rightarrow> bson_t \<Rightarrow> view option \<Rightarrow> nat \<Rightarrow> (bool \<times> bson_t) result" where
  "append_static f b data len =
     rbind (static_doc data len) (\<lambda>d. case d of None \<Rightarrow> Ok (False, b) | Some doc \<Rightarrow> f doc)"

definition bson_append_value ::
    "bson_t \<Rightarrow> view option \<Rightarrow> int \<Rightarrow> bson_value_t \<Rightarrow> (bool \<times> bson_t) result" where
  "bson_append_value b key kl value =
     (if key = None then Ok (False, b)
      else case value of
        value_double d \<Rightarrow> bson_append_double b key kl d
      | value_utf8 str len \<Rightarrow> bson_append_utf8 b key kl str (as_int32 len)
      | value_document len data \<Rightarrow> append_static (bson_append_document b key kl) b data len
      | value_array len data \<Rightarrow> append_static (bson_append_array b key kl) b data len
      | value_binary subtype len data \<Rightarrow> bson_append_binary b key kl subtype data len
      | value_undefined \<Rightarrow> bson_append_undefined b key kl
      | value_oid oid \<Rightarrow> bson_append_oid b key kl (Some oid)
      | value_bool v \<Rightarrow> bson_append_bool b key kl v
      | value_datetime w \<Rightarrow> bson_append_date_time b key kl w
      | value_null \<Rightarrow> bson_append_null b key kl
      | value_regex r opts \<Rightarrow> bson_append_regex b key kl r opts
      | value_dbpointer len collection oid \<Rightarrow> bson_append_dbpointer b key kl collection (Some oid)
      | value_code code len \<Rightarrow> bson_append_code b key kl code
      | value_symbol symbol len \<Rightarrow> bson_append_symbol b key kl symbol (as_int32 len)
      | value_codewscope code len scope_len scope \<Rightarrow>
          append_static (\<lambda>doc. bson_append_code_with_scope b key kl code (Some doc)) b scope scope_len
      | value_int32 w \<Rightarrow> bson_append_int32 b key kl w
      | value_timestamp ts inc \<Rightarrow> bson_append_timestamp b key kl ts inc
      | value_int64 w \<Rightarrow> bson_append_int64 b key kl w
      | value_maxkey \<Rightarrow> bson_append_maxkey b key kl
      | value_minkey \<Rightarrow> bson_append_minkey b key kl)"

section \<open>Arguments\<close>

text \<open>The string that a pointer and an \<open>int\<close> length, negative for \<open>strlen\<close>, denote.\<close>

definition str_arg :: "view \<Rightarrow> int \<Rightarrow> bytes \<Rightarrow> bool" where
  "str_arg v n s \<longleftrightarrow>
     (if n < 0 then c_string v = Ok s else nat n \<le> length v \<and> s = take (nat n) v)
     \<and> length s \<le> INT32_MAX"

lemma c_string_take:
  assumes "c_string v = Ok s"
  shows "take (Suc (length s)) v = s @ [0]" "length s < length v" "0 \<notin> set s"
proof -
  have z: "0 \<in> set v" "s = takeWhile (\<lambda>b. b \<noteq> 0) v" using assms by (auto simp: c_string_def split: if_splits)
  then obtain a t where v: "v = a @ 0 # t" "0 \<notin> set a" by (metis split_list_first)
  then have "s = a" using z(2) by (simp add: takeWhile_append_0)
  then show "take (Suc (length s)) v = s @ [0]" "length s < length v" "0 \<notin> set s"
    using v by auto
qed

lemma c_string_empty: "c_string v = Ok [] \<Longrightarrow> take (Suc 0) v = [0]"
  using c_string_take(1) [of v "[]"] by simp

lemma str_argD:
  assumes "str_arg v n s"
  shows "str_length v n = Ok (int (length s))" "take (length s) v = s" "length s \<le> length v"
    "length s \<le> INT32_MAX"
proof -
  have "take (length s) v = s \<and> length s \<le> length v"
  proof (cases "n < 0")
    case True
    then have c: "c_string v = Ok s" using assms by (simp add: str_arg_def)
    have "take (length s) v = take (length s) (take (Suc (length s)) v)" by simp
    also have "\<dots> = s" unfolding c_string_take(1) [OF c] by simp
    finally show ?thesis using c_string_take(2) [OF c] by simp
  next
    case False
    with assms show ?thesis by (auto simp: str_arg_def)
  qed
  then show "take (length s) v = s" "length s \<le> length v" by simp_all
  show "str_length v n = Ok (int (length s))" "length s \<le> INT32_MAX"
    using assms by (auto simp: str_arg_def str_length_def c_strlen_def wrap_simps split: if_splits)
qed

lemma strlen1_ok: "c_string v = Ok s \<Longrightarrow> length s < INT32_MAX \<Longrightarrow> strlen1 v = Ok (Suc (length s))"
  by (simp add: strlen1_def int_strlen_def c_strlen_def wrap_simps add_int32_def in_int32_def u32_def
      nat_mod_distrib)

lemma u32_int [wrap_simps]: "n < 4294967296 \<Longrightarrow> u32 (int n) = n"
  by (simp add: u32_def)

lemma u32_int_Suc [wrap_simps]: "n < 4294967295 \<Longrightarrow> u32 (int n + 1) = Suc n"
  using u32_int [of "Suc n"] by (simp add: add.commute)

lemma int_sum_ok:
  "(\<forall>i \<in> set is. 0 \<le> i) \<Longrightarrow> 0 \<le> a \<Longrightarrow> a + sum_list is \<le> 2147483647 \<Longrightarrow> int_sum a is = Ok (a + sum_list is)"
proof (induction "is" arbitrary: a)
  case (Cons i "is")
  have "0 \<le> sum_list is" using Cons.prems(1) by (intro sum_list_nonneg) auto
  with Cons show ?case by (simp add: add_int32_def in_int32_def add.assoc)
qed simp

lemma mixed_sum_ok [wrap_simps]:
  assumes "\<forall>i \<in> set is. 0 \<le> i" "sum_list is \<le> 2147483647" "nat (sum_list is) + sum_list us < 4294967296"
  shows "mixed_sum is us = Ok (nat (sum_list is) + sum_list us)"
proof -
  have "0 \<le> sum_list is" using assms(1) by (intro sum_list_nonneg) auto
  with assms show ?thesis
    by (simp add: mixed_sum_def int_sum_ok w32_def u32_def)
qed

lemma pairs_simps [simp]:
  "pairs_ok []" "pairs_ok ((n, d) # ps) \<longleftrightarrow> (\<exists>v. d = Some v \<and> n \<le> length v) \<and> pairs_ok ps"
  "pairs_bytes [] = []" "pairs_bytes ((n, Some v) # ps) = take n v @ pairs_bytes ps"
  by (auto simp: pairs_ok_def pairs_bytes_def)

section \<open>The contract of the append functions\<close>

text \<open>\<open>writes r b bs\<close>: the outcome \<open>r\<close> is that of the append primitive on pieces that make up \<open>bs\<close>.\<close>

definition writes :: "(bool \<times> bson_t) result \<Rightarrow> bson_t \<Rightarrow> bytes \<Rightarrow> bool" where
  "writes r b bs \<longleftrightarrow>
     (\<exists>ps. pairs_ok ps \<and> ps \<noteq> [] \<and> 0 < fst (hd ps) \<and> pairs_bytes ps = bs \<and> r = bson_append b (length bs) ps)"

lemma writes_appended:
  assumes "writes r b (enc_elems fs)" "building b es" "wf_elems fs" "length (enc_elems fs) \<le> INT32_MAX"
  shows "appended b es fs r"
  using assms bson_append_elems [OF assms(2,3)] by (auto simp: writes_def)

lemma with_key_arg: "str_arg k kl K \<Longrightarrow> with_key b (Some k) kl f = f k (int (length K))"
  by (simp add: with_key_def str_argD(1))

lemma writes_elem:
  assumes "str_arg k kl K" "pairs_ok ps" "pairs_bytes ps = enc_value x" "t = val_type x"
    "n = 2 + length K + length (enc_value x)"
  shows "writes (bson_append b n (key_pairs t k (int (length K)) @ ps)) b (enc_elem K x)"
proof -
  have "pairs_bytes (key_pairs t k (int (length K)) @ ps) = enc_elem K x"
    using assms str_argD [OF assms(1)] by (simp add: key_pairs_def wrap_simps enc_elem_def)
  moreover have "pairs_ok (key_pairs t k (int (length K)) @ ps)"
    using assms str_argD [OF assms(1)] by (simp add: key_pairs_def wrap_simps)
  moreover have "n = length (enc_elem K x)" using assms(5) by (simp add: length_enc_elem)
  moreover have "key_pairs t k (int (length K)) @ ps \<noteq> []"
    "0 < fst (hd (key_pairs t k (int (length K)) @ ps))" by (simp_all add: key_pairs_def)
  ultimately show ?thesis unfolding writes_def by blast
qed

lemma writes_elem_empty:
  "str_arg k kl K \<Longrightarrow> enc_value x = [] \<Longrightarrow> t = val_type x \<Longrightarrow> n = 2 + length K
     \<Longrightarrow> writes (bson_append b n (key_pairs t k (int (length K)))) b (enc_elem K x)"
  using writes_elem [of k kl K "[]" x t n b] by simp

locale appender =
  fixes op :: "'a \<Rightarrow> bson_t \<Rightarrow> view option \<Rightarrow> int \<Rightarrow> (bool \<times> bson_t) result"
    and means :: "'a \<Rightarrow> bval \<Rightarrow> bool"
  assumes null_key: "op a b None kl = Ok (False, b)"
    and means_wf: "means a x \<Longrightarrow> wf_value x"
    and primitive: "means a x \<Longrightarrow> str_arg k kl K \<Longrightarrow> length (enc_elem K x) \<le> INT32_MAX
      \<Longrightarrow> writes (op a b (Some k) kl) b (enc_elem K x)"
begin

text \<open>Appending refines the extension of the list of elements at its end.\<close>

lemma appends:
  assumes "building b es" "means a x" "str_arg k kl K" "0 \<notin> set K" "length (enc_elem K x) \<le> INT32_MAX"
  shows "appended b es [(K, x)] (op a b (Some k) kl)"
proof (rule writes_appended)
  show "writes (op a b (Some k) kl) b (enc_elems [(K, x)])"
    using primitive [OF assms(2,3,5)] by (simp add: enc_elem_def)
  show "wf_elems [(K, x)]" "length (enc_elems [(K, x)]) \<le> INT32_MAX"
    using means_wf [OF assms(2)] assms(4,5) by (simp_all add: enc_elem_def)
qed (rule assms(1))

text \<open>A value appended under a key that was not there is what a lookup of that key finds.\<close>

lemma appended_is_found:
  assumes "building b es" "means a x" "str_arg k kl K" "0 \<notin> set K" "length (enc_elem K x) \<le> INT32_MAX"
    "op a b (Some k) kl = Ok (True, b')" "K \<notin> fst ` set es" "0x2E \<notin> set K" "K \<noteq> []"
  shows "bson_has_field b' (K @ 0 # u) = Ok True"
proof -
  have "building b' (es @ [(K, x)])"
    using appends [OF assms(1-5)] assms(6) by (auto simp: appended_def split: if_splits)
  then have h: "holds_doc b' (es @ [(K, x)])" by (simp add: building_def)
  have "split_dots K = [K]" using assms(8) by (simp add: split_dots.simps [of K])
  moreover have "lookup_path [K] (es @ [(K, x)]) \<noteq> None"
    using assms(7,9) by (auto simp: first_elem_def find_None_iff)
  ultimately show ?thesis
    using bson_has_field_holds_doc [OF h assms(4) str_argD(4) [OF assms(3)] assms(9)] by simp
qed

end

section \<open>Every append function keeps the contract\<close>

lemma le_bytes_timestamp:
  "le_bytes 8 (unat (push_bit 32 (ucast (ts :: 32 word) :: 64 word) OR ucast (inc :: 32 word)))
     = le_bytes 4 (unat inc) @ le_bytes 4 (unat ts)"
proof -
  let ?t = "push_bit 32 (ucast ts :: 64 word)" and ?i = "ucast inc :: 64 word"
  let ?n = "unat ts * 2 ^ 32 + unat inc"
  have "?t OR ?i = ?t + ?i"
    by (intro disjunctive_add_eq_or [symmetric] bit_word_eqI)
      (auto simp: bit_push_bit_iff bit_ucast_iff bit_and_iff dest!: bit_imp_le_length)
  also have "\<dots> = of_nat ?n" by (simp add: push_bit_eq_mult unsigned_ucast_eq)
  finally have e: "?t OR ?i = of_nat ?n" .
  have n: "?n < 2 ^ LENGTH(64)" using unat_word_less(1) [of ts] unat_word_less(1) [of inc] by simp
  have "unat (?t OR ?i) = ?n" unfolding e unat_of_nat using n by (rule mod_less)
  then show ?thesis
    using unat_word_less(1) [of inc] le_bytes_add [of 4 4 ?n] le_bytes_mod [of 4 ?n] by simp
qed

text \<open>What the arguments of the functions stand for.\<close>

definition str_means :: "(bytes \<Rightarrow> bval) \<Rightarrow> view \<times> int \<Rightarrow> bval \<Rightarrow> bool" where
  "str_means con a x \<longleftrightarrow> (\<exists>s. str_arg (fst a) (snd a) s \<and> x = con s)"

definition doc_means :: "(bdoc \<Rightarrow> bval) \<Rightarrow> bson_t \<Rightarrow> bval \<Rightarrow> bool" where
  "doc_means con d x \<longleftrightarrow> (\<exists>es. holds_doc d es \<and> x = con es)"

definition binary_means :: "byte \<times> view \<times> nat \<Rightarrow> bval \<Rightarrow> bool" where
  "binary_means a x \<longleftrightarrow> (case a of (sub, v, n) \<Rightarrow> n \<le> length v \<and> x = BBinary sub (take n v))"

definition oid_means :: "view \<Rightarrow> bval \<Rightarrow> bool" where
  "oid_means v x \<longleftrightarrow> 12 \<le> length v \<and> x = BOid (take 12 v)"

definition c_means :: "(bytes \<Rightarrow> bval) \<Rightarrow> view \<Rightarrow> bval \<Rightarrow> bool" where
  "c_means con v x \<longleftrightarrow> (\<exists>s. c_string v = Ok s \<and> x = con s)"

definition regex_means :: "view option \<times> view option \<Rightarrow> bval \<Rightarrow> bool" where
  "regex_means a x \<longleftrightarrow>
     (\<exists>r opts. (case fst a of None \<Rightarrow> r = [] | Some v \<Rightarrow> c_string v = Ok r)
        \<and> (case snd a of None \<Rightarrow> opts = [] | Some v \<Rightarrow> c_string v = Ok opts) \<and> x = BRegex r opts)"

definition dbpointer_means :: "view \<times> view \<Rightarrow> bval \<Rightarrow> bool" where
  "dbpointer_means a x \<longleftrightarrow>
     (\<exists>c. c_string (fst a) = Ok c \<and> 12 \<le> length (snd a) \<and> x = BDBPointer c (take 12 (snd a)))"

text \<open>An empty scope turns code with scope into plain code.\<close>

definition scoped_code :: "bytes \<Rightarrow> bdoc \<Rightarrow> bval" where
  "scoped_code s es = (if es = [] then BCode s else BCodeWScope s es)"

definition codewscope_means :: "view \<times> bson_t option \<Rightarrow> bval \<Rightarrow> bool" where
  "codewscope_means a x \<longleftrightarrow>
     (\<exists>s es. c_string (fst a) = Ok s \<and> (case snd a of None \<Rightarrow> es = [] | Some d \<Rightarrow> holds_doc d es)
        \<and> x = scoped_code s es)"

lemma holds_docD:
  assumes "holds_doc d es"
  shows "b_len d = length (enc_elems es) + 5"
    "take (length (enc_elems es) + 5) (bson_data d) = frame (enc_elems es)"
    "length (enc_elems es) + 5 \<le> length (bson_data d)" "wf_elems es"
    "length (enc_elems es) + 5 \<le> INT32_MAX"
  using assms by (auto simp: holds_doc_def points_to_def wf_doc_def encode_doc_def)

lemma type_code_val_type_nz: "type_code (val_type x) \<noteq> 0"
  by (cases x) simp_all

lemma bson_empty_holds_doc: "holds_doc d es \<Longrightarrow> bson_empty d = Ok (es = [])"
proof (cases es)
  case (Cons e es')
  assume "holds_doc d es"
  moreover obtain k x where e: "e = (k, x)" by fastforce
  ultimately obtain t where d: "bson_data d = le_bytes 4 (length (enc_elems es) + 5) @ type_code (val_type x) # t"
    "b_len d = length (enc_elems es) + 5"
    using Cons by (auto simp: holds_doc_def points_to_def encode_doc_def frame_def)
  then show ?thesis
    using Cons e by (simp add: bson_empty_def bson_get_data_def rd8_def nth_append type_code_val_type_nz)
qed (simp add: bson_empty_def holds_doc_def)

lemma c_strcmp_eq_keys:
  "0 \<notin> set s \<Longrightarrow> 0 \<notin> set t \<Longrightarrow> c_strcmp_eq (s @ 0 # u) (t @ 0 # v) = Ok (s = t)"
proof -
  have "c_strncmp_eq n (s @ 0 # u) (t @ 0 # v) = Ok (s = t)"
    if "0 \<notin> set s" "0 \<notin> set t" "length s < n" for n
    using that
  proof (induction n arbitrary: s t)
    case (Suc n)
    then show ?case by (cases s; cases t) auto
  qed simp
  moreover assume "0 \<notin> set s" "0 \<notin> set t"
  ultimately show ?thesis by (simp add: c_strcmp_eq_def)
qed

lemma array_first_key_safe:
  assumes "holds_doc d es"
  shows "\<exists>r. array_first_key d = Ok r"
proof (cases "es = []")
  case False
  obtain it where it: "bson_iter_init d = (True, it)" "iter_upto es 0 it"
    using assms by (rule iter_init_holds_doc)
  obtain it' where s: "bson_iter_next it = Ok (True, it')" "on_elem (fst (es ! 0)) (snd (es ! 0)) it'"
    using iter_upto_next [OF it(2)] False by blast
  obtain t where k: "bson_iter_key it' = Ok (fst (es ! 0) @ 0 # t)" using on_elem_key [OF s(2)] by blast
  have nz: "0 \<notin> set (fst (es ! 0))" using s(2) by (simp add: on_elem_def)
  have "c_strcmp_eq [0x30, 0] (fst (es ! 0) @ 0 # t) = Ok ([0x30] = fst (es ! 0))"
    using c_strcmp_eq_keys [of "[0x30]" "fst (es ! 0)" "[]" t] nz by simp
  with assms it s(1) k False show ?thesis
    by (simp add: array_first_key_def bson_empty_holds_doc)
qed (use assms in \<open>auto simp: array_first_key_def bson_empty_holds_doc\<close>)

lemmas append_defs = with_key_def [of _ None] with_key_arg wrap_simps add_int32_def in_int32_def
  length_enc_elem Let_def nat_add_distrib

interpretation app_double: appender "\<lambda>w b key kl. bson_append_double b key kl w" "\<lambda>w x. x = BDouble w"
  by unfold_locales (auto simp: bson_append_double_def append_defs intro!: writes_elem)

interpretation app_int32: appender "\<lambda>w b key kl. bson_append_int32 b key kl w" "\<lambda>w x. x = BInt32 w"
  by unfold_locales (auto simp: bson_append_int32_def append_defs intro!: writes_elem)

interpretation app_int64: appender "\<lambda>w b key kl. bson_append_int64 b key kl w" "\<lambda>w x. x = BInt64 w"
  by unfold_locales (auto simp: bson_append_int64_def append_defs intro!: writes_elem)

interpretation app_bool: appender "\<lambda>v b key kl. bson_append_bool b key kl v" "\<lambda>v x. x = BBool v"
  by unfold_locales (auto simp: bson_append_bool_def append_defs intro!: writes_elem)

interpretation app_date_time: appender "\<lambda>w b key kl. bson_append_date_time b key kl w" "\<lambda>w x. x = BDateTime w"
  by unfold_locales (auto simp: bson_append_date_time_def append_defs intro!: writes_elem)

interpretation app_timestamp:
  appender "\<lambda>a b key kl. bson_append_timestamp b key kl (fst a) (snd a)" "\<lambda>a x. x = BTimestamp (fst a) (snd a)"
  by unfold_locales (auto simp: bson_append_timestamp_def append_defs le_bytes_timestamp intro!: writes_elem)

interpretation app_null: appender "\<lambda>_ :: unit. bson_append_null" "\<lambda>_ x. x = BNull"
  by unfold_locales (auto simp: bson_append_null_def append_defs intro!: writes_elem_empty)

interpretation app_undefined: appender "\<lambda>_ :: unit. bson_append_undefined" "\<lambda>_ x. x = BUndefined"
  by unfold_locales (auto simp: bson_append_undefined_def append_defs intro!: writes_elem_empty)

interpretation app_maxkey: appender "\<lambda>_ :: unit. bson_append_maxkey" "\<lambda>_ x. x = BMaxKey"
  by unfold_locales (auto simp: bson_append_maxkey_def append_defs intro!: writes_elem_empty)

interpretation app_minkey: appender "\<lambda>_ :: unit. bson_append_minkey" "\<lambda>_ x. x = BMinKey"
  by unfold_locales (auto simp: bson_append_minkey_def append_defs intro!: writes_elem_empty)

interpretation app_oid: appender "\<lambda>v b key kl. bson_append_oid b key kl (Some v)" oid_means
  by unfold_locales
    (auto simp: bson_append_oid_def oid_means_def append_defs intro!: writes_elem)

interpretation app_utf8: appender "\<lambda>a b key kl. bson_append_utf8 b key kl (Some (fst a)) (snd a)" "str_means BUtf8"
  by unfold_locales
    (auto simp: bson_append_utf8_def str_means_def append_defs str_argD enc_string_def intro!: writes_elem)

interpretation app_symbol: appender "\<lambda>a b key kl. bson_append_symbol b key kl (Some (fst a)) (snd a)" "str_means BSymbol"
  by unfold_locales
    (auto simp: bson_append_symbol_def str_means_def append_defs str_argD enc_string_def intro!: writes_elem)

interpretation app_document: appender "\<lambda>d b key kl. bson_append_document b key kl d" "doc_means BDocument"
  by unfold_locales
    (auto simp: bson_append_document_def doc_means_def append_defs holds_docD intro!: writes_elem)

interpretation app_binary:
  appender "\<lambda>(sub, v, n) b key kl. bson_append_binary b key kl sub (Some v) n" binary_means
  by unfold_locales
    (auto simp: bson_append_binary_def binary_means_def append_defs min.absorb2 intro!: writes_elem)

interpretation app_code: appender "\<lambda>v b key kl. bson_append_code b key kl (Some v)" "c_means BCode"
  by unfold_locales
    (auto simp: bson_append_code_def c_means_def append_defs strlen1_ok c_string_take enc_string_def
      Suc_le_eq intro!: writes_elem)

interpretation app_regex: appender "\<lambda>a b key kl. bson_append_regex b key kl (fst a) (snd a)" regex_means
  by unfold_locales
    (auto simp: bson_append_regex_def regex_means_def append_defs strlen1_ok c_string_take c_string_empty c_string_def [of "[0]"] c_string_def [of "[]"]
      Suc_le_eq split: option.splits intro!: writes_elem)

interpretation app_dbpointer:
  appender "\<lambda>a b key kl. bson_append_dbpointer b key kl (Some (fst a)) (Some (snd a))" dbpointer_means
  by unfold_locales
    (auto simp: bson_append_dbpointer_def dbpointer_means_def append_defs strlen1_ok c_string_take enc_string_def
      Suc_le_eq intro!: writes_elem)

interpretation app_array: appender "\<lambda>d b key kl. bson_append_array b key kl d" "doc_means BArray"
proof unfold_locales
  fix d x k kl K b
  assume "doc_means BArray d x" and k: "str_arg k kl K" and l: "length (enc_elem K x) \<le> INT32_MAX"
  then obtain es where es: "holds_doc d es" "x = BArray es" by (auto simp: doc_means_def)
  from array_first_key_safe [OF es(1)] k l es show "writes (bson_append_array b (Some k) kl d) b (enc_elem K x)"
    by (auto simp: bson_append_array_def append_defs holds_docD intro!: writes_elem)
qed (auto simp: bson_append_array_def append_defs doc_means_def holds_docD)

interpretation app_code_with_scope:
  appender "\<lambda>a b key kl. bson_append_code_with_scope b key kl (Some (fst a)) (snd a)" codewscope_means
proof unfold_locales
  fix a x k kl K b
  assume "codewscope_means a x" and k: "str_arg k kl K" and l: "length (enc_elem K x) \<le> INT32_MAX"
  then obtain s es where s: "c_string (fst a) = Ok s" "x = scoped_code s es"
    and d: "case snd a of None \<Rightarrow> es = [] | Some d \<Rightarrow> holds_doc d es" by (auto simp: codewscope_means_def)
  have e: "bson_empty0 (snd a) = Ok (es = [])"
    using d by (auto simp: bson_empty0_def bson_empty_holds_doc split: option.splits)
  show "writes (bson_append_code_with_scope b (Some k) kl (Some (fst a)) (snd a)) b (enc_elem K x)"
  proof (cases "es = []")
    case True
    with s have "c_means BCode (fst a) x" by (simp add: c_means_def scoped_code_def)
    from app_code.primitive [OF this k l] True e show ?thesis by (simp add: bson_append_code_with_scope_def)
  next
    case False
    then obtain d' where d': "snd a = Some d'" "holds_doc d' es" using d by (cases "snd a") auto
    from False s have x: "x = BCodeWScope s es" by (simp add: scoped_code_def)
    from False e s(1) d' k l show ?thesis unfolding x
      by (auto simp: bson_append_code_with_scope_def append_defs strlen1_ok c_string_take enc_string_def
          holds_docD Suc_le_eq intro!: writes_elem)
  qed
qed (auto simp: bson_append_code_with_scope_def codewscope_means_def scoped_code_def holds_docD
    split: option.splits if_splits)

section \<open>Appending the value of a field\<close>

text \<open>
  What is appended for a value read from a document: strings of code, code with scope and database
  pointers are measured with \<open>strlen\<close>, so they end at the first NUL, and an empty scope is dropped.
\<close>

definition until_nul :: "bytes \<Rightarrow> bytes" where
  "until_nul s = takeWhile (\<lambda>b. b \<noteq> 0) s"

fun copied :: "bval \<Rightarrow> bval" where
  "copied (BCode s) = BCode (until_nul s)"
| "copied (BDBPointer c d) = BDBPointer (until_nul c) d"
| "copied (BCodeWScope s es) = scoped_code (until_nul s) es"
| "copied x = x"

text \<open>The values that come back as they are.\<close>

definition copied_exactly :: "bval \<Rightarrow> bool" where
  "copied_exactly x \<longleftrightarrow> (case x of BCode s \<Rightarrow> 0 \<notin> set s | BDBPointer c d \<Rightarrow> 0 \<notin> set c
     | BCodeWScope s es \<Rightarrow> 0 \<notin> set s \<and> es \<noteq> [] | _ \<Rightarrow> True)"

lemma until_nul_same: "until_nul s = s \<longleftrightarrow> 0 \<notin> set s"
  by (auto simp: until_nul_def takeWhile_eq_all_conv)

lemma copied_id_iff: "copied x = x \<longleftrightarrow> copied_exactly x"
  by (cases x rule: copied.cases) (simp_all add: copied_exactly_def until_nul_same scoped_code_def)

lemma c_string_points_to: "points_to (Some v) (s @ [0]) \<Longrightarrow> c_string v = Ok (until_nul s)"
  using takeWhile_append_0 [of "until_nul s"]
  by (auto simp: points_to_def c_string_def until_nul_def takeWhile_append takeWhile_eq_all_conv
      simp flip: takeWhile_eq_all_conv)

lemma points_toE:
  assumes "points_to p bs"
  obtains v where "p = Some v" "take (length bs) v = bs" "length bs \<le> length v" "points_to (Some v) bs"
  using assms by (auto simp: points_to_def)

lemma append_static_doc:
  assumes "points_to p (encode_doc es)" "wf_elems es" "length (enc_elems es) + 5 \<le> INT32_MAX"
  shows "\<exists>d. holds_doc d es \<and> append_static f b p (length (enc_elems es) + 5) = f d"
proof -
  obtain t where p: "p = Some (encode_doc es @ t)" using assms(1) by (auto simp: points_to_def)
  let ?n = "length (enc_elems es) + 5"
  have "rd32 (encode_doc es @ t) 0 = Ok ?n"
    using assms(3) by (simp add: rd32_def rdn_def encode_doc_def frame_def le_nat_le_bytes)
  moreover have "rd8 (encode_doc es @ t) (?n - 1) = Ok 0"
    by (simp add: rd8_def encode_doc_def frame_def nth_append)
  ultimately obtain d where d: "bson_init_static (encode_doc es @ t) ?n = Ok (Some d)"
    "b_len d = ?n" "bson_data d = encode_doc es"
    using assms(3) by (simp add: bson_init_static_def bson_data_def)
  then have "holds_doc d es" using assms(2,3) by (auto simp: holds_doc_def wf_doc_def points_to_def)
  with d(1) p show ?thesis by (auto simp: append_static_def static_doc_def)
qed

definition value_means :: "bson_value_t \<Rightarrow> bval \<Rightarrow> bool" where
  "value_means val y \<longleftrightarrow> (\<exists>x. value_holds val x \<and> wf_value x \<and> y = copied x)"

lemma bson_append_value_primitive:
  assumes "value_holds val x" "wf_value x" "str_arg k kl K" "length (enc_elem K (copied x)) \<le> INT32_MAX"
  shows "writes (bson_append_value b (Some k) kl val) b (enc_elem K (copied x))"
proof (cases x)
  case (BUtf8 s)
  then obtain v where v: "val = value_utf8 (Some v) (length s)" "take (length s) v = s" "length s \<le> length v"
    using assms(1) by (auto simp: points_to_def)
  moreover have "str_means BUtf8 (v, as_int32 (length s)) x"
    using v assms(4) BUtf8 by (auto simp: str_means_def str_arg_def wrap_simps length_enc_elem)
  ultimately show ?thesis
    using app_utf8.primitive [of "(v, as_int32 (length s))" x k kl K b] assms(3,4) BUtf8
    by (simp add: bson_append_value_def)
next
  case (BSymbol s)
  then obtain v where v: "val = value_symbol (Some v) (length s)" "take (length s) v = s" "length s \<le> length v"
    using assms(1) by (auto simp: points_to_def)
  moreover have "str_means BSymbol (v, as_int32 (length s)) x"
    using v assms(4) BSymbol by (auto simp: str_means_def str_arg_def wrap_simps length_enc_elem)
  ultimately show ?thesis
    using app_symbol.primitive [of "(v, as_int32 (length s))" x k kl K b] assms(3,4) BSymbol
    by (simp add: bson_append_value_def)
next
  case (BDocument es)
  then obtain p where v: "val = value_document (length (enc_elems es) + 5) p" "points_to p (encode_doc es)"
    using assms(1) by auto
  from append_static_doc [OF v(2), of "bson_append_document b (Some k) kl" b] BDocument assms v obtain d where
    "doc_means BDocument d x" "bson_append_value b (Some k) kl val = bson_append_document b (Some k) kl d"
    by (auto simp: bson_append_value_def length_enc_elem doc_means_def)
  then show ?thesis using app_document.primitive [of d x k kl K b] assms(3,4) BDocument by simp
next
  case (BArray es)
  then obtain p where v: "val = value_array (length (enc_elems es) + 5) p" "points_to p (encode_doc es)"
    using assms(1) by auto
  from append_static_doc [OF v(2), of "bson_append_array b (Some k) kl" b] BArray assms v obtain d where
    "doc_means BArray d x" "bson_append_value b (Some k) kl val = bson_append_array b (Some k) kl d"
    by (auto simp: bson_append_value_def length_enc_elem doc_means_def)
  then show ?thesis using app_array.primitive [of d x k kl K b] assms(3,4) BArray by simp
next
  case (BCodeWScope s es)
  then obtain v p where v: "val = value_codewscope (Some v) (length s) (length (enc_elems es) + 5) p"
      "points_to (Some v) (s @ [0])" "points_to p (encode_doc es)"
    using assms(1) by (auto simp: points_to_def)
  have "length (enc_elems es) + 5 \<le> INT32_MAX"
    using assms(4) BCodeWScope by (auto simp: length_enc_elem scoped_code_def split: if_splits)
  with append_static_doc [OF v(3), of "\<lambda>doc. bson_append_code_with_scope b (Some k) kl (Some v) (Some doc)" b]
    BCodeWScope assms(2) v(1) obtain d where d: "holds_doc d es"
    "bson_append_value b (Some k) kl val = bson_append_code_with_scope b (Some k) kl (Some v) (Some d)"
    by (auto simp: bson_append_value_def)
  then have "codewscope_means (v, Some d) (copied x)"
    using BCodeWScope c_string_points_to [OF v(2)] by (auto simp: codewscope_means_def)
  then show ?thesis
    using app_code_with_scope.primitive [of "(v, Some d)" "copied x" k kl K b] assms(3,4) d(2) by simp
next
  case (BCode s)
  then obtain v where v: "val = value_code (Some v) (length s)" "c_string v = Ok (until_nul s)"
    using assms(1) c_string_points_to by (auto simp: points_to_def)
  then show ?thesis
    using app_code.primitive [of v "copied x" k kl K b] assms(3,4) BCode
    by (simp add: bson_append_value_def c_means_def)
next
  case (BDBPointer c d)
  then obtain v where v: "val = value_dbpointer (length c) (Some v) d" "c_string v = Ok (until_nul c)"
    using assms(1) c_string_points_to by (auto simp: points_to_def)
  then show ?thesis
    using app_dbpointer.primitive [of "(v, d)" "copied x" k kl K b] assms(2,3,4) BDBPointer
    by (simp add: bson_append_value_def dbpointer_means_def)
next
  case (BRegex r opts)
  then obtain v w where v: "val = value_regex (Some v) (Some w)" "c_string v = Ok r" "c_string w = Ok opts"
    using assms(1,2) by (auto simp: points_to_def view_simps)
  then show ?thesis
    using app_regex.primitive [of "(Some v, Some w)" x k kl K b] assms(3,4) BRegex
    by (simp add: bson_append_value_def regex_means_def)
next
  case (BBinary sub d)
  then obtain v where v: "val = value_binary sub (length d) (Some v)" "take (length d) v = d" "length d \<le> length v"
    using assms(1) by (auto simp: points_to_def)
  then show ?thesis
    using app_binary.primitive [of "(sub, v, length d)" x k kl K b] assms(3,4) BBinary
    by (simp add: bson_append_value_def binary_means_def)
next
  case (BOid d)
  then show ?thesis
    using app_oid.primitive [of d x k kl K b] assms
    by (simp add: bson_append_value_def oid_means_def)
next
  case (BTimestamp ts inc)
  then show ?thesis
    using app_timestamp.primitive [of x "(ts, inc)" k kl K b] assms by (simp add: bson_append_value_def)
qed (use assms app_double.primitive app_bool.primitive app_date_time.primitive app_int32.primitive
    app_int64.primitive app_null.primitive app_undefined.primitive app_maxkey.primitive
    app_minkey.primitive in \<open>auto simp: bson_append_value_def\<close>)

lemma copied_wf: "wf_value x \<Longrightarrow> wf_value (copied x)"
  by (cases x rule: copied.cases) (auto simp: scoped_code_def)

interpretation app_value: appender "\<lambda>val b key kl. bson_append_value b key kl val" value_means
  by unfold_locales
    (auto simp: value_means_def copied_wf bson_append_value_primitive bson_append_value_def [of _ None])

end
