(* ===== verification/Bson_Nest.thy ===== *)
theory Bson_Nest
  imports Bson_Append
begin

text \<open>
  Nested documents as a protocol: between \<open>begin\<close> and \<open>end\<close> the parent is locked and the child works
  on the parent's buffer, to any depth. A step relation describes the calls a program may make, and
  an invariant on the stack of open handles gives that, whatever the sequence of calls, the handle
  holds exactly the document that the calls describe.
\<close>

definition container :: "bson_type_t \<Rightarrow> bdoc \<Rightarrow> bval" where
  "container t es = (if t = BSON_TYPE_ARRAY then BArray es else BDocument es)"

lemma encode_empty: "encode_doc [] = [5, 0, 0, 0, 0]"
  by code_simp

lemma enc_elem_container:
  assumes "t \<in> {BSON_TYPE_DOCUMENT, BSON_TYPE_ARRAY}"
  shows "enc_elem K (container t es) = (type_code t # K @ [0]) @ encode_doc es"
    "wf_value (container t es) = wf_elems es" "val_type (container t es) = t"
    "enc_value (container t []) = [5, 0, 0, 0, 0]"
  using assms
  using encode_empty by (auto simp: container_def enc_elem_def encode_doc_def)

text \<open>
  \<open>opens b0 b es K t c0\<close>: the parent \<open>b\<close>, which was \<open>b0\<close> before \<open>begin\<close>, waits for a child that started
  as \<open>c0\<close>; whatever document the child has become, \<open>end\<close> adds it under the key \<open>K\<close>.
\<close>

definition opens :: "bson_t \<Rightarrow> bson_t \<Rightarrow> bdoc \<Rightarrow> bytes \<Rightarrow> bson_type_t \<Rightarrow> bson_t \<Rightarrow> bool" where
  "opens b0 b es K t c0 \<longleftrightarrow> BSON_FLAG_IN_CHILD \<in> b_flags b
     \<and> (\<forall>c sub. building c sub \<longrightarrow> grown c0 c \<longrightarrow>
         (\<exists>b'. bson_append_bson_end b c = Ok (True, b') \<and> building b' (es @ [(K, container t sub)])
               \<and> grown b0 b'))"

section \<open>Beginning a child\<close>

lemma npot_128: "npot 128 = 128"
  by code_simp

lemma inline_to_heap:
  assumes "building b es"
  shows "\<exists>c. to_heap b = Ok (True, c) \<and> building c es \<and> grown b c \<and> BSON_FLAG_INLINE \<notin> b_flags c
     \<and> b_len c = b_len b \<and> (\<forall>n. fits c n = fits b n)"
proof (cases "BSON_FLAG_INLINE \<in> b_flags b")
  case True
  have b: "builder b" using assms by (simp add: building_def)
  then have i: "b_offset b = 0" "b_depth b = 0" "b_len b \<le> 120" "length (b_buf b) = 120" "5 \<le> b_len b"
    "BSON_FLAG_RDONLY \<notin> b_flags b" "BSON_FLAG_CHILD \<notin> b_flags b" "BSON_FLAG_IN_CHILD \<notin> b_flags b"
    using True by (auto simp: builder_def)
  let ?c = "b\<lparr>b_flags := b_flags b - {BSON_FLAG_INLINE},
    b_buf := take (b_len b) (b_buf b) @ replicate (128 - b_len b) 0, b_offset := 0, b_depth := 0,
    b_realloc := True\<rparr>"
  have "to_heap b = Ok (True, ?c)"
    using True i npot_128
    by (simp add: to_heap_def bson_grow_def bson_impl_inline_grow_def rdn_def)
  moreover have "builder ?c" "grown b ?c"
    using True i by (auto simp: builder_def grown_def growable_def)
  moreover have "bson_bytes ?c = bson_bytes b"
    using i by (simp add: bson_bytes_def bson_data_def)
  then have "building ?c es" using assms \<open>builder ?c\<close> by (simp add: building_iff)
  moreover have "fits ?c n = fits b n" for n
    using True i by (auto simp: fits_def room_def growable_def Let_def)
  ultimately show ?thesis by (intro exI [of _ ?c]) simp
next
  case False
  with assms show ?thesis by (auto simp: to_heap_def)
qed

text \<open>What \<open>end\<close> does to the shared buffer: the final NUL of the parent and its new length.\<close>

lemma bson_end_buffer:
  assumes "BSON_FLAG_IN_CHILD \<in> b_flags b" "building d sub" "Suc (b_depth b) \<le> b_depth d"
    "take (b_offset d) (b_buf d) = P @ L @ M" "length P = b_offset b" "length L = 4"
    "b_offset d = b_offset b + length (L @ M)" "b_len b = length (L @ M) + 6"
  obtains Y b' where "bson_append_bson_end b d = Ok (True, b')"
    "b' = b\<lparr>b_flags := b_flags b - {BSON_FLAG_IN_CHILD}, b_len := length (L @ M) + length (encode_doc sub) + 1,
           b_buf := P @ le_bytes 4 (length (L @ M) + length (encode_doc sub) + 1) @ M @ encode_doc sub @ 0 # Y\<rparr>"
    "length (b_buf b') = length (b_buf d)" "b_depth b \<le> length Y" "length (b_buf b') \<le> INT32_MAX"
proof -
  let ?E = "encode_doc sub"
  define n where "n = length (L @ M) + length ?E + 1"
  have d: "builder d" "b_len d = length ?E" "bson_bytes d = ?E"
    using assms(2) building_iff [of d sub] by (auto simp: building_def holds_doc_def)
  obtain Z where Z: "bson_data d = ?E @ Z" using d(3) by (metis append_take_drop_id bson_bytes_def)
  have buf: "b_buf d = P @ L @ M @ ?E @ Z"
    using assms(4) Z append_take_drop_id [of "b_offset d" "b_buf d"] by (simp add: bson_data_def)
  have len: "b_offset d + length ?E + b_depth d \<le> length (b_buf d)" "length (b_buf d) \<le> INT32_MAX"
    using d(1,2) by (auto simp: builder_def)
  then have "b_depth d \<le> length Z" using buf assms(5,7) by simp
  then obtain z Y where z: "Z = z # Y" "b_depth b \<le> length Y" using assms(3) by (cases Z) auto
  let ?b1 = "b\<lparr>b_flags := b_flags b - {BSON_FLAG_IN_CHILD}, b_len := n, b_buf := P @ L @ M @ ?E @ Z\<rparr>"
  let ?b2 = "?b1\<lparr>b_buf := P @ L @ M @ ?E @ 0 # Y\<rparr>"
  let ?b3 = "?b1\<lparr>b_buf := P @ le_bytes 4 n @ M @ ?E @ 0 # Y\<rparr>"
  have n_less: "n \<le> INT32_MAX" using len(2) buf z by (simp add: n_def)
  then have sub: "sub32 (b_len b + b_len d) 5 = n"
    using assms(8) d(2) sub32_diff [of 5 "b_len b + b_len d"] by (simp add: n_def)
  have p1: "put_data ?b1 (int n - 1) [0] = Ok ?b2"
  proof -
    have "nat (int (b_offset b) + (int n - 1)) = length (P @ L @ M @ ?E)"
      using assms(5) by (simp add: n_def)
    moreover have "splice (length (P @ L @ M @ ?E)) [0] ((P @ L @ M @ ?E) @ Z) = (P @ L @ M @ ?E) @ 0 # Y"
      using z by (subst splice_append) auto
    ultimately show ?thesis using z assms(5) by (simp add: put_data_def n_def)
  qed
  have p2: "bson_encode_length ?b2 = Ok ?b3"
    using assms(5,6) by (simp add: bson_encode_length_def put_data_def)
  have "BSON_FLAG_IN_CHILD \<notin> b_flags d" using d(1) by (simp add: builder_def)
  then have "bson_append_bson_end b d = Ok (True, ?b3)"
    using assms(1) sub p1 p2 buf by (simp add: bson_append_bson_end_def)
  moreover have "length (b_buf ?b3) = length (b_buf d)" using buf z assms(6) by simp
  ultimately show ?thesis using that [of ?b3 Y] z(2) len(2) by (simp add: n_def)
qed

lemma building_opened:
  assumes "building b1 (es @ [(K, container t [])])" "BSON_FLAG_INLINE \<notin> b_flags b1"
    "t \<in> {BSON_TYPE_DOCUMENT, BSON_TYPE_ARRAY}" "grown b0 b1"
  shows "building (begin_child b1) []"
    "opens b0 (b1\<lparr>b_flags := insert BSON_FLAG_IN_CHILD (b_flags b1)\<rparr>) es K t (begin_child b1)"
proof -
  define X where "X = le_bytes 4 (b_len b1) @ enc_elems es @ type_code t # K @ [0]"
  let ?c = "begin_child b1"
  have b1: "builder b1" "wf_elems es" "0 \<notin> set K"
    using assms(1) by (auto simp: building_iff)
  have l: "b_len b1 = length X + 6"
    using assms(1,3) by (auto simp: building_def holds_doc_def X_def enc_elem_container
        simp flip: enc_elem_def)
  have bytes: "bson_bytes b1 = X @ encode_doc [] @ [0]"
  proof -
    have "bson_bytes b1 = encode_doc (es @ [(K, container t [])])" using assms(1) by (simp add: building_iff)
    also have "\<dots> = le_bytes 4 (b_len b1) @ enc_elems es @ enc_elem K (container t []) @ [0]"
      using assms(1) by (simp add: encode_doc_def frame_def building_def holds_doc_def enc_elem_def)
    finally show ?thesis using assms(3) by (simp add: X_def enc_elem_container)
  qed
  then obtain Y where Y: "bson_data b1 = X @ encode_doc [] @ 0 # Y"
    by (metis append.assoc append_Cons append_Nil append_take_drop_id bson_bytes_def)
  have c: "b_offset ?c = b_offset b1 + length X" "b_buf ?c = b_buf b1" "b_len ?c = 5"
    "b_depth ?c = b_depth b1 + 1"
    using l b1(1) by (auto simp: begin_child_def builder_def)
  have "bson_data ?c = drop (length X) (bson_data b1)" using c by (simp add: bson_data_def add.commute)
  then have "bson_data ?c = encode_doc [] @ 0 # Y" using Y by simp
  then have "bson_bytes ?c = encode_doc []" using c(3) by (simp add: bson_bytes_def encode_empty)
  moreover have "builder ?c"
    using b1(1) c l by (auto simp: builder_def) (auto simp: begin_child_def)
  ultimately show "building ?c []" by (simp add: building_iff)
  show "opens b0 (b1\<lparr>b_flags := insert BSON_FLAG_IN_CHILD (b_flags b1)\<rparr>) es K t ?c"
    unfolding opens_def
  proof (intro conjI allI impI)
    fix d sub assume d: "building d sub" "grown ?c d"
    let ?b = "b1\<lparr>b_flags := insert BSON_FLAG_IN_CHILD (b_flags b1)\<rparr>"
    define P L M where "P = take (b_offset b1) (b_buf b1)" and "L = le_bytes 4 (b_len b1)"
      and "M = enc_elems es @ type_code t # K @ [0]"
    have X: "X = L @ M" by (simp add: X_def L_def M_def)
    have g: "b_offset d = b_offset b1 + length X" "b_depth d = Suc (b_depth b1)"
      "take (b_offset d) (b_buf d) = take (b_offset b1 + length X) (b_buf b1)"
      "length (b_buf b1) \<le> length (b_buf d)"
      using d(2) c by (auto simp: grown_def)
    have L: "length L = 4" by (simp add: L_def)
    have P: "length P = b_offset b1" using b1(1) by (auto simp: builder_def P_def)
    have "take (b_offset b1 + length X) (b_buf b1) = P @ take (length X) (bson_data b1)"
      by (simp add: take_add bson_data_def P_def)
    then have pre: "take (b_offset d) (b_buf d) = P @ L @ M" using Y g(3) X by simp
    have q: "BSON_FLAG_IN_CHILD \<in> b_flags ?b" "Suc (b_depth ?b) \<le> b_depth d" "length P = b_offset ?b"
      "length L = 4" "b_offset d = b_offset ?b + length (L @ M)" "b_len ?b = length (L @ M) + 6"
      using g(1,2) P L l by (simp_all add: X)
    obtain Z b' where e: "bson_append_bson_end ?b d = Ok (True, b')"
      "b' = ?b\<lparr>b_flags := b_flags ?b - {BSON_FLAG_IN_CHILD}, b_len := length (L @ M) + length (encode_doc sub) + 1,
        b_buf := P @ le_bytes 4 (length (L @ M) + length (encode_doc sub) + 1) @ M @ encode_doc sub @ 0 # Z\<rparr>"
      "length (b_buf b') = length (b_buf d)" "b_depth ?b \<le> length Z" "length (b_buf b') \<le> INT32_MAX"
      by (rule bson_end_buffer [OF q(1) d(1) q(2) pre q(3-6)])
    have fl: "b_flags b' = b_flags b1"
      using b1(1) by (auto simp: e(2) builder_def)
    have len: "b_len b' = length (encode_doc (es @ [(K, container t sub)]))"
      using enc_elem_container(1) [OF assms(3), of K sub] by (simp add: e(2) X L M_def enc_elem_def)
    have "bson_data b' = encode_doc (es @ [(K, container t sub)]) @ Z"
      using P enc_elem_container(1) [OF assms(3), of K sub]
      by (simp add: e(2) bson_data_def encode_doc_def [of "_ @ _"] frame_def X L M_def enc_elem_def)
    then have "bson_bytes b' = encode_doc (es @ [(K, container t sub)])"
      using len by (simp add: bson_bytes_def)
    moreover have "wf_elems (es @ [(K, container t sub)])"
      using b1 d(1) assms(3) by (auto simp: building_iff enc_elem_container)
    moreover have "builder b'"
    proof -
      have "b_offset b1 + b_len b' + b_depth b1 \<le> length (b_buf b')" using e(4) P by (simp add: e(2) X L)
      moreover have "5 \<le> b_len b'" by (simp add: e(2))
      ultimately show ?thesis using b1(1) fl e(5) assms(2) by (auto simp: builder_def e(2))
    qed
    ultimately have "building b' (es @ [(K, container t sub)])" by (simp add: building_iff)
    moreover have "grown b1 b'"
      using fl e(3) g(4) P by (auto simp: grown_def growable_def e(2) P_def)
    ultimately show "\<exists>b'. bson_append_bson_end ?b d = Ok (True, b')
       \<and> building b' (es @ [(K, container t sub)]) \<and> grown b0 b'"
      using e(1) grown_trans [OF assms(4)] by blast
  qed simp
qed

text \<open>The room of a fresh child: it needs the bytes its parent needed, its key, and one more final NUL.\<close>

definition child_room :: "bson_t \<Rightarrow> nat \<Rightarrow> bson_t \<Rightarrow> bool" where
  "child_room b k c \<longleftrightarrow> growable c = growable b \<and> b_len c = 5
     \<and> b_offset c + b_len c + b_depth c \<le> b_offset b + b_len b + b_depth b + k + 8"

lemma child_room_fits: "child_room b k c \<Longrightarrow> growable b
    \<Longrightarrow> b_offset b + b_len b + b_depth b + k + 8 + n \<le> 2 ^ 30 \<Longrightarrow> fits c n"
  by (auto simp: child_room_def fits_def room_def Let_def)

lemma begin_child_room:
  assumes "building b es" "grown b b1" "b_len b1 = b_len b + k + 7" "BSON_FLAG_INLINE \<notin> b_flags b1"
  shows "child_room b k (begin_child b1)"
  using assms by (auto simp: child_room_def begin_child_def grown_def growable_def building_def builder_def)

lemma bson_begin_outcome:
  assumes "building b es" "str_arg k kl K" "0 \<notin> set K" "t \<in> {BSON_TYPE_DOCUMENT, BSON_TYPE_ARRAY}"
    "length K + 7 \<le> INT32_MAX"
  shows "if fits b (length K + 7)
    then \<exists>b' c. bson_append_bson_begin b (Some k) kl t = Ok (True, b', Some c)
           \<and> building c [] \<and> opens b b' es K t c \<and> child_room b (length K) c
    else \<exists>b'. bson_append_bson_begin b (Some k) kl t = Ok (False, b', None) \<and> building b' es \<and> grown b b'"
proof -
  obtain c where c: "to_heap b = Ok (True, c)" "building c es" "grown b c" "BSON_FLAG_INLINE \<notin> b_flags c"
    "b_len c = b_len b" "\<forall>n. fits c n = fits b n"
    using inline_to_heap [OF assms(1)] by blast
  let ?x = "container t []"
  have e: "enc_elem K ?x = type_code t # K @ 0 # [5, 0, 0, 0, 0]" "wf_value ?x"
    using enc_elem_container [OF assms(4)] by (simp_all add: encode_empty)
  have n: "length (enc_elem K ?x) = length K + 7" by (simp add: e(1))
  let ?r = "bson_append c (length K + 7) (key_pairs t k (int (length K)) @ [(5, Some [5, 0, 0, 0, 0])])"
  have "writes ?r c (enc_elem K ?x)"
    using enc_elem_container [OF assms(4)] by (intro writes_elem [OF assms(2)]) auto
  then have w: "appended c es [(K, ?x)] ?r"
    using writes_appended [OF _ c(2), of ?r "[(K, ?x)]"] e(2) assms(3,5) n by (simp flip: enc_elem_def)
  have flags: "BSON_FLAG_RDONLY \<notin> b_flags b" "BSON_FLAG_IN_CHILD \<notin> b_flags b"
    using assms(1) by (auto simp: building_def builder_def)
  have opened: "bson_append_bson_begin b (Some k) kl t = rbind ?r (\<lambda>(ok, b).
      if \<not> ok then Ok (False, b, None)
      else Ok (True, b\<lparr>b_flags := insert BSON_FLAG_IN_CHILD (b_flags b)\<rparr>, Some (begin_child b)))"
    unfolding bson_append_bson_begin_def
    using flags assms(4,5) str_argD [OF assms(2)] c(1)
    by (auto simp: wrap_simps nat_add_distrib key_pairs_def add.commute split: prod.splits)
  show ?thesis
  proof (cases "fits b (length K + 7)")
    case True
    then obtain b1 where b1: "?r = Ok (True, b1)" "building b1 (es @ [(K, ?x)])" "grown c b1"
      "b_len b1 = b_len c + (length K + 7)"
      using w c(6) n by (auto simp: appended_def simp flip: enc_elem_def)
    have i: "BSON_FLAG_INLINE \<notin> b_flags b1" using b1(3) c(4) by (auto simp: grown_def)
    have "child_room b (length K) (begin_child b1)"
      using begin_child_room [OF assms(1) grown_trans [OF c(3) b1(3)] _ i] b1(4) c(5) by simp
    with building_opened [OF b1(2) i assms(4) grown_trans [OF c(3) b1(3)]] True opened b1(1)
    show ?thesis by simp
  next
    case False
    then have "?r = Ok (False, c)" using w c(6) n by (auto simp: appended_def simp flip: enc_elem_def)
    with False opened c(2,3) show ?thesis by simp
  qed
qed

section \<open>Sequences of calls\<close>

text \<open>
  The handle in use with the elements it holds, and the suspended ancestors, innermost first, each
  with its elements and the key and type of the child it waits for.
\<close>

type_synonym build_state = "bson_t \<times> bdoc \<times> (bson_t \<times> bdoc \<times> bytes \<times> bson_type_t) list"

inductive build_step :: "build_state \<Rightarrow> build_state \<Rightarrow> bool" where
  append: "value_means val x \<Longrightarrow> str_arg k kl K \<Longrightarrow> 0 \<notin> set K \<Longrightarrow> length (enc_elem K x) \<le> INT32_MAX
    \<Longrightarrow> bson_append_value b (Some k) kl val = Ok (ok, b')
    \<Longrightarrow> build_step (b, es, st) (b', es @ (if ok then [(K, x)] else []), st)"
| start: "str_arg k kl K \<Longrightarrow> 0 \<notin> set K \<Longrightarrow> t \<in> {BSON_TYPE_DOCUMENT, BSON_TYPE_ARRAY} \<Longrightarrow> length K + 7 \<le> INT32_MAX
    \<Longrightarrow> bson_append_bson_begin b (Some k) kl t = Ok (True, b', Some c)
    \<Longrightarrow> build_step (b, es, st) (c, [], (b', es, K, t) # st)"
| refuse: "str_arg k kl K \<Longrightarrow> 0 \<notin> set K \<Longrightarrow> t \<in> {BSON_TYPE_DOCUMENT, BSON_TYPE_ARRAY} \<Longrightarrow> length K + 7 \<le> INT32_MAX
    \<Longrightarrow> bson_append_bson_begin b (Some k) kl t = Ok (False, b', None)
    \<Longrightarrow> build_step (b, es, st) (b', es, st)"
| finish: "bson_append_bson_end b c = Ok (True, b')
    \<Longrightarrow> build_step (c, sub, (b, es, K, t) # st) (b', es @ [(K, container t sub)], st)"

fun chain :: "bson_t \<Rightarrow> (bson_t \<times> bdoc \<times> bytes \<times> bson_type_t) list \<Rightarrow> bool" where
  "chain c [] = True"
| "chain c ((b, es, K, t) # st) \<longleftrightarrow> (\<exists>b0 c0. opens b0 b es K t c0 \<and> grown c0 c \<and> chain b0 st)"

lemma chain_mono: "chain c st \<Longrightarrow> grown c c' \<Longrightarrow> chain c' st"
  by (cases "(c, st)" rule: chain.cases) (auto, metis grown_trans)

definition state_ok :: "build_state \<Rightarrow> bool" where
  "state_ok s \<longleftrightarrow> (case s of (b, es, st) \<Rightarrow> building b es \<and> chain b st)"

lemma appended_cases:
  assumes "appended b es fs (Ok (ok, b'))" "building b es"
  shows "building b' (es @ (if ok then fs else []))" "grown b b'"
  using assms by (auto simp: appended_def split: if_splits)

lemma build_step_ok: "build_step s s' \<Longrightarrow> state_ok s \<Longrightarrow> state_ok s'"
proof (induction rule: build_step.induct)
  case (append val x k kl K b ok b' es st)
  then have b: "building b es" "chain b st" by (auto simp: state_ok_def)
  have "appended b es [(K, x)] (Ok (ok, b'))"
    using app_value.appends [OF b(1) append(1-4)] append(5) by simp
  from appended_cases [OF this b(1)] b(2) show ?case by (auto simp: state_ok_def intro: chain_mono)
next
  case (start k kl K t b b' c es st)
  then have b: "building b es" "chain b st" by (auto simp: state_ok_def)
  from bson_begin_outcome [OF b(1) start(1-4)] start(5) b(2) show ?case
    by (auto simp: state_ok_def split: if_splits intro: grown_refl)
next
  case (refuse k kl K t b b' es st)
  then have b: "building b es" "chain b st" by (auto simp: state_ok_def)
  from bson_begin_outcome [OF b(1) refuse(1-4)] refuse(5) b(2) show ?case
    by (auto simp: state_ok_def split: if_splits intro: chain_mono)
next
  case (finish b c b' sub es K t st)
  then obtain b0 c0 where s: "building c sub" "opens b0 b es K t c0" "grown c0 c" "chain b0 st"
    by (auto simp: state_ok_def)
  then obtain b1 where "bson_append_bson_end b c = Ok (True, b1)"
    "building b1 (es @ [(K, container t sub)])" "grown b0 b1"
    unfolding opens_def by blast
  with finish(1) have "building b' (es @ [(K, container t sub)])" "grown b0 b'" by auto
  with s(4) show ?case by (auto simp: state_ok_def intro: chain_mono)
qed

lemma build_steps_ok: "build_step\<^sup>*\<^sup>* s s' \<Longrightarrow> state_ok s \<Longrightarrow> state_ok s'"
  by (induction rule: rtranclp_induct) (auto intro: build_step_ok)

section \<open>Properties\<close>

text \<open>
  C19: any sequence of appends, \<open>begin\<close> and \<open>end\<close> calls on a handle, nested to any depth, failed calls
  included, that has closed all its children leaves the handle holding exactly the document that
  the successful calls describe, appended to what it held before; bytes before the document are
  untouched.
\<close>

theorem build_sequence_correct:
  assumes "building b0 es0" "build_step\<^sup>*\<^sup>* (b0, es0, []) (b, es, [])"
  shows "holds_doc b es \<and> bson_bytes b = encode_doc es \<and> builder b"
  using build_steps_ok [OF assms(2)] assms(1) building_iff [of b es] by (auto simp: state_ok_def building_def)

text \<open>A handle with an embedded document, built step by step on the initial inline buffer.\<close>

definition build_example :: "(bson_t \<times> bson_t \<times> bson_t \<times> bson_t) option" where
  "build_example =
     (case bson_append_document_begin bson_new (Some [0x61, 0]) (-1) of
        Inr (True, b, Some c) \<Rightarrow>
          (case bson_append_value c (Some [0x62, 0]) (-1) (value_int32 7) of
             Inr (True, c') \<Rightarrow>
               (case bson_append_document_end b c' of Inr (True, b') \<Rightarrow> Some (b, c, c', b') | _ \<Rightarrow> None)
           | _ \<Rightarrow> None)
      | _ \<Rightarrow> None)"

lemma building_new: "building bson_new []"
  by (simp add: building_iff builder_def bson_new_def bson_init_def bson_bytes_def bson_data_def
      empty_data_def encode_empty)

theorem build_sequence_correct_witness:
  "\<exists>b. build_step\<^sup>*\<^sup>* (bson_new, [], []) (b, [([0x61], BDocument [([0x62], BInt32 7)])], [])
     \<and> holds_doc b [([0x61], BDocument [([0x62], BInt32 7)])]"
proof -
  have "build_example \<noteq> None" by code_simp
  then obtain b c c' b' where x:
    "bson_append_bson_begin bson_new (Some [0x61, 0]) (-1) BSON_TYPE_DOCUMENT = Ok (True, b, Some c)"
    "bson_append_value c (Some [0x62, 0]) (-1) (value_int32 7) = Ok (True, c')"
    "bson_append_bson_end b c' = Ok (True, b')"
    by (auto simp: build_example_def bson_append_document_begin_def bson_append_document_end_def
        split: sum.splits prod.splits bool.splits option.splits)
  have k: "str_arg [0x61, 0] (-1) [0x61]" "str_arg [0x62, 0] (-1) [0x62]"
    by (simp_all add: str_arg_def c_string_def)
  have v: "value_means (value_int32 7) (BInt32 7)"
    unfolding value_means_def by (intro exI [of _ "BInt32 7"]) simp
  have "build_step (bson_new, [], []) (c, [], [(b, [], [0x61], BSON_TYPE_DOCUMENT)])"
    using x(1) by (intro build_step.start [OF k(1)]) auto
  moreover have "build_step (c, [], [(b, [], [0x61], BSON_TYPE_DOCUMENT)])
      (c', [([0x62], BInt32 7)], [(b, [], [0x61], BSON_TYPE_DOCUMENT)])"
    using build_step.append [OF v k(2) _ _ x(2), of "[]"] by (simp add: length_enc_elem)
  moreover have "build_step (c', [([0x62], BInt32 7)], [(b, [], [0x61], BSON_TYPE_DOCUMENT)])
      (b', [([0x61], BDocument [([0x62], BInt32 7)])], [])"
    using build_step.finish [OF x(3), of "[([0x62], BInt32 7)]" "[]" "[0x61]" BSON_TYPE_DOCUMENT "[]"]
    by (simp add: container_def)
  ultimately have s: "build_step\<^sup>*\<^sup>* (bson_new, [], []) (b', [([0x61], BDocument [([0x62], BInt32 7)])], [])"
    by (meson converse_rtranclp_into_rtranclp rtranclp.rtrancl_refl)
  with build_sequence_correct [OF building_new s] show ?thesis by blast
qed

lemma suspended_locked: "chain c st \<Longrightarrow> (b, es, K, t) \<in> set st \<Longrightarrow> BSON_FLAG_IN_CHILD \<in> b_flags b"
  by (induction c st rule: chain.induct) (auto simp: opens_def)

lemma locked_refuses:
  assumes "writes r b bs" "BSON_FLAG_IN_CHILD \<in> b_flags b"
  shows "r = Fault Assertion_Failed \<or> r = Ok (False, b)"
    "b_len b + length bs \<le> INT32_MAX \<Longrightarrow> r = Fault Assertion_Failed"
proof -
  obtain ps where r: "r = bson_append b (length bs) ps" using assms(1) by (auto simp: writes_def)
  show "r = Fault Assertion_Failed \<or> r = Ok (False, b)"
    unfolding r using assms(2) by (auto simp: bson_append_def bson_append_va_def)
  assume "b_len b + length bs \<le> INT32_MAX"
  moreover from this have "(BSON_MAX_SIZE + 2 ^ 64 - b_len b) mod 2 ^ 64 = BSON_MAX_SIZE - b_len b"
    using mod_add_self2 [of "BSON_MAX_SIZE - b_len b" "2 ^ 64"] by simp
  ultimately show "r = Fault Assertion_Failed"
    unfolding r using assms(2) by (auto simp: bson_append_def bson_append_va_def)
qed

text \<open>
  C35: in every state that such calls reach, no call on the handle in use faults: an append of a
  well-formed value or a \<open>begin\<close>, under a key without NUL, reports success or lack of room, and \<open>end\<close>
  on the innermost open pair succeeds. Every suspended ancestor, at whatever depth, is locked:
  \<open>begin\<close> on it stops the program at the assertion on \<open>BSON_FLAG_IN_CHILD\<close>, and so does an append,
  unless the element would make the document longer than \<open>BSON_MAX_SIZE\<close>, which is refused before
  the assertion is reached; in no case is the ancestor changed.
\<close>

theorem build_calls_safe:
  assumes "building b0 es0" "build_step\<^sup>*\<^sup>* (b0, es0, []) (c, sub, st)"
    "str_arg k kl K" "0 \<notin> set K" "value_means val x" "length (enc_elem K x) \<le> INT32_MAX"
    "t \<in> {BSON_TYPE_DOCUMENT, BSON_TYPE_ARRAY}" "length K + 7 \<le> INT32_MAX"
  shows "bson_append_value c (Some k) kl val \<noteq> Fault e
    \<and> bson_append_bson_begin c (Some k) kl t \<noteq> Fault e
    \<and> (\<forall>b es K' t' st'. st = (b, es, K', t') # st' \<longrightarrow>
         (\<exists>b'. bson_append_bson_end b c = Ok (True, b')))
    \<and> (\<forall>(b, es, K', t') \<in> set st.
         bson_append_bson_begin b (Some k) kl t = Fault Assertion_Failed
         \<and> bson_append_value b (Some k) kl val \<in> {Fault Assertion_Failed, Ok (False, b)}
         \<and> (b_len b + length (enc_elem K x) \<le> INT32_MAX
              \<longrightarrow> bson_append_value b (Some k) kl val = Fault Assertion_Failed))"
proof -
  have ok: "building c sub" "chain c st"
    using build_steps_ok [OF assms(2)] assms(1) by (auto simp: state_ok_def)
  have "appended c sub [(K, x)] (bson_append_value c (Some k) kl val)"
    by (rule app_value.appends [OF ok(1) assms(5,3,4,6)])
  then have "bson_append_value c (Some k) kl val \<noteq> Fault e" by (auto simp: appended_def split: if_splits)
  moreover have "bson_append_bson_begin c (Some k) kl t \<noteq> Fault e"
    using bson_begin_outcome [OF ok(1) assms(3,4,7,8)] by (auto split: if_splits)
  moreover have "\<exists>b'. bson_append_bson_end b c = Ok (True, b')"
    if st: "st = (b, es, K', t') # st'" for b es K' t' st'
    using ok st by (auto simp: opens_def)
  moreover have "bson_append_bson_begin b (Some k) kl t = Fault Assertion_Failed"
    "bson_append_value b (Some k) kl val \<in> {Fault Assertion_Failed, Ok (False, b)}"
    "b_len b + length (enc_elem K x) \<le> INT32_MAX
       \<Longrightarrow> bson_append_value b (Some k) kl val = Fault Assertion_Failed"
    if "(b, es, K', t') \<in> set st" for b es K' t'
    using suspended_locked [OF ok(2) that]
      locked_refuses [OF app_value.primitive [OF assms(5,3,6)] suspended_locked [OF ok(2) that]]
    by (auto simp: bson_append_bson_begin_def)
  ultimately show ?thesis by blast
qed

theorem build_calls_safe_witness:
  "\<exists>b c. bson_append_bson_begin bson_new (Some [0x61, 0]) (-1) BSON_TYPE_DOCUMENT = Ok (True, b, Some c)
     \<and> bson_append_value c (Some [0x61, 0]) (-1) value_null \<noteq> Fault Out_Of_Bounds
     \<and> (\<exists>b'. bson_append_bson_end b c = Ok (True, b'))
     \<and> bson_append_value b (Some [0x61, 0]) (-1) value_null = Fault Assertion_Failed"
proof -
  have "map_sum id (map_prod id (map_prod b_len (\<lambda>c. c \<noteq> None)))
      (bson_append_bson_begin bson_new (Some [0x61, 0]) (-1) BSON_TYPE_DOCUMENT) = Ok (True, 13, True)"
    by code_simp
  then obtain b c where x:
    "bson_append_bson_begin bson_new (Some [0x61, 0]) (-1) BSON_TYPE_DOCUMENT = Ok (True, b, Some c)"
    "b_len b = 13"
    by (cases "bson_append_bson_begin bson_new (Some [0x61, 0]) (-1) BSON_TYPE_DOCUMENT") auto
  have k: "str_arg [0x61, 0] (-1) [0x61]" by (simp add: str_arg_def c_string_def)
  have v: "value_means value_null BNull" unfolding value_means_def by (intro exI [of _ BNull]) simp
  have "build_step\<^sup>*\<^sup>* (bson_new, [], []) (c, [], [(b, [], [0x61], BSON_TYPE_DOCUMENT)])"
    using x(1) by (intro r_into_rtranclp build_step.start [OF k]) auto
  from build_calls_safe [OF building_new this k _ v, of BSON_TYPE_ARRAY Out_Of_Bounds] x show ?thesis
    by (simp add: length_enc_elem)
qed

end
