(* ===== verification/Bson_Copy.thy ===== *)
theory Bson_Copy
  imports Bson_Append
begin

text \<open>
  Copying in \<open>bson.c\<close>: an element from an iterator, a whole document, a document without some of
  its keys, concatenation and comparison of documents.
\<close>

section \<open>The functions\<close>

definition bson_append_iter ::
    "bson_t \<Rightarrow> view option \<Rightarrow> int \<Rightarrow> bson_iter_t \<Rightarrow> (bool \<times> bson_t) result" where
  "bson_append_iter b key key_length it =
     rbind (case key of
              None \<Rightarrow> rbind (bson_iter_key it) (\<lambda>k. Ok (Some k, -1))
            | Some k \<Rightarrow> Ok (Some k, key_length)) (\<lambda>(key, kl).
     rbind (bson_iter_type_unsafe it) (\<lambda>t.
       case t of
         BSON_TYPE_DOUBLE \<Rightarrow> rbind (bson_iter_double it) (bson_append_double b key kl)
       | BSON_TYPE_UTF8 \<Rightarrow>
           rbind (bson_iter_utf8 it) (\<lambda>(str, len). bson_append_utf8 b key kl str (as_int32 len))
       | BSON_TYPE_DOCUMENT \<Rightarrow>
           rbind (bson_iter_document it) (\<lambda>(len, buf). append_static (bson_append_document b key kl) b buf len)
       | BSON_TYPE_ARRAY \<Rightarrow>
           rbind (bson_iter_array it) (\<lambda>(len, buf). append_static (bson_append_array b key kl) b buf len)
       | BSON_TYPE_BINARY \<Rightarrow>
           rbind (bson_iter_binary it) (\<lambda>(subtype, len, binary).
             bson_append_binary b key kl subtype binary len)
       | BSON_TYPE_UNDEFINED \<Rightarrow> bson_append_undefined b key kl
       | BSON_TYPE_OID \<Rightarrow> rbind (bson_iter_oid it) (bson_append_oid b key kl)
       | BSON_TYPE_BOOL \<Rightarrow> rbind (bson_iter_bool it) (bson_append_bool b key kl)
       | BSON_TYPE_DATE_TIME \<Rightarrow> rbind (bson_iter_date_time it) (bson_append_date_time b key kl)
       | BSON_TYPE_NULL \<Rightarrow> bson_append_null b key kl
       | BSON_TYPE_REGEX \<Rightarrow>
           rbind (bson_iter_regex it) (\<lambda>(regex, options). bson_append_regex b key kl regex options)
       | BSON_TYPE_DBPOINTER \<Rightarrow>
           rbind (bson_iter_dbpointer it 0) (\<lambda>(_, collection, oid).
             bson_append_dbpointer b key kl collection oid)
       | BSON_TYPE_CODE \<Rightarrow> rbind (bson_iter_code it) (\<lambda>(code, _). bson_append_code b key kl code)
       | BSON_TYPE_SYMBOL \<Rightarrow>
           rbind (bson_iter_symbol it) (\<lambda>(symbol, len). bson_append_symbol b key kl symbol (as_int32 len))
       | BSON_TYPE_CODEWSCOPE \<Rightarrow>
           rbind (bson_iter_codewscope it) (\<lambda>(javascript, _, scope_len, scope).
             append_static (\<lambda>doc. bson_append_code_with_scope b key kl javascript (Some doc)) b scope scope_len)
       | BSON_TYPE_INT32 \<Rightarrow> rbind (bson_iter_int32 it) (bson_append_int32 b key kl)
       | BSON_TYPE_TIMESTAMP \<Rightarrow>
           rbind (bson_iter_timestamp it) (\<lambda>(ts, inc). bson_append_timestamp b key kl ts inc)
       | BSON_TYPE_INT64 \<Rightarrow> rbind (bson_iter_int64 it) (bson_append_int64 b key kl)
       | BSON_TYPE_MAXKEY \<Rightarrow> bson_append_maxkey b key kl
       | BSON_TYPE_MINKEY \<Rightarrow> bson_append_minkey b key kl
       | _ \<Rightarrow> Ok (False, b)))"

text \<open>The list of names to leave out is not empty; its end is the terminating NULL argument.\<close>

fun should_ignore :: "view list \<Rightarrow> view \<Rightarrow> bool result" where
  "should_ignore [] name = Ok False"
| "should_ignore (exclude # rest) name =
     rbind (c_strcmp_eq name exclude) (\<lambda>eq. if eq then Ok True else should_ignore rest name)"

text \<open>
  The loop over the fields. An iteration consumes at least one byte of the source, whose length is
  the fuel, so \<open>No_Termination\<close> is not reached.
\<close>

fun copy_fields :: "nat \<Rightarrow> view list \<Rightarrow> bson_iter_t \<Rightarrow> bson_t \<Rightarrow> bson_t result" where
  "copy_fields 0 excludes it dst = Fault No_Termination"
| "copy_fields (Suc fuel) excludes it dst =
     rbind (bson_iter_next it) (\<lambda>(more, it).
       if \<not> more then Ok dst
       else rbind (bson_iter_key it) (\<lambda>key. rbind (should_ignore excludes key) (\<lambda>ignore.
         if ignore then copy_fields fuel excludes it dst
         else rbind (bson_append_iter dst None 0 it) (\<lambda>(ok, dst).
           if \<not> ok then Fault Assertion_Failed else copy_fields fuel excludes it dst))))"

definition bson_copy_to_excluding_va :: "bson_t \<Rightarrow> view list \<Rightarrow> bson_t result" where
  "bson_copy_to_excluding_va src excludes =
     (let (ok, it) = bson_iter_init src in
      if ok then copy_fields (Suc (b_len src)) excludes it bson_init else Ok bson_init)"

definition bson_copy_to_excluding :: "bson_t \<Rightarrow> view list \<Rightarrow> bson_t result" where
  "bson_copy_to_excluding src excludes = bson_copy_to_excluding_va src excludes"

section \<open>Copying one element\<close>

lemma bson_iter_type_unsafe_on_elem: "on_elem k x it \<Longrightarrow> bson_iter_type_unsafe it = Ok (val_type x)"
proof -
  assume e: "on_elem k x it"
  then obtain v where v: "on_field it" "i_raw it = Some v" "field_type it = val_type x"
      "i_off it + length (enc_elem k x) < i_len it" by (rule on_elemE)
  from bson_iter_type_on_field [OF v(1)] v show ?thesis by (simp add: bson_iter_type_def)
qed

lemma bson_append_iter_value:
  assumes "on_elem k x it" "\<nexists>d. x = BOid d" "\<nexists>c d. x = BDBPointer c d"
  shows "bson_append_iter b (Some key) kl it
    = rbind (bson_iter_value it) (\<lambda>v. bson_append_value b (Some key) kl (the v))"
  using assms ITER_TYPE_on_elem [OF assms(1)]
  by (cases x) (simp_all add: bson_append_iter_def bson_iter_value_def bson_iter_type_unsafe_on_elem [OF assms(1)]
      bson_append_value_def rbind_assoc split_beta')

lemma bson_append_iter_primitive:
  assumes "on_elem k0 x it" "str_arg k kl K" "length (enc_elem K (copied x)) \<le> INT32_MAX"
  shows "writes (bson_append_iter b (Some k) kl it) b (enc_elem K (copied x))"
proof -
  have wf: "wf_value x" using assms(1) by (simp add: on_elem_def)
  note ty = bson_iter_type_unsafe_on_elem [OF assms(1)]
  consider (oid) d where "x = BOid d" | (ptr) c d where "x = BDBPointer c d"
    | (other) "\<nexists>d. x = BOid d" "\<nexists>c d. x = BDBPointer c d" by blast
  then show ?thesis
  proof cases
    case oid
    then obtain v where "bson_iter_oid it = Ok (Some v)" "take 12 v = d" "12 \<le> length v"
      using oid_on_elem [of k0 d it] assms(1) wf by (auto simp: points_to_def)
    then show ?thesis using app_oid.primitive [of v x k kl K b] assms(2,3) oid ty
      by (simp add: bson_append_iter_def oid_means_def)
  next
    case ptr
    then obtain v w where "bson_iter_dbpointer it 0 = Ok (length c, Some v, Some w)"
        "points_to (Some v) (c @ [0])" "take 12 w = d" "12 \<le> length w"
      using dbpointer_on_elem [of k0 c d it 0] assms(1) wf by (auto simp: points_to_def)
    then show ?thesis
      using app_dbpointer.primitive [of "(v, w)" "copied x" k kl K b] assms(2,3) ptr ty c_string_points_to
      by (simp add: bson_append_iter_def dbpointer_means_def)
  next
    case other
    obtain val where "bson_iter_value it = Ok (Some val)" "value_holds val x"
      using bson_iter_value_on_elem [OF assms(1)] by blast
    then show ?thesis
      using bson_append_iter_value [OF assms(1) other] bson_append_value_primitive [OF _ wf assms(2,3)]
      by simp
  qed
qed

lemma on_elem_wf: "on_elem k x it \<Longrightarrow> wf_value x"
  by (simp add: on_elem_def)

interpretation app_iter:
  appender "\<lambda>it b key kl. if key = None then Ok (False, b) else bson_append_iter b key kl it"
    "\<lambda>it y. \<exists>k x. on_elem k x it \<and> y = copied x"
  by unfold_locales (auto simp: copied_wf dest: on_elem_wf intro: bson_append_iter_primitive)

text \<open>Without a key the element keeps its own.\<close>

lemma bson_append_iter_own_key:
  assumes "building b es" "on_elem k x it" "length (enc_elem k (copied x)) \<le> INT32_MAX"
  shows "appended b es [(k, copied x)] (bson_append_iter b None kl it)"
proof -
  have k: "0 \<notin> set k" "length k \<le> INT32_MAX" using assms(2,3) by (auto simp: on_elem_def length_enc_elem)
  obtain t where t: "bson_iter_key it = Ok (k @ 0 # t)" using on_elem_key [OF assms(2)] by blast
  then have "bson_append_iter b None kl it = bson_append_iter b (Some (k @ 0 # t)) (-1) it"
    by (simp add: bson_append_iter_def)
  moreover have "str_arg (k @ 0 # t) (-1) k" using k by (simp add: str_arg_def view_simps)
  ultimately show ?thesis
    using app_iter.appends [OF assms(1) _ _ k(1) assms(3), of it "k @ 0 # t" "-1"] assms(2) by auto
qed

section \<open>Copying without some keys\<close>

lemma should_ignore_keys:
  assumes "0 \<notin> set k" "\<forall>x \<in> set xs. 0 \<notin> set x"
  shows "should_ignore (map (\<lambda>x. x @ [0]) xs) (k @ 0 # t) = Ok (k \<in> set xs)"
  using assms(2)
proof (induction xs)
  case (Cons x xs)
  then show ?case using c_strcmp_eq_keys [of k x t "[]"] assms(1) by auto
qed simp

definition copy_doc :: "bytes list \<Rightarrow> bdoc \<Rightarrow> bdoc" where
  "copy_doc xs es = map (\<lambda>(k, x). (k, copied x)) (filter (\<lambda>(k, x). k \<notin> set xs) es)"

lemma copy_doc_simps [simp]:
  "copy_doc xs [] = []"
  "copy_doc xs ((k, x) # es) = (if k \<in> set xs then copy_doc xs es else (k, copied x) # copy_doc xs es)"
  by (simp_all add: copy_doc_def)

text \<open>The copy of a value is never longer than the value.\<close>

lemma length_until_nul: "length (until_nul s) \<le> length s"
  by (simp add: until_nul_def length_takeWhile_le)

lemma enc_value_copied: "length (enc_value (copied x)) \<le> length (enc_value x)"
proof (cases x rule: copied.cases)
  case (1 s)
  then show ?thesis using length_until_nul [of s] by simp
next
  case (2 c d)
  then show ?thesis using length_until_nul [of c] by simp
next
  case (3 s es)
  then show ?thesis using length_until_nul [of s] by (simp add: scoped_code_def)
qed auto

lemma length_copy_doc: "length (enc_elems (copy_doc xs es)) \<le> length (enc_elems es)"
proof (induction es)
  case (Cons e es)
  obtain k x where "e = (k, x)" by fastforce
  with Cons enc_value_copied [of x] show ?case by simp
qed simp

text \<open>A root handle on growable memory takes everything up to a gibibyte.\<close>

definition roomy :: "bson_t \<Rightarrow> bool" where
  "roomy b \<longleftrightarrow> growable b \<and> b_offset b = 0 \<and> b_depth b = 0"

lemma roomy_fits: "roomy b \<Longrightarrow> b_len b + n \<le> 2 ^ 30 \<Longrightarrow> fits b n"
  by (simp add: roomy_def fits_def room_def)

lemma roomy_grown: "roomy b \<Longrightarrow> grown b b' \<Longrightarrow> roomy b'"
  by (simp add: roomy_def grown_def)

text \<open>Appending to a roomy handle.\<close>

context appender
begin

lemma appends_roomy:
  assumes "building b es" "roomy b" "means a x" "str_arg k kl K" "0 \<notin> set K" "b_len b + length (enc_elem K x) \<le> 2 ^ 30"
  shows "\<exists>b'. op a b (Some k) kl = Ok (True, b') \<and> building b' (es @ [(K, x)]) \<and> grown b b' \<and> roomy b'
     \<and> b_len b' = b_len b + length (enc_elem K x)"
proof -
  have "fits b (length (enc_elem K x))" using roomy_fits [OF assms(2,6)] .
  moreover have "length (enc_elem K x) \<le> INT32_MAX" using assms(6) by simp
  ultimately show ?thesis
    using appends [OF assms(1,3,4,5)] roomy_grown [OF assms(2)] by (auto simp: appended_def enc_elem_def)
qed

end

lemma copy_fields_ok:
  assumes "iter_upto es n it" "length es - n < fuel" "building dst ds" "roomy dst"
    "\<forall>x \<in> set xs. 0 \<notin> set x"
    "b_len dst + length (enc_elems (copy_doc xs (drop n es))) \<le> 2 ^ 30"
  shows "\<exists>dst'. copy_fields fuel (map (\<lambda>x. x @ [0]) xs) it dst = Ok dst'
     \<and> building dst' (ds @ copy_doc xs (drop n es)) \<and> grown dst dst'"
  using assms
proof (induction fuel arbitrary: n it dst ds)
  case (Suc fuel)
  show ?case
  proof (cases "n < length es")
    case True
    obtain k x where kx: "es ! n = (k, x)" by fastforce
    obtain it' where s: "bson_iter_next it = Ok (True, it')" "iter_upto es (Suc n) it'" "on_elem k x it'"
      using iter_upto_next [OF Suc.prems(1) True] kx by (metis fst_conv snd_conv)
    obtain t where key: "bson_iter_key it' = Ok (k @ 0 # t)" using on_elem_key [OF s(3)] by blast
    have nz: "0 \<notin> set k" using s(3) by (simp add: on_elem_def)
    have dr: "drop n es = (k, x) # drop (Suc n) es" using True kx by (metis Cons_nth_drop_Suc)
    have fuel: "length es - Suc n < fuel" using Suc.prems(2) True by simp
    show ?thesis
    proof (cases "k \<in> set xs")
      case True
      with Suc.IH [OF s(2) fuel Suc.prems(3-5)] Suc.prems(6) s(1) key dr show ?thesis
        by (simp add: should_ignore_keys [OF nz Suc.prems(5)])
    next
      case False
      have l: "b_len dst + length (enc_elem k (copied x)) + length (enc_elems (copy_doc xs (drop (Suc n) es))) \<le> 2 ^ 30"
        using Suc.prems(6) False dr by (simp add: length_enc_elem)
      then have "fits dst (length (enc_elems [(k, copied x)]))"
        using roomy_fits [OF Suc.prems(4)] by (simp add: enc_elem_def)
      moreover have "length (enc_elem k (copied x)) \<le> INT32_MAX" using l by simp
      ultimately obtain dst' where d: "bson_append_iter dst None 0 it' = Ok (True, dst')"
        "building dst' (ds @ [(k, copied x)])" "grown dst dst'" "b_len dst' = b_len dst + length (enc_elem k (copied x))"
        using bson_append_iter_own_key [OF Suc.prems(3) s(3), of 0] by (auto simp: appended_def enc_elem_def)
      have "b_len dst' + length (enc_elems (copy_doc xs (drop (Suc n) es))) \<le> 2 ^ 30" using l d(4) by simp
      from Suc.IH [OF s(2) fuel d(2) roomy_grown [OF Suc.prems(4) d(3)] Suc.prems(5) this] grown_trans [OF d(3)]
      show ?thesis using s(1) key d(1) dr False
        by (fastforce simp: should_ignore_keys [OF nz Suc.prems(5)])
    qed
  next
    case False
    with Suc.prems(1) have n: "n = length es" by (simp add: iter_upto_def)
    obtain it' where "bson_iter_next it = Ok (False, it')"
      using iter_upto_end Suc.prems(1) unfolding n by blast
    then show ?thesis using Suc.prems(3) by (simp add: n)
  qed
qed simp

section \<open>Whole documents\<close>

lemma building_init: "building bson_init []"
proof -
  have "encode_doc [] = empty_data" by code_simp
  then show ?thesis
    by (simp add: building_iff builder_def bson_init_def bson_bytes_def bson_data_def empty_data_def)
qed

lemma roomy_init: "roomy bson_init"
  by (simp add: roomy_def growable_def bson_init_def)

lemma encode_doc_head:
  assumes "length (enc_elems es) + 5 \<le> INT32_MAX"
  shows "rd32 (encode_doc es @ t) 0 = Ok (length (enc_elems es) + 5)"
    "rd8 (encode_doc es @ t) (4 + length (enc_elems es)) = Ok 0"
  using assms
  by (simp_all add: rd32_def rdn_def rd8_def encode_doc_def frame_def le_nat_le_bytes nth_append)

lemma put_data_start:
  assumes "b_offset b = 0" "length bs \<le> length (b_buf b)"
  shows "put_data b 0 bs = Ok (b\<lparr>b_buf := bs @ drop (length bs) (b_buf b)\<rparr>)"
  using assms by (simp add: put_data_def splice_def)

lemma bson_copy_ok:
  assumes "holds_doc b es"
  shows "\<exists>c. bson_copy b = Ok (Some c) \<and> building c es \<and> roomy c"
proof -
  let ?n = "length (enc_elems es) + 5"
  obtain t where t: "bson_data b = encode_doc es @ t" "b_len b = ?n" "?n \<le> INT32_MAX" "wf_elems es"
    using assms by (auto simp: holds_doc_def points_to_def wf_doc_def)
  have rd: "rdn ?n (encode_doc es @ t) 0 = Ok (encode_doc es)" by (simp add: rdn_def)
  have "bson_sized_new ?n \<noteq> None" using t(3) by (simp add: bson_sized_new_def)
  then obtain c0 where s: "bson_sized_new ?n = Some c0" by blast
  have c0: "b_offset c0 = 0" "b_depth c0 = 0" "?n \<le> length (b_buf c0)" "length (b_buf c0) \<le> INT32_MAX"
    "b_flags c0 = (if ?n \<le> 120 then {BSON_FLAG_INLINE} else {})" "growable c0"
    "?n \<le> 120 \<Longrightarrow> length (b_buf c0) = 120"
    using t(3) s by (auto simp: bson_sized_new_def bson_init_def empty_data_def growable_def split: if_splits)
  let ?c = "c0\<lparr>b_buf := encode_doc es @ drop ?n (b_buf c0), b_len := ?n\<rparr>"
  have "bson_copy b = Ok (Some ?c)"
    using t s rd encode_doc_head [OF t(3), of t] put_data_start [OF c0(1), of "encode_doc es"] c0(3)
    by (simp add: bson_copy_def bson_new_from_data_def)
  moreover have "builder ?c" using c0 t(3) by (auto simp: builder_def)
  moreover have "bson_bytes ?c = encode_doc es" using c0(1) by (simp add: bson_bytes_def bson_data_def)
  ultimately show ?thesis
    using t(4) c0(1,2,6) by (auto simp: building_iff roomy_def growable_def)
qed

lemma memcmp_zero: "length as = length bs \<Longrightarrow> memcmp as bs = 0 \<longleftrightarrow> as = bs"
  by (induction as bs rule: list_induct2) (auto simp: word_uint_eq_iff)

lemma bson_equal_ok:
  assumes "holds_doc b es" "holds_doc c fs"
  shows "bson_equal b c = Ok (encode_doc es = encode_doc fs)"
proof -
  let ?m = "length (enc_elems es)" and ?n = "length (enc_elems fs)"
  obtain t u where b: "bson_data b = encode_doc es @ t" "b_len b = ?m + 5" "?m + 5 \<le> INT32_MAX"
    and c: "bson_data c = encode_doc fs @ u" "b_len c = ?n + 5" "?n + 5 \<le> INT32_MAX"
    using assms by (auto simp: holds_doc_def points_to_def wf_doc_def)
  have len: "sub32 (b_len b) 4 = ?m + 1" "sub32 (b_len c) 4 = ?n + 1"
    using b c by (simp_all add: sub32_diff)
  define p where "p = min (?m + 1) (?n + 1)"
  define d1 d2 where "d1 = take p (enc_elems es @ [0])" and "d2 = take p (enc_elems fs @ [0])"
  have ld: "length d1 = length d2" by (simp add: d1_def d2_def p_def)
  have tk: "take p (xs @ 0 # v) = take p (xs @ [0])" if "p \<le> Suc (length xs)" for xs v :: bytes
    using that take_append [of p "xs @ [0]" v] by simp
  have "rdn p (bson_data b) 4 = Ok d1" "rdn p (bson_data c) 4 = Ok d2"
    using b(1) c(1) tk [of "enc_elems es" t] tk [of "enc_elems fs" u]
    by (auto simp: rdn_def encode_doc_def frame_def d1_def d2_def) (auto simp: p_def)
  then have cmp: "bson_compare b c = (if ?m = ?n then Ok (memcmp d1 d2)
      else if memcmp d1 d2 = 0 then Ok (as_int32 (sub32 (?m + 1) (?n + 1))) else Ok (memcmp d1 d2))"
    by (simp add: bson_compare_def Let_def len p_def)
  show ?thesis
  proof (cases "?m = ?n")
    case True
    then have "d1 = enc_elems es @ [0]" "d2 = enc_elems fs @ [0]" by (simp_all add: d1_def d2_def p_def)
    with True show ?thesis
      by (simp add: bson_equal_def cmp memcmp_zero encode_doc_def frame_def)
  next
    case False
    then have "length (encode_doc es) \<noteq> length (encode_doc fs)" by simp
    then have "encode_doc es \<noteq> encode_doc fs" by metis
    moreover have "as_int32 (sub32 (?m + 1) (?n + 1)) \<noteq> 0"
      using False b(3) c(3) by (auto simp: as_int32_def sub32_def w32_def Let_def mod_if)
    ultimately show ?thesis using False by (simp add: bson_equal_def cmp)
  qed
qed

lemma bson_concat_ok:
  assumes "building dst es" "holds_doc src fs" "fs \<noteq> []"
  shows "appended dst es fs (bson_concat dst src)"
proof -
  let ?n = "length (enc_elems fs)"
  obtain t where t: "bson_data src = encode_doc fs @ t" "b_len src = ?n + 5" "?n + 5 \<le> INT32_MAX" "wf_elems fs"
    using assms(2) by (auto simp: holds_doc_def points_to_def wf_doc_def)
  have e: "bson_empty src = Ok False" using bson_empty_holds_doc [OF assms(2)] assms(3) by simp
  have l: "sub32 (b_len src) 5 = ?n" using t by (simp add: sub32_diff)
  have pos: "0 < ?n" using assms(3) by (cases fs) auto
  have "bson_concat dst src = bson_append dst ?n [(?n, Some (drop 4 (bson_data src)))]"
    using e l by (auto simp: bson_concat_def bson_empty_def rbind_Ok_iff split: if_splits)
  moreover have "take ?n (drop 4 (bson_data src)) = enc_elems fs"
    "?n \<le> length (drop 4 (bson_data src))"
    using t(1) by (simp_all add: encode_doc_def frame_def)
  ultimately show ?thesis
    using bson_append_elems [OF assms(1) t(4), of "[(?n, Some (drop 4 (bson_data src)))]" ?n] pos t(3)
    by simp
qed

section \<open>Properties\<close>

text \<open>
  C26: copying a document of up to a gibibyte without some of its keys yields the other elements, in
  order, each as it was except those that \<open>copied\<close> changes: the text of code, of code with scope and of
  a database pointer is cut at an embedded NUL, and a code with an empty scope becomes code without
  scope. The loop ends and its assertion never fails.
\<close>

theorem copy_to_excluding_correct:
  assumes "holds_doc src es" "\<forall>x \<in> set xs. 0 \<notin> set x" "b_len src \<le> 2 ^ 30"
  shows "\<exists>dst. bson_copy_to_excluding src (map (\<lambda>x. x @ [0]) xs) = Ok dst
     \<and> holds_doc dst (copy_doc xs es) \<and> builder dst"
proof -
  obtain it where it: "bson_iter_init src = (True, it)" "iter_upto es 0 it"
    using assms(1) by (rule iter_init_holds_doc)
  have "length es < Suc (b_len src)" "b_len src = length (enc_elems es) + 5"
    using assms(1) length_le_enc_elems [of es] by (auto simp: holds_doc_def)
  moreover have "b_len bson_init = 5" by (simp add: bson_init_def)
  ultimately show ?thesis
    using copy_fields_ok [OF it(2) _ building_init roomy_init assms(2), of "Suc (b_len src)"]
      length_copy_doc [of xs es] assms(3) it(1)
    by (auto simp: bson_copy_to_excluding_def bson_copy_to_excluding_va_def building_def)
qed

text \<open>A document of three elements behind a read-only handle.\<close>

definition sample_doc :: bdoc where
  "sample_doc = [([0x61], BInt32 7), ([0x62], BCode [0x78, 0, 0x79]), ([0x63], BNull)]"

definition sample_bson :: bson_t where
  "sample_bson = \<lparr>b_flags = {BSON_FLAG_RDONLY}, b_len = 26, b_buf = encode_doc sample_doc, b_offset = 0,
     b_depth = 0, b_realloc = False\<rparr>"

lemma holds_sample: "holds_doc sample_bson sample_doc"
proof -
  have "length (encode_doc sample_doc) = 26" by code_simp
  moreover have "wf_elems sample_doc" by (simp add: sample_doc_def)
  ultimately show ?thesis
    by (simp add: holds_doc_def wf_doc_def points_to_def sample_bson_def bson_data_def)
qed

theorem copy_to_excluding_correct_witness:
  "\<exists>dst. bson_copy_to_excluding sample_bson [[0x61, 0]] = Ok dst
     \<and> holds_doc dst [([0x62], BCode [0x78]), ([0x63], BNull)]"
proof -
  have "copy_doc [[0x61]] sample_doc = [([0x62], BCode [0x78]), ([0x63], BNull)]" by code_simp
  moreover have "b_len sample_bson \<le> 2 ^ 30" by (simp add: sample_bson_def)
  ultimately show ?thesis
    using copy_to_excluding_correct [OF holds_sample, of "[[0x61]]"] by auto
qed

text \<open>
  C36: copying a document and comparing: the copy is a new handle that can be appended to, it holds
  the same document, and \<open>bson_equal\<close> tells two documents apart exactly when their encodings differ.
\<close>

theorem copy_and_equal:
  assumes "holds_doc b es" "holds_doc c fs"
  shows "\<exists>b'. bson_copy b = Ok (Some b') \<and> holds_doc b' es \<and> builder b'
     \<and> bson_equal b' c = Ok (encode_doc es = encode_doc fs)"
  using bson_copy_ok [OF assms(1)] bson_equal_ok [OF _ assms(2)] by (auto simp: building_def)

theorem copy_and_equal_witness:
  "\<exists>b'. bson_copy sample_bson = Ok (Some b') \<and> holds_doc b' sample_doc \<and> bson_equal b' sample_bson = Ok True"
  using copy_and_equal [OF holds_sample holds_sample] by auto

text \<open>
  Concatenation appends all elements of the source, or, when they do not fit, none of them.
\<close>

theorem concat_correct:
  assumes "building dst es" "holds_doc src fs" "fs \<noteq> []"
  shows "if fits dst (length (enc_elems fs))
    then \<exists>dst'. bson_concat dst src = Ok (True, dst') \<and> holds_doc dst' (es @ fs) \<and> builder dst'
    else bson_concat dst src = Ok (False, dst)"
  using bson_concat_ok [OF assms] by (auto simp: appended_def building_def split: if_splits)

theorem concat_correct_witness:
  "\<exists>dst. bson_concat bson_init sample_bson = Ok (True, dst) \<and> holds_doc dst ([] @ sample_doc)"
proof -
  have "length (enc_elems sample_doc) = 21" by code_simp
  then have "fits bson_init (length (enc_elems sample_doc))" by (intro roomy_fits roomy_init) (simp add: bson_init_def)
  moreover have "sample_doc \<noteq> []" by (simp add: sample_doc_def)
  ultimately show ?thesis using concat_correct [OF building_init holds_sample] by auto
qed

text \<open>
  C37: the room a handle offers: on a root handle with its own growing buffer an append succeeds
  exactly when the document stays within its buffer or within 2^30 bytes. The limit is half of
  \<open>BSON_MAX_SIZE\<close>, because the next power of two must not exceed \<open>INT32_MAX\<close>.
\<close>

theorem append_room_limit:
  assumes "building b es" "growable b" "b_offset b = 0" "b_depth b = 0" "str_arg k kl K" "0 \<notin> set K"
    "value_holds val x" "wf_value x" "n = length (enc_elem K (copied x))" "n \<le> INT32_MAX"
    "length (b_buf b) \<le> 2 ^ 30"
  shows "\<exists>b'. bson_append_value b (Some k) kl val = Ok (b_len b + n \<le> 2 ^ 30, b')
     \<and> (b_len b + n \<le> 2 ^ 30 \<longrightarrow> holds_doc b' (es @ [(K, copied x)]))"
proof -
  have "value_means val (copied x)" using assms(7,8) by (auto simp: value_means_def)
  then have "appended b es [(K, copied x)] (bson_append_value b (Some k) kl val)"
    using app_value.appends [OF assms(1) _ assms(5,6)] assms(9,10) by simp
  moreover have "fits b n \<longleftrightarrow> b_len b + n \<le> 2 ^ 30"
    using assms(2-4,11) by (auto simp: fits_def room_def Let_def)
  moreover have "length (enc_elems [(K, copied x)]) = n" using assms(9) by (simp add: enc_elem_def)
  ultimately show ?thesis by (cases "fits b n") (auto simp: appended_def building_def)
qed

theorem append_room_limit_witness:
  "\<exists>b'. bson_append_value bson_init (Some [0x61, 0]) (-1) (value_int32 7) = Ok (True, b')
     \<and> holds_doc b' [([0x61], BInt32 7)]"
proof -
  have "str_arg [0x61, 0] (-1) [0x61]" by (simp add: str_arg_def c_string_def)
  moreover have "length (b_buf bson_init) \<le> 2 ^ 30" "b_offset bson_init = 0" "b_depth bson_init = 0"
      "growable bson_init" "b_len bson_init = 5"
    by (simp_all add: bson_init_def empty_data_def growable_def)
  ultimately show ?thesis
    using append_room_limit [OF building_init, of "[0x61, 0]" "-1" "[0x61]" "value_int32 7" "BInt32 7"]
    by (simp add: length_enc_elem)
qed

text \<open>
  C25: every kind of value that the iterator reads can be appended again: under any key given with
  its length or NUL-terminated, the append writes one element after the others, with the value
  \<open>copied x\<close>, or reports that it does not fit and leaves the handle as it was. That value is the one
  the iterator stands on, except that the text of code, of code with scope and of a database pointer
  is cut at an embedded NUL, and that a code with an empty scope becomes code without scope.
\<close>

theorem append_iter_correct:
  assumes "building b es" "on_elem k0 x it" "str_arg k kl K" "0 \<notin> set K"
    "length (enc_elem K (copied x)) \<le> INT32_MAX"
  shows "(if fits b (length (enc_elem K (copied x)))
     then \<exists>b'. bson_append_iter b (Some k) kl it = Ok (True, b')
            \<and> holds_doc b' (es @ [(K, copied x)]) \<and> builder b'
     else bson_append_iter b (Some k) kl it = Ok (False, b))
    \<and> (copied x = x \<longleftrightarrow> copied_exactly x)"
proof -
  have "appended b es [(K, copied x)] (bson_append_iter b (Some k) kl it)"
    using app_iter.appends [OF assms(1) _ assms(3-5), of it] assms(2) by auto
  then show ?thesis by (auto simp: copied_id_iff appended_def building_def enc_elem_def split: if_splits)
qed

theorem append_iter_correct_witness:
  "\<exists>it b'. bson_append_iter bson_init (Some [0x7A, 0]) (-1) it = Ok (True, b')
     \<and> holds_doc b' [([0x7A], BInt32 7)]"
proof -
  obtain it0 where it0: "bson_iter_init sample_bson = (True, it0)" "iter_upto sample_doc 0 it0"
    using holds_sample by (rule iter_init_holds_doc)
  obtain it where "on_elem [0x61] (BInt32 7) it"
    using iter_upto_next [OF it0(2)] by (auto simp: sample_doc_def)
  moreover have "str_arg [0x7A, 0] (-1) [0x7A]" by (simp add: str_arg_def c_string_def)
  moreover have "fits bson_init (length (enc_elem [0x7A] (BInt32 7)))"
    by (intro roomy_fits roomy_init) (simp add: bson_init_def length_enc_elem)
  ultimately show ?thesis
    using append_iter_correct [OF building_init, of "[0x61]" "BInt32 7" it "[0x7A, 0]" "-1" "[0x7A]"]
    by (auto simp: length_enc_elem)
qed

text \<open>
  \<open>bson_new_from_buffer\<close> does not compare the length stored in the buffer with the length of the
  buffer: when the stored length is larger, its test of the last byte reads outside the buffer.
\<close>

theorem new_from_buffer_overread:
  assumes "5 \<le> length buf" "length buf \<le> INT32_MAX" "length buf < le_nat (take 4 buf)"
  shows "bson_new_from_buffer (Some buf) (length buf) = Fault Out_Of_Bounds"
  using assms
  by (auto simp: bson_new_from_buffer_def Let_def rd32_def rdn_def rd8_def)

theorem new_from_buffer_overread_witness:
  "bson_new_from_buffer (Some [255, 0, 0, 0, 0]) 5 = Fault Out_Of_Bounds"
proof -
  have "le_nat (take 4 [255, 0, 0, 0, 0]) = 255" by code_simp
  then have "bson_new_from_buffer (Some [255, 0, 0, 0, 0]) (length [255, 0, 0, 0, 0 :: byte]) = Fault Out_Of_Bounds"
    by (intro new_from_buffer_overread) simp_all
  moreover have "length [255, 0, 0, 0, 0 :: byte] = 5" by simp
  ultimately show ?thesis by metis
qed

end
