(* ===== verification/Bson_Utf8.thy ===== *)
theory Bson_Utf8
  imports Prelude
begin

text \<open>
  \<open>bson-utf8.c\<close>: sequence lengths, validation, decoding and encoding of UTF-8.

  The validator is proved equivalent to an independent description of the accepted texts
  (\<open>utf8_text\<close>: concatenations of shortest-form encodings of Unicode scalar values, with the
  two-byte form of NUL as the one exception), and the encoder and decoder are inverse on every
  code point the validator can accept.
\<close>

section \<open>The code\<close>

text \<open>\<open>_bson_utf8_get_sequence\<close>: sequence length and mask for the first byte.\<close>

definition utf8_get_sequence :: "byte \<Rightarrow> nat \<times> byte" where
  "utf8_get_sequence c =
     (if c AND 0x80 = 0 then (1, 0x7F)
      else if c AND 0xE0 = 0xC0 then (2, 0x1F)
      else if c AND 0xF0 = 0xE0 then (3, 0x0F)
      else if c AND 0xF8 = 0xF0 then (4, 0x07)
      else if c AND 0xFC = 0xF8 then (5, 0x03)
      else if c AND 0xFE = 0xFC then (6, 0x01)
      else (0, 0))"

text \<open>The loop over the continuation bytes; \<open>None\<close> is its early \<open>return false\<close>.\<close>

fun utf8_continuation :: "view \<Rightarrow> nat \<Rightarrow> nat \<Rightarrow> nat \<Rightarrow> nat option result" where
  "utf8_continuation v j 0 c = Ok (Some c)"
| "utf8_continuation v j (Suc n) c =
     rbind (rd8 v j) (\<lambda>b.
       if b AND 0xC0 \<noteq> 0x80 then Ok None
       else utf8_continuation v (Suc j) n (c * 64 + unat (b AND 0x3F)))"

text \<open>
  The loop that rejects NUL bytes inside a sequence; \<open>j\<close> is the C expression \<open>i + j\<close>, a 32-bit
  index. (Its test \<open>(i + j) > utf8_len\<close> is never true, because the sequence ends within the text.)
\<close>

fun utf8_no_nul :: "view \<Rightarrow> nat \<Rightarrow> nat \<Rightarrow> bool result" where
  "utf8_no_nul v j 0 = Ok True"
| "utf8_no_nul v j (Suc n) =
     rbind (rd8 v j) (\<lambda>b. if b = 0 then Ok False else utf8_no_nul v (w32 (Suc j)) n)"

definition utf8_shortest_form :: "nat \<Rightarrow> nat \<Rightarrow> bool" where
  "utf8_shortest_form seq_length c =
     (if seq_length = 1 then c \<le> 0x7F
      else if seq_length = 2 then (0x80 \<le> c \<and> c \<le> 0x7FF) \<or> c = 0
      else if seq_length = 3
      then (0x800 \<le> c \<and> c \<le> 0xFFF) \<or> (0x1000 \<le> c \<and> c \<le> 0xFFFF)
      else if seq_length = 4
      then (0x10000 \<le> c \<and> c \<le> 0x3FFFF) \<or> (0x40000 \<le> c \<and> c \<le> 0xFFFFF)
           \<or> (0x100000 \<le> c \<and> c \<le> 0x10FFFF)
      else False)"

text \<open>
  The loop of \<open>bson_utf8_validate\<close> from position \<open>i\<close>. The C variables \<open>i\<close> and \<open>j\<close> are 32 bits
  wide while \<open>utf8_len\<close> is a \<open>size_t\<close>, so every sum of them is taken modulo \<open>2\<^sup>3\<^sup>2\<close>: in a text of
  4 GiB or more the index comes back to the front of the text. The surrogate test
  \<open>(c & 0xFFFFF800) == 0xD800\<close> is \<open>c div 0x800 = 0x1B\<close>.

  The fuel \<open>utf8_len + 1\<close> decides termination exactly. Below \<open>2\<^sup>3\<^sup>2\<close> bytes the index grows in each
  iteration; from \<open>2\<^sup>3\<^sup>2\<close> on a run that uses up the fuel has met one of the \<open>2\<^sup>3\<^sup>2\<close> indices twice,
  and since the index is the only state of the loop, the C loop never ends.
\<close>

fun utf8_validate_from :: "nat \<Rightarrow> view \<Rightarrow> nat \<Rightarrow> nat \<Rightarrow> bool \<Rightarrow> bool result" where
  "utf8_validate_from 0 v utf8_len i allow_null = Fault No_Termination"
| "utf8_validate_from (Suc fuel) v utf8_len i allow_null =
     (if i < utf8_len then
        rbind (rd8 v i) (\<lambda>b.
          let (seq_length, first_mask) = utf8_get_sequence b in
          if seq_length = 0 then Ok False
          else if utf8_len - i < seq_length then Ok False
          else
            rbind (utf8_continuation v (w32 (i + 1)) (w32 (i + seq_length) - w32 (i + 1))
                     (unat (b AND first_mask))) (\<lambda>r.
              case r of
                None \<Rightarrow> Ok False
              | Some c \<Rightarrow>
                  rbind (if allow_null then Ok True else utf8_no_nul v i seq_length) (\<lambda>nn.
                    if \<not> nn then Ok False
                    else if c > 0x10FFFF then Ok False
                    else if c div 0x800 = 0x1B then Ok False
                    else if \<not> utf8_shortest_form seq_length c then Ok False
                    else utf8_validate_from fuel v utf8_len (w32 (i + seq_length)) allow_null)))
      else Ok True)"

declare utf8_validate_from.simps(2) [simp del]

definition bson_utf8_validate :: "view \<Rightarrow> nat \<Rightarrow> bool \<Rightarrow> bool result" where
  "bson_utf8_validate v utf8_len allow_null =
     utf8_validate_from (Suc utf8_len) v utf8_len 0 allow_null"

fun utf8_collect :: "view \<Rightarrow> nat \<Rightarrow> nat \<Rightarrow> nat \<Rightarrow> nat result" where
  "utf8_collect v i 0 c = Ok c"
| "utf8_collect v i (Suc n) c =
     rbind (rd8 v i) (\<lambda>b. utf8_collect v (Suc i) n (w32 (c * 64 + unat (b AND 0x3F))))"

definition bson_utf8_get_char :: "view \<Rightarrow> nat result" where
  "bson_utf8_get_char v =
     rbind (rd8 v 0) (\<lambda>b.
       let (num, mask) = utf8_get_sequence b in
       utf8_collect v 1 (num - 1) (unat (b AND mask)))"

text \<open>The returned pointer is the view from the next character on.\<close>

definition bson_utf8_next_char :: "view \<Rightarrow> view result" where
  "bson_utf8_next_char v = rbind (rd8 v 0) (\<lambda>b. Ok (drop (fst (utf8_get_sequence b)) v))"

text \<open>
  \<open>bson_utf8_from_unichar\<close>: the bytes stored; their number is the value stored in \<open>len\<close>.
\<close>

definition utf8_bits :: "nat \<Rightarrow> nat \<Rightarrow> byte \<Rightarrow> byte" where
  "utf8_bits u n m = of_nat (u div 2 ^ n) AND m"

definition bson_utf8_from_unichar :: "nat \<Rightarrow> byte list" where
  "bson_utf8_from_unichar u =
     (if u \<le> 0x7F then [of_nat u]
      else if u \<le> 0x7FF then
        [0xC0 OR utf8_bits u 6 0x3F, 0x80 OR utf8_bits u 0 0x3F]
      else if u \<le> 0xFFFF then
        [0xE0 OR utf8_bits u 12 0xF, 0x80 OR utf8_bits u 6 0x3F, 0x80 OR utf8_bits u 0 0x3F]
      else if u \<le> 0x1FFFFF then
        [0xF0 OR utf8_bits u 18 0x7, 0x80 OR utf8_bits u 12 0x3F,
         0x80 OR utf8_bits u 6 0x3F, 0x80 OR utf8_bits u 0 0x3F]
      else if u \<le> 0x3FFFFFF then
        [0xF8 OR utf8_bits u 24 0x3, 0x80 OR utf8_bits u 18 0x3F, 0x80 OR utf8_bits u 12 0x3F,
         0x80 OR utf8_bits u 6 0x3F, 0x80 OR utf8_bits u 0 0x3F]
      else if u \<le> 0x7FFFFFFF then
        [0xFC OR utf8_bits u 31 0x1, 0x80 OR utf8_bits u 25 0x3F, 0x80 OR utf8_bits u 19 0x3F,
         0x80 OR utf8_bits u 13 0x3F, 0x80 OR utf8_bits u 7 0x3F, 0x80 OR utf8_bits u 0 0x1]
      else [])"

section \<open>Bytes as numbers\<close>

lemma unat_and_low: "unat (b AND mask n :: byte) = unat b mod 2 ^ n"
proof -
  have "unat (b AND mask n) = take_bit n (unat b)"
    by (simp flip: take_bit_eq_mask add: unsigned_take_bit_eq)
  then show ?thesis by (simp add: take_bit_eq_mod)
qed
lemma unat_and_high: "unat (b AND NOT (mask n) :: byte) = unat b - unat b mod 2 ^ n"
proof -
  have "b AND NOT (mask n) = b - take_bit n b" 
  proof -
    have "b - take_bit n b = b AND NOT (take_bit n b)"
      by (rule disjunctive_diff) (simp add: bit_take_bit_iff)
    also have "b AND NOT (take_bit n b) = b AND NOT (mask n)"
      by (rule bit_eqI) (auto simp: bit_simps)
    finally show ?thesis by simp
  qed
  moreover have "take_bit n b \<le> b"  by (simp add: take_bit_eq_mask word_and_le2)
  ultimately have "unat (b AND NOT (mask n)) = unat b - unat (take_bit n b)"
    by (simp add: unat_sub)
  also have "unat (take_bit n b) = unat b mod 2 ^ n" 
   using unat_and_low [of b n] by (simp add: take_bit_eq_mask)
  finally show ?thesis .
qed
lemma and_high_eq:
  "b AND 0x80 = (c :: byte) \<longleftrightarrow> unat b - unat b mod 128 = unat c"
  "b AND 0xC0 = c \<longleftrightarrow> unat b - unat b mod 64 = unat c"
  "b AND 0xE0 = c \<longleftrightarrow> unat b - unat b mod 32 = unat c"
  "b AND 0xF0 = c \<longleftrightarrow> unat b - unat b mod 16 = unat c"
  "b AND 0xF8 = c \<longleftrightarrow> unat b - unat b mod 8 = unat c"
  "b AND 0xFC = c \<longleftrightarrow> unat b - unat b mod 4 = unat c"
  "b AND 0xFE = c \<longleftrightarrow> unat b - unat b mod 2 = unat c"
proof -
  have m: "NOT (mask 7) = (0x80 :: byte)" "NOT (mask 6) = (0xC0 :: byte)"
    "NOT (mask 5) = (0xE0 :: byte)" "NOT (mask 4) = (0xF0 :: byte)" "NOT (mask 3) = (0xF8 :: byte)"
    "NOT (mask 2) = (0xFC :: byte)" "NOT (mask 1) = (0xFE :: byte)"
    by (simp_all add: mask_eq_exp_minus_1)
  note h = unat_and_high [of b 7, unfolded m] unat_and_high [of b 6, unfolded m]
    unat_and_high [of b 5, unfolded m] unat_and_high [of b 4, unfolded m]
    unat_and_high [of b 3, unfolded m] unat_and_high [of b 2, unfolded m]
    unat_and_high [of b 1, unfolded m]
  show
    "b AND 0x80 = (c :: byte) \<longleftrightarrow> unat b - unat b mod 128 = unat c"
    "b AND 0xC0 = c \<longleftrightarrow> unat b - unat b mod 64 = unat c"
    "b AND 0xE0 = c \<longleftrightarrow> unat b - unat b mod 32 = unat c"
    "b AND 0xF0 = c \<longleftrightarrow> unat b - unat b mod 16 = unat c"
    "b AND 0xF8 = c \<longleftrightarrow> unat b - unat b mod 8 = unat c"
    "b AND 0xFC = c \<longleftrightarrow> unat b - unat b mod 4 = unat c"
    "b AND 0xFE = c \<longleftrightarrow> unat b - unat b mod 2 = unat c"
    by (simp_all add: word_unat_eq_iff h)
qed

lemma get_sequence_eq:
  "utf8_get_sequence b =
     (let n = unat b in
      if n < 128 then (1, 0x7F) else if n < 192 then (0, 0) else if n < 224 then (2, 0x1F)
      else if n < 240 then (3, 0x0F) else if n < 248 then (4, 0x07)
      else if n < 252 then (5, 0x03) else if n < 254 then (6, 0x01) else (0, 0))"
proof -
  have r: "n - n mod m = k * m \<longleftrightarrow> k * m \<le> n \<and> n < k * m + m" if "0 < m" for n m k :: nat
  proof -
    have "n - n mod m = k * m \<longleftrightarrow> n div m = k"
      using that by (simp add: minus_mod_eq_div_mult)
    also have "\<dots> \<longleftrightarrow> k * m \<le> n \<and> n < k * m + m"
      using that dividend_less_div_times [of m n] by (auto simp: div_nat_eqI mult.commute)
    finally show ?thesis .
  qed
  have "unat b < 256" by (rule unat_byte_less)
  then show ?thesis
    using r [of 128 "unat b" 0] r [of 32 "unat b" 6] r [of 16 "unat b" 14] r [of 8 "unat b" 30]
      r [of 4 "unat b" 62] r [of 2 "unat b" 126]
    by (simp add: utf8_get_sequence_def and_high_eq Let_def)
qed

lemma is_continuation_eq: "b AND 0xC0 = (0x80 :: byte) \<longleftrightarrow> 128 \<le> unat b \<and> unat b < 192"
proof -
  have "unat b - unat b mod 64 = 128 \<longleftrightarrow> unat b div 64 = 2"
    by (simp add: minus_mod_eq_div_mult)
  also have "\<dots> \<longleftrightarrow> 128 \<le> unat b \<and> unat b < 192" by arith
  finally show ?thesis by (simp add: and_high_eq)
qed

lemma unat_and_masks:
  "unat (b AND 0x7F :: byte) = unat b mod 128"
  "unat (b AND 0x3F :: byte) = unat b mod 64"
  "unat (b AND 0x1F :: byte) = unat b mod 32"
  "unat (b AND 0x0F :: byte) = unat b mod 16"
  "unat (b AND 0x07 :: byte) = unat b mod 8"
  "unat (b AND 0x03 :: byte) = unat b mod 4"
  "unat (b AND 0x01 :: byte) = unat b mod 2"
  using unat_and_low [of b 7] unat_and_low [of b 6] unat_and_low [of b 5] unat_and_low [of b 4]
    unat_and_low [of b 3] unat_and_low [of b 2] unat_and_low [of b 1]
  by (simp_all add: mask_eq_exp_minus_1)

section \<open>The accepted texts\<close>

definition utf8_enc :: "nat \<Rightarrow> byte list" where
  "utf8_enc c = map of_nat
     (if c < 0x80 then [c]
      else if c < 0x800 then [192 + c div 64, 128 + c mod 64]
      else if c < 0x10000 then [224 + c div 4096, 128 + c div 64 mod 64, 128 + c mod 64]
      else [240 + c div 262144, 128 + c div 4096 mod 64, 128 + c div 64 mod 64, 128 + c mod 64])"

definition unicode_scalar :: "nat \<Rightarrow> bool" where
  "unicode_scalar c \<longleftrightarrow> c \<le> 0x10FFFF \<and> \<not> (0xD800 \<le> c \<and> c \<le> 0xDFFF)"

inductive utf8_text :: "bool \<Rightarrow> byte list \<Rightarrow> bool" for allow_null where
  utf8_nil: "utf8_text allow_null []"
| utf8_scalar: "unicode_scalar c \<Longrightarrow> (c = 0 \<longrightarrow> allow_null) \<Longrightarrow> utf8_text allow_null bs
     \<Longrightarrow> utf8_text allow_null (utf8_enc c @ bs)"
| utf8_long_nul: "utf8_text allow_null bs \<Longrightarrow> utf8_text allow_null (0xC0 # 0x80 # bs)"

text \<open>One turn of the validation loop, on the bytes that are left.\<close>

fun utf8_cont_value :: "byte list \<Rightarrow> nat \<Rightarrow> nat option" where
  "utf8_cont_value [] c = Some c"
| "utf8_cont_value (b # bs) c =
     (if 128 \<le> unat b \<and> unat b < 192 then utf8_cont_value bs (c * 64 + unat b mod 64) else None)"

definition utf8_unit :: "bool \<Rightarrow> byte list \<Rightarrow> nat option" where
  "utf8_unit allow_null bs =
     (case bs of
        [] \<Rightarrow> None
      | b # rest \<Rightarrow>
          let (k, m) = utf8_get_sequence b in
          if k = 0 \<or> length bs < k then None
          else case utf8_cont_value (take (k - 1) rest) (unat (b AND m)) of
                 None \<Rightarrow> None
               | Some c \<Rightarrow>
                   if (\<not> allow_null \<and> 0 \<in> set (take k bs)) \<or> c > 0x10FFFF \<or> c div 0x800 = 0x1B
                      \<or> \<not> utf8_shortest_form k c
                   then None else Some k)"

lemma utf8_continuation_eq:
  "j + n \<le> length v \<Longrightarrow> utf8_continuation v j n c = Ok (utf8_cont_value (take n (drop j v)) c)"
proof (induction n arbitrary: j c)
  case (Suc n)
  then have "drop j v = v ! j # drop (Suc j) v" by (simp add: Cons_nth_drop_Suc)
  with Suc show ?case by (simp add: view_simps is_continuation_eq unat_and_masks)
qed simp

lemma utf8_no_nul_eq:
  "\<lbrakk>j + n \<le> length v; j + n \<le> 4294967295\<rbrakk>
     \<Longrightarrow> utf8_no_nul v j n = Ok (0 \<notin> set (take n (drop j v)))"
proof (induction n arbitrary: j)
  case (Suc n)
  then have "drop j v = v ! j # drop (Suc j) v" by (simp add: Cons_nth_drop_Suc)
  with Suc show ?case by (simp add: view_simps w32_id)
qed simp

lemma utf8_validate_step:
  assumes "i < n" "n \<le> length v" "n < 4294967296"
  shows "utf8_validate_from (Suc fuel) v n i a =
     (case utf8_unit a (take (n - i) (drop i v)) of
        None \<Rightarrow> Ok False | Some k \<Rightarrow> utf8_validate_from fuel v n (i + k) a)"
proof -
  define b where "b = v ! i"
  obtain k m where km: "utf8_get_sequence b = (k, m)" by fastforce
  have d: "drop i v = b # drop (Suc i) v" using assms by (simp add: b_def Cons_nth_drop_Suc)
  have t: "take (n - i) (drop i v) = b # take (n - Suc i) (drop (Suc i) v)"
    using assms by (simp add: d take_Cons')
  have kk: "take k (take (n - i) (drop i v)) = take k (drop i v)" if "k \<le> n - i"
    using that by (simp add: min_def)
  have rest: "take (k - Suc 0) (take (n - Suc i) (drop (Suc i) v)) = take (k - Suc 0) (drop (Suc i) v)"
    if "k \<le> n - i" using that by (simp add: min_def)
  show ?thesis
  proof (cases "k = 0 \<or> n - i < k")
    case True
    moreover have "utf8_unit a (take (n - i) (drop i v)) = None"
      using True assms km unfolding t by (auto simp: utf8_unit_def)
    ultimately show ?thesis
      using assms km
      by (elim disjE) (simp_all add: utf8_validate_from.simps(2) view_simps b_def [symmetric])
  next
    case False
    then have le: "k \<le> n - i" "0 < k" by auto
    with assms have w: "w32 (Suc i) = Suc i" "w32 (i + k) = i + k" by (auto intro: w32_id)
    have loop: "i + k - Suc i = k - Suc 0" by simp
    from assms le have cont: "utf8_continuation v (Suc i) (k - Suc 0) c
        = Ok (utf8_cont_value (take (k - Suc 0) (drop (Suc i) v)) c)" for c
      by (intro utf8_continuation_eq) auto
    from assms le have nn: "utf8_no_nul v i k = Ok (0 \<notin> set (take k (drop i v)))"
      by (intro utf8_no_nul_eq) auto
    have u: "utf8_unit a (take (n - i) (drop i v)) =
        (case utf8_cont_value (take (k - Suc 0) (drop (Suc i) v)) (unat (b AND m)) of
           None \<Rightarrow> None
         | Some c \<Rightarrow> if (\<not> a \<and> 0 \<in> set (take k (drop i v))) \<or> c > 0x10FFFF \<or> c div 0x800 = 0x1B
                        \<or> \<not> utf8_shortest_form k c then None else Some k)"
    proof -
      have "\<not> Suc (n - Suc i) < k" using le assms by simp
      then show ?thesis
        using le rest [OF le(1)] kk [OF le(1)] assms km unfolding t
        by (auto simp: utf8_unit_def split: option.split)
    qed
    show ?thesis
      using assms km le cont nn unfolding u utf8_validate_from.simps(2)
      by (simp add: view_simps b_def [symmetric] w loop
           split: option.split)
  qed
qed
lemma of_nat_byte_eq: "n < 256 \<Longrightarrow> (of_nat n :: byte) = b \<longleftrightarrow> n = unat b"
  by (simp add: word_unat_eq_iff)

definition cont_byte :: "byte \<Rightarrow> bool" where
  "cont_byte b \<longleftrightarrow> 128 \<le> unat b \<and> unat b < 192"

lemma mod_range: "k * m \<le> n \<Longrightarrow> n < k * m + m \<Longrightarrow> n mod m = n - k * m" for n :: nat
proof -
  assume "k * m \<le> n" "n < k * m + m"
  then have "n = k * m + (n - k * m)" "n - k * m < m" by auto
  then show ?thesis by (metis mod_less mod_mult_self3)
qed

lemma cont_byte_mod: "cont_byte b \<Longrightarrow> unat b mod 64 = unat b - 128"
  using mod_range [of 2 64 "unat b"] by (simp add: cont_byte_def)

lemma lead_byte_mod:
  "192 \<le> unat b \<Longrightarrow> unat b < 224 \<Longrightarrow> unat b mod 32 = unat b - 192"
  "224 \<le> unat b \<Longrightarrow> unat b < 240 \<Longrightarrow> unat b mod 16 = unat b - 224"
  "240 \<le> unat b \<Longrightarrow> unat b < 248 \<Longrightarrow> unat b mod 8 = unat b - 240"
  "248 \<le> unat b \<Longrightarrow> unat b < 252 \<Longrightarrow> unat b mod 4 = unat b - 248"
  using mod_range [of 6 32 "unat b"] mod_range [of 14 16 "unat b"] mod_range [of 30 8 "unat b"]
    mod_range [of 62 4 "unat b"]
  by simp_all

lemma byte_nonzero: "0 < unat b \<Longrightarrow> (b :: byte) \<noteq> 0"
  by auto

lemma cont_byte_nonzero: "cont_byte b \<Longrightarrow> b \<noteq> 0"
  by (auto simp: cont_byte_def)

lemma utf8_cont_value_Cons:
  "utf8_cont_value (b # bs) c =
     (if cont_byte b then utf8_cont_value bs (c * 64 + (unat b - 128)) else None)"
  using cont_byte_mod [of b] by (simp add: cont_byte_def)

lemma utf8_unit_lead:
  assumes "utf8_get_sequence b = (Suc k, m)"
  shows "utf8_unit a (b # bs) =
     (if length bs < k then None
      else case utf8_cont_value (take k bs) (unat (b AND m)) of
             None \<Rightarrow> None
           | Some c \<Rightarrow>
               if (\<not> a \<and> 0 \<in> set (b # take k bs)) \<or> c > 0x10FFFF \<or> c div 0x800 = 0x1B
                  \<or> \<not> utf8_shortest_form (Suc k) c
               then None else Some (Suc k))"
  using assms by (simp add: utf8_unit_def split: option.split)

lemma utf8_unit_1:
  "unat b < 128 \<Longrightarrow> utf8_unit a (b # bs) = (if \<not> a \<and> b = 0 then None else Some 1)"
  by (simp add: utf8_unit_lead [of _ 0 "0x7F"] get_sequence_eq utf8_shortest_form_def
        unat_and_masks)

lemma get_sequence_lead:
  "192 \<le> unat b \<Longrightarrow> unat b < 224 \<Longrightarrow> utf8_get_sequence b = (Suc 1, 0x1F)"
  "224 \<le> unat b \<Longrightarrow> unat b < 240 \<Longrightarrow> utf8_get_sequence b = (Suc 2, 0x0F)"
  "240 \<le> unat b \<Longrightarrow> unat b < 248 \<Longrightarrow> utf8_get_sequence b = (Suc 3, 0x07)"
  "248 \<le> unat b \<Longrightarrow> unat b < 252 \<Longrightarrow> utf8_get_sequence b = (Suc 4, 0x03)"
  by (simp_all add: get_sequence_eq Let_def)

lemmas utf8_unit_simps = utf8_unit_lead utf8_cont_value_Cons utf8_shortest_form_def unat_and_masks
  lead_byte_mod get_sequence_lead cont_byte_nonzero

lemma utf8_unit_2:
  assumes "192 \<le> unat b" "unat b < 224" and c: "c = (unat b - 192) * 64 + (unat b1 - 128)"
  shows "utf8_unit a (b # b1 # bs) = (if cont_byte b1 \<and> (128 \<le> c \<or> c = 0) then Some 2 else None)"
proof (cases "cont_byte b1")
  case True
  have "unat b - 192 \<le> 31" "unat b1 - 128 \<le> 63"
    using assms True by (auto simp: cont_byte_def)
  then have "c < 0x800" "c div 0x800 \<noteq> 0x1B" using c by auto
  moreover have "utf8_cont_value (take 1 (b1 # bs)) (unat (b AND 0x1F)) = Some c"
    using assms(1,2) True c by (simp add: utf8_unit_simps del: utf8_cont_value.simps(2))
  moreover have "0 \<notin> set (b # take 1 (b1 # bs))"
    using True assms(1) by (auto simp: cont_byte_def)
  ultimately show ?thesis
    using True utf8_unit_lead [OF get_sequence_lead(1) [OF assms(1,2)], of a "b1 # bs"]
    by (auto simp: utf8_shortest_form_def)
next
  case False
  then show ?thesis
    using utf8_unit_lead [OF get_sequence_lead(1) [OF assms(1,2)], of a "b1 # bs"]
    by (simp add: utf8_cont_value_Cons del: utf8_cont_value.simps(2))
qed

lemma utf8_unit_3:
  assumes "224 \<le> unat b" "unat b < 240"
    and c: "c = (unat b - 224) * 4096 + (unat b1 - 128) * 64 + (unat b2 - 128)"
  shows "utf8_unit a (b # b1 # b2 # bs) =
     (if cont_byte b1 \<and> cont_byte b2 \<and> 0x800 \<le> c \<and> c div 0x800 \<noteq> 0x1B then Some 3 else None)"
proof (cases "cont_byte b1 \<and> cont_byte b2")
  case True
  have "unat b - 224 \<le> 15" "unat b1 - 128 \<le> 63" "unat b2 - 128 \<le> 63"
    using assms True by (auto simp: cont_byte_def)
  then have "c < 0x10000" using c by auto
  moreover have "utf8_cont_value (take 2 (b1 # b2 # bs)) (unat (b AND 0x0F)) = Some c"
    using assms(1,2) True c
    by (simp add: utf8_unit_simps numeral_2_eq_2 del: utf8_cont_value.simps(2))
  moreover have "0 \<notin> set (b # take 2 (b1 # b2 # bs))"
    using True assms(1) by (auto simp: cont_byte_def numeral_2_eq_2)
  ultimately show ?thesis
    using True utf8_unit_lead [OF get_sequence_lead(2) [OF assms(1,2)], of a "b1 # b2 # bs"]
    by (auto simp: utf8_shortest_form_def)
next
  case False
  then show ?thesis
    using utf8_unit_lead [OF get_sequence_lead(2) [OF assms(1,2)], of a "b1 # b2 # bs"]
    by (auto simp: utf8_cont_value_Cons numeral_2_eq_2 simp del: utf8_cont_value.simps(2))
qed

lemma utf8_unit_4:
  assumes "240 \<le> unat b" "unat b < 248"
    and c: "c = (unat b - 240) * 262144 + (unat b1 - 128) * 4096 + (unat b2 - 128) * 64
              + (unat b3 - 128)"
  shows "utf8_unit a (b # b1 # b2 # b3 # bs) =
     (if cont_byte b1 \<and> cont_byte b2 \<and> cont_byte b3 \<and> 0x10000 \<le> c \<and> c \<le> 0x10FFFF
      then Some 4 else None)"
proof (cases "cont_byte b1 \<and> cont_byte b2 \<and> cont_byte b3")
  case True
  have "c div 0x800 \<noteq> 0x1B" if "0x10000 \<le> c"
    using div_le_mono [OF that, of "0x800"] by simp
  moreover have "utf8_cont_value (take 3 (b1 # b2 # b3 # bs)) (unat (b AND 0x07)) = Some c"
    using assms(1,2) True c
    by (simp add: utf8_unit_simps numeral_3_eq_3 del: utf8_cont_value.simps(2))
  moreover have "0 \<notin> set (b # take 3 (b1 # b2 # b3 # bs))"
    using True assms(1) by (auto simp: cont_byte_def numeral_3_eq_3)
  ultimately show ?thesis
    using True utf8_unit_lead [OF get_sequence_lead(3) [OF assms(1,2)], of a "b1 # b2 # b3 # bs"]
    by (auto simp: utf8_shortest_form_def)
next
  case False
  then show ?thesis
    using utf8_unit_lead [OF get_sequence_lead(3) [OF assms(1,2)], of a "b1 # b2 # b3 # bs"]
    by (auto simp: utf8_cont_value_Cons numeral_3_eq_3 simp del: utf8_cont_value.simps(2))
qed

lemma utf8_unit_enc:
  assumes "unicode_scalar c" "c = 0 \<longrightarrow> a"
  shows "utf8_unit a (utf8_enc c @ bs) = Some (length (utf8_enc c))"
proof -
  have sur: "c div 0x800 \<noteq> 0x1B"
  proof
    assume "c div 0x800 = 0x1B"
    then have "0x1B * 0x800 \<le> c" "c < 0x1C * 0x800"
      using div_times_less_eq_dividend [of c "0x800"] dividend_less_div_times [of "0x800" c] by auto
    with assms(1) show False by (simp add: unicode_scalar_def)
  qed
  have m: "c mod 64 < 64" "c div 64 mod 64 < 64" "c div 4096 mod 64 < 64" by simp_all
  have step: "x div (m * 64) * (m * 64) + x div m mod 64 * m = x div m * m" for x m :: nat
  proof -
    have "(x div m div 64 * 64 + x div m mod 64) * m = x div m * m"
      by (simp only: div_mult_mod_eq)
    then show ?thesis by (simp only: div_mult2_eq distrib_left ac_simps)
  qed
  have split3: "c div 4096 * 4096 + c div 64 mod 64 * 64 + c mod 64 = c"
    using step [of c 64] by simp
  have split4: "c div 262144 * 262144 + c div 4096 mod 64 * 4096 + c div 64 mod 64 * 64 + c mod 64 = c"
    using step [of c 4096] split3 by simp
  consider "c < 0x80" | "0x80 \<le> c" "c < 0x800" | "0x800 \<le> c" "c < 0x10000" | "0x10000 \<le> c" "c \<le> 0x10FFFF"
    using assms(1) by (force simp: unicode_scalar_def)
  then show ?thesis
  proof cases
    case 1
    then show ?thesis
      using assms(2) by (auto simp: utf8_enc_def utf8_unit_1 of_nat_byte_eq)
  next
    case 2
    then have "c div 64 < 32" by (simp add: div_less_iff_less_mult)
    then show ?thesis using 2 m
      by (simp add: utf8_enc_def utf8_unit_2 [where c = c] cont_byte_def del: of_nat_add)
  next
    case 3
    then have "c div 4096 < 16" by (simp add: div_less_iff_less_mult)
    then show ?thesis using 3 m sur split3
      by (simp add: utf8_enc_def utf8_unit_3 [where c = c] cont_byte_def del: of_nat_add)
  next
    case 4
    then have "c div 262144 < 8" by (simp add: div_less_iff_less_mult)
    then show ?thesis using 4 m split4
      by (simp add: utf8_enc_def utf8_unit_4 [where c = c] cont_byte_def del: of_nat_add)
  qed
qed

lemma div_mod_64: "q < 64 \<Longrightarrow> (p * 64 + q) div 64 = p" "q < 64 \<Longrightarrow> (p * 64 + q) mod 64 = q"
  for p q :: nat
  by auto

lemma cont_byte_bits: "cont_byte b \<Longrightarrow> unat b - 128 < 64"
  by (auto simp: cont_byte_def)

lemma utf8_unit_SomeD_2:
  assumes "utf8_unit a (b # bs1) = Some k" "192 \<le> unat b" "unat b < 224"
  shows "(\<exists>c. unicode_scalar c \<and> c \<noteq> 0 \<and> b # bs1 = utf8_enc c @ drop k (b # bs1))
     \<or> b # bs1 = 0xC0 # 0x80 # drop k (b # bs1)"
proof -
  obtain b1 bs2 where bs1: "bs1 = b1 # bs2"
    using assms by (cases bs1) (auto simp: utf8_unit_simps)
  define c where "c = (unat b - 192) * 64 + (unat b1 - 128)"
  have cb: "cont_byte b1" "128 \<le> c \<or> c = 0" and k: "k = 2"
    using assms [unfolded bs1 utf8_unit_2 [OF assms(2,3) c_def]] by (auto split: if_splits)
  note q = cont_byte_bits [OF cb(1)]
  have "b = 0xC0 \<and> b1 = 0x80" if "c = 0"
    using that assms cb by (auto simp: c_def cont_byte_def word_unat_eq_iff)
  moreover have "unicode_scalar c \<and> b # bs1 = utf8_enc c @ drop k (b # bs1)" if "128 \<le> c"
  proof -
    have "c < 0x800" using assms q by (simp add: c_def)
    moreover have "c div 64 = unat b - 192" "c mod 64 = unat b1 - 128"
      by (simp_all only: c_def div_mod_64 [OF q])
    ultimately show ?thesis
      using that assms(2,3) cb
      by (simp add: unicode_scalar_def utf8_enc_def bs1 k cont_byte_def del: of_nat_add)
  qed
  ultimately show ?thesis using cb k by (auto simp: bs1)
qed

lemma utf8_unit_SomeD_3:
  assumes "utf8_unit a (b # bs1) = Some k" "224 \<le> unat b" "unat b < 240"
  shows "\<exists>c. unicode_scalar c \<and> c \<noteq> 0 \<and> b # bs1 = utf8_enc c @ drop k (b # bs1)"
proof -
  obtain b1 b2 bs2 where bs1: "bs1 = b1 # b2 # bs2"
    using assms by (cases bs1; cases "tl bs1") (auto simp: utf8_unit_simps)
  define c where "c = (unat b - 224) * 4096 + (unat b1 - 128) * 64 + (unat b2 - 128)"
  have cb: "cont_byte b1" "cont_byte b2" "0x800 \<le> c" "c div 0x800 \<noteq> 0x1B" and k: "k = 3"
    using assms [unfolded bs1 utf8_unit_3 [OF assms(2,3) c_def]] by (auto split: if_splits)
  note q = cont_byte_bits [OF cb(1)] cont_byte_bits [OF cb(2)]
  have "c = ((unat b - 224) * 64 + (unat b1 - 128)) * 64 + (unat b2 - 128)"
    by (simp add: c_def)
  then have d: "c div 64 = (unat b - 224) * 64 + (unat b1 - 128)" "c mod 64 = unat b2 - 128"
    by (simp_all only: div_mod_64 [OF q(2)])
  have "c div 4096 = c div 64 div 64" using div_mult2_eq [of c 64 64] by simp
  then have "c div 4096 = unat b - 224" "c div 64 mod 64 = unat b1 - 128"
    by (simp_all only: d div_mod_64 [OF q(1)])
  moreover have "c < 0x10000" using assms(2,3) q by (simp add: c_def)
  ultimately have "unicode_scalar c \<and> b # bs1 = utf8_enc c @ drop k (b # bs1)"
    using assms(2,3) cb d(2) div_nat_eqI [of "0x800" "0x1B" c]
    by (auto simp: unicode_scalar_def utf8_enc_def bs1 k cont_byte_def simp del: of_nat_add)
  then show ?thesis using cb(3) by auto
qed

lemma utf8_unit_SomeD_4:
  assumes "utf8_unit a (b # bs1) = Some k" "240 \<le> unat b" "unat b < 248"
  shows "\<exists>c. unicode_scalar c \<and> c \<noteq> 0 \<and> b # bs1 = utf8_enc c @ drop k (b # bs1)"
proof -
  obtain b1 b2 b3 bs2 where bs1: "bs1 = b1 # b2 # b3 # bs2"
    using assms by (cases bs1; cases "tl bs1"; cases "tl (tl bs1)") (auto simp: utf8_unit_simps)
  define c where "c = (unat b - 240) * 262144 + (unat b1 - 128) * 4096 + (unat b2 - 128) * 64
      + (unat b3 - 128)"
  have cb: "cont_byte b1" "cont_byte b2" "cont_byte b3" "0x10000 \<le> c" "c \<le> 0x10FFFF" and k: "k = 4"
    using assms [unfolded bs1 utf8_unit_4 [OF assms(2,3) c_def]] by (auto split: if_splits)
  note q = cont_byte_bits [OF cb(1)] cont_byte_bits [OF cb(2)] cont_byte_bits [OF cb(3)]
  define p where "p = (unat b - 240) * 64 + (unat b1 - 128)"
  have "c = (p * 64 + (unat b2 - 128)) * 64 + (unat b3 - 128)"
    by (simp add: c_def p_def)
  then have d: "c div 64 = p * 64 + (unat b2 - 128)" "c mod 64 = unat b3 - 128"
    by (simp_all only: div_mod_64 [OF q(3)])
  have "c div 4096 = c div 64 div 64" using div_mult2_eq [of c 64 64] by simp
  then have e: "c div 4096 = p" "c div 64 mod 64 = unat b2 - 128"
    by (simp_all only: d div_mod_64 [OF q(2)])
  have "c div 262144 = c div 4096 div 64" using div_mult2_eq [of c 4096 64] by simp
  then have "c div 262144 = unat b - 240" "c div 4096 mod 64 = unat b1 - 128"
    by (simp_all only: e p_def div_mod_64 [OF q(1)])
  then have "unicode_scalar c \<and> b # bs1 = utf8_enc c @ drop k (b # bs1)"
    using assms(2,3) cb d(2) e(2)
    by (auto simp: unicode_scalar_def utf8_enc_def bs1 k cont_byte_def simp del: of_nat_add)
  then show ?thesis using cb(4) by auto
qed

lemma utf8_unit_SomeD:
  assumes "utf8_unit a bs = Some k"
  shows "(\<exists>c. unicode_scalar c \<and> (c = 0 \<longrightarrow> a) \<and> bs = utf8_enc c @ drop k bs)
     \<or> bs = 0xC0 # 0x80 # drop k bs"
proof -
  obtain b bs1 where bs: "bs = b # bs1" using assms by (cases bs) (auto simp: utf8_unit_def)
  consider "unat b < 128" | "192 \<le> unat b" "unat b < 224" | "224 \<le> unat b" "unat b < 240"
    | "240 \<le> unat b" "unat b < 248" | "utf8_get_sequence b = (0, 0)"
    | "utf8_get_sequence b = (5, 3)" | "utf8_get_sequence b = (6, 1)"
    by (cases "unat b < 128"; cases "unat b < 192"; cases "unat b < 224"; cases "unat b < 240";
        cases "unat b < 248"; cases "unat b < 252"; cases "unat b < 254")
      (simp_all add: get_sequence_eq)
  then show ?thesis
  proof cases
    case 1
    then show ?thesis
      using assms
      by (auto simp: bs utf8_unit_1 utf8_enc_def unicode_scalar_def unat_eq_0 split: if_splits
          intro!: exI [of _ "unat b"])
  next
    case 2
    then show ?thesis using assms unfolding bs by (auto dest!: utf8_unit_SomeD_2)
  next
    case 3
    then show ?thesis using utf8_unit_SomeD_3 [OF assms [unfolded bs] 3] by (auto simp: bs)
  next
    case 4
    then show ?thesis using utf8_unit_SomeD_4 [OF assms [unfolded bs] 4] by (auto simp: bs)
  qed (use assms in \<open>auto simp: bs utf8_unit_def utf8_shortest_form_def split: if_splits option.splits\<close>)
qed

lemma utf8_unit_pos: "utf8_unit a bs = Some k \<Longrightarrow> 0 < k \<and> k \<le> length bs"
  by (auto simp: utf8_unit_def split: list.splits prod.splits option.splits if_splits)

lemma utf8_text_unit:
  assumes "bs \<noteq> []"
  shows "utf8_text a bs \<longleftrightarrow> (case utf8_unit a bs of None \<Rightarrow> False | Some k \<Rightarrow> utf8_text a (drop k bs))"
proof
  assume "utf8_text a bs"
  then show "case utf8_unit a bs of None \<Rightarrow> False | Some k \<Rightarrow> utf8_text a (drop k bs)"
  proof cases
    case (utf8_scalar c bs')
    then show ?thesis by (simp add: utf8_unit_enc)
  next
    case (utf8_long_nul bs')
    then show ?thesis by (simp add: utf8_unit_2 [where c = 0] cont_byte_def)
  qed (use assms in simp)
next
  assume "case utf8_unit a bs of None \<Rightarrow> False | Some k \<Rightarrow> utf8_text a (drop k bs)"
  then obtain k where k: "utf8_unit a bs = Some k" "utf8_text a (drop k bs)"
    by (auto split: option.splits)
  from utf8_unit_SomeD [OF k(1)] show "utf8_text a bs"
    using utf8_text.intros(2) [OF _ _ k(2)] utf8_text.intros(3) [OF k(2)] by metis
qed

lemma utf8_validate_from_eq:
  assumes "n \<le> length v" "n < 4294967296" "n - i < fuel"
  shows "utf8_validate_from fuel v n i a = Ok (utf8_text a (take (n - i) (drop i v)))"
  using assms(3)
proof (induction fuel arbitrary: i)
  case (Suc fuel)
  show ?case
  proof (cases "i < n")
    case True
    then have ne: "take (n - i) (drop i v) \<noteq> []" using assms by simp
    show ?thesis
    proof (cases "utf8_unit a (take (n - i) (drop i v))")
      case None
      then show ?thesis
        using True assms utf8_text_unit [OF ne] by (simp add: utf8_validate_step)
    next
      case (Some k)
      with utf8_unit_pos [OF Some] True Suc.prems
      have "utf8_validate_from fuel v n (i + k) a
          = Ok (utf8_text a (take (n - (i + k)) (drop (i + k) v)))"
        by (intro Suc.IH) auto
      with Some show ?thesis
        using True assms utf8_text_unit [OF ne, of a]
        by (simp add: utf8_validate_step drop_take add.commute)
    qed
  qed (simp add: utf8_validate_from.simps(2) utf8_nil)
qed simp

lemma utf8_validate_eq:
  "\<lbrakk>n \<le> length v; n < 4294967296\<rbrakk>
     \<Longrightarrow> bson_utf8_validate v n a = Ok (utf8_text a (take n v))"
  using utf8_validate_from_eq [of n v 0 "Suc n" a] by (simp add: bson_utf8_validate_def)

text \<open>From \<open>2\<^sup>3\<^sup>2\<close> bytes on the loop runs in circles over a text of plain characters.\<close>

lemma utf8_validate_wraps:
  assumes n: "4294967296 \<le> n" "n \<le> length v"
    and plain: "\<And>j. j < 4294967296 \<Longrightarrow> 0 < unat (v ! j) \<and> unat (v ! j) < 128"
  shows "bson_utf8_validate v n a = Fault No_Termination"
proof -
  have "utf8_validate_from fuel v n i a = Fault No_Termination" if "i < 4294967296" for fuel i
    using that
  proof (induction fuel arbitrary: i)
    case (Suc fuel)
    let ?b = "v ! i"
    have b: "0 < unat ?b" "unat ?b < 128" using plain [OF Suc.prems] by auto
    then have g: "utf8_get_sequence ?b = (1, 0x7F)" by (simp add: get_sequence_eq)
    have nz: "?b \<noteq> 0" using b(1) by auto
    have c: "unat (?b AND 0x7F) = unat ?b" using b by (simp add: unat_and_masks)
    have "utf8_validate_from (Suc fuel) v n i a = utf8_validate_from fuel v n (w32 (i + 1)) a"
      using b g c nz n Suc.prems
      by (simp add: utf8_validate_from.simps(2) rd8_def utf8_shortest_form_def)
    also have "\<dots> = Fault No_Termination" by (rule Suc.IH) simp
    finally show ?case .
  qed simp
  then show ?thesis by (simp add: bson_utf8_validate_def)
qed

section \<open>The encoder\<close>

lemma utf8_bits_value:
  "unat (utf8_bits u n 0x3F) = u div 2 ^ n mod 64"
  "unat (utf8_bits u n 0x0F) = u div 2 ^ n mod 16"
  "unat (utf8_bits u n 0x07) = u div 2 ^ n mod 8"
  "unat (utf8_bits u n 0x03) = u div 2 ^ n mod 4"
  by (simp_all add: utf8_bits_def unat_and_masks mod_mod_cancel)

lemma nat_or_shift: "y < 2 ^ n \<Longrightarrow> (q * 2 ^ n) OR y = q * 2 ^ n + y" for q y :: nat
proof -
  assume "y < 2 ^ n"
  then have y: "y = take_bit n y" by (simp add: take_bit_nat_eq_self)
  have "push_bit n q AND take_bit n y = 0"
    by (rule bit_eqI) (auto simp: bit_simps)
  then have "push_bit n q + take_bit n y = push_bit n q OR take_bit n y"
    by (rule disjunctive_add_eq_or)
  with y show ?thesis by (simp add: push_bit_eq_mult)
qed

lemma unat_or_tags:
  "unat (x :: byte) < 64 \<Longrightarrow> unat (0x80 OR x) = 128 + unat x"
  "unat x < 32 \<Longrightarrow> unat (0xC0 OR x) = 192 + unat x"
  "unat x < 16 \<Longrightarrow> unat (0xE0 OR x) = 224 + unat x"
  "unat x < 8 \<Longrightarrow> unat (0xF0 OR x) = 240 + unat x"
  "unat x < 4 \<Longrightarrow> unat (0xF8 OR x) = 248 + unat x"
  using nat_or_shift [of "unat x" 6 2] nat_or_shift [of "unat x" 5 6] nat_or_shift [of "unat x" 4 14]
    nat_or_shift [of "unat x" 3 30] nat_or_shift [of "unat x" 2 62]
  by (simp_all add: unsigned_or_eq)

lemma unat_tail: "unat ((0x80 OR utf8_bits u n 0x3F) AND 0x3F) = u div 2 ^ n mod 64"
  using mod_range [of 2 64 "128 + u div 2 ^ n mod 64"]
  by (simp add: unat_and_masks unat_or_tags utf8_bits_value)

lemma utf8_collect_step:
  assumes "u < 4294967296" "m = 2 ^ n"
  shows "w32 (u div (m * 64) * 64 + u div m mod 64) = u div m"
proof -
  have "u div (m * 64) * 64 + u div m mod 64 = u div m"
    by (simp only: div_mult2_eq div_mult_mod_eq)
  moreover have "u div m < 4294967296" using assms(1) by (meson div_le_dividend le_less_trans)
  ultimately show ?thesis by (simp add: wrap_simps)
qed

lemma utf8_collect_next:
  assumes "u < 4294967296" "i < length v" "v ! i = 0x80 OR utf8_bits u k 0x3F"
  shows "utf8_collect v i (Suc n) (u div (2 ^ k * 64)) = utf8_collect v (Suc i) n (u div 2 ^ k)"
  using assms unat_tail [of u k] utf8_collect_step [OF assms(1) refl, of k] by (simp add: rd8_def)

lemma utf8_collect_steps:
  assumes "u < 4294967296" "i < length v"
  shows "v ! i = 0x80 OR utf8_bits u 0 0x3F \<Longrightarrow>
      utf8_collect v i (Suc n) (u div 64) = utf8_collect v (Suc i) n u"
    "v ! i = 0x80 OR utf8_bits u 6 0x3F \<Longrightarrow>
      utf8_collect v i (Suc n) (u div 4096) = utf8_collect v (Suc i) n (u div 64)"
    "v ! i = 0x80 OR utf8_bits u 12 0x3F \<Longrightarrow>
      utf8_collect v i (Suc n) (u div 262144) = utf8_collect v (Suc i) n (u div 4096)"
    "v ! i = 0x80 OR utf8_bits u 18 0x3F \<Longrightarrow>
      utf8_collect v i (Suc n) (u div 16777216) = utf8_collect v (Suc i) n (u div 262144)"
  using utf8_collect_next [OF assms, of 0 n] utf8_collect_next [OF assms, of 6 n]
    utf8_collect_next [OF assms, of 12 n] utf8_collect_next [OF assms, of 18 n]
  by (simp_all del: utf8_collect.simps(2))

lemma four_Suc: "(4 :: nat) = Suc (Suc (Suc (Suc 0)))"
  by simp

lemma utf8_char_2:
  assumes "0x7F < u" "u \<le> 0x7FF"
  shows "bson_utf8_get_char (bson_utf8_from_unichar u @ rest) = Ok u"
    "bson_utf8_next_char (bson_utf8_from_unichar u @ rest) = Ok rest"
proof -
  have d: "u div 64 < 32" using assms by (simp add: div_less_iff_less_mult)
  then have b: "unat (0xC0 OR utf8_bits u 6 0x3F) = 192 + u div 64"
    by (simp add: unat_or_tags utf8_bits_value)
  note g = get_sequence_lead(1) [of "0xC0 OR utf8_bits u 6 0x3F", unfolded b]
  show "bson_utf8_get_char (bson_utf8_from_unichar u @ rest) = Ok u"
    "bson_utf8_next_char (bson_utf8_from_unichar u @ rest) = Ok rest"
    using assms d g lead_byte_mod(1) [of "0xC0 OR utf8_bits u 6 0x3F", unfolded b]
    by (simp_all add: bson_utf8_get_char_def bson_utf8_next_char_def bson_utf8_from_unichar_def
          rd8_def unat_and_masks(3) b utf8_collect_steps del: utf8_collect.simps(2))
qed

lemma utf8_char_3:
  assumes "0x7FF < u" "u \<le> 0xFFFF"
  shows "bson_utf8_get_char (bson_utf8_from_unichar u @ rest) = Ok u"
    "bson_utf8_next_char (bson_utf8_from_unichar u @ rest) = Ok rest"
proof -
  have d: "u div 4096 < 16" using assms by (simp add: div_less_iff_less_mult)
  then have b: "unat (0xE0 OR utf8_bits u 12 0xF) = 224 + u div 4096"
    by (simp add: unat_or_tags utf8_bits_value)
  note g = get_sequence_lead(2) [of "0xE0 OR utf8_bits u 12 0xF", unfolded b]
  show "bson_utf8_get_char (bson_utf8_from_unichar u @ rest) = Ok u"
    "bson_utf8_next_char (bson_utf8_from_unichar u @ rest) = Ok rest"
    using assms d g lead_byte_mod(2) [of "0xE0 OR utf8_bits u 12 0xF", unfolded b]
    by (simp_all add: bson_utf8_get_char_def bson_utf8_next_char_def bson_utf8_from_unichar_def
          rd8_def numeral_2_eq_2 unat_and_masks(4) b utf8_collect_steps del: utf8_collect.simps(2))
qed

lemma utf8_char_4:
  assumes "0xFFFF < u" "u \<le> 0x1FFFFF"
  shows "bson_utf8_get_char (bson_utf8_from_unichar u @ rest) = Ok u"
    "bson_utf8_next_char (bson_utf8_from_unichar u @ rest) = Ok rest"
proof -
  have d: "u div 262144 < 8" using assms by (simp add: div_less_iff_less_mult)
  then have b: "unat (0xF0 OR utf8_bits u 18 0x7) = 240 + u div 262144"
    by (simp add: unat_or_tags utf8_bits_value)
  note g = get_sequence_lead(3) [of "0xF0 OR utf8_bits u 18 0x7", unfolded b]
  show "bson_utf8_get_char (bson_utf8_from_unichar u @ rest) = Ok u"
    "bson_utf8_next_char (bson_utf8_from_unichar u @ rest) = Ok rest"
    using assms d g lead_byte_mod(3) [of "0xF0 OR utf8_bits u 18 0x7", unfolded b]
    by (simp_all add: bson_utf8_get_char_def bson_utf8_next_char_def bson_utf8_from_unichar_def
          rd8_def numeral_3_eq_3 unat_and_masks(5) b utf8_collect_steps del: utf8_collect.simps(2))
qed

lemma utf8_char_5:
  assumes "0x1FFFFF < u" "u \<le> 0x3FFFFFF"
  shows "bson_utf8_get_char (bson_utf8_from_unichar u @ rest) = Ok u"
    "bson_utf8_next_char (bson_utf8_from_unichar u @ rest) = Ok rest"
proof -
  have d: "u div 16777216 < 4" using assms by (simp add: div_less_iff_less_mult)
  then have b: "unat (0xF8 OR utf8_bits u 24 0x3) = 248 + u div 16777216"
    by (simp add: unat_or_tags utf8_bits_value)
  note g = get_sequence_lead(4) [of "0xF8 OR utf8_bits u 24 0x3", unfolded b four_Suc]
  show "bson_utf8_get_char (bson_utf8_from_unichar u @ rest) = Ok u"
    "bson_utf8_next_char (bson_utf8_from_unichar u @ rest) = Ok rest"
    using assms d g lead_byte_mod(4) [of "0xF8 OR utf8_bits u 24 0x3", unfolded b]
    by (simp_all add: bson_utf8_get_char_def bson_utf8_next_char_def bson_utf8_from_unichar_def
          rd8_def unat_and_masks(6) b utf8_collect_steps del: utf8_collect.simps(2))
qed

lemma utf8_char_1:
  assumes "u \<le> 0x7F"
  shows "bson_utf8_get_char (bson_utf8_from_unichar u @ rest) = Ok u"
    "bson_utf8_next_char (bson_utf8_from_unichar u @ rest) = Ok rest"
  using assms
  by (simp_all add: bson_utf8_get_char_def bson_utf8_next_char_def bson_utf8_from_unichar_def
        rd8_def get_sequence_eq unat_and_masks(1))

section \<open>Properties\<close>

text \<open>
  C29: on every buffer of at least \<open>utf8_len\<close> bytes, and for every length that the 32-bit index
  can reach (\<open>utf8_len < 2\<^sup>3\<^sup>2\<close>), the validator returns, without reading outside those bytes, exactly
  whether they are a concatenation of encodings of Unicode scalar values (no surrogates, nothing
  above \<open>0x10FFFF\<close>), each in its shortest form, with one exception: NUL is a character in its
  two-byte form \<open>C0 80\<close> always, and in its one-byte form only when \<open>allow_null\<close> is set.
\<close>

theorem bson_utf8_validate_correct:
  assumes "utf8_len \<le> length v" "utf8_len < 2 ^ 32"
  shows "bson_utf8_validate v utf8_len allow_null = Ok (utf8_text allow_null (take utf8_len v))"
  using assms by (simp add: utf8_validate_eq)

theorem bson_utf8_validate_correct_witness:
  "utf8_text False [0x61, 0xE2, 0x82, 0xAC] \<and> \<not> utf8_text True [0x61, 0xED, 0xA0, 0x80]
     \<and> utf8_text False [0xC0, 0x80] \<and> \<not> utf8_text False [0xC1, 0x80]"
proof -
  have "bson_utf8_validate [0x61, 0xE2, 0x82, 0xAC] 4 False = Ok True"
    "bson_utf8_validate [0x61, 0xED, 0xA0, 0x80] 4 True = Ok False"
    "bson_utf8_validate [0xC0, 0x80] 2 False = Ok True"
    "bson_utf8_validate [0xC1, 0x80] 2 False = Ok False"
    by code_simp+
  then show ?thesis
    using bson_utf8_validate_correct [of 4 "[0x61, 0xE2, 0x82, 0xAC]" False]
      bson_utf8_validate_correct [of 4 "[0x61, 0xED, 0xA0, 0x80]" True]
      bson_utf8_validate_correct [of 2 "[0xC0, 0x80]" False]
      bson_utf8_validate_correct [of 2 "[0xC1, 0x80]" False]
    by simp
qed

text \<open>
  C31: encoding a code point of at most 26 bits and decoding it again gives the same code point,
  and stepping over the encoded character leaves exactly the bytes that follow it. (The six-byte
  form, from \<open>0x4000000\<close> on, does not have this property: its shifts are those of a seven-byte
  sequence.)
\<close>

theorem utf8_encode_decode:
  assumes "u \<le> 0x3FFFFFF"
  shows "bson_utf8_get_char (bson_utf8_from_unichar u @ rest) = Ok u
       \<and> bson_utf8_next_char (bson_utf8_from_unichar u @ rest) = Ok rest"
proof -
  consider "u \<le> 0x7F" | "0x7F < u" "u \<le> 0x7FF" | "0x7FF < u" "u \<le> 0xFFFF"
    | "0xFFFF < u" "u \<le> 0x1FFFFF" | "0x1FFFFF < u" "u \<le> 0x3FFFFFF"
    using assms by linarith
  then show ?thesis
    by cases (simp_all only: utf8_char_1 utf8_char_2 utf8_char_3 utf8_char_4 utf8_char_5)
qed

theorem utf8_encode_decode_witness:
  "bson_utf8_get_char (bson_utf8_from_unichar 0x20AC @ [0x21]) = Ok 0x20AC
   \<and> bson_utf8_next_char (bson_utf8_from_unichar 0x20AC @ [0x21]) = Ok [0x21]
   \<and> bson_utf8_get_char (bson_utf8_from_unichar 0x4000001) \<noteq> Ok 0x4000001"
proof -
  have "bson_utf8_get_char (bson_utf8_from_unichar 0x4000001) \<noteq> Ok 0x4000001"
    by code_simp
  then show ?thesis using utf8_encode_decode [of "0x20AC" "[0x21]"] by simp
qed

end
