(* ===== verification/Bson_Visit.thy ===== *)
theory Bson_Visit
  imports Bson_Copy Bson_Utf8
begin

text \<open>
  \<open>bson_iter_visit_all\<close> of \<open>bson-iter.c\<close>: walking over a document and calling the function of a visitor
  for each element. A visitor is a record of optional functions on a state of any type; a result of
  true stops the walk.
\<close>

section \<open>The code\<close>

record 's bson_visitor_t =
  visit_before :: "(bson_iter_t \<Rightarrow> view \<Rightarrow> 's \<Rightarrow> (bool \<times> 's) result) option"
  visit_after :: "(bson_iter_t \<Rightarrow> view \<Rightarrow> 's \<Rightarrow> (bool \<times> 's) result) option"
  visit_corrupt :: "(bson_iter_t \<Rightarrow> 's \<Rightarrow> 's result) option"
  visit_double :: "(bson_iter_t \<Rightarrow> view \<Rightarrow> 64 word \<Rightarrow> 's \<Rightarrow> (bool \<times> 's) result) option"
  visit_utf8 :: "(bson_iter_t \<Rightarrow> view \<Rightarrow> nat \<Rightarrow> view option \<Rightarrow> 's \<Rightarrow> (bool \<times> 's) result) option"
  visit_document :: "(bson_iter_t \<Rightarrow> view \<Rightarrow> bson_t \<Rightarrow> 's \<Rightarrow> (bool \<times> 's) result) option"
  visit_array :: "(bson_iter_t \<Rightarrow> view \<Rightarrow> bson_t \<Rightarrow> 's \<Rightarrow> (bool \<times> 's) result) option"
  visit_binary :: "(bson_iter_t \<Rightarrow> view \<Rightarrow> byte \<Rightarrow> nat \<Rightarrow> view option \<Rightarrow> 's \<Rightarrow> (bool \<times> 's) result) option"
  visit_undefined :: "(bson_iter_t \<Rightarrow> view \<Rightarrow> 's \<Rightarrow> (bool \<times> 's) result) option"
  visit_oid :: "(bson_iter_t \<Rightarrow> view \<Rightarrow> view option \<Rightarrow> 's \<Rightarrow> (bool \<times> 's) result) option"
  visit_bool :: "(bson_iter_t \<Rightarrow> view \<Rightarrow> bool \<Rightarrow> 's \<Rightarrow> (bool \<times> 's) result) option"
  visit_date_time :: "(bson_iter_t \<Rightarrow> view \<Rightarrow> 64 word \<Rightarrow> 's \<Rightarrow> (bool \<times> 's) result) option"
  visit_null :: "(bson_iter_t \<Rightarrow> view \<Rightarrow> 's \<Rightarrow> (bool \<times> 's) result) option"
  visit_regex :: "(bson_iter_t \<Rightarrow> view \<Rightarrow> view option \<Rightarrow> view option \<Rightarrow> 's \<Rightarrow> (bool \<times> 's) result) option"
  visit_dbpointer :: "(bson_iter_t \<Rightarrow> view \<Rightarrow> nat \<Rightarrow> view option \<Rightarrow> view option \<Rightarrow> 's \<Rightarrow> (bool \<times> 's) result) option"
  visit_code :: "(bson_iter_t \<Rightarrow> view \<Rightarrow> nat \<Rightarrow> view option \<Rightarrow> 's \<Rightarrow> (bool \<times> 's) result) option"
  visit_symbol :: "(bson_iter_t \<Rightarrow> view \<Rightarrow> nat \<Rightarrow> view option \<Rightarrow> 's \<Rightarrow> (bool \<times> 's) result) option"
  visit_codewscope :: "(bson_iter_t \<Rightarrow> view \<Rightarrow> nat \<Rightarrow> view option \<Rightarrow> bson_t \<Rightarrow> 's \<Rightarrow> (bool \<times> 's) result) option"
  visit_int32 :: "(bson_iter_t \<Rightarrow> view \<Rightarrow> 32 word \<Rightarrow> 's \<Rightarrow> (bool \<times> 's) result) option"
  visit_timestamp :: "(bson_iter_t \<Rightarrow> view \<Rightarrow> 32 word \<Rightarrow> 32 word \<Rightarrow> 's \<Rightarrow> (bool \<times> 's) result) option"
  visit_int64 :: "(bson_iter_t \<Rightarrow> view \<Rightarrow> 64 word \<Rightarrow> 's \<Rightarrow> (bool \<times> 's) result) option"
  visit_maxkey :: "(bson_iter_t \<Rightarrow> view \<Rightarrow> 's \<Rightarrow> (bool \<times> 's) result) option"
  visit_minkey :: "(bson_iter_t \<Rightarrow> view \<Rightarrow> 's \<Rightarrow> (bool \<times> 's) result) option"

text \<open>\<open>VISIT_FIELD\<close>: a missing function does not stop the walk.\<close>

definition visiting ::
    "bson_iter_t \<Rightarrow> 's \<Rightarrow> 'f option \<Rightarrow> ('f \<Rightarrow> (bool \<times> 's) result) \<Rightarrow> (bool \<times> bson_iter_t \<times> 's) result" where
  "visiting it s f call =
     (case f of None \<Rightarrow> Ok (False, it, s) | Some f \<Rightarrow> rbind (call f) (\<lambda>(stop, s). Ok (stop, it, s)))"

text \<open>\<open>bson_utf8_validate\<close> returns false for NULL.\<close>

definition utf8_validate_ptr :: "view option \<Rightarrow> nat \<Rightarrow> bool \<Rightarrow> bool result" where
  "utf8_validate_ptr p n allow_null =
     (case p of None \<Rightarrow> Ok False | Some v \<Rightarrow> bson_utf8_validate v n allow_null)"

definition mark_err :: "bson_iter_t \<Rightarrow> bson_iter_t" where
  "mark_err it = it\<lparr>i_err_off := i_off it\<rparr>"

text \<open>The switch over the type of the element.\<close>

definition visit_field ::
    "'s bson_visitor_t \<Rightarrow> view \<Rightarrow> bson_iter_t \<Rightarrow> 's \<Rightarrow> (bool \<times> bson_iter_t \<times> 's) result" where
  "visit_field vis key it s =
     rbind (bson_iter_type it) (\<lambda>t. case t of
       BSON_TYPE_DOUBLE \<Rightarrow>
         visiting it s (visit_double vis) (\<lambda>f. rbind (bson_iter_double it) (\<lambda>v. f it key v s))
     | BSON_TYPE_UTF8 \<Rightarrow>
         rbind (bson_iter_utf8 it) (\<lambda>(utf8, utf8_len).
         rbind (utf8_validate_ptr utf8 utf8_len True) (\<lambda>valid.
           if \<not> valid then Ok (True, mark_err it, s)
           else visiting it s (visit_utf8 vis) (\<lambda>f. f it key utf8_len utf8 s)))
     | BSON_TYPE_DOCUMENT \<Rightarrow>
         rbind (bson_iter_document it) (\<lambda>(doclen, docbuf). rbind (static_doc docbuf doclen) (\<lambda>b.
           case b of None \<Rightarrow> Ok (False, it, s) | Some b \<Rightarrow> visiting it s (visit_document vis) (\<lambda>f. f it key b s)))
     | BSON_TYPE_ARRAY \<Rightarrow>
         rbind (bson_iter_array it) (\<lambda>(doclen, docbuf). rbind (static_doc docbuf doclen) (\<lambda>b.
           case b of None \<Rightarrow> Ok (False, it, s) | Some b \<Rightarrow> visiting it s (visit_array vis) (\<lambda>f. f it key b s)))
     | BSON_TYPE_BINARY \<Rightarrow>
         rbind (bson_iter_binary it) (\<lambda>(subtype, binary_len, binary).
           visiting it s (visit_binary vis) (\<lambda>f. f it key subtype binary_len binary s))
     | BSON_TYPE_UNDEFINED \<Rightarrow> visiting it s (visit_undefined vis) (\<lambda>f. f it key s)
     | BSON_TYPE_OID \<Rightarrow>
         visiting it s (visit_oid vis) (\<lambda>f. rbind (bson_iter_oid it) (\<lambda>v. f it key v s))
     | BSON_TYPE_BOOL \<Rightarrow>
         visiting it s (visit_bool vis) (\<lambda>f. rbind (bson_iter_bool it) (\<lambda>v. f it key v s))
     | BSON_TYPE_DATE_TIME \<Rightarrow>
         visiting it s (visit_date_time vis) (\<lambda>f. rbind (bson_iter_date_time it) (\<lambda>v. f it key v s))
     | BSON_TYPE_NULL \<Rightarrow> visiting it s (visit_null vis) (\<lambda>f. f it key s)
     | BSON_TYPE_REGEX \<Rightarrow>
         rbind (bson_iter_regex it) (\<lambda>(regex, options).
           visiting it s (visit_regex vis) (\<lambda>f. f it key regex options s))
     | BSON_TYPE_DBPOINTER \<Rightarrow>
         rbind (bson_iter_dbpointer it 0) (\<lambda>(collection_len, collection, oid).
           visiting it s (visit_dbpointer vis) (\<lambda>f. f it key collection_len collection oid s))
     | BSON_TYPE_CODE \<Rightarrow>
         rbind (bson_iter_code it) (\<lambda>(code, code_len).
           visiting it s (visit_code vis) (\<lambda>f. f it key code_len code s))
     | BSON_TYPE_SYMBOL \<Rightarrow>
         rbind (bson_iter_symbol it) (\<lambda>(symbol, symbol_len).
           visiting it s (visit_symbol vis) (\<lambda>f. f it key symbol_len symbol s))
     | BSON_TYPE_CODEWSCOPE \<Rightarrow>
         rbind (bson_iter_codewscope it) (\<lambda>(code, len, doclen, docbuf). rbind (static_doc docbuf doclen) (\<lambda>b.
           case b of None \<Rightarrow> Ok (False, it, s)
           | Some b \<Rightarrow> visiting it s (visit_codewscope vis) (\<lambda>f. f it key len code b s)))
     | BSON_TYPE_INT32 \<Rightarrow>
         visiting it s (visit_int32 vis) (\<lambda>f. rbind (bson_iter_int32 it) (\<lambda>v. f it key v s))
     | BSON_TYPE_TIMESTAMP \<Rightarrow>
         rbind (bson_iter_timestamp it) (\<lambda>(timestamp, increment).
           visiting it s (visit_timestamp vis) (\<lambda>f. f it key timestamp increment s))
     | BSON_TYPE_INT64 \<Rightarrow>
         visiting it s (visit_int64 vis) (\<lambda>f. rbind (bson_iter_int64 it) (\<lambda>v. f it key v s))
     | BSON_TYPE_MAXKEY \<Rightarrow> visiting it s (visit_maxkey vis) (\<lambda>f. f it key s)
     | BSON_TYPE_MINKEY \<Rightarrow> visiting it s (visit_minkey vis) (\<lambda>f. f it key s)
     | _ \<Rightarrow> Ok (False, it, s))"

text \<open>The body of the loop.\<close>

definition key_is_utf8 :: "view \<Rightarrow> bool result" where
  "key_is_utf8 key =
     rbind (rd8 key 0) (\<lambda>c. if c = 0 then Ok True
       else rbind (c_strlen key) (\<lambda>n. bson_utf8_validate key n False))"

definition visit_element ::
    "'s bson_visitor_t \<Rightarrow> bson_iter_t \<Rightarrow> 's \<Rightarrow> (bool \<times> bson_iter_t \<times> 's) result" where
  "visit_element vis it s =
     rbind (bson_iter_key_unsafe it) (\<lambda>key. rbind (key_is_utf8 key) (\<lambda>valid.
       if \<not> valid then Ok (True, mark_err it, s)
       else rbind (visiting it s (visit_before vis) (\<lambda>f. f it key s)) (\<lambda>(stop, it, s).
         if stop then Ok (True, it, s)
         else rbind (visit_field vis key it s) (\<lambda>(stop, it, s).
           if stop then Ok (True, it, s)
           else visiting it s (visit_after vis) (\<lambda>f. f it key s)))))"

fun visit_loop ::
    "nat \<Rightarrow> 's bson_visitor_t \<Rightarrow> bson_iter_t \<Rightarrow> 's \<Rightarrow> (bool \<times> bson_iter_t \<times> 's) result" where
  "visit_loop 0 vis it s = Fault No_Termination"
| "visit_loop (Suc fuel) vis it s =
     rbind (bson_iter_next it) (\<lambda>(more, it).
       if \<not> more then Ok (False, it, s)
       else rbind (visit_element vis it s) (\<lambda>(stop, it, s).
         if stop then Ok (True, it, s) else visit_loop fuel vis it s))"

definition bson_iter_visit_all ::
    "bson_iter_t \<Rightarrow> 's bson_visitor_t \<Rightarrow> 's \<Rightarrow> (bool \<times> bson_iter_t \<times> 's) result" where
  "bson_iter_visit_all it vis s =
     rbind (visit_loop (iter_fuel it) vis it s) (\<lambda>(stop, it, s).
       if stop then Ok (True, it, s)
       else if i_err_off it \<noteq> 0 then
         (case visit_corrupt vis of None \<Rightarrow> Ok (False, it, s) | Some f \<Rightarrow> rbind (f it s) (\<lambda>s. Ok (False, it, s)))
       else Ok (False, it, s))"

section \<open>Walks over any bytes\<close>

text \<open>
  When every element function keeps an invariant of the state and does not fault, neither does the
  walk: it reaches the end or stops.
\<close>

lemma visit_loop_safe:
  assumes "\<And>it s. on_field it \<Longrightarrow> i_len it = n \<Longrightarrow> P s
      \<Longrightarrow> \<exists>stop it' s'. visit_element vis it s = Ok (stop, it', s') \<and> P s' \<and> (\<not> stop \<longrightarrow> it' = it)"
  shows "iter_ok it \<Longrightarrow> i_len it = n \<Longrightarrow> P s \<Longrightarrow> iter_left it < fuel
    \<Longrightarrow> \<exists>stop it' s'. visit_loop fuel vis it s = Ok (stop, it', s') \<and> P s'"
proof (induction fuel arbitrary: it s)
  case (Suc fuel)
  from bson_iter_next_cases [OF Suc.prems(1)] show ?case
  proof
    assume "\<exists>it'. bson_iter_next it = Ok (True, it') \<and> stepped it it'"
    then obtain it1 where it1: "bson_iter_next it = Ok (True, it1)" "stepped it it1" by blast
    then have f: "on_field it1" "i_len it1 = n" using Suc.prems(2) by (simp_all add: stepped_def)
    obtain stop it2 s2 where e: "visit_element vis it1 s = Ok (stop, it2, s2)" "P s2" "\<not> stop \<longrightarrow> it2 = it1"
      using assms [OF f Suc.prems(3)] by blast
    show ?thesis
    proof (cases stop)
      case False
      have "iter_left it1 < fuel"
        using bson_reader.step_left [OF it1(1) Suc.prems(1)] Suc.prems(4) by simp
      from Suc.IH [OF on_field_iter_ok [OF f(1)] f(2) e(2) this] e(1,3) False it1(1) show ?thesis by simp
    qed (use it1(1) e in auto)
  next
    assume "\<exists>it'. bson_iter_next it = Ok (False, it') \<and> i_raw it' = None"
    then show ?thesis using Suc.prems(3) by auto
  qed
qed simp

lemma visit_all_safe:
  assumes "\<And>it s. on_field it \<Longrightarrow> i_len it = n \<Longrightarrow> P s
      \<Longrightarrow> \<exists>stop it' s'. visit_element vis it s = Ok (stop, it', s') \<and> P s' \<and> (\<not> stop \<longrightarrow> it' = it)"
    "\<And>f it s. visit_corrupt vis = Some f \<Longrightarrow> P s \<Longrightarrow> \<exists>s'. f it s = Ok s' \<and> P s'"
    "iter_ok it" "i_len it = n" "P s"
  shows "\<exists>stop it' s'. bson_iter_visit_all it vis s = Ok (stop, it', s') \<and> P s'"
proof -
  obtain stop it' s' where r: "visit_loop (iter_fuel it) vis it s = Ok (stop, it', s')" "P s'"
    using visit_loop_safe [OF assms(1,3-5) iter_left_fuel] by blast
  show ?thesis
  proof (cases "visit_corrupt vis")
    case (Some f)
    then show ?thesis using r assms(2) [of f s' it'] by (auto simp: bson_iter_visit_all_def)
  qed (use r in \<open>auto simp: bson_iter_visit_all_def\<close>)
qed

lemma key_unsafe_on_field:
  assumes "on_field it"
  obtains j t where "bson_iter_key_unsafe it = Ok (j @ 0 # t)" "0 \<notin> set j" "length j < INT32_MAX"
  using on_field_key [OF assms] assms
  by (auto simp: bson_iter_key_def on_field_def split: option.splits)

lemma key_is_utf8_eq:
  "\<lbrakk>0 \<notin> set k; length k < INT32_MAX\<rbrakk>
     \<Longrightarrow> key_is_utf8 (k @ 0 # t) = Ok (k = [] \<or> utf8_text False k)"
  using utf8_validate_eq [of "length k" "k @ 0 # t" False] c_strlen_append [of k t]
  by (cases k) (auto simp: key_is_utf8_def rd8_def)

lemma on_elem_length:
  assumes "on_elem k x it"
  shows "length k + length (enc_value x) < INT32_MAX"
  using assms by (auto simp: on_elem_def length_enc_elem elim!: on_fieldE)

section \<open>Walks over a document\<close>

text \<open>What the checks of the walk itself let through.\<close>

definition key_passes :: "bytes \<Rightarrow> bool" where
  "key_passes k \<longleftrightarrow> k = [] \<or> utf8_text False k"

definition text_passes :: "bval \<Rightarrow> bool" where
  "text_passes x \<longleftrightarrow> (case x of BUtf8 t \<Rightarrow> utf8_text True t | _ \<Rightarrow> True)"

fun walk :: "(bytes \<Rightarrow> bval \<Rightarrow> 'a \<Rightarrow> bool \<times> 'a) \<Rightarrow> bdoc \<Rightarrow> 'a \<Rightarrow> bool \<times> 'a" where
  "walk step [] a = (False, a)"
| "walk step ((k, x) # es) a =
     (let (stop, a) = step k x a in if stop then (True, a) else walk step es a)"

text \<open>
  \<open>field_call vis key x it s r\<close>: for an element with the value \<open>x\<close>, \<open>r\<close> is the outcome of the call of
  the function for the type of \<open>x\<close>, with \<open>x\<close> itself as the argument.
\<close>

definition field_call ::
    "'s bson_visitor_t \<Rightarrow> view \<Rightarrow> bval \<Rightarrow> bson_iter_t \<Rightarrow> 's \<Rightarrow> (bool \<times> bson_iter_t \<times> 's) result \<Rightarrow> bool" where
  "field_call vis key x it s r \<longleftrightarrow> (case x of
     BDouble w \<Rightarrow> r = visiting it s (visit_double vis) (\<lambda>f. f it key w s)
   | BUtf8 t \<Rightarrow>
       if utf8_text True t
       then \<exists>p. points_to p (t @ [0]) \<and> r = visiting it s (visit_utf8 vis) (\<lambda>f. f it key (length t) p s)
       else r = Ok (True, mark_err it, s)
   | BDocument es \<Rightarrow> \<exists>b. holds_doc b es \<and> r = visiting it s (visit_document vis) (\<lambda>f. f it key b s)
   | BArray es \<Rightarrow> \<exists>b. holds_doc b es \<and> r = visiting it s (visit_array vis) (\<lambda>f. f it key b s)
   | BBinary sub d \<Rightarrow> \<exists>p. points_to p d \<and> r = visiting it s (visit_binary vis) (\<lambda>f. f it key sub (length d) p s)
   | BUndefined \<Rightarrow> r = visiting it s (visit_undefined vis) (\<lambda>f. f it key s)
   | BOid d \<Rightarrow> \<exists>p. points_to p d \<and> r = visiting it s (visit_oid vis) (\<lambda>f. f it key p s)
   | BBool b \<Rightarrow> r = visiting it s (visit_bool vis) (\<lambda>f. f it key b s)
   | BDateTime w \<Rightarrow> r = visiting it s (visit_date_time vis) (\<lambda>f. f it key w s)
   | BNull \<Rightarrow> r = visiting it s (visit_null vis) (\<lambda>f. f it key s)
   | BRegex re opts \<Rightarrow>
       \<exists>p q. points_to p (re @ [0]) \<and> points_to q (opts @ [0]) \<and> r = visiting it s (visit_regex vis) (\<lambda>f. f it key p q s)
   | BDBPointer c d \<Rightarrow>
       \<exists>p q. points_to p (c @ [0]) \<and> points_to q d \<and> r = visiting it s (visit_dbpointer vis) (\<lambda>f. f it key (length c) p q s)
   | BCode c \<Rightarrow> \<exists>p. points_to p (c @ [0]) \<and> r = visiting it s (visit_code vis) (\<lambda>f. f it key (length c) p s)
   | BSymbol c \<Rightarrow> \<exists>p. points_to p (c @ [0]) \<and> r = visiting it s (visit_symbol vis) (\<lambda>f. f it key (length c) p s)
   | BCodeWScope c es \<Rightarrow>
       \<exists>p b. points_to p (c @ [0]) \<and> holds_doc b es \<and> r = visiting it s (visit_codewscope vis) (\<lambda>f. f it key (length c) p b s)
   | BInt32 w \<Rightarrow> r = visiting it s (visit_int32 vis) (\<lambda>f. f it key w s)
   | BTimestamp ts i \<Rightarrow> r = visiting it s (visit_timestamp vis) (\<lambda>f. f it key ts i s)
   | BInt64 w \<Rightarrow> r = visiting it s (visit_int64 vis) (\<lambda>f. f it key w s)
   | BMaxKey \<Rightarrow> r = visiting it s (visit_maxkey vis) (\<lambda>f. f it key s)
   | BMinKey \<Rightarrow> r = visiting it s (visit_minkey vis) (\<lambda>f. f it key s))"

lemma static_doc_holds:
  assumes "points_to p (encode_doc es)" "wf_doc es"
  shows "\<exists>b. static_doc p (length (encode_doc es)) = Ok (Some b) \<and> holds_doc b es"
proof -
  obtain t where t: "p = Some (encode_doc es @ t)" using assms(1) by (auto simp: points_to_def)
  have n: "length (enc_elems es) + 5 \<le> INT32_MAX" using assms(2) by (simp add: wf_doc_def)
  have "rd32 (encode_doc es @ t) 0 = Ok (length (encode_doc es))"
    "rd8 (encode_doc es @ t) (length (encode_doc es) - 1) = Ok 0"
    using encode_doc_head [OF n, of t] by simp_all
  then show ?thesis using n assms(2)
    by (simp add: t static_doc_def bson_init_static_def holds_doc_def points_to_def bson_data_def)
qed

lemma wf_doc_scope:
  assumes "on_elem k (BCodeWScope c es) it"
  shows "wf_doc es"
proof -
  obtain v where "wf_value (BCodeWScope c es)" "i_off it + length (enc_elem k (BCodeWScope c es)) < i_len it" "i_len it \<le> INT32_MAX"
    using assms by (rule on_elemE)
  then show ?thesis by (auto simp: wf_doc_def length_enc_elem)
qed

lemma visit_field_document:
  assumes "on_elem k x it" "x = BDocument es \<or> x = BArray es"
  shows "field_call vis key x it s (visit_field vis key it s)"
proof -
  obtain p where p: "points_to p (encode_doc es)"
    "(if x = BDocument es then bson_iter_document it else bson_iter_array it) = Ok (length (encode_doc es), p)"
    using document_on_elem [OF assms] by blast
  obtain b where b: "static_doc p (length (encode_doc es)) = Ok (Some b)" "holds_doc b es"
    using static_doc_holds [OF p(1) wf_doc_child [OF assms]] by blast
  have ty: "bson_iter_type it = Ok (val_type x)"
    using on_elemE [OF assms(1)] bson_iter_type_on_field by metis
  show ?thesis using assms(2) p(2) b
    by (auto simp: visit_field_def ty field_call_def simp del: length_encode_doc split: if_splits)
qed

lemma visit_field_on_elem:
  assumes "on_elem k x it"
  shows "field_call vis key x it s (visit_field vis key it s)"
proof -
  have ty: "bson_iter_type it = Ok (val_type x)"
    using on_elemE [OF assms] bson_iter_type_on_field by metis
  note vf = visit_field_def ty field_call_def
  show ?thesis
  proof (cases x)
    case (BUtf8 t)
    then obtain p where p: "bson_iter_utf8 it = Ok (p, length t)" "points_to p (t @ [0])"
      using string_on_elem [of k x it bson_iter_utf8 t] assms by auto
    then obtain u where u: "p = Some (t @ 0 # u)" by (auto simp: points_to_def)
    have "length t < INT32_MAX" using on_elem_length [OF assms] by (simp add: BUtf8 enc_string_def)
    then have "bson_utf8_validate (t @ 0 # u) (length t) True = Ok (utf8_text True t)"
      by (simp add: utf8_validate_eq)
    then show ?thesis using BUtf8 p u by (auto simp: vf utf8_validate_ptr_def)
  next
    case (BDocument es)
    show ?thesis by (rule visit_field_document [OF assms]) (rule disjI1, rule BDocument)
  next
    case (BArray es)
    show ?thesis by (rule visit_field_document [OF assms]) (rule disjI2, rule BArray)
  next
    case (BCode c)
    then show ?thesis using string_on_elem [of k x it bson_iter_code c] assms by (auto simp: vf)
  next
    case (BSymbol c)
    then show ?thesis using string_on_elem [of k x it bson_iter_symbol c] assms by (auto simp: vf)
  next
    case (BCodeWScope c es)
    then obtain p q where p: "bson_iter_codewscope it = Ok (p, length c, length (encode_doc es), q)"
      "points_to p (c @ [0])" "points_to q (encode_doc es)"
      using codewscope_on_elem [of k c es it] assms by auto
    obtain b where b: "static_doc q (length (encode_doc es)) = Ok (Some b)" "holds_doc b es"
      using static_doc_holds [OF p(3) wf_doc_scope] assms BCodeWScope by blast
    then show ?thesis using p BCodeWScope by (auto simp: vf simp del: length_encode_doc)
  next
    case (BBinary sub d)
    then show ?thesis using binary_on_elem [of k sub d it] assms by (auto simp: vf)
  next
    case (BOid d)
    then obtain p where "bson_iter_oid it = Ok p" "points_to p d" using oid_on_elem [of k d it] assms by auto
    then show ?thesis using BOid by (auto simp: vf)
  next
    case (BRegex r opts)
    then obtain p q where "bson_iter_regex it = Ok (p, q)" "points_to p (r @ [0])" "points_to q (opts @ [0])"
      using regex_on_elem [of k r opts it] assms by auto
    then show ?thesis by (simp add: vf BRegex) blast
  next
    case (BDBPointer c d)
    then obtain p q where "bson_iter_dbpointer it 0 = Ok (length c, p, q)" "points_to p (c @ [0])" "points_to q d"
      using dbpointer_on_elem [of k c d it 0] assms by auto
    then show ?thesis by (simp add: vf BDBPointer) blast
  next
    case (BTimestamp ts i)
    then show ?thesis using timestamp_on_elem [of k ts i it] assms by (auto simp: vf)
  qed (use assms fixed_accessors_on_elem in \<open>auto simp: vf\<close>)
qed

lemma key_unsafe_on_elem:
  assumes "on_elem k x it"
  obtains t where "bson_iter_key_unsafe it = Ok (k @ 0 # t)" "0 \<notin> set k"
  using on_elem_key [OF assms] assms
  by (auto simp: bson_iter_key_def on_elem_def on_field_def split: option.splits)

text \<open>The body of the loop on an element.\<close>

lemma visit_element_on_elem:
  assumes "on_elem k x it"
  shows "\<exists>t. bson_iter_key_unsafe it = Ok (k @ 0 # t) \<and> 0 \<notin> set k
     \<and> (\<forall>s. visit_element vis it s = (if \<not> key_passes k then Ok (True, mark_err it, s)
       else rbind (visiting it s (visit_before vis) (\<lambda>f. f it (k @ 0 # t) s)) (\<lambda>(stop, it, s).
         if stop then Ok (True, it, s)
         else rbind (visit_field vis (k @ 0 # t) it s) (\<lambda>(stop, it, s).
           if stop then Ok (True, it, s) else visiting it s (visit_after vis) (\<lambda>f. f it (k @ 0 # t) s)))))"
proof -
  obtain t where t: "bson_iter_key_unsafe it = Ok (k @ 0 # t)" "0 \<notin> set k"
    using key_unsafe_on_elem [OF assms] .
  have "length k < INT32_MAX" using on_elem_length [OF assms] by simp
  with t key_is_utf8_eq [OF t(2), of t] show ?thesis
    by (intro exI [of _ t]) (simp add: visit_element_def key_passes_def)
qed

text \<open>
  When every element function follows the abstract step \<open>step\<close>, the walk over a document follows
  \<open>walk step\<close>.
\<close>

lemma visit_loop_doc:
  assumes "\<And>k x it s a stop a'. (k, x) \<in> set es \<Longrightarrow> on_elem k x it \<Longrightarrow> i_len it = length (encode_doc es) \<Longrightarrow> R s a
      \<Longrightarrow> step k x a = (stop, a')
      \<Longrightarrow> \<exists>it' s'. visit_element vis it s = Ok (stop, it', s') \<and> R s' a' \<and> (\<not> stop \<longrightarrow> it' = it)"
  shows "iter_upto es n it \<Longrightarrow> R s a \<Longrightarrow> length es - n < fuel \<Longrightarrow> walk step (drop n es) a = (stop, a')
    \<Longrightarrow> \<exists>it' s'. visit_loop fuel vis it s = Ok (stop, it', s') \<and> R s' a' \<and> (\<not> stop \<longrightarrow> i_err_off it' = 0)"
proof (induction fuel arbitrary: n it s a)
  case (Suc fuel)
  show ?case
  proof (cases "n < length es")
    case True
    obtain k x where kx: "es ! n = (k, x)" by fastforce
    obtain it1 where it1: "bson_iter_next it = Ok (True, it1)" "iter_upto es (Suc n) it1" "on_elem k x it1"
      using iter_upto_next [OF Suc.prems(1) True] kx by (metis fst_conv snd_conv)
    have dr: "drop n es = (k, x) # drop (Suc n) es" using True kx by (metis Cons_nth_drop_Suc)
    have mem: "(k, x) \<in> set es" using True kx by (metis nth_mem)
    have len: "i_len it1 = length (encode_doc es)" using it1(2) by (simp add: iter_upto_def)
    obtain stop1 a1 where a1: "step k x a = (stop1, a1)" by fastforce
    obtain it2 s2 where e: "visit_element vis it1 s = Ok (stop1, it2, s2)" "R s2 a1" "\<not> stop1 \<longrightarrow> it2 = it1"
      using assms [OF mem it1(3) len Suc.prems(2) a1] by blast
    show ?thesis
    proof (cases stop1)
      case True
      then show ?thesis using Suc.prems(4) it1(1) e by (auto simp: dr a1)
    next
      case False
      have "length es - Suc n < fuel" using Suc.prems(3) True by simp
      moreover have "walk step (drop (Suc n) es) a1 = (stop, a')" using Suc.prems(4) False by (simp add: dr a1)
      ultimately show ?thesis using Suc.IH [OF it1(2) e(2)] it1(1) e(1,3) False by simp
    qed
  next
    case False
    with Suc.prems(1) have n: "n = length es" by (simp add: iter_upto_def)
    obtain it' where "bson_iter_next it = Ok (False, it')" "i_err_off it' = 0"
      using iter_upto_end Suc.prems(1) unfolding n by blast
    then show ?thesis using Suc.prems(2,4) by (simp add: n)
  qed
qed simp

lemma visit_all_doc:
  assumes "\<And>k x it s a stop a'. (k, x) \<in> set es \<Longrightarrow> on_elem k x it \<Longrightarrow> i_len it = length (encode_doc es) \<Longrightarrow> R s a
      \<Longrightarrow> step k x a = (stop, a')
      \<Longrightarrow> \<exists>it' s'. visit_element vis it s = Ok (stop, it', s') \<and> R s' a' \<and> (\<not> stop \<longrightarrow> it' = it)"
    "iter_upto es 0 it" "R s a" "walk step es a = (stop, a')"
  shows "\<exists>it' s'. bson_iter_visit_all it vis s = Ok (stop, it', s') \<and> R s' a' \<and> (\<not> stop \<longrightarrow> i_err_off it' = 0)"
proof -
  have "length es - 0 < iter_fuel it"
    using length_le_enc_elems [of es] assms(2) by (simp add: iter_upto_def iter_fuel_def)
  moreover have "walk step (drop 0 es) a = (stop, a')" using assms(4) by simp
  ultimately have "\<exists>it' s'. visit_loop (iter_fuel it) vis it s = Ok (stop, it', s') \<and> R s' a' \<and> (\<not> stop \<longrightarrow> i_err_off it' = 0)"
    by (intro visit_loop_doc [where R = R and step = step, OF _ assms(2,3)]) (rule assms(1))
  then show ?thesis by (cases stop) (auto simp: bson_iter_visit_all_def)
qed

section \<open>Properties\<close>


text \<open>A visitor that adds up the 32-bit numbers and stops when the sum is above 20.\<close>

definition sum_visitor :: "32 word bson_visitor_t" where
  "sum_visitor = \<lparr>visit_before = None, visit_after = Some (\<lambda>it key s. Ok (20 < s, s)), visit_corrupt = None,
     visit_double = None, visit_utf8 = None, visit_document = None, visit_array = None, visit_binary = None,
     visit_undefined = None, visit_oid = None, visit_bool = None, visit_date_time = None, visit_null = None,
     visit_regex = None, visit_dbpointer = None, visit_code = None, visit_symbol = None, visit_codewscope = None,
     visit_int32 = Some (\<lambda>it key v s. Ok (False, s + v)), visit_timestamp = None, visit_int64 = None,
     visit_maxkey = None, visit_minkey = None\<rparr>"


end
