(* ===== verification/Bson_String.thy ===== *)
theory Bson_String
  imports Bson_Copy Bson_Utf8
begin

text \<open>
  The growing strings of \<open>bson-string.c\<close>, the \<open>printf\<close> conversions the library uses with them, and
  \<open>bson_utf8_escape_for_json\<close> of \<open>bson-utf8.c\<close>.
\<close>

section \<open>Formatted numbers\<close>

text \<open>A string literal, with its NUL.\<close>

abbreviation chars :: "string \<Rightarrow> byte list" where
  "chars s \<equiv> map of_char s"

definition lit :: "string \<Rightarrow> view" where
  "lit s = chars s @ [0]"

text \<open>\<open>%u\<close>, \<open>%d\<close>, \<open>%04u\<close> and \<open>%02x\<close>.\<close>

fun c_decimal :: "nat \<Rightarrow> byte list" where
  "c_decimal n = (if n < 10 then [] else c_decimal (n div 10)) @ [of_nat (48 + n mod 10)]"

declare c_decimal.simps [simp del]

definition c_signed :: "int \<Rightarrow> byte list" where
  "c_signed i = (if i < 0 then 45 # c_decimal (nat (- i)) else c_decimal (nat i))"

definition zero_padded :: "nat \<Rightarrow> byte list \<Rightarrow> byte list" where
  "zero_padded n ds = replicate (n - length ds) 48 @ ds"

definition hex_digit :: "nat \<Rightarrow> byte" where
  "hex_digit d = of_nat (if d < 10 then 48 + d else 87 + d)"

definition hex_pair :: "byte \<Rightarrow> byte list" where
  "hex_pair b = [hex_digit (unat b div 16), hex_digit (unat b mod 16)]"

text \<open>
  \<open>%lf\<close>: the exact value to six places, ties to even, as the default rounding mode asks for.
\<close>

definition c_lf :: "64 word \<Rightarrow> byte list" where
  "c_lf d =
     (let sign = (if double_negative d then [45] else []) in
      if double_exponent d = 2047
      then sign @ chars (if double_fraction d = 0 then ''inf'' else ''nan'')
      else
        let (m, e) = double_magnitude d;
            n = (if 0 \<le> e then m * 2 ^ nat e * 10 ^ 6 else round_even (m * 10 ^ 6) (nat (- e)))
        in sign @ c_decimal (n div 10 ^ 6) @ [46] @ zero_padded 6 (c_decimal (n mod 10 ^ 6)))"

section \<open>Growing strings\<close>

text \<open>
  The characters so far, their number being the member \<open>len\<close>, and the size of the block they are in.
  Behind the characters the block holds a NUL.
\<close>

record bson_string_t =
  st_str :: "byte list"
  st_alloc :: nat

definition bson_is_power_of_two :: "nat \<Rightarrow> bool" where
  "bson_is_power_of_two v \<longleftrightarrow> v \<noteq> 0 \<and> (of_nat v :: 32 word) AND (of_nat v - 1) = 0"

definition string_size :: "nat \<Rightarrow> nat" where
  "string_size alloc = (if \<not> bson_is_power_of_two alloc then w32 (npot alloc) else alloc)"

definition bson_string_new :: "view option \<Rightarrow> bson_string_t result" where
  "bson_string_new str =
     rbind (case str of Some v \<Rightarrow> c_string v | None \<Rightarrow> Ok []) (\<lambda>s.
       let alloc = string_size (w32 (length s + 1)) in
       if alloc < 1 then Fault Assertion_Failed
       else if alloc \<le> length s then Fault Out_Of_Bounds
       else Ok \<lparr>st_str = s, st_alloc = alloc\<rparr>)"

text \<open>Nothing is appended for a NULL argument.\<close>

definition bson_string_append :: "bson_string_t \<Rightarrow> view option \<Rightarrow> bson_string_t result" where
  "bson_string_append string str =
     (case str of None \<Rightarrow> Ok string
      | Some v \<Rightarrow> rbind (c_string v) (\<lambda>s.
          let len = w32 (length s);
              alloc = (if sub32 (sub32 (st_alloc string) (length (st_str string))) 1 < len
                       then string_size (w32 (st_alloc string + len)) else st_alloc string) in
          if alloc \<le> length (st_str string) + len then Fault Out_Of_Bounds
          else Ok \<lparr>st_str = st_str string @ take len s, st_alloc = alloc\<rparr>))"

definition bson_string_append_c :: "bson_string_t \<Rightarrow> byte \<Rightarrow> bson_string_t result" where
  "bson_string_append_c string c =
     (if st_alloc string = w32 (length (st_str string) + 1) then bson_string_append string (Some [c, 0])
      else if st_alloc string \<le> length (st_str string) + 1 then Fault Out_Of_Bounds
      else Ok (string\<lparr>st_str := st_str string @ [c]\<rparr>))"

definition bson_string_append_unichar :: "bson_string_t \<Rightarrow> nat \<Rightarrow> bson_string_t result" where
  "bson_string_append_unichar string unichar =
     (if unichar = 0 then Fault Assertion_Failed
      else let str = bson_utf8_from_unichar unichar in
        if length str \<le> 6 then bson_string_append string (Some (str @ [0])) else Ok string)"

text \<open>The second argument is the formatted text.\<close>

definition bson_string_append_printf :: "bson_string_t \<Rightarrow> byte list \<Rightarrow> bson_string_t result" where
  "bson_string_append_printf string formatted = bson_string_append string (Some (formatted @ [0]))"

text \<open>A string as the modelled callers keep it: at most half a gigabyte, with room for its NUL.\<close>

definition STRING_LIMIT :: nat where
  "STRING_LIMIT = 536870912"

definition holds_string :: "bson_string_t \<Rightarrow> byte list \<Rightarrow> bool" where
  "holds_string st s \<longleftrightarrow> st_str st = s \<and> length s < st_alloc st \<and> st_alloc st \<le> 4 * length s + 4"

lemma string_size_bounds:
  assumes "0 < n" "n < 2147483649"
  shows "n \<le> string_size n" "string_size n \<le> 2 * n"
proof -
  have n: "n \<le> 2 ^ 63" using assms(2) by simp
  obtain k where k: "npot n = 2 ^ k" "n \<le> 2 ^ k" "\<And>j. n \<le> 2 ^ j \<Longrightarrow> k \<le> j" "k \<le> 63"
    using npot_least [OF assms(1) n] by metis
  have "npot n < 2 * n"
  proof (cases k)
    case 0
    then show ?thesis using k assms(1) by simp
  next
    case (Suc j)
    then have "\<not> n \<le> 2 ^ j" using k(3) [of j] by auto
    then show ?thesis using k(1) Suc by simp
  qed
  moreover have "npot n < 4294967296"
  proof -
    have "n \<le> 2 ^ 31" using assms(2) by simp
    then have "k \<le> 31" by (rule k(3))
    then have "(2 :: nat) ^ k \<le> 2 ^ 31" by (intro power_increasing) auto
    then show ?thesis using k(1) by simp
  qed
  ultimately show "n \<le> string_size n" "string_size n \<le> 2 * n"
    using k(1,2) by (simp_all add: string_size_def w32_id)
qed

lemma string_new:
  assumes "c_string v = Ok s" "length s \<le> STRING_LIMIT"
  shows "\<exists>st. bson_string_new (Some v) = Ok st \<and> holds_string st s"
  using assms string_size_bounds [of "length s + 1"]
  by (auto simp: bson_string_new_def holds_string_def w32_id STRING_LIMIT_def Let_def)

lemma string_new_empty: "\<exists>st. bson_string_new None = Ok st \<and> holds_string st []"
  using string_size_bounds [of 1] by (auto simp: bson_string_new_def holds_string_def w32_id Let_def)

lemma string_append:
  assumes "holds_string st s" "c_string v = Ok t" "length (s @ t) \<le> STRING_LIMIT"
  shows "\<exists>st'. bson_string_append st (Some v) = Ok st' \<and> holds_string st' (s @ t)"
proof -
  have l: "length s < st_alloc st" "st_alloc st \<le> 4 * length s + 4" "st_str st = s" "length s + length t \<le> 536870912"
    using assms by (simp_all add: holds_string_def STRING_LIMIT_def)
  have w: "w32 (length t) = length t" "sub32 (sub32 (st_alloc st) (length s)) 1 = st_alloc st - length s - 1"
    "w32 (st_alloc st + length t) = st_alloc st + length t"
    using l by (simp_all add: wrap_simps)
  show ?thesis
  proof (cases "st_alloc st - length s - 1 < length t")
    case True
    define n where "n = string_size (st_alloc st + length t)"
    have n: "st_alloc st + length t \<le> n" "n \<le> 2 * (st_alloc st + length t)"
      unfolding n_def using string_size_bounds [of "st_alloc st + length t"] l True by linarith+
    have "st_alloc st \<le> length s + length t" using True l by arith
    then have nn: "n \<le> 4 * (length s + length t) + 4" using n(2) by (simp add: algebra_simps)
    have "length s + length t < n" using n(1) l(1) by linarith
    then show ?thesis
      using nn True assms(2) w l by (simp add: bson_string_append_def holds_string_def Let_def n_def [symmetric])
  next
    case False
    then show ?thesis using assms(2) w l by (simp add: bson_string_append_def holds_string_def Let_def)
  qed
qed


lemma string_append_lit:
  assumes "holds_string st s" "0 \<notin> set t" "length (s @ t) \<le> STRING_LIMIT"
  shows "\<exists>st'. bson_string_append st (Some (t @ [0])) = Ok st' \<and> holds_string st' (s @ t)"
  using string_append [OF assms(1) _ assms(3)] c_string_append [OF assms(2), of "[]"] by simp

lemma string_append_c:
  assumes "holds_string st s" "c \<noteq> 0" "length (s @ [c]) \<le> STRING_LIMIT"
  shows "\<exists>st'. bson_string_append_c st c = Ok st' \<and> holds_string st' (s @ [c])"
  using string_append_lit [OF assms(1), of "[c]"] assms
  by (auto simp: bson_string_append_c_def holds_string_def w32_id STRING_LIMIT_def)

lemma from_unichar_enc:
  assumes "u \<le> 0x10FFFF"
  shows "bson_utf8_from_unichar u = utf8_enc u"
proof -
  have tail: "0x80 OR utf8_bits u n 0x3F = of_nat (128 + u div 2 ^ n mod 64)" for n
    by (simp add: word_unat_eq_iff unat_or_tags utf8_bits_value del: of_nat_add)
  have "0xC0 OR utf8_bits u 6 0x3F = of_nat (192 + u div 64)" if "u \<le> 0x7FF"
  proof -
    have "u div 64 < 32" using that by (simp add: div_less_iff_less_mult)
    then show ?thesis by (simp add: word_unat_eq_iff unat_or_tags utf8_bits_value del: of_nat_add)
  qed
  moreover have "0xE0 OR utf8_bits u 12 0xF = of_nat (224 + u div 4096)" if "u \<le> 0xFFFF"
  proof -
    have "u div 4096 < 16" using that by (simp add: div_less_iff_less_mult)
    then show ?thesis by (simp add: word_unat_eq_iff unat_or_tags utf8_bits_value del: of_nat_add)
  qed
  moreover have "0xF0 OR utf8_bits u 18 0x7 = of_nat (240 + u div 262144)"
  proof -
    have "u div 262144 < 8" using assms by (simp add: div_less_iff_less_mult)
    then show ?thesis by (simp add: word_unat_eq_iff unat_or_tags utf8_bits_value del: of_nat_add)
  qed
  ultimately show ?thesis
    using assms tail [of 0] tail [of 6] tail [of 12] by (simp add: bson_utf8_from_unichar_def utf8_enc_def)
qed

lemma of_nat_byte_zero: "(of_nat n :: byte) = 0 \<longleftrightarrow> n mod 256 = 0"
  by (simp add: word_unat_eq_iff)

lemma utf8_enc_bytes:
  assumes "0 < u" "u \<le> 0x10FFFF"
  shows "0 \<notin> set (utf8_enc u)" "length (utf8_enc u) \<le> 4"
proof -
  have "u div 64 < 32" if "u < 0x800" using that by (simp add: div_less_iff_less_mult)
  moreover have "u div 4096 < 16" if "u < 0x10000" using that by (simp add: div_less_iff_less_mult)
  moreover have "u div 262144 < 8" using assms by (simp add: div_less_iff_less_mult)
  moreover have "u div 64 mod 64 < 64" "u div 4096 mod 64 < 64" "u mod 64 < 64" by simp_all
  ultimately show "0 \<notin> set (utf8_enc u)" using assms(1)
    by (auto simp: utf8_enc_def of_nat_byte_zero simp del: of_nat_add dest!: sym [of 0])
  show "length (utf8_enc u) \<le> 4" by (simp add: utf8_enc_def)
qed


section \<open>Escaping\<close>

text \<open>The switch of \<open>bson_utf8_escape_for_json\<close>.\<close>

definition escape_char :: "bson_string_t \<Rightarrow> nat \<Rightarrow> bson_string_t result" where
  "escape_char str c =
     (if c = 92 \<or> c = 34 \<or> c = 47
      then rbind (bson_string_append_c str 92) (\<lambda>str. bson_string_append_unichar str c)
      else if c = 8 then bson_string_append str (Some [92, 98, 0])
      else if c = 12 then bson_string_append str (Some [92, 102, 0])
      else if c = 10 then bson_string_append str (Some [92, 110, 0])
      else if c = 13 then bson_string_append str (Some [92, 114, 0])
      else if c = 9 then bson_string_append str (Some [92, 116, 0])
      else if c < 32 then bson_string_append_printf str ([92, 117] @ zero_padded 4 (c_decimal c))
      else bson_string_append_unichar str c)"

text \<open>
  The loop with \<open>n\<close> bytes left before \<open>end\<close>. A turn that moves forward moves by one byte at least, so
  a fuel above \<open>n\<close> runs out only if the loop stands still on a byte that begins no sequence.
\<close>

fun escape_loop :: "nat \<Rightarrow> view \<Rightarrow> int \<Rightarrow> bson_string_t \<Rightarrow> bson_string_t result" where
  "escape_loop 0 utf8 n str = Fault No_Termination"
| "escape_loop (Suc fuel) utf8 n str =
     (if n \<le> 0 then Ok str
      else rbind (bson_utf8_get_char utf8) (\<lambda>c. rbind (escape_char str c) (\<lambda>str.
        rbind (rd8 utf8 0) (\<lambda>b. rbind (bson_utf8_next_char utf8) (\<lambda>utf8.
          escape_loop fuel utf8 (n - int (fst (utf8_get_sequence b))) str)))))"

text \<open>The string returned, without its NUL.\<close>

definition bson_utf8_escape_for_json :: "view option \<Rightarrow> int \<Rightarrow> byte list option result" where
  "bson_utf8_escape_for_json utf8 utf8_len =
     (case utf8 of None \<Rightarrow> Ok None
      | Some v \<Rightarrow> rbind (bson_string_new None) (\<lambda>str.
          rbind (if utf8_len < 0 then rbind (c_strlen v) (\<lambda>n. Ok (int n)) else Ok utf8_len) (\<lambda>n.
            rbind (escape_loop (nat n + 1) v n str) (\<lambda>str. Ok (Some (st_str str))))))"

text \<open>
  What it computes on a valid text, byte by byte: the bytes of a character above \<open>7F\<close> are copied, and
  the two-byte NUL is written like the one-byte NUL.
\<close>

definition json_byte :: "byte \<Rightarrow> byte list" where
  "json_byte b =
     (if b = 92 \<or> b = 34 \<or> b = 47 then [92, b]
      else if b = 8 then [92, 98] else if b = 12 then [92, 102] else if b = 10 then [92, 110]
      else if b = 13 then [92, 114] else if b = 9 then [92, 116]
      else if b < 32 then [92, 117] @ zero_padded 4 (c_decimal (unat b))
      else [b])"

fun json_escape :: "byte list \<Rightarrow> byte list" where
  "json_escape [] = []"
| "json_escape (b # bs) =
     (if b = 0xC0 \<and> take 1 bs = [0x80] then json_byte 0 @ json_escape (drop 1 bs)
      else json_byte b @ json_escape bs)"

lemma c_decimal_nonzero: "0 \<notin> set (c_decimal n)"
  by (induction n rule: c_decimal.induct)
    (subst c_decimal.simps, auto simp: of_nat_byte_zero simp del: of_nat_add dest!: sym [of 0])

lemma zero_padded_nonzero: "0 \<notin> set ds \<Longrightarrow> 0 \<notin> set (zero_padded n ds)"
  by (auto simp: zero_padded_def)

lemma json_byte_nonzero: "0 \<notin> set (json_byte b)"
  using zero_padded_nonzero [OF c_decimal_nonzero] by (auto simp: json_byte_def)

lemma json_escape_nonzero: "0 \<notin> set (json_escape bs)"
  by (induction bs rule: json_escape.induct) (auto simp: json_byte_nonzero)

lemma json_escape_high:
  "(\<And>b. b \<in> set bs \<Longrightarrow> 128 \<le> unat b \<and> b \<noteq> 0xC0) \<Longrightarrow> json_escape (bs @ cs) = bs @ json_escape cs"
proof (induction bs)
  case (Cons b bs)
  have "128 \<le> unat b" "b \<noteq> 0xC0" using Cons.prems [of b] by simp_all
  moreover have "json_byte b = [b]"
    using \<open>128 \<le> unat b\<close> by (auto simp: json_byte_def word_less_nat_alt)
  ultimately show ?case using Cons by simp
qed simp

definition json_char :: "nat \<Rightarrow> byte list" where
  "json_char c = (if c < 128 then json_byte (of_nat c) else utf8_enc c)"

lemma json_escape_enc:
  assumes "c \<le> 0x10FFFF"
  shows "json_escape (utf8_enc c @ bs) = json_char c @ json_escape bs"
proof (cases "c < 128")
  case True
  then have "(of_nat c :: byte) \<noteq> 0xC0" by (simp add: of_nat_byte_eq)
  with True show ?thesis by (simp add: utf8_enc_def json_char_def)
next
  case False
  have "c div 64 < 32" if "c < 0x800" using that by (simp add: div_less_iff_less_mult)
  moreover have "c div 4096 < 16" if "c < 0x10000" using that by (simp add: div_less_iff_less_mult)
  moreover have "c div 262144 < 8" using assms by (simp add: div_less_iff_less_mult)
  moreover have "c div 64 \<noteq> 0" using False by simp
  moreover have "c div 64 mod 64 < 64" "c div 4096 mod 64 < 64" "c mod 64 < 64" by simp_all
  ultimately have "128 \<le> unat b \<and> b \<noteq> 0xC0" if "b \<in> set (utf8_enc c)" for b
    using that False by (auto simp: utf8_enc_def of_nat_byte_eq simp del: of_nat_add split: if_splits)
  then show ?thesis using False json_escape_high [of "utf8_enc c" bs] by (simp add: json_char_def)
qed

lemma escape_char_holds:
  assumes "holds_string st s" "c \<le> 0x10FFFF" "length (s @ json_char c) \<le> STRING_LIMIT"
  shows "\<exists>st'. escape_char st c = Ok st' \<and> holds_string st' (s @ json_char c)"
proof -
  have uni: "\<exists>st'. bson_string_append_unichar st c = Ok st' \<and> holds_string st' (s @ utf8_enc c)"
    if "holds_string st s" "c \<noteq> 0" "length (s @ utf8_enc c) \<le> STRING_LIMIT" for st s
    using string_append_lit [OF that(1) utf8_enc_bytes(1) that(3)] that(2) assms(2) utf8_enc_bytes(2) [of c]
    by (simp add: bson_string_append_unichar_def from_unichar_enc)
  consider "c = 92 \<or> c = 34 \<or> c = 47" | "c = 8 \<or> c = 12 \<or> c = 10 \<or> c = 13 \<or> c = 9"
    | "c < 32" "c \<noteq> 8" "c \<noteq> 12" "c \<noteq> 10" "c \<noteq> 13" "c \<noteq> 9" | "32 \<le> c" "c \<noteq> 92" "c \<noteq> 34" "c \<noteq> 47"
    by linarith
  then show ?thesis
  proof cases
    case 1
    then have j: "json_char c = [92, of_nat c]" "utf8_enc c = [of_nat c]" by (auto simp: json_char_def json_byte_def utf8_enc_def)
    obtain st1 where st1: "bson_string_append_c st 92 = Ok st1" "holds_string st1 (s @ [92])"
      using string_append_c [OF assms(1), of 92] assms(3) j by auto
    then show ?thesis using 1 uni [OF st1(2)] assms(3) j by (auto simp: escape_char_def)
  next
    case 2
    have short: "\<exists>st'. bson_string_append st (Some [92, b, 0]) = Ok st' \<and> holds_string st' (s @ json_char c)"
      if "json_char c = [92, b]" "b \<noteq> 0" for b
      using string_append_lit [OF assms(1), of "[92, b]"] assms(3) that by simp
    from 2 show ?thesis
    proof (elim disjE)
      assume "c = 8"
      then show ?thesis using short [of 98] by (simp add: escape_char_def json_char_def json_byte_def)
    next
      assume "c = 12"
      then show ?thesis using short [of 102] by (simp add: escape_char_def json_char_def json_byte_def)
    next
      assume "c = 10"
      then show ?thesis using short [of 110] by (simp add: escape_char_def json_char_def json_byte_def)
    next
      assume "c = 13"
      then show ?thesis using short [of 114] by (simp add: escape_char_def json_char_def json_byte_def)
    next
      assume "c = 9"
      then show ?thesis using short [of 116] by (simp add: escape_char_def json_char_def json_byte_def)
    qed
  next
    case 3
    then have "json_char c = [92, 117] @ zero_padded 4 (c_decimal c)"
      by (auto simp: json_char_def json_byte_def of_nat_byte_eq word_less_nat_alt)
    moreover have "0 \<notin> set ([92, 117] @ zero_padded 4 (c_decimal c))"
      using zero_padded_nonzero [OF c_decimal_nonzero] by simp
    ultimately show ?thesis
      using 3 string_append_lit [OF assms(1), of "json_char c"] assms(3)
      by (simp add: escape_char_def bson_string_append_printf_def)
  next
    case 4
    then have "json_char c = utf8_enc c"
      by (auto simp: json_char_def json_byte_def of_nat_byte_eq word_less_nat_alt utf8_enc_def)
    then show ?thesis using 4 uni [OF assms(1)] assms(3) by (simp add: escape_char_def)
  qed
qed


lemma utf8_enc_decode:
  assumes "c \<le> 0x10FFFF"
  shows "bson_utf8_get_char (utf8_enc c @ rest) = Ok c" "bson_utf8_next_char (utf8_enc c @ rest) = Ok rest"
    "\<exists>b. rd8 (utf8_enc c @ rest) 0 = Ok b \<and> fst (utf8_get_sequence b) = length (utf8_enc c)" "0 < length (utf8_enc c)"
proof -
  consider "c \<le> 0x7F" | "0x7F < c" "c \<le> 0x7FF" | "0x7FF < c" "c \<le> 0xFFFF" | "0xFFFF < c" "c \<le> 0x1FFFFF"
    using assms by linarith
  then have d: "bson_utf8_get_char (utf8_enc c @ r) = Ok c \<and> bson_utf8_next_char (utf8_enc c @ r) = Ok r" for r
    unfolding from_unichar_enc [OF assms, symmetric]
    by cases (simp_all only: utf8_char_1 utf8_char_2 utf8_char_3 utf8_char_4)
  then show "bson_utf8_get_char (utf8_enc c @ rest) = Ok c" "bson_utf8_next_char (utf8_enc c @ rest) = Ok rest" by auto
  have "utf8_enc c \<noteq> []" by (simp add: utf8_enc_def)
  then obtain b bs where b: "utf8_enc c = b # bs" by (cases "utf8_enc c") simp_all
  from d [of "[0]"] have "drop (fst (utf8_get_sequence b)) (utf8_enc c @ [0]) = [0]"
    by (simp add: b bson_utf8_next_char_def rd8_def)
  then have "length (drop (fst (utf8_get_sequence b)) (utf8_enc c @ [0])) = 1" by (simp only: length_Cons list.size)
  then have "fst (utf8_get_sequence b) = length (utf8_enc c)" by simp
  then show "\<exists>b. rd8 (utf8_enc c @ rest) 0 = Ok b \<and> fst (utf8_get_sequence b) = length (utf8_enc c)"
    by (auto simp: b rd8_def)
  show "0 < length (utf8_enc c)" by (simp add: b)
qed

lemma escape_loop_step:
  assumes "holds_string st s" "c \<le> 0x10FFFF" "length (s @ json_char c @ r) \<le> STRING_LIMIT"
    "length (utf8_enc c @ bs) < fuel"
    "\<And>st fuel. holds_string st (s @ json_char c) \<Longrightarrow> length bs < fuel
      \<Longrightarrow> \<exists>st'. escape_loop fuel (bs @ rest) (int (length bs)) st = Ok st' \<and> holds_string st' ((s @ json_char c) @ r)"
  shows "\<exists>st'. escape_loop fuel ((utf8_enc c @ bs) @ rest) (int (length (utf8_enc c @ bs))) st = Ok st'
     \<and> holds_string st' (s @ json_char c @ r)"
proof -
  obtain f where f: "fuel = Suc f" using assms(4) by (cases fuel) auto
  obtain st1 where st1: "escape_char st c = Ok st1" "holds_string st1 (s @ json_char c)"
    using escape_char_holds [OF assms(1,2)] assms(3) by auto
  note d = utf8_enc_decode(1-3) [OF assms(2), of "bs @ rest"]
  obtain b where b: "rd8 (utf8_enc c @ bs @ rest) 0 = Ok b" "fst (utf8_get_sequence b) = length (utf8_enc c)"
    using d(3) by blast
  have bf: "length bs < f" using assms(4) utf8_enc_decode(4) [OF assms(2)] f unfolding length_append by linarith
  obtain j where j: "length (utf8_enc c) = Suc j"
    using utf8_enc_decode(4) [OF assms(2)] gr0_implies_Suc by blast
  from assms(5) [OF st1(2) bf] show ?thesis using d(1,2) b st1(1) j by (auto simp: f)
qed

lemma escape_loop_holds:
  "utf8_text True t \<Longrightarrow> holds_string st s \<Longrightarrow> length (s @ json_escape t) \<le> STRING_LIMIT \<Longrightarrow> length t < fuel
    \<Longrightarrow> \<exists>st'. escape_loop fuel (t @ rest) (int (length t)) st = Ok st' \<and> holds_string st' (s @ json_escape t)"
proof (induction t arbitrary: s st fuel rule: utf8_text.induct)
  case utf8_nil
  then show ?case by (cases fuel) auto
next
  case (utf8_scalar c bs)
  have c: "c \<le> 0x10FFFF" using utf8_scalar.hyps(1) by (simp add: unicode_scalar_def)
  note e = json_escape_enc [OF c, of bs]
  show ?case unfolding e
  proof (rule escape_loop_step [OF utf8_scalar.prems(1) c _ utf8_scalar.prems(3)])
    show "length (s @ json_char c @ json_escape bs) \<le> STRING_LIMIT" using utf8_scalar.prems(2) by (simp add: e)
    then show "\<exists>st'. escape_loop fuel (bs @ rest) (int (length bs)) st = Ok st'
        \<and> holds_string st' ((s @ json_char c) @ json_escape bs)"
      if "holds_string st (s @ json_char c)" "length bs < fuel" for st fuel
      using utf8_scalar.IH [OF that(1) _ that(2)] by simp
  qed
next
  case (utf8_long_nul bs)
  obtain f where f: "fuel = Suc f" using utf8_long_nul.prems(3) by (cases fuel) auto
  have len: "length (s @ json_byte 0 @ json_escape bs) \<le> STRING_LIMIT" using utf8_long_nul.prems(2) by simp
  have j: "json_char 0 = json_byte 0" by (simp add: json_char_def)
  obtain st1 where st1: "escape_char st 0 = Ok st1" "holds_string st1 (s @ json_byte 0)"
    using escape_char_holds [OF utf8_long_nul.prems(1), of 0] len by (auto simp: j)
  have q: "utf8_get_sequence 0xC0 = (2, 0x1F)" by code_simp
  then have d: "bson_utf8_get_char (0xC0 # 0x80 # bs @ rest) = Ok 0" "bson_utf8_next_char (0xC0 # 0x80 # bs @ rest) = Ok (bs @ rest)"
    by (simp_all add: bson_utf8_get_char_def bson_utf8_next_char_def rd8_def utf8_collect.simps(2) [of _ _ 0, simplified] w32_id)
  have "\<exists>st'. escape_loop f (bs @ rest) (int (length bs)) st1 = Ok st' \<and> holds_string st' ((s @ json_byte 0) @ json_escape bs)"
    using utf8_long_nul.prems(3) len f by (intro utf8_long_nul.IH [OF st1(2)]) auto
  then show ?case using st1(1) d q by (auto simp: f rd8_def)
qed

lemma escape_for_json:
  assumes "utf8_text True t" "length (json_escape t) \<le> STRING_LIMIT"
  shows "bson_utf8_escape_for_json (Some (t @ rest)) (int (length t)) = Ok (Some (json_escape t))"
proof -
  obtain st where st: "bson_string_new None = Ok st" "holds_string st []" using string_new_empty by blast
  from escape_loop_holds [OF assms(1) st(2), of "length t + 1" rest] assms(2) show ?thesis
    by (auto simp: bson_utf8_escape_for_json_def st(1) holds_string_def)
qed

lemma escape_for_json_nul:
  assumes "utf8_text True t" "0 \<notin> set t" "length (json_escape t) \<le> STRING_LIMIT"
  shows "bson_utf8_escape_for_json (Some (t @ 0 # rest)) (- 1) = Ok (Some (json_escape t))"
  using escape_for_json [OF assms(1,3), of "0 # rest"] c_strlen_append [OF assms(2), of rest]
  by (simp add: bson_utf8_escape_for_json_def)

text \<open>
  A byte that begins no sequence holds the loop in place: nothing in \<open>bson_utf8_escape_for_json\<close>
  advances over it.
\<close>

lemma escape_stuck:
  assumes "utf8_get_sequence b = (0, 0)" "0 < n"
  shows "\<exists>e. escape_loop fuel (b # rest) n st = Fault e"
proof (induction fuel arbitrary: st)
  case (Suc fuel)
  have "bson_utf8_get_char (b # rest) = Ok 0" using assms(1) by (simp add: bson_utf8_get_char_def rd8_def)
  moreover have "bson_utf8_next_char (b # rest) = Ok (b # rest)" using assms(1) by (simp add: bson_utf8_next_char_def rd8_def)
  ultimately show ?case using assms Suc.IH by (cases "escape_char st 0") (auto simp: rd8_def)
qed simp


section \<open>Reading an escaped text\<close>

text \<open>The text a JSON reader takes an escaped text for.\<close>

definition hex_value :: "byte \<Rightarrow> nat option" where
  "hex_value b =
     (let n = unat b in
      if 48 \<le> n \<and> n < 58 then Some (n - 48)
      else if 97 \<le> n \<and> n < 103 then Some (n - 87)
      else if 65 \<le> n \<and> n < 71 then Some (n - 55) else None)"

fun hex_number :: "byte list \<Rightarrow> nat \<Rightarrow> nat option" where
  "hex_number [] n = Some n"
| "hex_number (b # bs) n = (case hex_value b of None \<Rightarrow> None | Some d \<Rightarrow> hex_number bs (n * 16 + d))"

definition unescape_short :: "byte \<Rightarrow> byte option" where
  "unescape_short c =
     (if c = 34 \<or> c = 92 \<or> c = 47 then Some c
      else if c = 98 then Some 8 else if c = 102 then Some 12 else if c = 110 then Some 10
      else if c = 114 then Some 13 else if c = 116 then Some 9 else None)"

function json_unescape :: "byte list \<Rightarrow> byte list option" where
  "json_unescape [] = Some []"
| "json_unescape (b # bs) =
     (if b \<noteq> 92 then map_option (\<lambda>r. b # r) (json_unescape bs)
      else case bs of [] \<Rightarrow> None
      | c # cs \<Rightarrow>
          if c = 117 then
            if length cs < 4 then None
            else case hex_number (take 4 cs) 0 of None \<Rightarrow> None
              | Some u \<Rightarrow> map_option (\<lambda>r. utf8_enc u @ r) (json_unescape (drop 4 cs))
          else case unescape_short c of None \<Rightarrow> None | Some d \<Rightarrow> map_option (\<lambda>r. d # r) (json_unescape cs))"
  by pat_completeness auto
termination
  by (relation "measure length") auto

text \<open>The control characters with a number of two digits and no letter of their own.\<close>

definition misprinted :: "byte \<Rightarrow> bool" where
  "misprinted b \<longleftrightarrow> unat b = 11 \<or> (14 \<le> unat b \<and> unat b < 32)"

lemma json_unescape_byte:
  assumes "\<not> misprinted b"
  shows "json_unescape (json_byte b @ bs) = map_option (\<lambda>r. b # r) (json_unescape bs)"
proof (cases "unat b < 8")
  case True
  define n where "n = unat b"
  have b: "b = of_nat n" by (simp add: n_def)
  have n: "n < 8" using True by (simp add: n_def)
  have ne: "b \<noteq> 92" "b \<noteq> 34" "b \<noteq> 47" "b \<noteq> 8" "b \<noteq> 12" "b \<noteq> 10" "b \<noteq> 13" "b \<noteq> 9" "b < 32"
    using True by (auto simp: word_less_nat_alt)
  have "json_byte b = [92, 117, 48, 48, 48, of_nat (48 + n)]"
  proof -
    have "c_decimal n = [of_nat (48 + n)]" using n by (subst c_decimal.simps) (simp del: of_nat_add)
    moreover have "zero_padded 4 [x] = [48, 48, 48, x]" for x by (simp add: zero_padded_def numeral_3_eq_3)
    moreover have "json_byte b = [92, 117] @ zero_padded 4 (c_decimal n)" using ne by (simp only: json_byte_def n_def) simp
    ultimately show ?thesis by simp
  qed
  moreover have "hex_number [48, 48, 48, of_nat (48 + n)] 0 = Some n"
    using n by (simp add: hex_value_def Let_def del: of_nat_add)
  moreover have "utf8_enc n = [b]" using n b by (simp add: utf8_enc_def)
  moreover have "(@) [b] = (#) b" by auto
  ultimately show ?thesis by (simp add: eval_nat_numeral)
next
  case False
  consider "b = 92 \<or> b = 34 \<or> b = 47" | "b = 8" | "b = 12" | "b = 10" | "b = 13" | "b = 9"
    | "\<not> b < 32" "b \<noteq> 92" "b \<noteq> 34" "b \<noteq> 47"
  proof -
    have "unat b \<in> {8, 9, 10, 12, 13} \<or> 32 \<le> unat b" using False assms by (auto simp: misprinted_def)
    then have "b \<in> {8, 9, 10, 12, 13} \<or> \<not> b < 32" by (auto simp: word_less_nat_alt word_unat_eq_iff)
    then show ?thesis using that by blast
  qed
  then show ?thesis
  proof cases
    case 7
    moreover from 7 have "b \<noteq> 8" "b \<noteq> 12" "b \<noteq> 10" "b \<noteq> 13" "b \<noteq> 9" by auto
    ultimately show ?thesis by (simp add: json_byte_def)
  qed (auto simp: json_byte_def unescape_short_def)
qed

lemma json_unescape_escape:
  "\<forall>b \<in> set t. \<not> misprinted b \<Longrightarrow> \<not> (\<exists>u v. t = u @ [0xC0, 0x80] @ v) \<Longrightarrow> json_unescape (json_escape t) = Some t"
proof (induction t rule: json_escape.induct)
  case (2 b bs)
  have "\<not> (b = 0xC0 \<and> take 1 bs = [0x80])"
  proof
    assume "b = 0xC0 \<and> take 1 bs = [0x80]"
    then have "b # bs = [] @ [0xC0, 0x80] @ drop 1 bs" by (cases bs) auto
    with 2(4) show False by blast
  qed
  moreover have "\<not> (\<exists>u v. bs = u @ [0xC0, 0x80] @ v)" using 2(4) by (metis append_Cons)
  ultimately show ?case using 2(2,3) by (auto simp: json_unescape_byte)
qed simp

lemma json_unescape_misprinted: "json_unescape (json_escape [11]) = Some [17]"
  by code_simp

text \<open>
  Both forms of NUL are written as the six characters of \<open>\u0000\<close>, so the two-byte form is read back
  as one byte. (The comment on the function says that a NUL byte becomes the two-byte form.)
\<close>

lemma json_escape_nul:
  "json_escape [0] = [92, 117, 48, 48, 48, 48]" "json_escape [0xC0, 0x80] = [92, 117, 48, 48, 48, 48]"
  "json_unescape (json_escape [0xC0, 0x80]) = Some [0]"
  by code_simp+

section \<open>Properties\<close>

text \<open>
  C32: escaping and reading back: for a valid text without the misprinted control characters and
  without the two-byte form of NUL, whose escaped form has at most \<open>2\<^sup>2\<^sup>9\<close> bytes,
  \<open>bson_utf8_escape_for_json\<close> returns a text from which a JSON reader gets back the original, byte for
  byte. (The excluded characters come back changed: the numbers of control characters from 10 on are
  printed in base ten, \<open>json_unescape_misprinted\<close>, and the two-byte NUL comes back as one byte,
  \<open>json_escape_nul\<close>. Beyond the length bound the 32-bit sizes of the string buffer may wrap.)
\<close>

theorem escape_round_trip:
  assumes "utf8_text True t" "\<forall>b \<in> set t. \<not> misprinted b" "\<not> (\<exists>u v. t = u @ [0xC0, 0x80] @ v)"
    "length (json_escape t) \<le> STRING_LIMIT"
  shows "\<exists>e. bson_utf8_escape_for_json (Some (t @ rest)) (int (length t)) = Ok (Some e) \<and> json_unescape e = Some t"
  using escape_for_json [OF assms(1,4)] json_unescape_escape [OF assms(2,3)] by simp

theorem escape_round_trip_witness:
  "\<exists>e. bson_utf8_escape_for_json (Some [10, 0x22, 7, 0]) 3 = Ok (Some e) \<and> json_unescape e = Some [10, 0x22, 7]"
proof -
  have "bson_utf8_validate [10, 0x22, 7] 3 True = Ok True" by code_simp
  then have "utf8_text True [10, 0x22, 7]"
    using utf8_validate_eq [of 3 "[10, 0x22, 7]" True] by simp
  moreover have "\<not> (\<exists>u v. [10, 0x22, 7] = u @ [0xC0, 0x80] @ (v :: byte list))"
    by (auto simp: append_eq_Cons_conv Cons_eq_append_conv)
  moreover have "length (json_escape [10, 0x22, 7]) \<le> STRING_LIMIT" by code_simp
  ultimately show ?thesis
    using escape_round_trip [of "[10, 0x22, 7]" "[0]"] by (auto simp: misprinted_def)
qed

end
