(* ===== verification/Bson_Base64.thy ===== *)
theory Bson_Base64
  imports Prelude
begin

text \<open>
  \<open>b64_ntop\<close> of \<open>b64_ntop.h\<close>, and the base-64 text it is to compute: the digits of the 24-bit numbers
  made of three bytes each.
\<close>

section \<open>The code\<close>

definition Base64 :: "byte list" where
  "Base64 = map of_char ''ABCDEFGHIJKLMNOPQRSTUVWXYZabcdefghijklmnopqrstuvwxyz0123456789+/''"

definition Pad64 :: byte where "Pad64 = 61"

text \<open>\<open>Base64[o]\<close> after the assertion that \<open>o\<close> is below 64.\<close>

definition base64_at :: "byte \<Rightarrow> byte result" where
  "base64_at d = (if unat d < 64 then Ok (Base64 ! unat d) else Fault Assertion_Failed)"

text \<open>\<open>output[1]\<close> and \<open>output[2]\<close>.\<close>

definition output1 :: "byte \<Rightarrow> byte \<Rightarrow> byte" where
  "output1 i0 i1 = push_bit 4 (i0 AND 0x03) + drop_bit 4 i1"

definition output2 :: "byte \<Rightarrow> byte \<Rightarrow> byte" where
  "output2 i1 i2 = push_bit 2 (i1 AND 0x0F) + drop_bit 6 i2"

text \<open>
  The loop over the groups of three: what is left of the source and the target so far; \<open>None\<close> is the
  early \<open>return -1\<close>.
\<close>

fun b64_groups :: "nat \<Rightarrow> view \<Rightarrow> nat \<Rightarrow> byte list \<Rightarrow> (nat \<times> view \<times> byte list) option result" where
  "b64_groups srclength src targsize target =
     (if 2 < srclength then
        rbind (rd8 src 0) (\<lambda>i0. rbind (rd8 src 1) (\<lambda>i1. rbind (rd8 src 2) (\<lambda>i2.
        rbind (base64_at (drop_bit 2 i0)) (\<lambda>c0.
        rbind (base64_at (output1 i0 i1)) (\<lambda>c1.
        rbind (base64_at (output2 i1 i2)) (\<lambda>c2.
        rbind (base64_at (i2 AND 0x3F)) (\<lambda>c3.
          if targsize < length target + 4 then Ok None
          else b64_groups (srclength - 3) (drop 3 src) targsize (target @ [c0, c1, c2, c3]))))))))
      else Ok (Some (srclength, src, target)))"

declare b64_groups.simps [simp del]

text \<open>The characters stored before the NUL, or \<open>None\<close> for -1.\<close>

definition b64_ntop :: "view \<Rightarrow> nat \<Rightarrow> nat \<Rightarrow> byte list option result" where
  "b64_ntop src srclength targsize =
     rbind (b64_groups srclength src targsize []) (\<lambda>r. case r of None \<Rightarrow> Ok None
     | Some (srclength, src, target) \<Rightarrow>
         rbind (if srclength = 0 then Ok (Some target)
           else rbind (rd8 src 0) (\<lambda>i0. rbind (if 1 < srclength then rd8 src 1 else Ok 0) (\<lambda>i1.
             rbind (base64_at (drop_bit 2 i0)) (\<lambda>c0.
             rbind (base64_at (output1 i0 i1)) (\<lambda>c1.
             rbind (base64_at (output2 i1 0)) (\<lambda>c2.
               if targsize < length target + 4 then Ok None
               else Ok (Some (target @ [c0, c1] @ [if srclength = 1 then Pad64 else c2] @ [Pad64]))))))))
         (\<lambda>r. case r of None \<Rightarrow> Ok None
          | Some target \<Rightarrow> if targsize \<le> length target then Ok None else Ok (Some target)))"

section \<open>The text\<close>

definition base64_digit :: "nat \<Rightarrow> nat \<Rightarrow> byte" where
  "base64_digit i n = Base64 ! (n div 64 ^ i mod 64)"

definition group24 :: "byte \<Rightarrow> byte \<Rightarrow> byte \<Rightarrow> nat" where
  "group24 a b c = unat a * 65536 + unat b * 256 + unat c"

fun base64 :: "byte list \<Rightarrow> byte list" where
  "base64 [] = []"
| "base64 [a] = [base64_digit 3 (group24 a 0 0), base64_digit 2 (group24 a 0 0), Pad64, Pad64]"
| "base64 [a, b] = [base64_digit 3 (group24 a b 0), base64_digit 2 (group24 a b 0), base64_digit 1 (group24 a b 0), Pad64]"
| "base64 (a # b # c # ds) =
     base64_digit 3 (group24 a b c) # base64_digit 2 (group24 a b c) # base64_digit 1 (group24 a b c)
     # base64_digit 0 (group24 a b c) # base64 ds"

lemma length_base64: "length (base64 ds) = (length ds + 2) div 3 * 4"
proof (induction ds rule: base64.induct)
  case (4 a b c ds)
  have "(length ds + 5) div 3 = Suc ((length ds + 2) div 3)"
    using div_add_self2 [of 3 "length ds + 2"] by (simp add: add.commute)
  then show ?case using 4 by (simp add: add.commute)
qed auto

lemma unat_drop: "unat (drop_bit n (b :: byte)) = unat b div 2 ^ n"
proof -
  have "unat (drop_bit n b) = drop_bit n (take_bit LENGTH(8) (unat b))" by (rule unsigned_drop_bit_eq)
  also have "take_bit LENGTH(8) (unat b) = unat b" using unat_byte_less [of b] by (simp add: take_bit_nat_eq_self)
  finally show ?thesis by (simp only: drop_bit_eq_div)
qed

lemma unat_low: "unat (b AND mask n :: byte) = unat b mod 2 ^ n"
proof -
  have "unat (b AND mask n) = take_bit n (unat b)"
    by (simp flip: take_bit_eq_mask add: unsigned_take_bit_eq)
  then show ?thesis by (simp add: take_bit_eq_mod)
qed

lemma unat_push_low:
  assumes "n + k \<le> 8"
  shows "unat (push_bit k (b AND mask n) :: byte) = unat b mod 2 ^ n * 2 ^ k"
proof -
  have le: "unat b mod 2 ^ n * 2 ^ k < 256"
  proof -
    have "unat b mod 2 ^ n * 2 ^ k < 2 ^ n * 2 ^ k" by simp
    also have "(2 :: nat) ^ n * 2 ^ k \<le> 2 ^ 8" unfolding power_add [symmetric] using assms by (intro power_increasing) auto
    finally show ?thesis by simp
  qed
  have "b AND mask n = of_nat (unat (b AND mask n))" by simp
  then have "b AND mask n = of_nat (unat b mod 2 ^ n)" unfolding unat_low .
  then have "push_bit k (b AND mask n) = of_nat (unat b mod 2 ^ n * 2 ^ k)"
    by (simp only: push_bit_eq_mult of_nat_mult of_nat_power of_nat_numeral)
  then show ?thesis using le by (simp only: unat_of_nat_byte mod_less)
qed

lemma unat_add_byte: "unat (x :: byte) + unat y < 256 \<Longrightarrow> unat (x + y) = unat x + unat y"
  by (simp add: unat_add_lem [symmetric])

lemma digits_of:
  assumes "n = ((d3 * 64 + d2) * 64 + d1) * 64 + d0" "d0 < 64" "d1 < 64" "d2 < 64" "d3 < (64 :: nat)"
  shows "n div 64 ^ 0 mod 64 = d0" "n div 64 ^ 1 mod 64 = d1" "n div 64 ^ 2 mod 64 = d2" "n div 64 ^ 3 mod 64 = d3"
proof -
  have n1: "n div 64 = (d3 * 64 + d2) * 64 + d1" using assms(1,2) by simp
  have n2: "n div 64 div 64 = d3 * 64 + d2" using n1 assms(3) by simp
  have n3: "n div 64 div 64 div 64 = d3" using n2 assms(4) by simp
  have p: "n div 64 ^ 2 = n div 64 div 64" "n div 64 ^ 3 = n div 64 div 64 div 64"
    by (simp_all only: div_mult2_eq [symmetric]) simp_all
  show "n div 64 ^ 0 mod 64 = d0" "n div 64 ^ 1 mod 64 = d1" "n div 64 ^ 2 mod 64 = d2" "n div 64 ^ 3 mod 64 = d3"
    using assms(2-5) unfolding p power_0 power_one_right div_by_1 n3 unfolding n2 unfolding n1
    by (simp_all only: assms(1) mod_mult_self3 mod_less)
qed

lemma regroup:
  "a = d3 * 4 + al \<Longrightarrow> b = bh * 16 + bl \<Longrightarrow> c = ch * 64 + d0
    \<Longrightarrow> a * 65536 + b * 256 + c = ((d3 * 64 + (al * 16 + bh)) * 64 + (bl * 4 + ch)) * 64 + (d0 :: nat)"
  by simp

lemma base64_at_digits:
  "base64_at (drop_bit 2 a) = Ok (base64_digit 3 (group24 a b c))"
  "base64_at (output1 a b) = Ok (base64_digit 2 (group24 a b c))"
  "base64_at (output2 b c) = Ok (base64_digit 1 (group24 a b c))"
  "base64_at (c AND 0x3F) = Ok (base64_digit 0 (group24 a b c))"
proof -
  define d3 d2 d1 d0 where d: "d3 = unat a div 4" "d2 = unat a mod 4 * 16 + unat b div 16"
    "d1 = unat b mod 16 * 4 + unat c div 64" "d0 = unat c mod 64"
  have x: "unat a < 256" "unat b < 256" "unat c < 256" by (rule unat_byte_less)+
  have lt: "d3 < 64" "unat b div 16 < 16" "unat c div 64 < 4" "d0 < 64"
    using x by (simp_all add: d div_less_iff_less_mult)
  have "unat a mod 4 < 4" "unat b mod 16 < 16" by simp_all
  with lt have lt2: "d2 < 64" "d1 < 64" unfolding d(2,3) by linarith+
  have "group24 a b c = ((d3 * 64 + d2) * 64 + d1) * 64 + d0"
  proof -
    have "unat a = d3 * 4 + unat a mod 4" "unat c = unat c div 64 * 64 + d0" by (simp_all add: d)
    then show ?thesis unfolding group24_def d(2,3) by (intro regroup) simp_all
  qed
  from digits_of [OF this lt(4) lt2(2,1) lt(1)] have dig:
    "base64_digit 3 (group24 a b c) = Base64 ! d3" "base64_digit 2 (group24 a b c) = Base64 ! d2"
    "base64_digit 1 (group24 a b c) = Base64 ! d1" "base64_digit 0 (group24 a b c) = Base64 ! d0"
    by (simp_all add: base64_digit_def)
  have m: "(0x03 :: byte) = mask 2" "(0x0F :: byte) = mask 4" "(0x3F :: byte) = mask 6"
    by (simp_all add: mask_eq_exp_minus_1)
  have u: "unat (drop_bit 2 a) = d3" "unat (push_bit 4 (a AND 0x03)) = unat a mod 4 * 16" "unat (drop_bit 4 b) = unat b div 16"
    "unat (push_bit 2 (b AND 0x0F)) = unat b mod 16 * 4" "unat (drop_bit 6 c) = unat c div 64" "unat (c AND 0x3F) = d0"
    unfolding m using unat_push_low [of 2 4 a] unat_push_low [of 4 2 b]
    by (simp_all only: unat_drop unat_low d) simp_all
  have "unat (output1 a b) = d2" "unat (output2 b c) = d1"
    unfolding output1_def output2_def
    using unat_add_byte [of "push_bit 4 (a AND 0x03)" "drop_bit 4 b"] unat_add_byte [of "push_bit 2 (b AND 0x0F)" "drop_bit 6 c"]
      lt2 unfolding u d(2,3) by linarith+
  with u lt lt2 dig show "base64_at (drop_bit 2 a) = Ok (base64_digit 3 (group24 a b c))"
    "base64_at (output1 a b) = Ok (base64_digit 2 (group24 a b c))"
    "base64_at (output2 b c) = Ok (base64_digit 1 (group24 a b c))"
    "base64_at (c AND 0x3F) = Ok (base64_digit 0 (group24 a b c))"
    by (simp_all only: base64_at_def) simp_all
qed

lemma b64_groups_eq:
  "n \<le> length src \<Longrightarrow> length t + length (base64 (take n src)) < targsize
    \<Longrightarrow> \<exists>m u. b64_groups n src targsize t = Ok (Some (m, drop (n - m) src, u)) \<and> m < 3 \<and> m \<le> n
      \<and> t @ base64 (take n src) = u @ base64 (take m (drop (n - m) src))"
proof (induction n arbitrary: src t rule: less_induct)
  case (less n)
  show ?case
  proof (cases "2 < n")
    case True
    then obtain a b c ds where src: "src = a # b # c # ds"
      using less(2) by (cases src; cases "tl src"; cases "tl (tl src)") auto
    obtain k where n: "n = Suc (Suc (Suc k))" using True by (metis add_2_eq_Suc less_imp_Suc_add)
    define g where "g = [base64_digit 3 (group24 a b c), base64_digit 2 (group24 a b c), base64_digit 1 (group24 a b c), base64_digit 0 (group24 a b c)]"
    have t: "base64 (take n src) = g @ base64 (take k ds)" by (simp add: n src g_def)
    have fit: "\<not> targsize < length t + 4" using less(3) by (simp add: n src)
    have eq: "b64_groups n src targsize t = b64_groups k ds targsize (t @ g)"
      using fit by (subst b64_groups.simps)
        (simp add: n src rd8_def base64_at_digits(1-3) [of a b c] base64_at_digits(1) [of a c b] base64_at_digits(2) [of a b c]
          base64_at_digits(3) [of b c a] base64_at_digits(4) [of c a b] g_def)
    have "k < n" "k \<le> length ds" "length (t @ g) + length (base64 (take k ds)) < targsize"
      using less(2,3) unfolding t by (simp_all add: n src)
    from less(1) [OF this] obtain m u where "b64_groups k ds targsize (t @ g) = Ok (Some (m, drop (k - m) ds, u))"
      "m < 3" "m \<le> k" "(t @ g) @ base64 (take k ds) = u @ base64 (take m (drop (k - m) ds))" by blast
    then show ?thesis unfolding eq t by (auto simp: n src Suc_diff_le intro!: exI [of _ m])
  next
    case False
    then show ?thesis using less(2) by (subst b64_groups.simps) (auto intro!: exI [of _ n])
  qed
qed

text \<open>The code computes the text when it and its NUL fit.\<close>

lemma b64_ntop_base64:
  assumes "n \<le> length src" "length (base64 (take n src)) < targsize"
  shows "b64_ntop src n targsize = Ok (Some (base64 (take n src)))"
proof -
  obtain m u where u: "b64_groups n src targsize [] = Ok (Some (m, drop (n - m) src, u))" "m < 3" "m \<le> n"
    "base64 (take n src) = u @ base64 (take m (drop (n - m) src))"
    using b64_groups_eq [of n src "[]" targsize] assms by auto
  define r where "r = drop (n - m) src"
  have r: "m \<le> length r" using u(3) assms(1) by (simp add: r_def)
  have l: "length u + length (base64 (take m r)) < targsize" using assms(2) u(4) by (simp add: r_def)
  note g = u(1) [folded r_def] u(4) [folded r_def]
  consider "m = 0" | a s where "m = 1" "r = a # s" | a b s where "m = 2" "r = a # b # s"
    using u(2) r by (cases r; cases "tl r") (auto simp: less_Suc_eq numeral_3_eq_3 numeral_2_eq_2)
  then show ?thesis
  proof cases
    case 2
    then show ?thesis
      using g l base64_at_digits(1) [of a 0 0] base64_at_digits(2) [of a 0 0] base64_at_digits(3) [of 0 0 a]
      by (simp add: b64_ntop_def rd8_def)
  next
    case 3
    then show ?thesis
      using g l base64_at_digits(1) [of a b 0] base64_at_digits(2) [of a b 0] base64_at_digits(3) [of b 0 a]
      by (simp add: b64_ntop_def rd8_def)
  qed (use g l in \<open>simp add: b64_ntop_def\<close>)
qed

lemma base64_nonzero: "0 \<notin> set (base64 ds)"
proof -
  have "\<forall>c \<in> set Base64. c \<noteq> 0" by (simp add: Base64_def)
  moreover have "length Base64 = 64" by (simp add: Base64_def)
  ultimately have "base64_digit i n \<noteq> 0" for i n by (simp add: base64_digit_def)
  then show ?thesis by (induction ds rule: base64.induct) (auto simp: Pad64_def dest: sym)
qed

end
