(* ===== verification/Bson_Json.thy ===== *)
theory Bson_Json
  imports Bson_Visit Bson_String Bson_Base64
begin

text \<open>
  \<open>bson_as_json\<close> and \<open>bson_array_as_json\<close> of \<open>bson.c\<close>: the visitor that prints a document into a growing
  string. On a document whose text is UTF-8 the result is the text \<open>json_document\<close> gives.
\<close>

section \<open>The code\<close>

record bson_json_state_t =
  js_count :: nat
  js_keys :: bool
  js_depth :: nat
  js_str :: bson_string_t

definition BSON_MAX_RECURSION :: nat where
  "BSON_MAX_RECURSION = 100"

text \<open>Calls of \<open>bson_string_append\<close> on the string of the state, one after the other.\<close>

fun appends :: "bson_json_state_t \<Rightarrow> view option list \<Rightarrow> bson_json_state_t result" where
  "appends s [] = Ok s"
| "appends s (t # ts) = rbind (bson_string_append (js_str s) t) (\<lambda>str. appends (s\<lparr>js_str := str\<rparr>) ts)"

text \<open>A pointer to a string literal or to a string made up by the code.\<close>

definition put :: "byte list \<Rightarrow> view option" where
  "put t = Some (t @ [0])"

definition go_on :: "bson_json_state_t result \<Rightarrow> (bool \<times> bson_json_state_t) result" where
  "go_on m = rbind m (\<lambda>s. Ok (False, s))"

definition json_escaped ::
    "view option \<Rightarrow> int \<Rightarrow> bson_json_state_t \<Rightarrow> byte list \<Rightarrow> (bool \<times> bson_json_state_t) result" where
  "json_escaped text len s closer =
     rbind (bson_utf8_escape_for_json text len) (\<lambda>escaped. case escaped of
       Some e \<Rightarrow> go_on (appends s [put (chars ''\"''), put e, put closer])
     | None \<Rightarrow> Ok (True, s))"

definition json_visit_utf8 ::
    "bson_iter_t \<Rightarrow> view \<Rightarrow> nat \<Rightarrow> view option \<Rightarrow> bson_json_state_t \<Rightarrow> (bool \<times> bson_json_state_t) result" where
  "json_visit_utf8 it key v_utf8_len v_utf8 s = json_escaped v_utf8 (int v_utf8_len) s (chars ''\"'')"

definition json_visit_int32 ::
    "bson_iter_t \<Rightarrow> view \<Rightarrow> 32 word \<Rightarrow> bson_json_state_t \<Rightarrow> (bool \<times> bson_json_state_t) result" where
  "json_visit_int32 it key v s = go_on (appends s [put (c_signed (sint v))])"

definition json_visit_int64 ::
    "bson_iter_t \<Rightarrow> view \<Rightarrow> 64 word \<Rightarrow> bson_json_state_t \<Rightarrow> (bool \<times> bson_json_state_t) result" where
  "json_visit_int64 it key v s = go_on (appends s [put (c_signed (sint v))])"

definition json_visit_double ::
    "bson_iter_t \<Rightarrow> view \<Rightarrow> 64 word \<Rightarrow> bson_json_state_t \<Rightarrow> (bool \<times> bson_json_state_t) result" where
  "json_visit_double it key v s = go_on (appends s [put (c_lf v)])"

definition json_visit_undefined ::
    "bson_iter_t \<Rightarrow> view \<Rightarrow> bson_json_state_t \<Rightarrow> (bool \<times> bson_json_state_t) result" where
  "json_visit_undefined it key s = go_on (appends s [put (chars ''{ \"$undefined\" : true }'')])"

definition json_visit_null ::
    "bson_iter_t \<Rightarrow> view \<Rightarrow> bson_json_state_t \<Rightarrow> (bool \<times> bson_json_state_t) result" where
  "json_visit_null it key s = go_on (appends s [put (chars ''null'')])"

text \<open>\<open>bson_oid_to_string\<close>; the entry for a byte in \<open>gHexCharPairs\<close> is its pair of digits.\<close>

definition bson_oid_to_string :: "view \<Rightarrow> byte list result" where
  "bson_oid_to_string oid = rbind (rdn 12 oid 0) (\<lambda>bs. Ok (concat (map hex_pair bs)))"

definition json_visit_oid ::
    "bson_iter_t \<Rightarrow> view \<Rightarrow> view option \<Rightarrow> bson_json_state_t \<Rightarrow> (bool \<times> bson_json_state_t) result" where
  "json_visit_oid it key oid s =
     (case oid of None \<Rightarrow> Ok (False, s)
      | Some d \<Rightarrow> rbind (bson_oid_to_string d) (\<lambda>str.
          go_on (appends s [put (chars ''{ \"$oid\" : \"''), put str, put (chars ''\" }'')])))"

text \<open>
  The result of \<open>b64_ntop\<close> is not tested in the code; the block is large enough for the text, so the
  branch of the model for -1 is a fault that does not occur.
\<close>

definition json_visit_binary ::
    "bson_iter_t \<Rightarrow> view \<Rightarrow> byte \<Rightarrow> nat \<Rightarrow> view option \<Rightarrow> bson_json_state_t \<Rightarrow> (bool \<times> bson_json_state_t) result" where
  "json_visit_binary it key v_subtype v_binary_len v_binary s =
     (case v_binary of None \<Rightarrow> Fault Null_Deref
      | Some d \<Rightarrow> rbind (b64_ntop d v_binary_len ((v_binary_len div 3 + 1) * 4 + 1)) (\<lambda>b64.
          case b64 of None \<Rightarrow> Fault Out_Of_Bounds
          | Some t \<Rightarrow> go_on (appends s [put (chars ''{ \"$type\" : \"''), put (hex_pair v_subtype),
              put (chars ''\", \"$binary\" : \"''), put t, put (chars ''\" }'')])))"

definition json_visit_bool ::
    "bson_iter_t \<Rightarrow> view \<Rightarrow> bool \<Rightarrow> bson_json_state_t \<Rightarrow> (bool \<times> bson_json_state_t) result" where
  "json_visit_bool it key v s = go_on (appends s [put (if v then chars ''true'' else chars ''false'')])"

definition json_visit_date_time ::
    "bson_iter_t \<Rightarrow> view \<Rightarrow> 64 word \<Rightarrow> bson_json_state_t \<Rightarrow> (bool \<times> bson_json_state_t) result" where
  "json_visit_date_time it key v s =
     go_on (appends s [put (chars ''{ \"$date\" : ''), put (c_signed (sint v)), put (chars '' }'')])"

definition json_visit_regex ::
    "bson_iter_t \<Rightarrow> view \<Rightarrow> view option \<Rightarrow> view option \<Rightarrow> bson_json_state_t \<Rightarrow> (bool \<times> bson_json_state_t) result" where
  "json_visit_regex it key v_regex v_options s =
     go_on (appends s [put (chars ''{ \"$regex\" : \"''), v_regex, put (chars ''\", \"$options\" : \"''),
       v_options, put (chars ''\" }'')])"

definition json_visit_timestamp ::
    "bson_iter_t \<Rightarrow> view \<Rightarrow> 32 word \<Rightarrow> 32 word \<Rightarrow> bson_json_state_t \<Rightarrow> (bool \<times> bson_json_state_t) result" where
  "json_visit_timestamp it key v_timestamp v_increment s =
     go_on (appends s [put (chars ''{ \"$timestamp\" : { \"t\" : ''), put (c_decimal (unat v_timestamp)),
       put (chars '', \"i\" : ''), put (c_decimal (unat v_increment)), put (chars '' } }'')])"

definition json_visit_dbpointer ::
    "bson_iter_t \<Rightarrow> view \<Rightarrow> nat \<Rightarrow> view option \<Rightarrow> view option \<Rightarrow> bson_json_state_t
      \<Rightarrow> (bool \<times> bson_json_state_t) result" where
  "json_visit_dbpointer it key v_collection_len v_collection v_oid s =
     go_on (rbind (appends s [put (chars ''{ \"$ref\" : \"''), v_collection, put (chars ''\"'')]) (\<lambda>s.
       rbind (case v_oid of None \<Rightarrow> Ok s
         | Some d \<Rightarrow> rbind (bson_oid_to_string d) (\<lambda>str.
             appends s [put (chars '', \"$id\" : \"''), put str, put (chars ''\"'')])) (\<lambda>s.
       appends s [put (chars '' }'')])))"

definition json_visit_minkey ::
    "bson_iter_t \<Rightarrow> view \<Rightarrow> bson_json_state_t \<Rightarrow> (bool \<times> bson_json_state_t) result" where
  "json_visit_minkey it key s = go_on (appends s [put (chars ''{ \"$minKey\" : 1 }'')])"

definition json_visit_maxkey ::
    "bson_iter_t \<Rightarrow> view \<Rightarrow> bson_json_state_t \<Rightarrow> (bool \<times> bson_json_state_t) result" where
  "json_visit_maxkey it key s = go_on (appends s [put (chars ''{ \"$maxKey\" : 1 }'')])"

definition json_visit_before ::
    "bson_iter_t \<Rightarrow> view \<Rightarrow> bson_json_state_t \<Rightarrow> (bool \<times> bson_json_state_t) result" where
  "json_visit_before it key s =
     rbind (if js_count s \<noteq> 0 then appends s [put (chars '', '')] else Ok s) (\<lambda>s.
     rbind (if js_keys s then json_escaped (Some key) (- 1) s (chars ''\" : '') else Ok (False, s)) (\<lambda>(stop, s).
       if stop then Ok (True, s) else Ok (False, s\<lparr>js_count := w32 (js_count s + 1)\<rparr>)))"

definition json_visit_code ::
    "bson_iter_t \<Rightarrow> view \<Rightarrow> nat \<Rightarrow> view option \<Rightarrow> bson_json_state_t \<Rightarrow> (bool \<times> bson_json_state_t) result" where
  "json_visit_code it key v_code_len v_code s = json_escaped v_code (int v_code_len) s (chars ''\"'')"

definition json_visit_symbol ::
    "bson_iter_t \<Rightarrow> view \<Rightarrow> nat \<Rightarrow> view option \<Rightarrow> bson_json_state_t \<Rightarrow> (bool \<times> bson_json_state_t) result" where
  "json_visit_symbol it key v_symbol_len v_symbol s =
     go_on (appends s [put (chars ''\"''), v_symbol, put (chars ''\"'')])"

definition json_visit_codewscope ::
    "bson_iter_t \<Rightarrow> view \<Rightarrow> nat \<Rightarrow> view option \<Rightarrow> bson_t \<Rightarrow> bson_json_state_t \<Rightarrow> (bool \<times> bson_json_state_t) result" where
  "json_visit_codewscope it key v_code_len v_code v_scope s = json_escaped v_code (int v_code_len) s (chars ''\"'')"

text \<open>
  Embedded documents and arrays. The walk over the child, with the visitor itself, is the argument
  \<open>walk_child\<close>; the functions for documents and for arrays differ in the brackets and in \<open>keys\<close>.
\<close>

type_synonym json_walk = "bson_iter_t \<Rightarrow> bson_json_state_t \<Rightarrow> (bool \<times> bson_iter_t \<times> bson_json_state_t) result"

definition json_visit_nested ::
    "string \<Rightarrow> string \<Rightarrow> bool \<Rightarrow> json_walk \<Rightarrow> bson_t \<Rightarrow> bson_json_state_t \<Rightarrow> (bool \<times> bson_json_state_t) result" where
  "json_visit_nested opener closer keys walk_child v s =
     (if BSON_MAX_RECURSION \<le> js_depth s then go_on (appends s [put (chars ''{ ... }'')])
      else let (init, child) = bson_iter_init v in
        if \<not> init then Ok (False, s)
        else rbind (bson_string_new (put (chars opener))) (\<lambda>str.
          rbind (walk_child child \<lparr>js_count = 0, js_keys = keys, js_depth = js_depth s + 1, js_str = str\<rparr>) (\<lambda>(stop, child, c).
          rbind (appends c [put (chars closer)]) (\<lambda>c.
            go_on (appends s [put (st_str (js_str c))])))))"

definition json_visit_document ::
    "json_walk \<Rightarrow> bson_iter_t \<Rightarrow> view \<Rightarrow> bson_t \<Rightarrow> bson_json_state_t \<Rightarrow> (bool \<times> bson_json_state_t) result" where
  "json_visit_document walk_child it key v_document s = json_visit_nested ''{ '' '' }'' True walk_child v_document s"

definition json_visit_array ::
    "json_walk \<Rightarrow> bson_iter_t \<Rightarrow> view \<Rightarrow> bson_t \<Rightarrow> bson_json_state_t \<Rightarrow> (bool \<times> bson_json_state_t) result" where
  "json_visit_array walk_child it key v_array s = json_visit_nested ''[ '' '' ]'' False walk_child v_array s"

definition as_json_visitor :: "json_walk \<Rightarrow> bson_json_state_t bson_visitor_t" where
  "as_json_visitor walk_child =
     \<lparr>visit_before = Some json_visit_before, visit_after = None, visit_corrupt = None,
      visit_double = Some json_visit_double, visit_utf8 = Some json_visit_utf8,
      visit_document = Some (json_visit_document walk_child), visit_array = Some (json_visit_array walk_child),
      visit_binary = Some json_visit_binary, visit_undefined = Some json_visit_undefined,
      visit_oid = Some json_visit_oid, visit_bool = Some json_visit_bool, visit_date_time = Some json_visit_date_time,
      visit_null = Some json_visit_null, visit_regex = Some json_visit_regex,
      visit_dbpointer = Some json_visit_dbpointer, visit_code = Some json_visit_code,
      visit_symbol = Some json_visit_symbol, visit_codewscope = Some json_visit_codewscope,
      visit_int32 = Some json_visit_int32, visit_timestamp = Some json_visit_timestamp,
      visit_int64 = Some json_visit_int64, visit_maxkey = Some json_visit_maxkey, visit_minkey = Some json_visit_minkey\<rparr>"

text \<open>
  \<open>bson_as_json_visitors\<close> with the recursion unfolded to depth \<open>d\<close>. The functions above do not call the
  visitor at depth \<open>BSON_MAX_RECURSION\<close>, so that many levels are all there are.
\<close>

primrec as_json_visitors :: "nat \<Rightarrow> bson_json_state_t bson_visitor_t" where
  "as_json_visitors 0 = as_json_visitor (\<lambda>_ _. Fault No_Termination)"
| "as_json_visitors (Suc d) = as_json_visitor (\<lambda>child s. bson_iter_visit_all child (as_json_visitors d) s)"

definition bson_as_json_visitors :: "bson_json_state_t bson_visitor_t" where
  "bson_as_json_visitors = as_json_visitors BSON_MAX_RECURSION"

text \<open>The text returned, without its NUL, and the length stored for the caller.\<close>

definition bson_as_json :: "bson_t \<Rightarrow> (byte list option \<times> nat) result" where
  "bson_as_json bson =
     rbind (bson_empty bson) (\<lambda>is_empty.
       if is_empty then Ok (Some (chars ''{ }''), 3)
       else let (init, it) = bson_iter_init bson in
         if \<not> init then Ok (None, 0)
         else rbind (bson_string_new (put (chars ''{ ''))) (\<lambda>str.
           rbind (bson_iter_visit_all it bson_as_json_visitors
             \<lparr>js_count = 0, js_keys = True, js_depth = 0, js_str = str\<rparr>) (\<lambda>(stop, it, s).
             if stop \<or> i_err_off it \<noteq> 0 then Ok (None, 0)
             else rbind (appends s [put (chars '' }'')]) (\<lambda>s.
               Ok (Some (st_str (js_str s)), length (st_str (js_str s)))))))"

text \<open>The walk is called twice here; the second call goes on where the first one left the iterator.\<close>

definition bson_array_as_json :: "bson_t \<Rightarrow> (byte list option \<times> nat) result" where
  "bson_array_as_json bson =
     rbind (bson_empty bson) (\<lambda>is_empty.
       if is_empty then Ok (Some (chars ''[ ]''), 3)
       else let (init, it) = bson_iter_init bson in
         if \<not> init then Ok (None, 0)
         else rbind (bson_string_new (put (chars ''[ ''))) (\<lambda>str.
           rbind (bson_iter_visit_all it bson_as_json_visitors
             \<lparr>js_count = 0, js_keys = False, js_depth = 0, js_str = str\<rparr>) (\<lambda>(stop, it, s).
           rbind (bson_iter_visit_all it bson_as_json_visitors s) (\<lambda>(stop, it, s).
             if stop \<or> i_err_off it \<noteq> 0 then Ok (None, 0)
             else rbind (appends s [put (chars '' ]'')]) (\<lambda>s.
               Ok (Some (st_str (js_str s)), length (st_str (js_str s))))))))"

end
