(* ===== verification/Bson_Validate.thy ===== *)
theory Bson_Validate
  imports Bson_Visit
begin

text \<open>
  \<open>bson_validate\<close> of \<open>bson.c\<close>: the visitor that checks the keys and strings of a document and of all
  documents inside it. It ends without a fault on any bytes, after a number of nested calls that the
  length of the document bounds; on the encoding of a document it decides what the flags ask for, up
  to the first code with scope.
\<close>

section \<open>The code\<close>

definition BSON_VALIDATE_NONE :: "32 word" where "BSON_VALIDATE_NONE = 0"
definition BSON_VALIDATE_UTF8 :: "32 word" where "BSON_VALIDATE_UTF8 = 1"
definition BSON_VALIDATE_DOLLAR_KEYS :: "32 word" where "BSON_VALIDATE_DOLLAR_KEYS = 2"
definition BSON_VALIDATE_DOT_KEYS :: "32 word" where "BSON_VALIDATE_DOT_KEYS = 4"
definition BSON_VALIDATE_UTF8_ALLOW_NULL :: "32 word" where "BSON_VALIDATE_UTF8_ALLOW_NULL = 8"

definition flag_on :: "32 word \<Rightarrow> 32 word \<Rightarrow> bool" where
  "flag_on flags f \<longleftrightarrow> flags AND f \<noteq> 0"

record bson_validate_state_t =
  vs_flags :: "32 word"
  vs_err_offset :: int

abbreviation dollar :: byte where "dollar \<equiv> 36"
abbreviation dot :: byte where "dot \<equiv> 46"

definition validate_utf8 ::
    "bson_iter_t \<Rightarrow> view \<Rightarrow> nat \<Rightarrow> view option \<Rightarrow> bson_validate_state_t \<Rightarrow> (bool \<times> bson_validate_state_t) result" where
  "validate_utf8 it key v_utf8_len v_utf8 s =
     (if flag_on (vs_flags s) BSON_VALIDATE_UTF8
      then rbind (utf8_validate_ptr v_utf8 v_utf8_len (flag_on (vs_flags s) BSON_VALIDATE_UTF8_ALLOW_NULL)) (\<lambda>valid.
        if \<not> valid then Ok (True, s\<lparr>vs_err_offset := int (i_off it)\<rparr>) else Ok (False, s))
      else Ok (False, s))"

definition validate_corrupt :: "bson_iter_t \<Rightarrow> bson_validate_state_t \<Rightarrow> bson_validate_state_t result" where
  "validate_corrupt it s = Ok (s\<lparr>vs_err_offset := int (i_err_off it)\<rparr>)"

definition validate_before ::
    "bson_iter_t \<Rightarrow> view \<Rightarrow> bson_validate_state_t \<Rightarrow> (bool \<times> bson_validate_state_t) result" where
  "validate_before it key s =
     rbind (if flag_on (vs_flags s) BSON_VALIDATE_DOLLAR_KEYS then rbind (rd8 key 0) (\<lambda>c. Ok (c = dollar)) else Ok False)
     (\<lambda>starts. if starts then Ok (True, s\<lparr>vs_err_offset := int (i_off it)\<rparr>)
       else rbind (if flag_on (vs_flags s) BSON_VALIDATE_DOT_KEYS then rbind (c_string key) (\<lambda>k. Ok (c_strstr k [dot])) else Ok False)
       (\<lambda>dotted. if dotted then Ok (True, s\<lparr>vs_err_offset := int (i_off it)\<rparr>) else Ok (False, s)))"

text \<open>
  The visitor functions call \<open>bson_iter_visit_all\<close> with the visitor itself; here the inner walk has
  the visitor \<open>funcs\<close>, and \<open>validate_funcs d\<close> unfolds the recursion to depth \<open>d\<close>.
\<close>

definition validate_document ::
    "bson_validate_state_t bson_visitor_t \<Rightarrow> bson_iter_t \<Rightarrow> view \<Rightarrow> bson_t \<Rightarrow> bson_validate_state_t
      \<Rightarrow> (bool \<times> bson_validate_state_t) result" where
  "validate_document funcs it key v_document s =
     (let (init, child) = bson_iter_init v_document in
      if \<not> init then Ok (True, s\<lparr>vs_err_offset := int (i_off it)\<rparr>)
      else rbind (bson_iter_visit_all child funcs s) (\<lambda>(stop, child, s). Ok (False, s)))"

text \<open>Whether the document is valid, and the offset stored for the caller.\<close>

definition validate_with ::
    "bson_validate_state_t bson_visitor_t \<Rightarrow> bson_t \<Rightarrow> 32 word \<Rightarrow> (bool \<times> int) result" where
  "validate_with funcs bson flags =
     (let (init, it) = bson_iter_init bson in
      rbind (if \<not> init then Ok \<lparr>vs_flags = flags, vs_err_offset = 0\<rparr>
        else rbind (validate_document funcs it [] bson \<lparr>vs_flags = flags, vs_err_offset = - 1\<rparr>) (\<lambda>(stop, s). Ok s))
      (\<lambda>s. Ok (vs_err_offset s < 0, vs_err_offset s)))"

definition validate_codewscope ::
    "bson_validate_state_t bson_visitor_t \<Rightarrow> bson_iter_t \<Rightarrow> view \<Rightarrow> nat \<Rightarrow> view option \<Rightarrow> bson_t \<Rightarrow> bson_validate_state_t
      \<Rightarrow> (bool \<times> bson_validate_state_t) result" where
  "validate_codewscope funcs it key v_code_len v_code v_scope s =
     rbind (validate_with funcs v_scope (vs_flags s)) (\<lambda>(valid, offset).
       if \<not> valid then Ok (False, s\<lparr>vs_err_offset := int (i_off it) + offset\<rparr>) else Ok (True, s))"

definition validate_visitor ::
    "(bson_iter_t \<Rightarrow> view \<Rightarrow> bson_t \<Rightarrow> bson_validate_state_t \<Rightarrow> (bool \<times> bson_validate_state_t) result)
      \<Rightarrow> (bson_iter_t \<Rightarrow> view \<Rightarrow> nat \<Rightarrow> view option \<Rightarrow> bson_t \<Rightarrow> bson_validate_state_t \<Rightarrow> (bool \<times> bson_validate_state_t) result)
      \<Rightarrow> bson_validate_state_t bson_visitor_t" where
  "validate_visitor document codewscope =
     \<lparr>visit_before = Some validate_before, visit_after = None, visit_corrupt = Some validate_corrupt,
      visit_double = None, visit_utf8 = Some validate_utf8, visit_document = Some document,
      visit_array = Some document, visit_binary = None, visit_undefined = None, visit_oid = None,
      visit_bool = None, visit_date_time = None, visit_null = None, visit_regex = None,
      visit_dbpointer = None, visit_code = None, visit_symbol = None, visit_codewscope = Some codewscope,
      visit_int32 = None, visit_timestamp = None, visit_int64 = None, visit_maxkey = None, visit_minkey = None\<rparr>"

primrec validate_funcs :: "nat \<Rightarrow> bson_validate_state_t bson_visitor_t" where
  "validate_funcs 0 =
     validate_visitor (\<lambda>_ _ _ _. Fault No_Termination) (\<lambda>_ _ _ _ _ _. Fault No_Termination)"
| "validate_funcs (Suc d) =
     validate_visitor (validate_document (validate_funcs d)) (validate_codewscope (validate_funcs d))"

text \<open>
  The C functions call each other without a limit, one C stack frame for each level of nesting; the
  stack itself is not modelled. The depth \<open>b_len bson\<close> is never used up, because an embedded document
  is shorter than the one around it (C28 gives the depth that is reached).
\<close>

definition bson_validate :: "bson_t \<Rightarrow> 32 word \<Rightarrow> (bool \<times> int) result" where
  "bson_validate bson flags = validate_with (validate_funcs (b_len bson)) bson flags"

section \<open>Validation of any bytes\<close>

text \<open>
  An embedded document has at least five bytes and leaves at least seven of the \<open>n\<close> bytes around it:
  the length, the type, an empty key and the final NUL.
\<close>

definition within :: "nat \<Rightarrow> bson_t \<Rightarrow> bool" where
  "within n b \<longleftrightarrow> bson_ok b \<and> 5 \<le> b_len b \<and> b_len b + 7 \<le> n"

lemma static_doc_drop:
  assumes "d + len < n" "6 \<le> d" "n \<le> length v" "n \<le> INT32_MAX"
  shows "\<exists>r. static_doc (Some (drop d v)) len = Ok r \<and> (\<forall>b. r = Some b \<longrightarrow> within n b)"
proof -
  have "safe (static_doc (Some (drop d v)) len)"
    using assms by (auto simp: static_doc_def bson_init_static_def view_simps)
  then obtain r where "static_doc (Some (drop d v)) len = Ok r" by (auto simp: safe_iff)
  then show ?thesis using assms bson_init_static_some [of "drop d v" len]
    by (auto simp: static_doc_def within_def bson_ok_def)
qed

lemma embedded_document_within:
  assumes "on_field it"
  shows "field_type it = BSON_TYPE_DOCUMENT \<Longrightarrow> \<exists>n p r. bson_iter_document it = Ok (n, p)
      \<and> static_doc p n = Ok r \<and> (\<forall>b. r = Some b \<longrightarrow> within (i_len it) b)"
    and "field_type it = BSON_TYPE_ARRAY \<Longrightarrow> \<exists>n p r. bson_iter_array it = Ok (n, p)
      \<and> static_doc p n = Ok r \<and> (\<forall>b. r = Some b \<longrightarrow> within (i_len it) b)"
    and "field_type it = BSON_TYPE_CODEWSCOPE \<Longrightarrow> \<exists>c l n p r. bson_iter_codewscope it = Ok (c, l, n, p)
      \<and> static_doc p n = Ok r \<and> (\<forall>b. r = Some b \<longrightarrow> within (i_len it) b)"
proof -
  obtain v where v: "i_raw it = Some v" "i_len it \<le> length v" "i_len it \<le> INT32_MAX" "i_next_off it < i_len it"
    using assms by (rule on_fieldE)
  have d1: "6 \<le> i_d1 it" if "field_type it \<in> {BSON_TYPE_DOCUMENT, BSON_TYPE_ARRAY, BSON_TYPE_CODEWSCOPE}"
    using assms by (rule on_fieldE) (use that in \<open>auto simp: field_type_def no_value_def\<close>)
  have *: "\<exists>r. static_doc (Some (drop (i_d1 it) v)) (len_at v (i_d1 it)) = Ok r \<and> (\<forall>b. r = Some b \<longrightarrow> within (i_len it) b)"
    if "field_type it \<in> {BSON_TYPE_DOCUMENT, BSON_TYPE_ARRAY}"
    using fixed_field(5) [OF assms v(1) that] v d1 that by (intro static_doc_drop) auto
  show "field_type it = BSON_TYPE_DOCUMENT \<Longrightarrow> \<exists>n p r. bson_iter_document it = Ok (n, p)
      \<and> static_doc p n = Ok r \<and> (\<forall>b. r = Some b \<longrightarrow> within (i_len it) b)"
    using * fixed_field(5) [OF assms v(1)] v(1) assms
    by (auto simp: bson_iter_document_def ITER_TYPE_on_field iter_view_def)
  show "field_type it = BSON_TYPE_ARRAY \<Longrightarrow> \<exists>n p r. bson_iter_array it = Ok (n, p)
      \<and> static_doc p n = Ok r \<and> (\<forall>b. r = Some b \<longrightarrow> within (i_len it) b)"
    using * fixed_field(5) [OF assms v(1)] v(1) assms
    by (auto simp: bson_iter_array_def ITER_TYPE_on_field iter_view_def)
  assume t: "field_type it = BSON_TYPE_CODEWSCOPE"
  then have l: "i_next_off it = i_d4 it + len_at v (i_d4 it)" "i_d1 it \<le> i_d4 it"
    using assms v(1) by (auto elim!: on_fieldE simp: field_layout_def field_type_def Let_def)
  obtain c l n p where c: "bson_iter_codewscope it = Ok (c, l, n, p)"
    using pointer_accessors_safe(4) [OF assms] unfolding safe_iff by fastforce
  then have "n = len_at v (i_d4 it)" "p = Some (drop (i_d4 it) v)"
    using t v(1) assms
    by (auto simp: bson_iter_codewscope_def ITER_TYPE_on_field iter_view_def iter_ptr_def rbind_Ok_iff
          rd32_def rdn_def len_at_def split: if_splits)
  then show "\<exists>c l n p r. bson_iter_codewscope it = Ok (c, l, n, p)
      \<and> static_doc p n = Ok r \<and> (\<forall>b. r = Some b \<longrightarrow> within (i_len it) b)"
    using c l v d1 t static_doc_drop [of "i_d4 it" n "i_len it" v] by auto
qed


lemma iter_utf8_on_field:
  assumes "on_field it" "field_type it = BSON_TYPE_UTF8"
  shows "\<exists>p n. bson_iter_utf8 it = Ok (Some p, n) \<and> n \<le> length p \<and> n < 4294967296"
proof -
  obtain v where v: "i_raw it = Some v" "i_next_off it < i_len it" "i_len it \<le> INT32_MAX"
    using assms(1) by (rule on_fieldE)
  note sf = string_field [OF assms(1) v(1)]
  show ?thesis
    using sf v(2,3) assms by (auto simp: bson_iter_utf8_def ITER_TYPE_on_field)
qed

lemma utf8_validate_ptr_eq:
  "\<lbrakk>n \<le> length p; n < 4294967296\<rbrakk> \<Longrightarrow> utf8_validate_ptr (Some p) n a = Ok (utf8_text a (take n p))"
  by (simp add: utf8_validate_ptr_def utf8_validate_eq)

lemma validate_utf8_eq:
  assumes "n \<le> length p" "n < 4294967296"
  shows "validate_utf8 it key n (Some p) s =
    Ok (if flag_on (vs_flags s) BSON_VALIDATE_UTF8 \<and> \<not> utf8_text (flag_on (vs_flags s) BSON_VALIDATE_UTF8_ALLOW_NULL) (take n p)
        then (True, s\<lparr>vs_err_offset := int (i_off it)\<rparr>) else (False, s))"
  using assms by (simp add: validate_utf8_def utf8_validate_ptr_eq)

definition key_allowed :: "32 word \<Rightarrow> bytes \<Rightarrow> bool" where
  "key_allowed flags k \<longleftrightarrow> (flag_on flags BSON_VALIDATE_DOLLAR_KEYS \<longrightarrow> take 1 k \<noteq> [dollar])
     \<and> (flag_on flags BSON_VALIDATE_DOT_KEYS \<longrightarrow> dot \<notin> set k)"

lemma validate_before_eq:
  assumes "0 \<notin> set k"
  shows "validate_before it (k @ 0 # t) s =
    Ok (if key_allowed (vs_flags s) k then (False, s) else (True, s\<lparr>vs_err_offset := int (i_off it)\<rparr>))"
proof -
  have "c_string (k @ 0 # t) = Ok k" using assms by (auto simp: c_string_def takeWhile_append)
  then show ?thesis
    by (cases k) (auto simp: validate_before_def key_allowed_def rd8_def c_strstr_char)
qed

text \<open>The accessors of the loop, on an element of the type they are called for.\<close>

lemma visit_element_validate:
  assumes f: "on_field it"
    and D: "\<And>b key s. within (i_len it) b \<Longrightarrow> safe (D it key b s)"
    and C: "\<And>b key l c s. within (i_len it) b \<Longrightarrow> safe (C it key l c b s)"
  shows "\<exists>stop it' s'. visit_element (validate_visitor D C) it s = Ok (stop, it', s') \<and> (\<not> stop \<longrightarrow> it' = it)"
proof -
  let ?vis = "validate_visitor D C"
  have field: "\<exists>stop it' s'. visit_field ?vis key it s = Ok (stop, it', s') \<and> (\<not> stop \<longrightarrow> it' = it)" for key s
  proof -
    note vf = visit_field_def bson_iter_type_on_field [OF f] validate_visitor_def visiting_def
    note ds = embedded_document_within [OF f]
    have ok: "\<exists>stop s'. m = Ok (stop, s')" if "safe m" for m :: "(bool \<times> bson_validate_state_t) result"
      using that by (auto simp: safe_iff)
    show ?thesis
    proof (cases "field_type it")
      case BSON_TYPE_UTF8
      obtain p n where "bson_iter_utf8 it = Ok (Some p, n)" "n \<le> length p" "n < 4294967296"
        using iter_utf8_on_field [OF f BSON_TYPE_UTF8] by blast
      then show ?thesis using BSON_TYPE_UTF8 by (auto simp: vf utf8_validate_ptr_eq validate_utf8_eq)
    next
      case BSON_TYPE_DOCUMENT
      obtain n p r where r: "bson_iter_document it = Ok (n, p)" "static_doc p n = Ok r" "\<forall>b. r = Some b \<longrightarrow> within (i_len it) b"
        using ds(1) [OF BSON_TYPE_DOCUMENT] by blast
      show ?thesis
      proof (cases r)
        case (Some b)
        from ok [OF D [of b key s]] r(3) Some obtain stop s' where "D it key b s = Ok (stop, s')" by blast
        then show ?thesis using BSON_TYPE_DOCUMENT r Some by (auto simp: vf)
      qed (use BSON_TYPE_DOCUMENT r in \<open>auto simp: vf\<close>)
    next
      case BSON_TYPE_ARRAY
      obtain n p r where r: "bson_iter_array it = Ok (n, p)" "static_doc p n = Ok r" "\<forall>b. r = Some b \<longrightarrow> within (i_len it) b"
        using ds(2) [OF BSON_TYPE_ARRAY] by blast
      show ?thesis
      proof (cases r)
        case (Some b)
        from ok [OF D [of b key s]] r(3) Some obtain stop s' where "D it key b s = Ok (stop, s')" by blast
        then show ?thesis using BSON_TYPE_ARRAY r Some by (auto simp: vf)
      qed (use BSON_TYPE_ARRAY r in \<open>auto simp: vf\<close>)
    next
      case BSON_TYPE_CODEWSCOPE
      obtain c l n p r where r: "bson_iter_codewscope it = Ok (c, l, n, p)" "static_doc p n = Ok r"
        "\<forall>b. r = Some b \<longrightarrow> within (i_len it) b"
        using ds(3) [OF BSON_TYPE_CODEWSCOPE] by blast
      show ?thesis
      proof (cases r)
        case (Some b)
        from ok [OF C [of b key l c s]] r(3) Some obtain stop s' where "C it key l c b s = Ok (stop, s')" by blast
        then show ?thesis using BSON_TYPE_CODEWSCOPE r Some by (auto simp: vf)
      qed (use BSON_TYPE_CODEWSCOPE r in \<open>auto simp: vf\<close>)
    qed (use pointer_accessors_safe(1,2) [OF f] pointer_accessors_safe(3) [OF f, of 0] utf8_accessors_safe [OF f] numeric_accessors_safe [OF f] in
        \<open>auto simp: vf safe_iff\<close>)
  qed
  obtain j t where j: "bson_iter_key_unsafe it = Ok (j @ 0 # t)" "0 \<notin> set j" "length j < INT32_MAX"
    using key_unsafe_on_field [OF f] .
  obtain stop s1 where b: "validate_before it (j @ 0 # t) s = Ok (stop, s1)"
    using validate_before_eq [OF j(2)] by (metis (full_types) old.prod.exhaust)
  have vb: "visit_before ?vis = Some validate_before" "visit_after ?vis = None"
    by (simp_all add: validate_visitor_def)
  obtain stop2 it2 s2 where "visit_field ?vis (j @ 0 # t) it s1 = Ok (stop2, it2, s2)" "\<not> stop2 \<longrightarrow> it2 = it"
    using field [of "j @ 0 # t" s1] by blast
  then show ?thesis
    using b by (auto simp: visit_element_def j(1) key_is_utf8_eq [OF j(2,3)] vb visiting_def)
qed

lemma validate_with_iff:
  "validate_with funcs b flags =
    (let (init, it) = bson_iter_init b in
     if init then rbind (bson_iter_visit_all it funcs \<lparr>vs_flags = flags, vs_err_offset = - 1\<rparr>)
       (\<lambda>(stop, it, s). Ok (vs_err_offset s < 0, vs_err_offset s))
     else Ok (False, 0))"
  by (cases "bson_iter_init b")
    (auto simp: validate_with_def validate_document_def Let_def rbind_assoc split_beta intro!: rbind_cong)

lemma iter_init_within:
  "within n b \<Longrightarrow> iter_ok (snd (bson_iter_init b)) \<and> i_len (snd (bson_iter_init b)) + 7 \<le> n"
  using iter_init_ok [of b] by (auto simp: within_def bson_iter_init_def iter_at_start_def iter_zero_def)

lemma visit_all_validate:
  "iter_ok it \<Longrightarrow> i_len it < 7 * d + 12
     \<Longrightarrow> \<exists>stop it' s'. bson_iter_visit_all it (validate_funcs d) s = Ok (stop, it', s')"
proof (induction d arbitrary: it s)
  case 0
  have "\<exists>stop it' s'. bson_iter_visit_all it (validate_funcs 0) s = Ok (stop, it', s') \<and> True"
  proof (rule visit_all_safe [where n = "i_len it"])
    show "\<exists>stop it1 s'. visit_element (validate_funcs 0) it' s = Ok (stop, it1, s') \<and> True \<and> (\<not> stop \<longrightarrow> it1 = it')"
      if "on_field it'" "i_len it' = i_len it" for it' s
      using visit_element_validate [OF that(1), of "\<lambda>_ _ _ _. Fault No_Termination" "\<lambda>_ _ _ _ _ _. Fault No_Termination" s]
        0(2) that(2) by (fastforce simp: within_def)
  qed (use 0 in \<open>auto simp: validate_visitor_def validate_corrupt_def\<close>)
  then show ?case by blast
next
  case (Suc d)
  let ?n = "7 * d + 19"
  have doc: "safe (bson_iter_visit_all (snd (bson_iter_init b)) (validate_funcs d) s)"
    if "within n b" "n < ?n" for n b s
    using Suc.IH [of "snd (bson_iter_init b)" s] iter_init_within [OF that(1)] that(2) by (auto simp: safe_iff)
  have D: "safe (validate_document (validate_funcs d) it key b s)" if "within n b" "n < ?n" for n it key b s
    using doc [OF that, of s]
    by (cases "bson_iter_init b") (auto simp: validate_document_def safe_iff split: if_splits)
  have W: "safe (validate_with (validate_funcs d) b flags)" if "within n b" "n < ?n" for n b flags
    using doc [OF that, of "\<lparr>vs_flags = flags, vs_err_offset = - 1\<rparr>"]
    by (cases "bson_iter_init b") (auto simp: validate_with_iff safe_iff)
  have C: "safe (validate_codewscope (validate_funcs d) it key l c b s)" if "within n b" "n < ?n" for n it key l c b s
    using W [OF that, of "vs_flags s"] by (auto simp: validate_codewscope_def safe_iff)
  have "\<exists>stop it' s'. bson_iter_visit_all it (validate_funcs (Suc d)) s = Ok (stop, it', s') \<and> True"
  proof (rule visit_all_safe [where n = "i_len it"])
    show "\<exists>stop it1 s'. visit_element (validate_funcs (Suc d)) it' s = Ok (stop, it1, s') \<and> True \<and> (\<not> stop \<longrightarrow> it1 = it')"
      if "on_field it'" "i_len it' = i_len it" for it' s
      using visit_element_validate [OF that(1), of "validate_document (validate_funcs d)" "validate_codewscope (validate_funcs d)" s]
        D C Suc.prems(2) that(2) by simp
  qed (use Suc.prems in \<open>auto simp: validate_visitor_def validate_corrupt_def\<close>)
  then show ?case by blast
qed

text \<open>\<open>validate_with (validate_funcs d)\<close> returns on every document whose length allows at most \<open>d\<close> levels.\<close>

lemma validate_at_depth:
  assumes "bson_ok b" "(b_len b - 5) div 7 \<le> d"
  shows "\<exists>offset. validate_with (validate_funcs d) b flags = Ok (offset < 0, offset)"
proof (cases "bson_iter_init b")
  case (Pair init it)
  then have "iter_ok it" "i_len it \<le> b_len b"
    using iter_init_ok [OF assms(1)]
    by (auto simp: bson_iter_init_def iter_at_start_def iter_zero_def split: if_splits)
  moreover have "b_len b < 7 * d + 12"
    using assms(2) by linarith
  ultimately obtain stop it' s' where
    "bson_iter_visit_all it (validate_funcs d) \<lparr>vs_flags = flags, vs_err_offset = - 1\<rparr> = Ok (stop, it', s')"
    using visit_all_validate [of it d] by fastforce
  then show ?thesis using Pair by (auto simp: validate_with_iff)
qed

text \<open>The documents that nest as deep as their length allows: each in the last, under the empty key.\<close>

primrec nest :: "nat \<Rightarrow> bdoc" where
  "nest 0 = []"
| "nest (Suc n) = [([], BDocument (nest n))]"

lemma nest_length: "length (enc_elems (nest n)) = 7 * n"
  by (induction n) (auto simp: frame_def)

lemma nest_wf: "7 * n + 5 \<le> INT32_MAX \<Longrightarrow> wf_doc (nest n)"
proof -
  have "wf_elems (nest n)" by (induction n) auto
  then show "7 * n + 5 \<le> INT32_MAX \<Longrightarrow> wf_doc (nest n)" by (simp add: wf_doc_def nest_length)
qed

lemma visit_all_nest:
  assumes "iter_upto (nest (Suc n)) 0 it"
    and D: "\<And>b it key s. holds_doc b (nest n) \<Longrightarrow> D it key b s = Fault No_Termination"
  shows "bson_iter_visit_all it (validate_visitor D C) s = Fault No_Termination"
proof -
  let ?vis = "validate_visitor D C"
  obtain it1 where it1: "bson_iter_next it = Ok (True, it1)" "on_elem [] (BDocument (nest n)) it1"
    using iter_upto_next [OF assms(1)] by auto
  obtain t where t: "\<And>s. visit_element ?vis it1 s =
      rbind (visiting it1 s (visit_before ?vis) (\<lambda>f. f it1 ([] @ 0 # t) s)) (\<lambda>(stop, it, s).
        if stop then Ok (True, it, s)
        else rbind (visit_field ?vis ([] @ 0 # t) it s) (\<lambda>(stop, it, s).
          if stop then Ok (True, it, s) else visiting it s (visit_after ?vis) (\<lambda>f. f it ([] @ 0 # t) s)))"
    using visit_element_on_elem [OF it1(2), of ?vis] by (auto simp: key_passes_def)
  have "visit_field ?vis ([] @ 0 # t) it1 s = Fault No_Termination"
    using visit_field_on_elem [OF it1(2), of ?vis "[] @ 0 # t" s] D
    by (auto simp: field_call_def validate_visitor_def visiting_def)
  then have e: "visit_element ?vis it1 s = Fault No_Termination"
    using validate_before_eq [of "[]" it1 t s] unfolding t
    by (simp add: validate_visitor_def visiting_def key_allowed_def)
  obtain fuel where "iter_fuel it = Suc fuel" by (simp add: iter_fuel_def)
  then show ?thesis using it1(1) e by (simp add: bson_iter_visit_all_def)
qed

lemma visit_all_too_deep:
  "iter_upto (nest (Suc n)) 0 it \<Longrightarrow> d \<le> n
     \<Longrightarrow> bson_iter_visit_all it (validate_funcs d) s = Fault No_Termination"
proof (induction n arbitrary: d it s)
  case 0
  then show ?case using visit_all_nest [OF 0(1)] by simp
next
  case (Suc n)
  show ?case
  proof (cases d)
    case 0
    then show ?thesis using visit_all_nest [OF Suc.prems(1)] by simp
  next
    case (Suc d')
    have "validate_document (validate_funcs d') it key b s = Fault No_Termination"
      if b: "holds_doc b (nest (Suc n))" for b it key s
    proof -
      obtain child where "bson_iter_init b = (True, child)" "iter_upto (nest (Suc n)) 0 child"
        using iter_init_holds_doc [OF b] .
      then show ?thesis using Suc.IH [of child d' s] Suc.prems(2) Suc by (simp add: validate_document_def)
    qed
    then show ?thesis using visit_all_nest [OF Suc.prems(1)] Suc by simp
  qed
qed

lemma nest_needs_depth:
  assumes "7 * n + 5 \<le> INT32_MAX"
  shows "\<exists>b. holds_doc b (nest n) \<and> b_len b = 7 * n + 5
     \<and> (\<forall>d < n. validate_with (validate_funcs d) b flags = Fault No_Termination)"
proof -
  obtain b where b: "holds_doc b (nest n)"
    using static_doc_holds [OF _ nest_wf [OF assms], of "Some (encode_doc (nest n))"]
    by (auto simp: points_to_def)
  obtain it where it: "bson_iter_init b = (True, it)" "iter_upto (nest n) 0 it"
    using iter_init_holds_doc [OF b] .
  have "validate_with (validate_funcs d) b flags = Fault No_Termination" if d: "d < n" for d
  proof -
    obtain m where n: "n = Suc m" "d \<le> m" using d by (cases n) auto
    show ?thesis
      using visit_all_too_deep [of m it d] it n by (simp add: validate_with_iff)
  qed
  moreover have "b_len b = 7 * n + 5" using b by (simp add: holds_doc_def nest_length)
  ultimately show ?thesis using b by blast
qed

text \<open>
  \<open>nested es\<close>: the elements of a document and of the documents and arrays inside it, at every depth.
\<close>

function nested :: "bdoc \<Rightarrow> (bytes \<times> bval) list" where
  "nested [] = []"
| "nested ((k, x) # es) =
     (k, x) # (case x of BDocument es' \<Rightarrow> nested es' | BArray es' \<Rightarrow> nested es' | _ \<Rightarrow> []) @ nested es"
  by pat_completeness auto
termination
  by (relation "measure (size_list (size_prod (\<lambda>_. 0) size))") auto

text \<open>One element as the visitor treats it: whether it stops the walk, and whether it is reported.\<close>

definition scope_free :: "bval \<Rightarrow> bool" where
  "scope_free x \<longleftrightarrow> (case x of BCodeWScope c es \<Rightarrow> False | _ \<Rightarrow> True)"

definition string_allowed :: "32 word \<Rightarrow> bval \<Rightarrow> bool" where
  "string_allowed flags x \<longleftrightarrow> (case x of
     BUtf8 t \<Rightarrow> flag_on flags BSON_VALIDATE_UTF8 \<longrightarrow> utf8_text (flag_on flags BSON_VALIDATE_UTF8_ALLOW_NULL) t
   | _ \<Rightarrow> True)"

function check_doc :: "32 word \<Rightarrow> bdoc \<Rightarrow> bool \<Rightarrow> bool \<times> bool"
  and check_element :: "32 word \<Rightarrow> bytes \<Rightarrow> bval \<Rightarrow> bool \<Rightarrow> bool \<times> bool" where
  "check_doc flags [] bad = (False, bad)"
| "check_doc flags ((k, x) # es) bad =
     (let (stop, bad) = check_element flags k x bad in if stop then (True, bad) else check_doc flags es bad)"
| "check_element flags k x bad =
     (if \<not> key_passes k then (True, bad)
      else if \<not> key_allowed flags k then (True, True)
      else case x of
        BUtf8 t \<Rightarrow> if \<not> text_passes x then (True, bad) else if \<not> string_allowed flags x then (True, True) else (False, bad)
      | BDocument es \<Rightarrow> (False, snd (check_doc flags es bad))
      | BArray es \<Rightarrow> (False, snd (check_doc flags es bad))
      | BCodeWScope c es \<Rightarrow> if snd (check_doc flags es False) then (False, True) else (True, bad)
      | _ \<Rightarrow> (False, bad))"
  by pat_completeness auto
termination
  by (relation "measure (case_sum (\<lambda>(f, es, b). size_list (size_prod (\<lambda>_. 0) size) es) (\<lambda>(f, k, x, b). Suc (size x)))") auto

declare check_element.simps [simp del]


lemma check_doc_walk: "check_doc flags es bad = walk (check_element flags) es bad"
  by (induction es arbitrary: bad) (auto split: prod.splits)

definition reported :: "32 word \<Rightarrow> bson_validate_state_t \<Rightarrow> bool \<Rightarrow> bool" where
  "reported flags s bad \<longleftrightarrow> vs_flags s = flags \<and> (bad \<longleftrightarrow> 0 \<le> vs_err_offset s)"

lemma container_shorter:
  assumes "on_elem k x it" "x = BDocument es \<or> x = BArray es \<or> x = BCodeWScope c es"
  shows "length (encode_doc es) < i_len it"
proof -
  obtain v where "i_off it + length (enc_elem k x) < i_len it" using assms(1) by (rule on_elemE)
  moreover have "length (encode_doc es) \<le> length (enc_elem k x)"
    using assms(2) by (auto simp: enc_elem_def encode_doc_def frame_def)
  ultimately show ?thesis by simp
qed

lemma element_check:
  assumes e: "on_elem k x it" and R: "reported flags s bad"
    and D: "\<And>b es key s bad. holds_doc b es \<Longrightarrow> length (encode_doc es) < i_len it \<Longrightarrow> reported flags s bad
      \<Longrightarrow> \<exists>s'. D it key b s = Ok (False, s') \<and> reported flags s' (snd (check_doc flags es bad))"
    and C: "\<And>b es key l c s bad. holds_doc b es \<Longrightarrow> length (encode_doc es) < i_len it \<Longrightarrow> reported flags s bad
      \<Longrightarrow> \<exists>s'. C it key l c b s = Ok (\<not> snd (check_doc flags es False), s')
        \<and> reported flags s' (snd (check_doc flags es False) \<or> bad)"
    and c: "check_element flags k x bad = (stop, bad')"
  shows "\<exists>it' s'. visit_element (validate_visitor D C) it s = Ok (stop, it', s') \<and> reported flags s' bad'
     \<and> (\<not> stop \<longrightarrow> it' = it)"
proof -
  let ?vis = "validate_visitor D C"
  have off: "reported flags (s\<lparr>vs_err_offset := int n\<rparr>) True" if "reported flags s bad" for s bad n
    using that by (simp add: reported_def)
  obtain t where t: "0 \<notin> set k" "visit_element ?vis it s = (if \<not> key_passes k then Ok (True, mark_err it, s)
       else rbind (visiting it s (visit_before ?vis) (\<lambda>f. f it (k @ 0 # t) s)) (\<lambda>(stop, it, s).
         if stop then Ok (True, it, s)
         else rbind (visit_field ?vis (k @ 0 # t) it s) (\<lambda>(stop, it, s).
           if stop then Ok (True, it, s) else visiting it s (visit_after ?vis) (\<lambda>f. f it (k @ 0 # t) s))))"
    using visit_element_on_elem [OF e, of ?vis] by blast
  have fl: "vs_flags s = flags" using R by (simp add: reported_def)
  show ?thesis
  proof (cases "key_passes k \<and> key_allowed flags k")
    case False
    then show ?thesis
      using t(2) R c off [OF R] validate_before_eq [OF t(1), of it t s]
      by (auto simp: check_element.simps fl validate_visitor_def visiting_def)
  next
    case True
    then have v: "visit_element ?vis it s = rbind (visit_field ?vis (k @ 0 # t) it s) (\<lambda>(stop, it, s).
        if stop then Ok (True, it, s) else Ok (False, it, s))"
      using t(2) validate_before_eq [OF t(1), of it t s]
      by (simp add: fl validate_visitor_def visiting_def cong: if_cong)
    have f: "field_call ?vis (k @ 0 # t) x it s (visit_field ?vis (k @ 0 # t) it s)"
      using visit_field_on_elem [OF e] .
    have "\<exists>it' s'. visit_field ?vis (k @ 0 # t) it s = Ok (stop, it', s') \<and> reported flags s' bad' \<and> (\<not> stop \<longrightarrow> it' = it)"
    proof (cases x)
      case (BUtf8 u)
      show ?thesis
      proof (cases "utf8_text True u")
        case True': True
        then obtain p where p: "points_to p (u @ [0])"
          "visit_field ?vis (k @ 0 # t) it s = visiting it s (visit_utf8 ?vis) (\<lambda>f. f it (k @ 0 # t) (length u) p s)"
          using f BUtf8 by (auto simp: field_call_def)
        then obtain w where w: "p = Some (u @ 0 # w)" by (auto simp: points_to_def)
        have "validate_utf8 it (k @ 0 # t) (length u) p s =
          Ok (if string_allowed flags x then (False, s) else (True, s\<lparr>vs_err_offset := int (i_off it)\<rparr>))"
          using validate_utf8_eq [of "length u" "u @ 0 # w" it "k @ 0 # t" s] on_elem_length [OF e] by (simp add: w string_allowed_def BUtf8 fl)
        then show ?thesis
          using p(2) c R off [OF R] True True'
          by (auto simp: BUtf8 check_element.simps text_passes_def validate_visitor_def visiting_def split: if_splits)
      next
        case False
        then show ?thesis using f c R True by (auto simp: BUtf8 field_call_def check_element.simps text_passes_def)
      qed
    next
      case (BDocument es)
      then obtain b where b: "holds_doc b es"
        "visit_field ?vis (k @ 0 # t) it s = visiting it s (visit_document ?vis) (\<lambda>f. f it (k @ 0 # t) b s)"
        using f by (auto simp: field_call_def)
      from D [OF b(1) _ R, of "k @ 0 # t"] container_shorter [OF e, of es] b(2) c True show ?thesis
        by (auto simp: BDocument check_element.simps validate_visitor_def visiting_def)
    next
      case (BArray es)
      then obtain b where b: "holds_doc b es"
        "visit_field ?vis (k @ 0 # t) it s = visiting it s (visit_array ?vis) (\<lambda>f. f it (k @ 0 # t) b s)"
        using f by (auto simp: field_call_def)
      from D [OF b(1) _ R, of "k @ 0 # t"] container_shorter [OF e, of es] b(2) c True show ?thesis
        by (auto simp: BArray check_element.simps validate_visitor_def visiting_def)
    next
      case (BCodeWScope co es)
      then obtain p b where b: "holds_doc b es"
        "visit_field ?vis (k @ 0 # t) it s = visiting it s (visit_codewscope ?vis) (\<lambda>f. f it (k @ 0 # t) (length co) p b s)"
        using f by (auto simp: field_call_def)
      from C [OF b(1) _ R, of "k @ 0 # t" "length co" p] container_shorter [OF e, of es co] b(2) c True show ?thesis
        by (auto simp: BCodeWScope check_element.simps validate_visitor_def visiting_def split: if_splits)
    qed (use f c R True in \<open>auto simp: field_call_def check_element.simps validate_visitor_def visiting_def\<close>)
    then show ?thesis using v by (cases stop) auto
  qed
qed

lemma visit_all_check:
  "iter_upto es 0 it \<Longrightarrow> length (encode_doc es) \<le> d \<Longrightarrow> reported flags s bad
    \<Longrightarrow> \<exists>stop it' s'. bson_iter_visit_all it (validate_funcs d) s = Ok (stop, it', s')
      \<and> reported flags s' (snd (check_doc flags es bad))"
proof (induction d arbitrary: es it s bad)
  case 0
  then show ?case by simp
next
  case (Suc d)
  have doc: "\<exists>it' stop it'' s'. bson_iter_init b = (True, it') \<and> bson_iter_visit_all it' (validate_funcs d) s = Ok (stop, it'', s')
      \<and> reported flags s' (snd (check_doc flags es' bad))"
    if h: "holds_doc b es'" "length (encode_doc es') < Suc d" "reported flags s bad" for b es' s bad
  proof -
    obtain it' where "bson_iter_init b = (True, it')" "iter_upto es' 0 it'" using iter_init_holds_doc [OF h(1)] by blast
    then show ?thesis using Suc.IH [of es' it' s bad] h(2,3) by auto
  qed
  have len: "i_len it' < Suc (Suc d)" if "i_len it' = length (encode_doc es)" for it' using that Suc.prems(2) by simp
  obtain stop bad' where w: "check_doc flags es bad = (stop, bad')" by fastforce
  have "\<exists>it' s'. bson_iter_visit_all it (validate_funcs (Suc d)) s = Ok (stop, it', s') \<and> reported flags s' bad'
      \<and> (\<not> stop \<longrightarrow> i_err_off it' = 0)"
  proof (rule visit_all_doc [where R = "reported flags" and step = "check_element flags"])
    show "\<exists>it1 s'. visit_element (validate_funcs (Suc d)) it' s = Ok (stop, it1, s') \<and> reported flags s' bad'
        \<and> (\<not> stop \<longrightarrow> it1 = it')"
      if "on_elem k x it'" "i_len it' = length (encode_doc es)" "reported flags s bad"
        "check_element flags k x bad = (stop, bad')" for k x it' s bad stop bad'
      unfolding validate_funcs.simps
    proof (rule element_check [OF that(1,3) _ _ that(4)])
      show "\<exists>s'. validate_document (validate_funcs d) it' key b s = Ok (False, s')
          \<and> reported flags s' (snd (check_doc flags es' bad))"
        if "holds_doc b es'" "length (encode_doc es') < i_len it'" "reported flags s bad" for b es' key s bad
        using doc [OF that(1) _ that(3)] that(2) len [OF \<open>i_len it' = length (encode_doc es)\<close>]
        by (auto simp: validate_document_def)
      show "\<exists>s'. validate_codewscope (validate_funcs d) it' key l c b s = Ok (\<not> snd (check_doc flags es' False), s')
          \<and> reported flags s' (snd (check_doc flags es' False) \<or> bad)"
        if "holds_doc b es'" "length (encode_doc es') < i_len it'" "reported flags s bad" for b es' key l c s bad
        using doc [OF that(1), of "\<lparr>vs_flags = flags, vs_err_offset = - 1\<rparr>" False] that(2,3)
          len [OF \<open>i_len it' = length (encode_doc es)\<close>]
        by (auto simp: validate_codewscope_def validate_with_iff reported_def)
    qed
  qed (use Suc.prems w in \<open>auto simp: check_doc_walk\<close>)
  then show ?case using w by auto
qed

lemma bson_validate_check:
  assumes "holds_doc b es"
  shows "\<exists>offset. bson_validate b flags = Ok (\<not> snd (check_doc flags es False), offset)"
proof -
  obtain it where it: "bson_iter_init b = (True, it)" "iter_upto es 0 it" using iter_init_holds_doc [OF assms] by blast
  have "length (encode_doc es) \<le> b_len b" using assms by (simp add: holds_doc_def)
  from visit_all_check [OF it(2) this, of flags "\<lparr>vs_flags = flags, vs_err_offset = - 1\<rparr>" False] it(1) show ?thesis
    by (auto simp: bson_validate_def validate_with_iff reported_def)
qed


definition plain :: "bdoc \<Rightarrow> bool" where
  "plain es \<longleftrightarrow> (\<forall>(k, x) \<in> set (nested es). key_passes k \<and> text_passes x \<and> scope_free x)"

definition obeys :: "32 word \<Rightarrow> bdoc \<Rightarrow> bool" where
  "obeys flags es \<longleftrightarrow> (\<forall>(k, x) \<in> set (nested es). key_allowed flags k \<and> string_allowed flags x)"

lemma nested_cons:
  "plain ((k, x) # es) \<longleftrightarrow> key_passes k \<and> text_passes x \<and> scope_free x
     \<and> (case x of BDocument es' \<Rightarrow> plain es' | BArray es' \<Rightarrow> plain es' | _ \<Rightarrow> True) \<and> plain es"
  "obeys flags ((k, x) # es) \<longleftrightarrow> key_allowed flags k \<and> string_allowed flags x
     \<and> (case x of BDocument es' \<Rightarrow> obeys flags es' | BArray es' \<Rightarrow> obeys flags es' | _ \<Rightarrow> True) \<and> obeys flags es"
  by (auto simp: plain_def obeys_def split: bval.splits)

lemma check_doc_plain: "plain es \<Longrightarrow> snd (check_doc flags es bad) \<longleftrightarrow> bad \<or> \<not> obeys flags es"
proof (induction es arbitrary: bad rule: nested.induct)
  case 1
  then show ?case by (simp add: obeys_def)
next
  case (2 k x es)
  have rest: "snd (check_doc flags es bad) \<longleftrightarrow> bad \<or> \<not> obeys flags es" for bad
    using 2 by (simp add: nested_cons)
  show ?case
  proof (cases x)
    case (BDocument es')
    then have "snd (check_doc flags es' bad) \<longleftrightarrow> bad \<or> \<not> obeys flags es'" for bad
      using 2 by (simp add: nested_cons)
    then show ?thesis using 2(4) rest
      by (auto simp: BDocument nested_cons check_element.simps string_allowed_def split: if_splits)
  next
    case (BArray es')
    then have "snd (check_doc flags es' bad) \<longleftrightarrow> bad \<or> \<not> obeys flags es'" for bad
      using 2 by (simp add: nested_cons)
    then show ?thesis using 2(4) rest
      by (auto simp: BArray nested_cons check_element.simps string_allowed_def split: if_splits)
  qed (use 2(4) rest in \<open>auto simp: nested_cons check_element.simps string_allowed_def scope_free_def split: if_splits\<close>)
qed

section \<open>What validation lets through\<close>

text \<open>A code with scope whose scope is valid ends the walk: what follows it is not looked at.\<close>

lemma valid_scope_ends_validation:
  assumes "holds_doc b ((k, BCodeWScope c scope) # es)" "key_passes k" "key_allowed flags k"
    "\<not> snd (check_doc flags scope False)"
  shows "\<exists>offset. bson_validate b flags = Ok (True, offset)"
  using bson_validate_check [OF assms(1), of flags] assms(2-) by (simp add: check_element.simps)

text \<open>A key, or a string, that is not UTF-8 ends the walk without being reported.\<close>

lemma invalid_key_accepted:
  assumes "holds_doc b ((k, x) # es)" "\<not> key_passes k"
  shows "\<exists>offset. bson_validate b flags = Ok (True, offset)"
  using bson_validate_check [OF assms(1), of flags] assms(2) by (simp add: check_element.simps)

lemma invalid_string_accepted:
  assumes "holds_doc b ((k, BUtf8 t) # es)" "key_passes k" "key_allowed flags k" "\<not> utf8_text True t"
  shows "\<exists>offset. bson_validate b flags = Ok (True, offset)"
  using bson_validate_check [OF assms(1), of flags] assms(2-) by (simp add: check_element.simps text_passes_def)

section \<open>Properties\<close>

text \<open>
  C28: validation returns, without a fault, on any bytes, and it recurses at most once for every seven
  bytes of the document after the first five: with that many nested calls allowed
  (\<open>validate_funcs d\<close> faults at a call below depth \<open>d\<close>) the walk always ends. The code has no limit
  of its own, and the bound is reached: for every \<open>n\<close> there is a valid document of \<open>7 n + 5\<close> bytes,
  \<open>nest n\<close>, whose validation needs \<open>n\<close> nested calls, up to more than \<open>3 * 10\<^sup>8\<close> for a document of
  2 GiB. The C stack is not part of the model, so whether it can hold them is not stated here.
\<close>

theorem validate_terminates:
  assumes "bson_ok b"
  shows "(\<exists>valid offset. bson_validate b flags = Ok (valid, offset))
    \<and> ((b_len b - 5) div 7 \<le> d
         \<longrightarrow> (\<exists>valid offset. validate_with (validate_funcs d) b flags = Ok (valid, offset)))
    \<and> (7 * n + 5 \<le> INT32_MAX \<longrightarrow> (\<exists>b'. holds_doc b' (nest n) \<and> b_len b' = 7 * n + 5
         \<and> (\<forall>d' < n. validate_with (validate_funcs d') b' flags = Fault No_Termination)))"
proof -
  have "(b_len b - 5) div 7 \<le> b_len b" using div_le_dividend [of "b_len b - 5" 7] by linarith
  from validate_at_depth [OF assms this, of flags] validate_at_depth [OF assms, of d flags]
    nest_needs_depth [of n flags]
  show ?thesis by (simp add: bson_validate_def) blast
qed

theorem validate_terminates_witness:
  "\<exists>b. b_len b = 19 \<and> validate_with (validate_funcs 1) b BSON_VALIDATE_NONE = Fault No_Termination
     \<and> (\<exists>valid offset. validate_with (validate_funcs 2) b BSON_VALIDATE_NONE = Ok (valid, offset))"
proof -
  have "bson_ok bson_new" by code_simp
  from validate_terminates [OF this, of BSON_VALIDATE_NONE 0 2] obtain b where b: "holds_doc b (nest 2)"
    "b_len b = 19" "\<forall>d' < 2. validate_with (validate_funcs d') b BSON_VALIDATE_NONE = Fault No_Termination"
    by auto
  then have "bson_ok b" by (auto simp: holds_doc_def bson_ok_def wf_doc_def points_to_def)
  from validate_terminates [OF this, of BSON_VALIDATE_NONE 2 0] b(2)
  have "\<exists>valid offset. validate_with (validate_funcs 2) b BSON_VALIDATE_NONE = Ok (valid, offset)" by simp
  moreover have "validate_with (validate_funcs 1) b BSON_VALIDATE_NONE = Fault No_Termination"
    by (rule b(3) [rule_format]) simp
  ultimately show ?thesis using b(2) by blast
qed

text \<open>
  C22: on a document whose text is UTF-8 and that has no code with scope, \<open>bson_validate\<close> accepts exactly
  the documents in which every key, at every depth, is one the flags allow (no leading \<open>$\<close>, no dot)
  and every string is UTF-8 without NUL as far as the flags ask for it.
\<close>

theorem validate_decides:
  assumes "holds_doc b es" "plain es"
  shows "\<exists>offset. bson_validate b flags = Ok (obeys flags es, offset)"
  using bson_validate_check [OF assms(1), of flags] check_doc_plain [OF assms(2), of flags False] by simp

theorem validate_decides_witness:
  "\<exists>b offset. bson_validate b BSON_VALIDATE_DOLLAR_KEYS = Ok (False, offset)"
proof -
  let ?es = "[([], BDocument [([dollar], BInt32 5)])] :: bdoc"
  have "wf_doc ?es" by (simp add: wf_doc_def)
  then obtain b where "holds_doc b ?es"
    using static_doc_holds [of "Some (encode_doc ?es)" ?es] by (auto simp: points_to_def)
  moreover have "bson_utf8_validate [dollar] 1 False = Ok True" by code_simp
  then have "utf8_text False [dollar]"
    using utf8_validate_eq [of 1 "[dollar]" False] by simp
  then have "plain ?es" by (simp add: plain_def key_passes_def text_passes_def scope_free_def)
  moreover have "\<not> obeys BSON_VALIDATE_DOLLAR_KEYS ?es"
    by (simp add: obeys_def key_allowed_def flag_on_def BSON_VALIDATE_DOLLAR_KEYS_def)
  ultimately show ?thesis using validate_decides [of b ?es BSON_VALIDATE_DOLLAR_KEYS] by auto
qed

end
