(* ===== verification/Bson_Json_Text.thy ===== *)
theory Bson_Json_Text
  imports Bson_Json Bson_Validate
begin

text \<open>
  The text that \<open>bson_as_json\<close> prints, as a function of the document, and the proof that the visitor
  computes it.
\<close>

section \<open>The text of a document\<close>

definition quoted :: "bytes \<Rightarrow> bytes" where
  "quoted t = chars ''\"'' @ t @ chars ''\"''"

fun separated :: "bytes list \<Rightarrow> bytes" where
  "separated [] = []"
| "separated [t] = t"
| "separated (t # u # ts) = t @ chars '', '' @ separated (u # ts)"

text \<open>The value at depth \<open>d\<close>; containers below the greatest depth are left out.\<close>

fun json_value :: "nat \<Rightarrow> bval \<Rightarrow> bytes"
  and json_members :: "bool \<Rightarrow> nat \<Rightarrow> bdoc \<Rightarrow> bytes list" where
  "json_value d (BDouble w) = c_lf w"
| "json_value d (BUtf8 t) = quoted (json_escape t)"
| "json_value d (BDocument es) =
     (if BSON_MAX_RECURSION \<le> d then chars ''{ ... }''
      else chars ''{ '' @ separated (json_members True (Suc d) es) @ chars '' }'')"
| "json_value d (BArray es) =
     (if BSON_MAX_RECURSION \<le> d then chars ''{ ... }''
      else chars ''[ '' @ separated (json_members False (Suc d) es) @ chars '' ]'')"
| "json_value d (BBinary sub bs) =
     chars ''{ \"$type\" : \"'' @ hex_pair sub @ chars ''\", \"$binary\" : \"'' @ base64 bs @ chars ''\" }''"
| "json_value d BUndefined = chars ''{ \"$undefined\" : true }''"
| "json_value d (BOid oid) = chars ''{ \"$oid\" : \"'' @ concat (map hex_pair oid) @ chars ''\" }''"
| "json_value d (BBool b) = (if b then chars ''true'' else chars ''false'')"
| "json_value d (BDateTime w) = chars ''{ \"$date\" : '' @ c_signed (sint w) @ chars '' }''"
| "json_value d BNull = chars ''null''"
| "json_value d (BRegex r opts) =
     chars ''{ \"$regex\" : \"'' @ r @ chars ''\", \"$options\" : \"'' @ opts @ chars ''\" }''"
| "json_value d (BDBPointer c oid) =
     chars ''{ \"$ref\" : \"'' @ until_nul c @ chars ''\"'' @ chars '', \"$id\" : \"'' @ concat (map hex_pair oid)
     @ chars ''\"'' @ chars '' }''"
| "json_value d (BCode c) = quoted (json_escape c)"
| "json_value d (BSymbol t) = quoted (until_nul t)"
| "json_value d (BCodeWScope c es) = quoted (json_escape c)"
| "json_value d (BInt32 w) = c_signed (sint w)"
| "json_value d (BTimestamp ts i) =
     chars ''{ \"$timestamp\" : { \"t\" : '' @ c_decimal (unat ts) @ chars '', \"i\" : '' @ c_decimal (unat i) @ chars '' } }''"
| "json_value d (BInt64 w) = c_signed (sint w)"
| "json_value d BMaxKey = chars ''{ \"$maxKey\" : 1 }''"
| "json_value d BMinKey = chars ''{ \"$minKey\" : 1 }''"
| "json_members keys d [] = []"
| "json_members keys d ((k, x) # es) =
     ((if keys then quoted (json_escape k) @ chars '' : '' else []) @ json_value d x) # json_members keys d es"

definition json_document :: "bdoc \<Rightarrow> bytes" where
  "json_document es = (if es = [] then chars ''{ }'' else chars ''{ '' @ separated (json_members True 0 es) @ chars '' }'')"

definition json_array :: "bdoc \<Rightarrow> bytes" where
  "json_array es = (if es = [] then chars ''[ ]'' else chars ''[ '' @ separated (json_members False 0 es) @ chars '' ]'')"

text \<open>Documents whose keys, strings and code are UTF-8.\<close>

definition value_printable :: "bval \<Rightarrow> bool" where
  "value_printable x \<longleftrightarrow> (case x of BUtf8 t \<Rightarrow> utf8_text True t | BCode t \<Rightarrow> utf8_text True t
     | BCodeWScope t es \<Rightarrow> utf8_text True t | _ \<Rightarrow> True)"

definition printable :: "bdoc \<Rightarrow> bool" where
  "printable es \<longleftrightarrow> (\<forall>(k, x) \<in> set (nested es). key_passes k \<and> value_printable x)"

lemma printable_cons:
  "printable ((k, x) # es) \<longleftrightarrow> key_passes k \<and> value_printable x
     \<and> (case x of BDocument es' \<Rightarrow> printable es' | BArray es' \<Rightarrow> printable es' | _ \<Rightarrow> True) \<and> printable es"
  by (auto simp: printable_def split: bval.splits)

lemma printable_member: "printable es \<Longrightarrow> (k, x) \<in> set es \<Longrightarrow> key_passes k \<and> value_printable x
     \<and> (case x of BDocument es' \<Rightarrow> printable es' | BArray es' \<Rightarrow> printable es' | _ \<Rightarrow> True)"
  by (induction es) (auto simp: printable_cons)

lemma utf8_text_mono: "utf8_text False t \<Longrightarrow> utf8_text True t"
  by (induction rule: utf8_text.induct) (auto intro: utf8_text.intros)

lemma key_passes_utf8: "key_passes k \<Longrightarrow> utf8_text True k"
  by (auto simp: key_passes_def intro: utf8_text_mono utf8_text.intros)

lemma separated_take_Suc:
  "n < length ts \<Longrightarrow> separated (take (Suc n) ts) = separated (take n ts) @ (if n = 0 then [] else chars '', '') @ ts ! n"
proof (induction ts arbitrary: n rule: separated.induct)
  case (3 t u ts)
  show ?case
  proof (cases n)
    case (Suc m)
    have "separated (take (Suc m) (u # ts)) = separated (take m (u # ts)) @ (if m = 0 then [] else chars '', '') @ (u # ts) ! m"
      using 3 Suc by simp
    then show ?thesis using Suc by (cases m) auto
  qed simp
qed auto

lemma length_separated_take: "length (separated (take n ts)) \<le> length (separated ts)"
proof (induction ts arbitrary: n rule: separated.induct)
  case (2 t n)
  then show ?case by (cases n) auto
next
  case (3 t u ts n)
  show ?case
  proof (cases n)
    case (Suc m)
    then show ?thesis using "3.IH" [of m] by (cases m) auto
  qed simp
qed simp

lemma length_json_members [simp]: "length (json_members keys d es) = length es"
  by (induction es) auto

lemma json_members_nth: "n < length es \<Longrightarrow> es ! n = (k, x) \<Longrightarrow> json_members keys d es ! n =
    (if keys then quoted (json_escape k) @ chars '' : '' else []) @ json_value d x"
  by (induction es arbitrary: n) (auto simp: nth_Cons split: nat.splits)

section \<open>The printer at work\<close>

definition js_holds :: "nat \<Rightarrow> bool \<Rightarrow> nat \<Rightarrow> bson_json_state_t \<Rightarrow> bytes \<Rightarrow> bool" where
  "js_holds d keys n s a \<longleftrightarrow> js_depth s = d \<and> js_keys s = keys \<and> js_count s = n \<and> holds_string (js_str s) a"

definition shows_text :: "view option \<Rightarrow> bytes \<Rightarrow> bool" where
  "shows_text p t \<longleftrightarrow> (\<exists>v. p = Some v \<and> c_string v = Ok t)"

lemma shows_put: "0 \<notin> set t \<Longrightarrow> shows_text (put t) t"
  by (simp add: shows_text_def put_def c_string_append [of t "[]"])

lemma shows_points_to: "points_to p (t @ [0]) \<Longrightarrow> shows_text p (until_nul t)"
  using c_string_points_to by (auto simp: shows_text_def points_to_def)

lemma appends_holds:
  "list_all2 shows_text vs ts \<Longrightarrow> js_holds d keys n s a \<Longrightarrow> length (a @ concat ts) \<le> STRING_LIMIT
    \<Longrightarrow> \<exists>s'. appends s vs = Ok s' \<and> js_holds d keys n s' (a @ concat ts)"
proof (induction vs ts arbitrary: s a rule: list_all2_induct)
  case (Cons p vs t ts)
  obtain v where v: "p = Some v" "c_string v = Ok t" using Cons.hyps(1) by (auto simp: shows_text_def)
  have "holds_string (js_str s) a" "length (a @ t) \<le> STRING_LIMIT" using Cons.prems by (auto simp: js_holds_def)
  then obtain st where st: "bson_string_append (js_str s) p = Ok st" "holds_string st (a @ t)"
    using string_append [OF _ v(2)] v(1) by blast
  have "js_holds d keys n (s\<lparr>js_str := st\<rparr>) (a @ t)" using Cons.prems(1) st(2) by (simp add: js_holds_def)
  from Cons.IH [OF this] Cons.prems(2) st(1) show ?case by auto
qed simp

lemma go_on_appends:
  assumes "list_all2 shows_text vs ts" "js_holds d keys n s a" "concat ts = t" "length (a @ t) \<le> STRING_LIMIT"
  shows "\<exists>s'. go_on (appends s vs) = Ok (False, s') \<and> js_holds d keys n s' (a @ t)"
  using appends_holds [OF assms(1,2)] assms(3,4) by (auto simp: go_on_def)

lemma c_signed_nonzero: "0 \<notin> set (c_signed i)"
  using c_decimal_nonzero by (auto simp: c_signed_def)

lemma hex_digit_nonzero: "d < 16 \<Longrightarrow> hex_digit d \<noteq> 0"
  by (simp add: hex_digit_def of_nat_byte_zero del: of_nat_add)

lemma hex_pair_nonzero: "0 \<notin> set (hex_pair b)"
proof -
  have "unat b div 16 < 16" using unat_byte_less [of b] by (simp add: div_less_iff_less_mult)
  then show ?thesis using hex_digit_nonzero by (auto simp: hex_pair_def dest: sym)
qed

lemma c_lf_nonzero: "0 \<notin> set (c_lf d)"
  using c_decimal_nonzero zero_padded_nonzero [OF c_decimal_nonzero]
  by (auto simp: c_lf_def Let_def split: prod.splits)

lemma concat_hex_nonzero: "0 \<notin> set (concat (map hex_pair bs))"
  using hex_pair_nonzero by auto

lemmas text_nonzero = c_signed_nonzero hex_pair_nonzero c_lf_nonzero concat_hex_nonzero c_decimal_nonzero
  base64_nonzero json_escape_nonzero

lemma json_escaped_holds:
  assumes "utf8_text True t" "points_to p (t @ [0])" "js_holds d keys n s a" "0 \<notin> set closer"
    "length (a @ chars ''\"'' @ json_escape t @ closer) \<le> STRING_LIMIT"
  shows "\<exists>s'. json_escaped p (int (length t)) s closer = Ok (False, s')
     \<and> js_holds d keys n s' (a @ chars ''\"'' @ json_escape t @ closer)"
proof -
  obtain u where p: "p = Some (t @ 0 # u)" using assms(2) by (auto simp: points_to_def)
  have "bson_utf8_escape_for_json p (int (length t)) = Ok (Some (json_escape t))"
    unfolding p using assms(5) by (intro escape_for_json [OF assms(1)]) simp
  moreover have "\<exists>s'. go_on (appends s [put (chars ''\"''), put (json_escape t), put closer]) = Ok (False, s')
     \<and> js_holds d keys n s' (a @ chars ''\"'' @ json_escape t @ closer)"
    by (rule go_on_appends [OF _ assms(3) _ assms(5), where ts = "[chars ''\"'', json_escape t, closer]"])
      (use assms(4) in \<open>auto intro!: shows_put simp: text_nonzero\<close>)
  ultimately show ?thesis by (simp add: json_escaped_def)
qed

lemma json_escaped_key:
  assumes "utf8_text True k" "0 \<notin> set k" "js_holds d keys n s a" "0 \<notin> set closer"
    "length (a @ chars ''\"'' @ json_escape k @ closer) \<le> STRING_LIMIT"
  shows "\<exists>s'. json_escaped (Some (k @ 0 # u)) (- 1) s closer = Ok (False, s')
     \<and> js_holds d keys n s' (a @ chars ''\"'' @ json_escape k @ closer)"
proof -
  have "bson_utf8_escape_for_json (Some (k @ 0 # u)) (- 1) = Ok (Some (json_escape k))"
    using assms(5) by (intro escape_for_json_nul [OF assms(1,2)]) simp
  moreover have "\<exists>s'. go_on (appends s [put (chars ''\"''), put (json_escape k), put closer]) = Ok (False, s')
     \<and> js_holds d keys n s' (a @ chars ''\"'' @ json_escape k @ closer)"
    by (rule go_on_appends [OF _ assms(3) _ assms(5), where ts = "[chars ''\"'', json_escape k, closer]"])
      (use assms(4) in \<open>auto intro!: shows_put simp: text_nonzero\<close>)
  ultimately show ?thesis by (simp add: json_escaped_def)
qed


text \<open>The function for a value appends the value's text.\<close>

definition walk_prints :: "json_walk \<Rightarrow> nat \<Rightarrow> bool" where
  "walk_prints walk_child d \<longleftrightarrow> (\<forall>keys es it s a. iter_upto es 0 it \<longrightarrow> printable es \<longrightarrow> js_holds d keys 0 s a
     \<longrightarrow> length (a @ separated (json_members keys d es)) \<le> STRING_LIMIT
     \<longrightarrow> (\<exists>it' s'. walk_child it s = Ok (False, it', s')
       \<and> js_holds d keys (length es) s' (a @ separated (json_members keys d es))))"

lemma json_visit_nested_holds:
  assumes "walk_prints walk_child (Suc d)" "holds_doc b es" "printable es" "js_holds d keys n s a"
    "0 \<notin> set (chars opener :: bytes)" "0 \<notin> set (chars closer :: bytes)" "\<not> BSON_MAX_RECURSION \<le> d"
    "length (a @ chars opener @ separated (json_members ks (Suc d) es) @ chars closer) \<le> STRING_LIMIT"
    "0 \<notin> set (separated (json_members ks (Suc d) es))"
  shows "\<exists>s'. json_visit_nested opener closer ks walk_child b s = Ok (False, s')
     \<and> js_holds d keys n s' (a @ chars opener @ separated (json_members ks (Suc d) es) @ chars closer)"
proof -
  let ?m = "separated (json_members ks (Suc d) es)"
  obtain it where it: "bson_iter_init b = (True, it)" "iter_upto es 0 it" using iter_init_holds_doc [OF assms(2)] by blast
  obtain st where st: "bson_string_new (put (chars opener)) = Ok st" "holds_string st (chars opener)"
    using string_new [OF c_string_append [OF assms(5), of "[]"]] assms(8) by (auto simp: put_def)
  define c where "c = \<lparr>js_count = 0, js_keys = ks, js_depth = Suc d, js_str = st\<rparr>"
  have c: "js_holds (Suc d) ks 0 c (chars opener)" using st(2) by (simp add: c_def js_holds_def)
  obtain it' c' where c': "walk_child it c = Ok (False, it', c')" "js_holds (Suc d) ks (length es) c' (chars opener @ ?m)"
    using assms(1,3,8) it(2) c unfolding walk_prints_def by fastforce
  obtain c2 where c2: "appends c' [put (chars closer)] = Ok c2" "js_holds (Suc d) ks (length es) c2 (chars opener @ ?m @ chars closer)"
    using appends_holds [OF _ c'(2), of "[put (chars closer)]" "[chars closer]"] assms(6,8) by (auto simp: shows_put)
  have "st_str (js_str c2) = chars opener @ ?m @ chars closer" using c2(2) by (simp add: js_holds_def holds_string_def)
  moreover have "\<exists>s'. go_on (appends s [put (chars opener @ ?m @ chars closer)]) = Ok (False, s')
      \<and> js_holds d keys n s' (a @ chars opener @ ?m @ chars closer)"
    by (rule go_on_appends [OF _ assms(4) _ assms(8), where ts = "[chars opener @ ?m @ chars closer]"])
      (use assms(5,6,9) in \<open>auto intro!: shows_put\<close>)
  ultimately show ?thesis
    using assms(4,7) it(1) st(1) c'(1) c2(1) by (simp add: json_visit_nested_def js_holds_def c_def)
qed

lemma until_nul_nonzero: "0 \<notin> set (until_nul t)"
  by (auto simp: until_nul_def dest: set_takeWhileD)

lemma until_nul_id: "0 \<notin> set t \<Longrightarrow> until_nul t = t"
  by (simp add: until_nul_same)

lemma separated_nonzero: "\<forall>t \<in> set ts. 0 \<notin> set t \<Longrightarrow> 0 \<notin> set (separated ts)"
  by (induction ts rule: separated.induct) auto

lemma json_text_nonzero:
  "wf_value x \<Longrightarrow> 0 \<notin> set (json_value d x)"
  "wf_elems es \<Longrightarrow> t \<in> set (json_members keys d es) \<Longrightarrow> 0 \<notin> set t"
proof (induction d x and keys d es arbitrary: and t rule: json_value_json_members.induct)
  case (3 d es)
  then have "0 \<notin> set (separated (json_members True (Suc d) es))" if "\<not> BSON_MAX_RECURSION \<le> d"
    using that by (intro separated_nonzero) auto
  then show ?case by simp
next
  case (4 d es)
  then have "0 \<notin> set (separated (json_members False (Suc d) es))" if "\<not> BSON_MAX_RECURSION \<le> d"
    using that by (intro separated_nonzero) auto
  then show ?case by simp
qed (use text_nonzero until_nul_nonzero in \<open>auto simp: quoted_def simp del: set_concat split: if_splits\<close>)

lemma oid_to_string:
  assumes "points_to p oid" "length oid = 12"
  shows "\<exists>v. p = Some v \<and> bson_oid_to_string v = Ok (concat (map hex_pair oid))"
  using assms by (auto simp: points_to_def bson_oid_to_string_def rdn_def)

lemma appends_append: "appends s (xs @ ys) = rbind (appends s xs) (\<lambda>s. appends s ys)"
  by (induction xs arbitrary: s) (auto simp: rbind_assoc)

lemmas json_visit_defs = as_json_visitor_def visiting_def json_visit_utf8_def json_visit_int32_def json_visit_int64_def
  json_visit_double_def json_visit_undefined_def json_visit_null_def json_visit_oid_def json_visit_binary_def
  json_visit_bool_def json_visit_date_time_def json_visit_regex_def json_visit_timestamp_def json_visit_dbpointer_def
  json_visit_minkey_def json_visit_maxkey_def json_visit_code_def json_visit_symbol_def json_visit_codewscope_def

lemma json_value_holds:
  assumes "field_call (as_json_visitor walk_child) key x it s r" "walk_prints walk_child (Suc d) \<or> BSON_MAX_RECURSION \<le> d"
    "js_holds d keys n s a" "length (a @ json_value d x) \<le> STRING_LIMIT" "wf_value x" "value_printable x"
    "case x of BDocument es \<Rightarrow> printable es | BArray es \<Rightarrow> printable es | _ \<Rightarrow> True"
  shows "\<exists>s'. r = Ok (False, it, s') \<and> js_holds d keys n s' (a @ json_value d x)"
proof -
  have go: "\<exists>s'. go_on (appends s vs) = Ok (False, s') \<and> js_holds d keys n s' (a @ json_value d x)"
    if "list_all2 shows_text vs ts" "concat ts = json_value d x" for vs ts
    by (rule go_on_appends [OF that(1) assms(3) that(2) assms(4)])
  have esc: "\<exists>s'. r = Ok (False, it, s') \<and> js_holds d keys n s' (a @ json_value d x)"
    if "r = rbind (json_escaped p (int (length t)) s (chars ''\"'')) (\<lambda>(stop, s). Ok (stop, it, s))"
      "utf8_text True t" "points_to p (t @ [0])" "json_value d x = quoted (json_escape t)" for p t
    using json_escaped_holds [OF that(2,3) assms(3), of "chars ''\"''"] assms(4) that(1,4) by (auto simp: quoted_def)
  have nested: "\<exists>s'. json_visit_nested opener closer ks walk_child b s = Ok (False, s') \<and> js_holds d keys n s' (a @ json_value d x)"
    if "holds_doc b es" "printable es" "wf_elems es" "0 \<notin> set (chars opener :: bytes)" "0 \<notin> set (chars closer :: bytes)"
      "json_value d x = (if BSON_MAX_RECURSION \<le> d then chars ''{ ... }''
        else chars opener @ separated (json_members ks (Suc d) es) @ chars closer)"
    for opener closer ks b es
  proof (cases "BSON_MAX_RECURSION \<le> d")
    case True
    then show ?thesis using go [of "[put (chars ''{ ... }'')]" "[chars ''{ ... }'']"] that(6) assms(3)
      by (simp add: json_visit_nested_def js_holds_def shows_put)
  next
    case False
    have "0 \<notin> set (separated (json_members ks (Suc d) es))"
      using json_text_nonzero(2) [OF that(3)] by (intro separated_nonzero) blast
    then show ?thesis
      using json_visit_nested_holds [OF _ that(1,2) assms(3) that(4,5) False, of walk_child ks] assms(2,4) that(6) False
      by simp
  qed
  note fc = assms(1) [unfolded field_call_def]
  note js = json_visit_defs shows_put text_nonzero
  show ?thesis
  proof (cases x)
    case (BDouble w)
    then show ?thesis using fc go [of "[put (c_lf w)]" "[c_lf w]"] by (auto simp: js)
  next
    case (BUtf8 t)
    with fc assms(6) obtain p where "r = rbind (json_escaped p (int (length t)) s (chars ''\"'')) (\<lambda>(stop, s). Ok (stop, it, s))"
      "utf8_text True t" "points_to p (t @ [0])"
      by (auto simp: as_json_visitor_def visiting_def json_visit_utf8_def value_printable_def)
    from esc [OF this] show ?thesis by (simp add: BUtf8)
  next
    case (BCode t)
    with fc assms(6) obtain p where "r = rbind (json_escaped p (int (length t)) s (chars ''\"'')) (\<lambda>(stop, s). Ok (stop, it, s))"
      "utf8_text True t" "points_to p (t @ [0])"
      by (auto simp: as_json_visitor_def visiting_def json_visit_code_def value_printable_def)
    from esc [OF this] show ?thesis by (simp add: BCode)
  next
    case (BCodeWScope t es)
    with fc assms(6) obtain p where "r = rbind (json_escaped p (int (length t)) s (chars ''\"'')) (\<lambda>(stop, s). Ok (stop, it, s))"
      "utf8_text True t" "points_to p (t @ [0])"
      by (auto simp: as_json_visitor_def visiting_def json_visit_codewscope_def value_printable_def)
    from esc [OF this] show ?thesis by (simp add: BCodeWScope)
  next
    case (BDocument es)
    with fc obtain b where b: "holds_doc b es"
      "r = rbind (json_visit_nested ''{ '' '' }'' True walk_child b s) (\<lambda>(stop, s). Ok (stop, it, s))"
      by (auto simp: as_json_visitor_def visiting_def json_visit_document_def)
    from nested [OF b(1), of "''{ ''" "'' }''" True] assms(5,7) b(2) show ?thesis by (auto simp: BDocument)
  next
    case (BArray es)
    with fc obtain b where b: "holds_doc b es"
      "r = rbind (json_visit_nested ''[ '' '' ]'' False walk_child b s) (\<lambda>(stop, s). Ok (stop, it, s))"
      by (auto simp: as_json_visitor_def visiting_def json_visit_array_def)
    from nested [OF b(1), of "''[ ''" "'' ]''" False] assms(5,7) b(2) show ?thesis by (auto simp: BArray)
  next
    case (BInt32 w)
    then show ?thesis using fc go [of "[put (c_signed (sint w))]" "[c_signed (sint w)]"] by (auto simp: js)
  next
    case (BInt64 w)
    then show ?thesis using fc go [of "[put (c_signed (sint w))]" "[c_signed (sint w)]"] by (auto simp: js)
  next
    case (BBool b)
    then show ?thesis using fc go [of "[put (if b then chars ''true'' else chars ''false'')]" "[if b then chars ''true'' else chars ''false'']"]
      by (auto simp: js)
  next
    case (BDateTime w)
    then show ?thesis
      using fc go [of "[put (chars ''{ \"$date\" : ''), put (c_signed (sint w)), put (chars '' }'')]"
          "[chars ''{ \"$date\" : '', c_signed (sint w), chars '' }'']"] by (auto simp: js)
  next
    case BUndefined
    then show ?thesis using fc go [of "[put (chars ''{ \"$undefined\" : true }'')]" "[chars ''{ \"$undefined\" : true }'']"]
      by (auto simp: js)
  next
    case BNull
    then show ?thesis using fc go [of "[put (chars ''null'')]" "[chars ''null'']"] by (auto simp: js)
  next
    case BMaxKey
    then show ?thesis using fc go [of "[put (chars ''{ \"$maxKey\" : 1 }'')]" "[chars ''{ \"$maxKey\" : 1 }'']"] by (auto simp: js)
  next
    case BMinKey
    then show ?thesis using fc go [of "[put (chars ''{ \"$minKey\" : 1 }'')]" "[chars ''{ \"$minKey\" : 1 }'']"] by (auto simp: js)
  next
    case (BTimestamp ts i)
    then show ?thesis
      using fc go [of "[put (chars ''{ \"$timestamp\" : { \"t\" : ''), put (c_decimal (unat ts)), put (chars '', \"i\" : ''),
          put (c_decimal (unat i)), put (chars '' } }'')]"
          "[chars ''{ \"$timestamp\" : { \"t\" : '', c_decimal (unat ts), chars '', \"i\" : '', c_decimal (unat i), chars '' } }'']"]
      by (auto simp: js)
  next
    case (BOid oid)
    with fc obtain p where p: "points_to p oid" "r = visiting it s (Some json_visit_oid) (\<lambda>f. f it key p s)"
      by (auto simp: as_json_visitor_def)
    with oid_to_string [OF p(1)] assms(5) BOid obtain v where "p = Some v" "bson_oid_to_string v = Ok (concat (map hex_pair oid))"
      by auto
    then show ?thesis
      using BOid p(2) go [of "[put (chars ''{ \"$oid\" : \"''), put (concat (map hex_pair oid)), put (chars ''\" }'')]"
          "[chars ''{ \"$oid\" : \"'', concat (map hex_pair oid), chars ''\" }'']"]
      by (auto simp: js simp del: set_concat)
  next
    case (BBinary sub bs)
    with fc obtain u where u: "r = visiting it s (Some json_visit_binary) (\<lambda>f. f it key sub (length bs) (Some (bs @ u)) s)"
      by (auto simp: as_json_visitor_def points_to_def)
    have "length (base64 bs) < (length bs div 3 + 1) * 4 + 1"
    proof -
      have "(length bs + 2) div 3 \<le> (length bs + 3) div 3" by (rule div_le_mono) simp
      also have "(length bs + 3) div 3 = length bs div 3 + 1" by simp
      finally have "(length bs + 2) div 3 * 4 \<le> (length bs div 3 + 1) * 4" by (rule mult_le_mono1)
      then show ?thesis unfolding length_base64 by linarith
    qed
    then have "b64_ntop (bs @ u) (length bs) ((length bs div 3 + 1) * 4 + 1) = Ok (Some (base64 bs))"
      using b64_ntop_base64 [of "length bs" "bs @ u"] by simp
    then show ?thesis
      using BBinary u go [of "[put (chars ''{ \"$type\" : \"''), put (hex_pair sub), put (chars ''\", \"$binary\" : \"''),
          put (base64 bs), put (chars ''\" }'')]"
          "[chars ''{ \"$type\" : \"'', hex_pair sub, chars ''\", \"$binary\" : \"'', base64 bs, chars ''\" }'']"]
      by (auto simp: js)
  next
    case (BRegex re opts)
    with fc obtain p q where p: "points_to p (re @ [0])" "points_to q (opts @ [0])"
      "r = visiting it s (Some json_visit_regex) (\<lambda>f. f it key p q s)" by (auto simp: as_json_visitor_def)
    have "shows_text p re" "shows_text q opts"
      using shows_points_to [OF p(1)] shows_points_to [OF p(2)] assms(5) by (simp_all add: BRegex until_nul_id)
    then show ?thesis
      using BRegex p(3) go [of "[put (chars ''{ \"$regex\" : \"''), p, put (chars ''\", \"$options\" : \"''), q, put (chars ''\" }'')]"
          "[chars ''{ \"$regex\" : \"'', re, chars ''\", \"$options\" : \"'', opts, chars ''\" }'']"]
      by (auto simp: js)
  next
    case (BDBPointer c oid)
    with fc obtain p q where p: "points_to p (c @ [0])" "points_to q oid"
      "r = visiting it s (Some json_visit_dbpointer) (\<lambda>f. f it key (length c) p q s)" by (auto simp: as_json_visitor_def)
    with oid_to_string [OF p(2)] assms(5) BDBPointer obtain v where
      v: "q = Some v" "bson_oid_to_string v = Ok (concat (map hex_pair oid))" by auto
    let ?A = "[put (chars ''{ \"$ref\" : \"''), p, put (chars ''\"'')]"
    let ?B = "[put (chars '', \"$id\" : \"''), put (concat (map hex_pair oid)), put (chars ''\"'')]"
    have "json_visit_dbpointer it key (length c) p q s = go_on (appends s (?A @ ?B @ [put (chars '' }'')]))"
      unfolding appends_append [of _ ?A] appends_append [of _ ?B] by (simp only: json_visit_dbpointer_def v option.case rbind_simps)
    then show ?thesis
      using BDBPointer p(3) shows_points_to [OF p(1)]
        go [of "?A @ ?B @ [put (chars '' }'')]" "[chars ''{ \"$ref\" : \"'', until_nul c, chars ''\"'', chars '', \"$id\" : \"'',
          concat (map hex_pair oid), chars ''\"'', chars '' }'']"]
      by (auto simp: visiting_def shows_put text_nonzero simp del: set_concat appends.simps)
  next
    case (BSymbol t)
    with fc obtain p where p: "points_to p (t @ [0])" "r = visiting it s (Some json_visit_symbol) (\<lambda>f. f it key (length t) p s)"
      by (auto simp: as_json_visitor_def)
    then show ?thesis
      using BSymbol shows_points_to [OF p(1)] go [of "[put (chars ''\"''), p, put (chars ''\"'')]" "[chars ''\"'', until_nul t, chars ''\"'']"]
      by (auto simp: js quoted_def)
  qed
qed


section \<open>The walk\<close>

text \<open>A walk that no function stops, with an invariant that counts the elements.\<close>

lemma visit_loop_each:
  assumes "\<And>n it s. n < length es \<Longrightarrow> on_elem (fst (es ! n)) (snd (es ! n)) it \<Longrightarrow> Q n s
      \<Longrightarrow> \<exists>s'. visit_element vis it s = Ok (False, it, s') \<and> Q (Suc n) s'"
  shows "iter_upto es n it \<Longrightarrow> Q n s \<Longrightarrow> length es - n < fuel
    \<Longrightarrow> \<exists>it' s'. visit_loop fuel vis it s = Ok (False, it', s') \<and> Q (length es) s' \<and> i_err_off it' = 0 \<and> i_raw it' = None"
proof (induction fuel arbitrary: n it s)
  case (Suc fuel)
  show ?case
  proof (cases "n < length es")
    case True
    obtain it1 where it1: "bson_iter_next it = Ok (True, it1)" "iter_upto es (Suc n) it1" "on_elem (fst (es ! n)) (snd (es ! n)) it1"
      using iter_upto_next [OF Suc.prems(1) True] by metis
    obtain s1 where s1: "visit_element vis it1 s = Ok (False, it1, s1)" "Q (Suc n) s1"
      using assms [OF True it1(3) Suc.prems(2)] by blast
    have "length es - Suc n < fuel" using Suc.prems(3) True by simp
    from Suc.IH [OF it1(2) s1(2) this] it1(1) s1(1) show ?thesis by auto
  next
    case False
    with Suc.prems(1) have n: "n = length es" by (simp add: iter_upto_def)
    obtain it' where "bson_iter_next it = Ok (False, it')" "i_raw it' = None" "i_err_off it' = 0"
      using iter_upto_end Suc.prems(1) unfolding n by blast
    then show ?thesis using Suc.prems(2) by (simp add: n)
  qed
qed simp

lemma visit_all_each:
  assumes "\<And>n it s. n < length es \<Longrightarrow> on_elem (fst (es ! n)) (snd (es ! n)) it \<Longrightarrow> Q n s
      \<Longrightarrow> \<exists>s'. visit_element vis it s = Ok (False, it, s') \<and> Q (Suc n) s'"
    and "iter_upto es 0 it" "Q 0 s"
  shows "\<exists>it' s'. bson_iter_visit_all it vis s = Ok (False, it', s') \<and> Q (length es) s' \<and> i_err_off it' = 0 \<and> i_raw it' = None"
proof -
  have "length es - 0 < iter_fuel it"
    using length_le_enc_elems [of es] assms(2) by (simp add: iter_upto_def iter_fuel_def)
  from visit_loop_each [OF assms(1,2,3) this] show ?thesis by (auto simp: bson_iter_visit_all_def)
qed

text \<open>A turn of the loop appends the separator, the key and the value.\<close>

lemma visit_before_holds:
  assumes "0 \<notin> set k" "utf8_text True k" "js_holds d keys n s a" "n < 4294967295"
    "length (a @ (if n = 0 then [] else chars '', '') @ (if keys then quoted (json_escape k) @ chars '' : '' else [])) \<le> STRING_LIMIT"
  shows "\<exists>s'. json_visit_before it (k @ 0 # t) s = Ok (False, s') \<and> js_holds d keys (Suc n) s'
    (a @ (if n = 0 then [] else chars '', '') @ (if keys then quoted (json_escape k) @ chars '' : '' else []))"
proof -
  let ?a = "a @ (if n = 0 then [] else chars '', '')"
  let ?k = "if keys then quoted (json_escape k) @ chars '' : '' else []"
  have len: "length (?a @ ?k) \<le> STRING_LIMIT" using assms(5) by simp
  obtain s1 where s1: "(if js_count s \<noteq> 0 then appends s [put (chars '', '')] else Ok s) = Ok s1" "js_holds d keys n s1 ?a"
  proof (cases "n = 0")
    case True
    then show ?thesis using that [of s] assms(3) by (simp add: js_holds_def)
  next
    case False
    then obtain s1 where "appends s [put (chars '', '')] = Ok s1" "js_holds d keys n s1 (a @ chars '', '')"
      using appends_holds [OF _ assms(3), of "[put (chars '', '')]" "[chars '', '']"] len by (auto simp: shows_put)
    then show ?thesis using that [of s1] False assms(3) by (simp add: js_holds_def)
  qed
  have "\<exists>s2. (if keys then json_escaped (Some (k @ 0 # t)) (- 1) s1 (chars ''\" : '') else Ok (False, s1)) = Ok (False, s2)
      \<and> js_holds d keys n s2 (?a @ ?k)"
    using json_escaped_key [OF assms(2,1) s1(2), of "chars ''\" : ''" t] s1(2) len by (auto simp: quoted_def)
  then obtain s2 where s2: "(if keys then json_escaped (Some (k @ 0 # t)) (- 1) s1 (chars ''\" : '') else Ok (False, s1)) = Ok (False, s2)"
    "js_holds d keys n s2 (?a @ ?k)" by blast
  have "js_keys s1 = keys" using s1(2) by (simp add: js_holds_def)
  then have "json_visit_before it (k @ 0 # t) s = Ok (False, s2\<lparr>js_count := w32 (js_count s2 + 1)\<rparr>)"
    unfolding json_visit_before_def using s1(1) s2(1) by simp
  then show ?thesis using s2(2) assms(4) by (auto simp: js_holds_def w32_id)
qed

lemma element_prints:
  assumes "on_elem k x it" "walk_prints walk_child (Suc d) \<or> BSON_MAX_RECURSION \<le> d" "js_holds d keys n s a" "n < 4294967295"
    "length (a @ (if n = 0 then [] else chars '', '') @ (if keys then quoted (json_escape k) @ chars '' : '' else []) @ json_value d x)
      \<le> STRING_LIMIT"
    "key_passes k" "value_printable x" "case x of BDocument es \<Rightarrow> printable es | BArray es \<Rightarrow> printable es | _ \<Rightarrow> True"
  shows "\<exists>s'. visit_element (as_json_visitor walk_child) it s = Ok (False, it, s') \<and> js_holds d keys (Suc n) s'
    (a @ (if n = 0 then [] else chars '', '') @ (if keys then quoted (json_escape k) @ chars '' : '' else []) @ json_value d x)"
proof -
  let ?vis = "as_json_visitor walk_child"
  obtain t where t: "0 \<notin> set k" "visit_element ?vis it s = (if \<not> key_passes k then Ok (True, mark_err it, s)
       else rbind (visiting it s (visit_before ?vis) (\<lambda>f. f it (k @ 0 # t) s)) (\<lambda>(stop, it, s).
         if stop then Ok (True, it, s)
         else rbind (visit_field ?vis (k @ 0 # t) it s) (\<lambda>(stop, it, s).
           if stop then Ok (True, it, s) else visiting it s (visit_after ?vis) (\<lambda>f. f it (k @ 0 # t) s))))"
    using visit_element_on_elem [OF assms(1), of ?vis] by blast
  obtain s1 where s1: "json_visit_before it (k @ 0 # t) s = Ok (False, s1)" "js_holds d keys (Suc n) s1
      (a @ (if n = 0 then [] else chars '', '') @ (if keys then quoted (json_escape k) @ chars '' : '' else []))"
    using visit_before_holds [OF t(1) key_passes_utf8 [OF assms(6)] assms(3,4), of it t] assms(5) by auto
  have "wf_value x" using assms(1) by (rule on_elemE)
  then obtain s2 where "visit_field ?vis (k @ 0 # t) it s1 = Ok (False, it, s2)" "js_holds d keys (Suc n) s2
      (a @ (if n = 0 then [] else chars '', '') @ (if keys then quoted (json_escape k) @ chars '' : '' else []) @ json_value d x)"
    using json_value_holds [OF visit_field_on_elem [OF assms(1)] assms(2) s1(2)] assms(5,7,8) by fastforce
  moreover have "visit_before ?vis = Some json_visit_before" "visit_after ?vis = None" by (simp_all add: as_json_visitor_def)
  ultimately show ?thesis using t(2) s1(1) assms(6) by (simp add: visiting_def)
qed

lemma visit_all_prints:
  assumes "walk_prints walk_child (Suc d) \<or> BSON_MAX_RECURSION \<le> d" "iter_upto es 0 it" "printable es" "js_holds d keys 0 s a"
    "length (a @ separated (json_members keys d es)) \<le> STRING_LIMIT"
  shows "\<exists>it' s'. bson_iter_visit_all it (as_json_visitor walk_child) s = Ok (False, it', s')
    \<and> js_holds d keys (length es) s' (a @ separated (json_members keys d es)) \<and> i_err_off it' = 0 \<and> i_raw it' = None"
proof -
  let ?ms = "json_members keys d es"
  have "\<exists>it' s'. bson_iter_visit_all it (as_json_visitor walk_child) s = Ok (False, it', s')
    \<and> js_holds d keys (length es) s' (a @ separated (take (length es) ?ms)) \<and> i_err_off it' = 0 \<and> i_raw it' = None"
  proof (rule visit_all_each [OF _ assms(2)])
    fix n it s
    assume n: "n < length es" "on_elem (fst (es ! n)) (snd (es ! n)) it" "js_holds d keys n s (a @ separated (take n ?ms))"
    obtain k x where kx: "es ! n = (k, x)" by fastforce
    have m: "?ms ! n = (if keys then quoted (json_escape k) @ chars '' : '' else []) @ json_value d x"
      using json_members_nth [OF n(1) kx] .
    have step: "separated (take (Suc n) ?ms) = separated (take n ?ms) @ (if n = 0 then [] else chars '', '') @ ?ms ! n"
      using n(1) by (simp add: separated_take_Suc)
    have "length es < 4294967295"
      using length_le_enc_elems [of es] assms(2) by (simp add: iter_upto_def)
    moreover have "length (a @ separated (take (Suc n) ?ms)) \<le> STRING_LIMIT"
      using assms(5) length_separated_take [of "Suc n" ?ms] by simp
    moreover have "(k, x) \<in> set es" using n(1) kx by (metis nth_mem)
    note printable_member [OF assms(3) this]
    ultimately show "\<exists>s'. visit_element (as_json_visitor walk_child) it s = Ok (False, it, s')
        \<and> js_holds d keys (Suc n) s' (a @ separated (take (Suc n) ?ms))"
      using element_prints [OF n(2) [unfolded kx fst_conv snd_conv] assms(1) n(3)] n(1) unfolding step m by fastforce
  qed (use assms(4) in simp)
  then show ?thesis by simp
qed

lemma walk_prints_visitors: "d + f = BSON_MAX_RECURSION \<Longrightarrow> walk_prints (\<lambda>child s. bson_iter_visit_all child (as_json_visitors f) s) d"
proof (induction f arbitrary: d)
  case 0
  then show ?case
    using visit_all_prints [of "\<lambda>_ _. Fault No_Termination" d] by (fastforce simp: walk_prints_def)
next
  case (Suc f)
  then have "walk_prints (\<lambda>child s. bson_iter_visit_all child (as_json_visitors f) s) (Suc d)" by simp
  then show ?case
    using visit_all_prints [of "\<lambda>child s. bson_iter_visit_all child (as_json_visitors f) s" d] by (fastforce simp: walk_prints_def)
qed


lemma top_walk_prints:
  assumes "iter_upto es 0 it" "printable es" "holds_string st a" "length (a @ separated (json_members keys 0 es)) \<le> STRING_LIMIT"
  shows "\<exists>it' s'. bson_iter_visit_all it bson_as_json_visitors \<lparr>js_count = 0, js_keys = keys, js_depth = 0, js_str = st\<rparr> = Ok (False, it', s')
    \<and> js_holds 0 keys (length es) s' (a @ separated (json_members keys 0 es)) \<and> i_err_off it' = 0 \<and> i_raw it' = None"
proof -
  have m: "BSON_MAX_RECURSION = Suc 99" by (simp add: BSON_MAX_RECURSION_def)
  have "walk_prints (\<lambda>child s. bson_iter_visit_all child (as_json_visitors 99) s) (Suc 0)"
    by (rule walk_prints_visitors) (simp add: m)
  moreover have "js_holds 0 keys 0 \<lparr>js_count = 0, js_keys = keys, js_depth = 0, js_str = st\<rparr> a"
    using assms(3) by (simp add: js_holds_def)
  ultimately show ?thesis
    unfolding bson_as_json_visitors_def m as_json_visitors.simps
    by (intro visit_all_prints [OF _ assms(1,2) _ assms(4)]) auto
qed

lemma as_json_prints:
  assumes "holds_doc b es" "printable es" "length (json_document es) \<le> STRING_LIMIT"
  shows "bson_as_json b = Ok (Some (json_document es), length (json_document es))"
proof (cases "es = []")
  case True
  then show ?thesis using bson_empty_holds_doc [OF assms(1)] by (simp add: bson_as_json_def json_document_def)
next
  case False
  obtain it where it: "bson_iter_init b = (True, it)" "iter_upto es 0 it" using iter_init_holds_doc [OF assms(1)] by blast
  have len: "length (chars ''{ '' @ separated (json_members True 0 es) @ chars '' }'') \<le> STRING_LIMIT"
    using assms(3) False by (simp add: json_document_def)
  obtain st where st: "bson_string_new (put (chars ''{ '')) = Ok st" "holds_string st (chars ''{ '')"
    using string_new [OF c_string_append [of "chars ''{ ''" "[]"]] len by (auto simp: put_def)
  obtain it' s' where v: "bson_iter_visit_all it bson_as_json_visitors \<lparr>js_count = 0, js_keys = True, js_depth = 0, js_str = st\<rparr> = Ok (False, it', s')"
    "js_holds 0 True (length es) s' (chars ''{ '' @ separated (json_members True 0 es))" "i_err_off it' = 0"
    using top_walk_prints [OF it(2) assms(2) st(2), of True] len by auto
  obtain s2 where "appends s' [put (chars '' }'')] = Ok s2"
    "js_holds 0 True (length es) s2 (chars ''{ '' @ separated (json_members True 0 es) @ chars '' }'')"
    using appends_holds [OF _ v(2), of "[put (chars '' }'')]" "[chars '' }'']"] len by (auto simp: shows_put)
  then show ?thesis
    using bson_empty_holds_doc [OF assms(1)] False it(1) st(1) v(1,3)
    by (simp add: bson_as_json_def json_document_def js_holds_def holds_string_def del: list.map appends.simps)
qed

lemma array_as_json_prints:
  assumes "holds_doc b es" "printable es" "length (json_array es) \<le> STRING_LIMIT"
  shows "bson_array_as_json b = Ok (Some (json_array es), length (json_array es))"
proof (cases "es = []")
  case True
  then show ?thesis using bson_empty_holds_doc [OF assms(1)] by (simp add: bson_array_as_json_def json_array_def)
next
  case False
  obtain it where it: "bson_iter_init b = (True, it)" "iter_upto es 0 it" using iter_init_holds_doc [OF assms(1)] by blast
  have len: "length (chars ''[ '' @ separated (json_members False 0 es) @ chars '' ]'') \<le> STRING_LIMIT"
    using assms(3) False by (simp add: json_array_def)
  obtain st where st: "bson_string_new (put (chars ''[ '')) = Ok st" "holds_string st (chars ''[ '')"
    using string_new [OF c_string_append [of "chars ''[ ''" "[]"]] len by (auto simp: put_def)
  obtain it' s' where v: "bson_iter_visit_all it bson_as_json_visitors \<lparr>js_count = 0, js_keys = False, js_depth = 0, js_str = st\<rparr> = Ok (False, it', s')"
    "js_holds 0 False (length es) s' (chars ''[ '' @ separated (json_members False 0 es))" "i_err_off it' = 0" "i_raw it' = None"
    using top_walk_prints [OF it(2) assms(2) st(2), of False] len by auto
  have again: "bson_iter_visit_all it' bson_as_json_visitors s' = Ok (False, it', s')"
    using v(3,4) by (simp add: bson_iter_visit_all_def iter_fuel_def bson_iter_next_def)
  obtain s2 where "appends s' [put (chars '' ]'')] = Ok s2"
    "js_holds 0 False (length es) s2 (chars ''[ '' @ separated (json_members False 0 es) @ chars '' ]'')"
    using appends_holds [OF _ v(2), of "[put (chars '' ]'')]" "[chars '' ]'']"] len by (auto simp: shows_put)
  then show ?thesis
    using bson_empty_holds_doc [OF assms(1)] False it(1) st(1) v(1,3) again
    by (simp add: bson_array_as_json_def json_array_def js_holds_def holds_string_def del: list.map appends.simps)
qed

section \<open>What goes wrong\<close>

text \<open>
  A walk over an embedded document that is stopped, by a string that is not UTF-8 for instance, is lost
  on the way out: the text printed so far is closed and the walk around it goes on.
\<close>

lemma nested_stop_ignored:
  assumes "\<not> BSON_MAX_RECURSION \<le> js_depth s" "bson_iter_init v = (True, child)" "bson_string_new (put (chars opener)) = Ok str"
    "walk_child child \<lparr>js_count = 0, js_keys = keys, js_depth = js_depth s + 1, js_str = str\<rparr> = Ok (True, it', c)"
    "js_holds d keys n c a" "length (a @ chars closer) \<le> STRING_LIMIT" "0 \<notin> set (chars closer :: bytes)"
  shows "json_visit_nested opener closer keys walk_child v s = go_on (appends s [put (a @ chars closer)])"
proof -
  obtain c2 where "appends c [put (chars closer)] = Ok c2" "js_holds d keys n c2 (a @ chars closer)"
    using appends_holds [OF _ assms(5), of "[put (chars closer)]" "[chars closer]"] assms(6,7) by (auto simp: shows_put)
  then show ?thesis
    using assms(1-4) by (simp add: json_visit_nested_def js_holds_def holds_string_def del: appends.simps)
qed

section \<open>Properties\<close>

text \<open>
  C20: on a document whose keys, strings and code are UTF-8, \<open>bson_as_json\<close> and \<open>bson_array_as_json\<close> return
  exactly what \<open>json_document\<close> and \<open>json_array\<close> give, and its length, whenever it is at most
  half a gigabyte long; in particular the growing string never overflows, the escaping loop ends, and
  containers nested more than 100 deep are cut off as \<open>{ ... }\<close> instead of being descended into.
\<close>

theorem as_json_text:
  assumes "holds_doc b es" "printable es"
    "length (json_document es) \<le> STRING_LIMIT" "length (json_array es) \<le> STRING_LIMIT"
  shows "bson_as_json b = Ok (Some (json_document es), length (json_document es))
     \<and> bson_array_as_json b = Ok (Some (json_array es), length (json_array es))"
  using as_json_prints [OF assms(1-3)] array_as_json_prints [OF assms(1,2,4)] by blast

theorem as_json_text_witness:
  "\<exists>b. bson_as_json b = Ok (Some (chars ''{ \"\" : 5, \"\" : [ true, null ] }''), 31)
     \<and> bson_array_as_json b = Ok (Some (chars ''[ 5, [ true, null ] ]''), 21)"
proof -
  let ?es = "[([], BInt32 5), ([], BArray [([], BBool True), ([], BNull)])] :: bdoc"
  have "wf_doc ?es" by (simp add: wf_doc_def)
  then obtain b where "holds_doc b ?es"
    using static_doc_holds [of "Some (encode_doc ?es)" ?es] by (auto simp: points_to_def)
  moreover have "printable ?es" by (simp add: printable_def key_passes_def value_printable_def)
  moreover have d: "json_document ?es = chars ''{ \"\" : 5, \"\" : [ true, null ] }''" "json_array ?es = chars ''[ 5, [ true, null ] ]''"
    by code_simp+
  moreover have l: "length (json_document ?es) = 31" "length (json_array ?es) = 21" by (simp_all add: d)
  moreover have "length (json_document ?es) \<le> STRING_LIMIT" "length (json_array ?es) \<le> STRING_LIMIT"
    by (simp_all add: l STRING_LIMIT_def)
  ultimately have "bson_as_json b = Ok (Some (json_document ?es), length (json_document ?es))
     \<and> bson_array_as_json b = Ok (Some (json_array ?es), length (json_array ?es))"
    by (intro as_json_text)
  then show ?thesis unfolding l unfolding d by blast
qed

end
