(* ===== verification/Monary_Column.thy ===== *)
theory Monary_Column
  imports Prelude
begin

text \<open>
  \<open>cmonary.c\<close>: the column types and the life of the column data (allocate, describe the columns,
  free). Memory is a heap of blocks with the next unused address; the arrays of the columns and
  the copies of the field names are blocks, a pointer to one is its address. The column data and its
  array of items are values of the records below; that they too live in blocks, allocated and freed
  with the others, is recorded by the addresses of the two blocks, whose bytes are not used. The
  bytes of a fresh block, unspecified in C, are zero here; they are overwritten before they are read.
\<close>

section \<open>Column types\<close>

abbreviation (input) TYPE_UNDEFINED :: nat where "TYPE_UNDEFINED \<equiv> 0"
abbreviation (input) TYPE_OBJECTID :: nat where "TYPE_OBJECTID \<equiv> 1"
abbreviation (input) TYPE_BOOL :: nat where "TYPE_BOOL \<equiv> 2"
abbreviation (input) TYPE_INT8 :: nat where "TYPE_INT8 \<equiv> 3"
abbreviation (input) TYPE_INT16 :: nat where "TYPE_INT16 \<equiv> 4"
abbreviation (input) TYPE_INT32 :: nat where "TYPE_INT32 \<equiv> 5"
abbreviation (input) TYPE_INT64 :: nat where "TYPE_INT64 \<equiv> 6"
abbreviation (input) TYPE_UINT8 :: nat where "TYPE_UINT8 \<equiv> 7"
abbreviation (input) TYPE_UINT16 :: nat where "TYPE_UINT16 \<equiv> 8"
abbreviation (input) TYPE_UINT32 :: nat where "TYPE_UINT32 \<equiv> 9"
abbreviation (input) TYPE_UINT64 :: nat where "TYPE_UINT64 \<equiv> 10"
abbreviation (input) TYPE_FLOAT32 :: nat where "TYPE_FLOAT32 \<equiv> 11"
abbreviation (input) TYPE_FLOAT64 :: nat where "TYPE_FLOAT64 \<equiv> 12"
abbreviation (input) TYPE_DATE :: nat where "TYPE_DATE \<equiv> 13"
abbreviation (input) TYPE_TIMESTAMP :: nat where "TYPE_TIMESTAMP \<equiv> 14"
abbreviation (input) TYPE_STRING :: nat where "TYPE_STRING \<equiv> 15"
abbreviation (input) TYPE_BINARY :: nat where "TYPE_BINARY \<equiv> 16"
abbreviation (input) TYPE_BSON :: nat where "TYPE_BSON \<equiv> 17"
abbreviation (input) TYPE_TYPE :: nat where "TYPE_TYPE \<equiv> 18"
abbreviation (input) TYPE_SIZE :: nat where "TYPE_SIZE \<equiv> 19"
abbreviation (input) TYPE_LENGTH :: nat where "TYPE_LENGTH \<equiv> 20"
abbreviation (input) LAST_TYPE :: nat where "LAST_TYPE \<equiv> 20"

abbreviation (input) MONARY_MAX_NUM_COLUMNS :: nat where "MONARY_MAX_NUM_COLUMNS \<equiv> 1024"
abbreviation (input) MONARY_MAX_STRING_LENGTH :: nat where "MONARY_MAX_STRING_LENGTH \<equiv> 1024"

section \<open>Memory\<close>

record memory =
  m_heap :: heap
  m_next :: nat

definition mem_ok :: "memory \<Rightarrow> bool" where
  "mem_ok m \<longleftrightarrow> (\<forall>a \<ge> m_next m. m_heap m a = None)"

definition malloc :: "memory \<Rightarrow> nat \<Rightarrow> nat \<times> memory" where
  "malloc m n =
     (m_next m, m\<lparr>m_heap := (m_heap m)(m_next m := Some (replicate n 0)), m_next := Suc (m_next m)\<rparr>)"

text \<open>Freeing a block twice, or one that was never allocated, is a fault.\<close>

definition mem_free :: "memory \<Rightarrow> nat \<Rightarrow> memory result" where
  "mem_free m a =
     (if m_heap m a = None then Fault Dangling_Pointer
      else Ok (m\<lparr>m_heap := (m_heap m)(a := None)\<rparr>))"

section \<open>Columns\<close>

record monary_column_item =
  ci_field :: "nat option"
  ci_type :: nat
  ci_type_arg :: nat
  ci_storage :: "nat option"
  ci_mask :: "nat option"

text \<open>
  \<open>cd_columns\<close> is the array that the member \<open>columns\<close> points to, \<open>cd_array\<close> the address of its block and
  \<open>cd_self\<close> the address of the structure itself.
\<close>

record monary_column_data =
  cd_num_columns :: nat
  cd_num_rows :: nat
  cd_columns :: "monary_column_item list option"
  cd_array :: nat
  cd_self :: nat

text \<open>What \<open>calloc\<close> leaves in an item.\<close>

definition zero_item :: monary_column_item where
  "zero_item = \<lparr>ci_field = None, ci_type = 0, ci_type_arg = 0, ci_storage = None, ci_mask = None\<rparr>"

text \<open>
  The structure has 16 bytes and an item 32 on a 64-bit target. The allocations succeed, that of no
  items included.
\<close>

definition monary_alloc_column_data :: "memory \<Rightarrow> nat \<Rightarrow> nat \<Rightarrow> monary_column_data option \<times> memory" where
  "monary_alloc_column_data m num_columns num_rows =
     (if num_columns > MONARY_MAX_NUM_COLUMNS then (None, m)
      else
        let (result, m1) = malloc m 16;
            (columns, m2) = malloc m1 (num_columns * 32)
        in (Some \<lparr>cd_num_columns = num_columns, cd_num_rows = num_rows,
                  cd_columns = Some (replicate num_columns zero_item),
                  cd_array = columns, cd_self = result\<rparr>, m2))"

text \<open>The item that \<open>coldata->columns + i\<close> points to.\<close>

definition column_at :: "monary_column_data \<Rightarrow> nat \<Rightarrow> monary_column_item result" where
  "column_at coldata i =
     (case cd_columns coldata of
        None \<Rightarrow> Fault Null_Deref
      | Some cs \<Rightarrow> if i < length cs then Ok (cs ! i) else Fault Out_Of_Bounds)"

definition put_column :: "monary_column_data \<Rightarrow> nat \<Rightarrow> monary_column_item \<Rightarrow> monary_column_data" where
  "put_column coldata i col = coldata\<lparr>cd_columns := map_option (\<lambda>cs. cs[i := col]) (cd_columns coldata)\<rparr>"

text \<open>\<open>strcpy\<close> of a string of \<open>len\<close> characters into a block just allocated for it.\<close>

definition monary_set_column_item ::
    "memory \<Rightarrow> monary_column_data option \<Rightarrow> nat \<Rightarrow> view option \<Rightarrow> nat \<Rightarrow> nat
     \<Rightarrow> nat option \<Rightarrow> nat option \<Rightarrow> (bool \<times> memory \<times> monary_column_data option) result" where
  "monary_set_column_item m coldata colnum field type type_arg storage mask_ptr =
     (case coldata of
        None \<Rightarrow> Ok (False, m, coldata)
      | Some cd \<Rightarrow>
          if colnum \<ge> cd_num_columns cd then Ok (False, m, coldata)
          else if type = TYPE_UNDEFINED \<or> type > LAST_TYPE then Ok (False, m, coldata)
          else if storage = None then Ok (False, m, coldata)
          else if mask_ptr = None then Ok (False, m, coldata)
          else
            case field of
              None \<Rightarrow> Fault Null_Deref
            | Some f \<Rightarrow>
                rbind (c_string f) (\<lambda>s.
                  let len = as_int32 (length s) in
                  if len > int MONARY_MAX_STRING_LENGTH then Ok (False, m, coldata)
                  else rbind (column_at cd colnum) (\<lambda>col.
                    let (a, m1) = malloc m (nat (len + 1)) in
                    rbind (poke (m_heap m1) (Some a) 0 (s @ [0])) (\<lambda>h.
                      Ok (True, m1\<lparr>m_heap := h\<rparr>,
                          Some (put_column cd colnum
                            \<lparr>ci_field = Some a, ci_type = type, ci_type_arg = type_arg,
                             ci_storage = storage, ci_mask = mask_ptr\<rparr>))))))"

fun free_fields :: "memory \<Rightarrow> monary_column_item list \<Rightarrow> memory result" where
  "free_fields m [] = Ok m"
| "free_fields m (col # cols) =
     (case ci_field col of
        None \<Rightarrow> free_fields m cols
      | Some a \<Rightarrow> rbind (mem_free m a) (\<lambda>m'. free_fields m' cols))"

text \<open>The loop runs over \<open>num_columns\<close> items of the array; then the array and the structure are freed.\<close>

definition monary_free_column_data ::
    "memory \<Rightarrow> monary_column_data option \<Rightarrow> (bool \<times> memory) result" where
  "monary_free_column_data m coldata =
     (case coldata of
        None \<Rightarrow> Ok (False, m)
      | Some cd \<Rightarrow>
          (case cd_columns cd of
             None \<Rightarrow> Ok (False, m)
           | Some cs \<Rightarrow>
               if cd_num_columns cd \<le> length cs
               then rbind (free_fields m (take (cd_num_columns cd) cs)) (\<lambda>m1.
                 rbind (mem_free m1 (cd_array cd)) (\<lambda>m2.
                 rbind (mem_free m2 (cd_self cd)) (\<lambda>m3. Ok (True, m3))))
               else Fault Out_Of_Bounds))"

section \<open>The invariant of the column data\<close>

text \<open>The field names of the columns, where set.\<close>

definition field_blocks :: "monary_column_item list \<Rightarrow> nat list" where
  "field_blocks cs = List.map_filter ci_field cs"

lemma field_blocks_simps [simp]:
  "field_blocks [] = []"
  "field_blocks (c # cs) = (case ci_field c of None \<Rightarrow> field_blocks cs | Some a \<Rightarrow> a # field_blocks cs)"
  by (simp_all add: field_blocks_def map_filter_simps split: option.split)

definition item_ok :: "memory \<Rightarrow> monary_column_item \<Rightarrow> bool" where
  "item_ok m c \<longleftrightarrow> c = zero_item \<or>
     (1 \<le> ci_type c \<and> ci_type c \<le> LAST_TYPE \<and> ci_storage c \<noteq> None \<and> ci_mask c \<noteq> None
      \<and> (\<exists>a s. ci_field c = Some a \<and> m_heap m a = Some (s @ [0]) \<and> 0 \<notin> set s
               \<and> length s \<le> MONARY_MAX_STRING_LENGTH))"

text \<open>The blocks that belong to the column data: the structure, the array and the field names.\<close>

definition owned_blocks :: "monary_column_data \<Rightarrow> monary_column_item list \<Rightarrow> nat list" where
  "owned_blocks cd cs = cd_self cd # cd_array cd # field_blocks cs"

definition coldata_ok :: "memory \<Rightarrow> monary_column_data \<Rightarrow> bool" where
  "coldata_ok m cd \<longleftrightarrow> cd_num_columns cd \<le> MONARY_MAX_NUM_COLUMNS
     \<and> m_heap m (cd_self cd) \<noteq> None \<and> m_heap m (cd_array cd) \<noteq> None
     \<and> (\<exists>cs. cd_columns cd = Some cs \<and> length cs = cd_num_columns cd
            \<and> (\<forall>c \<in> set cs. item_ok m c) \<and> distinct (owned_blocks cd cs))"

lemma alloc_column_data_ok:
  assumes "mem_ok m" "monary_alloc_column_data m n rows = (Some cd, m')"
  shows "mem_ok m'" "coldata_ok m' cd"
proof -
  have f: "field_blocks (replicate n zero_item) = []" by (induction n) (simp_all add: zero_item_def)
  show "mem_ok m'" using assms
    by (auto simp: monary_alloc_column_data_def malloc_def mem_ok_def split: if_splits)
  show "coldata_ok m' cd"
    using assms(2) f
    by (auto simp: monary_alloc_column_data_def malloc_def coldata_ok_def owned_blocks_def item_ok_def
        split: if_splits)
qed

lemma c_string_cases: "c_string v = Ok s \<Longrightarrow> 0 \<notin> set s \<and> (\<exists>t. v = s @ 0 # t)"
proof -
  assume a: "c_string v = Ok s"
  then have "0 \<in> set v" by (auto simp: c_string_def split: if_splits)
  then obtain p t where pt: "v = p @ 0 # t" "0 \<notin> set p" by (meson split_list_first)
  with a show ?thesis by (simp add: c_string_append)
qed

lemma item_ok_fresh:
  "item_ok m c \<Longrightarrow> m_heap m a = None \<Longrightarrow> item_ok (m\<lparr>m_heap := (m_heap m)(a := x), m_next := n\<rparr>) c"
  by (fastforce simp: item_ok_def)

lemma owned_blocks_columns [simp]: "owned_blocks (cd\<lparr>cd_columns := x\<rparr>) cs = owned_blocks cd cs"
  by (simp add: owned_blocks_def)

lemma field_blocks_upd:
  assumes "i < length cs" "distinct (field_blocks cs)" "a \<notin> set (field_blocks cs)" "ci_field c = Some a"
  shows "distinct (field_blocks (cs[i := c])) \<and> set (field_blocks (cs[i := c])) \<subseteq> insert a (set (field_blocks cs))"
  using assms
proof (induction cs arbitrary: i)
  case (Cons x xs)
  show ?case
  proof (cases i)
    case 0
    with Cons.prems show ?thesis by (auto split: option.splits)
  next
    case (Suc j)
    with Cons.prems Cons.IH [of j] show ?thesis by (auto split: option.splits)
  qed
qed simp

lemma field_blocks_upd_drops:
  assumes "i < length cs" "distinct (field_blocks cs)" "ci_field (cs ! i) = Some a"
    "ci_field c = Some b" "b \<noteq> a"
  shows "a \<in> set (field_blocks cs)" "a \<notin> set (field_blocks (cs[i := c]))"
  using assms
  by (induction cs arbitrary: i) (auto simp: nth_Cons split: option.splits nat.splits)

lemma field_blocks_allocated:
  "\<forall>c \<in> set cs. item_ok m c \<Longrightarrow> a \<in> set (field_blocks cs) \<Longrightarrow> m_heap m a \<noteq> None"
  by (induction cs) (auto simp: item_ok_def zero_item_def split: option.splits)

text \<open>A successful call, and every call that is refused.\<close>

lemma set_column_item_success:
  assumes "c_string f = Ok s" "length s \<le> MONARY_MAX_STRING_LENGTH" "colnum < cd_num_columns cd"
    "cd_columns cd = Some cs" "length cs = cd_num_columns cd" "1 \<le> type" "type \<le> LAST_TYPE"
  shows "monary_set_column_item m (Some cd) colnum (Some f) type arg (Some st) (Some mk) =
    Ok (True, m\<lparr>m_heap := (m_heap m)(m_next m := Some (s @ [0])), m_next := Suc (m_next m)\<rparr>,
        Some (cd\<lparr>cd_columns := Some (cs[colnum := \<lparr>ci_field = Some (m_next m), ci_type = type,
          ci_type_arg = arg, ci_storage = Some st, ci_mask = Some mk\<rparr>])\<rparr>))"
  using assms
  by (simp add: monary_set_column_item_def column_at_def malloc_def put_column_def as_int32_nonneg
        poke_def splice_def Let_def nat_add_distrib)

lemma set_column_item_refused:
  assumes "c_string f = Ok s" "length s \<le> INT32_MAX"
    "\<not> (length s \<le> MONARY_MAX_STRING_LENGTH \<and> colnum < cd_num_columns cd
        \<and> 1 \<le> type \<and> type \<le> LAST_TYPE \<and> st \<noteq> None \<and> mk \<noteq> None)"
  shows "monary_set_column_item m (Some cd) colnum (Some f) type arg st mk = Ok (False, m, Some cd)"
  using assms by (auto simp: monary_set_column_item_def as_int32_nonneg)

lemma set_column_item_keeps_ok:
  assumes "mem_ok m" "coldata_ok m cd" "c_string f = Ok s" "length s \<le> INT32_MAX"
  obtains b m' cd' where
    "monary_set_column_item m (Some cd) colnum (Some f) type arg st mk = Ok (b, m', Some cd')"
    "mem_ok m'" "coldata_ok m' cd'"
proof -
  obtain cs where cs: "cd_columns cd = Some cs" "length cs = cd_num_columns cd"
    "\<forall>c \<in> set cs. item_ok m c" "distinct (owned_blocks cd cs)" "cd_num_columns cd \<le> MONARY_MAX_NUM_COLUMNS"
    "m_heap m (cd_self cd) \<noteq> None" "m_heap m (cd_array cd) \<noteq> None"
    using assms(2) by (auto simp: coldata_ok_def)
  show thesis
  proof (cases "length s \<le> MONARY_MAX_STRING_LENGTH \<and> colnum < cd_num_columns cd
      \<and> 1 \<le> type \<and> type \<le> LAST_TYPE \<and> st \<noteq> None \<and> mk \<noteq> None")
    case True
    then obtain st' mk' where sm: "st = Some st'" "mk = Some mk'" by blast
    let ?a = "m_next m"
    let ?m = "m\<lparr>m_heap := (m_heap m)(?a := Some (s @ [0])), m_next := Suc ?a\<rparr>"
    let ?c = "\<lparr>ci_field = Some ?a, ci_type = type, ci_type_arg = arg, ci_storage = st, ci_mask = mk\<rparr>"
    have free: "m_heap m ?a = None" using assms(1) by (simp add: mem_ok_def)
    have "item_ok ?m ?c" using True c_string_cases [OF assms(3)] by (auto simp: item_ok_def)
    moreover have "\<forall>c \<in> set cs. item_ok ?m c" using cs(3) free by (auto intro: item_ok_fresh)
    moreover have a: "?a \<notin> set (owned_blocks cd cs)"
      using field_blocks_allocated [OF cs(3), of ?a] free cs(6,7) by (auto simp: owned_blocks_def)
    then have "distinct (owned_blocks cd (cs[colnum := ?c]))"
      using cs(2,4) True field_blocks_upd [of colnum cs ?a ?c] by (auto simp: owned_blocks_def)
    moreover have "cd_self cd \<noteq> ?a" "cd_array cd \<noteq> ?a" using a by (auto simp: owned_blocks_def)
    ultimately have "coldata_ok ?m (cd\<lparr>cd_columns := Some (cs[colnum := ?c])\<rparr>)"
      using cs True
      by (auto simp: coldata_ok_def dest!: subsetD [OF set_update_subset_insert])
    moreover have "mem_ok ?m" using assms(1) by (auto simp: mem_ok_def)
    ultimately show thesis
      using set_column_item_success [OF assms(3) _ _ cs(1,2), of colnum type m arg st' mk'] True sm
      by (intro that) auto
  next
    case False
    with set_column_item_refused [OF assms(3,4) False] assms(1,2) that show thesis by blast
  qed
qed

section \<open>Freeing\<close>

lemma free_fields_ok:
  assumes "distinct (field_blocks cs)" "\<forall>a \<in> set (field_blocks cs). m_heap m a \<noteq> None"
  shows "\<exists>m'. free_fields m cs = Ok m' \<and> m_next m' = m_next m
     \<and> m_heap m' = (\<lambda>a. if a \<in> set (field_blocks cs) then None else m_heap m a)"
  using assms
proof (induction cs arbitrary: m)
  case (Cons c cs)
  show ?case
  proof (cases "ci_field c")
    case (Some a)
    let ?m = "m\<lparr>m_heap := (m_heap m)(a := None)\<rparr>"
    have "distinct (field_blocks cs)" "\<forall>a \<in> set (field_blocks cs). m_heap ?m a \<noteq> None"
      using Cons.prems Some by auto
    from Cons.IH [OF this] obtain m' where "free_fields ?m cs = Ok m'" "m_next m' = m_next ?m"
      "m_heap m' = (\<lambda>a. if a \<in> set (field_blocks cs) then None else m_heap ?m a)"
      by blast
    then show ?thesis using Some Cons.prems by (auto simp: mem_free_def fun_eq_iff)
  qed (use Cons in simp)
qed (simp add: fun_eq_iff)

lemma free_column_data_ok:
  assumes "coldata_ok m cd" "cd_columns cd = Some cs"
  shows "\<exists>m'. monary_free_column_data m (Some cd) = Ok (True, m') \<and> m_next m' = m_next m
     \<and> m_heap m' = (\<lambda>a. if a \<in> set (owned_blocks cd cs) then None else m_heap m a)"
proof -
  have ok: "\<forall>c \<in> set cs. item_ok m c" "distinct (owned_blocks cd cs)" "length cs = cd_num_columns cd"
    "m_heap m (cd_self cd) \<noteq> None" "m_heap m (cd_array cd) \<noteq> None"
    using assms by (auto simp: coldata_ok_def)
  then obtain m1 where m1: "free_fields m cs = Ok m1" "m_next m1 = m_next m"
    "m_heap m1 = (\<lambda>a. if a \<in> set (field_blocks cs) then None else m_heap m a)"
    using free_fields_ok [of cs m] field_blocks_allocated [of cs m] by (auto simp: owned_blocks_def)
  have "m_heap m1 (cd_array cd) \<noteq> None" "m_heap m1 (cd_self cd) \<noteq> None" "cd_self cd \<noteq> cd_array cd"
    using ok(2,4,5) by (auto simp: m1(3) owned_blocks_def)
  then show ?thesis
    using m1 assms(2) ok(3)
    by (auto simp: monary_free_column_data_def mem_free_def owned_blocks_def fun_eq_iff)
qed

section \<open>Properties\<close>

text \<open>
  C33: describing a column succeeds exactly when the column exists, the type is known, both arrays
  are given and the name has at most 1024 characters. It then stores a terminated copy of the name
  in a fresh block and changes nothing else: no other column, no block of memory. In both cases
  the invariant of the column data holds afterwards.
\<close>

theorem set_column_item_correct:
  assumes "mem_ok m" "coldata_ok m cd" "cd_columns cd = Some cs" "c_string f = Ok s"
    "length s \<le> INT32_MAX"
  shows "\<exists>b m' cd' cs'. monary_set_column_item m (Some cd) colnum (Some f) type arg st mk = Ok (b, m', Some cd')
     \<and> mem_ok m' \<and> coldata_ok m' cd' \<and> cd_columns cd' = Some cs'
     \<and> (b \<longleftrightarrow> length s \<le> MONARY_MAX_STRING_LENGTH \<and> colnum < cd_num_columns cd
              \<and> 1 \<le> type \<and> type \<le> LAST_TYPE \<and> st \<noteq> None \<and> mk \<noteq> None)
     \<and> (\<not> b \<longrightarrow> m' = m \<and> cd' = cd)
     \<and> (b \<longrightarrow> (\<exists>a. m_heap m a = None \<and> m_heap m' = (m_heap m)(a \<mapsto> s @ [0])
              \<and> cs' = cs[colnum := \<lparr>ci_field = Some a, ci_type = type, ci_type_arg = arg,
                                   ci_storage = st, ci_mask = mk\<rparr>]))"
proof (cases "length s \<le> MONARY_MAX_STRING_LENGTH \<and> colnum < cd_num_columns cd
      \<and> 1 \<le> type \<and> type \<le> LAST_TYPE \<and> st \<noteq> None \<and> mk \<noteq> None")
  case True
  have len: "length cs = cd_num_columns cd" using assms(2,3) by (auto simp: coldata_ok_def)
  obtain b m' cd' where r: "monary_set_column_item m (Some cd) colnum (Some f) type arg st mk = Ok (b, m', Some cd')"
    "mem_ok m'" "coldata_ok m' cd'"
    using assms(1,2,4,5) by (rule set_column_item_keeps_ok)
  have "m_heap m (m_next m) = None" using assms(1) by (simp add: mem_ok_def)
  with r True set_column_item_success [OF assms(4) _ _ assms(3) len, of colnum type m arg "the st" "the mk"]
  show ?thesis by auto
next
  case False
  from set_column_item_refused [OF assms(4,5) False, of m arg] False assms(1-3) show ?thesis
    by (intro exI [of _ False] exI [of _ m] exI [of _ cd] exI [of _ cs]) blast
qed

theorem set_column_item_correct_witness:
  "\<exists>m1 cd m' cd'. monary_alloc_column_data \<lparr>m_heap = (\<lambda>_. None), m_next = 7\<rparr> 2 10 = (Some cd, m1)
     \<and> monary_set_column_item m1 (Some cd) 1 (Some [0x61, 0x62, 0]) TYPE_INT32 0 (Some 1) (Some 2)
       = Ok (True, m', Some cd')
     \<and> coldata_ok m' cd' \<and> m_heap m' 9 = Some [0x61, 0x62, 0]"
proof -
  let ?m = "\<lparr>m_heap = (\<lambda>_. None), m_next = 7\<rparr> :: memory"
  obtain cd m1 where cd: "monary_alloc_column_data ?m 2 10 = (Some cd, m1)" "m_next m1 = 9"
    "cd_columns cd = Some (replicate 2 zero_item)" "cd_num_columns cd = 2"
    by (simp add: monary_alloc_column_data_def malloc_def)
  have "mem_ok ?m" by (simp add: mem_ok_def)
  note ok = alloc_column_data_ok [OF this cd(1)]
  have f: "c_string [0x61, 0x62, 0] = Ok [0x61, 0x62]" by code_simp
  then show ?thesis
    using set_column_item_correct [OF ok cd(3) f, of 1 TYPE_INT32 0 "Some 1" "Some 2"] cd
      set_column_item_success [OF f, of 1 cd "replicate 2 zero_item" TYPE_INT32 m1 0 1 2]
    by auto
qed

text \<open>
  C34: freeing column data that satisfies the invariant returns 1, frees the structure, its array of
  columns and the names of the columns, each exactly once, and frees nothing else: the arrays and
  masks of the columns, which belong to the caller, stay as they are.
\<close>

theorem free_column_data_exact:
  assumes "coldata_ok m cd" "cd_columns cd = Some cs"
  shows "\<exists>m'. monary_free_column_data m (Some cd) = Ok (True, m')
     \<and> (\<forall>a. m_heap m' a =
           (if a = cd_self cd \<or> a = cd_array cd \<or> a \<in> set (field_blocks cs) then None else m_heap m a))"
  using free_column_data_ok [OF assms] by (auto simp: owned_blocks_def fun_eq_iff)

text \<open>One column with the name \<open>a\<close> in block 7; its array and mask are the blocks 1 and 2.\<close>

definition small_memory :: memory where
  "small_memory = \<lparr>m_heap = (\<lambda>_. None)(1 := Some [0, 0, 0, 0], 5 := Some [], 6 := Some [], 7 := Some [0x61, 0]),
     m_next = 8\<rparr>"

definition small_item :: monary_column_item where
  "small_item = \<lparr>ci_field = Some 7, ci_type = 5, ci_type_arg = 0, ci_storage = Some 1, ci_mask = Some 2\<rparr>"

definition small_data :: monary_column_data where
  "small_data = \<lparr>cd_num_columns = 1, cd_num_rows = 3, cd_columns = Some [small_item], cd_array = 6, cd_self = 5\<rparr>"

lemma small_data_ok: "mem_ok small_memory" "coldata_ok small_memory small_data"
  by (simp_all add: mem_ok_def coldata_ok_def item_ok_def owned_blocks_def small_memory_def small_data_def
      small_item_def)

theorem free_column_data_exact_witness:
  "\<exists>m'. monary_free_column_data small_memory (Some small_data) = Ok (True, m')
     \<and> m_heap m' 5 = None \<and> m_heap m' 6 = None \<and> m_heap m' 7 = None \<and> m_heap m' 1 = Some [0, 0, 0, 0]"
  using free_column_data_exact [OF small_data_ok(2), of "[small_item]"]
  by (auto simp: small_memory_def small_data_def small_item_def)

text \<open>
  Describing a column a second time loses the block that holds its previous name: it is still
  allocated after the column data has been freed.
\<close>

theorem set_column_item_again_leaks:
  assumes "mem_ok m" "coldata_ok m cd" "column_at cd colnum = Ok col" "ci_field col = Some a"
    "c_string f = Ok s" "length s \<le> INT32_MAX"
    "monary_set_column_item m (Some cd) colnum (Some f) type arg st mk = Ok (True, m1, Some cd1)"
  shows "\<exists>m2. monary_free_column_data m1 (Some cd1) = Ok (True, m2) \<and> m_heap m2 a \<noteq> None"
proof -
  obtain cs where cs: "cd_columns cd = Some cs" "length cs = cd_num_columns cd" "distinct (owned_blocks cd cs)"
    "\<forall>c \<in> set cs. item_ok m c"
    using assms(2) by (auto simp: coldata_ok_def)
  have col: "colnum < length cs" "cs ! colnum = col"
    using assms(3) cs(1) by (auto simp: column_at_def split: if_splits)
  have ok: "length s \<le> MONARY_MAX_STRING_LENGTH \<and> colnum < cd_num_columns cd
      \<and> 1 \<le> type \<and> type \<le> LAST_TYPE \<and> st \<noteq> None \<and> mk \<noteq> None"
    using set_column_item_refused [OF assms(5,6), of colnum cd type st mk m arg] assms(7) by fastforce
  let ?b = "m_next m"
  let ?c = "\<lparr>ci_field = Some ?b, ci_type = type, ci_type_arg = arg, ci_storage = st, ci_mask = mk\<rparr>"
  have r: "m_heap m1 = (m_heap m)(?b \<mapsto> s @ [0])" "cd1 = cd\<lparr>cd_columns := Some (cs[colnum := ?c])\<rparr>"
    using set_column_item_success [OF assms(5) _ _ cs(1,2), of colnum type m arg "the st" "the mk"]
      assms(7) ok by auto
  have "coldata_ok m1 cd1"
    by (rule set_column_item_keeps_ok [OF assms(1,2,5,6), of colnum type arg st mk])
      (simp add: assms(7))
  from free_column_data_ok [OF this, of "cs[colnum := ?c]"] r(2) obtain m2 where
    m2: "monary_free_column_data m1 (Some cd1) = Ok (True, m2)"
    "m_heap m2 = (\<lambda>a. if a \<in> set (owned_blocks cd (cs[colnum := ?c])) then None else m_heap m1 a)"
    by auto
  have "m_heap m ?b = None" using assms(1) by (simp add: mem_ok_def)
  moreover have "item_ok m col" using cs(4) col by auto
  then have a: "m_heap m a \<noteq> None" using assms(4) by (auto simp: item_ok_def zero_item_def)
  ultimately have b: "?b \<noteq> a" by auto
  have fb: "a \<in> set (field_blocks cs)" "a \<notin> set (field_blocks (cs[colnum := ?c]))"
    using field_blocks_upd_drops [OF col(1) _ _ _ b, of ?c] cs(3) col(2) assms(4) by (auto simp: owned_blocks_def)
  with cs(3) have "a \<notin> set (owned_blocks cd (cs[colnum := ?c]))" by (auto simp: owned_blocks_def)
  with a b r(1) m2 show ?thesis by auto
qed

theorem set_column_item_again_leaks_witness:
  "\<exists>m1 cd1 m2. monary_set_column_item small_memory (Some small_data) 0 (Some [0x62, 0]) 5 0 (Some 1) (Some 2)
       = Ok (True, m1, Some cd1)
     \<and> monary_free_column_data m1 (Some cd1) = Ok (True, m2) \<and> m_heap m2 7 \<noteq> None"
proof -
  have f: "c_string [0x62, 0] = Ok [0x62]" by code_simp
  obtain m1 cd1 where r: "monary_set_column_item small_memory (Some small_data) 0 (Some [0x62, 0]) 5 0 (Some 1) (Some 2)
      = Ok (True, m1, Some cd1)"
    using set_column_item_success [OF f, of 0 small_data "[small_item]" 5 small_memory 0 1 2]
    by (simp add: small_data_def)
  have "column_at small_data 0 = Ok small_item" "ci_field small_item = Some 7"
    by (simp_all add: column_at_def small_data_def small_item_def)
  from set_column_item_again_leaks [OF small_data_ok this f _ r] r show ?thesis by auto
qed

end
