(* ===== verification/Monary_Load.thy ===== *)
theory Monary_Load
  imports Bson_Find Bson_Utf8 Monary_Column
begin

text \<open>
  \<open>cmonary.c\<close>: the loaders, which move the field under an iterator into one cell of a column, and
  \<open>monary_load_item\<close>, which picks the loader for the type of the column. A loader returns whether
  it stored something, and the heap.

  \<open>column_cell\<close> is the specification: the bytes that a value becomes in a column of a given type,
  or nothing if the type cannot hold it. Every loader meets the one contract \<open>column_loader\<close>.
\<close>

section \<open>The loaders\<close>

type_synonym loader = "bson_iter_t \<Rightarrow> monary_column_item \<Rightarrow> heap \<Rightarrow> int \<Rightarrow> (bool \<times> heap) result"

text \<open>\<open>memcpy (dest, ..., n); return 1;\<close>\<close>

definition store :: "monary_column_item \<Rightarrow> heap \<Rightarrow> int \<Rightarrow> byte list \<Rightarrow> (bool \<times> heap) result" where
  "store c h off bs = rbind (poke h (ci_storage c) off bs) (\<lambda>h'. Ok (True, h'))"

definition monary_load_objectid_value :: loader where
  "monary_load_objectid_value it c h idx =
     rbind (iter_holds it BSON_TYPE_OID) (\<lambda>b.
       if b then
         rbind (bson_iter_oid it) (\<lambda>oid. rbind (read_ptr 12 oid) (\<lambda>bs. store c h (idx * 12) bs))
       else Ok (False, h))"

definition monary_load_bool_value :: loader where
  "monary_load_bool_value it c h idx =
     rbind (bson_iter_bool it) (\<lambda>value. store c h idx [if value then 1 else 0])"

text \<open>
  \<open>MONARY_DEFINE_FLOAT_LOADER\<close>: \<open>n\<close> is the size of \<open>NUMTYPE\<close>, the other arguments are the casts of
  a \<open>double\<close> and of an integer to it.
\<close>

definition float_loader :: "nat \<Rightarrow> (64 word \<Rightarrow> nat) \<Rightarrow> (int \<Rightarrow> nat) \<Rightarrow> loader" where
  "float_loader n of_double of_integer it c h idx =
     rbind (iter_holds it BSON_TYPE_DOUBLE) (\<lambda>d.
       if d then rbind (bson_iter_double it) (\<lambda>w. store c h (idx * int n) (le_bytes n (of_double w)))
       else rbind (iter_holds it BSON_TYPE_INT32) (\<lambda>i.
         if i then rbind (bson_iter_int32 it) (\<lambda>w.
           store c h (idx * int n) (le_bytes n (of_integer (sint w))))
         else rbind (iter_holds it BSON_TYPE_INT64) (\<lambda>q.
           if q then rbind (bson_iter_int64 it) (\<lambda>w.
             store c h (idx * int n) (le_bytes n (of_integer (sint w))))
           else Ok (False, h))))"

definition monary_load_float32_value :: loader where
  "monary_load_float32_value =
     float_loader 4 (\<lambda>d. unat (double_to_float d)) (\<lambda>i. unat (int_to_float i))"

definition monary_load_float64_value :: loader where
  "monary_load_float64_value = float_loader 8 unat (\<lambda>i. unat (int_to_double i))"

text \<open>
  \<open>MONARY_DEFINE_INT_LOADER\<close>: integers are reduced modulo \<open>2\<^sup>8\<^sup>n\<close>; a \<open>double\<close> is truncated, and must
  then lie in the range of \<open>NUMTYPE\<close>.
\<close>

definition int_bytes :: "nat \<Rightarrow> int \<Rightarrow> byte list" where
  "int_bytes n i = le_bytes n (nat (i mod 256 ^ n))"

definition int_loader :: "nat \<Rightarrow> int \<Rightarrow> int \<Rightarrow> loader" where
  "int_loader n lo hi it c h idx =
     rbind (iter_holds it BSON_TYPE_INT32) (\<lambda>i.
       if i then rbind (bson_iter_int32 it) (\<lambda>w. store c h (idx * int n) (int_bytes n (sint w)))
       else rbind (iter_holds it BSON_TYPE_INT64) (\<lambda>q.
         if q then rbind (bson_iter_int64 it) (\<lambda>w. store c h (idx * int n) (int_bytes n (sint w)))
         else rbind (iter_holds it BSON_TYPE_DOUBLE) (\<lambda>d.
           if d then rbind (bson_iter_double it) (\<lambda>w.
             rbind (double_to_int lo hi w) (\<lambda>v. store c h (idx * int n) (int_bytes n v)))
           else Ok (False, h))))"

definition monary_load_int8_value :: loader where
  "monary_load_int8_value = int_loader 1 (- 128) 127"

definition monary_load_int16_value :: loader where
  "monary_load_int16_value = int_loader 2 (- 32768) 32767"

definition monary_load_int32_value :: loader where
  "monary_load_int32_value = int_loader 4 (- 2147483648) 2147483647"

definition monary_load_int64_value :: loader where
  "monary_load_int64_value = int_loader 8 (- 9223372036854775808) 9223372036854775807"

definition monary_load_uint8_value :: loader where
  "monary_load_uint8_value = int_loader 1 0 255"

definition monary_load_uint16_value :: loader where
  "monary_load_uint16_value = int_loader 2 0 65535"

definition monary_load_uint32_value :: loader where
  "monary_load_uint32_value = int_loader 4 0 4294967295"

definition monary_load_uint64_value :: loader where
  "monary_load_uint64_value = int_loader 8 0 18446744073709551615"

definition monary_load_datetime_value :: loader where
  "monary_load_datetime_value it c h idx =
     rbind (iter_holds it BSON_TYPE_DATE_TIME) (\<lambda>b.
       if b then rbind (bson_iter_date_time it) (\<lambda>w. store c h (idx * 8) (le_bytes 8 (unat w)))
       else Ok (False, h))"

definition monary_load_timestamp_value :: loader where
  "monary_load_timestamp_value it c h idx =
     rbind (iter_holds it BSON_TYPE_TIMESTAMP) (\<lambda>b.
       if b then
         rbind (bson_iter_timestamp it) (\<lambda>(timestamp, increment).
           rbind (poke h (ci_storage c) (idx * 8) (le_bytes 4 (unat timestamp))) (\<lambda>h1.
             store c h1 (idx * 8 + 4) (le_bytes 4 (unat increment))))
       else Ok (False, h))"

text \<open>
  Here \<open>idx\<close> and the converted \<open>type_arg\<close> are both \<open>int\<close>, so their product can overflow; the
  comparison with the unsigned length converts \<open>size\<close> back.
\<close>

definition monary_load_string_value :: loader where
  "monary_load_string_value it c h idx =
     rbind (iter_holds it BSON_TYPE_UTF8) (\<lambda>b.
       if b then
         rbind (bson_iter_utf8 it) (\<lambda>(src, stringlen).
           let size = as_int32 (ci_type_arg c);
               n = (if stringlen > w32 (ci_type_arg c) then w32 (ci_type_arg c) else stringlen)
           in rbind (mul_int32 idx size) (\<lambda>off.
                rbind (read_ptr n src) (\<lambda>bs. store c h off bs)))
       else Ok (False, h))"

definition monary_load_binary_value :: loader where
  "monary_load_binary_value it c h idx =
     rbind (iter_holds it BSON_TYPE_BINARY) (\<lambda>b.
       if b then
         rbind (bson_iter_binary it) (\<lambda>(subtype, binary_len, binary).
           let size = as_int32 (ci_type_arg c);
               n = (if binary_len > w32 (ci_type_arg c) then w32 (ci_type_arg c) else binary_len)
           in rbind (mul_int32 idx size) (\<lambda>off.
                rbind (read_ptr n binary) (\<lambda>bs. store c h off bs)))
       else Ok (False, h))"

text \<open>The offset is the row times the length of \<^emph>\<open>this\<close> document, computed modulo \<open>2\<^sup>3\<^sup>2\<close>.\<close>

definition monary_load_document_value :: loader where
  "monary_load_document_value it c h idx =
     rbind (iter_holds it BSON_TYPE_DOCUMENT) (\<lambda>b.
       if b then
         rbind (bson_iter_document it) (\<lambda>(document_len, document).
           let n = (if document_len > ci_type_arg c then ci_type_arg c else document_len)
           in rbind (read_ptr n document) (\<lambda>bs.
                store c h (int (w32 (nat (idx mod 4294967296) * n))) bs))
       else Ok (False, h))"

definition monary_load_type_value :: loader where
  "monary_load_type_value it c h idx =
     rbind (bson_iter_type it) (\<lambda>t. store c h idx [type_code t])"

definition monary_load_size_value :: loader where
  "monary_load_size_value it c h idx =
     rbind (bson_iter_type it) (\<lambda>t.
       rbind (case t of
                BSON_TYPE_UTF8 \<Rightarrow> rbind (bson_iter_utf8 it) (\<lambda>(_, sz). Ok (Some sz))
              | BSON_TYPE_CODE \<Rightarrow> rbind (bson_iter_utf8 it) (\<lambda>(_, sz). Ok (Some sz))
              | BSON_TYPE_BINARY \<Rightarrow> rbind (bson_iter_binary it) (\<lambda>(_, sz, _). Ok (Some sz))
              | BSON_TYPE_DOCUMENT \<Rightarrow> rbind (bson_iter_document it) (\<lambda>(sz, _). Ok (Some sz))
              | BSON_TYPE_ARRAY \<Rightarrow> rbind (bson_iter_array it) (\<lambda>(sz, _). Ok (Some sz))
              | _ \<Rightarrow> Ok None) (\<lambda>r.
         case r of
           None \<Rightarrow> Ok (False, h)
         | Some sz \<Rightarrow> store c h (idx * 4) (le_bytes 4 sz)))"

text \<open>
  \<open>for (length = 0; *discard; length++) discard = bson_utf8_next_char (discard);\<close> a character that
  cannot start a sequence does not move the pointer, and the loop is then an endless one.
\<close>

function utf8_count :: "view \<Rightarrow> nat \<Rightarrow> nat result" where
  "utf8_count discard len =
     rbind (rd8 discard 0) (\<lambda>b.
       if b = 0 then Ok len
       else rbind (bson_utf8_next_char discard) (\<lambda>next_discard.
         if length next_discard < length discard
         then utf8_count next_discard (w32 (len + 1))
         else Fault No_Termination))"
  by pat_completeness auto
termination
  by (relation "measure (\<lambda>(v, n). length v)") auto

declare utf8_count.simps [simp del]

definition monary_load_length_value :: loader where
  "monary_load_length_value it c h idx =
     rbind (bson_iter_type it) (\<lambda>t.
       rbind (if t \<in> {BSON_TYPE_UTF8, BSON_TYPE_CODE}
              then rbind (bson_iter_utf8 it) (\<lambda>(discard, _).
                     case discard of
                       None \<Rightarrow> Fault Null_Deref
                     | Some p \<Rightarrow> rbind (utf8_count p 0) (\<lambda>n. Ok (Some n)))
              else if t \<in> {BSON_TYPE_ARRAY, BSON_TYPE_DOCUMENT}
              then rbind (bson_iter_recurse it) (\<lambda>r.
                     case r of
                       None \<Rightarrow> Ok None
                     | Some child \<Rightarrow>
                         rbind (count_loop (iter_fuel child) bson_iter_next child 0) (\<lambda>n. Ok (Some n)))
              else if t = BSON_TYPE_BINARY
              then rbind (bson_iter_binary it) (\<lambda>(_, n, _). Ok (Some n))
              else Ok None) (\<lambda>r.
         case r of
           None \<Rightarrow> Ok (False, h)
         | Some n \<Rightarrow> store c h (idx * 4) (le_bytes 4 n)))"

definition monary_load_item :: loader where
  "monary_load_item it c h offset =
     (let t = ci_type c in
      if t = TYPE_OBJECTID then monary_load_objectid_value it c h offset
      else if t = TYPE_DATE then monary_load_datetime_value it c h offset
      else if t = TYPE_TIMESTAMP then monary_load_timestamp_value it c h offset
      else if t = TYPE_BOOL then monary_load_bool_value it c h offset
      else if t = TYPE_INT8 then monary_load_int8_value it c h offset
      else if t = TYPE_INT16 then monary_load_int16_value it c h offset
      else if t = TYPE_INT32 then monary_load_int32_value it c h offset
      else if t = TYPE_INT64 then monary_load_int64_value it c h offset
      else if t = TYPE_UINT8 then monary_load_uint8_value it c h offset
      else if t = TYPE_UINT16 then monary_load_uint16_value it c h offset
      else if t = TYPE_UINT32 then monary_load_uint32_value it c h offset
      else if t = TYPE_UINT64 then monary_load_uint64_value it c h offset
      else if t = TYPE_FLOAT32 then monary_load_float32_value it c h offset
      else if t = TYPE_FLOAT64 then monary_load_float64_value it c h offset
      else if t = TYPE_STRING then monary_load_string_value it c h offset
      else if t = TYPE_BINARY then monary_load_binary_value it c h offset
      else if t = TYPE_BSON then monary_load_document_value it c h offset
      else if t = TYPE_SIZE then monary_load_size_value it c h offset
      else if t = TYPE_LENGTH then monary_load_length_value it c h offset
      else if t = TYPE_TYPE then monary_load_type_value it c h offset
      else Ok (False, h))"

section \<open>What a value becomes in a column\<close>

definition int_cell :: "nat \<Rightarrow> int \<Rightarrow> int \<Rightarrow> bval \<Rightarrow> bytes option result" where
  "int_cell n lo hi x =
     (case x of
        BInt32 w \<Rightarrow> Ok (Some (int_bytes n (sint w)))
      | BInt64 w \<Rightarrow> Ok (Some (int_bytes n (sint w)))
      | BDouble d \<Rightarrow> rbind (double_to_int lo hi d) (\<lambda>v. Ok (Some (int_bytes n v)))
      | _ \<Rightarrow> Ok None)"

definition float_cell :: "nat \<Rightarrow> (64 word \<Rightarrow> nat) \<Rightarrow> (int \<Rightarrow> nat) \<Rightarrow> bval \<Rightarrow> bytes option result" where
  "float_cell n of_double of_integer x =
     (case x of
        BInt32 w \<Rightarrow> Ok (Some (le_bytes n (of_integer (sint w))))
      | BInt64 w \<Rightarrow> Ok (Some (le_bytes n (of_integer (sint w))))
      | BDouble d \<Rightarrow> Ok (Some (le_bytes n (of_double d)))
      | _ \<Rightarrow> Ok None)"

text \<open>
  Sizes in bytes, and lengths: the characters of a string (its bytes other than continuation
  bytes), the elements of a document or array, the bytes of a binary. JavaScript code has size 0,
  and asking for its length dereferences a null pointer: \<open>bson_iter_utf8\<close> refuses its type.
\<close>

definition size_cell :: "bval \<Rightarrow> bytes option result" where
  "size_cell x =
     (case x of
        BUtf8 s \<Rightarrow> Ok (Some (le_bytes 4 (length s)))
      | BCode s \<Rightarrow> Ok (Some (le_bytes 4 0))
      | BBinary _ d \<Rightarrow> Ok (Some (le_bytes 4 (length d)))
      | BDocument es \<Rightarrow> Ok (Some (le_bytes 4 (length (encode_doc es))))
      | BArray es \<Rightarrow> Ok (Some (le_bytes 4 (length (encode_doc es))))
      | _ \<Rightarrow> Ok None)"

definition utf8_chars :: "bytes \<Rightarrow> nat" where
  "utf8_chars s = length (filter (\<lambda>b. \<not> cont_byte b) s)"

definition length_cell :: "bval \<Rightarrow> bytes option result" where
  "length_cell x =
     (case x of
        BUtf8 s \<Rightarrow> Ok (Some (le_bytes 4 (utf8_chars s)))
      | BCode s \<Rightarrow> Fault Null_Deref
      | BBinary _ d \<Rightarrow> Ok (Some (le_bytes 4 (length d)))
      | BDocument es \<Rightarrow> Ok (Some (le_bytes 4 (length es)))
      | BArray es \<Rightarrow> Ok (Some (le_bytes 4 (length es)))
      | _ \<Rightarrow> Ok None)"

definition bool_cell :: "bval \<Rightarrow> bytes option result" where
  "bool_cell x = Ok (Some [case x of BBool b \<Rightarrow> if b then 1 else 0 | _ \<Rightarrow> 0])"

definition column_cell :: "nat \<Rightarrow> nat \<Rightarrow> bval \<Rightarrow> bytes option result" where
  "column_cell type arg x =
     (if type = TYPE_OBJECTID then Ok (case x of BOid d \<Rightarrow> Some d | _ \<Rightarrow> None)
      else if type = TYPE_BOOL then bool_cell x
      else if type = TYPE_INT8 then int_cell 1 (- 128) 127 x
      else if type = TYPE_INT16 then int_cell 2 (- 32768) 32767 x
      else if type = TYPE_INT32 then int_cell 4 (- 2147483648) 2147483647 x
      else if type = TYPE_INT64 then int_cell 8 (- 9223372036854775808) 9223372036854775807 x
      else if type = TYPE_UINT8 then int_cell 1 0 255 x
      else if type = TYPE_UINT16 then int_cell 2 0 65535 x
      else if type = TYPE_UINT32 then int_cell 4 0 4294967295 x
      else if type = TYPE_UINT64 then int_cell 8 0 18446744073709551615 x
      else if type = TYPE_FLOAT32
      then float_cell 4 (\<lambda>d. unat (double_to_float d)) (\<lambda>i. unat (int_to_float i)) x
      else if type = TYPE_FLOAT64 then float_cell 8 unat (\<lambda>i. unat (int_to_double i)) x
      else if type = TYPE_DATE
      then Ok (case x of BDateTime w \<Rightarrow> Some (le_bytes 8 (unat w)) | _ \<Rightarrow> None)
      else if type = TYPE_TIMESTAMP
      then Ok (case x of
                 BTimestamp ts inc \<Rightarrow> Some (le_bytes 4 (unat ts) @ le_bytes 4 (unat inc))
               | _ \<Rightarrow> None)
      else if type = TYPE_STRING then Ok (case x of BUtf8 s \<Rightarrow> Some (take arg s) | _ \<Rightarrow> None)
      else if type = TYPE_BINARY then Ok (case x of BBinary _ d \<Rightarrow> Some (take arg d) | _ \<Rightarrow> None)
      else if type = TYPE_BSON
      then Ok (case x of BDocument es \<Rightarrow> Some (take arg (encode_doc es)) | _ \<Rightarrow> None)
      else if type = TYPE_TYPE then Ok (Some [type_code (val_type x)])
      else if type = TYPE_SIZE then size_cell x
      else if type = TYPE_LENGTH then length_cell x
      else Ok None)"

text \<open>The width of a cell, and where the bytes for a row go.\<close>

definition column_width :: "nat \<Rightarrow> nat \<Rightarrow> nat" where
  "column_width type arg =
     (if type = TYPE_OBJECTID then 12
      else if type \<in> {TYPE_BOOL, TYPE_INT8, TYPE_UINT8, TYPE_TYPE} then 1
      else if type \<in> {TYPE_INT16, TYPE_UINT16} then 2
      else if type \<in> {TYPE_INT32, TYPE_UINT32, TYPE_FLOAT32, TYPE_SIZE, TYPE_LENGTH} then 4
      else if type \<in> {TYPE_INT64, TYPE_UINT64, TYPE_FLOAT64, TYPE_DATE, TYPE_TIMESTAMP} then 8
      else arg)"

definition column_offset :: "nat \<Rightarrow> nat \<Rightarrow> nat \<Rightarrow> bytes \<Rightarrow> nat" where
  "column_offset type arg row bs =
     (if type = TYPE_BSON then row * length bs else row * column_width type arg)"

text \<open>
  What the loaders take for granted: arrays of variable width end below 2 GiB, and strings whose
  length is asked for are UTF-8 without NUL.
\<close>

definition column_pre :: "nat \<Rightarrow> nat \<Rightarrow> nat \<Rightarrow> bval \<Rightarrow> bool" where
  "column_pre type arg row x \<longleftrightarrow>
     (type \<in> {TYPE_STRING, TYPE_BINARY, TYPE_BSON} \<longrightarrow> arg \<le> INT32_MAX \<and> row * arg \<le> INT32_MAX)
     \<and> row \<le> INT32_MAX
     \<and> (type = TYPE_LENGTH \<longrightarrow> (\<forall>s. x = BUtf8 s \<longrightarrow> utf8_text False s))"

section \<open>The contract of a loader\<close>

text \<open>The outcome the specification prescribes for a value, a column and a row.\<close>

definition put_cell :: "nat \<Rightarrow> monary_column_item \<Rightarrow> heap \<Rightarrow> nat \<Rightarrow> bval \<Rightarrow> (bool \<times> heap) result" where
  "put_cell type c h row x =
     rbind (column_cell type (ci_type_arg c) x) (\<lambda>r.
       case r of
         None \<Rightarrow> Ok (False, h)
       | Some bs \<Rightarrow> store c h (int (column_offset type (ci_type_arg c) row bs)) bs)"

lemma store_frame: "store c h off bs = Ok (b, h') \<Longrightarrow> ci_storage c \<noteq> Some a \<Longrightarrow> h' a = h a"
  by (auto simp: store_def rbind_Ok_iff poke_def split: option.splits if_splits)

lemma int_bytes_length [simp]: "length (int_bytes n i) = n"
  by (simp add: int_bytes_def)

lemma cell_lengths:
  shows "int_cell n lo hi x = Ok (Some bs) \<Longrightarrow> length bs = n"
    and "float_cell n f g x = Ok (Some bs) \<Longrightarrow> length bs = n"
    and "size_cell x = Ok (Some bs) \<Longrightarrow> length bs = 4"
    and "length_cell x = Ok (Some bs) \<Longrightarrow> length bs = 4"
    and "bool_cell x = Ok (Some bs) \<Longrightarrow> length bs = 1"
  subgoal by (cases x) (auto simp: int_cell_def rbind_Ok_iff)
  subgoal by (cases x) (auto simp: float_cell_def)
  subgoal by (cases x) (auto simp: size_cell_def)
  subgoal by (cases x) (auto simp: length_cell_def)
  subgoal by (auto simp: bool_cell_def)
  done

lemma pointer_cell_lengths:
  "(case x of BOid d \<Rightarrow> Some d | _ \<Rightarrow> None) = Some bs \<Longrightarrow> wf_value x \<Longrightarrow> length bs = 12"
  "(case x of BDateTime w \<Rightarrow> Some (le_bytes 8 (unat w)) | _ \<Rightarrow> None) = Some bs \<Longrightarrow> length bs = 8"
  "(case x of BTimestamp ts inc \<Rightarrow> Some (le_bytes 4 (unat ts) @ le_bytes 4 (unat inc)) | _ \<Rightarrow> None)
     = Some bs \<Longrightarrow> length bs = 8"
  "(case x of BUtf8 s \<Rightarrow> Some (take n s) | _ \<Rightarrow> None) = Some bs \<Longrightarrow> length bs \<le> n"
  "(case x of BBinary _ d \<Rightarrow> Some (take n d) | _ \<Rightarrow> None) = Some bs \<Longrightarrow> length bs \<le> n"
  "(case x of BDocument es \<Rightarrow> Some (take n (encode_doc es)) | _ \<Rightarrow> None) = Some bs \<Longrightarrow> length bs \<le> n"
  by (cases x; force)+

lemma column_cell_fits:
  assumes "column_cell type arg x = Ok (Some bs)" "wf_value x"
  shows "type \<notin> {TYPE_STRING, TYPE_BINARY, TYPE_BSON} \<Longrightarrow> length bs = column_width type arg"
    "length bs \<le> column_width type arg"
proof -
  show *: "length bs = column_width type arg" if "type \<notin> {TYPE_STRING, TYPE_BINARY, TYPE_BSON}"
    using assms that
    by (auto simp: column_cell_def column_width_def dest: cell_lengths pointer_cell_lengths(1-3)
          split: if_splits)
  show "length bs \<le> column_width type arg"
  proof (cases "type \<in> {TYPE_STRING, TYPE_BINARY, TYPE_BSON}")
    case True
    with assms(1) show ?thesis
      by (auto simp: column_cell_def column_width_def dest: pointer_cell_lengths(4-6))
  qed (use * in simp)
qed

lemma column_cell_in_array:
  assumes "column_cell type arg x = Ok (Some bs)" "wf_value x" "row < rows"
  shows "column_offset type arg row bs + length bs \<le> rows * column_width type arg"
proof -
  note fits = column_cell_fits(2) [OF assms(1,2)]
  have "column_offset type arg row bs \<le> row * column_width type arg"
    using fits by (auto simp: column_offset_def)
  moreover have "Suc row * column_width type arg \<le> rows * column_width type arg"
    using assms(3) by (intro mult_le_mono1) simp
  ultimately show ?thesis using fits by simp
qed

locale column_loader =
  fixes load :: loader
    and type :: nat
  assumes load_on_elem:
    "on_elem k x it \<Longrightarrow> column_pre type (ci_type_arg c) row x
       \<Longrightarrow> load it c h (int row) = put_cell type c h row x"
begin

text \<open>A loader never touches a block other than the array of its column.\<close>

lemma load_frame:
  assumes "on_elem k x it" "column_pre type (ci_type_arg c) row x"
    "load it c h (int row) = Ok (b, h')" "ci_storage c \<noteq> Some a"
  shows "h' a = h a"
proof -
  have "put_cell type c h row x = Ok (b, h')" using load_on_elem [OF assms(1,2)] assms(3) by simp
  then show ?thesis
    using store_frame [OF _ assms(4)] by (auto simp: put_cell_def rbind_Ok_iff split: option.splits)
qed

text \<open>A value that the type can hold is stored, and stays inside an array of enough rows.\<close>

lemma load_stores:
  assumes "on_elem k x it" "column_pre type (ci_type_arg c) row x"
    "column_cell type (ci_type_arg c) x = Ok (Some bs)"
    "ci_storage c = Some a" "h a = Some m" "row < rows"
    "rows * column_width type (ci_type_arg c) \<le> length m"
  shows "load it c h (int row) =
    Ok (True, h(a \<mapsto> splice (column_offset type (ci_type_arg c) row bs) bs m))"
proof -
  have "wf_value x" using assms(1) by (simp add: on_elem_def)
  from column_cell_in_array [OF assms(3) this assms(6)] assms(7)
  have "column_offset type (ci_type_arg c) row bs + length bs \<le> length m" by simp
  then show ?thesis
    using assms(4,5) load_on_elem [OF assms(1,2), of h] assms(3)
    by (simp add: put_cell_def store_def view_simps)
qed

lemma load_refuses:
  assumes "on_elem k x it" "column_pre type (ci_type_arg c) row x"
    "column_cell type (ci_type_arg c) x = Ok None"
  shows "load it c h (int row) = Ok (False, h)"
  using load_on_elem [OF assms(1,2)] assms(3) by (simp add: put_cell_def)

end

section \<open>The loaders meet the contract\<close>

lemma iter_type_on_elem:
  assumes "on_elem k x it"
  shows "bson_iter_type it = Ok (val_type x)" "iter_holds it t = Ok (val_type x = t)"
proof -
  obtain v where "on_field it" "field_type it = val_type x" using assms by (rule on_elemE)
  then show "bson_iter_type it = Ok (val_type x)" "iter_holds it t = Ok (val_type x = t)"
    by (simp_all add: bson_iter_type_on_field iter_holds_on_field)
qed

lemma int_loader_on_elem:
  assumes "on_elem k x it"
  shows "int_loader n lo hi it c h (int row) =
    rbind (int_cell n lo hi x) (\<lambda>r. case r of None \<Rightarrow> Ok (False, h) | Some bs \<Rightarrow> store c h (int (row * n)) bs)"
  using assms fixed_accessors_on_elem [of k _ it] iter_type_on_elem [OF assms]
  by (cases x) (auto simp: int_loader_def int_cell_def rbind_assoc)

lemma float_loader_on_elem:
  assumes "on_elem k x it"
  shows "float_loader n f g it c h (int row) =
    rbind (float_cell n f g x) (\<lambda>r. case r of None \<Rightarrow> Ok (False, h) | Some bs \<Rightarrow> store c h (int (row * n)) bs)"
  using assms fixed_accessors_on_elem [of k _ it] iter_type_on_elem [OF assms]
  by (cases x) (auto simp: float_loader_def float_cell_def)

lemmas cell_defs = put_cell_def column_cell_def column_offset_def column_width_def

lemmas int_loader_defs =
  monary_load_int8_value_def monary_load_int16_value_def monary_load_int32_value_def
  monary_load_int64_value_def monary_load_uint8_value_def monary_load_uint16_value_def
  monary_load_uint32_value_def monary_load_uint64_value_def

interpretation load_int8: column_loader monary_load_int8_value TYPE_INT8
  by unfold_locales (simp add: int_loader_defs int_loader_on_elem cell_defs cong: option.case_cong)

interpretation load_int16: column_loader monary_load_int16_value TYPE_INT16
  by unfold_locales (simp add: int_loader_defs int_loader_on_elem cell_defs cong: option.case_cong)

interpretation load_int32: column_loader monary_load_int32_value TYPE_INT32
  by unfold_locales (simp add: int_loader_defs int_loader_on_elem cell_defs cong: option.case_cong)

interpretation load_int64: column_loader monary_load_int64_value TYPE_INT64
  by unfold_locales (simp add: int_loader_defs int_loader_on_elem cell_defs cong: option.case_cong)

interpretation load_uint8: column_loader monary_load_uint8_value TYPE_UINT8
  by unfold_locales (simp add: int_loader_defs int_loader_on_elem cell_defs cong: option.case_cong)

interpretation load_uint16: column_loader monary_load_uint16_value TYPE_UINT16
  by unfold_locales (simp add: int_loader_defs int_loader_on_elem cell_defs cong: option.case_cong)

interpretation load_uint32: column_loader monary_load_uint32_value TYPE_UINT32
  by unfold_locales (simp add: int_loader_defs int_loader_on_elem cell_defs cong: option.case_cong)

interpretation load_uint64: column_loader monary_load_uint64_value TYPE_UINT64
  by unfold_locales (simp add: int_loader_defs int_loader_on_elem cell_defs cong: option.case_cong)

interpretation load_float32: column_loader monary_load_float32_value TYPE_FLOAT32
  by unfold_locales (simp add: monary_load_float32_value_def float_loader_on_elem cell_defs cong: option.case_cong)

interpretation load_float64: column_loader monary_load_float64_value TYPE_FLOAT64
  by unfold_locales (simp add: monary_load_float64_value_def float_loader_on_elem cell_defs cong: option.case_cong)

interpretation load_objectid: column_loader monary_load_objectid_value TYPE_OBJECTID
proof
  fix k x it row h and c :: monary_column_item assume e: "on_elem k x it"
  show "monary_load_objectid_value it c h (int row) = put_cell TYPE_OBJECTID c h row x"
  proof (cases "\<exists>d. x = BOid d")
    case True
    then obtain d where d: "x = BOid d" by blast
    with e have "length d = 12" by (simp add: on_elem_def)
    with oid_on_elem [of k d it] e iter_type_on_elem [OF e] d show ?thesis
      by (auto simp: monary_load_objectid_value_def cell_defs read_ptr_def points_to_def rdn_def)
  next
    case False
    then show ?thesis using iter_type_on_elem [OF e]
      by (cases x) (simp_all add: monary_load_objectid_value_def cell_defs)
  qed
qed

interpretation load_bool: column_loader monary_load_bool_value TYPE_BOOL
proof
  fix k x it row h and c :: monary_column_item assume e: "on_elem k x it"
  show "monary_load_bool_value it c h (int row) = put_cell TYPE_BOOL c h row x"
    using e fixed_accessors_on_elem(5) [of k _ it] ITER_TYPE_on_elem [OF e]
    by (cases x) (auto simp: monary_load_bool_value_def cell_defs bool_cell_def bson_iter_bool_def)
qed

interpretation load_datetime: column_loader monary_load_datetime_value TYPE_DATE
proof
  fix k x it row h and c :: monary_column_item assume e: "on_elem k x it"
  show "monary_load_datetime_value it c h (int row) = put_cell TYPE_DATE c h row x"
    using e fixed_accessors_on_elem(4) [of k _ it] iter_type_on_elem [OF e]
    by (cases x) (auto simp: monary_load_datetime_value_def cell_defs)
qed

lemma splice_splice:
  "i + length as + length bs \<le> length m \<Longrightarrow>
     splice (i + length as) bs (splice i as m) = splice i (as @ bs) m"
  by (simp add: splice_def add.commute add.left_commute)

lemma poke_poke:
  "rbind (poke h p (int i) as) (\<lambda>h1. poke h1 p (int (i + length as)) bs) = poke h p (int i) (as @ bs)"
proof -
  have "nat (int (i + length as)) = i + length as" by (rule nat_int)
  then show ?thesis
    by (auto simp: poke_def splice_splice add.assoc simp del: of_nat_add split: option.split)
qed

interpretation load_timestamp: column_loader monary_load_timestamp_value TYPE_TIMESTAMP
proof
  fix k x it row h and c :: monary_column_item assume e: "on_elem k x it"
  show "monary_load_timestamp_value it c h (int row) = put_cell TYPE_TIMESTAMP c h row x"
  proof (cases "\<exists>ts inc. x = BTimestamp ts inc")
    case True
    then obtain ts inc where x: "x = BTimestamp ts inc" by blast
    with e have "bson_iter_timestamp it = Ok (ts, inc)" by (simp add: timestamp_on_elem)
    moreover have "rbind (poke h (ci_storage c) (int row * 8) (le_bytes 4 (unat ts)))
        (\<lambda>h1. poke h1 (ci_storage c) (int row * 8 + 4) (le_bytes 4 (unat inc)))
      = poke h (ci_storage c) (int row * 8) (le_bytes 4 (unat ts) @ le_bytes 4 (unat inc))"
      using poke_poke [of h "ci_storage c" "row * 8" "le_bytes 4 (unat ts)" "le_bytes 4 (unat inc)"]
      by simp
    ultimately show ?thesis
      using iter_type_on_elem [OF e] x
      by (simp add: monary_load_timestamp_value_def cell_defs store_def rbind_assoc [symmetric])
  next
    case False
    then show ?thesis using iter_type_on_elem [OF e]
      by (cases x) (simp_all add: monary_load_timestamp_value_def cell_defs)
  qed
qed

lemma mul_int32_rows:
  "arg \<le> INT32_MAX \<Longrightarrow> row * arg \<le> INT32_MAX \<Longrightarrow>
     mul_int32 (int row) (as_int32 arg) = Ok (int (row * arg))"
proof -
  assume a: "arg \<le> INT32_MAX" "row * arg \<le> INT32_MAX"
  then have "int row * int arg \<le> 2147483647" by (simp flip: of_nat_mult)
  moreover have "- 2147483648 \<le> int row * int arg" by (rule order_trans [of _ 0]) simp_all
  ultimately show ?thesis using a by (simp add: mul_int32_def in_int32_def as_int32_nonneg)
qed

interpretation load_string: column_loader monary_load_string_value TYPE_STRING
proof
  fix k x it row h and c :: monary_column_item
  assume e: "on_elem k x it" and pre: "column_pre TYPE_STRING (ci_type_arg c) row x"
  show "monary_load_string_value it c h (int row) = put_cell TYPE_STRING c h row x"
  proof (cases "\<exists>s. x = BUtf8 s")
    case True
    then obtain s where x: "x = BUtf8 s" by blast
    obtain p where "bson_iter_utf8 it = Ok (p, length s)" "points_to p (s @ [0])"
      using string_on_elem [OF e, of bson_iter_utf8 s] x by auto
    then show ?thesis
      using iter_type_on_elem [OF e] x pre mul_int32_rows [of "ci_type_arg c" row]
      by (auto simp: monary_load_string_value_def cell_defs points_to_def read_ptr_def rdn_def
            column_pre_def wrap_simps min_def)
  next
    case False
    then show ?thesis using iter_type_on_elem [OF e]
      by (cases x) (simp_all add: monary_load_string_value_def cell_defs)
  qed
qed

interpretation load_binary: column_loader monary_load_binary_value TYPE_BINARY
proof
  fix k x it row h and c :: monary_column_item
  assume e: "on_elem k x it" and pre: "column_pre TYPE_BINARY (ci_type_arg c) row x"
  show "monary_load_binary_value it c h (int row) = put_cell TYPE_BINARY c h row x"
  proof (cases "\<exists>sub d. x = BBinary sub d")
    case True
    then obtain sub d where x: "x = BBinary sub d" by blast
    obtain p where "bson_iter_binary it = Ok (sub, length d, p)" "points_to p d"
      using binary_on_elem [of k sub d it] e x by auto
    then show ?thesis
      using iter_type_on_elem [OF e] x pre mul_int32_rows [of "ci_type_arg c" row]
      by (auto simp: monary_load_binary_value_def cell_defs points_to_def read_ptr_def rdn_def
            column_pre_def wrap_simps min_def)
  next
    case False
    then show ?thesis using iter_type_on_elem [OF e]
      by (cases x) (simp_all add: monary_load_binary_value_def cell_defs)
  qed
qed

interpretation load_document: column_loader monary_load_document_value TYPE_BSON
proof
  fix k x it row h and c :: monary_column_item
  assume e: "on_elem k x it" and pre: "column_pre TYPE_BSON (ci_type_arg c) row x"
  show "monary_load_document_value it c h (int row) = put_cell TYPE_BSON c h row x"
  proof (cases "\<exists>es. x = BDocument es")
    case True
    then obtain es where x: "x = BDocument es" by blast
    let ?e = "encode_doc es"
    obtain p where p: "bson_iter_document it = Ok (length ?e, p)" "points_to p ?e"
      using document_on_elem [OF e, of es] x by auto
    define n where "n = (if length ?e > ci_type_arg c then ci_type_arg c else length ?e)"
    have take: "read_ptr n p = Ok (take (ci_type_arg c) ?e)" "length (take (ci_type_arg c) ?e) = n"
      using p(2) by (auto simp: points_to_def read_ptr_def rdn_def n_def min_def)
    have "row * n \<le> row * ci_type_arg c" by (intro mult_le_mono2) (simp add: n_def)
    moreover have "row * ci_type_arg c \<le> INT32_MAX" "row \<le> INT32_MAX"
      using pre by (simp_all add: column_pre_def)
    ultimately have "row * n < 4294967296" "row < 4294967296" by linarith+
    then have "w32 (nat (int row mod 4294967296) * n) = row * n"
      by (simp add: wrap_simps flip: of_nat_mod)
    with p(1) take show ?thesis
      using iter_type_on_elem [OF e] x
      by (simp add: monary_load_document_value_def cell_defs Let_def flip: n_def
            del: length_encode_doc)
  next
    case False
    then show ?thesis using iter_type_on_elem [OF e]
      by (cases x) (simp_all add: monary_load_document_value_def cell_defs)
  qed
qed

interpretation load_type: column_loader monary_load_type_value TYPE_TYPE
  by unfold_locales (simp add: monary_load_type_value_def iter_type_on_elem cell_defs)

interpretation load_size: column_loader monary_load_size_value TYPE_SIZE
proof
  fix k x it row h and c :: monary_column_item assume e: "on_elem k x it"
  note acc = string_on_elem [OF e, of bson_iter_utf8] document_on_elem [OF e]
    binary_on_elem [of k _ _ it] ITER_TYPE_on_elem [OF e]
  show "monary_load_size_value it c h (int row) = put_cell TYPE_SIZE c h row x"
    using iter_type_on_elem [OF e] acc e
    by (cases x) (fastforce simp: monary_load_size_value_def cell_defs size_cell_def bson_iter_utf8_def)+
qed

section \<open>Counting characters\<close>

lemma utf8_unit_sequence: "utf8_unit a (b # bs) = Some k \<Longrightarrow> fst (utf8_get_sequence b) = k"
  by (auto simp: utf8_unit_def split: prod.splits option.splits if_splits)

lemma utf8_enc_head:
  assumes "unicode_scalar c" "c \<noteq> 0"
  obtains b bs where "utf8_enc c = b # bs" "b \<noteq> 0" "fst (utf8_get_sequence b) = length (utf8_enc c)"
    "utf8_chars (utf8_enc c) = 1"
proof -
  obtain b bs where e: "utf8_enc c = b # bs" by (cases "utf8_enc c") (auto simp: utf8_enc_def split: if_splits)
  have "fst (utf8_get_sequence b) = length (utf8_enc c)"
    using utf8_unit_enc [OF assms(1), of True "[]"] utf8_unit_sequence e by auto
  moreover have m: "c mod 64 < 64" "c div 64 mod 64 < 64" "c div 4096 mod 64 < 64" by simp_all
  have d: "c < 0x800 \<Longrightarrow> c div 64 < 32" "c < 0x10000 \<Longrightarrow> c div 4096 < 16" "c div 262144 < 8"
    using assms(1) by (simp_all add: div_less_iff_less_mult unicode_scalar_def)
  have "utf8_chars (utf8_enc c) = 1"
    using m d by (simp add: utf8_chars_def utf8_enc_def cont_byte_def del: of_nat_add)
  moreover have "b \<noteq> 0"
  proof
    assume "b = 0"
    then have "fst (utf8_get_sequence b) = 1" by (simp add: utf8_get_sequence_def)
    with calculation(1) have "length (utf8_enc c) = 1" by simp
    then have "c < 0x80" "utf8_enc c = [of_nat c]" by (auto simp: utf8_enc_def split: if_splits)
    with e \<open>b = 0\<close> have "(of_nat c :: byte) = 0" by simp
    with \<open>c < 0x80\<close> assms(2) of_nat_byte_eq [of c 0] show False by simp
  qed
  ultimately show thesis using e that by blast
qed

lemma utf8_chars_append [simp]: "utf8_chars (a @ b) = utf8_chars a + utf8_chars b"
  by (simp add: utf8_chars_def)

lemma utf8_count_step:
  assumes "b \<noteq> 0" "fst (utf8_get_sequence b) = Suc (length bs)" "n + 1 < 4294967296"
  shows "utf8_count (b # bs @ t) n = utf8_count t (n + 1)"
  using assms
  by (subst utf8_count.simps) (simp add: rd8_def bson_utf8_next_char_def wrap_simps)

lemma utf8_count_text:
  "utf8_text False s \<Longrightarrow> n + utf8_chars s < 4294967296 \<Longrightarrow>
     utf8_count (s @ 0 # t) n = Ok (n + utf8_chars s)"
proof (induction arbitrary: n rule: utf8_text.induct)
  case utf8_nil
  then show ?case by (simp add: utf8_count.simps rd8_def utf8_chars_def)
next
  case (utf8_scalar c s)
  then obtain b bs where e: "utf8_enc c = b # bs" "b \<noteq> 0"
    "fst (utf8_get_sequence b) = length (utf8_enc c)" "utf8_chars (utf8_enc c) = 1"
    using utf8_enc_head by blast
  have "n + 1 < 4294967296" using utf8_scalar.prems e(4) by simp
  with e have "utf8_count (utf8_enc c @ s @ 0 # t) n = utf8_count (s @ 0 # t) (n + 1)"
    using utf8_count_step [of b bs n "s @ 0 # t"] by simp
  with utf8_scalar.IH [of "n + 1"] utf8_scalar.prems e(4) show ?case by simp
next
  case (utf8_long_nul s)
  have "utf8_chars (0xC0 # 0x80 # s) = Suc (utf8_chars s)"
    by (simp add: utf8_chars_def cont_byte_def)
  moreover have "fst (utf8_get_sequence 0xC0) = Suc (length [0x80 :: byte])"
    by (simp add: get_sequence_eq)
  ultimately show ?case
    using utf8_count_step [of "0xC0" "[0x80]" n "s @ 0 # t"] utf8_long_nul.IH [of "n + 1"] utf8_long_nul.prems
    by simp
qed

lemma utf8_chars_le: "utf8_chars s \<le> length s"
  by (simp add: utf8_chars_def)

lemma count_children:
  assumes "on_elem k x it" "x = BDocument es \<or> x = BArray es"
  obtains child where "bson_iter_recurse it = Ok (Some child)"
    "count_loop (iter_fuel child) bson_iter_next child 0 = Ok (length es)"
proof -
  obtain child where c: "bson_iter_recurse it = Ok (Some child)" "iter_upto es 0 child"
    using assms by (rule recurse_container)
  have "length es < 4294967296"
    using wf_doc_child [OF assms] length_le_enc_elems [of es] by (simp add: wf_doc_def)
  then show thesis
    using that [OF c(1)] bson_reader.count_all [OF c(2) _ iter_left_fuel, of 0] by simp
qed

interpretation load_length: column_loader monary_load_length_value TYPE_LENGTH
proof
  fix k x it row h and c :: monary_column_item
  assume e: "on_elem k x it" and pre: "column_pre TYPE_LENGTH (ci_type_arg c) row x"
  note ty = iter_type_on_elem(1) [OF e]
  show "monary_load_length_value it c h (int row) = put_cell TYPE_LENGTH c h row x"
  proof (cases x)
    case (BUtf8 s)
    obtain p where p: "bson_iter_utf8 it = Ok (p, length s)" "points_to p (s @ [0])"
      using string_on_elem [OF e, of bson_iter_utf8 s] BUtf8 by auto
    have "length s < 4294967296"
      using e BUtf8 by (auto elim!: on_elemE simp: length_enc_elem)
    with utf8_chars_le [of s] pre BUtf8 have "utf8_count (s @ 0 # t) 0 = Ok (utf8_chars s)" for t
      using utf8_count_text [of s 0 t] by (simp add: column_pre_def)
    with p ty BUtf8 show ?thesis
      by (auto simp: monary_load_length_value_def cell_defs length_cell_def points_to_def)
  next
    case (BDocument es)
    obtain child where "bson_iter_recurse it = Ok (Some child)"
      "count_loop (iter_fuel child) bson_iter_next child 0 = Ok (length es)"
      by (rule count_children [OF e, of es]) (simp_all add: BDocument)
    with ty BDocument show ?thesis by (simp add: monary_load_length_value_def cell_defs length_cell_def)
  next
    case (BArray es)
    obtain child where "bson_iter_recurse it = Ok (Some child)"
      "count_loop (iter_fuel child) bson_iter_next child 0 = Ok (length es)"
      by (rule count_children [OF e, of es]) (simp_all add: BArray)
    with ty BArray show ?thesis by (simp add: monary_load_length_value_def cell_defs length_cell_def)
  next
    case (BBinary sub d)
    with binary_on_elem [of k sub d it] e ty show ?thesis
      by (auto simp: monary_load_length_value_def cell_defs length_cell_def)
  next
    case (BCode s)
    with ty ITER_TYPE_on_elem [OF e] show ?thesis
      by (simp add: monary_load_length_value_def cell_defs length_cell_def bson_iter_utf8_def)
  qed (use ty in \<open>simp_all add: monary_load_length_value_def cell_defs length_cell_def\<close>)
qed

section \<open>Dispatch\<close>

lemmas loaders_on_elem =
  load_objectid.load_on_elem load_bool.load_on_elem load_int8.load_on_elem load_int16.load_on_elem
  load_int32.load_on_elem load_int64.load_on_elem load_uint8.load_on_elem load_uint16.load_on_elem
  load_uint32.load_on_elem load_uint64.load_on_elem load_float32.load_on_elem
  load_float64.load_on_elem load_datetime.load_on_elem load_timestamp.load_on_elem
  load_string.load_on_elem load_binary.load_on_elem load_document.load_on_elem
  load_type.load_on_elem load_size.load_on_elem load_length.load_on_elem

lemma monary_load_item_on_elem:
  assumes "on_elem k x it" "column_pre (ci_type c) (ci_type_arg c) row x"
  shows "monary_load_item it c h (int row) = put_cell (ci_type c) c h row x"
proof (cases "ci_type c \<in> {1, 2, 3, 4, 5, 6, 7, 8, 9, 10, 11, 12, 13, 14, 15, 16, 17, 18, 19, 20}")
  case True
  with assms show ?thesis
    by (elim insertE emptyE) (simp_all add: monary_load_item_def Let_def loaders_on_elem)
next
  case False
  then show ?thesis by (simp add: monary_load_item_def Let_def put_cell_def column_cell_def)
qed

section \<open>Properties\<close>

lemma load_item_stores:
  assumes "on_elem k x it" "column_pre (ci_type c) (ci_type_arg c) row x"
    "column_cell (ci_type c) (ci_type_arg c) x = Ok (Some bs)"
    "ci_storage c = Some a" "h a = Some m" "row < rows"
    "rows * column_width (ci_type c) (ci_type_arg c) \<le> length m"
  shows "monary_load_item it c h (int row) =
    Ok (True, h(a \<mapsto> splice (column_offset (ci_type c) (ci_type_arg c) row bs) bs m))"
    "column_offset (ci_type c) (ci_type_arg c) row bs + length bs \<le> length m"
proof -
  have "wf_value x" using assms(1) by (simp add: on_elem_def)
  from column_cell_in_array [OF assms(3) this assms(6)] assms(7)
  show b: "column_offset (ci_type c) (ci_type_arg c) row bs + length bs \<le> length m" by simp
  then show "monary_load_item it c h (int row) =
    Ok (True, h(a \<mapsto> splice (column_offset (ci_type c) (ci_type_arg c) row bs) bs m))"
    using assms(3-5) monary_load_item_on_elem [OF assms(1,2), of h]
    by (simp add: put_cell_def store_def view_simps)
qed

text \<open>
  C4: loading a field into a column of any type does what the specification of the cell says: it
  stores the bytes of the cell at the place of the row, and changes no other byte of the array and no
  other block; or it reports that the type cannot hold the value and changes nothing; or it faults as
  the cell does (the length of JavaScript code, and a \<open>double\<close> out of the range of the integer type it
  is cast to). The place is the row times the width of a cell, except that a document in a
  \<open>TYPE_BSON\<close> column goes to the row times its own length, cut to the width (C39). The array holds
  \<open>rows\<close> cells below 2 GiB, and a string whose length is asked for is UTF-8 without NUL
  (\<open>column_pre\<close>); for other strings see \<open>length_column_faults\<close>.
\<close>

theorem load_item_writes_its_cell:
  assumes "on_elem k x it" "column_pre (ci_type c) (ci_type_arg c) row x"
    "ci_storage c = Some a" "h a = Some m" "row < rows"
    "rows * column_width (ci_type c) (ci_type_arg c) \<le> length m"
  shows "case column_cell (ci_type c) (ci_type_arg c) x of
      Inl e \<Rightarrow> monary_load_item it c h (int row) = Fault e
    | Inr None \<Rightarrow> monary_load_item it c h (int row) = Ok (False, h)
    | Inr (Some bs) \<Rightarrow>
        let start = row * (if ci_type c = TYPE_BSON then length bs
                           else column_width (ci_type c) (ci_type_arg c)) in
        \<exists>m'. monary_load_item it c h (int row) = Ok (True, h(a \<mapsto> m'))
           \<and> length m' = length m \<and> length bs \<le> column_width (ci_type c) (ci_type_arg c)
           \<and> slice start (length bs) m' = bs
           \<and> (\<forall>j < length m. j < start \<or> start + length bs \<le> j \<longrightarrow> m' ! j = m ! j)"
proof (cases "column_cell (ci_type c) (ci_type_arg c) x")
  case (Inl e)
  with monary_load_item_on_elem [OF assms(1,2)] show ?thesis by (simp add: put_cell_def)
next
  case (Inr r)
  have wf: "wf_value x" using assms(1) by (simp add: on_elem_def)
  show ?thesis
  proof (cases r)
    case None
    with Inr monary_load_item_on_elem [OF assms(1,2)] show ?thesis by (simp add: put_cell_def)
  next
    case (Some bs)
    note cell = Inr [unfolded Some]
    note ls = load_item_stores [where h = h and a = a and m = m, OF assms(1,2) cell assms(3-6)]
    have "column_offset (ci_type c) (ci_type_arg c) row bs
        = row * (if ci_type c = TYPE_BSON then length bs else column_width (ci_type c) (ci_type_arg c))"
      by (simp add: column_offset_def)
    with ls column_cell_fits(2) [OF cell wf] show ?thesis
      unfolding cell by (auto simp: Let_def nth_splice_other)
  qed
qed

text \<open>An iterator on the only field of a small document, for the witnesses.\<close>

lemma sample_field:
  assumes "wf_value x" "0 \<notin> set k" "length (encode_doc [(k, x)]) \<le> INT32_MAX"
  obtains it where "on_elem k x it"
proof -
  have "wf_doc [(k, x)]" using assms by (simp add: wf_doc_def del: length_encode_doc)
  from iter_upto_start [OF this at_points_to [OF at_whole [of "encode_doc [(k, x)]" "[]"]]]
  have "iter_upto [(k, x)] 0 (iter_at_start (Some (encode_doc [(k, x)])) (length (encode_doc [(k, x)])))"
    by simp
  from iter_upto_next [OF this] show thesis using that by auto
qed

theorem load_item_writes_its_cell_witness:
  "\<exists>it m'. monary_load_item it \<lparr>ci_field = None, ci_type = TYPE_INT16, ci_type_arg = 0, ci_storage = Some 3,
        ci_mask = None\<rparr> ((\<lambda>_. None)(3 := Some (replicate 8 0xEE))) 2
      = Ok (True, ((\<lambda>_. None)(3 := Some (replicate 8 0xEE)))(3 \<mapsto> m'))
     \<and> slice 4 2 m' = [0x39, 0x30] \<and> m' ! 3 = 0xEE"
proof -
  let ?x = "BInt32 12345"
  obtain it where it: "on_elem [0x61] ?x it" by (rule sample_field [of ?x "[0x61]"]) simp_all
  let ?c = "\<lparr>ci_field = None, ci_type = TYPE_INT16, ci_type_arg = 0, ci_storage = Some 3, ci_mask = None\<rparr>"
  let ?h = "(\<lambda>_. None)(3 := Some (replicate 8 0xEE)) :: heap"
  have "column_cell TYPE_INT16 0 ?x = Ok (Some [0x39, 0x30])" by code_simp
  with load_item_writes_its_cell [OF it, of ?c 2 3 ?h "replicate 8 0xEE" 4] show ?thesis
    by (intro exI [of _ it]) (auto simp: column_pre_def column_width_def numeral_2_eq_2 [symmetric])
qed

text \<open>
  C39: in a column of type \<open>TYPE_BSON\<close> a document shorter than the cells is stored at the row
  times \<^emph>\<open>its own\<close> length. In every row but the first that is not the place of the row: the
  cell of the row keeps what it held, and an earlier row is overwritten.
\<close>

theorem document_column_misplaced:
  assumes "on_elem k (BDocument es) it" "ci_type c = TYPE_BSON" "ci_storage c = Some a" "h a = Some m"
    "0 < row" "row < rows" "rows * ci_type_arg c \<le> length m" "length m \<le> INT32_MAX"
    "(row + 1) * length (encode_doc es) \<le> row * ci_type_arg c"
  shows "\<exists>m'. monary_load_item it c h (int row) = Ok (True, h(a \<mapsto> m'))
     \<and> slice (row * ci_type_arg c) (ci_type_arg c) m' = slice (row * ci_type_arg c) (ci_type_arg c) m
     \<and> slice (row * length (encode_doc es)) (length (encode_doc es)) m' = encode_doc es"
proof -
  let ?n = "ci_type_arg c" and ?L = "length (encode_doc es)"
  have "Suc row * ?n \<le> rows * ?n" using assms(6) by (intro mult_le_mono1) simp
  with assms(7) have b: "row * ?n + ?n \<le> length m" by simp
  have "?L \<le> ?n"
  proof (rule ccontr)
    assume "\<not> ?L \<le> ?n"
    then have "row * ?n \<le> row * ?L" by (intro mult_le_mono2) simp
    with assms(9) show False by (simp add: algebra_simps)
  qed
  then have take: "take ?n (encode_doc es) = encode_doc es" by simp
  have "row \<le> row * ?n" using \<open>?L \<le> ?n\<close> by simp
  with b assms(8) have "row \<le> INT32_MAX" "?n \<le> INT32_MAX" "row * ?n \<le> INT32_MAX" by linarith+
  then have pre: "column_pre (ci_type c) ?n row (BDocument es)"
    by (simp add: column_pre_def assms(2))
  have cell: "column_cell (ci_type c) ?n (BDocument es) = Ok (Some (encode_doc es))"
    by (simp add: column_cell_def assms(2) take)
  have w: "rows * column_width (ci_type c) ?n \<le> length m"
    using assms(7) by (simp add: column_width_def assms(2))
  note ls = load_item_stores [where h = h and a = a and m = m, OF assms(1) pre cell assms(3,4,6) w]
  have off: "column_offset (ci_type c) ?n row (encode_doc es) = row * ?L"
    by (simp add: column_offset_def assms(2))
  have "row * ?L + ?L \<le> row * ?n" using assms(9) by (simp only: add_mult_distrib mult_1)
  with b have "slice (row * ?n) ?n (splice (row * ?L) (encode_doc es) m) = slice (row * ?n) ?n m"
    by (intro slice_splice_other) auto
  with ls show ?thesis unfolding off by (auto simp del: length_encode_doc)
qed

theorem document_column_misplaced_witness:
  "\<exists>it m'. monary_load_item it \<lparr>ci_field = None, ci_type = TYPE_BSON, ci_type_arg = 10, ci_storage = Some 3,
        ci_mask = None\<rparr> ((\<lambda>_. None)(3 := Some (replicate 20 0xEE))) 1
      = Ok (True, ((\<lambda>_. None)(3 := Some (replicate 20 0xEE)))(3 \<mapsto> m'))
     \<and> slice 10 10 m' = replicate 10 0xEE \<and> slice 5 5 m' = [5, 0, 0, 0, 0]"
proof -
  let ?x = "BDocument []"
  obtain it where it: "on_elem [0x61] ?x it" by (rule sample_field [of ?x "[0x61]"]) simp_all
  let ?c = "\<lparr>ci_field = None, ci_type = TYPE_BSON, ci_type_arg = 10, ci_storage = Some 3, ci_mask = None\<rparr>"
  let ?h = "(\<lambda>_. None)(3 := Some (replicate 20 0xEE)) :: heap"
  have e: "encode_doc [] = [5, 0, 0, 0, 0]" by code_simp
  have r: "slice 10 10 (replicate 20 0xEE) = (replicate 10 0xEE :: bytes)" by (simp add: slice_def)
  from document_column_misplaced [OF it, of ?c 3 ?h "replicate 20 0xEE" 1 2] obtain m' where
    m': "monary_load_item it ?c ?h 1 = Ok (True, ?h(3 \<mapsto> m'))" "slice 10 10 m' = replicate 10 0xEE"
    "slice (1 * length (encode_doc [])) (length (encode_doc [])) m' = encode_doc []"
    by (auto simp: r)
  have "slice 5 5 m' = [5, 0, 0, 0, 0]" using m'(3) unfolding e by (simp add: numeral_eq_Suc)
  with m' show ?thesis by blast
qed

text \<open>
  Asking for the length of JavaScript code dereferences a null pointer, for
  \<open>bson_iter_utf8\<close> returns NULL for that type; and asking for the length of a string with a byte
  that starts no UTF-8 sequence never returns.
\<close>

theorem length_column_faults:
  assumes "ci_type c = TYPE_LENGTH"
  shows "(on_elem k (BCode s) it \<longrightarrow> monary_load_item it c h (int row) = Fault Null_Deref)
     \<and> (on_elem k (BUtf8 (0xFF # s)) it \<longrightarrow> monary_load_item it c h (int row) = Fault No_Termination)"
proof (intro conjI impI)
  assume e: "on_elem k (BCode s) it"
  show "monary_load_item it c h (int row) = Fault Null_Deref"
    using iter_type_on_elem(1) [OF e] ITER_TYPE_on_elem [OF e] assms
    by (simp add: monary_load_item_def Let_def monary_load_length_value_def bson_iter_utf8_def)
next
  assume e: "on_elem k (BUtf8 (0xFF # s)) it"
  obtain p where p: "bson_iter_utf8 it = Ok (p, Suc (length s))" "points_to p (0xFF # s @ [0])"
    using string_on_elem [OF e, of bson_iter_utf8 "0xFF # s"] by auto
  have "utf8_count (0xFF # t) 0 = Fault No_Termination" for t
    by (subst utf8_count.simps) (simp add: rd8_def bson_utf8_next_char_def get_sequence_eq)
  with p iter_type_on_elem(1) [OF e] assms show "monary_load_item it c h (int row) = Fault No_Termination"
    by (auto simp: monary_load_item_def Let_def monary_load_length_value_def points_to_def)
qed

theorem length_column_faults_witness:
  "\<exists>it it2. monary_load_item it (zero_item\<lparr>ci_type := TYPE_LENGTH\<rparr>) (\<lambda>_. None) 0 = Fault Null_Deref
     \<and> monary_load_item it2 (zero_item\<lparr>ci_type := TYPE_LENGTH\<rparr>) (\<lambda>_. None) 0 = Fault No_Termination"
proof -
  obtain it where it: "on_elem [0x61] (BCode [0x78]) it"
    by (rule sample_field [of "BCode [0x78]" "[0x61]"]) simp_all
  obtain it2 where it2: "on_elem [0x61] (BUtf8 [0xFF]) it2"
    by (rule sample_field [of "BUtf8 [0xFF]" "[0x61]"]) simp_all
  show ?thesis
    using length_column_faults [of "zero_item\<lparr>ci_type := TYPE_LENGTH\<rparr>" "[0x61]" "[0x78]" it "\<lambda>_. None" 0]
      length_column_faults [of "zero_item\<lparr>ci_type := TYPE_LENGTH\<rparr>" "[0x61]" "[]" it2 "\<lambda>_. None" 0] it it2
    by auto
qed

text \<open>
  Every integer of magnitude below \<open>2\<^sup>5\<^sup>3\<close>, from a 32-bit or a 64-bit field, arrives in a
  \<open>float64\<close> column as exactly that number.
\<close>

theorem float64_column_exact:
  assumes "\<bar>i\<bar> < 2 ^ 53" "x = BInt64 (of_int i) \<or> (x = BInt32 (of_int i) \<and> in_int32 i)"
    "on_elem k x it" "ci_type c = TYPE_FLOAT64" "ci_storage c = Some a" "h a = Some m"
    "row < rows" "rows * 8 \<le> length m" "row \<le> INT32_MAX"
  shows "\<exists>m' d. monary_load_item it c h (int row) = Ok (True, h(a \<mapsto> m'))
     \<and> slice (row * 8) 8 m' = le_bytes 8 (unat d) \<and> double_trunc d = Some i"
proof -
  have "sint (of_int i :: 64 word) = i" using assms(1) by (simp add: signed_of_int signed_take_bit_int_eq_self)
  moreover have "sint (of_int i :: 32 word) = i" if "in_int32 i"
    using that by (simp add: in_int32_def signed_of_int signed_take_bit_int_eq_self)
  ultimately have cell: "column_cell (ci_type c) (ci_type_arg c) x = Ok (Some (le_bytes 8 (unat (int_to_double i))))"
    using assms(2,4) by (auto simp: column_cell_def float_cell_def)
  have pre: "column_pre (ci_type c) (ci_type_arg c) row x" using assms(4,9) by (simp add: column_pre_def)
  have w: "rows * column_width (ci_type c) (ci_type_arg c) \<le> length m"
    using assms(4,8) by (simp add: column_width_def)
  note ls = load_item_stores [where h = h and a = a and m = m, OF assms(3) pre cell assms(5-7) w]
  have off: "column_offset (ci_type c) (ci_type_arg c) row (le_bytes 8 (unat (int_to_double i))) = row * 8"
    using assms(4) by (simp add: column_offset_def column_width_def)
  show ?thesis
    using ls double_trunc_int_to_double [OF assms(1)] unfolding off
    by (intro exI [of _ "splice (row * 8) (le_bytes 8 (unat (int_to_double i))) m"]
          exI [of _ "int_to_double i"]) simp
qed

theorem float64_column_exact_witness:
  "\<exists>it m' d. monary_load_item it (zero_item\<lparr>ci_type := TYPE_FLOAT64, ci_storage := Some 3\<rparr>)
       ((\<lambda>_. None)(3 := Some (replicate 16 0))) (int 1) = Ok (True, ((\<lambda>_. None)(3 := Some (replicate 16 0)))(3 \<mapsto> m'))
     \<and> slice (1 * 8) 8 m' = le_bytes 8 (unat d) \<and> double_trunc d = Some (- 9007199254740991)"
proof -
  let ?i = "- 9007199254740991 :: int" and ?c = "zero_item\<lparr>ci_type := TYPE_FLOAT64, ci_storage := Some 3\<rparr>"
  obtain it where it: "on_elem [0x61] (BInt64 (of_int ?i)) it"
    by (rule sample_field [of "BInt64 (of_int ?i)" "[0x61]"]) simp_all
  have "\<bar>?i\<bar> < 2 ^ 53" by simp
  from float64_column_exact [OF this _ it, of ?c 3 "(\<lambda>_. None)(3 := Some (replicate 16 0))" "replicate 16 0" 1 2]
  show ?thesis by (intro exI [of _ it]) (auto simp: zero_item_def)
qed

end
