(* ===== verification/Monary_Rows.thy ===== *)
theory Monary_Rows
  imports Monary_Load
begin

text \<open>
  \<open>monary_bson_to_arrays\<close>: one document into one row of all columns. For every column the field is
  looked up by its dotted name and loaded, and the mask of the row is set where nothing was stored.
\<close>

section \<open>The code\<close>

text \<open>The characters from a pointer into the heap on.\<close>

definition heap_view :: "heap \<Rightarrow> nat option \<Rightarrow> view result" where
  "heap_view h p =
     (case p of
        None \<Rightarrow> Fault Null_Deref
      | Some a \<Rightarrow> (case h a of None \<Rightarrow> Fault Dangling_Pointer | Some bs \<Rightarrow> Ok bs))"

text \<open>The body of the loop over the columns: whether a value was stored, and the heap.\<close>

definition load_column ::
    "bson_t \<Rightarrow> nat \<Rightarrow> monary_column_item \<Rightarrow> heap \<Rightarrow> (bool \<times> heap) result" where
  "load_column bson row citem h =
     rbind (heap_view h (ci_field citem)) (\<lambda>field.
       rbind (bson_iter_find_descendant (snd (bson_iter_init bson)) field) (\<lambda>(descendant, _).
         rbind (case descendant of
                  None \<Rightarrow> Ok (False, h)
                | Some it \<Rightarrow> monary_load_item it citem h (as_int32 row)) (\<lambda>(success, h1).
           rbind (case ci_mask citem of
                    None \<Rightarrow> Ok h1
                  | Some mk \<Rightarrow> poke h1 (Some mk) (int row) [if success then 0 else 1]) (\<lambda>h2.
             Ok (success, h2)))))"

fun load_columns ::
    "bson_t \<Rightarrow> nat \<Rightarrow> monary_column_item list \<Rightarrow> heap \<Rightarrow> int \<Rightarrow> (int \<times> heap) result" where
  "load_columns bson row [] h masked = Ok (masked, h)"
| "load_columns bson row (citem # cs) h masked =
     rbind (load_column bson row citem h) (\<lambda>(success, h2).
       rbind (if success then Ok masked else add_int32 masked 1) (\<lambda>masked'.
         load_columns bson row cs h2 masked'))"

definition monary_bson_to_arrays ::
    "heap \<Rightarrow> monary_column_data option \<Rightarrow> nat \<Rightarrow> bson_t option \<Rightarrow> (int \<times> heap) result" where
  "monary_bson_to_arrays h coldata row bson =
     (case (coldata, bson) of
        (Some cd, Some b) \<Rightarrow>
          if row > cd_num_rows cd then Ok (- 1, h)
          else
            (case cd_columns cd of
               None \<Rightarrow> if cd_num_columns cd = 0 then Ok (0, h) else Fault Null_Deref
             | Some cs \<Rightarrow>
                 if cd_num_columns cd \<le> length cs
                 then load_columns b row (take (cd_num_columns cd) cs) h 0
                 else Fault Out_Of_Bounds)
      | _ \<Rightarrow> Ok (- 1, h))"

section \<open>Columns with arrays\<close>

definition col_name :: "heap \<Rightarrow> monary_column_item \<Rightarrow> bytes" where
  "col_name h c = butlast (the (h (the (ci_field c))))"

text \<open>A column whose name, array and mask are in place and large enough for \<open>rows\<close> rows.\<close>

definition col_ready :: "nat \<Rightarrow> heap \<Rightarrow> monary_column_item \<Rightarrow> bool" where
  "col_ready rows h c \<longleftrightarrow>
     (\<exists>f s st m mk k. ci_field c = Some f \<and> h f = Some (s @ [0]) \<and> 0 \<notin> set s
        \<and> length s \<le> MONARY_MAX_STRING_LENGTH
        \<and> ci_storage c = Some st \<and> h st = Some m
        \<and> rows * column_width (ci_type c) (ci_type_arg c) \<le> length m
        \<and> ci_mask c = Some mk \<and> h mk = Some k \<and> rows \<le> length k
        \<and> st \<noteq> mk \<and> f \<noteq> st \<and> f \<noteq> mk)"

text \<open>What the document says about a column: the bytes for its cell, nothing, or a fault.\<close>

definition col_cell :: "bdoc \<Rightarrow> heap \<Rightarrow> monary_column_item \<Rightarrow> bytes option result" where
  "col_cell es h c =
     (case lookup_path (split_dots (col_name h c)) es of
        None \<Rightarrow> Ok None
      | Some (k, x) \<Rightarrow> column_cell (ci_type c) (ci_type_arg c) x)"

definition cell :: "heap \<Rightarrow> bdoc \<Rightarrow> monary_column_item \<Rightarrow> bytes option" where
  "cell h es c = (case col_cell es h c of Inl _ \<Rightarrow> None | Inr r \<Rightarrow> r)"

definition col_pre :: "bdoc \<Rightarrow> nat \<Rightarrow> heap \<Rightarrow> monary_column_item \<Rightarrow> bool" where
  "col_pre es row h c \<longleftrightarrow>
     (\<forall>k x. lookup_path (split_dots (col_name h c)) es = Some (k, x)
        \<longrightarrow> column_pre (ci_type c) (ci_type_arg c) row x)"

text \<open>The array and the mask of a column afterwards.\<close>

definition new_storage :: "nat \<Rightarrow> monary_column_item \<Rightarrow> bytes option \<Rightarrow> bytes \<Rightarrow> bytes" where
  "new_storage row c r m =
     (case r of
        None \<Rightarrow> m
      | Some bs \<Rightarrow> splice (column_offset (ci_type c) (ci_type_arg c) row bs) bs m)"

definition new_mask :: "nat \<Rightarrow> bytes option \<Rightarrow> bytes \<Rightarrow> bytes" where
  "new_mask row r k = k[row := (if r = None then 1 else 0)]"

definition col_done ::
    "nat \<Rightarrow> monary_column_item \<Rightarrow> bytes option \<Rightarrow> heap \<Rightarrow> heap \<Rightarrow> bool" where
  "col_done row c r h h' \<longleftrightarrow>
     (\<exists>st mk. ci_storage c = Some st \<and> ci_mask c = Some mk
        \<and> h' st = map_option (new_storage row c r) (h st)
        \<and> h' mk = map_option (new_mask row r) (h mk))"

lemma splice_single: "i < length k \<Longrightarrow> splice i [b] k = k[i := b]"
  by (simp add: splice_def upd_conv_take_nth_drop)

lemma col_name_eq: "ci_field c = Some f \<Longrightarrow> h f = Some (s @ [0]) \<Longrightarrow> col_name h c = s"
  by (simp add: col_name_def)

lemma load_column_correct:
  assumes doc: "holds_doc b es" and ready: "col_ready rows h c" and row: "row < rows" "row \<le> INT32_MAX"
    and cell: "col_cell es h c = Ok r" and pre: "col_pre es row h c"
  obtains h' where "load_column b row c h = Ok (r \<noteq> None, h')" "col_done row c r h h'"
    "\<And>a. ci_storage c \<noteq> Some a \<Longrightarrow> ci_mask c \<noteq> Some a \<Longrightarrow> h' a = h a"
proof -
  obtain f s st m mk k where c: "ci_field c = Some f" "h f = Some (s @ [0])" "0 \<notin> set s"
    "length s \<le> MONARY_MAX_STRING_LENGTH" "ci_storage c = Some st" "h st = Some m"
    "rows * column_width (ci_type c) (ci_type_arg c) \<le> length m"
    "ci_mask c = Some mk" "h mk = Some k" "rows \<le> length k" "st \<noteq> mk" "f \<noteq> st" "f \<noteq> mk"
    using ready by (auto simp: col_ready_def)
  obtain it where it: "bson_iter_init b = (True, it)" "iter_upto es 0 it"
    using doc by (rule iter_init_holds_doc)
  have name: "col_name h c = s" using c(1,2) by (rule col_name_eq)
  have idx: "as_int32 row = int row" using row(2) by (simp add: as_int32_nonneg)
  have fd: "case lookup_path (split_dots s) es of
      None \<Rightarrow> \<exists>it'. bson_iter_find_descendant it (s @ [0]) = Ok (None, it')
    | Some (k, x) \<Rightarrow> \<exists>d it'. bson_iter_find_descendant it (s @ [0]) = Ok (Some d, it') \<and> on_elem k x d"
    using find_descendant_correct [OF it(2) c(3), of "[]"] c(4) by simp
  have triv: "h(st \<mapsto> m) = h" using c(6) by (rule map_upd_triv)
  define h1 where "h1 = h(st \<mapsto> new_storage row c r m)"
  have load: "\<exists>d it'. bson_iter_find_descendant it (s @ [0]) = Ok (d, it')
      \<and> (case d of None \<Rightarrow> Ok (False, h) | Some it \<Rightarrow> monary_load_item it c h (as_int32 row))
        = Ok (r \<noteq> None, h1)"
  proof (cases "lookup_path (split_dots s) es")
    case None
    then show ?thesis
      using fd cell by (auto simp: col_cell_def name h1_def new_storage_def triv)
  next
    case (Some e)
    obtain ky x where e: "e = (ky, x)" by fastforce
    with Some cell pre have cc: "column_cell (ci_type c) (ci_type_arg c) x = Ok r"
      "column_pre (ci_type c) (ci_type_arg c) row x"
      by (simp_all add: col_cell_def col_pre_def name)
    obtain d it' where d: "bson_iter_find_descendant it (s @ [0]) = Ok (Some d, it')" "on_elem ky x d"
      using fd Some e by auto
    have "monary_load_item d c h (int row) = Ok (r \<noteq> None, h1)"
    proof (cases r)
      case None
      then show ?thesis using monary_load_item_on_elem [OF d(2) cc(2), of h] cc(1)
        by (simp add: put_cell_def h1_def new_storage_def triv)
    next
      case (Some bs)
      then show ?thesis
        using load_item_stores(1) [where h = h and a = st and m = m, OF d(2) cc(2) _ c(5,6) row(1) c(7)] cc(1)
        by (simp add: h1_def new_storage_def)
    qed
    with d(1) show ?thesis by (simp add: idx)
  qed
  define h2 where "h2 = h1(mk \<mapsto> new_mask row r k)"
  have "poke h1 (Some mk) (int row) [if r \<noteq> None then 0 else 1] = Ok h2"
    using c row(1) by (simp add: poke_def h1_def h2_def new_mask_def splice_single)
  with load it(1) c(1,2,8) have "load_column b row c h = Ok (r \<noteq> None, h2)"
    by (auto simp: load_column_def heap_view_def)
  moreover have "col_done row c r h h2"
    using c by (simp add: col_done_def h1_def h2_def)
  ultimately show thesis
    using that c by (auto simp: h1_def h2_def)
qed

lemma load_column_fault:
  assumes doc: "holds_doc b es" and ready: "col_ready rows h c" and row: "row \<le> INT32_MAX"
    and cell: "col_cell es h c = Fault e" and pre: "col_pre es row h c"
  shows "load_column b row c h = Fault e"
proof -
  obtain f s where c: "ci_field c = Some f" "h f = Some (s @ [0])" "0 \<notin> set s"
    "length s \<le> MONARY_MAX_STRING_LENGTH"
    using ready by (auto simp: col_ready_def)
  obtain it where it: "bson_iter_init b = (True, it)" "iter_upto es 0 it"
    using doc by (rule iter_init_holds_doc)
  have name: "col_name h c = s" using c(1,2) by (rule col_name_eq)
  have idx: "as_int32 row = int row" using row by (simp add: as_int32_nonneg)
  obtain k x where x: "lookup_path (split_dots s) es = Some (k, x)"
    "column_cell (ci_type c) (ci_type_arg c) x = Fault e" "column_pre (ci_type c) (ci_type_arg c) row x"
    using cell pre by (auto simp: col_cell_def col_pre_def name split: option.splits)
  then obtain d it' where d: "bson_iter_find_descendant it (s @ [0]) = Ok (Some d, it')" "on_elem k x d"
    using find_descendant_correct [OF it(2) c(3), of "[]"] c(4) by auto
  have "monary_load_item d c h (int row) = Fault e"
    using monary_load_item_on_elem [OF d(2) x(3), of h] x(2) by (simp add: put_cell_def)
  with d(1) it(1) c(1,2) idx show ?thesis by (simp add: load_column_def heap_view_def)
qed

section \<open>All columns\<close>

text \<open>The arrays and masks of the columns; nobody shares them, and no name lives in them.\<close>

definition data_blocks :: "monary_column_item list \<Rightarrow> nat list" where
  "data_blocks cs = concat (map (\<lambda>c. [the (ci_storage c), the (ci_mask c)]) cs)"

definition cols_separate :: "monary_column_item list \<Rightarrow> bool" where
  "cols_separate cs \<longleftrightarrow> distinct (data_blocks cs)
     \<and> (\<forall>c \<in> set cs. the (ci_field c) \<notin> set (data_blocks cs))"

lemma data_blocks_simps [simp]:
  "data_blocks [] = []"
  "data_blocks (c # cs) = the (ci_storage c) # the (ci_mask c) # data_blocks cs"
  by (simp_all add: data_blocks_def)

lemma data_blocks_mem:
  "c \<in> set cs \<Longrightarrow> the (ci_storage c) \<in> set (data_blocks cs) \<and> the (ci_mask c) \<in> set (data_blocks cs)"
  by (auto simp: data_blocks_def)

text \<open>A column depends on its own three blocks only.\<close>

lemma col_frame:
  assumes "col_ready rows h c"
    "h' (the (ci_field c)) = h (the (ci_field c))" "h' (the (ci_storage c)) = h (the (ci_storage c))"
    "h' (the (ci_mask c)) = h (the (ci_mask c))"
  shows "col_ready rows h' c" "col_name h' c = col_name h c" "col_cell es h' c = col_cell es h c"
    "col_pre es row h' c = col_pre es row h c" "col_done row c r h' h'' = col_done row c r h h''"
proof -
  show n: "col_name h' c = col_name h c" by (simp add: col_name_def assms(2))
  show "col_ready rows h' c" using assms by (auto simp: col_ready_def)
  show "col_cell es h' c = col_cell es h c" "col_pre es row h' c = col_pre es row h c"
    by (simp_all add: col_cell_def col_pre_def n)
  show "col_done row c r h' h'' = col_done row c r h h''"
    using assms(3,4) by (auto simp: col_done_def)
qed

lemma col_done_later:
  assumes "col_done row c r h h'" "h'' (the (ci_storage c)) = h' (the (ci_storage c))"
    "h'' (the (ci_mask c)) = h' (the (ci_mask c))"
  shows "col_done row c r h h''"
  using assms by (auto simp: col_done_def)

text \<open>One turn of the loop: the column is done, and nothing changes for the other columns.\<close>

lemma load_column_step:
  assumes "holds_doc b es" "row < rows" "row \<le> INT32_MAX"
    and "\<forall>d \<in> set (c # cs). col_ready rows h d \<and> col_pre es row h d"
    and "cols_separate (c # cs)" "col_cell es h c = Ok r"
  obtains h2 where "load_column b row c h = Ok (r \<noteq> None, h2)" "col_done row c r h h2"
    "\<And>a. a \<noteq> the (ci_storage c) \<Longrightarrow> a \<noteq> the (ci_mask c) \<Longrightarrow> h2 a = h a" "cols_separate cs"
    "\<And>d. d \<in> set cs \<Longrightarrow> col_ready rows h2 d \<and> col_pre es row h2 d \<and> col_cell es h2 d = col_cell es h d
       \<and> (\<forall>r h'. col_done row d r h2 h' = col_done row d r h h')"
proof -
  obtain h2 where h2: "load_column b row c h = Ok (r \<noteq> None, h2)" "col_done row c r h h2"
    "\<And>a. ci_storage c \<noteq> Some a \<Longrightarrow> ci_mask c \<noteq> Some a \<Longrightarrow> h2 a = h a"
    using assms load_column_correct [of b es rows h c row r] by auto
  have rc: "ci_storage c \<noteq> None" "ci_mask c \<noteq> None"
    using assms(4) by (auto simp: col_ready_def)
  have same: "h2 a = h a" if "a \<noteq> the (ci_storage c)" "a \<noteq> the (ci_mask c)" for a
    using h2(3) [of a] that rc by auto
  have fr: "h2 (the (ci_field d)) = h (the (ci_field d)) \<and> h2 (the (ci_storage d)) = h (the (ci_storage d))
      \<and> h2 (the (ci_mask d)) = h (the (ci_mask d))" if "d \<in> set cs" for d
    using assms(5) that data_blocks_mem [OF that] by (intro conjI same) (auto simp: cols_separate_def)
  show thesis
  proof (rule that [OF h2(1,2) same])
    show "cols_separate cs" using assms(5) by (auto simp: cols_separate_def)
    fix d assume d: "d \<in> set cs"
    with assms(4) have "col_ready rows h d" "col_pre es row h d" by simp_all
    with col_frame [of rows h d h2] fr [OF d]
    show "col_ready rows h2 d \<and> col_pre es row h2 d \<and> col_cell es h2 d = col_cell es h d
       \<and> (\<forall>r h'. col_done row d r h2 h' = col_done row d r h h')" by simp
  qed
qed

lemma count_masked: "0 \<le> m \<Longrightarrow> m + int (Suc n) \<le> 2147483647
   \<Longrightarrow> (if b then Ok m else add_int32 m 1) = Ok (if b then m else m + 1)"
  by (simp add: add_int32_def in_int32_def)

lemma load_columns_correct:
  assumes "holds_doc b es" "row < rows" "row \<le> INT32_MAX"
    and "\<forall>c \<in> set cs. col_ready rows h c \<and> col_cell es h c = Ok (r c) \<and> col_pre es row h c"
    and "cols_separate cs" "0 \<le> masked" "masked + int (length cs) \<le> 2147483647"
  shows "\<exists>h'. load_columns b row cs h masked
        = Ok (masked + int (length (filter (\<lambda>c. r c = None) cs)), h')
     \<and> (\<forall>c \<in> set cs. col_done row c (r c) h h') \<and> (\<forall>a. a \<notin> set (data_blocks cs) \<longrightarrow> h' a = h a)"
  using assms
proof (induction cs arbitrary: h masked)
  case (Cons c cs)
  obtain h2 where h2: "load_column b row c h = Ok (r c \<noteq> None, h2)" "col_done row c (r c) h h2"
    "\<And>a. a \<noteq> the (ci_storage c) \<Longrightarrow> a \<noteq> the (ci_mask c) \<Longrightarrow> h2 a = h a" "cols_separate cs"
    "\<And>d. d \<in> set cs \<Longrightarrow> col_ready rows h2 d \<and> col_pre es row h2 d \<and> col_cell es h2 d = col_cell es h d
       \<and> (\<forall>r h'. col_done row d r h2 h' = col_done row d r h h')"
    by (rule load_column_step [OF Cons.prems(1-3) _ Cons.prems(5)]) (use Cons.prems(4) in auto)
  let ?m = "if r c \<noteq> None then masked else masked + 1"
  have ready: "\<forall>d \<in> set cs. col_ready rows h2 d \<and> col_cell es h2 d = Ok (r d) \<and> col_pre es row h2 d"
    using h2(5) Cons.prems(4) by simp
  have "0 \<le> ?m" "?m + int (length cs) \<le> 2147483647" using Cons.prems(6,7) by auto
  from Cons.IH [OF Cons.prems(1-3) ready h2(4) this] obtain h' where
    h': "load_columns b row cs h2 ?m = Ok (?m + int (length (filter (\<lambda>c. r c = None) cs)), h')"
      "\<forall>d \<in> set cs. col_done row d (r d) h2 h'" "\<forall>a. a \<notin> set (data_blocks cs) \<longrightarrow> h' a = h2 a"
    by blast
  have "load_columns b row (c # cs) h masked
      = Ok (masked + int (length (filter (\<lambda>c. r c = None) (c # cs))), h')"
    using h2(1) h'(1) count_masked [of masked "length cs" "r c \<noteq> None"] Cons.prems(6,7)
    by (cases "r c") simp_all
  moreover have "the (ci_storage c) \<notin> set (data_blocks cs)" "the (ci_mask c) \<notin> set (data_blocks cs)"
    using Cons.prems(5) by (simp_all add: cols_separate_def)
  then have "col_done row c (r c) h h'" using col_done_later [OF h2(2)] h'(3) by blast
  moreover have "\<forall>d \<in> set cs. col_done row d (r d) h h'" using h'(2) h2(5) by blast
  ultimately show ?case using h'(3) h2(3) by (intro exI [of _ h']) simp
qed simp

text \<open>The first column whose cell faults ends the loop with its fault.\<close>

lemma load_columns_fault:
  assumes "holds_doc b es" "row < rows" "row \<le> INT32_MAX"
    and "\<forall>c \<in> set cs. col_ready rows h c \<and> col_pre es row h c" "cols_separate cs"
    and "0 \<le> masked" "masked + int (length cs) \<le> 2147483647"
    and "find (\<lambda>c. \<not> safe (col_cell es h c)) cs = Some c"
  shows "\<exists>e. col_cell es h c = Fault e \<and> load_columns b row cs h masked = Fault e"
  using assms
proof (induction cs arbitrary: h masked)
  case (Cons d cs)
  show ?case
  proof (cases "col_cell es h d")
    case (Inl e)
    have "load_column b row d h = Fault e"
      by (rule load_column_fault [OF Cons.prems(1) _ Cons.prems(3) Inl]) (use Cons.prems(4) in auto)
    with Inl Cons.prems(8) show ?thesis by simp
  next
    case (Inr r)
    obtain h2 where h2: "load_column b row d h = Ok (r \<noteq> None, h2)" "cols_separate cs"
      "\<And>d. d \<in> set cs \<Longrightarrow> col_ready rows h2 d \<and> col_pre es row h2 d \<and> col_cell es h2 d = col_cell es h d"
      by (rule load_column_step [OF Cons.prems(1-5) Inr]) blast
    let ?m = "if r \<noteq> None then masked else masked + 1"
    have f: "find (\<lambda>c. \<not> safe (col_cell es h c)) cs = Some c" using Inr Cons.prems(8) by simp
    then have c: "c \<in> set cs" by (auto simp: find_Some_iff)
    have f2: "find (\<lambda>c. \<not> safe (col_cell es h2 c)) cs = Some c"
      using f h2(3) by (simp cong: find_cong)
    have "0 \<le> ?m" "?m + int (length cs) \<le> 2147483647" using Cons.prems(6,7) by auto
    from Cons.IH [OF Cons.prems(1-3) _ h2(2) this f2] h2(3) obtain e where
      e: "col_cell es h2 c = Fault e" "load_columns b row cs h2 ?m = Fault e" by blast
    have "load_columns b row (d # cs) h masked = Fault e"
      using h2(1) e(2) count_masked [of masked "length cs" "r \<noteq> None"] Cons.prems(6,7)
      by (cases r) simp_all
    then show ?thesis using e(1) h2(3) [OF c] by simp
  qed
qed simp

section \<open>Properties\<close>

text \<open>
  C3: loading a document into a row of columns whose arrays are apart from each other. When the cell
  of some column faults (C4), the call faults as the first of them does. Otherwise it returns the
  number of columns for which nothing was stored, and for every column: if its dotted name denotes a
  value that the type can hold, the bytes of its cell are in the array and the mask of the row is 0;
  if not, the array is unchanged and the mask of the row is 1. Nothing else in memory changes. The
  bytes stand at the row times the width of a cell, except in a \<open>TYPE_BSON\<close> column, where they stand
  at the row times their own number, which for a document shorter than the cell is not the place of
  the row (C39).
\<close>

theorem bson_to_arrays_row:
  assumes "holds_doc b es" "cd_columns cd = Some cs" "length cs = cd_num_columns cd"
    "cd_num_columns cd \<le> MONARY_MAX_NUM_COLUMNS" "row < cd_num_rows cd" "row \<le> INT32_MAX"
    "\<forall>c \<in> set cs. col_ready (cd_num_rows cd) h c \<and> col_pre es row h c"
    "cols_separate cs"
  shows "case find (\<lambda>c. \<not> safe (col_cell es h c)) cs of
      Some c \<Rightarrow> \<exists>e. col_cell es h c = Fault e \<and> monary_bson_to_arrays h (Some cd) row (Some b) = Fault e
    | None \<Rightarrow> \<exists>h'. monary_bson_to_arrays h (Some cd) row (Some b)
          = Ok (int (length (filter (\<lambda>c. cell h es c = None) cs)), h')
        \<and> (\<forall>c \<in> set cs. \<exists>st mk. ci_storage c = Some st \<and> ci_mask c = Some mk
             \<and> h' st = map_option (\<lambda>m. case cell h es c of
                   None \<Rightarrow> m
                 | Some bs \<Rightarrow> splice (row * (if ci_type c = TYPE_BSON then length bs
                                           else column_width (ci_type c) (ci_type_arg c))) bs m) (h st)
             \<and> h' mk = map_option (\<lambda>k. k[row := (if cell h es c = None then 1 else 0)]) (h mk))
        \<and> (\<forall>a. a \<notin> set (data_blocks cs) \<longrightarrow> h' a = h a)"
proof (cases "find (\<lambda>c. \<not> safe (col_cell es h c)) cs")
  case None
  have "col_cell es h c = Ok (cell h es c)" if "c \<in> set cs" for c
    using None that by (auto simp: find_None_iff safe_iff cell_def)
  then have "\<forall>c \<in> set cs. col_ready (cd_num_rows cd) h c \<and> col_cell es h c = Ok (cell h es c)
      \<and> col_pre es row h c" using assms(7) by blast
  from load_columns_correct [OF assms(1,5,6) this assms(8), of 0] assms(3,4)
  obtain h' where h': "load_columns b row cs h 0 = Ok (int (length (filter (\<lambda>c. cell h es c = None) cs)), h')"
    "\<forall>c \<in> set cs. col_done row c (cell h es c) h h'" "\<forall>a. a \<notin> set (data_blocks cs) \<longrightarrow> h' a = h a"
    by auto
  have "new_storage row c r = (\<lambda>m. case r of None \<Rightarrow> m
      | Some bs \<Rightarrow> splice (row * (if ci_type c = TYPE_BSON then length bs
                                 else column_width (ci_type c) (ci_type_arg c))) bs m)" for c r
    by (rule ext) (simp add: new_storage_def column_offset_def split: option.split)
  moreover have "new_mask row r = (\<lambda>k. k[row := (if r = None then 1 else 0)])" for r
    by (rule ext) (simp add: new_mask_def)
  ultimately show ?thesis
    using h'(2,3) unfolding None option.case col_done_def
    by (intro exI [of _ h'] conjI) (use assms(2,3,5) h'(1) in \<open>simp_all add: monary_bson_to_arrays_def\<close>)
next
  case (Some c)
  from load_columns_fault [OF assms(1,5,6,7,8) _ _ Some, of 0] show ?thesis
    using assms(2-5) by (simp add: Some monary_bson_to_arrays_def)
qed

theorem bson_to_arrays_row_witness:
  "\<exists>b cd h h'. monary_bson_to_arrays h (Some cd) 1 (Some b) = Ok (0, h')
     \<and> h' 2 = Some [0xEE, 0xEE, 0xEE, 0xEE, 7, 0, 0, 0] \<and> h' 3 = Some [1, 0]"
proof -
  let ?es = "[([0x61], BInt32 7)] :: bdoc"
  let ?b = "\<lparr>b_flags = {}, b_len = 12, b_buf = encode_doc ?es, b_offset = 0, b_depth = 0, b_realloc = False\<rparr>"
  let ?c = "\<lparr>ci_field = Some 1, ci_type = TYPE_INT32, ci_type_arg = 0, ci_storage = Some 2, ci_mask = Some 3\<rparr>"
  let ?cd = "\<lparr>cd_num_columns = 1, cd_num_rows = 2, cd_columns = Some [?c], cd_array = 8, cd_self = 9\<rparr>"
  let ?h = "(\<lambda>_. None)(1 := Some [0x61, 0], 2 := Some (replicate 8 0xEE), 3 := Some [1, 1]) :: heap"
  have doc: "holds_doc ?b ?es"
    by (simp add: holds_doc_def wf_doc_def points_to_def bson_data_def)
  have ready: "col_ready 2 ?h ?c"
    by (rule col_ready_def [THEN iffD2], rule exI [of _ 1], rule exI [of _ "[0x61]"])
      (simp add: column_width_def)
  have name: "col_name ?h ?c = [0x61]" by (simp add: col_name_def)
  have look: "lookup_path (split_dots [0x61]) ?es = Some ([0x61], BInt32 7)" by code_simp
  have cell: "col_cell ?es ?h ?c = Ok (Some [7, 0, 0, 0])"
    unfolding col_cell_def name look by simp code_simp
  have pre: "col_pre ?es 1 ?h ?c"
    by (simp only: col_pre_def name look) (simp add: column_pre_def)
  have sep: "cols_separate [?c]" by (simp add: cols_separate_def)
  have st: "splice 4 [7, 0, 0, 0] (replicate 8 0xEE) = ([0xEE, 0xEE, 0xEE, 0xEE, 7, 0, 0, 0] :: bytes)"
    by code_simp
  from bson_to_arrays_row [OF doc, of ?cd "[?c]" 1 ?h] ready cell pre sep
  obtain h' where h': "monary_bson_to_arrays ?h (Some ?cd) 1 (Some ?b) = Ok (0, h')"
      "h' 2 = Some (splice 4 [7, 0, 0, 0] (replicate 8 0xEE))" "h' 3 = Some [1, 0]"
    by (auto simp: cell_def column_width_def)
  then show ?thesis
    unfolding st by (intro exI [of _ ?b] exI [of _ ?cd] exI [of _ ?h] exI [of _ h']) simp
qed

text \<open>
  A row beyond \<open>num_rows\<close> is refused with -1, but row \<open>num_rows\<close> itself, one past the last,
  is not: with a mask of exactly \<open>num_rows\<close> bytes the mask is written out of its bounds.
\<close>

theorem bson_to_arrays_row_limit:
  assumes "cd_columns cd = Some cs" "length cs = cd_num_columns cd" "0 < cd_num_columns cd"
    "ci_field (hd cs) = Some f" "h f = Some (s @ [0])" "0 \<notin> set s" "length s \<le> MONARY_MAX_STRING_LENGTH"
    "ci_mask (hd cs) = Some mk" "h mk = Some k" "length k = cd_num_rows cd"
    "holds_doc b es" "lookup_path (split_dots s) es = None"
  shows "(cd_num_rows cd < row \<longrightarrow> monary_bson_to_arrays h (Some cd) row (Some b) = Ok (- 1, h))
     \<and> (row = cd_num_rows cd \<longrightarrow> monary_bson_to_arrays h (Some cd) row (Some b) = Fault Out_Of_Bounds)"
proof -
  obtain c cs' where cs: "cs = c # cs'" using assms(2,3) by (cases cs) auto
  obtain it where it: "bson_iter_init b = (True, it)" "iter_upto es 0 it"
    using assms(11) by (rule iter_init_holds_doc)
  obtain it' where "bson_iter_find_descendant it (s @ [0]) = Ok (None, it')"
    using find_descendant_correct [OF it(2) assms(6), of "[]"] assms(7,12) by auto
  then have "load_column b (cd_num_rows cd) c h = Fault Out_Of_Bounds"
    using assms(4,5,8-10) it(1) cs by (simp add: load_column_def heap_view_def poke_def)
  then show ?thesis
    using assms(1,2) cs by (auto simp: monary_bson_to_arrays_def)
qed

theorem bson_to_arrays_row_limit_witness:
  "\<exists>b cd. monary_bson_to_arrays ((\<lambda>_. None)(1 := Some [0x61, 0], 3 := Some [1, 1])) (Some cd) 2 (Some b)
      = Fault Out_Of_Bounds \<and> cd_num_rows cd = 2"
proof -
  let ?b = "\<lparr>b_flags = {}, b_len = 5, b_buf = encode_doc [], b_offset = 0, b_depth = 0, b_realloc = False\<rparr>"
  let ?c = "\<lparr>ci_field = Some 1, ci_type = TYPE_INT32, ci_type_arg = 0, ci_storage = Some 2, ci_mask = Some 3\<rparr>"
  let ?cd = "\<lparr>cd_num_columns = 1, cd_num_rows = 2, cd_columns = Some [?c], cd_array = 8, cd_self = 9\<rparr>"
  have "holds_doc ?b []"
    by (simp add: holds_doc_def wf_doc_def points_to_def bson_data_def)
  moreover have "lookup_path (split_dots [0x61]) [] = None" by code_simp
  ultimately show ?thesis
    using bson_to_arrays_row_limit [of ?cd "[?c]" 1 "(\<lambda>_. None)(1 := Some [0x61, 0], 3 := Some [1, 1])" "[0x61]" 3 "[1, 1]" ?b "[]" 2]
    by (intro exI [of _ ?b] exI [of _ ?cd]) auto
qed

end
