(* ===== verification/Bson_Reader.thy ===== *)
theory Bson_Reader
  imports Bson_Find
begin

text \<open>
  The reader of \<open>bson-reader.c\<close> over documents that stand one after the other in memory, as they do
  in a reply of the server.
\<close>

section \<open>The code\<close>

record bson_reader_data_t =
  r_data :: view
  r_length :: nat
  r_offset :: nat

definition bson_reader_new_from_data :: "view option \<Rightarrow> nat \<Rightarrow> bson_reader_data_t option" where
  "bson_reader_new_from_data data len =
     (case data of None \<Rightarrow> None | Some d \<Rightarrow> Some \<lparr>r_data = d, r_length = len, r_offset = 0\<rparr>)"

text \<open>The document read, whether the end was reached, and the reader afterwards.\<close>

definition bson_reader_data_read ::
    "bson_reader_data_t \<Rightarrow> (bson_t option \<times> bool \<times> bson_reader_data_t) result" where
  "bson_reader_data_read r =
     (if r_offset r + 4 < r_length r then
        let data = drop (r_offset r) (r_data r) in
        rbind (rd32 data 0) (\<lambda>n.
          let blen = as_int32 n in
          if blen < 5 then Ok (None, False, r)
          else if blen > as_int32 (r_length r - r_offset r) then Ok (None, False, r)
          else rbind (bson_init_static data (nat blen)) (\<lambda>b.
            case b of
              None \<Rightarrow> Ok (None, False, r)
            | Some doc \<Rightarrow> Ok (Some doc, False, r\<lparr>r_offset := r_offset r + nat blen\<rparr>)))
      else Ok (None, r_offset r = r_length r, r))"

definition bson_reader_data_tell :: "bson_reader_data_t \<Rightarrow> nat" where
  "bson_reader_data_tell r = r_offset r"

definition bson_reader_read :: "bson_reader_data_t \<Rightarrow> (bson_t option \<times> bool \<times> bson_reader_data_t) result" where
  "bson_reader_read r = bson_reader_data_read r"

section \<open>Reading\<close>

definition reader_ok :: "bson_reader_data_t \<Rightarrow> bool" where
  "reader_ok r \<longleftrightarrow> r_length r \<le> length (r_data r) \<and> r_length r \<le> INT32_MAX \<and> r_offset r \<le> r_length r"

text \<open>What is left to read is exactly the encodings of \<open>ds\<close>.\<close>

definition reader_holds :: "bson_reader_data_t \<Rightarrow> bdoc list \<Rightarrow> bool" where
  "reader_holds r ds \<longleftrightarrow> reader_ok r \<and> (\<forall>es \<in> set ds. wf_doc es)
     \<and> take (r_length r - r_offset r) (drop (r_offset r) (r_data r)) = concat (map encode_doc ds)"

lemma bson_init_static_total: "5 \<le> len \<Longrightarrow> len \<le> length data \<Longrightarrow> \<exists>b. bson_init_static data len = Ok b"
  by (simp add: bson_init_static_def rd32_ok rd8_ok)

lemma reader_holds_new:
  assumes "\<forall>es \<in> set ds. wf_doc es" "length (concat (map encode_doc ds)) \<le> INT32_MAX"
  shows "reader_holds \<lparr>r_data = concat (map encode_doc ds) @ t,
     r_length = length (concat (map encode_doc ds)), r_offset = 0\<rparr> ds"
  using assms by (simp add: reader_holds_def reader_ok_def)

lemma reader_read_nil:
  assumes "reader_holds r []"
  shows "bson_reader_read r = Ok (None, True, r)"
proof -
  have "r_offset r = r_length r"
    using assms by (auto simp: reader_holds_def reader_ok_def)
  then show ?thesis by (simp add: bson_reader_read_def bson_reader_data_read_def)
qed

lemma reader_read_cons:
  assumes "reader_holds r (es # ds)"
  shows "\<exists>b r'. bson_reader_read r = Ok (Some b, False, r') \<and> holds_doc b es \<and> reader_holds r' ds"
proof -
  let ?n = "length (encode_doc es)" and ?D = "drop (r_offset r) (r_data r)"
  define rest where "rest = concat (map encode_doc ds)"
  have ok: "reader_ok r" and wf: "wf_doc es" "\<forall>es \<in> set ds. wf_doc es"
    and d: "take (r_length r - r_offset r) ?D = encode_doc es @ rest"
    using assms by (auto simp: reader_holds_def rest_def)
  have len: "r_length r - r_offset r = ?n + length rest"
    using arg_cong [OF d, of length] ok by (auto simp: reader_ok_def min_def split: if_splits)
  then have "r_offset r + 4 < r_length r" by simp
  obtain t where t: "?D = encode_doc es @ rest @ t" using d by (metis append.assoc append_take_drop_id)
  have n: "?n \<le> INT32_MAX" using wf by (simp add: wf_doc_def)
  then have e: "rd32 ?D 0 = Ok ?n" "rd8 ?D (?n - 1) = Ok 0"
    by (simp_all add: t rd32_def rdn_def rd8_def encode_doc_def frame_def le_nat_le_bytes nth_append)
  then have init: "bson_init_static ?D ?n = Ok (Some \<lparr>b_flags = {BSON_FLAG_STATIC, BSON_FLAG_RDONLY}, b_len = ?n,
      b_buf = take ?n ?D, b_offset = 0, b_depth = 0, b_realloc = False\<rparr>)" (is "_ = Ok (Some ?b)")
    using n by (simp add: bson_init_static_def del: length_encode_doc) (simp)
  have "as_int32 ?n = int ?n" "as_int32 (r_length r - r_offset r) = int (?n + length rest)"
    using n len ok as_int32_nonneg [of ?n] as_int32_nonneg [of "?n + length rest"]
    by (auto simp: reader_ok_def simp del: length_encode_doc)
  with init e(1) \<open>r_offset r + 4 < r_length r\<close>
  have "bson_reader_read r = Ok (Some ?b, False, r\<lparr>r_offset := r_offset r + ?n\<rparr>)"
    by (simp add: bson_reader_read_def bson_reader_data_read_def Let_def del: length_encode_doc)
      (simp)
  moreover have "holds_doc ?b es"
    using wf(1) t by (simp add: holds_doc_def points_to_def bson_data_def)
  moreover have "reader_holds (r\<lparr>r_offset := r_offset r + ?n\<rparr>) ds"
  proof -
    have "drop (r_offset r + ?n) (r_data r) = rest @ t"
      using t by (metis add.commute append_eq_conv_conj drop_drop)
    moreover have "r_length r - (r_offset r + ?n) = length rest" using len by simp
    ultimately show ?thesis
      using ok wf(2) len by (simp add: reader_holds_def reader_ok_def rest_def)
  qed
  ultimately show ?thesis by blast
qed

text \<open>Whatever the memory holds, reading stays inside it and moves forward.\<close>

lemma reader_read_safe:
  assumes "reader_ok r"
  shows "\<exists>b eof r'. bson_reader_read r = Ok (b, eof, r') \<and> reader_ok r' \<and> r_data r' = r_data r
     \<and> r_length r' = r_length r
     \<and> (case b of None \<Rightarrow> r' = r | Some doc \<Rightarrow> bson_ok doc \<and> r_offset r + 5 \<le> r_offset r')"
proof (cases "r_offset r + 4 < r_length r")
  case True
  let ?D = "drop (r_offset r) (r_data r)"
  have l: "4 \<le> length ?D" using True assms by (auto simp: reader_ok_def)
  obtain n where n: "rd32 ?D 0 = Ok n" using l by (simp add: rd32_def rdn_def)
  consider (short) "as_int32 n < 5 \<or> as_int32 n > as_int32 (r_length r - r_offset r)"
    | (fits) "5 \<le> as_int32 n" "as_int32 n \<le> as_int32 (r_length r - r_offset r)" by linarith
  then show ?thesis
  proof cases
    case short
    then show ?thesis using True n assms by (auto simp: bson_reader_read_def bson_reader_data_read_def Let_def)
  next
    case fits
    have "as_int32 (r_length r - r_offset r) = int (r_length r - r_offset r)"
      using assms by (intro as_int32_nonneg) (auto simp: reader_ok_def)
    then have k: "5 \<le> nat (as_int32 n)" "nat (as_int32 n) \<le> r_length r - r_offset r"
      using fits by simp_all
    then have "nat (as_int32 n) \<le> length ?D" using assms by (auto simp: reader_ok_def)
    then obtain b where b: "bson_init_static ?D (nat (as_int32 n)) = Ok b"
      using k bson_init_static_total [of "nat (as_int32 n)" ?D] by blast
    have "bson_ok doc" if "b = Some doc" for doc
      using bson_init_static_some [of ?D "nat (as_int32 n)" doc] b that by (simp add: bson_ok_def)
    then show ?thesis
      using True n fits b k assms
      by (cases b) (auto simp: bson_reader_read_def bson_reader_data_read_def Let_def reader_ok_def)
  qed
next
  case False
  then show ?thesis using assms by (simp add: bson_reader_read_def bson_reader_data_read_def)
qed

end
