(* ===== verification/Mongoc_Cursor.thy ===== *)
theory Mongoc_Cursor
  imports Bson_Copy Bson_Reader
begin

text \<open>
  The cursor of \<open>mongoc-cursor.c\<close>: a state machine that sends the query on the first call of
  \<open>mongoc_cursor_next\<close>, reads documents out of the replies and asks for more until the server is
  done or the limit is reached.

  The connection is a parameter: a \<open>driver\<close> gives the functions of \<open>mongoc-client.c\<close> that the
  cursor calls, on a state of any type, and a reply is what \<open>_mongoc_client_recv\<close> leaves in
  \<open>cursor->rpc\<close>, in the byte order of the host. A failed receive leaves \<open>cursor->rpc\<close> as it was. Of an
  error the domain and code are modelled, not the message. Cursors with an interface table of their
  own (\<open>cursor->iface\<close>) are not modelled.
\<close>

definition ascii :: "string \<Rightarrow> bytes" where
  "ascii s = map of_char s @ [0]"

section \<open>State\<close>

type_synonym bson_error_t = "nat \<times> nat"

abbreviation (input) MONGOC_ERROR_CLIENT :: nat where "MONGOC_ERROR_CLIENT \<equiv> 1"
abbreviation (input) MONGOC_ERROR_PROTOCOL :: nat where "MONGOC_ERROR_PROTOCOL \<equiv> 3"
abbreviation (input) MONGOC_ERROR_CURSOR :: nat where "MONGOC_ERROR_CURSOR \<equiv> 4"
abbreviation (input) MONGOC_ERROR_QUERY :: nat where "MONGOC_ERROR_QUERY \<equiv> 5"
abbreviation (input) MONGOC_ERROR_BSON :: nat where "MONGOC_ERROR_BSON \<equiv> 8"
abbreviation (input) MONGOC_ERROR_CLIENT_IN_EXHAUST :: nat where "MONGOC_ERROR_CLIENT_IN_EXHAUST \<equiv> 13"
abbreviation (input) MONGOC_ERROR_PROTOCOL_INVALID_REPLY :: nat where "MONGOC_ERROR_PROTOCOL_INVALID_REPLY \<equiv> 14"
abbreviation (input) MONGOC_ERROR_CURSOR_INVALID_CURSOR :: nat where "MONGOC_ERROR_CURSOR_INVALID_CURSOR \<equiv> 16"
abbreviation (input) MONGOC_ERROR_QUERY_FAILURE :: nat where "MONGOC_ERROR_QUERY_FAILURE \<equiv> 17"
abbreviation (input) MONGOC_ERROR_PROTOCOL_ERROR :: nat where "MONGOC_ERROR_PROTOCOL_ERROR \<equiv> 17"
abbreviation (input) MONGOC_ERROR_BSON_INVALID :: nat where "MONGOC_ERROR_BSON_INVALID \<equiv> 18"
abbreviation (input) MONGOC_ERROR_QUERY_COMMAND_NOT_FOUND :: nat where "MONGOC_ERROR_QUERY_COMMAND_NOT_FOUND \<equiv> 59"
abbreviation (input) MONGOC_ERROR_QUERY_NOT_TAILABLE :: nat where "MONGOC_ERROR_QUERY_NOT_TAILABLE \<equiv> 13051"

abbreviation (input) MONGOC_OPCODE_REPLY :: nat where "MONGOC_OPCODE_REPLY \<equiv> 1"

abbreviation (input) MONGOC_QUERY_NONE :: "32 word" where "MONGOC_QUERY_NONE \<equiv> 0"
abbreviation (input) MONGOC_QUERY_TAILABLE_CURSOR :: nat where "MONGOC_QUERY_TAILABLE_CURSOR \<equiv> 1"
abbreviation (input) MONGOC_QUERY_SLAVE_OK :: nat where "MONGOC_QUERY_SLAVE_OK \<equiv> 2"
abbreviation (input) MONGOC_QUERY_EXHAUST :: nat where "MONGOC_QUERY_EXHAUST \<equiv> 6"
abbreviation (input) MONGOC_REPLY_CURSOR_NOT_FOUND :: nat where "MONGOC_REPLY_CURSOR_NOT_FOUND \<equiv> 0"
abbreviation (input) MONGOC_REPLY_QUERY_FAILURE :: nat where "MONGOC_REPLY_QUERY_FAILURE \<equiv> 1"

text \<open>A flag is given by the number of its bit.\<close>

definition has_flag :: "32 word \<Rightarrow> nat \<Rightarrow> bool" where
  "has_flag flags n = bit flags n"

record mongoc_read_prefs_t =
  pf_mode :: nat
  pf_tags :: bson_t

abbreviation (input) MONGOC_READ_PRIMARY :: nat where "MONGOC_READ_PRIMARY \<equiv> 1"
abbreviation (input) MONGOC_READ_SECONDARY :: nat where "MONGOC_READ_SECONDARY \<equiv> 2"
abbreviation (input) MONGOC_READ_PRIMARY_PREFERRED :: nat where "MONGOC_READ_PRIMARY_PREFERRED \<equiv> 5"
abbreviation (input) MONGOC_READ_SECONDARY_PREFERRED :: nat where "MONGOC_READ_SECONDARY_PREFERRED \<equiv> 6"
abbreviation (input) MONGOC_READ_NEAREST :: nat where "MONGOC_READ_NEAREST \<equiv> 10"

record mongoc_rpc_reply_t =
  rp_opcode :: nat
  rp_request_id :: nat
  rp_response_to :: nat
  rp_flags :: "32 word"
  rp_cursor_id :: "64 word"
  rp_documents :: "view option"
  rp_documents_len :: nat

definition zero_reply :: mongoc_rpc_reply_t where
  "zero_reply = \<lparr>rp_opcode = 0, rp_request_id = 0, rp_response_to = 0, rp_flags = 0, rp_cursor_id = 0,
     rp_documents = None, rp_documents_len = 0\<rparr>"

text \<open>The messages the cursor sends.\<close>

datatype request =
    Query "32 word" bytes nat int view "view option"
  | Get_More bytes int "64 word"
  | Kill_Cursors "64 word"

record 'n driver =
  d_warm_up :: "'n \<Rightarrow> bson_error_t option \<times> 'n"
  d_sendv :: "'n \<Rightarrow> request \<Rightarrow> nat \<Rightarrow> (bson_error_t + nat \<times> nat) \<times> 'n"
  d_recv :: "'n \<Rightarrow> nat \<Rightarrow> (bson_error_t + mongoc_rpc_reply_t) \<times> 'n"
  d_disconnect_node :: "'n \<Rightarrow> nat \<Rightarrow> 'n"
  d_preselect :: "'n \<Rightarrow> mongoc_read_prefs_t option \<Rightarrow> nat \<times> 'n"
  d_max_wire_version :: "'n \<Rightarrow> nat \<Rightarrow> nat"

record 'n mongoc_client_t =
  cl_in_exhaust :: bool
  cl_sharded_cluster :: bool
  cl_read_prefs :: "mongoc_read_prefs_t option"
  cl_net :: 'n

record mongoc_cursor_t =
  c_hint :: nat
  c_is_command :: bool
  c_sent :: bool
  c_done :: bool
  c_failed :: bool
  c_end_of_event :: bool
  c_in_exhaust :: bool
  c_redir_primary :: bool
  c_has_fields :: bool
  c_query :: bson_t
  c_fields :: bson_t
  c_read_prefs :: "mongoc_read_prefs_t option"
  c_flags :: "32 word"
  c_skip :: nat
  c_limit :: nat
  c_count :: nat
  c_batch_size :: nat
  c_ns :: bytes
  c_error :: bson_error_t
  c_rpc :: mongoc_rpc_reply_t
  c_reader :: "bson_reader_data_t option"
  c_current :: "bson_t option"

type_synonym 'n state = "mongoc_cursor_t \<times> 'n mongoc_client_t"

definition set_error :: "nat \<Rightarrow> nat \<Rightarrow> mongoc_cursor_t \<Rightarrow> mongoc_cursor_t" where
  "set_error domain code c = c\<lparr>c_error := (domain, code)\<rparr>"

section \<open>Creation\<close>

definition gSecondaryOkCommands :: "bytes list" where
  "gSecondaryOkCommands = map ascii
     [''aggregate'', ''authenticate'', ''collstats'', ''count'', ''dbstats'', ''distinct'',
      ''geonear'', ''geosearch'', ''geowalk'', ''getnonce'', ''group'', ''ismaster'', ''mapreduce'',
      ''parallelcollectionscan'', ''ping'', ''replsetgetstatus'', ''text'']"

definition mongoc_read_prefs_new :: "nat \<Rightarrow> mongoc_read_prefs_t" where
  "mongoc_read_prefs_new mode = \<lparr>pf_mode = mode, pf_tags = bson_init\<rparr>"

definition mongoc_read_prefs_copy :: "mongoc_read_prefs_t \<Rightarrow> mongoc_read_prefs_t result" where
  "mongoc_read_prefs_copy p =
     rbind (bson_copy_to (pf_tags p)) (\<lambda>t. Ok \<lparr>pf_mode = pf_mode p, pf_tags = t\<rparr>)"

definition mongoc_cursor_get_read_mode_string :: "nat \<Rightarrow> bytes" where
  "mongoc_cursor_get_read_mode_string mode =
     ascii (if mode = MONGOC_READ_PRIMARY then ''primary''
            else if mode = MONGOC_READ_PRIMARY_PREFERRED then ''primaryPreferred''
            else if mode = MONGOC_READ_SECONDARY then ''secondary''
            else if mode = MONGOC_READ_SECONDARY_PREFERRED then ''secondaryPreferred''
            else if mode = MONGOC_READ_NEAREST then ''nearest'' else '''')"

fun known_command :: "bytes list \<Rightarrow> view \<Rightarrow> bool result" where
  "known_command [] key = Ok False"
| "known_command (c # cs) key =
     rbind (c_strcasecmp_eq key c) (\<lambda>eq. if eq then Ok True else known_command cs key)"

text \<open>
  Whether a command that may not run on a secondary would be sent to one; then the read preferences
  are replaced.
\<close>

definition reroute_command ::
    "bool \<Rightarrow> bson_t \<Rightarrow> mongoc_read_prefs_t option \<Rightarrow> (bool \<times> mongoc_read_prefs_t option) result" where
  "reroute_command is_command query prefs =
     (case prefs of
        None \<Rightarrow> Ok (False, prefs)
      | Some p \<Rightarrow>
          if \<not> is_command \<or> pf_mode p = MONGOC_READ_PRIMARY then Ok (False, prefs)
          else case bson_iter_init query of
              (False, _) \<Rightarrow> Ok (False, prefs)
            | (True, it) \<Rightarrow> rbind (bson_iter_next it) (\<lambda>(more, it).
                if \<not> more then Ok (False, prefs)
                else rbind (bson_iter_key it) (\<lambda>key. rbind (known_command gSecondaryOkCommands key) (\<lambda>found.
                  if found then Ok (False, prefs)
                  else Ok (True, Some (mongoc_read_prefs_new MONGOC_READ_PRIMARY))))))"

definition mark_failed :: "mongoc_cursor_t \<Rightarrow> mongoc_cursor_t" where
  "mark_failed c = c\<lparr>c_query := bson_init, c_fields := bson_init, c_failed := True, c_done := True,
     c_end_of_event := True, c_sent := True\<rparr>"

text \<open>An option of the query that is there with a type other than the allowed ones.\<close>

definition bad_option :: "bson_t \<Rightarrow> bytes \<Rightarrow> bool result" where
  "bad_option query key =
     rbind (bson_iter_init_find query key) (\<lambda>(found, it).
       if \<not> found then Ok False
       else rbind (iter_holds it BSON_TYPE_BOOL) (\<lambda>b. rbind (iter_holds it BSON_TYPE_INT32) (\<lambda>i.
         Ok (\<not> b \<and> \<not> i))))"

text \<open>The loop over the top-level keys; its fuel is the length of the document.\<close>

fun dollar_scan :: "nat \<Rightarrow> bson_iter_t \<Rightarrow> bool \<Rightarrow> bool \<Rightarrow> (bool \<times> bool) result" where
  "dollar_scan 0 it found_dollar found_non_dollar = Fault No_Termination"
| "dollar_scan (Suc fuel) it found_dollar found_non_dollar =
     rbind (bson_iter_next it) (\<lambda>(more, it).
       if \<not> more then Ok (found_dollar, found_non_dollar)
       else rbind (bson_iter_key it) (\<lambda>key. rbind (rd8 key 0) (\<lambda>ch.
         if ch = 0x24 then dollar_scan fuel it True found_non_dollar
         else dollar_scan fuel it found_dollar True)))"

definition mixes_dollar_keys :: "bson_t \<Rightarrow> bool result" where
  "mixes_dollar_keys query =
     (case bson_iter_init query of
        (False, _) \<Rightarrow> Ok False
      | (True, it) \<Rightarrow> rbind (dollar_scan (Suc (b_len query)) it False False) (\<lambda>(d, n). Ok (d \<and> n)))"

definition wrap_query :: "bool \<Rightarrow> bson_t \<Rightarrow> bson_t result" where
  "wrap_query is_command query =
     rbind (if is_command then Ok True else bson_has_field query (ascii ''$query'')) (\<lambda>plain.
       if plain then bson_copy_to query
       else rbind (bson_append_document bson_init (Some (ascii ''$query'')) 6 query) (\<lambda>(_, b). Ok b))"

text \<open>
  The read preference that goes into the query. \<open>mongoc_read_prefs_get_tags\<close> never returns NULL. A
  failed \<open>begin\<close> would leave \<open>child\<close> uninitialised, which the code does not test.
\<close>

definition add_read_preference :: "mongoc_read_prefs_t option \<Rightarrow> bson_t \<Rightarrow> bson_t result" where
  "add_read_preference prefs query =
     (case prefs of
        None \<Rightarrow> Ok query
      | Some p \<Rightarrow>
          if pf_mode p = MONGOC_READ_PRIMARY then Ok query
          else rbind (bson_append_document_begin query (Some (ascii ''$readPreference'')) 15) (\<lambda>(_, query, child).
            case child of
              None \<Rightarrow> Fault Dangling_Pointer
            | Some child \<Rightarrow>
                rbind (bson_append_utf8 child (Some (ascii ''mode'')) 4
                         (Some (mongoc_cursor_get_read_mode_string (pf_mode p))) (-1)) (\<lambda>(_, child).
                rbind (bson_append_array child (Some (ascii ''tags'')) 4 (pf_tags p)) (\<lambda>(_, child).
                rbind (bson_append_document_end query child) (\<lambda>(_, query). Ok query)))))"

text \<open>\<open>strncpy\<close> into \<open>ns[140]\<close>, up to the NUL that is put into its last byte.\<close>

definition copy_ns :: "view \<Rightarrow> bytes result" where
  "copy_ns s = rbind (c_string s) (\<lambda>t. Ok (take 139 t))"

definition mongoc_cursor_new ::
    "'n mongoc_client_t \<Rightarrow> view \<Rightarrow> 32 word \<Rightarrow> nat \<Rightarrow> nat \<Rightarrow> nat \<Rightarrow> bool \<Rightarrow> bson_t \<Rightarrow> bson_t option
      \<Rightarrow> mongoc_read_prefs_t option \<Rightarrow> mongoc_cursor_t result" where
  "mongoc_cursor_new client db_and_collection flags skip limit batch_size is_command query flds prefs =
     (let prefs = (if prefs = None then cl_read_prefs client else prefs);
          flags = (if is_command \<and> prefs \<noteq> None \<and> pf_mode (the prefs) \<noteq> MONGOC_READ_PRIMARY
                   then set_bit MONGOC_QUERY_SLAVE_OK flags else flags) in
      rbind (reroute_command is_command query prefs) (\<lambda>(redir, prefs).
      rbind (copy_ns db_and_collection) (\<lambda>ns.
      let c = \<lparr>c_hint = 0, c_is_command = is_command, c_sent = False, c_done = False, c_failed = False,
               c_end_of_event = False, c_in_exhaust = False, c_redir_primary = redir,
               c_has_fields = (flds \<noteq> None), c_query = bson_init, c_fields = bson_init,
               c_read_prefs = None, c_flags = flags, c_skip = skip, c_limit = limit, c_count = 0,
               c_batch_size = batch_size, c_ns = ns, c_error = (0, 0), c_rpc = zero_reply,
               c_reader = None, c_current = None\<rparr>;
          invalid = Ok (mark_failed (set_error MONGOC_ERROR_CURSOR MONGOC_ERROR_CURSOR_INVALID_CURSOR c))
      in if has_flag flags MONGOC_QUERY_EXHAUST \<and> limit \<noteq> 0 then invalid
         else if has_flag flags MONGOC_QUERY_EXHAUST \<and> cl_sharded_cluster client then invalid
         else rbind (if is_command then Ok False
                     else rbind (bad_option query (ascii ''$explain'')) (\<lambda>e.
                       if e then Ok True else bad_option query (ascii ''$snapshot''))) (\<lambda>bad.
           if bad then invalid
           else rbind (mixes_dollar_keys query) (\<lambda>mixed.
             if mixed then invalid
             else rbind (wrap_query is_command query) (\<lambda>q.
               rbind (case prefs of None \<Rightarrow> Ok None
                      | Some p \<Rightarrow> rbind (mongoc_read_prefs_copy p) (\<lambda>p. Ok (Some p))) (\<lambda>prefs'.
               rbind (add_read_preference prefs q) (\<lambda>q.
               rbind (case flds of None \<Rightarrow> Ok bson_init | Some f \<Rightarrow> bson_copy_to f) (\<lambda>f.
                 Ok (c\<lparr>c_query := q, c_read_prefs := prefs', c_fields := f\<rparr>))))))))))"

section \<open>Requests\<close>

definition mongoc_n_return :: "mongoc_cursor_t \<Rightarrow> int" where
  "mongoc_n_return c =
     (if c_is_command c then 1
      else if c_limit c \<noteq> 0
      then min (as_int32 (c_batch_size c)) (as_int32 (sub32 (c_limit c) (c_count c)))
      else as_int32 (c_batch_size c))"

text \<open>\<open>_mongoc_rpc_reply_get_first\<close>.\<close>

definition mongoc_rpc_reply_get_first :: "mongoc_rpc_reply_t \<Rightarrow> bson_t option result" where
  "mongoc_rpc_reply_get_first reply =
     (case rp_documents reply of
        None \<Rightarrow> Ok None
      | Some docs \<Rightarrow>
          if rp_documents_len reply < 4 then Ok None
          else rbind (rd32 docs 0) (\<lambda>n.
            let len = as_int32 n in
            if int (rp_documents_len reply) < len \<or> len < 0 then Ok None
            else bson_init_static docs (nat len)))"

text \<open>The domain is always that of a failed query.\<close>

definition mongoc_cursor_populate_error :: "bson_t \<Rightarrow> mongoc_cursor_t \<Rightarrow> mongoc_cursor_t result" where
  "mongoc_cursor_populate_error doc c =
     rbind (bson_iter_init_find doc (ascii ''code'')) (\<lambda>(found, it).
     rbind (if found then iter_holds it BSON_TYPE_INT32 else Ok False) (\<lambda>h.
     rbind (if h then rbind (bson_iter_int32 it) (\<lambda>w. Ok (unat w)) else Ok MONGOC_ERROR_QUERY_FAILURE) (\<lambda>code.
       Ok (set_error MONGOC_ERROR_QUERY code c))))"

text \<open>Whether the reply reports a failure; the error is then in the cursor.\<close>

definition mongoc_cursor_unwrap_failure :: "mongoc_cursor_t \<Rightarrow> (bool \<times> mongoc_cursor_t) result" where
  "mongoc_cursor_unwrap_failure c =
     (let reply = c_rpc c;
          rest = (if has_flag (rp_flags reply) MONGOC_REPLY_CURSOR_NOT_FOUND
                  then Ok (True, set_error MONGOC_ERROR_CURSOR MONGOC_ERROR_CURSOR_INVALID_CURSOR c)
                  else Ok (False, c))
      in if rp_opcode reply \<noteq> MONGOC_OPCODE_REPLY
         then Ok (True, set_error MONGOC_ERROR_PROTOCOL MONGOC_ERROR_PROTOCOL_INVALID_REPLY c)
         else if has_flag (rp_flags reply) MONGOC_REPLY_QUERY_FAILURE then
           rbind (mongoc_rpc_reply_get_first reply) (\<lambda>first. case first of
               Some b \<Rightarrow> rbind (mongoc_cursor_populate_error b c) (\<lambda>c. Ok (True, c))
             | None \<Rightarrow> Ok (True, set_error MONGOC_ERROR_QUERY MONGOC_ERROR_QUERY_FAILURE c))
         else if c_is_command c then
           rbind (mongoc_rpc_reply_get_first reply) (\<lambda>first. case first of
               Some b \<Rightarrow> rbind (bson_iter_init_find b (ascii ''ok'')) (\<lambda>(found, it).
                 if found then rbind (bson_iter_as_bool it) (\<lambda>ok.
                   if ok then Ok (False, c)
                   else rbind (mongoc_cursor_populate_error b c) (\<lambda>c. Ok (True, c)))
                 else rest)
             | None \<Rightarrow> Ok (True, set_error MONGOC_ERROR_BSON MONGOC_ERROR_BSON_INVALID c))
         else rest)"

definition fail_done :: "mongoc_cursor_t \<Rightarrow> mongoc_cursor_t" where
  "fail_done c = c\<lparr>c_failed := True, c_done := True\<rparr>"

text \<open>
  The part that query and get-more share: receive the reply to the request \<open>request_id\<close>, check it and
  set up the reader. The flag says whether all went well.
\<close>

definition receive_reply ::
    "'n driver \<Rightarrow> nat \<Rightarrow> 'n state \<Rightarrow> (bool \<times> 'n state) result" where
  "receive_reply d request_id s =
     (let (c, cl) = s; (r, net) = d_recv d (cl_net cl) (c_hint c); cl = cl\<lparr>cl_net := net\<rparr> in
      case r of
        Inl e \<Rightarrow> Ok (False, c\<lparr>c_error := e\<rparr>, cl)
      | Inr reply \<Rightarrow>
          let c = c\<lparr>c_rpc := reply\<rparr> in
          if rp_opcode reply \<noteq> MONGOC_OPCODE_REPLY
          then Ok (False, set_error MONGOC_ERROR_PROTOCOL MONGOC_ERROR_PROTOCOL_INVALID_REPLY c, cl)
          else if rp_response_to reply \<noteq> request_id
          then Ok (False, set_error MONGOC_ERROR_PROTOCOL MONGOC_ERROR_PROTOCOL_INVALID_REPLY c, cl)
          else rbind (mongoc_cursor_unwrap_failure c) (\<lambda>(failure, c).
            if failure then Ok (False, c, cl)
            else Ok (True, c\<lparr>c_reader := bson_reader_new_from_data (rp_documents reply) (rp_documents_len reply)\<rparr>, cl)))"

definition query_message :: "mongoc_cursor_t \<Rightarrow> request" where
  "query_message c =
     Query (c_flags c) (c_ns c) (c_skip c)
       (if has_flag (c_flags c) MONGOC_QUERY_TAILABLE_CURSOR then 0 else mongoc_n_return c)
       (bson_get_data (c_query c)) (if c_has_fields c then Some (bson_get_data (c_fields c)) else None)"

definition get_more_message :: "mongoc_cursor_t \<Rightarrow> request" where
  "get_more_message c =
     Get_More (c_ns c)
       (if has_flag (c_flags c) MONGOC_QUERY_TAILABLE_CURSOR then 0 else mongoc_n_return c)
       (rp_cursor_id (c_rpc c))"

definition mongoc_cursor_query :: "'n driver \<Rightarrow> 'n state \<Rightarrow> (bool \<times> 'n state) result" where
  "mongoc_cursor_query d s =
     (let (c, cl) = s; (w, net) = d_warm_up d (cl_net cl); cl = cl\<lparr>cl_net := net\<rparr> in
      case w of
        Some e \<Rightarrow> Ok (False, c\<lparr>c_failed := True, c_error := e\<rparr>, cl)
      | None \<Rightarrow>
          let (r, net) = d_sendv d (cl_net cl) (query_message c) (c_hint c);
              cl = cl\<lparr>cl_net := net\<rparr>
          in case r of
               Inl e \<Rightarrow> Ok (False, fail_done (c\<lparr>c_error := e\<rparr>), cl)
             | Inr (hint, request_id) \<Rightarrow>
                 rbind (receive_reply d request_id (c\<lparr>c_hint := hint\<rparr>, cl)) (\<lambda>(ok, c, cl).
                   if \<not> ok then Ok (False, fail_done c, cl)
                   else
                     let exhaust = has_flag (c_flags c) MONGOC_QUERY_EXHAUST in
                     Ok (True, c\<lparr>c_in_exhaust := (c_in_exhaust c \<or> exhaust), c_done := False,
                                 c_end_of_event := False, c_sent := True\<rparr>,
                         cl\<lparr>cl_in_exhaust := (cl_in_exhaust cl \<or> exhaust)\<rparr>)))"

text \<open>In exhaust mode the next reply answers the previous one and nothing is sent.\<close>

definition mongoc_cursor_get_more :: "'n driver \<Rightarrow> 'n state \<Rightarrow> (bool \<times> 'n state) result" where
  "mongoc_cursor_get_more d s =
     (let (c, cl) = s;
          finish = (\<lambda>request_id c cl.
            rbind (receive_reply d request_id (c, cl)) (\<lambda>(ok, c, cl).
              if ok then Ok (True, c\<lparr>c_end_of_event := False\<rparr>, cl) else Ok (False, fail_done c, cl)))
      in if c_in_exhaust c then finish (rp_request_id (c_rpc c)) c cl
         else
           let (w, net) = d_warm_up d (cl_net cl); cl = cl\<lparr>cl_net := net\<rparr> in
           case w of
             Some e \<Rightarrow> Ok (False, c\<lparr>c_failed := True, c_error := e\<rparr>, cl)
           | None \<Rightarrow>
               if rp_cursor_id (c_rpc c) = 0
               then Ok (False, fail_done (set_error MONGOC_ERROR_CURSOR MONGOC_ERROR_CURSOR_INVALID_CURSOR c), cl)
               else
                 let (r, net) = d_sendv d (cl_net cl) (get_more_message c) (c_hint c);
                     cl = cl\<lparr>cl_net := net\<rparr>
                 in case r of
                      Inl e \<Rightarrow> Ok (False, fail_done (c\<lparr>c_error := e\<rparr>), cl)
                    | Inr (hint, request_id) \<Rightarrow> finish request_id c cl)"

section \<open>The interface\<close>

definition reader_read :: "mongoc_cursor_t \<Rightarrow> (bson_t option \<times> bool \<times> mongoc_cursor_t) result" where
  "reader_read c =
     (case c_reader c of
        None \<Rightarrow> Ok (None, False, c\<lparr>c_end_of_event := False\<rparr>)
      | Some r \<Rightarrow> rbind (bson_reader_read r) (\<lambda>(b, eof, r).
          Ok (b, eof, c\<lparr>c_reader := Some r, c_end_of_event := eof\<rparr>)))"

text \<open>The label \<open>complete\<close>.\<close>

definition next_complete ::
    "bson_t option \<Rightarrow> bool \<Rightarrow> 'n state \<Rightarrow> (bson_t option \<times> 'n state) result" where
  "next_complete b eof s =
     (let (c, cl) = s;
          c = c\<lparr>c_done := c_end_of_event c
                 \<and> (c_in_exhaust c \<and> rp_cursor_id (c_rpc c) = 0
                    \<or> b = None \<and> \<not> has_flag (c_flags c) MONGOC_QUERY_TAILABLE_CURSOR)\<rparr>
      in if b = None \<and> \<not> eof
         then Ok (None, set_error MONGOC_ERROR_CURSOR MONGOC_ERROR_PROTOCOL_INVALID_REPLY (c\<lparr>c_failed := True\<rparr>), cl)
         else Ok (b, c, cl))"

definition mongoc_cursor_next_base :: "'n driver \<Rightarrow> 'n state \<Rightarrow> (bson_t option \<times> 'n state) result" where
  "mongoc_cursor_next_base d s =
     (let (c, cl) = s in
      if c_done c \<or> c_failed c
      then Ok (None, set_error MONGOC_ERROR_CURSOR MONGOC_ERROR_CURSOR_INVALID_CURSOR c, cl)
      else if cl_in_exhaust cl \<and> \<not> c_in_exhaust c
      then Ok (None, set_error MONGOC_ERROR_CLIENT MONGOC_ERROR_CLIENT_IN_EXHAUST c\<lparr>c_failed := True\<rparr>, cl)
      else if c_limit c \<noteq> 0 \<and> c_limit c \<le> c_count c then Ok (None, c\<lparr>c_done := True\<rparr>, cl)
      else rbind (if c_reader c = None then Ok (None, False, c) else reader_read c) (\<lambda>(b, eof, c).
        if b \<noteq> None then next_complete b eof (c, cl)
        else rbind (if \<not> c_sent c then mongoc_cursor_query d (c, cl)
                    else if c_end_of_event c \<and> rp_cursor_id (c_rpc c) \<noteq> 0
                    then mongoc_cursor_get_more d (c, cl)
                    else Ok (True, c, cl)) (\<lambda>(ok, c, cl).
          if \<not> ok then Ok (None, c, cl)
          else rbind (reader_read c) (\<lambda>(b, eof, c). next_complete b eof (c, cl)))))"

definition mongoc_cursor_next :: "'n driver \<Rightarrow> 'n state \<Rightarrow> (bson_t option \<times> 'n state) result" where
  "mongoc_cursor_next d s =
     (if c_failed (fst s) then Ok (None, s)
      else rbind (mongoc_cursor_next_base d s) (\<lambda>(b, c, cl).
        Ok (b, c\<lparr>c_current := b, c_count := w32 (c_count c + 1)\<rparr>, cl)))"

definition mongoc_cursor_error :: "mongoc_cursor_t \<Rightarrow> bson_error_t option" where
  "mongoc_cursor_error c =
     (if c_failed c then
        let (domain, code) = c_error c in
        if c_is_command c \<and> (code = MONGOC_ERROR_PROTOCOL_ERROR \<or> code = 13390)
        then Some (domain, MONGOC_ERROR_QUERY_COMMAND_NOT_FOUND)
        else Some (domain, code)
      else None)"

definition mongoc_cursor_more :: "mongoc_cursor_t \<Rightarrow> bool" where
  "mongoc_cursor_more c \<longleftrightarrow>
     \<not> c_failed c \<and> (\<not> c_sent c \<or> rp_cursor_id (c_rpc c) \<noteq> 0 \<or> \<not> c_end_of_event c)"

definition mongoc_cursor_is_alive :: "mongoc_cursor_t \<Rightarrow> bool" where
  "mongoc_cursor_is_alive c \<longleftrightarrow>
     \<not> c_sent c \<or> (\<not> c_failed c \<and> \<not> c_done c \<and> rp_opcode (c_rpc c) = MONGOC_OPCODE_REPLY
                    \<and> rp_cursor_id (c_rpc c) \<noteq> 0)"

definition mongoc_cursor_current :: "mongoc_cursor_t \<Rightarrow> bson_t option" where
  "mongoc_cursor_current c = c_current c"

definition mongoc_cursor_get_hint :: "mongoc_cursor_t \<Rightarrow> nat" where
  "mongoc_cursor_get_hint c = c_hint c"

text \<open>The kill message is sent to any node: its hint is 0.\<close>

definition mongoc_cursor_kill_cursor :: "'n driver \<Rightarrow> 'n mongoc_client_t \<Rightarrow> 64 word \<Rightarrow> 'n mongoc_client_t" where
  "mongoc_cursor_kill_cursor d cl cursor_id =
     (if cursor_id = 0 then cl else cl\<lparr>cl_net := snd (d_sendv d (cl_net cl) (Kill_Cursors cursor_id) 0)\<rparr>)"

text \<open>What is left of the client; the memory of the cursor is released.\<close>

definition mongoc_cursor_destroy :: "'n driver \<Rightarrow> 'n state \<Rightarrow> 'n mongoc_client_t" where
  "mongoc_cursor_destroy d s =
     (let (c, cl) = s in
      if c_in_exhaust c then
        let cl = cl\<lparr>cl_in_exhaust := False\<rparr> in
        if c_done c then cl else cl\<lparr>cl_net := d_disconnect_node d (cl_net cl) (c_hint c)\<rparr>
      else if rp_cursor_id (c_rpc c) \<noteq> 0 then mongoc_cursor_kill_cursor d cl (rp_cursor_id (c_rpc c))
      else cl)"

definition mongoc_cursor_clone :: "mongoc_cursor_t \<Rightarrow> mongoc_cursor_t result" where
  "mongoc_cursor_clone c =
     rbind (case c_read_prefs c of None \<Rightarrow> Ok None
            | Some p \<Rightarrow> rbind (mongoc_read_prefs_copy p) (\<lambda>p. Ok (Some p))) (\<lambda>prefs.
     rbind (bson_copy_to (c_query c)) (\<lambda>q. rbind (bson_copy_to (c_fields c)) (\<lambda>f.
       Ok \<lparr>c_hint = 0, c_is_command = c_is_command c, c_sent = False, c_done = False, c_failed = False,
           c_end_of_event = False, c_in_exhaust = False, c_redir_primary = False, c_has_fields = False,
           c_query = q, c_fields = f, c_read_prefs = prefs, c_flags = c_flags c, c_skip = c_skip c,
           c_limit = c_limit c, c_count = 0, c_batch_size = c_batch_size c, c_ns = c_ns c, c_error = (0, 0),
           c_rpc = zero_reply, c_reader = None, c_current = None\<rparr>)))"

section \<open>What a cursor delivers\<close>

text \<open>A reply without errors that carries the documents \<open>ds\<close>; \<open>mo\<close> says that the server has more.\<close>

definition good_reply :: "mongoc_rpc_reply_t \<Rightarrow> nat \<Rightarrow> bdoc list \<Rightarrow> bool \<Rightarrow> bool" where
  "good_reply r rid ds mo \<longleftrightarrow> rp_opcode r = MONGOC_OPCODE_REPLY \<and> rp_response_to r = rid
     \<and> \<not> has_flag (rp_flags r) MONGOC_REPLY_CURSOR_NOT_FOUND \<and> \<not> has_flag (rp_flags r) MONGOC_REPLY_QUERY_FAILURE
     \<and> (\<forall>es \<in> set ds. wf_doc es) \<and> points_to (rp_documents r) (concat (map encode_doc ds))
     \<and> rp_documents_len r = length (concat (map encode_doc ds)) \<and> rp_documents_len r \<le> INT32_MAX
     \<and> (rp_cursor_id r \<noteq> 0) = mo"

definition asks_more :: "64 word \<Rightarrow> request \<Rightarrow> bool" where
  "asks_more cursor_id msg \<longleftrightarrow> (\<exists>ns k. msg = Get_More ns k cursor_id)"

text \<open>
  The server answers the next request, if it is one that satisfies \<open>ask\<close>, with the first batch, and
  the requests for more with the other batches.
\<close>

fun serves :: "'n driver \<Rightarrow> (request \<Rightarrow> bool) \<Rightarrow> 'n \<Rightarrow> bdoc list list \<Rightarrow> bool" where
  "serves d ask n [] = True"
| "serves d ask n (ds # bs) \<longleftrightarrow>
     (\<exists>n1. d_warm_up d n = (None, n1)
       \<and> (\<forall>msg h. ask msg \<longrightarrow>
            (\<exists>h' rid n2. d_sendv d n1 msg h = (Inr (h', rid), n2)
              \<and> (\<forall>k. \<exists>r n3. d_recv d n2 k = (Inr r, n3) \<and> good_reply r rid ds (bs \<noteq> [])
                    \<and> serves d (asks_more (rp_cursor_id r)) n3 bs))))"

text \<open>An empty batch ends a cursor that is not tailable, even if the server has more.\<close>

fun delivered :: "bdoc list list \<Rightarrow> bdoc list" where
  "delivered [] = []"
| "delivered (ds # bs) = (if ds = [] then [] else ds @ delivered bs)"

definition plain_cursor :: "mongoc_cursor_t \<Rightarrow> bool" where
  "plain_cursor c \<longleftrightarrow> \<not> c_is_command c \<and> \<not> c_in_exhaust c \<and> \<not> c_failed c
     \<and> \<not> has_flag (c_flags c) MONGOC_QUERY_TAILABLE_CURSOR \<and> \<not> has_flag (c_flags c) MONGOC_QUERY_EXHAUST
     \<and> c_limit c < 4294967296"

definition fresh_at :: "'n driver \<Rightarrow> 'n state \<Rightarrow> bdoc list \<Rightarrow> bool" where
  "fresh_at d s ds \<longleftrightarrow> \<not> c_done (fst s) \<and> \<not> c_sent (fst s) \<and> c_reader (fst s) = None
     \<and> (\<exists>bs. bs \<noteq> [] \<and> serves d (\<lambda>m. m = query_message (fst s)) (cl_net (snd s)) bs \<and> ds = delivered bs)"

definition reading_at :: "'n driver \<Rightarrow> 'n state \<Rightarrow> bdoc list \<Rightarrow> bool" where
  "reading_at d s ds \<longleftrightarrow> \<not> c_done (fst s) \<and> c_sent (fst s)
     \<and> (\<exists>r rs bs. c_reader (fst s) = Some r \<and> reader_holds r rs
          \<and> (rp_cursor_id (c_rpc (fst s)) \<noteq> 0) = (bs \<noteq> [])
          \<and> serves d (asks_more (rp_cursor_id (c_rpc (fst s)))) (cl_net (snd s)) bs \<and> ds = rs @ delivered bs)"

definition later_at :: "'n driver \<Rightarrow> 'n state \<Rightarrow> bdoc list \<Rightarrow> bool" where
  "later_at d s ds \<longleftrightarrow> plain_cursor (fst s) \<and> \<not> cl_in_exhaust (snd s)
     \<and> (c_done (fst s) \<and> ds = [] \<or> reading_at d s ds)"

definition cursor_at :: "'n driver \<Rightarrow> 'n state \<Rightarrow> bdoc list \<Rightarrow> bool" where
  "cursor_at d s ds \<longleftrightarrow> later_at d s ds \<or> plain_cursor (fst s) \<and> \<not> cl_in_exhaust (snd s) \<and> fresh_at d s ds"

definition next_ok :: "'n driver \<Rightarrow> bdoc list \<Rightarrow> (bson_t option \<times> 'n state) result \<Rightarrow> mongoc_cursor_t \<Rightarrow> bool" where
  "next_ok d ds r c \<longleftrightarrow>
     (\<exists>b s'. r = Ok (b, s') \<and> c_count (fst s') = c_count c \<and> c_limit (fst s') = c_limit c
        \<and> (case ds of [] \<Rightarrow> b = None \<and> later_at d s' []
           | es # ds' \<Rightarrow> (\<exists>doc. b = Some doc \<and> holds_doc doc es) \<and> later_at d s' ds'))"

lemma receive_reply_good:
  assumes "d_recv d (cl_net cl) (c_hint c) = (Inr r, n)" "good_reply r rid ds mo" "\<not> c_is_command c"
  shows "\<exists>rd. receive_reply d rid (c, cl)
      = Ok (True, c\<lparr>c_rpc := r, c_reader := Some rd\<rparr>, cl\<lparr>cl_net := n\<rparr>) \<and> reader_holds rd ds"
proof -
  obtain t where t: "rp_documents r = Some (concat (map encode_doc ds) @ t)"
    using assms(2) by (auto simp: good_reply_def points_to_def)
  define rd where "rd = \<lparr>r_data = concat (map encode_doc ds) @ t, r_length = rp_documents_len r, r_offset = 0\<rparr>"
  have "reader_holds rd ds"
    using reader_holds_new [of ds t] assms(2) by (simp add: good_reply_def rd_def)
  moreover have "receive_reply d rid (c, cl)
      = Ok (True, c\<lparr>c_rpc := r, c_reader := Some rd\<rparr>, cl\<lparr>cl_net := n\<rparr>)"
    using t assms by (simp add: receive_reply_def good_reply_def mongoc_cursor_unwrap_failure_def
        bson_reader_new_from_data_def Let_def rd_def)
  ultimately show ?thesis by blast
qed

text \<open>Reading the next document from a reader that has one, or that has none.\<close>

lemma next_complete_cons:
  assumes "plain_cursor c" "\<not> cl_in_exhaust cl" "c_sent c" "c_reader c = Some rd" "reader_holds rd (es # rs)"
    "(rp_cursor_id (c_rpc c) \<noteq> 0) = (bs \<noteq> [])" "serves d (asks_more (rp_cursor_id (c_rpc c))) (cl_net cl) bs"
  shows "\<exists>b c'. reader_read c = Ok (Some b, False, c')
     \<and> next_ok d (es # rs @ delivered bs) (next_complete (Some b) False (c', cl)) c"
proof -
  obtain b rd' where r: "bson_reader_read rd = Ok (Some b, False, rd')" "holds_doc b es" "reader_holds rd' rs"
    using reader_read_cons [OF assms(5)] by blast
  let ?c = "c\<lparr>c_reader := Some rd', c_end_of_event := False, c_done := False\<rparr>"
  have "reading_at d (?c, cl) (rs @ delivered bs)"
    using assms(3,6,7) r(3) by (auto simp: reading_at_def)
  then have "later_at d (?c, cl) (rs @ delivered bs)"
    using assms(1,2) by (simp add: later_at_def plain_cursor_def)
  then show ?thesis
    using assms(4) r by (auto simp: reader_read_def next_complete_def next_ok_def Let_def)
qed

lemma next_complete_nil:
  assumes "plain_cursor c" "\<not> cl_in_exhaust cl" "c_reader c = Some rd" "reader_holds rd []"
  shows "\<exists>c'. reader_read c = Ok (None, True, c') \<and> next_ok d [] (next_complete None True (c', cl)) c"
  using assms reader_read_nil [OF assms(4)]
  by (simp add: reader_read_def next_complete_def next_ok_def later_at_def plain_cursor_def Let_def)

text \<open>After a request has brought the batch \<open>ds\<close>.\<close>

lemma next_after_batch:
  assumes "plain_cursor c" "\<not> cl_in_exhaust cl" "c_sent c" "c_reader c = Some rd" "reader_holds rd ds"
    "(rp_cursor_id (c_rpc c) \<noteq> 0) = (bs \<noteq> [])" "serves d (asks_more (rp_cursor_id (c_rpc c))) (cl_net cl) bs"
  shows "next_ok d (delivered (ds # bs)) (rbind (reader_read c) (\<lambda>(b, eof, c). next_complete b eof (c, cl))) c"
proof (cases ds)
  case Nil
  then show ?thesis using next_complete_nil [OF assms(1,2,4)] assms(5) by fastforce
next
  case (Cons es rs)
  then show ?thesis using next_complete_cons [OF assms(1-4) _ assms(6,7)] assms(5) by fastforce
qed


lemma query_good:
  assumes "plain_cursor c" "\<not> cl_in_exhaust cl" "serves d (\<lambda>m. m = query_message c) (cl_net cl) (ds # bs)"
  shows "\<exists>c' cl' rd. mongoc_cursor_query d (c, cl) = Ok (True, c', cl') \<and> plain_cursor c' \<and> \<not> cl_in_exhaust cl'
     \<and> c_sent c' \<and> c_reader c' = Some rd \<and> reader_holds rd ds \<and> (rp_cursor_id (c_rpc c') \<noteq> 0) = (bs \<noteq> [])
     \<and> serves d (asks_more (rp_cursor_id (c_rpc c'))) (cl_net cl') bs \<and> c_count c' = c_count c \<and> c_limit c' = c_limit c"
proof -
  obtain n1 h' rid n2 where w: "d_warm_up d (cl_net cl) = (None, n1)"
    and sent: "d_sendv d n1 (query_message c) (c_hint c) = (Inr (h', rid), n2)"
    and recv: "\<forall>k. \<exists>r n3. d_recv d n2 k = (Inr r, n3) \<and> good_reply r rid ds (bs \<noteq> [])
       \<and> serves d (asks_more (rp_cursor_id r)) n3 bs"
    using assms(3) by (auto; blast)
  define cl2 where "cl2 = cl\<lparr>cl_net := n2\<rparr>"
  define c2 where "c2 = c\<lparr>c_hint := h'\<rparr>"
  obtain r n3 where r: "d_recv d (cl_net cl2) (c_hint c2) = (Inr r, n3)" "good_reply r rid ds (bs \<noteq> [])"
    "serves d (asks_more (rp_cursor_id r)) n3 bs"
    using recv unfolding cl2_def by simp blast
  obtain rd where rd: "receive_reply d rid (c2, cl2) = Ok (True, c2\<lparr>c_rpc := r, c_reader := Some rd\<rparr>, cl2\<lparr>cl_net := n3\<rparr>)"
    "reader_holds rd ds"
    using receive_reply_good [OF r(1,2)] assms(1) by (auto simp: c2_def plain_cursor_def)
  then show ?thesis
    using assms(1,2) w sent r by (simp add: mongoc_cursor_query_def c2_def cl2_def plain_cursor_def good_reply_def)
qed

lemma get_more_good:
  assumes "plain_cursor c" "\<not> cl_in_exhaust cl" "c_sent c"
    "rp_cursor_id (c_rpc c) \<noteq> 0" "serves d (asks_more (rp_cursor_id (c_rpc c))) (cl_net cl) (ds # bs)"
  shows "\<exists>c' cl' rd. mongoc_cursor_get_more d (c, cl) = Ok (True, c', cl') \<and> plain_cursor c' \<and> \<not> cl_in_exhaust cl'
     \<and> c_sent c' \<and> c_reader c' = Some rd \<and> reader_holds rd ds \<and> (rp_cursor_id (c_rpc c') \<noteq> 0) = (bs \<noteq> [])
     \<and> serves d (asks_more (rp_cursor_id (c_rpc c'))) (cl_net cl') bs \<and> c_count c' = c_count c \<and> c_limit c' = c_limit c"
proof -
  have "asks_more (rp_cursor_id (c_rpc c)) (get_more_message c)"
    by (simp add: asks_more_def get_more_message_def)
  then obtain n1 h' rid n2 where w: "d_warm_up d (cl_net cl) = (None, n1)"
    and sent: "d_sendv d n1 (get_more_message c) (c_hint c) = (Inr (h', rid), n2)"
    and recv: "\<forall>k. \<exists>r n3. d_recv d n2 k = (Inr r, n3) \<and> good_reply r rid ds (bs \<noteq> [])
       \<and> serves d (asks_more (rp_cursor_id r)) n3 bs"
    using assms(5) by (auto; blast)
  define cl2 where "cl2 = cl\<lparr>cl_net := n2\<rparr>"
  obtain r n3 where r: "d_recv d (cl_net cl2) (c_hint c) = (Inr r, n3)" "good_reply r rid ds (bs \<noteq> [])"
    "serves d (asks_more (rp_cursor_id r)) n3 bs"
    using recv unfolding cl2_def by simp blast
  obtain rd where rd: "receive_reply d rid (c, cl2) = Ok (True, c\<lparr>c_rpc := r, c_reader := Some rd\<rparr>, cl2\<lparr>cl_net := n3\<rparr>)"
    "reader_holds rd ds"
    using receive_reply_good [OF r(1,2)] assms(1) by (auto simp: plain_cursor_def)
  then show ?thesis
    using assms w sent r by (simp add: mongoc_cursor_get_more_def cl2_def plain_cursor_def good_reply_def Let_def)
qed

text \<open>The step of \<open>_mongoc_cursor_next\<close>, while the limit is not reached.\<close>

lemma next_base_done:
  assumes "c_done c" "plain_cursor c" "\<not> cl_in_exhaust cl"
  shows "next_ok d [] (mongoc_cursor_next_base d (c, cl)) c"
  using assms by (simp add: mongoc_cursor_next_base_def next_ok_def later_at_def plain_cursor_def set_error_def)

lemma next_base_fresh:
  assumes "fresh_at d (c, cl) ds" "plain_cursor c" "\<not> cl_in_exhaust cl" "c_limit c = 0 \<or> c_count c < c_limit c"
  shows "next_ok d ds (mongoc_cursor_next_base d (c, cl)) c"
proof -
  obtain b bs where s: "\<not> c_done c" "\<not> c_sent c" "c_reader c = None"
    "serves d (\<lambda>m. m = query_message c) (cl_net cl) (b # bs)" and ds: "ds = delivered (b # bs)"
    using assms(1) unfolding fresh_at_def fst_conv snd_conv by (metis neq_Nil_conv)
  obtain c' cl' rd where q: "mongoc_cursor_query d (c, cl) = Ok (True, c', cl')" "plain_cursor c'"
    "\<not> cl_in_exhaust cl'" "c_sent c'" "c_reader c' = Some rd" "reader_holds rd b"
    "(rp_cursor_id (c_rpc c') \<noteq> 0) = (bs \<noteq> [])" "serves d (asks_more (rp_cursor_id (c_rpc c'))) (cl_net cl') bs"
    and cc: "c_count c' = c_count c" "c_limit c' = c_limit c"
    using query_good [OF assms(2,3) s(4)] by metis
  have "mongoc_cursor_next_base d (c, cl) = rbind (reader_read c') (\<lambda>(b, eof, c). next_complete b eof (c, cl'))"
    using s(1-3) assms(2-4) q(1) by (auto simp: mongoc_cursor_next_base_def plain_cursor_def)
  then show ?thesis using next_after_batch [OF q(2-8)] ds cc by (simp add: next_ok_def)
qed

lemma next_base_reading:
  assumes "reading_at d (c, cl) ds" "plain_cursor c" "\<not> cl_in_exhaust cl" "c_limit c = 0 \<or> c_count c < c_limit c"
  shows "next_ok d ds (mongoc_cursor_next_base d (c, cl)) c"
proof -
  obtain rd rs bs where s: "\<not> c_done c" "c_sent c" "c_reader c = Some rd" "reader_holds rd rs"
    "(rp_cursor_id (c_rpc c) \<noteq> 0) = (bs \<noteq> [])" "serves d (asks_more (rp_cursor_id (c_rpc c))) (cl_net cl) bs"
    and ds: "ds = rs @ delivered bs"
    using assms(1) unfolding reading_at_def by auto
  have guards: "\<not> c_failed c" "\<not> (c_limit c \<noteq> 0 \<and> c_limit c \<le> c_count c)"
    using assms(2,4) by (auto simp: plain_cursor_def)
  show ?thesis
  proof (cases rs)
    case (Cons es rs')
    then have "reader_holds rd (es # rs')" using s(4) by simp
    from next_complete_cons [OF assms(2,3) s(2,3) this s(5,6)] obtain b c' where
      "reader_read c = Ok (Some b, False, c')" "next_ok d ds (next_complete (Some b) False (c', cl)) c"
      using ds Cons by auto
    then show ?thesis using guards assms(3) s(1,3) by (auto simp: mongoc_cursor_next_base_def)
  next
    case Nil
    define c1 where "c1 = c\<lparr>c_end_of_event := True\<rparr>"
    have r: "reader_read c = Ok (None, True, c1)"
      using reader_read_nil s(3,4) Nil by (simp add: reader_read_def c1_def)
    have c1: "plain_cursor c1" "c_sent c1" "c_reader c1 = Some rd" "c_end_of_event c1" "c_rpc c1 = c_rpc c"
      "c_count c1 = c_count c" "c_limit c1 = c_limit c"
      using assms(2) s(2,3) by (simp_all add: c1_def plain_cursor_def)
    show ?thesis
    proof (cases bs)
      case bs: Nil
      obtain c' where c': "reader_read c1 = Ok (None, True, c')" "next_ok d [] (next_complete None True (c', cl)) c1"
        using next_complete_nil [OF c1(1) assms(3) c1(3)] s(4) Nil by auto
      have "mongoc_cursor_next_base d (c, cl) = next_complete None True (c', cl)"
        using guards assms(3) s(1,3,5) r c' c1 bs by (auto simp: mongoc_cursor_next_base_def)
      then show ?thesis using c'(2) c1 ds Nil bs by (simp add: next_ok_def)
    next
      case bs: (Cons b bs')
      obtain c' cl' rd where q: "mongoc_cursor_get_more d (c1, cl) = Ok (True, c', cl')" "plain_cursor c'"
        "\<not> cl_in_exhaust cl'" "c_sent c'" "c_reader c' = Some rd" "reader_holds rd b"
        "(rp_cursor_id (c_rpc c') \<noteq> 0) = (bs' \<noteq> [])" "serves d (asks_more (rp_cursor_id (c_rpc c'))) (cl_net cl') bs'"
        and cc: "c_count c' = c_count c1" "c_limit c' = c_limit c1"
        using get_more_good [OF c1(1) assms(3) c1(2)] s(5,6) bs c1(5) by (metis list.distinct(1))
      have "mongoc_cursor_next_base d (c, cl) = rbind (reader_read c') (\<lambda>(b, eof, c). next_complete b eof (c, cl'))"
        using guards assms(3) s(1,3,5) r c1 bs q(1) by (auto simp: mongoc_cursor_next_base_def)
      then show ?thesis using next_after_batch [OF q(2-8)] ds cc c1 Nil bs by (simp add: next_ok_def)
    qed
  qed
qed

section \<open>The interface a client relies on\<close>

text \<open>
  What a program that reads documents from a cursor may rely on: as long as documents are left, each
  call returns the next one; after the last one every call returns none; no error is reported.
\<close>

locale document_cursor =
  fixes next_doc :: "'s \<Rightarrow> (bson_t option \<times> 's) result"
    and error :: "'s \<Rightarrow> bson_error_t option"
    and stream :: "'s \<Rightarrow> bdoc list \<Rightarrow> bool"
  assumes next_none: "stream s [] \<Longrightarrow> \<exists>s'. next_doc s = Ok (None, s') \<and> stream s' []"
    and next_some: "stream s (es # ds)
      \<Longrightarrow> \<exists>b s'. next_doc s = Ok (Some b, s') \<and> holds_doc b es \<and> stream s' ds"
    and no_error: "stream s ds \<Longrightarrow> error s = None"

text \<open>Reading at most \<open>n\<close> documents: \<open>while (n-- > 0 && mongoc_cursor_next (cursor, &doc))\<close>.\<close>

fun read_docs :: "('s \<Rightarrow> (bson_t option \<times> 's) result) \<Rightarrow> nat \<Rightarrow> 's \<Rightarrow> (bson_t list \<times> 's) result" where
  "read_docs next_doc 0 s = Ok ([], s)"
| "read_docs next_doc (Suc n) s =
     rbind (next_doc s) (\<lambda>(b, s). case b of None \<Rightarrow> Ok ([], s)
       | Some b \<Rightarrow> rbind (read_docs next_doc n s) (\<lambda>(bs, s). Ok (b # bs, s)))"

context document_cursor
begin

lemma read_docs_stream:
  "stream s ds \<Longrightarrow> \<exists>bs s'. read_docs next_doc n s = Ok (bs, s') \<and> list_all2 holds_doc bs (take n ds)
     \<and> stream s' (drop n ds)"
proof (induction n arbitrary: s ds)
  case (Suc n)
  show ?case
  proof (cases ds)
    case Nil
    then show ?thesis using next_none Suc.prems by fastforce
  next
    case (Cons es ds')
    then obtain b s1 where "next_doc s = Ok (Some b, s1)" "holds_doc b es" "stream s1 ds'"
      using next_some Suc.prems by blast
    then show ?thesis using Suc.IH [of s1 ds'] Cons by auto
  qed
qed simp

end

definition cursor_stream :: "'n driver \<Rightarrow> 'n state \<Rightarrow> bdoc list \<Rightarrow> bool" where
  "cursor_stream d s ds \<longleftrightarrow>
     (\<exists>left. cursor_at d s left
       \<and> ds = (if c_limit (fst s) = 0 then left else take (c_limit (fst s) - c_count (fst s)) left))"

lemma later_at_count [simp]: "later_at d (c\<lparr>c_current := b, c_count := n\<rparr>, cl) ds = later_at d (c, cl) ds"
  by (simp add: later_at_def reading_at_def plain_cursor_def)

lemma cursor_at_plain: "cursor_at d s ds \<Longrightarrow> plain_cursor (fst s) \<and> \<not> cl_in_exhaust (snd s)"
  by (auto simp: cursor_at_def later_at_def)

lemma next_base_ok:
  assumes "cursor_at d (c, cl) ds" "c_limit c = 0 \<or> c_count c < c_limit c"
  shows "next_ok d ds (mongoc_cursor_next_base d (c, cl)) c"
  using assms next_base_done [of c cl d] next_base_fresh [of d c cl ds] next_base_reading [of d c cl ds]
  by (auto simp: cursor_at_def later_at_def)

lemma next_at_limit:
  assumes "cursor_at d (c, cl) ds" "c_limit c \<noteq> 0" "c_limit c \<le> c_count c"
  shows "\<exists>c'. mongoc_cursor_next_base d (c, cl) = Ok (None, c', cl) \<and> later_at d (c', cl) [] \<and> c_limit c' = c_limit c"
  using assms cursor_at_plain [OF assms(1)]
  by (auto simp: mongoc_cursor_next_base_def later_at_def plain_cursor_def set_error_def)

lemma cursor_stream_later:
  assumes "later_at d (c, cl) left"
  shows "cursor_stream d (c\<lparr>c_current := b, c_count := n\<rparr>, cl) (if c_limit c = 0 then left else take (c_limit c - n) left)"
  using assms by (auto simp: cursor_stream_def cursor_at_def)

lemma cursor_stream_over:
  "later_at d (c, cl) [] \<Longrightarrow> cursor_stream d (c\<lparr>c_current := b, c_count := n\<rparr>, cl) []"
  using cursor_stream_later [of d c cl "[]" n b] by (simp split: if_splits)

lemma cursor_next_stream:
  assumes "cursor_stream d s ds"
  shows "\<exists>b s'. mongoc_cursor_next d s = Ok (b, s') \<and> (case ds of [] \<Rightarrow> b = None \<and> cursor_stream d s' []
     | es # ds' \<Rightarrow> (\<exists>doc. b = Some doc \<and> holds_doc doc es) \<and> cursor_stream d s' ds')"
proof -
  obtain c cl where s: "s = (c, cl)" by fastforce
  obtain left where left: "cursor_at d (c, cl) left"
    and ds: "ds = (if c_limit c = 0 then left else take (c_limit c - c_count c) left)"
    using assms by (auto simp: cursor_stream_def s)
  have c: "\<not> c_failed c" "c_limit c < 4294967296" using cursor_at_plain [OF left] by (auto simp: plain_cursor_def)
  show ?thesis
  proof (cases "c_limit c = 0 \<or> c_count c < c_limit c")
    case False
    then obtain c' where "mongoc_cursor_next_base d (c, cl) = Ok (None, c', cl)" "later_at d (c', cl) []"
      using next_at_limit [OF left] by auto
    moreover have "ds = []" using False ds by simp
    ultimately show ?thesis
      using c by (auto simp: mongoc_cursor_next_def s intro: cursor_stream_over)
  next
    case True
    then obtain b c' cl' where r: "mongoc_cursor_next_base d (c, cl) = Ok (b, c', cl')"
      "c_count c' = c_count c" "c_limit c' = c_limit c"
      "case left of [] \<Rightarrow> b = None \<and> later_at d (c', cl') []
           | es # ds' \<Rightarrow> (\<exists>doc. b = Some doc \<and> holds_doc doc es) \<and> later_at d (c', cl') ds'"
      using next_base_ok [OF left] by (auto simp: next_ok_def)
    define n where "n = w32 (c_count c + 1)"
    have n: "mongoc_cursor_next d s = Ok (b, c'\<lparr>c_current := b, c_count := n\<rparr>, cl')"
      using r(1,2) c by (simp add: mongoc_cursor_next_def s n_def)
    show ?thesis
    proof (cases left)
      case Nil
      then show ?thesis using r(4) n ds by (auto intro: cursor_stream_over)
    next
      case (Cons es left')
      have "n = c_count c + 1" if "c_limit c \<noteq> 0" using that True c(2) by (simp add: n_def w32_def)
      then have "ds = es # (if c_limit c = 0 then left' else take (c_limit c - n) left')"
        using True Cons ds by (auto simp: take_Cons')
      then show ?thesis
        using r(3,4) n Cons True cursor_stream_later [of d c' cl' left' n b] by auto
    qed
  qed
qed

interpretation mongoc: document_cursor "mongoc_cursor_next d" "\<lambda>s. mongoc_cursor_error (fst s)" "cursor_stream d"
  for d
proof unfold_locales
  fix s :: "'a state" and ds
  assume "cursor_stream d s ds"
  then have "plain_cursor (fst s)" unfolding cursor_stream_def using cursor_at_plain by blast
  then show "mongoc_cursor_error (fst s) = None" by (simp add: mongoc_cursor_error_def plain_cursor_def)
qed (use cursor_next_stream in fastforce)+

end
