(* ===== verification/Mongoc_Find.thy ===== *)
theory Mongoc_Find
  imports Bson_Nest Mongoc_Cursor
begin

text \<open>
  Creating cursors: \<open>mongoc_collection_find\<close> of \<open>mongoc-collection.c\<close>, and what \<open>_mongoc_cursor_new\<close>
  makes of the query it is given.
\<close>

record mongoc_collection_t =
  co_ns :: view
  co_db :: view
  co_collection :: view
  co_collectionlen :: nat
  co_read_prefs :: "mongoc_read_prefs_t option"

text \<open>The last-error document of the collection, which is only released here, is left out.\<close>

definition mongoc_collection_find ::
    "'n mongoc_client_t \<Rightarrow> mongoc_collection_t \<Rightarrow> 32 word \<Rightarrow> nat \<Rightarrow> nat \<Rightarrow> nat \<Rightarrow> bson_t \<Rightarrow> bson_t option
      \<Rightarrow> mongoc_read_prefs_t option \<Rightarrow> mongoc_cursor_t result" where
  "mongoc_collection_find client collection flags skip limit batch_size query flds prefs =
     mongoc_cursor_new client (co_ns collection) flags skip limit batch_size False query flds
       (if prefs = None then co_read_prefs collection else prefs)"

section \<open>Copies\<close>

lemma bson_copy_to_ok:
  assumes "holds_doc b es"
  shows "\<exists>c. bson_copy_to b = Ok c \<and> holds_doc c es"
proof (cases "BSON_FLAG_INLINE \<in> b_flags b")
  case True
  then show ?thesis using assms by (simp add: bson_copy_to_def holds_doc_def bson_data_def)
next
  case False
  let ?n = "length (encode_doc es)"
  obtain t where t: "bson_data b = encode_doc es @ t" "b_len b = ?n" "?n \<le> INT32_MAX" "wf_doc es"
    using assms by (auto simp: holds_doc_def points_to_def wf_doc_def)
  have n: "0 < ?n" "?n \<le> 2 ^ 63" "?n \<le> 2 ^ 31" using t(3) by simp_all
  obtain k where k: "npot ?n = 2 ^ k" "?n \<le> 2 ^ k" "\<forall>j. ?n \<le> 2 ^ j \<longrightarrow> k \<le> j"
    using npot_least [OF n(1,2)] by metis
  then have "npot ?n \<le> 2 ^ 31" using n(3) by (metis one_le_numeral power_increasing)
  then have l: "?n \<le> w32 (npot ?n)" using k(1,2) by (simp add: w32_id del: length_encode_doc)
  define c0 where "c0 = \<lparr>b_flags = {BSON_FLAG_STATIC}, b_len = ?n, b_buf = replicate (w32 (npot ?n)) 0,
    b_offset = 0, b_depth = 0, b_realloc = True\<rparr>"
  have "put_data c0 0 (encode_doc es) = Ok (c0\<lparr>b_buf := encode_doc es @ drop ?n (b_buf c0)\<rparr>)"
    using l by (intro put_data_start) (simp_all add: c0_def del: length_encode_doc)
  moreover have "rdn ?n (encode_doc es @ t) 0 = Ok (encode_doc es)" by (simp add: rdn_def)
  moreover have "holds_doc (c0\<lparr>b_buf := encode_doc es @ drop ?n (b_buf c0)\<rparr>) es"
    using t(4) by (simp add: holds_doc_def points_to_def bson_data_def c0_def)
  ultimately show ?thesis
    using False t by (simp add: bson_copy_to_def Let_def flip: c0_def del: length_encode_doc)
qed

text \<open>The copy can be appended to.\<close>

definition inline_ok :: "bson_t \<Rightarrow> bool" where
  "inline_ok b \<longleftrightarrow> (BSON_FLAG_INLINE \<in> b_flags b \<longrightarrow> builder b \<and> roomy b)"

lemma bson_copy_to_building:
  assumes "holds_doc b es" "b_len b \<le> 2 ^ 30" "inline_ok b"
  shows "\<exists>c. bson_copy_to b = Ok c \<and> building c es \<and> roomy c \<and> b_len c = b_len b"
proof -
  obtain c where c: "bson_copy_to b = Ok c" "holds_doc c es" using bson_copy_to_ok [OF assms(1)] by blast
  have "builder c \<and> roomy c \<and> b_len c = b_len b"
  proof (cases "BSON_FLAG_INLINE \<in> b_flags b")
    case True
    then show ?thesis using assms(3) c(1)
      by (auto simp: bson_copy_to_def inline_ok_def builder_def roomy_def growable_def)
  next
    case False
    have n: "0 < b_len b" "b_len b \<le> 2 ^ 63" using assms(1,2) by (simp_all add: holds_doc_def)
    have bs: "length (bson_data b) \<ge> b_len b"
      using assms(1) by (auto simp: holds_doc_def points_to_def)
    have "npot (b_len b) \<le> INT32_MAX" "b_len b \<le> npot (b_len b)"
      using npot_bounds [OF n] assms(2) by simp_all
    then show ?thesis using False c(1) bs assms(1)
      by (auto simp: bson_copy_to_def put_data_def rdn_def splice_def builder_def roomy_def growable_def Let_def
          w32_id holds_doc_def split: if_splits)
  qed
  with c show ?thesis by (auto simp: building_def)
qed

lemma init_static_doc:
  assumes "wf_doc es"
  shows "\<exists>b. rd32 (encode_doc es @ t) 0 = Ok (length (encode_doc es))
     \<and> bson_init_static (encode_doc es @ t) (length (encode_doc es)) = Ok (Some b) \<and> holds_doc b es \<and> inline_ok b"
proof -
  have n: "length (enc_elems es) + 5 \<le> INT32_MAX" using assms by (simp add: wf_doc_def)
  have "rd32 (encode_doc es @ t) 0 = Ok (length (encode_doc es))"
    "rd8 (encode_doc es @ t) (length (encode_doc es) - 1) = Ok 0"
    using encode_doc_head [OF n, of t] by simp_all
  then show ?thesis
    using n assms
    by (simp add: bson_init_static_def holds_doc_def points_to_def bson_data_def inline_ok_def)
qed

section \<open>The checks on the query\<close>

definition dollar_key :: "bytes \<Rightarrow> bool" where
  "dollar_key k \<longleftrightarrow> k \<noteq> [] \<and> hd k = 0x24"

lemma dollar_scan_upto:
  assumes "iter_upto es n it" "length es - n < fuel"
  shows "dollar_scan fuel it d m = Ok (d \<or> (\<exists>k \<in> fst ` set (drop n es). dollar_key k),
      m \<or> (\<exists>k \<in> fst ` set (drop n es). \<not> dollar_key k))"
  using assms
proof (induction fuel arbitrary: n it d m)
  case (Suc fuel)
  show ?case
  proof (cases "n < length es")
    case True
    obtain k x where kx: "es ! n = (k, x)" by fastforce
    obtain it' where s: "bson_iter_next it = Ok (True, it')" "iter_upto es (Suc n) it'" "on_elem k x it'"
      using iter_upto_next [OF Suc.prems(1) True] kx by (metis fst_conv snd_conv)
    obtain t where "bson_iter_key it' = Ok (k @ 0 # t)" using on_elem_key [OF s(3)] by blast
    moreover have "rd8 (k @ 0 # t) 0 = Ok (if k = [] then 0 else hd k)" by (cases k) (simp_all add: rd8_def)
    moreover have "drop n es = (k, x) # drop (Suc n) es" using True kx by (metis Cons_nth_drop_Suc)
    moreover have "length es - Suc n < fuel" using Suc.prems(2) True by simp
    ultimately show ?thesis
      using s(1) Suc.IH [OF s(2)] by (auto simp: dollar_key_def)
  next
    case False
    with Suc.prems(1) have n: "n = length es" by (simp add: iter_upto_def)
    obtain it' where "bson_iter_next it = Ok (False, it')"
      using iter_upto_end Suc.prems(1) unfolding n by blast
    then show ?thesis by (simp add: n)
  qed
qed simp

definition mixed_keys :: "bdoc \<Rightarrow> bool" where
  "mixed_keys es \<longleftrightarrow> (\<exists>k \<in> fst ` set es. dollar_key k) \<and> (\<exists>k \<in> fst ` set es. \<not> dollar_key k)"

lemma mixes_dollar_keys_ok:
  assumes "holds_doc q es"
  shows "mixes_dollar_keys q = Ok (mixed_keys es)"
proof -
  obtain it where it: "bson_iter_init q = (True, it)" "iter_upto es 0 it"
    using assms by (rule iter_init_holds_doc)
  have "length es - 0 < Suc (b_len q)"
    using assms length_le_enc_elems [of es] by (simp add: holds_doc_def)
  with it dollar_scan_upto [OF it(2), of "Suc (b_len q)"] show ?thesis
    by (simp add: mixes_dollar_keys_def mixed_keys_def)
qed

definition wrong_option :: "bytes \<Rightarrow> bdoc \<Rightarrow> bool" where
  "wrong_option K es \<longleftrightarrow>
     (case find (\<lambda>e. fst e = K) es of None \<Rightarrow> False
      | Some (k, x) \<Rightarrow> val_type x \<noteq> BSON_TYPE_BOOL \<and> val_type x \<noteq> BSON_TYPE_INT32)"

lemma bad_option_ok:
  assumes "holds_doc q es" "0 \<notin> set K"
  shows "bad_option q (K @ [0]) = Ok (wrong_option K es)"
proof -
  obtain it where it: "bson_iter_init q = (True, it)" "iter_upto es 0 it"
    using assms(1) by (rule iter_init_holds_doc)
  have "iter_holds i t = Ok (val_type x = t)" if "on_elem k x i" for k x i t
    using that on_elemE [of k x i] iter_holds_on_field by metis
  with bson_iter_find_correct [OF it(2) assms(2), of "[]"] it(1) show ?thesis
    by (auto simp: bad_option_def bson_iter_init_find_def wrong_option_def split: option.splits)
qed

text \<open>The queries that \<open>_mongoc_cursor_new\<close> refuses.\<close>

definition refused :: "'n mongoc_client_t \<Rightarrow> 32 word \<Rightarrow> nat \<Rightarrow> bdoc \<Rightarrow> bool" where
  "refused cl flags limit es \<longleftrightarrow>
     has_flag flags MONGOC_QUERY_EXHAUST \<and> (limit \<noteq> 0 \<or> cl_sharded_cluster cl)
     \<or> wrong_option (map of_char ''$explain'') es \<or> wrong_option (map of_char ''$snapshot'') es \<or> mixed_keys es"

definition query_key :: bytes where
  "query_key = map of_char ''$query''"

definition wrapped :: "bdoc \<Rightarrow> bdoc" where
  "wrapped es = (if query_key \<in> fst ` set es then es else [(query_key, BDocument es)])"

lemma ascii_append: "ascii s = map of_char s @ [0]"
  by (simp add: ascii_def)

lemma query_key_bytes: "query_key = [0x24, 0x71, 0x75, 0x65, 0x72, 0x79]"
  by code_simp

lemma option_keys_no_nul:
  "0 \<notin> set (map of_char ''$explain'' :: bytes)" "0 \<notin> set (map of_char ''$snapshot'' :: bytes)"
  by code_simp+

lemma find_key: "find (\<lambda>e. fst e = K) es = None \<longleftrightarrow> K \<notin> fst ` set es"
  by (force simp: find_None_iff)

lemma wrap_query_ok:
  assumes "holds_doc q es" "inline_ok q" "length (enc_elems (wrapped es)) + 5 \<le> 2 ^ 30"
  shows "\<exists>b. wrap_query False q = Ok b \<and> building b (wrapped es) \<and> roomy b"
proof -
  have key: "ascii ''$query'' = query_key @ 0 # []" by (simp add: ascii_def query_key_def)
  have qk: "0 \<notin> set query_key" "query_key \<noteq> []" "length query_key = 6" "0x2E \<notin> set query_key"
    by (simp_all add: query_key_bytes)
  then have sd: "split_dots query_key = [query_key]" by (simp add: split_dots.simps [of query_key])
  have "lookup_path [query_key] es \<noteq> None \<longleftrightarrow> query_key \<in> fst ` set es"
    using find_key [of query_key es] qk(2) by (auto simp: first_elem_def)
  then have has: "bson_has_field q (ascii ''$query'') = Ok (query_key \<in> fst ` set es)"
    using bson_has_field_holds_doc [OF assms(1) qk(1) _ qk(2), of "[]"] qk(3) by (simp add: key sd)
  show ?thesis
  proof (cases "query_key \<in> fst ` set es")
    case True
    then have "b_len q \<le> 2 ^ 30" using assms(1,3) by (simp add: wrapped_def holds_doc_def)
    from bson_copy_to_building [OF assms(1) this assms(2)] True has show ?thesis
      by (auto simp: wrap_query_def wrapped_def)
  next
    case False
    have arg: "str_arg (ascii ''$query'') 6 query_key" using qk(3) by (simp add: str_arg_def key)
    have m: "doc_means BDocument q (BDocument es)" using assms(1) by (simp add: doc_means_def)
    have l: "length (enc_elem query_key (BDocument es)) + 5 \<le> 2 ^ 30"
      using assms(3) False by (simp add: wrapped_def enc_elem_def)
    then have "fits bson_init (length (enc_elem query_key (BDocument es)))"
      by (intro roomy_fits roomy_init) (simp add: bson_init_def)
    moreover have "length (enc_elem query_key (BDocument es)) \<le> INT32_MAX" using l by simp
    ultimately obtain b where "bson_append_document bson_init (Some (ascii ''$query'')) 6 q = Ok (True, b)"
      "building b [(query_key, BDocument es)]" "grown bson_init b"
      using app_document.appends [OF building_init m arg qk(1)] by (auto simp: appended_def enc_elem_def)
    then show ?thesis using has False roomy_grown [OF roomy_init] by (simp add: wrap_query_def wrapped_def)
  qed
qed

section \<open>Read preferences\<close>

definition preference :: "nat \<Rightarrow> bdoc \<Rightarrow> bdoc" where
  "preference mode ts =
     [(map of_char ''$readPreference'', BDocument
        [(map of_char ''mode'', BUtf8 (butlast (mongoc_cursor_get_read_mode_string mode))),
         (map of_char ''tags'', BArray ts)])]"

text \<open>What the preferences \<open>prefs\<close>, whose tags are \<open>ts\<close>, add to the query.\<close>

definition preferences :: "mongoc_read_prefs_t option \<Rightarrow> bdoc \<Rightarrow> bdoc" where
  "preferences prefs ts =
     (case prefs of None \<Rightarrow> [] | Some p \<Rightarrow> if pf_mode p = MONGOC_READ_PRIMARY then [] else preference (pf_mode p) ts)"

definition prefs_hold :: "mongoc_read_prefs_t option \<Rightarrow> bdoc \<Rightarrow> bool" where
  "prefs_hold prefs ts \<longleftrightarrow> (case prefs of None \<Rightarrow> True | Some p \<Rightarrow> holds_doc (pf_tags p) ts)"

definition mode_names :: "string list" where
  "mode_names = [''primary'', ''primaryPreferred'', ''secondary'', ''secondaryPreferred'', ''nearest'', '''']"

lemma mode_names_short: "list_all (\<lambda>s. 0 \<notin> set (map of_char s :: bytes) \<and> length s \<le> 18) mode_names"
  by code_simp

lemma mode_string:
  "\<exists>m. mongoc_cursor_get_read_mode_string mode = m @ [0] \<and> 0 \<notin> set m \<and> length m \<le> 18"
proof -
  have "\<exists>s. mongoc_cursor_get_read_mode_string mode = ascii s \<and> s \<in> set mode_names"
    unfolding mongoc_cursor_get_read_mode_string_def
    by (rule exI, rule conjI, rule refl) (simp only: mode_names_def list.set insert_iff simp_thms split: if_split)
  then show ?thesis using mode_names_short unfolding list_all_iff ascii_def by (metis length_map)
qed

lemma add_read_preference_ok:
  assumes "building q es" "roomy q" "prefs_hold prefs ts" "length (enc_elems (es @ preferences prefs ts)) + 6 \<le> 2 ^ 30"
  shows "\<exists>q'. add_read_preference prefs q = Ok q' \<and> holds_doc q' (es @ preferences prefs ts)"
proof (cases "\<exists>p. prefs = Some p \<and> pf_mode p \<noteq> MONGOC_READ_PRIMARY")
  case False
  then show ?thesis using assms(1)
    by (auto simp: add_read_preference_def preferences_def building_def split: option.splits)
next
  case True
  then obtain p where p: "prefs = Some p" "pf_mode p \<noteq> MONGOC_READ_PRIMARY" by blast
  define K where "K = (map of_char ''$readPreference'' :: bytes)"
  define M where "M = (map of_char ''mode'' :: bytes)"
  define T where "T = (map of_char ''tags'' :: bytes)"
  obtain m where m: "mongoc_cursor_get_read_mode_string (pf_mode p) = m @ [0]" "0 \<notin> set m" "length m \<le> 18"
    using mode_string by blast
  have K: "0 \<notin> set K" "length K = 15" "str_arg (ascii ''$readPreference'') 15 K"
    and M: "0 \<notin> set M" "length M = 4" "str_arg (ascii ''mode'') 4 M"
    and T: "0 \<notin> set T" "length T = 4" "str_arg (ascii ''tags'') 4 T"
    by (simp_all add: K_def M_def T_def str_arg_def ascii_def)
  let ?mv = "BUtf8 m" and ?tv = "BArray ts"
  have total: "es @ preferences prefs ts = es @ [(K, container BSON_TYPE_DOCUMENT [(M, ?mv), (T, ?tv)])]"
    using p m(1) by (simp add: preferences_def preference_def container_def K_def M_def T_def)
  have len: "b_len q + 23 + length (enc_elem M ?mv) + length (enc_elem T ?tv) \<le> 2 ^ 30"
    using assms(1) assms(4) [unfolded total] K(2) M(2) T(2)
    by (simp add: container_def building_def holds_doc_def enc_elem_def frame_def)
  have q0: "b_offset q = 0" "b_depth q = 0" "growable q" using assms(2) by (simp_all add: roomy_def)
  have "fits q (length K + 7)" using len K(2) by (intro roomy_fits assms(2)) simp
  then obtain q1 c where start: "bson_append_bson_begin q (Some (ascii ''$readPreference'')) 15 BSON_TYPE_DOCUMENT = Ok (True, q1, Some c)"
    "building c []" "opens q q1 es K BSON_TYPE_DOCUMENT c" "child_room q (length K) c"
    using bson_begin_outcome [OF assms(1) K(3,1), of BSON_TYPE_DOCUMENT] K(2) by auto
  have "fits c (length (enc_elem M ?mv))"
    using len q0 K(2) by (intro child_room_fits [OF start(4)]) simp_all
  moreover have "str_means BUtf8 (m @ [0], -1) ?mv"
    using m(2,3) by (simp add: str_means_def str_arg_def c_string_append)
  ultimately obtain c1 where c1: "bson_append_utf8 c (Some (ascii ''mode'')) 4 (Some (m @ [0])) (-1) = Ok (True, c1)"
    "building c1 [(M, ?mv)]" "grown c c1" "b_len c1 = b_len c + length (enc_elem M ?mv)"
    using app_utf8.appends [OF start(2) _ M(3,1), of "(m @ [0], -1)" ?mv] len by (auto simp: appended_def enc_elem_def)
  have "fits c1 (length (enc_elem T ?tv))"
    using len q0 K(2) start(4) c1(3,4) by (auto simp: child_room_def fits_def room_def Let_def grown_def)
  moreover have "doc_means BArray (pf_tags p) ?tv" using assms(3) p(1) by (simp add: doc_means_def prefs_hold_def)
  ultimately obtain c2 where c2: "bson_append_array c1 (Some (ascii ''tags'')) 4 (pf_tags p) = Ok (True, c2)"
    "building c2 ([(M, ?mv)] @ [(T, ?tv)])" "grown c1 c2"
    using app_array.appends [OF c1(2) _ T(3,1), of "pf_tags p" ?tv] len by (auto simp: appended_def enc_elem_def)
  obtain q2 where "bson_append_bson_end q1 c2 = Ok (True, q2)" "building q2 (es @ preferences prefs ts)"
    using start(3) c2(2) grown_trans [OF c1(3) c2(3)] by (auto simp: opens_def total)
  then show ?thesis
    using p start(1) m(1) c1(1) c2(1)
    by (simp add: add_read_preference_def bson_append_document_begin_def bson_append_document_end_def building_def)
qed

lemma prefs_copy:
  assumes "prefs_hold prefs ts"
  shows "reroute_command False q prefs = Ok (False, prefs)"
    "\<exists>p. (case prefs of None \<Rightarrow> Ok None | Some p \<Rightarrow> rbind (mongoc_read_prefs_copy p) (\<lambda>p. Ok (Some p))) = Ok p"
  using assms bson_copy_to_ok [of "pf_tags (the prefs)" ts]
  by (auto simp: prefs_hold_def reroute_command_def mongoc_read_prefs_copy_def split: option.splits)

section \<open>The cursor for a query\<close>

definition fields_hold :: "bson_t option \<Rightarrow> bdoc option \<Rightarrow> bool" where
  "fields_hold flds fs = rel_option holds_doc flds fs"

lemma fields_copy:
  assumes "fields_hold flds fs"
  shows "\<exists>f. (case flds of None \<Rightarrow> Ok bson_init | Some f \<Rightarrow> bson_copy_to f) = Ok f
     \<and> holds_doc f (case fs of None \<Rightarrow> [] | Some es \<Rightarrow> es) \<and> (flds \<noteq> None) = (fs \<noteq> None)"
  using assms building_init bson_copy_to_ok
  by (auto simp: fields_hold_def building_def elim!: option.rel_cases)

definition cursor_for ::
    "32 word \<Rightarrow> nat \<Rightarrow> nat \<Rightarrow> nat \<Rightarrow> bytes \<Rightarrow> bdoc \<Rightarrow> bdoc option \<Rightarrow> mongoc_cursor_t \<Rightarrow> bool" where
  "cursor_for flags skip limit batch_size ns qs fs c \<longleftrightarrow>
     \<not> c_failed c \<and> \<not> c_sent c \<and> \<not> c_done c \<and> \<not> c_is_command c \<and> \<not> c_in_exhaust c \<and> c_reader c = None
     \<and> c_count c = 0 \<and> c_limit c = limit \<and> c_skip c = skip \<and> c_batch_size c = batch_size
     \<and> c_flags c = flags \<and> c_ns c = take 139 ns \<and> holds_doc (c_query c) qs
     \<and> c_has_fields c = (fs \<noteq> None) \<and> holds_doc (c_fields c) (case fs of None \<Rightarrow> [] | Some es \<Rightarrow> es)"

text \<open>
  The arguments of a query: a document \<open>es\<close>, a name, the read preferences \<open>prefs\<close> in force with the
  tags \<open>ts\<close> and perhaps a projection \<open>fs\<close>; the query that goes out has less than 2^30 bytes.
\<close>

definition query_arguments ::
    "bson_t \<Rightarrow> view \<Rightarrow> mongoc_read_prefs_t option \<Rightarrow> bson_t option \<Rightarrow> bdoc \<Rightarrow> bytes \<Rightarrow> bdoc \<Rightarrow> bdoc option \<Rightarrow> bool" where
  "query_arguments q ns prefs flds es name ts fs \<longleftrightarrow>
     holds_doc q es \<and> inline_ok q \<and> c_string ns = Ok name \<and> prefs_hold prefs ts \<and> fields_hold flds fs
     \<and> length (enc_elems (wrapped es @ preferences prefs ts)) + 6 \<le> 2 ^ 30"

lemma cursor_new_ok:
  assumes "query_arguments q ns (if prefs = None then cl_read_prefs cl else prefs) flds es name ts fs"
  shows "\<exists>c. mongoc_cursor_new cl ns flags skip limit batch_size False q flds prefs = Ok c
     \<and> (if refused cl flags limit es
        then mongoc_cursor_error c = Some (MONGOC_ERROR_CURSOR, MONGOC_ERROR_CURSOR_INVALID_CURSOR)
          \<and> c_failed c \<and> c_done c \<and> c_sent c
        else cursor_for flags skip limit batch_size name
          (wrapped es @ preferences (if prefs = None then cl_read_prefs cl else prefs) ts) fs c)"
proof -
  define P where "P = (if prefs = None then cl_read_prefs cl else prefs)"
  have a: "holds_doc q es" "inline_ok q" "c_string ns = Ok name" "prefs_hold P ts" "fields_hold flds fs"
    "length (enc_elems (wrapped es @ preferences P ts)) + 6 \<le> 2 ^ 30"
    using assms unfolding query_arguments_def P_def by simp_all
  note prim = prefs_copy [OF a(4)]
  obtain b where b: "wrap_query False q = Ok b" "building b (wrapped es)" "roomy b"
    using wrap_query_ok [OF a(1,2)] a(6) by auto
  obtain b' where b': "add_read_preference P b = Ok b'" "holds_doc b' (wrapped es @ preferences P ts)"
    using add_read_preference_ok [OF b(2,3) a(4,6)] by blast
  obtain p where p: "(case P of None \<Rightarrow> Ok None | Some p \<Rightarrow> rbind (mongoc_read_prefs_copy p) (\<lambda>p. Ok (Some p))) = Ok p"
    using prim(2) by blast
  obtain f where f: "(case flds of None \<Rightarrow> Ok bson_init | Some f \<Rightarrow> bson_copy_to f) = Ok f"
    "holds_doc f (case fs of None \<Rightarrow> [] | Some es \<Rightarrow> es)" "(flds \<noteq> None) = (fs \<noteq> None)"
    using fields_copy [OF a(5)] by (elim exE conjE) (rule that)
  note bad = bad_option_ok [OF a(1) option_keys_no_nul(1), folded ascii_append]
    bad_option_ok [OF a(1) option_keys_no_nul(2), folded ascii_append]
  define c0 where "c0 = \<lparr>c_hint = 0, c_is_command = False, c_sent = False, c_done = False, c_failed = False,
     c_end_of_event = False, c_in_exhaust = False, c_redir_primary = False, c_has_fields = (flds \<noteq> None),
     c_query = bson_init, c_fields = bson_init, c_read_prefs = None, c_flags = flags, c_skip = skip,
     c_limit = limit, c_count = 0, c_batch_size = batch_size, c_ns = take 139 name, c_error = (0, 0),
     c_rpc = zero_reply, c_reader = None, c_current = None\<rparr>"
  have "mongoc_cursor_new cl ns flags skip limit batch_size False q flds prefs
      = Ok (if refused cl flags limit es
            then mark_failed (set_error MONGOC_ERROR_CURSOR MONGOC_ERROR_CURSOR_INVALID_CURSOR c0)
            else c0\<lparr>c_query := b', c_read_prefs := p, c_fields := f\<rparr>)"
    unfolding mongoc_cursor_new_def Let_def P_def [symmetric] prim(1) copy_ns_def a(3) rbind_simps
      prod.case simp_thms if_False c0_def [symmetric] bad mixes_dollar_keys_ok [OF a(1)] b(1) p f(1) b'(1)
    by (simp only: refused_def rbind_simps if_True if_False split: if_split) auto
  with b'(2) f(2,3) show ?thesis
    by (simp add: cursor_for_def mark_failed_def set_error_def mongoc_cursor_error_def c0_def P_def)
qed

section \<open>From a query to its documents\<close>

lemma serves_weaken: "serves d ask n bs \<Longrightarrow> (\<And>m. ask' m \<Longrightarrow> ask m) \<Longrightarrow> serves d ask' n bs"
  by (cases bs) auto

lemma cursor_for_stream:
  assumes "cursor_for flags skip limit batch_size ns qs fs c" "\<not> cl_in_exhaust cl"
    "\<not> has_flag flags MONGOC_QUERY_TAILABLE_CURSOR" "\<not> has_flag flags MONGOC_QUERY_EXHAUST" "limit < 4294967296"
    "serves d (\<lambda>m. m = query_message c) (cl_net cl) bs" "bs \<noteq> []"
  shows "cursor_stream d (c, cl) (if limit = 0 then delivered bs else take limit (delivered bs))"
proof -
  have "plain_cursor c" using assms(1,3-5) by (simp add: cursor_for_def plain_cursor_def)
  moreover have "fresh_at d (c, cl) (delivered bs)"
    using assms(1,6,7) by (auto simp: fresh_at_def cursor_for_def)
  ultimately have "cursor_at d (c, cl) (delivered bs)" using assms(2) by (simp add: cursor_at_def)
  then show ?thesis using assms(1) by (auto simp: cursor_stream_def cursor_for_def)
qed

section \<open>A scripted server\<close>

text \<open>A connection that plays back replies, for the examples: every request has the identifier 7.\<close>

definition scripted :: "mongoc_rpc_reply_t list driver" where
  "scripted = \<lparr>d_warm_up = (\<lambda>n. (None, n)), d_sendv = (\<lambda>n msg h. (Inr (1, 7), n)),
     d_recv = (\<lambda>n h. case n of [] \<Rightarrow> (Inl (MONGOC_ERROR_CLIENT, 0), []) | r # rs \<Rightarrow> (Inr r, rs)),
     d_disconnect_node = (\<lambda>n h. n), d_preselect = (\<lambda>n prefs. (1, n)), d_max_wire_version = (\<lambda>n h. 2)\<rparr>"

definition reply_with :: "64 word \<Rightarrow> bdoc list \<Rightarrow> mongoc_rpc_reply_t" where
  "reply_with cursor_id ds = \<lparr>rp_opcode = MONGOC_OPCODE_REPLY, rp_request_id = 0, rp_response_to = 7, rp_flags = 0,
     rp_cursor_id = cursor_id, rp_documents = Some (concat (map encode_doc ds)),
     rp_documents_len = length (concat (map encode_doc ds))\<rparr>"

definition client_with :: "mongoc_rpc_reply_t list \<Rightarrow> mongoc_rpc_reply_t list mongoc_client_t" where
  "client_with rs = \<lparr>cl_in_exhaust = False, cl_sharded_cluster = False, cl_read_prefs = None, cl_net = rs\<rparr>"

definition collection_ab :: mongoc_collection_t where
  "collection_ab = \<lparr>co_ns = [0x61, 0x2E, 0x62, 0], co_db = [0x61, 0], co_collection = [0x62, 0], co_collectionlen = 1, co_read_prefs = None\<rparr>"

lemma scripted_serves:
  assumes "\<forall>ds \<in> set [ds1, ds2]. (\<forall>es \<in> set ds. wf_doc es) \<and> length (concat (map encode_doc ds)) \<le> INT32_MAX"
  shows "serves scripted ask [reply_with 5 ds1, reply_with 0 ds2] [ds1, ds2]"
  using assms
  by (simp add: scripted_def reply_with_def good_reply_def has_flag_def points_to_def)

lemma refused_sample: "\<not> refused (client_with rs) 0 0 sample_doc" "\<not> refused (client_with rs) 0 limit sample_doc"
proof -
  have "\<not> mixed_keys sample_doc" by code_simp
  moreover have "\<not> wrong_option (map of_char ''$explain'') sample_doc" by code_simp
  moreover have "\<not> wrong_option (map of_char ''$snapshot'') sample_doc" by code_simp
  ultimately show "\<not> refused (client_with rs) 0 0 sample_doc" "\<not> refused (client_with rs) 0 limit sample_doc"
    by (simp_all add: refused_def has_flag_def)
qed

lemma sample_short: "length (encode_doc sample_doc) = 26" "wf_doc sample_doc" "wrapped sample_doc = [(query_key, BDocument sample_doc)]"
proof -
  show "length (encode_doc sample_doc) = 26" by code_simp
  show "wf_doc sample_doc" using holds_sample by (simp add: holds_doc_def)
  show "wrapped sample_doc = [(query_key, BDocument sample_doc)]"
    by (simp add: wrapped_def sample_doc_def query_key_bytes)
qed

definition secondary_prefs :: mongoc_read_prefs_t where
  "secondary_prefs = mongoc_read_prefs_new MONGOC_READ_SECONDARY"

lemma sample_prefs:
  "co_read_prefs collection_ab = None" "cl_read_prefs (client_with rs) = None" "preferences None ts = []"
  by (simp_all add: collection_ab_def client_with_def preferences_def)

lemma find_sample_arguments:
  "query_arguments sample_bson (co_ns collection_ab)
     (if co_read_prefs collection_ab = None then cl_read_prefs (client_with rs) else co_read_prefs collection_ab)
     None sample_doc [0x61, 0x2E, 0x62] [] None"
  "query_arguments sample_bson (co_ns (collection_ab\<lparr>co_read_prefs := Some secondary_prefs\<rparr>))
     (if co_read_prefs (collection_ab\<lparr>co_read_prefs := Some secondary_prefs\<rparr>) = None then cl_read_prefs (client_with rs)
      else co_read_prefs (collection_ab\<lparr>co_read_prefs := Some secondary_prefs\<rparr>))
     None sample_doc [0x61, 0x2E, 0x62] [] None"
proof -
  have e: "length (enc_elems (wrapped sample_doc)) = 34" "length (enc_elems (preference MONGOC_READ_SECONDARY [])) = 53"
    by code_simp+
  have i: "inline_ok sample_bson" by (simp add: inline_ok_def sample_bson_def)
  have t: "holds_doc bson_init []" using building_init by (simp add: building_def)
  show "query_arguments sample_bson (co_ns collection_ab)
     (if co_read_prefs collection_ab = None then cl_read_prefs (client_with rs) else co_read_prefs collection_ab)
     None sample_doc [0x61, 0x2E, 0x62] [] None"
    using holds_sample e(1) i
    by (simp add: query_arguments_def collection_ab_def c_string_def client_with_def prefs_hold_def fields_hold_def
        preferences_def)
  show "query_arguments sample_bson (co_ns (collection_ab\<lparr>co_read_prefs := Some secondary_prefs\<rparr>))
     (if co_read_prefs (collection_ab\<lparr>co_read_prefs := Some secondary_prefs\<rparr>) = None then cl_read_prefs (client_with rs)
      else co_read_prefs (collection_ab\<lparr>co_read_prefs := Some secondary_prefs\<rparr>))
     None sample_doc [0x61, 0x2E, 0x62] [] None"
    using holds_sample e i t
    by (simp add: query_arguments_def collection_ab_def c_string_def client_with_def prefs_hold_def fields_hold_def
        preferences_def secondary_prefs_def mongoc_read_prefs_new_def)
qed

section \<open>Properties\<close>

text \<open>
  C15: \<open>mongoc_collection_find\<close> refuses exactly the queries its checks name (exhaust with a limit or on
  a sharded cluster, \<open>$explain\<close> or \<open>$snapshot\<close> of a wrong type, dollar keys beside others), with the
  error the cursor then reports; any other query becomes a cursor that has sent nothing yet and holds
  the query, wrapped in \<open>$query\<close> if that key is not there, followed by the read preference unless it
  is primary, and the projection.
\<close>

theorem collection_find_query:
  assumes "query_arguments q (co_ns coll)
      (if co_read_prefs coll = None then cl_read_prefs cl else co_read_prefs coll) flds es name ts fs"
  shows "\<exists>c. mongoc_collection_find cl coll flags skip limit batch_size q flds None = Ok c
     \<and> (if refused cl flags limit es
        then mongoc_cursor_error c = Some (MONGOC_ERROR_CURSOR, MONGOC_ERROR_CURSOR_INVALID_CURSOR)
          \<and> mongoc_cursor_next d (c, cl) = Ok (None, c, cl)
        else mongoc_cursor_error c = None
          \<and> cursor_for flags skip limit batch_size name
              (wrapped es @ preferences (if co_read_prefs coll = None then cl_read_prefs cl else co_read_prefs coll) ts) fs c)"
proof -
  from cursor_new_ok [OF assms] obtain c where
    "mongoc_cursor_new cl (co_ns coll) flags skip limit batch_size False q flds (co_read_prefs coll) = Ok c"
    "if refused cl flags limit es
     then mongoc_cursor_error c = Some (MONGOC_ERROR_CURSOR, MONGOC_ERROR_CURSOR_INVALID_CURSOR) \<and> c_failed c \<and> c_done c \<and> c_sent c
     else cursor_for flags skip limit batch_size name
       (wrapped es @ preferences (if co_read_prefs coll = None then cl_read_prefs cl else co_read_prefs coll) ts) fs c" by blast
  then show ?thesis
    by (auto simp: mongoc_collection_find_def mongoc_cursor_next_def cursor_for_def mongoc_cursor_error_def
        split: if_splits)
qed

theorem collection_find_query_witness:
  "\<exists>c. mongoc_collection_find (client_with []) (collection_ab\<lparr>co_read_prefs := Some secondary_prefs\<rparr>) 0 0 0 0 sample_bson None None = Ok c
     \<and> holds_doc (c_query c)
         ([(query_key, BDocument sample_doc)] @ preference MONGOC_READ_SECONDARY [])"
  using collection_find_query [OF find_sample_arguments(2), of "[]" 0 0 0 0 scripted]
  by (auto simp: refused_sample cursor_for_def sample_short preferences_def secondary_prefs_def mongoc_read_prefs_new_def)

text \<open>
  C8: from the query to the documents: when the server answers the query of a fresh cursor with a
  first batch and each request for more with the next one, reading \<open>n\<close> documents returns the first
  \<open>n\<close> documents of the batches in order, never more than the limit, without an error; once all are
  read the next call reports the end.
\<close>

theorem cursor_delivers_batches:
  assumes "cursor_for flags skip limit batch_size ns qs fs c" "\<not> cl_in_exhaust cl"
    "\<not> has_flag flags MONGOC_QUERY_TAILABLE_CURSOR" "\<not> has_flag flags MONGOC_QUERY_EXHAUST" "limit < 4294967296"
    "serves d (\<lambda>m. m = query_message c) (cl_net cl) bs" "bs \<noteq> []"
    "ds = (if limit = 0 then delivered bs else take limit (delivered bs))"
  shows "\<exists>docs s. read_docs (mongoc_cursor_next d) n (c, cl) = Ok (docs, s)
     \<and> list_all2 holds_doc docs (take n ds) \<and> mongoc_cursor_error (fst s) = None
     \<and> (length ds \<le> n \<longrightarrow> (\<exists>s'. mongoc_cursor_next d s = Ok (None, s')))"
proof -
  obtain docs s where s: "read_docs (mongoc_cursor_next d) n (c, cl) = Ok (docs, s)"
    "list_all2 holds_doc docs (take n ds)" "cursor_stream d s (drop n ds)"
    using mongoc.read_docs_stream [OF cursor_for_stream [OF assms(1-7)], of n] assms(8) by blast
  have "\<exists>s'. mongoc_cursor_next d s = Ok (None, s')" if "length ds \<le> n"
    using mongoc.next_none s(3) that by fastforce
  with s(1,2) mongoc.no_error [OF s(3)] show ?thesis by blast
qed


theorem cursor_delivers_batches_witness:
  "\<exists>c docs s. mongoc_collection_find (client_with [reply_with 5 [sample_doc, []], reply_with 0 [sample_doc]])
       collection_ab 0 0 2 0 sample_bson None None = Ok c
     \<and> read_docs (mongoc_cursor_next scripted) 9 (c, client_with [reply_with 5 [sample_doc, []], reply_with 0 [sample_doc]])
         = Ok (docs, s)
     \<and> list_all2 holds_doc docs [sample_doc, []]"
proof -
  let ?rs = "[reply_with 5 [sample_doc, []], reply_with 0 [sample_doc]]"
  obtain c where c: "mongoc_collection_find (client_with ?rs) collection_ab 0 0 2 0 sample_bson None None = Ok c"
    "cursor_for 0 0 2 0 [0x61, 0x2E, 0x62] (wrapped sample_doc) None c"
    using cursor_new_ok [OF find_sample_arguments(1), of ?rs 0 0 2 0]
    by (auto simp: mongoc_collection_find_def refused_sample sample_prefs)
  have "wf_doc []" by (simp add: wf_doc_def)
  then have "serves scripted (\<lambda>m. m = query_message c) (cl_net (client_with ?rs)) [[sample_doc, []], [sample_doc]]"
    unfolding client_with_def mongoc_client_t.simps
    by (intro scripted_serves) (use sample_short(1,2) in simp)
  then obtain docs s where "read_docs (mongoc_cursor_next scripted) 9 (c, client_with ?rs) = Ok (docs, s)"
    "list_all2 holds_doc docs (take 9 [sample_doc, []])"
    using cursor_delivers_batches [OF c(2), where n = 9 and bs = "[[sample_doc, []], [sample_doc]]"
        and d = scripted and cl = "client_with ?rs" and ds = "[sample_doc, []]"]
    by (auto simp: client_with_def has_flag_def simp del: serves.simps)
  with c(1) show ?thesis by auto
qed

end
