(* ===== verification/Monary_Query.thy ===== *)
theory Monary_Query
  imports Monary_Rows Mongoc_Find
begin

text \<open>
  Queries of \<open>cmonary.c\<close>: the projection, opening a cursor, the loop that loads documents
  row by row into the columns, and closing.

  A column description is a value here, not a pointer: the code never changes it in these functions.
  Allocation succeeds. \<open>DEBUG\<close> output is left out.
\<close>

section \<open>The code\<close>

text \<open>The pointer to the name of a column; a NULL name is passed on as such.\<close>

definition field_ptr :: "heap \<Rightarrow> nat option \<Rightarrow> view option result" where
  "field_ptr h p =
     (case p of None \<Rightarrow> Ok None
      | Some a \<Rightarrow> (case h a of None \<Rightarrow> Fault Dangling_Pointer | Some bs \<Rightarrow> Ok (Some bs)))"

fun fields_list :: "heap \<Rightarrow> monary_column_item list \<Rightarrow> bson_t \<Rightarrow> bson_t result" where
  "fields_list h [] b = Ok b"
| "fields_list h (col # cols) b =
     rbind (field_ptr h (ci_field col)) (\<lambda>key.
       rbind (bson_append_int32 b key (-1) 1) (\<lambda>(_, b). fields_list h cols b))"

definition monary_get_bson_fields_list :: "heap \<Rightarrow> monary_column_data \<Rightarrow> bson_t \<Rightarrow> bson_t result" where
  "monary_get_bson_fields_list h coldata fields_bson =
     (case cd_columns coldata of
        None \<Rightarrow> if cd_num_columns coldata = 0 then Ok fields_bson else Fault Null_Deref
      | Some cs \<Rightarrow>
          if cd_num_columns coldata \<le> length cs
          then fields_list h (take (cd_num_columns coldata) cs) fields_bson
          else Fault Out_Of_Bounds)"

text \<open>A cursor of the driver with its client, and the columns to fill.\<close>

record 's monary_cursor =
  mc_mcursor :: 's
  mc_coldata :: monary_column_data

definition monary_init_query ::
    "'n mongoc_client_t \<Rightarrow> mongoc_collection_t option \<Rightarrow> nat \<Rightarrow> nat \<Rightarrow> view option \<Rightarrow> heap \<Rightarrow> monary_column_data option
      \<Rightarrow> bool \<Rightarrow> 'n state monary_cursor option result" where
  "monary_init_query client collection offset limit query h coldata select_fields =
     (case (collection, query, coldata) of
        (Some coll, Some q, Some cd) \<Rightarrow>
          rbind (rd32 q 0) (\<lambda>query_size.
          rbind (bson_init_static q query_size) (\<lambda>query_bson.
            case query_bson of
              None \<Rightarrow> Ok None
            | Some qb \<Rightarrow>
                rbind (if select_fields
                       then rbind (monary_get_bson_fields_list h cd bson_new) (\<lambda>f. Ok (Some f))
                       else Ok None) (\<lambda>fields_bson.
                rbind (mongoc_collection_find client coll MONGOC_QUERY_NONE offset limit 0 qb fields_bson None) (\<lambda>mcursor.
                  Ok (Some \<lparr>mc_mcursor = (mcursor, client), mc_coldata = cd\<rparr>)))))
      | _ \<Rightarrow> Ok None)"

text \<open>
  The loop of \<open>monary_load_query\<close>, over the operations \<open>mongoc_cursor_next\<close> and \<open>mongoc_cursor_error\<close>
  of the cursor it is given. \<open>num_masked\<close> and \<open>row\<close> are of type \<open>int\<close>.
\<close>

function load_rows ::
    "('s \<Rightarrow> (bson_t option \<times> 's) result) \<Rightarrow> ('s \<Rightarrow> bson_error_t option) \<Rightarrow> monary_column_data
      \<Rightarrow> nat \<Rightarrow> int \<Rightarrow> 's \<Rightarrow> heap \<Rightarrow> (nat \<times> 's \<times> heap) result" where
  "load_rows next_doc error coldata row num_masked s h =
     (if \<not> row < cd_num_rows coldata \<or> error s \<noteq> None then Ok (row, s, h)
      else rbind (next_doc s) (\<lambda>(bson, s).
        case bson of
          None \<Rightarrow> Ok (row, s, h)
        | Some b \<Rightarrow>
            rbind (monary_bson_to_arrays h (Some coldata) row (Some b)) (\<lambda>(masked, h).
            rbind (add_int32 num_masked masked) (\<lambda>num_masked.
            rbind (add_int32 (int row) 1) (\<lambda>row.
              load_rows next_doc error coldata (nat row) num_masked s h)))))"
  by auto
termination
  by (relation "measure (\<lambda>(next_doc, error, coldata, row, num_masked, s, h). cd_num_rows coldata - row)")
    (auto simp: add_int32_def split: if_splits)

declare load_rows.simps [simp del]

text \<open>The number of rows loaded, the cursor and the memory.\<close>

definition monary_load_query ::
    "('s \<Rightarrow> (bson_t option \<times> 's) result) \<Rightarrow> ('s \<Rightarrow> bson_error_t option) \<Rightarrow> 's monary_cursor \<Rightarrow> heap
      \<Rightarrow> (nat \<times> 's monary_cursor \<times> heap) result" where
  "monary_load_query next_doc error cursor h =
     rbind (load_rows next_doc error (mc_coldata cursor) 0 0 (mc_mcursor cursor) h) (\<lambda>(row, s, h).
       Ok (row, cursor\<lparr>mc_mcursor := s\<rparr>, h))"

text \<open>\<open>destroy\<close> is \<open>mongoc_cursor_destroy\<close> on the cursors at hand; the result is what it leaves of the client.\<close>

definition monary_close_query :: "('s \<Rightarrow> 'c) \<Rightarrow> 's monary_cursor option \<Rightarrow> 'c option" where
  "monary_close_query destroy cursor =
     (case cursor of None \<Rightarrow> None | Some c \<Rightarrow> Some (destroy (mc_mcursor c)))"

section \<open>The projection\<close>

definition named :: "heap \<Rightarrow> monary_column_item \<Rightarrow> bool" where
  "named h c \<longleftrightarrow> (\<exists>f s. ci_field c = Some f \<and> h f = Some (s @ [0]) \<and> 0 \<notin> set s \<and> length s \<le> MONARY_MAX_STRING_LENGTH)"

definition projection :: "heap \<Rightarrow> monary_column_item list \<Rightarrow> bdoc" where
  "projection h cs = map (\<lambda>c. (col_name h c, BInt32 1)) cs"

lemma named_int32:
  assumes "named h c" "building b es" "roomy b" "b_len b + MONARY_MAX_STRING_LENGTH + 6 \<le> 2 ^ 30"
  shows "\<exists>key b'. field_ptr h (ci_field c) = Ok key \<and> bson_append_int32 b key (-1) 1 = Ok (True, b')
     \<and> building b' (es @ [(col_name h c, BInt32 1)]) \<and> roomy b' \<and> b_len b' \<le> b_len b + MONARY_MAX_STRING_LENGTH + 6"
proof -
  obtain f s where c: "ci_field c = Some f" "h f = Some (s @ [0])" "0 \<notin> set s" "length s \<le> MONARY_MAX_STRING_LENGTH"
    using assms(1) by (auto simp: named_def)
  have n: "col_name h c = s" using c(1,2) by (rule col_name_eq)
  have arg: "str_arg (s @ [0]) (-1) s" using c(3,4) by (simp add: str_arg_def c_string_append)
  have l: "length (enc_elem s (BInt32 1)) = length s + 6" by (simp add: length_enc_elem)
  have "fits b (length (enc_elem s (BInt32 1)))"
    using assms(4) c(4) by (intro roomy_fits assms(3)) (simp add: l)
  then obtain b' where "bson_append_int32 b (Some (s @ [0])) (-1) 1 = Ok (True, b')" "building b' (es @ [(s, BInt32 1)])"
    "grown b b'" "b_len b' = b_len b + (length s + 6)"
    using app_int32.appends [OF assms(2) refl arg c(3), of 1] c(4) l by (auto simp: appended_def enc_elem_def ac_simps)
  then show ?thesis using c n roomy_grown [OF assms(3)] by (auto simp: field_ptr_def)
qed

lemma fields_list_ok:
  assumes "\<forall>c \<in> set cs. named h c" "building b es" "roomy b"
    "b_len b + length cs * (MONARY_MAX_STRING_LENGTH + 6) \<le> 2 ^ 30"
  shows "\<exists>b'. fields_list h cs b = Ok b' \<and> building b' (es @ projection h cs)"
  using assms
proof (induction cs arbitrary: b es)
  case (Cons c cs)
  then obtain key b' where b': "field_ptr h (ci_field c) = Ok key" "bson_append_int32 b key (-1) 1 = Ok (True, b')"
    "building b' (es @ [(col_name h c, BInt32 1)])" "roomy b'" "b_len b' \<le> b_len b + MONARY_MAX_STRING_LENGTH + 6"
    using named_int32 [of h c b es] by auto
  from Cons.IH [OF _ b'(3,4)] Cons.prems(1,4) b'(1,2,5) show ?case by (auto simp: projection_def)
qed (simp add: projection_def)

lemma fields_list_document:
  assumes "cd_columns cd = Some cs" "length cs = cd_num_columns cd" "cd_num_columns cd \<le> MONARY_MAX_NUM_COLUMNS"
    "\<forall>c \<in> set cs. named h c"
  shows "\<exists>b. monary_get_bson_fields_list h cd bson_new = Ok b \<and> holds_doc b (projection h cs)"
proof -
  have "roomy bson_new" by (simp add: roomy_def growable_def bson_new_def bson_init_def)
  moreover have "b_len bson_new + length cs * (MONARY_MAX_STRING_LENGTH + 6) \<le> 2 ^ 30"
    using assms(2,3) by (simp add: bson_new_def bson_init_def)
  ultimately show ?thesis
    using fields_list_ok [OF assms(4) building_new] assms(1,2)
    by (auto simp: monary_get_bson_fields_list_def building_def)
qed

section \<open>Loading rows\<close>

text \<open>The array and the mask of a column after the values \<open>rs\<close> from row \<open>row\<close> on.\<close>

fun rows_storage :: "nat \<Rightarrow> monary_column_item \<Rightarrow> bytes option list \<Rightarrow> bytes \<Rightarrow> bytes" where
  "rows_storage row c [] m = m"
| "rows_storage row c (r # rs) m = rows_storage (Suc row) c rs (new_storage row c r m)"

fun rows_mask :: "nat \<Rightarrow> bytes option list \<Rightarrow> bytes \<Rightarrow> bytes" where
  "rows_mask row [] k = k"
| "rows_mask row (r # rs) k = rows_mask (Suc row) rs (new_mask row r k)"

definition col_filled ::
    "nat \<Rightarrow> monary_column_item \<Rightarrow> bytes option list \<Rightarrow> heap \<Rightarrow> heap \<Rightarrow> bool" where
  "col_filled row c rs h h' \<longleftrightarrow>
     (\<exists>st mk. ci_storage c = Some st \<and> ci_mask c = Some mk
        \<and> h' st = map_option (rows_storage row c rs) (h st) \<and> h' mk = map_option (rows_mask row rs) (h mk))"

text \<open>Documents none of whose values makes a loader fault.\<close>

definition cells_ok :: "monary_column_data \<Rightarrow> heap \<Rightarrow> monary_column_item list \<Rightarrow> bdoc \<Rightarrow> bool" where
  "cells_ok cd h cs es \<longleftrightarrow>
     (\<forall>c \<in> set cs. col_cell es h c = Ok (cell h es c) \<and> (\<forall>row < cd_num_rows cd. col_pre es row h c))"

text \<open>Columns whose names and arrays are in place and apart from each other.\<close>

definition columns_ready :: "monary_column_data \<Rightarrow> monary_column_item list \<Rightarrow> heap \<Rightarrow> bool" where
  "columns_ready cd cs h \<longleftrightarrow> cd_columns cd = Some cs \<and> length cs = cd_num_columns cd
     \<and> cd_num_columns cd \<le> MONARY_MAX_NUM_COLUMNS \<and> cd_num_rows cd \<le> INT32_MAX
     \<and> (\<forall>c \<in> set cs. col_ready (cd_num_rows cd) h c) \<and> cols_separate cs"

lemma wf_elems_mem: "wf_elems es \<Longrightarrow> (k, x) \<in> set es \<Longrightarrow> wf_value x"
  by (induction es) auto

lemma first_elem_wf: "first_elem K es = Some (k, x) \<Longrightarrow> wf_elems es \<Longrightarrow> wf_value x"
  by (auto simp: first_elem_def find_Some_iff split: if_splits) (metis nth_mem wf_elems_mem)

lemma lookup_path_wf: "lookup_path p es = Some (k, x) \<Longrightarrow> wf_elems es \<Longrightarrow> wf_value x"
  by (induction p es rule: lookup_path.induct)
    (auto split: option.splits bval.splits dest!: first_elem_wf)

lemma col_ready_done:
  assumes "col_ready rows h c" "col_done row c r h h'" "row < rows" "col_cell es h c = Ok r" "wf_elems es"
    "h' (the (ci_field c)) = h (the (ci_field c))"
  shows "col_ready rows h' c"
proof -
  obtain f s st m mk k where c: "ci_field c = Some f" "h f = Some (s @ [0])" "0 \<notin> set s"
    "length s \<le> MONARY_MAX_STRING_LENGTH" "ci_storage c = Some st" "h st = Some m"
    "rows * column_width (ci_type c) (ci_type_arg c) \<le> length m"
    "ci_mask c = Some mk" "h mk = Some k" "rows \<le> length k" "st \<noteq> mk" "f \<noteq> st" "f \<noteq> mk"
    using assms(1) by (auto simp: col_ready_def)
  have "length (new_storage row c r m) = length m"
  proof (cases r)
    case (Some bs)
    then obtain ky x where x: "lookup_path (split_dots (col_name h c)) es = Some (ky, x)"
      "column_cell (ci_type c) (ci_type_arg c) x = Ok (Some bs)"
      using assms(4) by (auto simp: col_cell_def split: option.splits)
    have "column_offset (ci_type c) (ci_type_arg c) row bs + length bs \<le> length m"
      using column_cell_in_array [OF x(2) lookup_path_wf [OF x(1) assms(5)] assms(3)] c(7) by simp
    then show ?thesis by (simp add: new_storage_def Some)
  qed (simp add: new_storage_def)
  moreover have "length (new_mask row r k) = length k" by (simp add: new_mask_def)
  moreover have "h' st = Some (new_storage row c r m)" "h' mk = Some (new_mask row r k)" "h' f = Some (s @ [0])"
    using c assms(2,6) by (auto simp: col_done_def)
  ultimately show ?thesis using c unfolding col_ready_def by auto
qed

lemma bson_to_arrays_ready:
  assumes "columns_ready cd cs h" "holds_doc b es" "row < cd_num_rows cd" "cells_ok cd h cs es"
  shows "\<exists>h'. monary_bson_to_arrays h (Some cd) row (Some b) = Ok (int (length (filter (\<lambda>c. cell h es c = None) cs)), h')
     \<and> (\<forall>c \<in> set cs. col_done row c (cell h es c) h h') \<and> (\<forall>a. a \<notin> set (data_blocks cs) \<longrightarrow> h' a = h a)
     \<and> columns_ready cd cs h' \<and> (\<forall>c \<in> set cs. col_name h' c = col_name h c)"
proof -
  have cd: "cd_columns cd = Some cs" "length cs = cd_num_columns cd" "cd_num_columns cd \<le> MONARY_MAX_NUM_COLUMNS"
    "cd_num_rows cd \<le> INT32_MAX" "cols_separate cs" "\<forall>c \<in> set cs. col_ready (cd_num_rows cd) h c"
    using assms(1) by (simp_all add: columns_ready_def)
  have wf: "wf_elems es" using assms(2) by (simp add: holds_doc_def wf_doc_def)
  have "\<forall>c \<in> set cs. col_ready (cd_num_rows cd) h c \<and> col_cell es h c = Ok (cell h es c) \<and> col_pre es row h c"
    using cd(6) assms(3,4) by (simp add: cells_ok_def)
  from load_columns_correct [OF assms(2,3) _ this cd(5), of 0] cd assms(3) obtain h' where
    h': "load_columns b row cs h 0 = Ok (int (length (filter (\<lambda>c. cell h es c = None) cs)), h')"
      "\<forall>c \<in> set cs. col_done row c (cell h es c) h h'" "\<forall>a. a \<notin> set (data_blocks cs) \<longrightarrow> h' a = h a"
    by auto
  have f: "h' (the (ci_field c)) = h (the (ci_field c))" if "c \<in> set cs" for c
    using h'(3) cd(5) that by (simp add: cols_separate_def)
  have "col_ready (cd_num_rows cd) h' c" if "c \<in> set cs" for c
    using col_ready_done [OF _ bspec [OF h'(2) that] assms(3) _ wf f [OF that]] cd(6) assms(4) that
    by (simp add: cells_ok_def)
  then have "columns_ready cd cs h'" using assms(1) by (simp add: columns_ready_def)
  moreover have "monary_bson_to_arrays h (Some cd) row (Some b) = Ok (int (length (filter (\<lambda>c. cell h es c = None) cs)), h')"
    using h'(1) cd(1,2) assms(3) by (simp add: monary_bson_to_arrays_def)
  ultimately show ?thesis using h'(2,3) f by (auto simp: col_name_def)
qed

text \<open>What the cells of a document are depends on the names of the columns only.\<close>

lemma cell_names:
  assumes "\<forall>c \<in> set cs. col_name h' c = col_name h c"
  shows "cells_ok cd h' cs es = cells_ok cd h cs es" "c \<in> set cs \<Longrightarrow> cell h' es c = cell h es c"
  using assms by (auto simp: cells_ok_def cell_def col_cell_def col_pre_def)

lemma col_filled_step:
  "col_done row c r h h1 \<Longrightarrow> col_filled (Suc row) c rs h1 h' \<Longrightarrow> col_filled row c (r # rs) h h'"
  by (auto simp: col_done_def col_filled_def option.map_comp comp_def intro!: option.map_cong0)

lemma col_filled_nil: "col_ready rows h c \<Longrightarrow> col_filled row c [] h h"
  by (auto simp: col_filled_def col_ready_def)

definition rows_loaded ::
    "monary_column_data \<Rightarrow> monary_column_item list \<Rightarrow> nat \<Rightarrow> bdoc list \<Rightarrow> heap \<Rightarrow> heap \<Rightarrow> bool" where
  "rows_loaded cd cs row ds h h' \<longleftrightarrow>
     (\<forall>c \<in> set cs. col_filled row c (map (\<lambda>es. cell h es c) ds) h h') \<and> (\<forall>a. a \<notin> set (data_blocks cs) \<longrightarrow> h' a = h a)"

context document_cursor
begin

lemma load_rows_stream:
  assumes "stream s ds" "columns_ready cd cs h" "row \<le> cd_num_rows cd" "n = cd_num_rows cd - row"
    "\<forall>es \<in> set (take n ds). cells_ok cd h cs es" "0 \<le> masked" "masked + int (n * length cs) \<le> 2147483647"
  shows "\<exists>s' h'. load_rows next_doc error cd row masked s h = Ok (row + length (take n ds), s', h')
     \<and> stream s' (drop n ds) \<and> rows_loaded cd cs row (take n ds) h h'"
  using assms
proof (induction n arbitrary: s ds row masked h)
  case 0
  then have "load_rows next_doc error cd row masked s h = Ok (row, s, h)" by (simp add: load_rows.simps)
  then show ?case using 0 col_filled_nil by (auto simp: rows_loaded_def columns_ready_def)
next
  case (Suc n)
  then have row: "row < cd_num_rows cd" by simp
  note unfold = load_rows.simps [of next_doc error cd row masked s h]
  have e: "error s = None" using no_error Suc.prems(1) by blast
  show ?case
  proof (cases ds)
    case Nil
    then obtain s' where s': "next_doc s = Ok (None, s')" "stream s' []" using next_none Suc.prems(1) by blast
    then have "load_rows next_doc error cd row masked s h = Ok (row, s', h)" using row e by (simp add: unfold)
    then show ?thesis using s' Nil Suc.prems(2) col_filled_nil by (auto simp: rows_loaded_def columns_ready_def)
  next
    case (Cons es ds')
    then obtain b s1 where b: "next_doc s = Ok (Some b, s1)" "holds_doc b es" "stream s1 ds'"
      using next_some Suc.prems(1) by blast
    have c: "cells_ok cd h cs es" using Suc.prems(5) Cons by simp
    obtain h1 where h1: "monary_bson_to_arrays h (Some cd) row (Some b) = Ok (int (length (filter (\<lambda>c. cell h es c = None) cs)), h1)"
      "\<forall>c \<in> set cs. col_done row c (cell h es c) h h1" "\<forall>a. a \<notin> set (data_blocks cs) \<longrightarrow> h1 a = h a"
      "columns_ready cd cs h1" "\<forall>c \<in> set cs. col_name h1 c = col_name h c"
      using bson_to_arrays_ready [OF Suc.prems(2) b(2) row c] by blast
    define k where "k = length (filter (\<lambda>c. cell h es c = None) cs)"
    have "k \<le> length cs" by (simp add: k_def)
    then have m: "0 \<le> masked + int k" "masked + int k + int (n * length cs) \<le> 2147483647"
      using Suc.prems(6,7) by (simp_all add: algebra_simps)
    have "masked + int k \<le> 2147483647" using m(2) of_nat_0_le_iff [of "n * length cs"] by linarith
    moreover have "row < INT32_MAX" using row Suc.prems(2) by (simp add: columns_ready_def)
    ultimately have "load_rows next_doc error cd row masked s h = load_rows next_doc error cd (Suc row) (masked + int k) s1 h1"
      using row e b(1) h1(1) m by (simp add: unfold add_int32_def in_int32_def nat_add_distrib k_def)
    moreover have cells: "\<forall>es \<in> set (take n ds'). cells_ok cd h1 cs es"
      using Suc.prems(5) Cons cell_names(1) [OF h1(5)] by simp
    have "Suc row \<le> cd_num_rows cd" "n = cd_num_rows cd - Suc row" using row Suc.prems(4) by simp_all
    from Suc.IH [OF b(3) h1(4) this cells m] calculation obtain s' h' where
      r: "load_rows next_doc error cd row masked s h = Ok (Suc row + length (take n ds'), s', h')"
      "stream s' (drop n ds')" "rows_loaded cd cs (Suc row) (take n ds') h1 h'" by metis
    have "rows_loaded cd cs row (es # take n ds') h h'"
      using r(3) h1(2,3) cell_names(2) [OF h1(5)]
      by (auto simp: rows_loaded_def intro!: col_filled_step)
    then show ?thesis using r Cons by auto
  qed
qed

end

section \<open>Opening a cursor\<close>

text \<open>A request for the documents that match \<open>qs\<close>, with the projection \<open>fs\<close>.\<close>

definition asks_query :: "bytes \<Rightarrow> nat \<Rightarrow> int \<Rightarrow> bdoc \<Rightarrow> bdoc option \<Rightarrow> request \<Rightarrow> bool" where
  "asks_query ns skip n qs fs m \<longleftrightarrow>
     (\<exists>q f. m = Query 0 ns skip n q f \<and> points_to (Some q) (encode_doc qs)
        \<and> rel_option (\<lambda>v es. points_to (Some v) (encode_doc es)) f fs)"

lemma cursor_for_asks:
  assumes "cursor_for 0 skip limit 0 ns qs fs c"
  shows "asks_query (take 139 ns) skip (if limit = 0 then 0 else min 0 (as_int32 limit)) qs fs (query_message c)"
proof -
  have "as_int32 0 = 0" by (simp add: as_int32_def w32_def)
  moreover have "as_int32 (sub32 limit 0) = as_int32 limit" by (simp add: as_int32_def sub32_def w32_def)
  ultimately show ?thesis using assms
    by (auto simp: cursor_for_def asks_query_def query_message_def has_flag_def mongoc_n_return_def
        holds_doc_def bson_get_data_def rel_option_iff split: option.splits)
qed

lemma col_ready_named: "col_ready rows h c \<Longrightarrow> named h c"
  by (auto simp: col_ready_def named_def)

text \<open>The arguments of a query and its columns are in order.\<close>

definition query_ready ::
    "'n mongoc_client_t \<Rightarrow> mongoc_collection_t \<Rightarrow> bdoc \<Rightarrow> bytes \<Rightarrow> bdoc \<Rightarrow> bool" where
  "query_ready client coll es name ts \<longleftrightarrow>
     (let prefs = (if co_read_prefs coll = None then cl_read_prefs client else co_read_prefs coll) in
      wf_doc es \<and> c_string (co_ns coll) = Ok name \<and> prefs_hold prefs ts
      \<and> length (enc_elems (wrapped es @ preferences prefs ts)) + 6 \<le> 2 ^ 30)"

definition sent_query :: "'n mongoc_client_t \<Rightarrow> mongoc_collection_t \<Rightarrow> bdoc \<Rightarrow> bdoc \<Rightarrow> bdoc" where
  "sent_query client coll es ts =
     wrapped es @ preferences (if co_read_prefs coll = None then cl_read_prefs client else co_read_prefs coll) ts"

lemma init_query_ok:
  assumes "query_ready client coll es name ts" "columns_ready cd cs h"
    "fs = (if select then Some (projection h cs) else None)"
  shows "\<exists>c. monary_init_query client (Some coll) offset limit (Some (encode_doc es @ t)) h (Some cd) select
        = Ok (Some \<lparr>mc_mcursor = (c, client), mc_coldata = cd\<rparr>)
     \<and> (if refused client 0 limit es
        then mongoc_cursor_error c = Some (MONGOC_ERROR_CURSOR, MONGOC_ERROR_CURSOR_INVALID_CURSOR)
        else cursor_for 0 offset limit 0 name (sent_query client coll es ts) fs c)"
proof -
  define P where "P = (if co_read_prefs coll = None then cl_read_prefs client else co_read_prefs coll)"
  have q: "wf_doc es" "c_string (co_ns coll) = Ok name" "prefs_hold P ts"
    "length (enc_elems (wrapped es @ preferences P ts)) + 6 \<le> 2 ^ 30"
    using assms(1) by (simp_all add: query_ready_def Let_def P_def)
  obtain qb where qb: "rd32 (encode_doc es @ t) 0 = Ok (length (encode_doc es))"
    "bson_init_static (encode_doc es @ t) (length (encode_doc es)) = Ok (Some qb)" "holds_doc qb es" "inline_ok qb"
    using init_static_doc [OF q(1)] by blast
  have cd: "cd_columns cd = Some cs" "length cs = cd_num_columns cd" "cd_num_columns cd \<le> MONARY_MAX_NUM_COLUMNS"
    "\<forall>c \<in> set cs. named h c"
    using assms(2) col_ready_named by (auto simp: columns_ready_def)
  obtain flds where f: "(if select then rbind (monary_get_bson_fields_list h cd bson_new) (\<lambda>f. Ok (Some f)) else Ok None) = Ok flds"
    "fields_hold flds fs"
    using fields_list_document [OF cd] assms(3) by (cases select) (auto simp: fields_hold_def)
  have "query_arguments qb (co_ns coll) P flds es name ts fs"
    using q qb f(2) by (simp add: query_arguments_def)
  from cursor_new_ok [OF this [unfolded P_def], of 0 offset limit 0] obtain c where
    c: "mongoc_collection_find client coll 0 offset limit 0 qb flds None = Ok c"
      "if refused client 0 limit es
       then mongoc_cursor_error c = Some (MONGOC_ERROR_CURSOR, MONGOC_ERROR_CURSOR_INVALID_CURSOR) \<and> c_failed c \<and> c_done c \<and> c_sent c
       else cursor_for 0 offset limit 0 name (wrapped es @ preferences P ts) fs c"
    unfolding mongoc_collection_find_def P_def by auto
  have "monary_init_query client (Some coll) offset limit (Some (encode_doc es @ t)) h (Some cd) select
      = Ok (Some \<lparr>mc_mcursor = (c, client), mc_coldata = cd\<rparr>)"
    unfolding monary_init_query_def prod.case option.case qb(1,2) rbind_simps f(1) c(1) ..
  with c(2) show ?thesis by (auto simp: sent_query_def P_def)
qed

section \<open>Properties\<close>

text \<open>
  C1: from a query to the arrays. \<open>monary_init_query\<close> opens a cursor whose request carries the query
  wrapped in \<open>$query\<close>, the read preference and, if asked for, a projection to the names of the columns.
  When the server answers that request and the following ones with batches of documents,
  \<open>monary_load_query\<close> returns the number of documents delivered, at most the limit and the number of
  rows, and the arrays and masks hold, row after row, what each document has for each column; no
  other memory changes and the cursor reports no error.
\<close>

theorem query_fills_columns:
  assumes "query_ready client coll es name ts" "\<not> refused client 0 limit es" "columns_ready cd cs h"
    "limit < 4294967296" "\<not> cl_in_exhaust client" "cd_num_rows cd * length cs \<le> INT32_MAX"
    "serves d (asks_query (take 139 name) offset (if limit = 0 then 0 else min 0 (as_int32 limit))
       (sent_query client coll es ts) (if select then Some (projection h cs) else None)) (cl_net client) bs"
    "bs \<noteq> []"
    "docs = take (cd_num_rows cd) (if limit = 0 then delivered bs else take limit (delivered bs))"
    "\<forall>es \<in> set docs. cells_ok cd h cs es"
  shows "\<exists>cur cur' h'.
     monary_init_query client (Some coll) offset limit (Some (encode_doc es @ t)) h (Some cd) select = Ok (Some cur)
     \<and> monary_load_query (mongoc_cursor_next d) (\<lambda>s. mongoc_cursor_error (fst s)) cur h = Ok (length docs, cur', h')
     \<and> rows_loaded cd cs 0 docs h h' \<and> mongoc_cursor_error (fst (mc_mcursor cur')) = None"
proof -
  obtain c where c: "monary_init_query client (Some coll) offset limit (Some (encode_doc es @ t)) h (Some cd) select
        = Ok (Some \<lparr>mc_mcursor = (c, client), mc_coldata = cd\<rparr>)"
    "cursor_for 0 offset limit 0 name (sent_query client coll es ts) (if select then Some (projection h cs) else None) c"
    using init_query_ok [OF assms(1,3) refl, of offset limit t select] assms(2) by auto
  have "serves d (\<lambda>m. m = query_message c) (cl_net client) bs"
    using cursor_for_asks [OF c(2)] by (intro serves_weaken [OF assms(7)]) simp
  from cursor_for_stream [OF c(2) assms(5) _ _ assms(4) this assms(8)]
  have st: "cursor_stream d (c, client) (if limit = 0 then delivered bs else take limit (delivered bs))"
    by (simp add: has_flag_def)
  have "0 + int (cd_num_rows cd * length cs) \<le> 2147483647" using assms(6) by linarith
  with mongoc.load_rows_stream [OF st assms(3), of 0 "cd_num_rows cd" 0] assms(9,10) obtain s' h' where
    "load_rows (mongoc_cursor_next d) (\<lambda>s. mongoc_cursor_error (fst s)) cd 0 0 (c, client) h = Ok (length docs, s', h')"
    "cursor_stream d s' (drop (cd_num_rows cd) (if limit = 0 then delivered bs else take limit (delivered bs)))"
    "rows_loaded cd cs 0 docs h h'"
    by auto
  with c(1) mongoc.no_error [OF this(2)] show ?thesis by (auto simp: monary_load_query_def)
qed


text \<open>The memory of the example: the name, an array of four cells of 4 bytes and a mask.\<close>

definition sample_heap :: heap where
  "sample_heap = (\<lambda>_. None)(1 := Some [0x61, 0], 2 := Some (replicate 16 0xEE), 3 := Some [1, 1, 1, 1])"

definition sample_column :: monary_column_item where
  "sample_column = \<lparr>ci_field = Some 1, ci_type = TYPE_INT32, ci_type_arg = 0, ci_storage = Some 2, ci_mask = Some 3\<rparr>"

definition sample_columns :: monary_column_data where
  "sample_columns = \<lparr>cd_num_columns = 1, cd_num_rows = 4, cd_columns = Some [sample_column],
     cd_array = 8, cd_self = 9\<rparr>"

lemma sample_columns_ready: "columns_ready sample_columns [sample_column] sample_heap"
proof -
  have "col_ready 4 sample_heap sample_column"
    by (rule col_ready_def [THEN iffD2], rule exI [of _ 1], rule exI [of _ "[0x61]"])
      (simp add: column_width_def sample_heap_def sample_column_def)
  moreover have "cols_separate [sample_column]" by (simp add: cols_separate_def sample_column_def)
  ultimately show ?thesis by (simp add: columns_ready_def sample_columns_def)
qed

lemma sample_cells:
  "cell sample_heap [([0x62], BInt32 v)] sample_column = None"
  "cells_ok sample_columns sample_heap [sample_column] [([0x62], BInt32 v)]"
  "column_cell TYPE_INT32 0 (BInt32 w) = Ok (Some bs) \<Longrightarrow> cell sample_heap [([0x61], BInt32 w)] sample_column = Some bs"
  "column_cell TYPE_INT32 0 (BInt32 w) = Ok (Some bs)
     \<Longrightarrow> cells_ok sample_columns sample_heap [sample_column] [([0x61], BInt32 w)]"
proof -
  have n: "col_name sample_heap sample_column = [0x61]" by (simp add: col_name_def sample_heap_def sample_column_def)
  have d: "split_dots [0x61] = [[0x61]]" by (simp add: split_dots.simps)
  have a: "col_cell [([0x61], BInt32 w)] sample_heap sample_column = column_cell TYPE_INT32 0 (BInt32 w)"
    unfolding col_cell_def n d by (simp add: first_elem_def sample_column_def)
  have b: "col_cell [([0x62], BInt32 v)] sample_heap sample_column = Ok None"
    by (simp add: col_cell_def n d first_elem_def)
  have p: "col_pre es row sample_heap sample_column" if "row < 4" for row es
    using that by (simp add: col_pre_def column_pre_def sample_column_def)
  show "cell sample_heap [([0x62], BInt32 v)] sample_column = None"
    "cells_ok sample_columns sample_heap [sample_column] [([0x62], BInt32 v)]"
    using b p by (simp_all add: cell_def cells_ok_def sample_columns_def)
  show "column_cell TYPE_INT32 0 (BInt32 w) = Ok (Some bs) \<Longrightarrow> cell sample_heap [([0x61], BInt32 w)] sample_column = Some bs"
    "column_cell TYPE_INT32 0 (BInt32 w) = Ok (Some bs)
       \<Longrightarrow> cells_ok sample_columns sample_heap [sample_column] [([0x61], BInt32 w)]"
    using a p by (simp_all add: cell_def cells_ok_def sample_columns_def)
qed

lemma sample_int_cells:
  "column_cell TYPE_INT32 0 (BInt32 7) = Ok (Some [7, 0, 0, 0])" "column_cell TYPE_INT32 0 (BInt32 9) = Ok (Some [9, 0, 0, 0])"
  by code_simp+

definition sample_batches :: "bdoc list list" where
  "sample_batches = [[[([0x61], BInt32 7)]], [[([0x62], BInt32 1)], [([0x61], BInt32 9)]]]"

definition sample_client :: "mongoc_rpc_reply_t list mongoc_client_t" where
  "sample_client = client_with [reply_with 5 [[([0x61], BInt32 7)]], reply_with 0 [[([0x62], BInt32 1)], [([0x61], BInt32 9)]]]"

theorem query_fills_columns_witness:
  "\<exists>cur cur' h'. monary_init_query sample_client (Some collection_ab) 0 0 (Some (encode_doc sample_doc @ []))
        sample_heap (Some sample_columns) True = Ok (Some cur)
     \<and> monary_load_query (mongoc_cursor_next scripted) (\<lambda>s. mongoc_cursor_error (fst s)) cur sample_heap = Ok (3, cur', h')
     \<and> h' 2 = Some [7, 0, 0, 0, 0xEE, 0xEE, 0xEE, 0xEE, 9, 0, 0, 0, 0xEE, 0xEE, 0xEE, 0xEE] \<and> h' 3 = Some [0, 1, 0, 1]"
proof -
  let ?ds = "[[([0x61], BInt32 7)], [([0x62], BInt32 1)], [([0x61], BInt32 9)]] :: bdoc list"
  have ready: "query_ready sample_client collection_ab sample_doc [0x61, 0x2E, 0x62] []"
    using find_sample_arguments(1) sample_short(2)
    by (simp add: query_ready_def query_arguments_def sample_prefs sample_client_def)
  have srv: "serves scripted ask (cl_net sample_client) sample_batches" for ask
    unfolding client_with_def mongoc_client_t.simps sample_client_def sample_batches_def
    by (intro scripted_serves) (simp add: wf_doc_def)
  have cl: "\<not> cl_in_exhaust sample_client" by (simp add: client_with_def sample_client_def)
  have ref: "\<not> refused sample_client 0 0 sample_doc" unfolding sample_client_def by (rule refused_sample)
  have docs: "?ds = take (cd_num_rows sample_columns) (if (0 :: nat) = 0 then delivered sample_batches else take 0 (delivered sample_batches))"
    by (simp add: sample_columns_def sample_batches_def)
  have cells: "\<forall>es \<in> set ?ds. cells_ok sample_columns sample_heap [sample_column] es"
    using sample_cells(2,4) sample_int_cells by simp
  have room: "cd_num_rows sample_columns * length [sample_column] \<le> INT32_MAX" by (simp add: sample_columns_def)
  have lim: "(0 :: nat) < 4294967296" by simp
  have ne: "sample_batches \<noteq> []" by (simp add: sample_batches_def)
  obtain cur cur' h' where r: "monary_init_query sample_client (Some collection_ab) 0 0 (Some (encode_doc sample_doc @ []))
      sample_heap (Some sample_columns) True = Ok (Some cur)"
    "monary_load_query (mongoc_cursor_next scripted) (\<lambda>s. mongoc_cursor_error (fst s)) cur sample_heap = Ok (length ?ds, cur', h')"
    "rows_loaded sample_columns [sample_column] 0 ?ds sample_heap h'"
    using query_fills_columns [OF ready ref sample_columns_ready lim cl room srv ne docs cells, where offset = 0 and select = True and t = "[]"]
    by (elim exE conjE) (rule that)
  have "h' 2 = Some (rows_storage 0 sample_column [Some [7, 0, 0, 0], None, Some [9, 0, 0, 0]] (replicate 16 0xEE))"
    "h' 3 = Some (rows_mask 0 [Some [7, 0, 0, 0], None, Some [9, 0, 0, 0]] [1, 1, 1, 1])"
    using r(3) sample_int_cells
    by (auto simp: rows_loaded_def col_filled_def sample_cells sample_heap_def [THEN fun_cong] sample_column_def [THEN arg_cong, of ci_storage] sample_column_def [THEN arg_cong, of ci_mask])
  moreover have "rows_storage 0 sample_column [Some [7, 0, 0, 0], None, Some [9, 0, 0, 0]] (replicate 16 0xEE)
      = [7, 0, 0, 0, 0xEE, 0xEE, 0xEE, 0xEE, 9, 0, 0, 0, 0xEE, 0xEE, 0xEE, 0xEE]" by code_simp
  moreover have "rows_mask 0 [Some [7, 0, 0, 0], None, Some [9, 0, 0, 0]] [1, 1, 1, 1] = [0, 1, 0, 1]"
    by code_simp
  ultimately show ?thesis using r(1,2) by auto
qed

end
