(* ===== verification/Mongoc_Command.thy ===== *)
theory Mongoc_Command
  imports Mongoc_Find
begin

text \<open>
  Commands: \<open>mongoc_client_command\<close> and \<open>mongoc_client_command_simple\<close> of \<open>mongoc-client.c\<close>, the
  functions of \<open>mongoc-collection.c\<close> that make a collection handle and run a command on it, and
  \<open>mongoc_collection_count\<close>.

  A command is a query on \<open>$cmd\<close> that expects one document; its result is the \<open>ok\<close> field of that
  document. Write concerns and the last-error document of a collection are left out: none of these
  functions reads them.
\<close>

section \<open>The code\<close>

abbreviation (input) MONGOC_NAMESPACE_MAX :: nat where "MONGOC_NAMESPACE_MAX \<equiv> 128"

text \<open>\<open>bson_snprintf\<close> into an array of \<open>n\<close> bytes of a text without NUL.\<close>

definition snprintf :: "nat \<Rightarrow> bytes \<Rightarrow> view" where
  "snprintf n s = take (n - 1) s @ [0]"

definition mongoc_collection_new ::
    "view \<Rightarrow> view \<Rightarrow> mongoc_read_prefs_t option \<Rightarrow> mongoc_collection_t result" where
  "mongoc_collection_new db collection prefs =
     rbind (case prefs of Some p \<Rightarrow> mongoc_read_prefs_copy p
            | None \<Rightarrow> Ok (mongoc_read_prefs_new MONGOC_READ_PRIMARY)) (\<lambda>p.
     rbind (c_string db) (\<lambda>d. rbind (c_string collection) (\<lambda>c.
       Ok \<lparr>co_ns = snprintf 128 (d @ map of_char ''.'' @ c), co_db = snprintf 128 d,
           co_collection = snprintf 128 c, co_collectionlen = length (take 127 c), co_read_prefs = Some p\<rparr>)))"

definition mongoc_client_get_collection ::
    "'n mongoc_client_t option \<Rightarrow> view option \<Rightarrow> view option \<Rightarrow> mongoc_collection_t option result" where
  "mongoc_client_get_collection client db collection =
     (case (client, db, collection) of
        (Some cl, Some d, Some c) \<Rightarrow> rbind (mongoc_collection_new d c (cl_read_prefs cl)) (\<lambda>co. Ok (Some co))
      | _ \<Rightarrow> Ok None)"

definition mongoc_client_command ::
    "'n mongoc_client_t \<Rightarrow> view \<Rightarrow> 32 word \<Rightarrow> nat \<Rightarrow> nat \<Rightarrow> nat \<Rightarrow> bson_t \<Rightarrow> bson_t option
      \<Rightarrow> mongoc_read_prefs_t option \<Rightarrow> mongoc_cursor_t result" where
  "mongoc_client_command client db_name flags skip limit batch_size query flds prefs =
     rbind (c_string db_name) (\<lambda>db.
       mongoc_cursor_new client
         (if c_strstr db (map of_char ''$cmd'') then db_name
          else snprintf MONGOC_NAMESPACE_MAX (db @ map of_char ''.$cmd''))
         flags skip limit batch_size True query flds (if prefs = None then cl_read_prefs client else prefs))"

text \<open>Whether the command succeeded, the reply, the error and what is left of the client.\<close>

definition mongoc_client_command_simple ::
    "'n driver \<Rightarrow> 'n mongoc_client_t \<Rightarrow> view \<Rightarrow> bson_t \<Rightarrow> mongoc_read_prefs_t option
      \<Rightarrow> (bool \<times> bson_t \<times> bson_error_t option \<times> 'n mongoc_client_t) result" where
  "mongoc_client_command_simple d client db_name command prefs =
     rbind (mongoc_client_command client db_name MONGOC_QUERY_NONE 0 1 0 command None prefs) (\<lambda>cursor.
     rbind (mongoc_cursor_next d (cursor, client)) (\<lambda>(doc, cursor, client).
     rbind (case doc of Some b \<Rightarrow> bson_copy_to b | None \<Rightarrow> Ok bson_init) (\<lambda>reply.
       Ok (doc \<noteq> None, reply, if doc = None then mongoc_cursor_error cursor else None,
           mongoc_cursor_destroy d (cursor, client)))))"

definition mongoc_collection_command ::
    "'n mongoc_client_t \<Rightarrow> mongoc_collection_t \<Rightarrow> 32 word \<Rightarrow> nat \<Rightarrow> nat \<Rightarrow> nat \<Rightarrow> bson_t \<Rightarrow> bson_t option
      \<Rightarrow> mongoc_read_prefs_t option \<Rightarrow> mongoc_cursor_t result" where
  "mongoc_collection_command client collection flags skip limit batch_size query flds prefs =
     rbind (c_string (co_collection collection)) (\<lambda>coll. rbind (c_string (co_db collection)) (\<lambda>db.
       mongoc_client_command client
         (snprintf MONGOC_NAMESPACE_MAX
            (if \<not> c_strstr coll (map of_char ''$cmd'') then db else db @ map of_char ''.'' @ coll))
         flags skip limit batch_size query flds
         (if prefs = None then co_read_prefs collection else prefs)))"

definition mongoc_collection_command_simple ::
    "'n driver \<Rightarrow> 'n mongoc_client_t \<Rightarrow> mongoc_collection_t \<Rightarrow> bson_t \<Rightarrow> mongoc_read_prefs_t option
      \<Rightarrow> (bool \<times> bson_t \<times> bson_error_t option \<times> 'n mongoc_client_t) result" where
  "mongoc_collection_command_simple d client collection command prefs =
     mongoc_client_command_simple d client (co_db collection) command prefs"

definition mongoc_collection_count ::
    "'n driver \<Rightarrow> 'n mongoc_client_t \<Rightarrow> mongoc_collection_t \<Rightarrow> bson_t option \<Rightarrow> 64 word \<Rightarrow> 64 word
      \<Rightarrow> mongoc_read_prefs_t option \<Rightarrow> (64 word \<times> bson_error_t option \<times> 'n mongoc_client_t) result" where
  "mongoc_collection_count d client collection query skip limit prefs =
     rbind (bson_append_utf8 bson_init (Some (ascii ''count'')) 5 (Some (co_collection collection))
              (as_int32 (co_collectionlen collection))) (\<lambda>(_, cmd).
     rbind (bson_append_document cmd (Some (ascii ''query'')) 5 (case query of None \<Rightarrow> bson_init | Some q \<Rightarrow> q)) (\<lambda>(_, cmd).
     rbind (if limit \<noteq> 0 then bson_append_int64 cmd (Some (ascii ''limit'')) 5 limit else Ok (True, cmd)) (\<lambda>(_, cmd).
     rbind (if skip \<noteq> 0 then bson_append_int64 cmd (Some (ascii ''skip'')) 4 skip else Ok (True, cmd)) (\<lambda>(_, cmd).
     rbind (mongoc_collection_command_simple d client collection cmd prefs) (\<lambda>(ok, reply, error, client).
     rbind (if ok then bson_iter_init_find reply (ascii ''n'') else Ok (False, iter_zero)) (\<lambda>(found, it).
     rbind (if found then bson_iter_as_int64 it else Ok (- 1)) (\<lambda>n. Ok (n, error, client))))))))"

section \<open>The cursor for a command\<close>

text \<open>What \<open>bson_iter_as_bool\<close> and \<open>bson_iter_as_int64\<close> make of a value.\<close>

fun bool_value :: "bval \<Rightarrow> bool" where
  "bool_value (BBool b) = b"
| "bool_value (BDouble w) = (\<not> double_is_zero w)"
| "bool_value (BInt64 w) = (w \<noteq> 0)"
| "bool_value (BInt32 w) = (w \<noteq> 0)"
| "bool_value BNull = False"
| "bool_value BUndefined = False"
| "bool_value x = True"

lemma as_bool_on_elem: "on_elem k x it \<Longrightarrow> bson_iter_as_bool it = Ok (bool_value x)"
  using ITER_TYPE_on_elem [of k x it]
  by (cases x) (auto simp: bson_iter_as_bool_def fixed_accessors_on_elem)

definition int_value :: "bval \<Rightarrow> 64 word result" where
  "int_value x =
     (case x of BBool b \<Rightarrow> Ok (if b then 1 else 0) | BInt64 w \<Rightarrow> Ok w | BInt32 w \<Rightarrow> Ok (of_int (sint w))
      | BDouble w \<Rightarrow> rbind (double_to_int (- (2 ^ 63)) (2 ^ 63 - 1) w) (\<lambda>i. Ok (of_int i)) | _ \<Rightarrow> Ok 0)"

lemma as_int64_on_elem: "on_elem k x it \<Longrightarrow> bson_iter_as_int64 it = int_value x"
  using ITER_TYPE_on_elem [of k x it]
  by (cases x) (auto simp: bson_iter_as_int64_def int_value_def fixed_accessors_on_elem)

text \<open>The first element of a document with a given key, as \<open>bson_iter_init_find\<close> finds it.\<close>

definition elem :: "string \<Rightarrow> bdoc \<Rightarrow> bval option" where
  "elem key es = map_option snd (find (\<lambda>e. fst e = map of_char key) es)"

lemma init_find_elem:
  assumes "holds_doc b es" "0 \<notin> set (map of_char key :: bytes)"
  shows "\<exists>it. bson_iter_init_find b (ascii key) = Ok (elem key es \<noteq> None, it)
     \<and> (\<forall>x. elem key es = Some x \<longrightarrow> on_elem (map of_char key) x it)"
proof -
  obtain it where it: "bson_iter_init b = (True, it)" "iter_upto es 0 it"
    using assms(1) by (rule iter_init_holds_doc)
  have k: "k = map of_char key" if "find (\<lambda>e. fst e = map of_char key) es = Some (k, x)" for k x
    using that by (auto simp: find_Some_iff) (metis fst_conv)
  show ?thesis
    using bson_iter_find_correct [OF it(2) assms(2), of "[]"] it(1) k
    by (auto simp: bson_iter_init_find_def elem_def ascii_append split: option.splits)
qed

definition command_ok :: "bdoc \<Rightarrow> bool" where
  "command_ok es \<longleftrightarrow> (case elem ''ok'' es of None \<Rightarrow> True | Some x \<Rightarrow> bool_value x)"

text \<open>The flags of a command that may go to a secondary.\<close>

definition command_flags :: "32 word \<Rightarrow> mongoc_read_prefs_t option \<Rightarrow> 32 word" where
  "command_flags flags prefs =
     (if prefs \<noteq> None \<and> pf_mode (the prefs) \<noteq> MONGOC_READ_PRIMARY
      then set_bit MONGOC_QUERY_SLAVE_OK flags else flags)"

definition command_cursor :: "32 word \<Rightarrow> nat \<Rightarrow> nat \<Rightarrow> bytes \<Rightarrow> bdoc \<Rightarrow> mongoc_cursor_t \<Rightarrow> bool" where
  "command_cursor flags limit batch_size ns qs c \<longleftrightarrow>
     \<not> c_failed c \<and> \<not> c_sent c \<and> \<not> c_done c \<and> c_is_command c \<and> \<not> c_in_exhaust c \<and> c_reader c = None
     \<and> c_count c = 0 \<and> c_limit c = limit \<and> c_skip c = 0 \<and> c_batch_size c = batch_size
     \<and> c_flags c = flags \<and> c_ns c = take 139 ns \<and> holds_doc (c_query c) qs \<and> \<not> c_has_fields c
     \<and> rp_cursor_id (c_rpc c) = 0"

text \<open>Commands whose name is in the table of those that may run on a secondary.\<close>

definition routable :: "bytes \<Rightarrow> bool" where
  "routable k \<longleftrightarrow> (\<forall>t. known_command gSecondaryOkCommands (k @ 0 # t) = Ok True)"

lemma routable_names: "routable (map of_char ''aggregate'')" "routable (map of_char ''count'')"
  by (simp_all add: routable_def gSecondaryOkCommands_def ascii_def c_tolower_def)

lemma reroute_known:
  assumes "holds_doc q ((k, x) # es)" "routable k"
  shows "reroute_command True q prefs = Ok (False, prefs)"
proof -
  obtain it where it: "bson_iter_init q = (True, it)" "iter_upto ((k, x) # es) 0 it"
    using assms(1) by (rule iter_init_holds_doc)
  obtain it' where it': "bson_iter_next it = Ok (True, it')" "on_elem k x it'"
    using iter_upto_next [OF it(2)] by auto
  obtain t where "bson_iter_key it' = Ok (k @ 0 # t)" using on_elem_key [OF it'(2)] by blast
  then show ?thesis using it(1) it'(1) assms(2)
    by (auto simp: reroute_command_def routable_def split: option.splits)
qed

lemma command_new_ok:
  assumes "holds_doc q ((k, x) # es)" "inline_ok q" "routable k" "\<not> mixed_keys ((k, x) # es)"
    "c_string ns = Ok name" "prefs_hold prefs ts" "\<not> has_flag flags MONGOC_QUERY_EXHAUST"
    "length (enc_elems (((k, x) # es) @ preferences prefs ts)) + 6 \<le> 2 ^ 30"
    "prefs = None \<longrightarrow> cl_read_prefs cl = None"
  shows "\<exists>c. mongoc_cursor_new cl ns flags 0 limit batch_size True q None prefs = Ok c
     \<and> command_cursor (command_flags flags prefs) limit batch_size name (((k, x) # es) @ preferences prefs ts) c"
proof -
  define F where "F = command_flags flags prefs"
  have P: "(if prefs = None then cl_read_prefs cl else prefs) = prefs" using assms(9) by simp
  have f: "\<not> has_flag F MONGOC_QUERY_EXHAUST"
    using assms(7) by (simp add: F_def command_flags_def has_flag_def bit_set_bit_iff)
  have "b_len q \<le> 2 ^ 30" using assms(1,8) by (simp add: holds_doc_def)
  from bson_copy_to_building [OF assms(1) this assms(2)] obtain b where
    b: "wrap_query True q = Ok b" "building b ((k, x) # es)" "roomy b" by (auto simp: wrap_query_def)
  obtain b' where b': "add_read_preference prefs b = Ok b'" "holds_doc b' (((k, x) # es) @ preferences prefs ts)"
    using add_read_preference_ok [OF b(2,3) assms(6,8)] by blast
  obtain p where p: "(case prefs of None \<Rightarrow> Ok None | Some p \<Rightarrow> rbind (mongoc_read_prefs_copy p) (\<lambda>p. Ok (Some p))) = Ok p"
    using prefs_copy(2) [OF assms(6)] by blast
  have fl: "(if True \<and> prefs \<noteq> None \<and> pf_mode (the prefs) \<noteq> MONGOC_READ_PRIMARY
      then set_bit MONGOC_QUERY_SLAVE_OK flags else flags) = F"
    by (simp add: F_def command_flags_def)
  define c0 where "c0 = \<lparr>c_hint = 0, c_is_command = True, c_sent = False, c_done = False, c_failed = False,
     c_end_of_event = False, c_in_exhaust = False, c_redir_primary = False, c_has_fields = False,
     c_query = bson_init, c_fields = bson_init, c_read_prefs = None, c_flags = F, c_skip = 0,
     c_limit = limit, c_count = 0, c_batch_size = batch_size, c_ns = take 139 name, c_error = (0, 0),
     c_rpc = zero_reply, c_reader = None, c_current = None\<rparr>"
  have n: "(None :: bson_t option) \<noteq> None \<longleftrightarrow> False" by simp
  have "mongoc_cursor_new cl ns flags 0 limit batch_size True q None prefs
      = Ok (c0\<lparr>c_query := b', c_read_prefs := p, c_fields := bson_init\<rparr>)"
    unfolding mongoc_cursor_new_def Let_def P fl reroute_known [OF assms(1,3)] copy_ns_def assms(5) rbind_simps
      prod.case n c0_def [symmetric] mixes_dollar_keys_ok [OF assms(1)] b(1) p b'(1)
    using f assms(4) by simp
  then show ?thesis using b'(2) by (simp add: command_cursor_def c0_def zero_reply_def F_def)
qed

section \<open>The reply to a command\<close>

text \<open>
  The server answers the next request, if it is one that satisfies \<open>ask\<close>, with a reply for which
  \<open>P reply request_id n\<close> holds, where \<open>n\<close> is the state of the connection afterwards.
\<close>

definition answers ::
    "'n driver \<Rightarrow> (request \<Rightarrow> bool) \<Rightarrow> 'n \<Rightarrow> (mongoc_rpc_reply_t \<Rightarrow> nat \<Rightarrow> 'n \<Rightarrow> bool) \<Rightarrow> bool" where
  "answers d ask n P \<longleftrightarrow>
     (\<exists>n1. d_warm_up d n = (None, n1)
       \<and> (\<forall>msg h. ask msg \<longrightarrow>
            (\<exists>h' rid n2. d_sendv d n1 msg h = (Inr (h', rid), n2)
              \<and> (\<forall>k. \<exists>r n3. d_recv d n2 k = (Inr r, n3) \<and> P r rid n3))))"

lemma get_first_good:
  assumes "good_reply r rid [es] mo"
  shows "\<exists>b. mongoc_rpc_reply_get_first r = Ok (Some b) \<and> holds_doc b es"
proof -
  obtain t where t: "rp_documents r = Some (encode_doc es @ t)" "rp_documents_len r = length (encode_doc es)"
    "wf_doc es" "length (encode_doc es) \<le> INT32_MAX"
    using assms by (auto simp: good_reply_def points_to_def)
  obtain b where b: "rd32 (encode_doc es @ t) 0 = Ok (length (encode_doc es))"
    "bson_init_static (encode_doc es @ t) (length (encode_doc es)) = Ok (Some b)" "holds_doc b es"
    using init_static_doc [OF t(3)] by blast
  have "as_int32 (length (encode_doc es)) = int (length (encode_doc es))"
    using t(4) by (intro as_int32_nonneg) simp
  moreover have "\<not> length (encode_doc es) < 4" by simp
  ultimately show ?thesis using t b by (simp add: mongoc_rpc_reply_get_first_def del: length_encode_doc)
qed

lemma populate_error_ok:
  assumes "holds_doc b es"
  shows "\<exists>code. mongoc_cursor_populate_error b c = Ok (set_error MONGOC_ERROR_QUERY code c)"
proof -
  have "0 \<notin> set (map of_char ''code'' :: bytes)" by code_simp
  from init_find_elem [OF assms this] obtain it where it: "bson_iter_init_find b (ascii ''code'') = Ok (elem ''code'' es \<noteq> None, it)"
    "\<forall>x. elem ''code'' es = Some x \<longrightarrow> on_elem (map of_char ''code'') x it" by blast
  show ?thesis
  proof (cases "elem ''code'' es")
    case (Some x)
    then have e: "on_elem (map of_char ''code'') x it" using it(2) by simp
    have h: "iter_holds it BSON_TYPE_INT32 = Ok (val_type x = BSON_TYPE_INT32)"
      using on_elemE [OF e] iter_holds_on_field by metis
    show ?thesis
    proof (cases "val_type x = BSON_TYPE_INT32")
      case True
      then obtain w where "x = BInt32 w" by (cases x) auto
      then show ?thesis using it(1) e h Some by (auto simp: mongoc_cursor_populate_error_def fixed_accessors_on_elem)
    qed (use it(1) h Some in \<open>auto simp: mongoc_cursor_populate_error_def\<close>)
  qed (use it(1) in \<open>auto simp: mongoc_cursor_populate_error_def\<close>)
qed

lemma unwrap_failure_command:
  assumes "good_reply (c_rpc c) rid [es] mo" "c_is_command c"
  shows "\<exists>e. mongoc_cursor_unwrap_failure c = Ok (\<not> command_ok es, c\<lparr>c_error := e\<rparr>)
     \<and> (command_ok es \<longrightarrow> e = c_error c)"
proof -
  obtain b where b: "mongoc_rpc_reply_get_first (c_rpc c) = Ok (Some b)" "holds_doc b es"
    using get_first_good [OF assms(1)] by blast
  have "0 \<notin> set (map of_char ''ok'' :: bytes)" by code_simp
  from init_find_elem [OF b(2) this] obtain it where it: "bson_iter_init_find b (ascii ''ok'') = Ok (elem ''ok'' es \<noteq> None, it)"
    "\<forall>x. elem ''ok'' es = Some x \<longrightarrow> on_elem (map of_char ''ok'') x it" by blast
  have g: "rp_opcode (c_rpc c) = MONGOC_OPCODE_REPLY" "\<not> has_flag (rp_flags (c_rpc c)) MONGOC_REPLY_CURSOR_NOT_FOUND"
    "\<not> has_flag (rp_flags (c_rpc c)) MONGOC_REPLY_QUERY_FAILURE" using assms(1) by (simp_all add: good_reply_def)
  obtain code where code: "mongoc_cursor_populate_error b c = Ok (set_error MONGOC_ERROR_QUERY code c)"
    using populate_error_ok [OF b(2)] by blast
  have c: "c = c\<lparr>c_error := c_error c\<rparr>" by simp
  show ?thesis
  proof (cases "elem ''ok'' es")
    case None
    then have "mongoc_cursor_unwrap_failure c = Ok (False, c)" "command_ok es"
      using g b(1) it(1) assms(2) by (simp_all add: mongoc_cursor_unwrap_failure_def Let_def command_ok_def)
    with c show ?thesis by metis
  next
    case (Some x)
    then have v: "bson_iter_as_bool it = Ok (bool_value x)" using it(2) as_bool_on_elem by blast
    have "mongoc_cursor_unwrap_failure c = (if bool_value x then Ok (False, c) else Ok (True, set_error MONGOC_ERROR_QUERY code c))"
      using g b(1) it(1) assms(2) v Some code by (simp add: mongoc_cursor_unwrap_failure_def Let_def)
    moreover have "command_ok es = bool_value x" using Some by (simp add: command_ok_def)
    ultimately show ?thesis
      by (intro exI [of _ "if command_ok es then c_error c else (MONGOC_ERROR_QUERY, code)"]) (simp add: set_error_def)
  qed
qed

lemma receive_reply_command:
  assumes "d_recv d (cl_net cl) (c_hint c) = (Inr r, n)" "good_reply r rid [es] mo" "c_is_command c"
  shows "\<exists>rd e. receive_reply d rid (c, cl) =
      (if command_ok es then Ok (True, c\<lparr>c_rpc := r, c_error := e, c_reader := Some rd\<rparr>, cl\<lparr>cl_net := n\<rparr>)
       else Ok (False, c\<lparr>c_rpc := r, c_error := e\<rparr>, cl\<lparr>cl_net := n\<rparr>)) \<and> reader_holds rd [es]
      \<and> (command_ok es \<longrightarrow> e = c_error c)"
proof -
  obtain t where t: "rp_documents r = Some (concat (map encode_doc [es]) @ t)"
    using assms(2) by (auto simp: good_reply_def points_to_def)
  obtain rd where rd: "bson_reader_new_from_data (rp_documents r) (rp_documents_len r) = Some rd" "reader_holds rd [es]"
    using reader_holds_new [of "[es]" t] assms(2) by (simp add: good_reply_def t bson_reader_new_from_data_def)
  obtain e where e: "mongoc_cursor_unwrap_failure (c\<lparr>c_rpc := r\<rparr>) = Ok (\<not> command_ok es, c\<lparr>c_rpc := r, c_error := e\<rparr>)"
    "command_ok es \<longrightarrow> e = c_error c"
    using unwrap_failure_command [of "c\<lparr>c_rpc := r\<rparr>" rid es mo] assms(2,3) by auto
  have g: "rp_opcode r = MONGOC_OPCODE_REPLY" "rp_response_to r = rid" using assms(2) by (simp_all add: good_reply_def)
  have "receive_reply d rid (c, cl) = rbind (mongoc_cursor_unwrap_failure (c\<lparr>c_rpc := r\<rparr>)) (\<lambda>(failure, c).
      if failure then Ok (False, c, cl\<lparr>cl_net := n\<rparr>) else Ok (True, c\<lparr>c_reader := Some rd\<rparr>, cl\<lparr>cl_net := n\<rparr>))"
    using g assms(1) rd(1) by (simp add: receive_reply_def Let_def cong: if_cong)
  then show ?thesis using rd(2) e by (intro exI [of _ rd] exI [of _ e]) simp
qed

text \<open>
  The first call on the cursor of a command: the reply document, or no document and a failed cursor.
\<close>

lemma command_next:
  assumes "command_cursor flags limit batch_size ns qs c" "\<not> cl_in_exhaust cl"
    "\<not> has_flag flags MONGOC_QUERY_EXHAUST"
    "answers d (\<lambda>m. m = query_message c) (cl_net cl) (\<lambda>r rid n. good_reply r rid [es] mo \<and> Q r n)"
  shows "\<exists>b c' cl'. mongoc_cursor_next_base d (c, cl) = Ok (b, c', cl') \<and> \<not> cl_in_exhaust cl' \<and> \<not> c_in_exhaust c'
     \<and> c_limit c' = limit \<and> c_count c' = 0 \<and> c_flags c' = flags \<and> c_is_command c'
     \<and> (rp_cursor_id (c_rpc c') \<noteq> 0) = mo \<and> Q (c_rpc c') (cl_net cl') \<and> (b \<noteq> None) = command_ok es \<and> c_failed c' = (b = None)
     \<and> (\<forall>doc. b = Some doc \<longrightarrow> holds_doc doc es \<and> c_sent c' \<and> \<not> c_done c' \<and> (\<exists>rd. c_reader c' = Some rd \<and> reader_holds rd []))"
proof -
  note c = assms(1) [unfolded command_cursor_def]
  obtain n1 h' rid n2 where w: "d_warm_up d (cl_net cl) = (None, n1)"
    and sent: "d_sendv d n1 (query_message c) (c_hint c) = (Inr (h', rid), n2)"
    and recv: "\<forall>k. \<exists>r n3. d_recv d n2 k = (Inr r, n3) \<and> good_reply r rid [es] mo \<and> Q r n3"
    using assms(4) unfolding answers_def by blast
  define cl2 where "cl2 = cl\<lparr>cl_net := n2\<rparr>"
  define c2 where "c2 = c\<lparr>c_hint := h'\<rparr>"
  obtain r n3 where r: "d_recv d (cl_net cl2) (c_hint c2) = (Inr r, n3)" "good_reply r rid [es] mo" "Q r n3"
    using recv unfolding cl2_def by simp blast
  have "c_is_command c2" using c by (simp add: c2_def)
  from receive_reply_command [OF r(1,2) this] obtain rd e where rd:
    "receive_reply d rid (c2, cl2) =
      (if command_ok es then Ok (True, c2\<lparr>c_rpc := r, c_error := e, c_reader := Some rd\<rparr>, cl2\<lparr>cl_net := n3\<rparr>)
       else Ok (False, c2\<lparr>c_rpc := r, c_error := e\<rparr>, cl2\<lparr>cl_net := n3\<rparr>))" "reader_holds rd [es]" by blast
  have id: "(rp_cursor_id r \<noteq> 0) = mo" using r(2) by (simp add: good_reply_def)
  have start: "mongoc_cursor_next_base d (c, cl) = rbind (mongoc_cursor_query d (c, cl)) (\<lambda>(ok, c, cl).
      if \<not> ok then Ok (None, c, cl) else rbind (reader_read c) (\<lambda>(b, eof, c). next_complete b eof (c, cl)))"
    using c assms(2) by (auto simp: mongoc_cursor_next_base_def)
  have query: "mongoc_cursor_query d (c, cl) = rbind (receive_reply d rid (c2, cl2)) (\<lambda>(ok, c, cl).
      if \<not> ok then Ok (False, fail_done c, cl)
      else Ok (True, c\<lparr>c_in_exhaust := (c_in_exhaust c \<or> has_flag (c_flags c) MONGOC_QUERY_EXHAUST), c_done := False,
                       c_end_of_event := False, c_sent := True\<rparr>,
               cl\<lparr>cl_in_exhaust := (cl_in_exhaust cl \<or> has_flag (c_flags c) MONGOC_QUERY_EXHAUST)\<rparr>))"
    using w sent by (simp add: mongoc_cursor_query_def c2_def cl2_def Let_def cong: if_cong)
  show ?thesis
  proof (cases "command_ok es")
    case True
    obtain b rd' where b: "bson_reader_read rd = Ok (Some b, False, rd')" "holds_doc b es" "reader_holds rd' []"
      using reader_read_cons [OF rd(2)] by blast
    define c3 where "c3 = c2\<lparr>c_rpc := r, c_error := e, c_reader := Some rd', c_done := False, c_end_of_event := False,
      c_sent := True, c_in_exhaust := False\<rparr>"
    have "mongoc_cursor_next_base d (c, cl) = Ok (Some b, c3, cl\<lparr>cl_net := n3\<rparr>)"
      unfolding start query rd(1)
      using True assms(2,3) b(1) c by (simp add: c2_def cl2_def c3_def reader_read_def next_complete_def Let_def)
    then show ?thesis using True assms(2,3) b r(3) id c by (simp add: c3_def c2_def)
  next
    case False
    then have "mongoc_cursor_next_base d (c, cl) = Ok (None, fail_done (c2\<lparr>c_rpc := r, c_error := e\<rparr>), cl2\<lparr>cl_net := n3\<rparr>)"
      unfolding start query rd(1) by simp
    then show ?thesis using False assms(2,3) r(3) id c by (simp add: c2_def cl2_def fail_done_def)
  qed
qed

section \<open>Running a command\<close>

definition asks_command :: "bytes \<Rightarrow> 32 word \<Rightarrow> bdoc \<Rightarrow> request \<Rightarrow> bool" where
  "asks_command ns flags qs m \<longleftrightarrow> (\<exists>q. m = Query flags ns 0 1 q None \<and> points_to (Some q) (encode_doc qs))"

lemma command_asks:
  assumes "command_cursor flags limit batch_size ns qs c" "\<not> has_flag flags MONGOC_QUERY_TAILABLE_CURSOR"
  shows "asks_command (take 139 ns) flags qs (query_message c)"
  using assms by (simp add: command_cursor_def asks_command_def query_message_def mongoc_n_return_def
      holds_doc_def bson_get_data_def)

lemma answers_weaken: "answers d ask n P \<Longrightarrow> (\<And>m. ask' m \<Longrightarrow> ask m) \<Longrightarrow> (\<And>r rid n. P r rid n \<Longrightarrow> P' r rid n)
    \<Longrightarrow> answers d ask' n P'"
  unfolding answers_def by meson

lemma c_string_no_nul: "c_string v = Ok s \<Longrightarrow> 0 \<notin> set s"
  by (auto simp: c_string_def split: if_splits dest: set_takeWhileD)

lemma c_string_snprintf: "0 \<notin> set s \<Longrightarrow> c_string (snprintf n s) = Ok (take (n - 1) s)"
  using c_string_append [of "take (n - 1) s" "[]"] by (auto simp: snprintf_def dest: in_set_takeD)

text \<open>The namespace of the commands on the database \<open>db\<close>.\<close>

definition command_ns :: "bytes \<Rightarrow> bytes" where
  "command_ns db = take 127 (db @ map of_char ''.$cmd'')"

text \<open>A command with its elements \<open>es\<close>, the read preferences in force and a database name are in order.\<close>

definition command_ready :: "bdoc \<Rightarrow> bytes \<Rightarrow> mongoc_read_prefs_t option \<Rightarrow> bdoc \<Rightarrow> bool" where
  "command_ready es db prefs ts \<longleftrightarrow> es \<noteq> [] \<and> routable (fst (hd es)) \<and> \<not> mixed_keys es
     \<and> \<not> c_strstr db (map of_char ''$cmd'') \<and> prefs_hold prefs ts
     \<and> length (enc_elems (es @ preferences prefs ts)) + 6 \<le> 2 ^ 30"

lemma has_flag_none [simp]: "\<not> has_flag 0 n"
  by (simp add: has_flag_def)

lemma command_flags_bits:
  "has_flag (command_flags flags prefs) n \<longleftrightarrow> has_flag flags n
     \<or> n = MONGOC_QUERY_SLAVE_OK \<and> prefs \<noteq> None \<and> pf_mode (the prefs) \<noteq> MONGOC_READ_PRIMARY"
  by (auto simp: command_flags_def has_flag_def bit_set_bit_iff)

lemma client_command_ok:
  assumes "holds_doc q es" "inline_ok q" "command_ready es db P ts" "c_string v = Ok db"
    "P = (if prefs = None then cl_read_prefs cl else prefs)"
  shows "\<exists>c. mongoc_client_command cl v 0 0 limit batch_size q None prefs = Ok c
     \<and> command_cursor (command_flags 0 P) limit batch_size (command_ns db) (es @ preferences P ts) c"
proof -
  obtain k x es' where es: "es = (k, x) # es'" using assms(3) by (cases es) (auto simp: command_ready_def)
  have r: "routable k" "\<not> mixed_keys ((k, x) # es')" "\<not> c_strstr db (map of_char ''$cmd'')" "prefs_hold P ts"
    "length (enc_elems (((k, x) # es') @ preferences P ts)) + 6 \<le> 2 ^ 30"
    using assms(3) by (simp_all add: command_ready_def es)
  have "0 \<notin> set (db @ map of_char ''.$cmd'')"
    using c_string_no_nul [OF assms(4)] by simp
  from c_string_snprintf [OF this, of 128] have ns: "c_string (snprintf 128 (db @ map of_char ''.$cmd'')) = Ok (command_ns db)"
    by (simp add: command_ns_def)
  have "\<not> has_flag 0 MONGOC_QUERY_EXHAUST" by (simp add: has_flag_def)
  moreover have "P = None \<longrightarrow> cl_read_prefs cl = None" using assms(5) by auto
  ultimately obtain c where
    "mongoc_cursor_new cl (snprintf 128 (db @ map of_char ''.$cmd'')) 0 0 limit batch_size True q None P = Ok c"
    "command_cursor (command_flags 0 P) limit batch_size (command_ns db) (((k, x) # es') @ preferences P ts) c"
    using command_new_ok [OF assms(1,2) [unfolded es] r(1,2) ns r(4) _ r(5)] by blast
  moreover have "mongoc_client_command cl v 0 0 limit batch_size q None prefs
      = mongoc_cursor_new cl (snprintf 128 (db @ map of_char ''.$cmd'')) 0 0 limit batch_size True q None P"
    using r(3) assms(4,5) by (simp add: mongoc_client_command_def)
  ultimately show ?thesis unfolding es by metis
qed

lemma command_ns_short: "take 139 (command_ns db) = command_ns db"
  by (simp add: command_ns_def)

text \<open>What a command returns: the reply document if its \<open>ok\<close> is true, otherwise an empty document and an error.\<close>

lemma command_simple_ok:
  assumes "holds_doc q es" "inline_ok q" "command_ready es db P ts" "c_string v = Ok db"
    "P = (if prefs = None then cl_read_prefs cl else prefs)" "\<not> cl_in_exhaust cl"
    "answers d (asks_command (command_ns db) (command_flags 0 P) (es @ preferences P ts)) (cl_net cl)
       (\<lambda>r rid n. good_reply r rid [rs] False)"
  shows "\<exists>reply error cl'. mongoc_client_command_simple d cl v q prefs = Ok (command_ok rs, reply, error, cl')
     \<and> holds_doc reply (if command_ok rs then rs else []) \<and> (error = None) = command_ok rs"
proof -
  obtain c where c: "mongoc_client_command cl v 0 0 1 0 q None prefs = Ok c"
    "command_cursor (command_flags 0 P) 1 0 (command_ns db) (es @ preferences P ts) c"
    using client_command_ok [OF assms(1-5)] by blast
  have nf: "\<not> has_flag (command_flags 0 P) MONGOC_QUERY_EXHAUST" "\<not> has_flag (command_flags 0 P) MONGOC_QUERY_TAILABLE_CURSOR"
    by (simp_all add: command_flags_bits)
  have "answers d (\<lambda>m. m = query_message c) (cl_net cl) (\<lambda>r rid n. good_reply r rid [rs] False \<and> True)"
    using command_asks [OF c(2) nf(2)] command_ns_short by (intro answers_weaken [OF assms(7)]) simp_all
  from command_next [OF c(2) assms(6) nf(1) this] obtain b c' cl' where
    n: "mongoc_cursor_next_base d (c, cl) = Ok (b, c', cl')" "\<not> c_in_exhaust c'" "rp_cursor_id (c_rpc c') = 0"
      "(b \<noteq> None) = command_ok rs" "c_failed c' = (b = None)" "\<forall>doc. b = Some doc \<longrightarrow> holds_doc doc rs" by blast
  have nf: "\<not> c_failed c" using c(2) by (simp add: command_cursor_def)
  define c'' where "c'' = c'\<lparr>c_current := b, c_count := w32 (c_count c' + 1)\<rparr>"
  have nx: "mongoc_cursor_next d (c, cl) = Ok (b, c'', cl')"
    using n(1) nf by (simp add: mongoc_cursor_next_def c''_def)
  have e: "(mongoc_cursor_error c'' = None) = (b \<noteq> None)"
    using n(5) by (auto simp: mongoc_cursor_error_def c''_def split: prod.splits)
  obtain reply where reply: "(case b of Some b \<Rightarrow> bson_copy_to b | None \<Rightarrow> Ok bson_init) = Ok reply"
    "holds_doc reply (if command_ok rs then rs else [])"
    using n(4,6) bson_copy_to_ok building_init by (cases b) (fastforce simp: building_def)+
  have "mongoc_client_command_simple d cl v q prefs = Ok (b \<noteq> None, reply,
      if b = None then mongoc_cursor_error c'' else None, mongoc_cursor_destroy d (c'', cl'))"
    unfolding mongoc_client_command_simple_def c(1) rbind_simps nx prod.case reply(1) ..
  then show ?thesis using n(4) e reply(2) by auto
qed

end
