(* ===== verification/Monary_Count.thy ===== *)
theory Monary_Count
  imports Monary_Query Mongoc_Command
begin

text \<open>
  The functions of \<open>cmonary.c\<close> that choose a collection and count its documents.
\<close>

definition monary_use_collection ::
    "'n mongoc_client_t option \<Rightarrow> view option \<Rightarrow> view option \<Rightarrow> mongoc_collection_t option result" where
  "monary_use_collection client db collection = mongoc_client_get_collection client db collection"

text \<open>The length is copied from the buffer without a conversion of the byte order.\<close>

definition monary_query_count ::
    "'n driver \<Rightarrow> 'n mongoc_client_t \<Rightarrow> mongoc_collection_t \<Rightarrow> view \<Rightarrow> (64 word \<times> 'n mongoc_client_t) result" where
  "monary_query_count d client collection query =
     rbind (rd32 query 0) (\<lambda>query_size.
     rbind (bson_init_static query query_size) (\<lambda>query_bson.
       case query_bson of
         None \<Rightarrow> Ok (- 1, client)
       | Some q \<Rightarrow> rbind (mongoc_collection_count d client collection (Some q) 0 0 None)
           (\<lambda>(n, error, client). Ok (n, client))))"

section \<open>Collections\<close>

text \<open>A handle for the collection \<open>c\<close> of the database \<open>db\<close>, with read preferences whose tags are \<open>ts\<close>.\<close>

definition names_collection :: "mongoc_collection_t \<Rightarrow> bytes \<Rightarrow> bytes \<Rightarrow> nat \<Rightarrow> bdoc \<Rightarrow> bool" where
  "names_collection co db c mode ts \<longleftrightarrow> c_string (co_ns co) = Ok (db @ map of_char ''.'' @ c)
     \<and> c_string (co_db co) = Ok db \<and> str_arg (co_collection co) (as_int32 (co_collectionlen co)) c
     \<and> c_string (co_collection co) = Ok c
     \<and> (\<exists>p. co_read_prefs co = Some p \<and> pf_mode p = mode \<and> holds_doc (pf_tags p) ts)"

lemma snprintf_short: "length s < n \<Longrightarrow> snprintf n s = s @ [0]"
  by (simp add: snprintf_def)

lemma collection_new_ok:
  assumes "c_string d = Ok db" "c_string v = Ok c" "length db + length c < 127" "prefs_hold prefs ts"
  shows "\<exists>co. mongoc_collection_new d v prefs = Ok co
     \<and> (case prefs of None \<Rightarrow> names_collection co db c MONGOC_READ_PRIMARY []
        | Some p \<Rightarrow> names_collection co db c (pf_mode p) ts)"
proof -
  have n: "0 \<notin> set db" "0 \<notin> set c" using c_string_no_nul assms(1,2) by blast+
  obtain p where p: "(case prefs of Some p \<Rightarrow> mongoc_read_prefs_copy p
            | None \<Rightarrow> Ok (mongoc_read_prefs_new MONGOC_READ_PRIMARY)) = Ok p"
    "case prefs of None \<Rightarrow> pf_mode p = MONGOC_READ_PRIMARY \<and> holds_doc (pf_tags p) []
       | Some p' \<Rightarrow> pf_mode p = pf_mode p' \<and> holds_doc (pf_tags p) ts"
  proof (cases prefs)
    case None
    then show ?thesis using that building_init by (auto simp: mongoc_read_prefs_new_def building_def)
  next
    case (Some p')
    then obtain t where "bson_copy_to (pf_tags p') = Ok t" "holds_doc t ts"
      using bson_copy_to_ok [of "pf_tags p'" ts] assms(4) by (auto simp: prefs_hold_def)
    then show ?thesis using that Some by (auto simp: mongoc_read_prefs_copy_def)
  qed
  define co where "co = \<lparr>co_ns = snprintf 128 (db @ map of_char ''.'' @ c), co_db = snprintf 128 db,
    co_collection = snprintf 128 c, co_collectionlen = length (take 127 c), co_read_prefs = Some p\<rparr>"
  have "mongoc_collection_new d v prefs = Ok co"
    unfolding mongoc_collection_new_def p(1) assms(1,2) rbind_simps co_def ..
  moreover have "names_collection co db c (pf_mode p) ts'" if "holds_doc (pf_tags p) ts'" for ts'
    using n assms(3) that c_string_append [of "db @ map of_char ''.'' @ c" "[]"] c_string_append [of db "[]"]
      c_string_append [of c "[]"]
    by (simp add: names_collection_def co_def snprintf_short str_arg_def as_int32_nonneg)
  ultimately show ?thesis using p(2) by (cases prefs) auto
qed

text \<open>
  A collection handle names what it was asked for: with names that fit into the 128 bytes of the
  namespace, \<open>monary_use_collection\<close> returns a handle with the namespace \<open>db.collection\<close>, both names
  and a copy of the read preferences of the client, or primary if it has none.
\<close>

theorem use_collection_names:
  assumes "c_string d = Ok db" "c_string v = Ok c" "length db + length c < 127" "prefs_hold (cl_read_prefs client) ts"
  shows "\<exists>co. monary_use_collection (Some client) (Some d) (Some v) = Ok (Some co)
     \<and> (case cl_read_prefs client of None \<Rightarrow> names_collection co db c MONGOC_READ_PRIMARY []
        | Some p \<Rightarrow> names_collection co db c (pf_mode p) ts)"
  using collection_new_ok [OF assms]
  by (auto simp: monary_use_collection_def mongoc_client_get_collection_def)

theorem use_collection_names_witness:
  "\<exists>co. monary_use_collection (Some ((client_with [])\<lparr>cl_read_prefs := Some secondary_prefs\<rparr>)) (Some [0x61, 0, 0xFF]) (Some [0x62, 0])
       = Ok (Some co)
     \<and> names_collection co [0x61] [0x62] MONGOC_READ_SECONDARY []"
proof -
  have "holds_doc bson_init []" using building_init by (simp add: building_def)
  then show ?thesis
    using use_collection_names [of "[0x61, 0, 0xFF]" "[0x61]" "[0x62, 0]" "[0x62]"
        "(client_with [])\<lparr>cl_read_prefs := Some secondary_prefs\<rparr>" "[]"]
    by (simp add: c_string_def secondary_prefs_def mongoc_read_prefs_new_def prefs_hold_def client_with_def)
qed

section \<open>Counting\<close>

definition count_command :: "bytes \<Rightarrow> bdoc \<Rightarrow> bdoc" where
  "count_command name es = [(map of_char ''count'', BUtf8 name), (map of_char ''query'', BDocument es)]"

lemma count_command_built:
  assumes "str_arg (co_collection coll) (as_int32 (co_collectionlen coll)) name" "holds_doc q es"
    "length (enc_elems (count_command name es)) + 6 \<le> 2 ^ 30"
  shows "\<exists>c1 cmd. bson_append_utf8 bson_init (Some (ascii ''count'')) 5 (Some (co_collection coll))
              (as_int32 (co_collectionlen coll)) = Ok (True, c1)
     \<and> bson_append_document c1 (Some (ascii ''query'')) 5 q = Ok (True, cmd)
     \<and> building cmd (count_command name es) \<and> roomy cmd"
proof -
  define C where "C = (map of_char ''count'' :: bytes)"
  define Q where "Q = (map of_char ''query'' :: bytes)"
  have C: "0 \<notin> set C" "length C = 5" "str_arg (ascii ''count'') 5 C"
    and Q: "0 \<notin> set Q" "length Q = 5" "str_arg (ascii ''query'') 5 Q"
    by (simp_all add: C_def Q_def str_arg_def ascii_def)
  have l: "length (enc_elem C (BUtf8 name)) = length name + 12" "length (enc_elem Q (BDocument es)) = length (encode_doc es) + 7"
    using C(2) Q(2) by (simp_all add: length_enc_elem)
  have room: "length name + length (encode_doc es) + 25 \<le> 2 ^ 30"
    using assms(3) l unfolding count_command_def C_def [symmetric] Q_def [symmetric] enc_elems_Cons by simp
  have "str_means BUtf8 (co_collection coll, as_int32 (co_collectionlen coll)) (BUtf8 name)"
    using assms(1) by (simp add: str_means_def)
  moreover have "fits bson_init (length (enc_elem C (BUtf8 name)))"
    using room by (intro roomy_fits roomy_init) (simp add: l bson_init_def)
  ultimately obtain c1 where c1: "bson_append_utf8 bson_init (Some (ascii ''count'')) 5 (Some (co_collection coll))
      (as_int32 (co_collectionlen coll)) = Ok (True, c1)" "building c1 [(C, BUtf8 name)]" "grown bson_init c1"
      "b_len c1 = b_len bson_init + length (enc_elem C (BUtf8 name))"
    using app_utf8.appends [OF building_init _ C(3,1), of "(co_collection coll, as_int32 (co_collectionlen coll))" "BUtf8 name"]
      room l by (auto simp: appended_def enc_elem_def)
  note r1 = roomy_grown [OF roomy_init c1(3)]
  have "fits c1 (length (enc_elem Q (BDocument es)))"
    using room c1(4) by (intro roomy_fits r1) (simp add: l bson_init_def)
  moreover have "doc_means BDocument q (BDocument es)" using assms(2) by (simp add: doc_means_def)
  ultimately obtain c2 where "bson_append_document c1 (Some (ascii ''query'')) 5 q = Ok (True, c2)"
    "building c2 [(C, BUtf8 name), (Q, BDocument es)]" "grown c1 c2"
    using app_document.appends [OF c1(2) _ Q(3,1), of q "BDocument es"] room l by (auto simp: appended_def enc_elem_def)
  with c1(1) show ?thesis
    using roomy_grown [OF r1] by (auto simp: count_command_def C_def Q_def)
qed

text \<open>
  C18: \<open>monary_query_count\<close> sends the command \<open>{count: collection, query: query}\<close>, followed by the read
  preference of the client, to \<open>$cmd\<close> of the database, and returns the number that the reply has under
  \<open>n\<close>, or -1 when the reply reports a failure or has no \<open>n\<close>.
\<close>

theorem query_count_result:
  assumes "wf_doc es" "str_arg (co_collection coll) (as_int32 (co_collectionlen coll)) name"
    "c_string (co_db coll) = Ok db" "command_ready (count_command name es) db (cl_read_prefs client) ts"
    "\<not> cl_in_exhaust client"
    "answers d (asks_command (command_ns db) (command_flags 0 (cl_read_prefs client))
        (count_command name es @ preferences (cl_read_prefs client) ts)) (cl_net client)
       (\<lambda>r rid n. good_reply r rid [rs] False)"
  shows "\<exists>client'. monary_query_count d client coll (encode_doc es @ t) =
     (if \<not> command_ok rs then Ok (- 1, client')
      else case elem ''n'' rs of None \<Rightarrow> Ok (- 1, client') | Some x \<Rightarrow> rbind (int_value x) (\<lambda>n. Ok (n, client')))"
proof -
  obtain qb where qb: "rd32 (encode_doc es @ t) 0 = Ok (length (encode_doc es))"
    "bson_init_static (encode_doc es @ t) (length (encode_doc es)) = Ok (Some qb)" "holds_doc qb es"
    using init_static_doc [OF assms(1)] by blast
  have "length (enc_elems (count_command name es)) + 6 \<le> 2 ^ 30"
    using assms(4) by (simp add: command_ready_def)
  from count_command_built [OF assms(2) qb(3) this] obtain c1 cmd where cmd:
    "bson_append_utf8 bson_init (Some (ascii ''count'')) 5 (Some (co_collection coll)) (as_int32 (co_collectionlen coll)) = Ok (True, c1)"
    "bson_append_document c1 (Some (ascii ''query'')) 5 qb = Ok (True, cmd)"
    "building cmd (count_command name es)" "roomy cmd" by blast
  have h: "holds_doc cmd (count_command name es)" "inline_ok cmd" using cmd(3,4) by (simp_all add: building_def inline_ok_def)
  have P: "cl_read_prefs client = (if None = None then cl_read_prefs client else None)" by simp
  obtain reply error cl' where run: "mongoc_client_command_simple d client (co_db coll) cmd None = Ok (command_ok rs, reply, error, cl')"
    "holds_doc reply (if command_ok rs then rs else [])"
    using command_simple_ok [OF h assms(4,3) P assms(5,6)] by blast
  have count: "monary_query_count d client coll (encode_doc es @ t) =
      rbind (if command_ok rs then bson_iter_init_find reply (ascii ''n'') else Ok (False, iter_zero)) (\<lambda>(found, it).
      rbind (if found then bson_iter_as_int64 it else Ok (- 1)) (\<lambda>n. Ok (n, cl')))"
    using qb(1,2) cmd(1,2) run(1)
    by (auto simp: monary_query_count_def mongoc_collection_count_def mongoc_collection_command_simple_def rbind_assoc
        split_beta' simp del: length_encode_doc)
  show ?thesis
  proof (cases "command_ok rs")
    case True
    have "0 \<notin> set (map of_char ''n'' :: bytes)" by code_simp
    with init_find_elem [of reply rs "''n''"] run(2) True obtain it where
      "bson_iter_init_find reply (ascii ''n'') = Ok (elem ''n'' rs \<noteq> None, it)"
      "\<forall>x. elem ''n'' rs = Some x \<longrightarrow> on_elem (map of_char ''n'') x it" by auto
    then show ?thesis using True as_int64_on_elem by (cases "elem ''n'' rs") (auto simp: count)
  qed (simp add: count)
qed

text \<open>A connection whose one reply answers any request.\<close>

lemma scripted_answers:
  assumes "wf_doc es"
  shows "answers scripted ask [reply_with 0 [es]] (\<lambda>r rid n. good_reply r rid [es] False)"
  using assms by (simp add: answers_def scripted_def reply_with_def good_reply_def has_flag_def points_to_def wf_doc_def)

definition count_reply :: bdoc where
  "count_reply = [(map of_char ''n'', BInt32 42), (map of_char ''ok'', BDouble 0x3FF0000000000000)]"

theorem query_count_result_witness:
  "\<exists>client'. monary_query_count scripted (client_with [reply_with 0 [count_reply]]) collection_ab (encode_doc sample_doc @ [])
     = Ok (42, client')"
proof -
  let ?cl = "client_with [reply_with 0 [count_reply]]"
  have "wf_doc count_reply" by (simp add: count_reply_def wf_doc_def encode_doc_def)
  from scripted_answers [OF this] have ans: "answers scripted ask (cl_net ?cl) (\<lambda>r rid n. good_reply r rid [count_reply] False)" for ask
    by (simp add: client_with_def)
  have prefs: "cl_read_prefs ?cl = None" "\<not> cl_in_exhaust ?cl" by (simp_all add: client_with_def)
  have a: "str_arg (co_collection collection_ab) (as_int32 (co_collectionlen collection_ab)) [0x62]"
    by (simp add: collection_ab_def str_arg_def as_int32_def w32_def)
  have db: "c_string (co_db collection_ab) = Ok [0x61]" by (simp add: collection_ab_def c_string_def)
  have "\<not> mixed_keys (count_command [0x62] sample_doc)" by code_simp
  moreover have "\<not> c_strstr [0x61] (map of_char ''$cmd'')" by code_simp
  moreover have "length (enc_elems (count_command [0x62] sample_doc)) = 46" by code_simp
  ultimately have ready: "command_ready (count_command [0x62] sample_doc) [0x61] (cl_read_prefs ?cl) []"
    using routable_names(2) by (simp add: command_ready_def prefs prefs_hold_def sample_prefs count_command_def)
  have "command_ok count_reply" by code_simp
  moreover have "elem ''n'' count_reply = Some (BInt32 42)" by code_simp
  moreover have "int_value (BInt32 42) = Ok 42" by (simp add: int_value_def)
  ultimately show ?thesis
    using query_count_result [OF sample_short(2) a db ready prefs(2) ans, of "[]"] by auto
qed

end
