(* ===== verification/Mongoc_Aggregate.thy ===== *)
theory Mongoc_Aggregate
  imports Mongoc_Command
begin

text \<open>
  Cursors with an interface table of their own: \<open>mongoc-cursor-cursorid.c\<close>, which unpacks the cursor
  document of a command reply and goes on as a plain cursor, \<open>mongoc-cursor-array.c\<close>, which walks over
  the result array of an old server, the dispatch on the table in \<open>mongoc-cursor.c\<close>, and
  \<open>mongoc_collection_aggregate\<close>.

  The table is modelled by the kind of its cursor, with the data behind \<open>iface_data\<close>.
\<close>

section \<open>State\<close>

record mongoc_cursor_cursorid_t =
  cid_has_cursor :: bool
  cid_in_first_batch :: bool
  cid_first_batch_iter :: bson_iter_t
  cid_first_batch_inline :: bson_t

record mongoc_cursor_array_t =
  arr_result :: "bson_t option"
  arr_has_array :: bool
  arr_iter :: bson_iter_t
  arr_bson :: bson_t
  arr_document_len :: nat
  arr_document :: "view option"

datatype iface =
    No_Iface
  | Cursorid mongoc_cursor_cursorid_t
  | Array mongoc_cursor_array_t

type_synonym 'n cursor = "iface \<times> 'n state"

text \<open>A handle with all bytes zero.\<close>

definition bson_zero :: bson_t where
  "bson_zero = \<lparr>b_flags = {}, b_len = 0, b_buf = [], b_offset = 0, b_depth = 0, b_realloc = False\<rparr>"

definition mongoc_cursor_cursorid_new :: mongoc_cursor_cursorid_t where
  "mongoc_cursor_cursorid_new = \<lparr>cid_has_cursor = False, cid_in_first_batch = False,
     cid_first_batch_iter = iter_zero, cid_first_batch_inline = bson_zero\<rparr>"

definition mongoc_cursor_array_new :: mongoc_cursor_array_t where
  "mongoc_cursor_array_new = \<lparr>arr_result = None, arr_has_array = False, arr_iter = iter_zero,
     arr_bson = bson_zero, arr_document_len = 0, arr_document = None\<rparr>"

section \<open>Cursors for a cursor document\<close>

definition iter_is_key :: "bson_iter_t \<Rightarrow> string \<Rightarrow> bool result" where
  "iter_is_key it key = rbind (bson_iter_key it) (c_strcmp_eq (ascii key))"

text \<open>The loop over the first batch: the next element that is a document, of any key.\<close>

fun first_batch_loop :: "nat \<Rightarrow> bson_iter_t \<Rightarrow> (bson_t option \<times> bson_iter_t) result" where
  "first_batch_loop 0 it = Fault No_Termination"
| "first_batch_loop (Suc fuel) it =
     rbind (bson_iter_next it) (\<lambda>(more, it).
       if \<not> more then Ok (None, it)
       else rbind (iter_holds it BSON_TYPE_DOCUMENT) (\<lambda>h.
         if \<not> h then first_batch_loop fuel it
         else rbind (bson_iter_document it) (\<lambda>(data_len, data).
           rbind (static_doc data data_len) (\<lambda>b.
             case b of Some b \<Rightarrow> Ok (Some b, it) | None \<Rightarrow> first_batch_loop fuel it))))"

text \<open>The code at the label \<open>process_first_batch\<close>; the flag says whether it has returned.\<close>

definition process_first_batch ::
    "mongoc_cursor_cursorid_t \<Rightarrow> mongoc_cursor_t
      \<Rightarrow> (bool \<times> bson_t option \<times> mongoc_cursor_cursorid_t \<times> mongoc_cursor_t) result" where
  "process_first_batch cid c =
     rbind (first_batch_loop (iter_fuel (cid_first_batch_iter cid)) (cid_first_batch_iter cid)) (\<lambda>(b, it).
       let cid = cid\<lparr>cid_first_batch_iter := it\<rparr> in
       case b of
         Some doc \<Rightarrow> Ok (True, Some doc, cid\<lparr>cid_first_batch_inline := doc\<rparr>, c)
       | None \<Rightarrow>
           let cid = cid\<lparr>cid_in_first_batch := False\<rparr>; c = c\<lparr>c_end_of_event := True\<rparr> in
           if rp_cursor_id (c_rpc c) = 0 then Ok (True, None, cid, c\<lparr>c_done := True\<rparr>)
           else Ok (False, None, cid, c))"

text \<open>The loop over the fields of the cursor document.\<close>

fun cursor_fields ::
    "nat \<Rightarrow> bson_iter_t \<Rightarrow> mongoc_cursor_cursorid_t \<Rightarrow> mongoc_cursor_t
      \<Rightarrow> (mongoc_cursor_cursorid_t \<times> mongoc_cursor_t) result" where
  "cursor_fields 0 it cid c = Fault No_Termination"
| "cursor_fields (Suc fuel) it cid c =
     rbind (bson_iter_next it) (\<lambda>(more, it).
       if \<not> more then Ok (cid, c)
       else rbind (iter_is_key it ''id'') (\<lambda>is_id.
         if is_id then rbind (bson_iter_as_int64 it) (\<lambda>n.
           cursor_fields fuel it cid (c\<lparr>c_rpc := (c_rpc c)\<lparr>rp_cursor_id := n\<rparr>\<rparr>))
         else rbind (iter_is_key it ''ns'') (\<lambda>is_ns.
           if is_ns then rbind (bson_iter_utf8 it) (\<lambda>(ns, nslen).
             case ns of
               None \<Rightarrow> Fault Null_Deref
             | Some s \<Rightarrow> rbind (copy_ns s) (\<lambda>ns. cursor_fields fuel it cid (c\<lparr>c_ns := ns\<rparr>)))
           else rbind (iter_is_key it ''firstBatch'') (\<lambda>is_first.
             if is_first then rbind (iter_holds it BSON_TYPE_ARRAY) (\<lambda>h.
               rbind (if h then bson_iter_recurse it else Ok None) (\<lambda>r.
                 cursor_fields fuel it
                   (case r of None \<Rightarrow> cid
                    | Some tmp \<Rightarrow> cid\<lparr>cid_first_batch_iter := tmp, cid_in_first_batch := True\<rparr>) c))
             else cursor_fields fuel it cid c))))"

text \<open>The iterator over the cursor document of a reply, if it has one.\<close>

definition cursor_document :: "bson_t option \<Rightarrow> bson_iter_t option result" where
  "cursor_document bson =
     (case bson of
        None \<Rightarrow> Ok None
      | Some b \<Rightarrow> rbind (bson_iter_init_find b (ascii ''cursor'')) (\<lambda>(found, it).
          if \<not> found then Ok None
          else rbind (iter_holds it BSON_TYPE_DOCUMENT) (\<lambda>h.
            if h then bson_iter_recurse it else Ok None)))"

definition mongoc_cursor_cursorid_next ::
    "'n driver \<Rightarrow> mongoc_cursor_cursorid_t \<Rightarrow> 'n state
      \<Rightarrow> (bson_t option \<times> mongoc_cursor_cursorid_t \<times> 'n state) result" where
  "mongoc_cursor_cursorid_next d cid s =
     (let (c, cl) = s in
      rbind (if cid_in_first_batch cid then process_first_batch cid c else Ok (False, None, cid, c)) (\<lambda>(ret, b, cid, c).
        if ret then Ok (b, cid, c, cl)
        else rbind (mongoc_cursor_next_base d (c, cl)) (\<lambda>(b, c, cl).
          if cid_has_cursor cid then Ok (b, cid, c, cl)
          else
            let cid = cid\<lparr>cid_has_cursor := True\<rparr> in
            rbind (cursor_document b) (\<lambda>child.
              case child of
                None \<Rightarrow> Ok (b, cid, c, cl)
              | Some it \<Rightarrow>
                  rbind (cursor_fields (iter_fuel it) it cid c) (\<lambda>(cid, c).
                    let c = c\<lparr>c_is_command := False\<rparr> in
                    if cid_in_first_batch cid then
                      rbind (process_first_batch cid (c\<lparr>c_end_of_event := False\<rparr>)) (\<lambda>(ret, b, cid, c).
                        if ret then Ok (b, cid, c, cl)
                        else rbind (mongoc_cursor_next_base d (c, cl)) (\<lambda>(b, s). Ok (b, cid, s)))
                    else if rp_cursor_id (c_rpc c) \<noteq> 0
                    then rbind (mongoc_cursor_next_base d (c, cl)) (\<lambda>(b, s). Ok (b, cid, s))
                    else Ok (b, cid, c, cl))))))"

section \<open>Cursors for a result array\<close>

text \<open>A failed \<open>bson_init_static\<close> leaves the handle as it was; its result is not looked at.\<close>

definition mongoc_cursor_array_next ::
    "'n driver \<Rightarrow> mongoc_cursor_array_t \<Rightarrow> 'n state
      \<Rightarrow> (bson_t option \<times> mongoc_cursor_array_t \<times> 'n state) result" where
  "mongoc_cursor_array_next d arr s =
     rbind (if \<not> arr_has_array arr then
              rbind (mongoc_cursor_next_base d s) (\<lambda>(b, s).
                let arr = arr\<lparr>arr_has_array := True, arr_result := b\<rparr> in
                case b of
                  None \<Rightarrow> Ok (False, arr, s)
                | Some doc \<Rightarrow> rbind (bson_iter_init_find doc (ascii ''result'')) (\<lambda>(found, it).
                    rbind (if found then iter_holds it BSON_TYPE_ARRAY else Ok False) (\<lambda>h.
                    rbind (if h then bson_iter_recurse it else Ok None) (\<lambda>r.
                      case r of
                        None \<Rightarrow> Ok (False, arr, s)
                      | Some tmp \<Rightarrow> rbind (bson_iter_next tmp) (\<lambda>(more, tmp).
                          Ok (more, arr\<lparr>arr_iter := tmp\<rparr>, s))))))
            else rbind (bson_iter_next (arr_iter arr)) (\<lambda>(more, it). Ok (more, arr\<lparr>arr_iter := it\<rparr>, s)))
       (\<lambda>(ret, arr, s).
         if \<not> ret then Ok (None, arr, s)
         else rbind (bson_iter_document (arr_iter arr)) (\<lambda>(document_len, document).
           rbind (static_doc document document_len) (\<lambda>b.
             let arr = arr\<lparr>arr_document_len := document_len, arr_document := document,
                           arr_bson := (case b of None \<Rightarrow> arr_bson arr | Some doc \<Rightarrow> doc)\<rparr>
             in Ok (Some (arr_bson arr), arr, s))))"

definition mongoc_cursor_array_more :: "mongoc_cursor_array_t \<Rightarrow> bool result" where
  "mongoc_cursor_array_more arr =
     (if arr_has_array arr then rbind (bson_iter_next (arr_iter arr)) (\<lambda>(more, _). Ok more) else Ok True)"

section \<open>Dispatch\<close>

definition cursor_next :: "'n driver \<Rightarrow> 'n cursor \<Rightarrow> (bson_t option \<times> 'n cursor) result" where
  "cursor_next d cur =
     (let (i, c, cl) = cur in
      if c_failed c then Ok (None, cur)
      else rbind (case i of
                    No_Iface \<Rightarrow> rbind (mongoc_cursor_next_base d (c, cl)) (\<lambda>(b, s). Ok (b, No_Iface, s))
                  | Cursorid cid \<Rightarrow> rbind (mongoc_cursor_cursorid_next d cid (c, cl)) (\<lambda>(b, cid, s). Ok (b, Cursorid cid, s))
                  | Array arr \<Rightarrow> rbind (mongoc_cursor_array_next d arr (c, cl)) (\<lambda>(b, arr, s). Ok (b, Array arr, s)))
             (\<lambda>(b, i, c, cl). Ok (b, i, c\<lparr>c_current := b, c_count := w32 (c_count c + 1)\<rparr>, cl)))"

lemma cursor_next_plain:
  "cursor_next d (No_Iface, s) = rbind (mongoc_cursor_next d s) (\<lambda>(b, s). Ok (b, No_Iface, s))"
proof -
  obtain c cl where s: "s = (c, cl)" by fastforce
  show ?thesis
    by (cases "mongoc_cursor_next_base d s") (auto simp: s cursor_next_def mongoc_cursor_next_def)
qed

definition cursor_more :: "iface \<times> mongoc_cursor_t \<Rightarrow> bool result" where
  "cursor_more cur =
     (case cur of
        (Array arr, c) \<Rightarrow> mongoc_cursor_array_more arr
      | (_, c) \<Rightarrow> Ok (mongoc_cursor_more c))"

text \<open>No table has a function for errors.\<close>

definition cursor_error :: "'n cursor \<Rightarrow> bson_error_t option" where
  "cursor_error cur = mongoc_cursor_error (fst (snd cur))"

text \<open>Both destroy functions release \<open>iface_data\<close> and go on with \<open>_mongoc_cursor_destroy\<close>.\<close>

definition cursor_destroy :: "'n driver \<Rightarrow> 'n cursor \<Rightarrow> 'n mongoc_client_t" where
  "cursor_destroy d cur = mongoc_cursor_destroy d (snd cur)"

definition cursor_clone :: "iface \<times> mongoc_cursor_t \<Rightarrow> (iface \<times> mongoc_cursor_t) result" where
  "cursor_clone cur =
     rbind (mongoc_cursor_clone (snd cur)) (\<lambda>c.
       Ok (case fst cur of
             No_Iface \<Rightarrow> No_Iface
           | Cursorid _ \<Rightarrow> Cursorid mongoc_cursor_cursorid_new
           | Array _ \<Rightarrow> Array mongoc_cursor_array_new, c))"

section \<open>Aggregation\<close>

text \<open>The options that go into the cursor document; \<open>(int32_t) bson_iter_as_int64 (&iter)\<close> truncates.\<close>

fun aggregate_options ::
    "nat \<Rightarrow> bson_iter_t \<Rightarrow> bson_t \<Rightarrow> bool \<Rightarrow> 32 word \<Rightarrow> (bson_t \<times> bool \<times> 32 word) result" where
  "aggregate_options 0 it child did_batch_size batch_size = Fault No_Termination"
| "aggregate_options (Suc fuel) it child did_batch_size batch_size =
     rbind (bson_iter_next it) (\<lambda>(more, it).
       if \<not> more then Ok (child, did_batch_size, batch_size)
       else rbind (iter_is_key it ''batchSize'') (\<lambda>is_batch. rbind (bson_iter_type it) (\<lambda>ty.
         if is_batch \<and> ty \<in> {BSON_TYPE_INT32, BSON_TYPE_INT64, BSON_TYPE_DOUBLE} then
           rbind (bson_iter_as_int64 it) (\<lambda>n.
           rbind (bson_append_int32 child (Some (ascii ''batchSize'')) 9 (ucast n)) (\<lambda>(_, child).
             aggregate_options fuel it child True (ucast n)))
         else rbind (iter_is_key it ''allowDiskUse'') (\<lambda>is_disk.
           if is_disk \<and> ty = BSON_TYPE_BOOL then
             rbind (bson_iter_bool it) (\<lambda>v.
             rbind (bson_append_bool child (Some (ascii ''allowDiskUse'')) 12 v) (\<lambda>(_, child).
               aggregate_options fuel it child did_batch_size batch_size))
           else
             rbind (bson_iter_key it) (\<lambda>key.
             rbind (bson_append_iter child (Some key) (- 1) it) (\<lambda>(_, child).
               aggregate_options fuel it child did_batch_size batch_size))))))"

text \<open>Results of the append functions are not looked at; a failed \<open>begin\<close> leaves \<open>child\<close> uninitialised.\<close>

definition add_cursor_document :: "bson_t \<Rightarrow> bson_t option \<Rightarrow> (bson_t \<times> 32 word) result" where
  "add_cursor_document command options =
     rbind (bson_append_document_begin command (Some (ascii ''cursor'')) 6) (\<lambda>(_, command, child).
       case child of
         None \<Rightarrow> Fault Dangling_Pointer
       | Some child \<Rightarrow>
           rbind (case options of
                    None \<Rightarrow> Ok (child, False, 0)
                  | Some opts \<Rightarrow> (case bson_iter_init opts of
                      (False, _) \<Rightarrow> Ok (child, False, 0)
                    | (True, it) \<Rightarrow> aggregate_options (iter_fuel it) it child False 0))
             (\<lambda>(child, did_batch_size, batch_size).
           rbind (if did_batch_size then Ok (True, child)
                  else bson_append_int32 child (Some (ascii ''batchSize'')) 9 100) (\<lambda>(_, child).
           rbind (bson_append_document_end command child) (\<lambda>(_, command). Ok (command, batch_size)))))"

definition aggregate_command :: "mongoc_collection_t \<Rightarrow> bson_t \<Rightarrow> bson_t result" where
  "aggregate_command collection pipeline =
     rbind (int_strlen (co_collection collection)) (\<lambda>n.
     rbind (bson_append_utf8 bson_init (Some (ascii ''aggregate'')) 9 (Some (co_collection collection)) n) (\<lambda>(_, command).
     rbind (bson_iter_init_find pipeline (ascii ''pipeline'')) (\<lambda>(found, it).
     rbind (if found then iter_holds it BSON_TYPE_ARRAY else Ok False) (\<lambda>h.
     rbind (if h then bson_append_iter command (Some (ascii ''pipeline'')) 8 it
            else bson_append_array command (Some (ascii ''pipeline'')) 8 pipeline) (\<lambda>(_, command). Ok command)))))"

definition mongoc_collection_aggregate ::
    "'n driver \<Rightarrow> 'n mongoc_client_t \<Rightarrow> mongoc_collection_t \<Rightarrow> 32 word \<Rightarrow> bson_t \<Rightarrow> bson_t option
      \<Rightarrow> mongoc_read_prefs_t option \<Rightarrow> 'n cursor result" where
  "mongoc_collection_aggregate d client collection flags pipeline options prefs =
     (let (hint, net) = d_preselect d (cl_net client) prefs;
          max_wire_version = (if hint = 0 then 1 else d_max_wire_version d net hint);
          client = client\<lparr>cl_net := net\<rparr>
      in rbind (aggregate_command collection pipeline) (\<lambda>command.
         rbind (if max_wire_version \<noteq> 0 then add_cursor_document command options else Ok (command, 0)) (\<lambda>(command, batch_size).
         rbind (mongoc_collection_command client collection flags 0 0 (unat batch_size) command None prefs) (\<lambda>c.
           Ok (if max_wire_version > 0 then Cursorid mongoc_cursor_cursorid_new else Array mongoc_cursor_array_new,
               c\<lparr>c_hint := hint, c_limit := 0\<rparr>, client)))))"

section \<open>The first batch\<close>

text \<open>The documents of an array; elements of another type are passed over.\<close>

fun documents :: "bdoc \<Rightarrow> bdoc list" where
  "documents [] = []"
| "documents ((k, BDocument es) # xs) = es # documents xs"
| "documents (_ # xs) = documents xs"

lemma documents_Cons: "documents ((k, x) # xs) = (case x of BDocument es \<Rightarrow> es # documents xs | _ \<Rightarrow> documents xs)"
  by (cases x) auto

lemma iter_holds_on_elem: "on_elem k x it \<Longrightarrow> iter_holds it t = Ok (val_type x = t)"
  using on_elemE [of k x it] iter_holds_on_field by metis

lemma first_batch_loop_upto:
  assumes "iter_upto fb n it" "length fb - n < fuel"
  shows "\<exists>b it'. first_batch_loop fuel it = Ok (b, it')
     \<and> (case documents (drop n fb) of [] \<Rightarrow> b = None
        | es # ds \<Rightarrow> (\<exists>doc. b = Some doc \<and> holds_doc doc es) \<and> (\<exists>m. iter_upto fb m it' \<and> documents (drop m fb) = ds))"
  using assms
proof (induction fuel arbitrary: n it)
  case (Suc fuel)
  show ?case
  proof (cases "n < length fb")
    case True
    obtain k x where kx: "fb ! n = (k, x)" by fastforce
    obtain it' where s: "bson_iter_next it = Ok (True, it')" "iter_upto fb (Suc n) it'" "on_elem k x it'"
      using iter_upto_next [OF Suc.prems(1) True] kx by (metis fst_conv snd_conv)
    have dr: "drop n fb = (k, x) # drop (Suc n) fb" using True kx by (metis Cons_nth_drop_Suc)
    note h = iter_holds_on_elem [OF s(3), of BSON_TYPE_DOCUMENT]
    show ?thesis
    proof (cases "\<exists>es. x = BDocument es")
      case doc: True
      then obtain es where x: "x = BDocument es" by blast
      then obtain p where p: "points_to p (encode_doc es)" "bson_iter_document it' = Ok (length (encode_doc es), p)"
        using document_on_elem [OF s(3), of es] by auto
      have wf: "wf_doc es" using wf_doc_child [OF s(3)] x by blast
      obtain t where t: "p = Some (encode_doc es @ t)" using p(1) by (auto simp: points_to_def)
      obtain b where b: "bson_init_static (encode_doc es @ t) (length (encode_doc es)) = Ok (Some b)" "holds_doc b es"
        using init_static_doc [OF wf] by blast
      have "first_batch_loop (Suc fuel) it = Ok (Some b, it')"
        using s(1) h p(2) b(1) t x by (simp add: static_doc_def)
      then show ?thesis using b(2) s(2) dr x by auto
    next
      case False
      then have v: "val_type x \<noteq> BSON_TYPE_DOCUMENT" "documents (drop n fb) = documents (drop (Suc n) fb)"
        unfolding dr by (cases x; simp)+
      have "length fb - Suc n < fuel" using Suc.prems(2) True by simp
      from Suc.IH [OF s(2) this] show ?thesis using s(1) h v by simp
    qed
  next
    case False
    with Suc.prems(1) have n: "n = length fb" by (simp add: iter_upto_def)
    obtain it' where "bson_iter_next it = Ok (False, it')"
      using iter_upto_end Suc.prems(1) unfolding n by blast
    then show ?thesis by (simp add: n)
  qed
qed simp

lemma iter_upto_fuel: "iter_upto es n it \<Longrightarrow> length es - n < iter_fuel it"
  using length_le_enc_elems [of es] by (simp add: iter_upto_def iter_fuel_def)

section \<open>The cursor document\<close>

lemma iter_is_key_on_elem:
  assumes "on_elem k x it" "0 \<notin> set (map of_char key :: bytes)"
  shows "iter_is_key it key = Ok (k = map of_char key)"
proof -
  obtain t where t: "bson_iter_key it = Ok (k @ 0 # t)" using on_elem_key [OF assms(1)] by blast
  have "0 \<notin> set k" using assms(1) by (simp add: on_elem_def)
  with c_strcmp_eq_keys [OF assms(2) this, of "[]" t] show ?thesis
    by (auto simp: iter_is_key_def t ascii_append)
qed

lemma elem_Cons: "elem key ((k, x) # es) = (if k = map of_char key then Some x else elem key es)"
  by (simp add: elem_def)

lemma elem_key: "elem key es = Some x \<Longrightarrow> map of_char key \<in> fst ` set es"
  by (induction es) (auto simp: elem_def split: if_splits)

lemma cursor_keys_no_nul: "0 \<notin> set (map of_char ''id'' :: bytes)" "0 \<notin> set (map of_char ''ns'' :: bytes)"
  "0 \<notin> set (map of_char ''firstBatch'' :: bytes)" "0 \<notin> set (map of_char ''cursor'' :: bytes)"
  "0 \<notin> set (map of_char ''result'' :: bytes)" "0 \<notin> set (map of_char ''pipeline'' :: bytes)"
  by code_simp+

lemma cursor_keys_distinct: "(map of_char ''id'' :: bytes) \<noteq> map of_char ''ns''"
  "(map of_char ''id'' :: bytes) \<noteq> map of_char ''firstBatch''" "(map of_char ''ns'' :: bytes) \<noteq> map of_char ''firstBatch''"
  by code_simp+

text \<open>A cursor document whose fields have the types that the loop takes for granted.\<close>

definition cursor_doc_ok :: "bdoc \<Rightarrow> bool" where
  "cursor_doc_ok cs \<longleftrightarrow> distinct (map fst cs)
     \<and> (\<forall>x. elem ''id'' cs = Some x \<longrightarrow> safe (int_value x)) \<and> (\<forall>x. elem ''ns'' cs = Some x \<longrightarrow> val_type x = BSON_TYPE_UTF8)"

definition id_of :: "bdoc \<Rightarrow> 64 word \<Rightarrow> 64 word" where
  "id_of cs old = (case elem ''id'' cs of None \<Rightarrow> old | Some x \<Rightarrow> (case int_value x of Inl _ \<Rightarrow> old | Inr n \<Rightarrow> n))"

definition batch_read :: "bdoc \<Rightarrow> mongoc_cursor_cursorid_t \<Rightarrow> mongoc_cursor_cursorid_t \<Rightarrow> bool" where
  "batch_read cs cid cid' \<longleftrightarrow>
     (case elem ''firstBatch'' cs of
        Some (BArray fb) \<Rightarrow> \<exists>it. iter_upto fb 0 it \<and> cid' = cid\<lparr>cid_first_batch_iter := it, cid_in_first_batch := True\<rparr>
      | _ \<Rightarrow> cid' = cid)"

lemma cursor_fields_upto:
  assumes "iter_upto cs n it" "length cs - n < fuel" "cursor_doc_ok (drop n cs)"
  shows "\<exists>cid' ns. cursor_fields fuel it cid c
      = Ok (cid', c\<lparr>c_rpc := (c_rpc c)\<lparr>rp_cursor_id := id_of (drop n cs) (rp_cursor_id (c_rpc c))\<rparr>, c_ns := ns\<rparr>)
     \<and> batch_read (drop n cs) cid cid'"
  using assms
proof (induction fuel arbitrary: n it cid c)
  case (Suc fuel)
  show ?case
  proof (cases "n < length cs")
    case True
    obtain k x where kx: "cs ! n = (k, x)" by fastforce
    obtain it' where s: "bson_iter_next it = Ok (True, it')" "iter_upto cs (Suc n) it'" "on_elem k x it'"
      using iter_upto_next [OF Suc.prems(1) True] kx by (metis fst_conv snd_conv)
    have dr: "drop n cs = (k, x) # drop (Suc n) cs" using True kx by (metis Cons_nth_drop_Suc)
    have "k \<notin> fst ` set (drop (Suc n) cs)" using Suc.prems(3) unfolding dr cursor_doc_ok_def by simp
    then have gone: "elem key (drop (Suc n) cs) = None" if "k = map of_char key" for key
      using that elem_key [of key "drop (Suc n) cs"] by (cases "elem key (drop (Suc n) cs)") auto
    have ok: "cursor_doc_ok (drop (Suc n) cs)"
      using Suc.prems(3) gone [of "''id''"] gone [of "''ns''"] unfolding dr cursor_doc_ok_def
      by (auto simp: elem_Cons split: if_splits)
    have fuel: "length cs - Suc n < fuel" using Suc.prems(2) True by simp
    note IH = Suc.IH [OF s(2) fuel ok]
    note key = iter_is_key_on_elem [OF s(3) cursor_keys_no_nul(1)] iter_is_key_on_elem [OF s(3) cursor_keys_no_nul(2)]
      iter_is_key_on_elem [OF s(3) cursor_keys_no_nul(3)]
    consider (i) "k = map of_char ''id''" | (ns) "k = map of_char ''ns''" | (fb) "k = map of_char ''firstBatch''"
      | (other) "k \<noteq> map of_char ''id''" "k \<noteq> map of_char ''ns''" "k \<noteq> map of_char ''firstBatch''" by blast
    then show ?thesis
    proof cases
      case i
      have "safe (int_value x)" using Suc.prems(3) i unfolding dr cursor_doc_ok_def by (simp add: elem_Cons)
      then obtain m where m: "int_value x = Ok m" by (auto simp: safe_iff)
      let ?c = "c\<lparr>c_rpc := (c_rpc c)\<lparr>rp_cursor_id := m\<rparr>\<rparr>"
      have "id_of (drop (Suc n) cs) m = m" "id_of (drop n cs) old = m" for old
        using gone [OF i] i m by (simp_all add: id_of_def dr elem_Cons)
      moreover have "batch_read (drop n cs) cid cid' = batch_read (drop (Suc n) cs) cid cid'" for cid'
        using i cursor_keys_distinct by (simp add: batch_read_def dr elem_Cons)
      ultimately show ?thesis
        using IH [of cid ?c] s(1) key i as_int64_on_elem [OF s(3)] m by simp
    next
      case ns
      then have "val_type x = BSON_TYPE_UTF8" using Suc.prems(3) unfolding dr cursor_doc_ok_def by (simp add: elem_Cons)
      then obtain u where x: "x = BUtf8 u" by (cases x) auto
      obtain p where p: "bson_iter_utf8 it' = Ok (p, length u)" "points_to p (u @ [0])"
        using string_on_elem [OF s(3), of bson_iter_utf8 u] x by auto
      then obtain v where v: "p = Some v" by (auto simp: points_to_def)
      have cp: "copy_ns v = Ok (take 139 (until_nul u))" using c_string_points_to p(2) v by (simp add: copy_ns_def)
      let ?c = "c\<lparr>c_ns := take 139 (until_nul u)\<rparr>"
      have "id_of (drop n cs) old = id_of (drop (Suc n) cs) old" "batch_read (drop n cs) cid cid' = batch_read (drop (Suc n) cs) cid cid'" for old cid'
        using ns cursor_keys_distinct by (auto simp: batch_read_def id_of_def dr elem_Cons)
      then show ?thesis
        using IH [of cid ?c] s(1) key ns cursor_keys_distinct p(1) v cp by simp
    next
      case fb
      have id: "id_of (drop n cs) old = id_of (drop (Suc n) cs) old" for old
        using fb cursor_keys_distinct by (auto simp: id_of_def dr elem_Cons)
      have h: "iter_holds it' BSON_TYPE_ARRAY = Ok (val_type x = BSON_TYPE_ARRAY)" using iter_holds_on_elem [OF s(3)] .
      have same: "batch_read (drop (Suc n) cs) cid cid' \<longleftrightarrow> cid' = cid" for cid cid'
        using gone [OF fb] by (simp add: batch_read_def)
      show ?thesis
      proof (cases "val_type x = BSON_TYPE_ARRAY")
        case True
        then obtain b where x: "x = BArray b" by (cases x) auto
        obtain tmp where tmp: "bson_iter_recurse it' = Ok (Some tmp)" "iter_upto b 0 tmp"
          using recurse_container [OF s(3), of b] x by blast
        let ?cid = "cid\<lparr>cid_first_batch_iter := tmp, cid_in_first_batch := True\<rparr>"
        have "batch_read (drop n cs) cid ?cid" using tmp(2) x fb by (auto simp: batch_read_def dr elem_Cons)
        then show ?thesis
          using IH [of ?cid c] s(1) key fb cursor_keys_distinct h x tmp(1) by (auto simp: id same)
      next
        case False
        then have "batch_read (drop n cs) cid cid' \<longleftrightarrow> cid' = cid" for cid'
          using fb by (cases x) (simp_all add: batch_read_def dr elem_Cons)
        then show ?thesis
          using IH [of cid c] s(1) key fb cursor_keys_distinct h False by (auto simp: id same)
      qed
    next
      case other
      then have "id_of (drop n cs) old = id_of (drop (Suc n) cs) old" "batch_read (drop n cs) cid cid' = batch_read (drop (Suc n) cs) cid cid'" for old cid'
        by (auto simp: batch_read_def id_of_def dr elem_Cons)
      then show ?thesis using IH [of cid c] s(1) key other by simp
    qed
  next
    case False
    with Suc.prems(1) have n: "n = length cs" by (simp add: iter_upto_def)
    obtain it' where "bson_iter_next it = Ok (False, it')"
      using iter_upto_end Suc.prems(1) unfolding n by blast
    then show ?thesis by (auto simp: n id_of_def batch_read_def elem_def intro!: exI [of _ "c_ns c"])
  qed
qed simp

text \<open>A namespace of another type is NULL for \<open>bson_iter_utf8\<close>, and \<open>bson_strncpy\<close> reads through it.\<close>

lemma namespace_not_a_string_faults:
  assumes "iter_upto ((map of_char ''ns'', x) # cs) 0 it" "val_type x \<noteq> BSON_TYPE_UTF8"
  shows "cursor_fields (Suc fuel) it cid c = Fault Null_Deref"
proof -
  obtain it' where it': "bson_iter_next it = Ok (True, it')" "on_elem (map of_char ''ns'') x it'"
    using iter_upto_next [OF assms(1)] by auto
  then have "bson_iter_utf8 it' = Ok (None, 0)"
    using assms(2) ITER_TYPE_on_elem [OF it'(2)] by (simp add: bson_iter_utf8_def)
  then show ?thesis
    using it'(1) iter_is_key_on_elem [OF it'(2) cursor_keys_no_nul(1)] iter_is_key_on_elem [OF it'(2) cursor_keys_no_nul(2)]
      cursor_keys_distinct(1) by auto
qed

section \<open>What an aggregation cursor delivers\<close>

text \<open>
  The reply \<open>rs\<close> to an aggregate command: a cursor document with the identifier \<open>cur\<close> and the first
  batch \<open>fb\<close>.
\<close>

definition cursor_reply :: "bdoc \<Rightarrow> 64 word \<Rightarrow> bdoc \<Rightarrow> bool" where
  "cursor_reply rs cur fb \<longleftrightarrow> command_ok rs
     \<and> (\<exists>cs x. elem ''cursor'' rs = Some (BDocument cs) \<and> cursor_doc_ok cs
          \<and> elem ''id'' cs = Some x \<and> int_value x = Ok cur \<and> elem ''firstBatch'' cs = Some (BArray fb))"

lemma cursor_document_ok:
  assumes "holds_doc b rs" "cursor_reply rs cur fb"
  shows "\<exists>cs it. cursor_document (Some b) = Ok (Some it) \<and> iter_upto cs 0 it \<and> cursor_doc_ok cs
     \<and> (\<forall>old. id_of cs old = cur) \<and> elem ''firstBatch'' cs = Some (BArray fb)"
proof -
  obtain cs x where cs: "elem ''cursor'' rs = Some (BDocument cs)" "cursor_doc_ok cs" "elem ''id'' cs = Some x"
    "int_value x = Ok cur" "elem ''firstBatch'' cs = Some (BArray fb)"
    using assms(2) by (auto simp: cursor_reply_def)
  obtain it where it: "bson_iter_init_find b (ascii ''cursor'') = Ok (True, it)" "on_elem (map of_char ''cursor'') (BDocument cs) it"
    using init_find_elem [OF assms(1) cursor_keys_no_nul(4)] cs(1) by auto
  obtain tmp where "bson_iter_recurse it = Ok (Some tmp)" "iter_upto cs 0 tmp"
    using recurse_container [OF it(2)] by blast
  then show ?thesis using cs it(1) iter_holds_on_elem [OF it(2), of BSON_TYPE_DOCUMENT]
    by (auto simp: cursor_document_def id_of_def)
qed

text \<open>After the last document of the first batch: the cursor has read its reply and may ask for more.\<close>

definition drained_at :: "'n driver \<Rightarrow> 'n state \<Rightarrow> bdoc list list \<Rightarrow> bool" where
  "drained_at d s bs \<longleftrightarrow> plain_cursor (fst s) \<and> \<not> cl_in_exhaust (snd s) \<and> \<not> c_done (fst s) \<and> c_sent (fst s) \<and> c_limit (fst s) = 0
     \<and> (\<exists>rd. c_reader (fst s) = Some rd \<and> reader_holds rd [])
     \<and> (rp_cursor_id (c_rpc (fst s)) \<noteq> 0) = (bs \<noteq> []) \<and> serves d (asks_more (rp_cursor_id (c_rpc (fst s)))) (cl_net (snd s)) bs"

text \<open>The three phases: nothing sent yet, in the first batch, and afterwards.\<close>

definition aggregate_fresh :: "'n driver \<Rightarrow> mongoc_cursor_cursorid_t \<Rightarrow> 'n state \<Rightarrow> bdoc list \<Rightarrow> bool" where
  "aggregate_fresh d cid s ds \<longleftrightarrow> \<not> cid_has_cursor cid \<and> \<not> cid_in_first_batch cid \<and> \<not> cl_in_exhaust (snd s)
     \<and> (\<exists>flags batch_size ns qs rs cur fb bs. command_cursor flags 0 batch_size ns qs (fst s)
          \<and> \<not> has_flag flags MONGOC_QUERY_EXHAUST \<and> \<not> has_flag flags MONGOC_QUERY_TAILABLE_CURSOR
          \<and> cursor_reply rs cur fb \<and> (cur \<noteq> 0) = (bs \<noteq> []) \<and> ds = documents fb @ delivered bs
          \<and> answers d (\<lambda>m. m = query_message (fst s)) (cl_net (snd s))
              (\<lambda>r rid n. good_reply r rid [rs] False \<and> serves d (asks_more cur) n bs))"

lemma aggregate_freshI:
  assumes "\<not> cid_has_cursor cid \<and> \<not> cid_in_first_batch cid" "\<not> cl_in_exhaust cl" "command_cursor flags 0 batch_size ns qs c"
    "\<not> has_flag flags MONGOC_QUERY_EXHAUST" "\<not> has_flag flags MONGOC_QUERY_TAILABLE_CURSOR"
    "cursor_reply rs cur fb" "(cur \<noteq> 0) = (bs \<noteq> [])" "ds = documents fb @ delivered bs"
    "answers d (\<lambda>m. m = query_message c) (cl_net cl) (\<lambda>r rid n. good_reply r rid [rs] False \<and> serves d (asks_more cur) n bs)"
  shows "aggregate_fresh d cid (c, cl) ds"
  unfolding aggregate_fresh_def fst_conv snd_conv using assms by blast

definition aggregate_first :: "'n driver \<Rightarrow> mongoc_cursor_cursorid_t \<Rightarrow> 'n state \<Rightarrow> bdoc list \<Rightarrow> bool" where
  "aggregate_first d cid s ds \<longleftrightarrow> cid_has_cursor cid \<and> cid_in_first_batch cid
     \<and> (\<exists>fb n bs. iter_upto fb n (cid_first_batch_iter cid) \<and> drained_at d s bs \<and> ds = documents (drop n fb) @ delivered bs)"

definition aggregate_later :: "'n driver \<Rightarrow> mongoc_cursor_cursorid_t \<Rightarrow> 'n state \<Rightarrow> bdoc list \<Rightarrow> bool" where
  "aggregate_later d cid s ds \<longleftrightarrow> cid_has_cursor cid \<and> \<not> cid_in_first_batch cid \<and> c_limit (fst s) = 0 \<and> later_at d s ds"

definition aggregate_stream :: "'n driver \<Rightarrow> 'n cursor \<Rightarrow> bdoc list \<Rightarrow> bool" where
  "aggregate_stream d cur ds \<longleftrightarrow>
     (\<exists>cid. fst cur = Cursorid cid
        \<and> (aggregate_fresh d cid (snd cur) ds \<or> aggregate_first d cid (snd cur) ds \<or> aggregate_later d cid (snd cur) ds))"

text \<open>What a call returns, and that the stream goes on from there.\<close>

definition step_ok ::
    "'n driver \<Rightarrow> bdoc list \<Rightarrow> (bson_t option \<times> mongoc_cursor_cursorid_t \<times> 'n state) result \<Rightarrow> bool" where
  "step_ok d ds r \<longleftrightarrow>
     (\<exists>b cid s. r = Ok (b, cid, s)
        \<and> (case ds of [] \<Rightarrow> b = None \<and> aggregate_later d cid s []
           | es # ds' \<Rightarrow> (\<exists>doc. b = Some doc \<and> holds_doc doc es) \<and> (aggregate_first d cid s ds' \<or> aggregate_later d cid s ds')))"

lemma step_later:
  assumes "later_at d (c, cl) ds" "c_limit c = 0" "cid_has_cursor cid" "\<not> cid_in_first_batch cid"
  shows "step_ok d ds (rbind (mongoc_cursor_next_base d (c, cl)) (\<lambda>(b, s). Ok (b, cid, s)))"
proof -
  have "cursor_at d (c, cl) ds" using assms(1) by (simp add: cursor_at_def)
  from next_base_ok [OF this] assms(2) have "next_ok d ds (mongoc_cursor_next_base d (c, cl)) c" by simp
  then show ?thesis using assms
    by (cases ds) (fastforce simp: next_ok_def step_ok_def aggregate_later_def)+
qed

lemma drained_done:
  assumes "drained_at d (c, cl) []"
  shows "later_at d (c\<lparr>c_end_of_event := True, c_done := True\<rparr>, cl) []"
  using assms by (simp add: drained_at_def later_at_def plain_cursor_def)

lemma drained_more:
  assumes "drained_at d (c, cl) bs"
  shows "later_at d (c\<lparr>c_end_of_event := True\<rparr>, cl) (delivered bs)"
  using assms by (auto simp: drained_at_def later_at_def reading_at_def plain_cursor_def)

lemma drained_event [simp]: "drained_at d (c\<lparr>c_end_of_event := b\<rparr>, cl) bs = drained_at d (c, cl) bs"
  by (simp add: drained_at_def plain_cursor_def)

lemma step_first:
  assumes "drained_at d (c, cl) bs" "cid_has_cursor cid" "cid_in_first_batch cid" "iter_upto fb n (cid_first_batch_iter cid)"
  shows "step_ok d (documents (drop n fb) @ delivered bs)
     (rbind (process_first_batch cid c) (\<lambda>(ret, b, cid, c).
        if ret then Ok (b, cid, c, cl) else rbind (mongoc_cursor_next_base d (c, cl)) (\<lambda>(b, s). Ok (b, cid, s))))"
proof -
  obtain b it where loop: "first_batch_loop (iter_fuel (cid_first_batch_iter cid)) (cid_first_batch_iter cid) = Ok (b, it)"
    "case documents (drop n fb) of [] \<Rightarrow> b = None
     | es # ds \<Rightarrow> (\<exists>doc. b = Some doc \<and> holds_doc doc es) \<and> (\<exists>m. iter_upto fb m it \<and> documents (drop m fb) = ds)"
    using first_batch_loop_upto [OF assms(4) iter_upto_fuel [OF assms(4)]] by blast
  show ?thesis
  proof (cases "documents (drop n fb)")
    case Nil
    then have b: "b = None" using loop(2) by simp
    show ?thesis
    proof (cases "rp_cursor_id (c_rpc c) = 0")
      case True
      then have bs: "bs = []" using assms(1) by (simp add: drained_at_def)
      have "c_limit c = 0" using assms(1) by (simp add: drained_at_def)
      with drained_done [of d c cl] assms(1,2) bs True Nil loop(1) b show ?thesis
        by (simp add: process_first_batch_def step_ok_def aggregate_later_def)
    next
      case False
      have "c_limit (c\<lparr>c_end_of_event := True\<rparr>) = 0" using assms(1) by (simp add: drained_at_def)
      from step_later [OF drained_more [OF assms(1)] this] assms(2) False Nil loop(1) b show ?thesis
        by (simp add: process_first_batch_def)
    qed
  next
    case (Cons es ds)
    then show ?thesis using loop assms
      by (fastforce simp: process_first_batch_def step_ok_def aggregate_first_def)
  qed
qed

lemma process_first_batch_keeps:
  "process_first_batch cid c = Ok (ret, b, cid', c') \<Longrightarrow> cid_has_cursor cid' = cid_has_cursor cid"
  by (auto simp: process_first_batch_def rbind_Ok_iff Let_def split: prod.splits option.splits if_splits)

lemma cursorid_next_first:
  assumes "cid_has_cursor cid" "cid_in_first_batch cid"
  shows "mongoc_cursor_cursorid_next d cid (c, cl) = rbind (process_first_batch cid c) (\<lambda>(ret, b, cid, c).
     if ret then Ok (b, cid, c, cl) else rbind (mongoc_cursor_next_base d (c, cl)) (\<lambda>(b, s). Ok (b, cid, s)))"
proof (cases "process_first_batch cid c")
  case (Inr r)
  then obtain ret b cid' c' where r: "process_first_batch cid c = Ok (ret, b, cid', c')" by (cases r) auto
  then have "cid_has_cursor cid'" using process_first_batch_keeps assms(1) by blast
  then show ?thesis using r assms(2) by (cases "mongoc_cursor_next_base d (c', cl)") (auto simp: mongoc_cursor_cursorid_next_def)
qed (use assms(2) in \<open>simp add: mongoc_cursor_cursorid_next_def\<close>)

lemma cursorid_next_later:
  assumes "cid_has_cursor cid" "\<not> cid_in_first_batch cid"
  shows "mongoc_cursor_cursorid_next d cid (c, cl) = rbind (mongoc_cursor_next_base d (c, cl)) (\<lambda>(b, s). Ok (b, cid, s))"
  using assms by (cases "mongoc_cursor_next_base d (c, cl)") (auto simp: mongoc_cursor_cursorid_next_def)

lemma step_fresh:
  assumes "aggregate_fresh d cid (c, cl) ds"
  shows "step_ok d ds (mongoc_cursor_cursorid_next d cid (c, cl))"
proof -
  obtain flags batch_size ns qs rs cur fb bs where cid: "\<not> cid_has_cursor cid" "\<not> cid_in_first_batch cid"
    and c: "\<not> cl_in_exhaust cl" "command_cursor flags 0 batch_size ns qs c"
      "\<not> has_flag flags MONGOC_QUERY_EXHAUST" "\<not> has_flag flags MONGOC_QUERY_TAILABLE_CURSOR"
    and rs: "cursor_reply rs cur fb" "(cur \<noteq> 0) = (bs \<noteq> [])" "ds = documents fb @ delivered bs"
    and ans: "answers d (\<lambda>m. m = query_message c) (cl_net cl) (\<lambda>r rid n. good_reply r rid [rs] False \<and> serves d (asks_more cur) n bs)"
    using assms unfolding aggregate_fresh_def fst_conv snd_conv by blast
  have ok: "command_ok rs" using rs(1) by (simp add: cursor_reply_def)
  obtain b c1 cl1 where n: "mongoc_cursor_next_base d (c, cl) = Ok (b, c1, cl1)" "\<not> cl_in_exhaust cl1" "\<not> c_in_exhaust c1"
      "c_limit c1 = 0" "c_flags c1 = flags" "serves d (asks_more cur) (cl_net cl1) bs" "(b \<noteq> None) = command_ok rs"
      "c_failed c1 = (b = None)"
      "\<forall>doc. b = Some doc \<longrightarrow> holds_doc doc rs \<and> c_sent c1 \<and> \<not> c_done c1 \<and> (\<exists>rd. c_reader c1 = Some rd \<and> reader_holds rd [])"
    using command_next [OF c(2,1,3) ans] by (elim exE conjE) (rule that)
  obtain doc where doc: "b = Some doc" using n(7) ok by blast
  with n(9) have d: "holds_doc doc rs" "c_sent c1" "\<not> c_done c1" "\<exists>rd. c_reader c1 = Some rd \<and> reader_holds rd []" by blast+
  obtain cs it where it: "cursor_document b = Ok (Some it)" "iter_upto cs 0 it" "cursor_doc_ok cs" "\<forall>old. id_of cs old = cur"
    "elem ''firstBatch'' cs = Some (BArray fb)"
    using cursor_document_ok [OF d(1) rs(1)] doc by blast
  define cid1 where "cid1 = cid\<lparr>cid_has_cursor := True\<rparr>"
  have "length cs - 0 < iter_fuel it" "cursor_doc_ok (drop 0 cs)" using iter_upto_fuel [OF it(2)] it(3) by simp_all
  from cursor_fields_upto [OF it(2) this, of cid1 c1] obtain tmp ns' where
    f: "cursor_fields (iter_fuel it) it cid1 c1 = Ok (cid1\<lparr>cid_first_batch_iter := tmp, cid_in_first_batch := True\<rparr>,
          c1\<lparr>c_rpc := (c_rpc c1)\<lparr>rp_cursor_id := cur\<rparr>, c_ns := ns'\<rparr>)" "iter_upto fb 0 tmp"
    using it(4,5) by (auto simp: batch_read_def)
  let ?cid = "cid1\<lparr>cid_first_batch_iter := tmp, cid_in_first_batch := True\<rparr>"
  let ?c = "c1\<lparr>c_rpc := (c_rpc c1)\<lparr>rp_cursor_id := cur\<rparr>, c_ns := ns', c_is_command := False, c_end_of_event := False\<rparr>"
  have "mongoc_cursor_cursorid_next d cid (c, cl) = rbind (process_first_batch ?cid ?c) (\<lambda>(ret, b, cid, c).
     if ret then Ok (b, cid, c, cl1) else rbind (mongoc_cursor_next_base d (c, cl1)) (\<lambda>(b, s). Ok (b, cid, s)))"
    using cid n(1) it(1) f(1) by (simp add: mongoc_cursor_cursorid_next_def flip: cid1_def)
  moreover have "drained_at d (?c, cl1) bs"
    using n d c(3,4) doc rs(2) by (simp add: drained_at_def plain_cursor_def)
  ultimately show ?thesis
    using step_first [of d ?c cl1 bs ?cid fb 0] f(2) rs(3) by (simp add: cid1_def)
qed

lemma cursorid_next_step:
  assumes "aggregate_fresh d cid (c, cl) ds \<or> aggregate_first d cid (c, cl) ds \<or> aggregate_later d cid (c, cl) ds"
  shows "step_ok d ds (mongoc_cursor_cursorid_next d cid (c, cl)) \<and> \<not> c_failed c"
  using assms
proof (elim disjE)
  assume a: "aggregate_fresh d cid (c, cl) ds"
  then have "\<not> c_failed c" by (auto simp: aggregate_fresh_def command_cursor_def)
  with step_fresh [OF a] show ?thesis by simp
next
  assume a: "aggregate_first d cid (c, cl) ds"
  then obtain fb n bs where f: "cid_has_cursor cid" "cid_in_first_batch cid" "iter_upto fb n (cid_first_batch_iter cid)"
    "drained_at d (c, cl) bs" "ds = documents (drop n fb) @ delivered bs"
    by (auto simp: aggregate_first_def)
  then have "\<not> c_failed c" by (simp add: drained_at_def plain_cursor_def)
  moreover have "step_ok d ds (mongoc_cursor_cursorid_next d cid (c, cl))"
    unfolding f(5) cursorid_next_first [OF f(1,2)] by (rule step_first [OF f(4,1-3)])
  ultimately show ?thesis by blast
next
  assume a: "aggregate_later d cid (c, cl) ds"
  then have f: "cid_has_cursor cid" "\<not> cid_in_first_batch cid" "c_limit c = 0" "later_at d (c, cl) ds"
    by (auto simp: aggregate_later_def)
  then have "\<not> c_failed c" by (simp add: later_at_def plain_cursor_def)
  moreover have "step_ok d ds (mongoc_cursor_cursorid_next d cid (c, cl))"
    unfolding cursorid_next_later [OF f(1,2)] by (rule step_later [OF f(4,3,1,2)])
  ultimately show ?thesis by blast
qed

lemma aggregate_counted:
  "aggregate_first d cid (c\<lparr>c_current := b, c_count := n\<rparr>, cl) ds = aggregate_first d cid (c, cl) ds"
  "aggregate_later d cid (c\<lparr>c_current := b, c_count := n\<rparr>, cl) ds = aggregate_later d cid (c, cl) ds"
  by (simp_all add: aggregate_first_def aggregate_later_def drained_at_def plain_cursor_def)

lemma cursor_next_aggregate:
  assumes "aggregate_stream d cur ds"
  shows "\<exists>b cur'. cursor_next d cur = Ok (b, cur') \<and> (case ds of [] \<Rightarrow> b = None \<and> aggregate_stream d cur' []
     | es # ds' \<Rightarrow> (\<exists>doc. b = Some doc \<and> holds_doc doc es) \<and> aggregate_stream d cur' ds')"
proof -
  obtain cid c cl where cur: "cur = (Cursorid cid, c, cl)"
    and p: "aggregate_fresh d cid (c, cl) ds \<or> aggregate_first d cid (c, cl) ds \<or> aggregate_later d cid (c, cl) ds"
    using assms by (cases cur) (auto simp: aggregate_stream_def)
  from cursorid_next_step [OF p] obtain b cid' s' where
    r: "mongoc_cursor_cursorid_next d cid (c, cl) = Ok (b, cid', s')" "\<not> c_failed c"
      "case ds of [] \<Rightarrow> b = None \<and> aggregate_later d cid' s' []
       | es # ds' \<Rightarrow> (\<exists>doc. b = Some doc \<and> holds_doc doc es) \<and> (aggregate_first d cid' s' ds' \<or> aggregate_later d cid' s' ds')"
    unfolding step_ok_def by blast
  obtain c' cl' where s': "s' = (c', cl')" by fastforce
  note s = r [unfolded s']
  have "cursor_next d cur = Ok (b, Cursorid cid', c'\<lparr>c_current := b, c_count := w32 (c_count c' + 1)\<rparr>, cl')"
    using s(1,2) by (simp add: cursor_next_def cur)
  then show ?thesis using s(3) by (cases ds) (auto simp: aggregate_stream_def aggregate_counted)
qed

lemma aggregate_no_error:
  assumes "aggregate_stream d cur ds"
  shows "cursor_error cur = None"
proof -
  obtain cid c cl where cur: "cur = (Cursorid cid, c, cl)"
    and p: "aggregate_fresh d cid (c, cl) ds \<or> aggregate_first d cid (c, cl) ds \<or> aggregate_later d cid (c, cl) ds"
    using assms by (cases cur) (auto simp: aggregate_stream_def)
  from cursorid_next_step [OF p] show ?thesis by (simp add: cursor_error_def mongoc_cursor_error_def cur)
qed

end
