(* ===== verification/Monary_Aggregate.thy ===== *)
theory Monary_Aggregate
  imports Monary_Count Mongoc_Aggregate
begin

text \<open>
  Aggregation in \<open>cmonary.c\<close>: \<open>monary_init_aggregate\<close>, and what \<open>monary_load_query\<close> loads from the
  cursor it opens.
\<close>

definition monary_init_aggregate ::
    "'n driver \<Rightarrow> 'n mongoc_client_t \<Rightarrow> mongoc_collection_t option \<Rightarrow> view option \<Rightarrow> monary_column_data
      \<Rightarrow> 'n cursor monary_cursor option result" where
  "monary_init_aggregate d client collection pipeline coldata =
     (case (collection, pipeline) of
        (Some coll, Some pl) \<Rightarrow>
          rbind (rd32 pl 0) (\<lambda>pl_size.
          rbind (bson_init_static pl pl_size) (\<lambda>pl_bson.
            case pl_bson of
              None \<Rightarrow> Ok None
            | Some b \<Rightarrow>
                rbind (mongoc_collection_aggregate d client coll MONGOC_QUERY_NONE b None None) (\<lambda>mcursor.
                  Ok (Some \<lparr>mc_mcursor = mcursor, mc_coldata = coldata\<rparr>))))
      | _ \<Rightarrow> Ok None)"

section \<open>The command\<close>

text \<open>The stages: the array under \<open>pipeline\<close>, or the whole document taken as an array.\<close>

definition stages :: "bdoc \<Rightarrow> bdoc" where
  "stages ps = (case elem ''pipeline'' ps of Some (BArray xs) \<Rightarrow> xs | _ \<Rightarrow> ps)"

definition aggregate_doc :: "bytes \<Rightarrow> bdoc \<Rightarrow> bdoc" where
  "aggregate_doc name xs = [(map of_char ''aggregate'', BUtf8 name), (map of_char ''pipeline'', BArray xs),
     (map of_char ''cursor'', BDocument [(map of_char ''batchSize'', BInt32 100)])]"

lemma aggregate_keys:
  "0 \<notin> set (map of_char ''aggregate'' :: bytes)" "str_arg (ascii ''aggregate'') 9 (map of_char ''aggregate'')"
  "0 \<notin> set (map of_char ''pipeline'' :: bytes)" "str_arg (ascii ''pipeline'') 8 (map of_char ''pipeline'')"
  "0 \<notin> set (map of_char ''cursor'' :: bytes)" "str_arg (ascii ''cursor'') 6 (map of_char ''cursor'')"
  "0 \<notin> set (map of_char ''batchSize'' :: bytes)" "str_arg (ascii ''batchSize'') 9 (map of_char ''batchSize'')"
  by (simp_all add: str_arg_def ascii_def)

lemma pipeline_appended:
  assumes "building b es" "roomy b" "holds_doc pl ps"
    "b_len b + length (enc_elem (map of_char ''pipeline'') (BArray (stages ps))) \<le> 2 ^ 30"
  shows "\<exists>b'. rbind (bson_iter_init_find pl (ascii ''pipeline'')) (\<lambda>(found, it).
      rbind (if found then iter_holds it BSON_TYPE_ARRAY else Ok False) (\<lambda>h.
      rbind (if h then bson_append_iter b (Some (ascii ''pipeline'')) 8 it
            else bson_append_array b (Some (ascii ''pipeline'')) 8 pl) (\<lambda>(_, b). Ok b))) = Ok b'
     \<and> building b' (es @ [(map of_char ''pipeline'', BArray (stages ps))]) \<and> roomy b'
     \<and> b_len b' = b_len b + length (enc_elem (map of_char ''pipeline'') (BArray (stages ps)))"
proof -
  obtain it where it: "bson_iter_init_find pl (ascii ''pipeline'') = Ok (elem ''pipeline'' ps \<noteq> None, it)"
    "\<forall>x. elem ''pipeline'' ps = Some x \<longrightarrow> on_elem (map of_char ''pipeline'') x it"
    using init_find_elem [OF assms(3) aggregate_keys(3)] by blast
  show ?thesis
  proof (cases "\<exists>xs. elem ''pipeline'' ps = Some (BArray xs)")
    case True
    then obtain xs where xs: "elem ''pipeline'' ps = Some (BArray xs)" by blast
    then have e: "on_elem (map of_char ''pipeline'') (BArray xs) it" "stages ps = xs" using it(2) by (simp_all add: stages_def)
    then have "\<exists>k x. on_elem k x it \<and> BArray xs = copied x" by (intro exI [of _ "BArray xs"] exI conjI) simp_all
    from app_iter.appends_roomy [OF assms(1,2) this aggregate_keys(4,3)] assms(4) e(2)
    show ?thesis using it(1) xs iter_holds_on_elem [OF e(1), of BSON_TYPE_ARRAY] by auto
  next
    case False
    then have s: "stages ps = ps" by (auto simp: stages_def split: option.splits bval.splits)
    have h: "(if elem ''pipeline'' ps \<noteq> None then iter_holds it BSON_TYPE_ARRAY else Ok False) = Ok False"
    proof (cases "elem ''pipeline'' ps")
      case (Some x)
      then have "val_type x \<noteq> BSON_TYPE_ARRAY" using False by (cases x) auto
      with Some show ?thesis using iter_holds_on_elem [of _ x it BSON_TYPE_ARRAY] it(2) by auto
    qed simp
    have "doc_means BArray pl (BArray ps)" using assms(3) by (simp add: doc_means_def)
    from app_array.appends_roomy [OF assms(1,2) this aggregate_keys(4,3)] assms(4) s
    show ?thesis using it(1) h by auto
  qed
qed

lemma cursor_document_added:
  assumes "building b es" "roomy b" "b_len b + 29 \<le> 2 ^ 30"
  shows "\<exists>b'. add_cursor_document b None = Ok (b', 0)
     \<and> building b' (es @ [(map of_char ''cursor'', BDocument [(map of_char ''batchSize'', BInt32 100)])]) \<and> roomy b'"
proof -
  define C where "C = (map of_char ''cursor'' :: bytes)"
  define S where "S = (map of_char ''batchSize'' :: bytes)"
  note keys = aggregate_keys(5,6) [folded C_def] aggregate_keys(7,8) [folded S_def]
  have n: "length C = 6" "length S = 9" by (simp_all add: C_def S_def)
  have r: "b_offset b = 0" "b_depth b = 0" "growable b" using assms(2) by (simp_all add: roomy_def)
  have "fits b (length C + 7)" using assms(3) n by (intro roomy_fits assms(2)) simp
  then obtain b1 c where start: "bson_append_bson_begin b (Some (ascii ''cursor'')) 6 BSON_TYPE_DOCUMENT = Ok (True, b1, Some c)"
    "building c []" "opens b b1 es C BSON_TYPE_DOCUMENT c" "child_room b (length C) c"
    using bson_begin_outcome [OF assms(1) keys(2,1), of BSON_TYPE_DOCUMENT] n by auto
  have l: "length (enc_elem S (BInt32 100)) = 15" by (simp add: length_enc_elem n)
  have "fits c 15" using assms(3) r n by (intro child_room_fits [OF start(4)]) simp_all
  then obtain c' where c': "bson_append_int32 c (Some (ascii ''batchSize'')) 9 100 = Ok (True, c')"
    "building c' [(S, BInt32 100)]" "grown c c'"
    using app_int32.appends [OF start(2) refl keys(4,3), of 100] l by (auto simp: appended_def enc_elem_def)
  then obtain b' where b': "bson_append_bson_end b1 c' = Ok (True, b')"
    "building b' (es @ [(C, BDocument [(S, BInt32 100)])])" "grown b b'"
    using start(3) by (auto simp: opens_def container_def)
  show ?thesis
    using start(1) c'(1) b' roomy_grown [OF assms(2)] unfolding C_def S_def
    by (simp add: add_cursor_document_def bson_append_document_begin_def bson_append_document_end_def)
qed

lemma aggregate_command_built:
  assumes "c_string (co_collection coll) = Ok name" "holds_doc pl ps"
    "length (enc_elems (aggregate_doc name (stages ps))) + 6 \<le> 2 ^ 30"
  shows "\<exists>b cmd. aggregate_command coll pl = Ok b \<and> add_cursor_document b None = Ok (cmd, 0)
     \<and> building cmd (aggregate_doc name (stages ps)) \<and> roomy cmd"
proof -
  define A where "A = (map of_char ''aggregate'' :: bytes)"
  note key = aggregate_keys(1,2) [folded A_def]
  have total: "length (enc_elems (aggregate_doc name (stages ps)))
      = length (enc_elem A (BUtf8 name)) + length (enc_elem (map of_char ''pipeline'') (BArray (stages ps))) + 28"
    unfolding aggregate_doc_def A_def by (simp add: enc_elems_Cons) (simp add: enc_elem_def)
  have room: "length (enc_elem A (BUtf8 name)) + length (enc_elem (map of_char ''pipeline'') (BArray (stages ps))) + 34 \<le> 2 ^ 30"
    using assms(3) total by simp
  have nl: "length name \<le> INT32_MAX" "length name < length (co_collection coll)"
    using room c_string_take(2) [OF assms(1)] by (simp_all add: length_enc_elem)
  have len: "int_strlen (co_collection coll) = Ok (int (length name))"
    using assms(1) nl by (simp add: int_strlen_def c_strlen_def as_int32_nonneg)
  have "str_arg (co_collection coll) (int (length name)) name"
    using c_string_take(1) [OF assms(1)] nl by (simp add: str_arg_def) (metis butlast_snoc butlast_take diff_Suc_1 Suc_leI)
  then have "str_means BUtf8 (co_collection coll, int (length name)) (BUtf8 name)" by (simp add: str_means_def)
  from app_utf8.appends_roomy [OF building_init roomy_init this key(2,1)] room obtain b1 where b1:
    "bson_append_utf8 bson_init (Some (ascii ''aggregate'')) 9 (Some (co_collection coll)) (int (length name)) = Ok (True, b1)"
    "building b1 [(A, BUtf8 name)]" "roomy b1" "b_len b1 = b_len bson_init + length (enc_elem A (BUtf8 name))"
    by (auto simp: bson_init_def)
  have "b_len b1 + length (enc_elem (map of_char ''pipeline'') (BArray (stages ps))) \<le> 2 ^ 30"
    using b1(4) room by (simp add: bson_init_def)
  from pipeline_appended [OF b1(2,3) assms(2) this] obtain b2 where b2:
    "aggregate_command coll pl = Ok b2" "building b2 [(A, BUtf8 name), (map of_char ''pipeline'', BArray (stages ps))]" "roomy b2"
    "b_len b2 = b_len b1 + length (enc_elem (map of_char ''pipeline'') (BArray (stages ps)))"
    using len b1(1) by (auto simp: aggregate_command_def)
  have "b_len b2 + 29 \<le> 2 ^ 30" using b1(4) b2(4) room by (simp add: bson_init_def)
  from cursor_document_added [OF b2(2,3) this] b2(1) show ?thesis
    by (auto simp: aggregate_doc_def A_def)
qed

section \<open>Opening the cursor\<close>

text \<open>An aggregation cursor keeps the contract that \<open>monary_load_query\<close> relies on.\<close>

interpretation aggregation: document_cursor "cursor_next d" cursor_error "aggregate_stream d" for d
  by unfold_locales (use cursor_next_aggregate aggregate_no_error in fastforce)+


text \<open>A pipeline, the names of the collection and its database and the read preferences are in order.\<close>

definition aggregate_ready ::
    "'n mongoc_client_t \<Rightarrow> mongoc_collection_t \<Rightarrow> bdoc \<Rightarrow> bytes \<Rightarrow> bytes \<Rightarrow> mongoc_read_prefs_t option \<Rightarrow> bdoc \<Rightarrow> bool" where
  "aggregate_ready client coll ps name db prefs ts \<longleftrightarrow> wf_doc ps
     \<and> c_string (co_collection coll) = Ok name \<and> \<not> c_strstr name (map of_char ''$cmd'')
     \<and> c_string (co_db coll) = Ok db \<and> length db < 128
     \<and> prefs = (if co_read_prefs coll = None then cl_read_prefs client else co_read_prefs coll)
     \<and> length (enc_elems (aggregate_doc name (stages ps) @ preferences prefs ts)) + 6 \<le> 2 ^ 30
     \<and> \<not> c_strstr db (map of_char ''$cmd'') \<and> prefs_hold prefs ts \<and> \<not> cl_in_exhaust client"

text \<open>The node that is chosen speaks the newer protocol, or its version is unknown.\<close>

definition modern_node :: "'n driver \<Rightarrow> 'n \<Rightarrow> 'n \<Rightarrow> bool" where
  "modern_node d n n' \<longleftrightarrow> (\<exists>hint. d_preselect d n None = (hint, n') \<and> (hint = 0 \<or> 0 < d_max_wire_version d n' hint))"

lemma aggregate_doc_routable: "routable (fst (hd (aggregate_doc name xs)))" "\<not> mixed_keys (aggregate_doc name xs)"
proof -
  show "routable (fst (hd (aggregate_doc name xs)))" using routable_names(1) by (simp add: aggregate_doc_def)
  have "\<not> dollar_key (map of_char ''aggregate'')" "\<not> dollar_key (map of_char ''pipeline'')" "\<not> dollar_key (map of_char ''cursor'')"
    by code_simp+
  then show "\<not> mixed_keys (aggregate_doc name xs)" by (simp add: aggregate_doc_def mixed_keys_def)
qed

lemma collection_command_ok:
  assumes "holds_doc q es" "inline_ok q" "command_ready es db P ts" "c_string (co_collection coll) = Ok name"
    "\<not> c_strstr name (map of_char ''$cmd'')" "c_string (co_db coll) = Ok db" "length db < 128"
    "P = (if co_read_prefs coll = None then cl_read_prefs cl else co_read_prefs coll)"
  shows "\<exists>c. mongoc_collection_command cl coll 0 0 limit batch_size q None None = Ok c
     \<and> command_cursor (command_flags 0 P) limit batch_size (command_ns db) (es @ preferences P ts) c"
proof -
  have "c_string (snprintf 128 db) = Ok db"
    using c_string_snprintf [OF c_string_no_nul [OF assms(6)], of 128] assms(7) by simp
  from client_command_ok [OF assms(1-3) this assms(8)] show ?thesis
    using assms(4-6) by (simp add: mongoc_collection_command_def)
qed

lemma init_aggregate_stream:
  assumes "aggregate_ready client coll ps name db prefs ts" "modern_node d (cl_net client) net"
    "cursor_reply rs cur fb" "(cur \<noteq> 0) = (bs \<noteq> [])"
    "answers d (asks_command (command_ns db) (command_flags 0 prefs) (aggregate_doc name (stages ps) @ preferences prefs ts)) net
       (\<lambda>r rid n. good_reply r rid [rs] False \<and> serves d (asks_more cur) n bs)"
  shows "\<exists>s. monary_init_aggregate d client (Some coll) (Some (encode_doc ps @ t)) cd
        = Ok (Some \<lparr>mc_mcursor = s, mc_coldata = cd\<rparr>)
     \<and> aggregate_stream d s (documents fb @ delivered bs)"
proof -
  have r: "wf_doc ps" "c_string (co_collection coll) = Ok name" "\<not> c_strstr name (map of_char ''$cmd'')"
    "c_string (co_db coll) = Ok db" "length db < 128"
    "prefs = (if co_read_prefs coll = None then cl_read_prefs client else co_read_prefs coll)"
    "length (enc_elems (aggregate_doc name (stages ps) @ preferences prefs ts)) + 6 \<le> 2 ^ 30" "\<not> cl_in_exhaust client"
    "\<not> c_strstr db (map of_char ''$cmd'')" "prefs_hold prefs ts"
    using assms(1) unfolding aggregate_ready_def by blast+
  have "aggregate_doc name (stages ps) \<noteq> []" by (simp add: aggregate_doc_def)
  with r aggregate_doc_routable have ready: "command_ready (aggregate_doc name (stages ps)) db prefs ts"
    unfolding command_ready_def by blast
  obtain pb where pb: "rd32 (encode_doc ps @ t) 0 = Ok (length (encode_doc ps))"
    "bson_init_static (encode_doc ps @ t) (length (encode_doc ps)) = Ok (Some pb)" "holds_doc pb ps"
    using init_static_doc [OF r(1)] by blast
  obtain hint where hint: "d_preselect d (cl_net client) None = (hint, net)" "hint = 0 \<or> 0 < d_max_wire_version d net hint"
    using assms(2) by (auto simp: modern_node_def)
  have "length (enc_elems (aggregate_doc name (stages ps))) + 6 \<le> 2 ^ 30" using r(7) by simp
  from aggregate_command_built [OF r(2) pb(3) this] obtain b cmd where cmd: "aggregate_command coll pb = Ok b"
    "add_cursor_document b None = Ok (cmd, 0)" "building cmd (aggregate_doc name (stages ps))" "roomy cmd" by blast
  have h: "holds_doc cmd (aggregate_doc name (stages ps))" "inline_ok cmd" using cmd(3,4) by (simp_all add: building_def inline_ok_def)
  define cl where "cl = client\<lparr>cl_net := net\<rparr>"
  have P: "prefs = (if co_read_prefs coll = None then cl_read_prefs cl else co_read_prefs coll)" using r(6) by (simp add: cl_def)
  obtain c where c: "mongoc_collection_command cl coll 0 0 0 0 cmd None None = Ok c"
    "command_cursor (command_flags 0 prefs) 0 0 (command_ns db) (aggregate_doc name (stages ps) @ preferences prefs ts) c"
    using collection_command_ok [OF h ready r(2-5) P] by blast
  define c' where "c' = c\<lparr>c_hint := hint, c_limit := 0\<rparr>"
  have c': "command_cursor (command_flags 0 prefs) 0 0 (command_ns db) (aggregate_doc name (stages ps) @ preferences prefs ts) c'"
    using c(2) by (simp add: c'_def command_cursor_def)
  have agg: "mongoc_collection_aggregate d client coll 0 pb None None = Ok (Cursorid mongoc_cursor_cursorid_new, c', cl)"
    using hint cmd(1,2) c(1) by (auto simp: mongoc_collection_aggregate_def Let_def c'_def cl_def)
  have init: "monary_init_aggregate d client (Some coll) (Some (encode_doc ps @ t)) cd
      = Ok (Some \<lparr>mc_mcursor = (Cursorid mongoc_cursor_cursorid_new, c', cl), mc_coldata = cd\<rparr>)"
    unfolding monary_init_aggregate_def prod.case option.case pb(1,2) rbind_simps agg ..
  have nf: "\<not> has_flag (command_flags 0 prefs) MONGOC_QUERY_EXHAUST" "\<not> has_flag (command_flags 0 prefs) MONGOC_QUERY_TAILABLE_CURSOR"
    by (simp_all add: command_flags_bits)
  have net: "cl_net cl = net" by (simp add: cl_def)
  have "answers d (\<lambda>m. m = query_message c') (cl_net cl) (\<lambda>r rid n. good_reply r rid [rs] False \<and> serves d (asks_more cur) n bs)"
    unfolding net using command_asks [OF c' nf(2)] command_ns_short by (intro answers_weaken [OF assms(5)]) simp_all
  then have "aggregate_fresh d mongoc_cursor_cursorid_new (c', cl) (documents fb @ delivered bs)"
    using r(8) by (intro aggregate_freshI [OF _ _ c' nf assms(3,4) refl]) (simp_all add: mongoc_cursor_cursorid_new_def cl_def)
  then show ?thesis using init by (auto simp: aggregate_stream_def)
qed

section \<open>Properties\<close>

text \<open>
  C2: from a pipeline to the arrays. \<open>monary_init_aggregate\<close> sends the command
  \<open>{aggregate: collection, pipeline: stages, cursor: {batchSize: 100}}\<close>, followed by the read
  preference, to \<open>$cmd\<close> of the database. When the reply carries a cursor document and the server
  answers the requests for more with further batches, \<open>monary_load_query\<close> returns the number of
  documents of the first batch and the batches after it, at most the number of rows, and the arrays
  and masks hold, row after row, what each document has for each column, without an error.
\<close>

theorem aggregate_fills_columns:
  assumes "aggregate_ready client coll ps name db prefs ts" "modern_node d (cl_net client) net"
    "cursor_reply rs cid fb" "(cid \<noteq> 0) = (bs \<noteq> [])"
    "answers d (asks_command (command_ns db) (command_flags 0 prefs) (aggregate_doc name (stages ps) @ preferences prefs ts)) net
       (\<lambda>r rid n. good_reply r rid [rs] False \<and> serves d (asks_more cid) n bs)"
    "columns_ready cd cs h" "cd_num_rows cd * length cs \<le> INT32_MAX"
    "docs = take (cd_num_rows cd) (documents fb @ delivered bs)" "\<forall>es \<in> set docs. cells_ok cd h cs es"
  shows "\<exists>cur cur' h'.
     monary_init_aggregate d client (Some coll) (Some (encode_doc ps @ t)) cd = Ok (Some cur)
     \<and> monary_load_query (cursor_next d) cursor_error cur h = Ok (length docs, cur', h')
     \<and> rows_loaded cd cs 0 docs h h' \<and> cursor_error (mc_mcursor cur') = None"
proof -
  obtain s where s: "monary_init_aggregate d client (Some coll) (Some (encode_doc ps @ t)) cd
        = Ok (Some \<lparr>mc_mcursor = s, mc_coldata = cd\<rparr>)" "aggregate_stream d s (documents fb @ delivered bs)"
    using init_aggregate_stream [OF assms(1-5)] by blast
  have "0 + int (cd_num_rows cd * length cs) \<le> 2147483647" using assms(7) by linarith
  with aggregation.load_rows_stream [OF s(2) assms(6), of 0 "cd_num_rows cd" 0] assms(8,9) obtain s' h' where
    "load_rows (cursor_next d) cursor_error cd 0 0 s h = Ok (length docs, s', h')"
    "aggregate_stream d s' (drop (cd_num_rows cd) (documents fb @ delivered bs))" "rows_loaded cd cs 0 docs h h'"
    by auto
  with s(1) aggregation.no_error [OF this(2)] show ?thesis by (auto simp: monary_load_query_def)
qed

text \<open>The reply of the example: the first document is in the first batch, two more come afterwards.\<close>

definition aggregate_reply :: bdoc where
  "aggregate_reply =
     [(map of_char ''cursor'', BDocument
        [(map of_char ''id'', BInt64 5), (map of_char ''ns'', BUtf8 [0x61, 0x2E, 0x62]),
         (map of_char ''firstBatch'', BArray [([0x30], BDocument [([0x61], BInt32 7)])])]),
      (map of_char ''ok'', BDouble 0x3FF0000000000000)]"

definition later_batch :: "bdoc list" where
  "later_batch = [[([0x62], BInt32 1)], [([0x61], BInt32 9)]]"

definition aggregate_client :: "mongoc_rpc_reply_t list mongoc_client_t" where
  "aggregate_client = client_with [reply_with 0 [aggregate_reply], reply_with 0 later_batch]"

lemma aggregate_reply_ok: "cursor_reply aggregate_reply 5 [([0x30], BDocument [([0x61], BInt32 7)])]" "wf_doc aggregate_reply"
proof -
  let ?cs = "[(map of_char ''id'', BInt64 5), (map of_char ''ns'', BUtf8 [0x61, 0x2E, 0x62]),
         (map of_char ''firstBatch'', BArray [([0x30], BDocument [([0x61], BInt32 7)])])] :: bdoc"
  have "command_ok aggregate_reply" "elem ''cursor'' aggregate_reply = Some (BDocument ?cs)"
    "elem ''id'' ?cs = Some (BInt64 5)" "elem ''ns'' ?cs = Some (BUtf8 [0x61, 0x2E, 0x62])"
    "elem ''firstBatch'' ?cs = Some (BArray [([0x30], BDocument [([0x61], BInt32 7)])])" "distinct (map fst ?cs)"
    by code_simp+
  then show "cursor_reply aggregate_reply 5 [([0x30], BDocument [([0x61], BInt32 7)])]"
    by (simp add: cursor_reply_def cursor_doc_ok_def int_value_def)
  show "wf_doc aggregate_reply" by (simp add: aggregate_reply_def wf_doc_def encode_doc_def)
qed

lemma aggregate_answers:
  "answers scripted ask (cl_net aggregate_client)
     (\<lambda>r rid n. good_reply r rid [aggregate_reply] False \<and> serves scripted (asks_more 5) n [later_batch])"
proof -
  have "wf_doc [([0x62], BInt32 1)]" "wf_doc [([0x61], BInt32 9)]" by (simp_all add: wf_doc_def)
  then show ?thesis using aggregate_reply_ok(2)
    by (simp add: answers_def scripted_def reply_with_def good_reply_def has_flag_def points_to_def wf_doc_def
        aggregate_client_def client_with_def later_batch_def)
qed

theorem aggregate_fills_columns_witness:
  "\<exists>cur cur' h'. monary_init_aggregate scripted aggregate_client (Some collection_ab) (Some (encode_doc [] @ [])) sample_columns
       = Ok (Some cur)
     \<and> monary_load_query (cursor_next scripted) cursor_error cur sample_heap = Ok (3, cur', h') \<and> h' 3 = Some [0, 1, 0, 1]"
proof -
  let ?ds = "[[([0x61], BInt32 7)], [([0x62], BInt32 1)], [([0x61], BInt32 9)]] :: bdoc list"
  have prefs: "cl_read_prefs aggregate_client = None" "\<not> cl_in_exhaust aggregate_client"
    by (simp_all add: aggregate_client_def client_with_def)
  have "c_string (co_db collection_ab) = Ok [0x61]" "c_string (co_collection collection_ab) = Ok [0x62]"
    by (simp_all add: collection_ab_def c_string_def)
  moreover have "\<not> c_strstr [0x61] (map of_char ''$cmd'')" "\<not> c_strstr [0x62] (map of_char ''$cmd'')" by code_simp+
  moreover have "length (enc_elems (aggregate_doc [0x62] (stages []))) = 60" by code_simp
  ultimately have ready: "aggregate_ready aggregate_client collection_ab [] [0x62] [0x61] None []"
    using sample_prefs(1) prefs by (simp add: aggregate_ready_def wf_doc_def prefs_hold_def preferences_def)
  have node: "modern_node scripted (cl_net aggregate_client) (cl_net aggregate_client)"
    by (simp add: modern_node_def scripted_def)
  have docs: "?ds = take (cd_num_rows sample_columns) (documents [([0x30], BDocument [([0x61], BInt32 7)])] @ delivered [later_batch])"
    by (simp add: sample_columns_def later_batch_def)
  have cells: "\<forall>es \<in> set ?ds. cells_ok sample_columns sample_heap [sample_column] es"
    using sample_cells(2,4) sample_int_cells by simp
  have room: "cd_num_rows sample_columns * length [sample_column] \<le> INT32_MAX" by (simp add: sample_columns_def)
  have more: "((5 :: 64 word) \<noteq> 0) = ([later_batch] \<noteq> [])" by simp
  obtain cur cur' h' where r: "monary_init_aggregate scripted aggregate_client (Some collection_ab) (Some (encode_doc [] @ [])) sample_columns
       = Ok (Some cur)"
    "monary_load_query (cursor_next scripted) cursor_error cur sample_heap = Ok (length ?ds, cur', h')"
    "rows_loaded sample_columns [sample_column] 0 ?ds sample_heap h'"
    using aggregate_fills_columns [OF ready node aggregate_reply_ok(1) more aggregate_answers sample_columns_ready room docs cells,
        where t = "[]"]
    by (elim exE conjE) (rule that)
  have "h' 3 = Some (rows_mask 0 [Some [7, 0, 0, 0], None, Some [9, 0, 0, 0]] [1, 1, 1, 1])"
    using r(3) sample_int_cells
    by (auto simp: rows_loaded_def col_filled_def sample_cells sample_heap_def [THEN fun_cong] sample_column_def [THEN arg_cong, of ci_storage] sample_column_def [THEN arg_cong, of ci_mask])
  moreover have "rows_mask 0 [Some [7, 0, 0, 0], None, Some [9, 0, 0, 0]] [1, 1, 1, 1] = [0, 1, 0, 1]"
    by code_simp
  ultimately show ?thesis using r(1,2) by auto
qed

end
