(* ===== verification/Mongoc_Safe.thy ===== *)
theory Mongoc_Safe
  imports Mongoc_Find
begin

text \<open>
  The cursor on replies of any content: whatever bytes a reply holds, the cursor stays inside them,
  and its error state is final.
\<close>

definition reply_ok :: "mongoc_rpc_reply_t \<Rightarrow> bool" where
  "reply_ok r \<longleftrightarrow> (case rp_documents r of None \<Rightarrow> True
     | Some v \<Rightarrow> rp_documents_len r \<le> length v \<and> rp_documents_len r \<le> INT32_MAX)"

definition driver_ok :: "'n driver \<Rightarrow> bool" where
  "driver_ok d \<longleftrightarrow> (\<forall>n h r n'. d_recv d n h = (Inr r, n') \<longrightarrow> reply_ok r)"

definition cursor_ok :: "mongoc_cursor_t \<Rightarrow> bool" where
  "cursor_ok c \<longleftrightarrow> (case c_reader c of None \<Rightarrow> True | Some r \<Rightarrow> reader_ok r)"

lemma cursor_ok_update [simp]:
  "cursor_ok (set_error m k c) = cursor_ok c" "cursor_ok (c\<lparr>c_done := x\<rparr>) = cursor_ok c"
  "cursor_ok (c\<lparr>c_failed := x\<rparr>) = cursor_ok c" "c_failed (set_error m k c) = c_failed c"
  by (simp_all add: cursor_ok_def set_error_def)

lemma get_first_safe:
  assumes "reply_ok r"
  shows "\<exists>b. mongoc_rpc_reply_get_first r = Ok b \<and> (\<forall>doc. b = Some doc \<longrightarrow> bson_ok doc)"
proof (cases "rp_documents r")
  case None
  then show ?thesis by (simp add: mongoc_rpc_reply_get_first_def)
next
  case (Some v)
  with assms have len: "rp_documents_len r \<le> length v" "rp_documents_len r \<le> INT32_MAX"
    by (simp_all add: reply_ok_def)
  show ?thesis
  proof (cases "rp_documents_len r < 4")
    case False
    then obtain n where n: "rd32 v 0 = Ok n" using len by (simp add: rd32_def rdn_def)
    show ?thesis
    proof (cases "int (rp_documents_len r) < as_int32 n \<or> as_int32 n < 0")
      case False
      let ?k = "nat (as_int32 n)"
      have k: "?k \<le> length v" "?k \<le> INT32_MAX" using False len by linarith+
      obtain b where b: "bson_init_static v ?k = Ok b"
        using bson_init_static_total [of ?k v] k by (cases "5 \<le> ?k") (auto simp: bson_init_static_def)
      have "bson_ok doc" if "b = Some doc" for doc
        using bson_init_static_some [of v ?k doc] b that by (simp add: bson_ok_def)
      then show ?thesis using Some n False b \<open>\<not> rp_documents_len r < 4\<close>
        by (auto simp: mongoc_rpc_reply_get_first_def Let_def)
    qed (use Some n in \<open>simp add: mongoc_rpc_reply_get_first_def Let_def\<close>)
  qed (use Some in \<open>simp add: mongoc_rpc_reply_get_first_def\<close>)
qed

lemma init_find_safe:
  assumes "bson_ok b" "0 \<notin> set K"
  shows "\<exists>found it. bson_iter_init_find b (K @ 0 # u) = Ok (found, it) \<and> (found \<longrightarrow> on_field it)"
proof -
  have "iter_ok (snd (bson_iter_init b))" using iter_init_ok [OF assms(1)] .
  from find_with_len_safe [OF this assms(2), of "-1" u] show ?thesis
    by (cases "bson_iter_init b") (auto simp: bson_iter_init_find_def bson_iter_find_def split: bool.splits)
qed

text \<open>A check of a reply changes nothing of the cursor but its error.\<close>

definition checks :: "mongoc_cursor_t \<Rightarrow> (bool \<times> mongoc_cursor_t) result \<Rightarrow> bool" where
  "checks c r \<longleftrightarrow> (\<exists>failure e. r = Ok (failure, c\<lparr>c_error := e\<rparr>))"

lemma checks_simps [simp]: "checks c (Ok (f, c))" "checks c (Ok (f, set_error m k c))"
proof -
  have "c = c\<lparr>c_error := c_error c\<rparr>" by simp
  then show "checks c (Ok (f, c))" unfolding checks_def by metis
qed (auto simp: checks_def set_error_def)

lemma checks_populate:
  assumes "bson_ok doc"
  shows "checks c (rbind (mongoc_cursor_populate_error doc c) (\<lambda>c. Ok (f, c)))"
proof -
  have "0 \<notin> set (map of_char ''code'' :: bytes)" by code_simp
  from init_find_safe [OF assms this, of "[]"] obtain found it where
    it: "bson_iter_init_find doc (ascii ''code'') = Ok (found, it)" "found \<longrightarrow> on_field it"
    by (auto simp: ascii_def)
  show ?thesis
  proof (cases found)
    case True
    then have "on_field it" using it(2) by simp
    then obtain w where "bson_iter_int32 it = Ok w" using numeric_accessors_safe(2) by (auto simp: safe_iff)
    then show ?thesis
      using it True iter_holds_on_field [OF \<open>on_field it\<close>]
      by (simp add: mongoc_cursor_populate_error_def)
  next
    case False
    then show ?thesis using it by (simp add: mongoc_cursor_populate_error_def)
  qed
qed

lemma unwrap_failure_safe:
  assumes "reply_ok (c_rpc c)"
  shows "checks c (mongoc_cursor_unwrap_failure c)"
proof -
  obtain first where first: "mongoc_rpc_reply_get_first (c_rpc c) = Ok first" "\<forall>doc. first = Some doc \<longrightarrow> bson_ok doc"
    using get_first_safe [OF assms] by blast
  show ?thesis
  proof (cases first)
    case None
    then show ?thesis using first(1) by (simp add: mongoc_cursor_unwrap_failure_def Let_def)
  next
    case (Some b)
    have b: "bson_ok b" using first(2) Some by simp
    have "0 \<notin> set (map of_char ''ok'' :: bytes)" by code_simp
    then obtain found it where it: "bson_iter_init_find b (ascii ''ok'') = Ok (found, it)" "found \<longrightarrow> on_field it"
      using init_find_safe [OF b, of "map of_char ''ok''" "[]"] by (auto simp: ascii_def)
    have "\<exists>v. bson_iter_as_bool it = Ok v" if found
      using numeric_accessors_safe(12) it(2) that by (auto simp: safe_iff)
    then show ?thesis using first(1) Some it(1) checks_populate [OF b]
      by (auto simp: mongoc_cursor_unwrap_failure_def Let_def)
  qed
qed

lemma reader_new_ok: "reply_ok r \<Longrightarrow> bson_reader_new_from_data (rp_documents r) (rp_documents_len r) = Some rd \<Longrightarrow> reader_ok rd"
  by (auto simp: reply_ok_def bson_reader_new_from_data_def reader_ok_def split: option.splits)

lemma receive_reply_safe:
  assumes "driver_ok d" "cursor_ok c"
  shows "\<exists>ok c' cl'. receive_reply d rid (c, cl) = Ok (ok, c', cl') \<and> cursor_ok c' \<and> (ok \<longrightarrow> c_failed c' = c_failed c)"
proof -
  obtain r n where r: "d_recv d (cl_net cl) (c_hint c) = (r, n)" by fastforce
  show ?thesis
  proof (cases r)
    case (Inl e)
    then show ?thesis using r assms(2) by (auto simp: receive_reply_def cursor_ok_def)
  next
    case (Inr reply)
    have ok: "reply_ok reply" using assms(1) r Inr unfolding driver_ok_def by blast
    obtain f e where f: "mongoc_cursor_unwrap_failure (c\<lparr>c_rpc := reply\<rparr>) = Ok (f, c\<lparr>c_rpc := reply, c_error := e\<rparr>)"
      using unwrap_failure_safe [of "c\<lparr>c_rpc := reply\<rparr>"] ok by (auto simp: checks_def)
    show ?thesis using r Inr f assms(2) reader_new_ok [OF ok]
      by (auto simp: receive_reply_def Let_def cursor_ok_def set_error_def split: option.splits)
  qed
qed

lemma query_safe:
  assumes "driver_ok d" "cursor_ok c"
  shows "\<exists>ok c' cl'. mongoc_cursor_query d (c, cl) = Ok (ok, c', cl') \<and> cursor_ok c' \<and> (ok \<longrightarrow> c_failed c' = c_failed c)"
proof -
  obtain w n1 where w: "d_warm_up d (cl_net cl) = (w, n1)" by fastforce
  obtain r n2 where r: "d_sendv d n1 (query_message c) (c_hint c) = (r, n2)" by fastforce
  show ?thesis
  proof (cases w)
    case None
    show ?thesis
    proof (cases r)
      case (Inr hr)
      obtain h rid where hr: "hr = (h, rid)" by fastforce
      have "cursor_ok (c\<lparr>c_hint := h\<rparr>)" using assms(2) by (simp add: cursor_ok_def)
      from receive_reply_safe [OF assms(1) this, of rid "cl\<lparr>cl_net := n2\<rparr>"] show ?thesis
        using w r None Inr hr by (auto simp: mongoc_cursor_query_def Let_def cursor_ok_def fail_done_def)
    qed (use w r None assms(2) in \<open>auto simp: mongoc_cursor_query_def Let_def cursor_ok_def fail_done_def\<close>)
  qed (use w assms(2) in \<open>auto simp: mongoc_cursor_query_def Let_def cursor_ok_def\<close>)
qed

lemma get_more_safe:
  assumes "driver_ok d" "cursor_ok c"
  shows "\<exists>ok c' cl'. mongoc_cursor_get_more d (c, cl) = Ok (ok, c', cl') \<and> cursor_ok c' \<and> (ok \<longrightarrow> c_failed c' = c_failed c)"
proof -
  obtain w n1 where w: "d_warm_up d (cl_net cl) = (w, n1)" by fastforce
  obtain r n2 where r: "d_sendv d n1 (get_more_message c) (c_hint c) = (r, n2)" by fastforce
  have recv: "\<exists>ok c' cl''. rbind (receive_reply d rid (c, cl')) (\<lambda>(ok, c, cl).
      if ok then Ok (True, c\<lparr>c_end_of_event := False\<rparr>, cl) else Ok (False, fail_done c, cl)) = Ok (ok, c', cl'')
      \<and> cursor_ok c' \<and> (ok \<longrightarrow> c_failed c' = c_failed c)" for rid and cl' :: "'a mongoc_client_t"
    using receive_reply_safe [OF assms, of rid cl'] by (auto simp: cursor_ok_def fail_done_def)
  show ?thesis
  proof (cases "c_in_exhaust c")
    case True
    then show ?thesis using recv by (simp add: mongoc_cursor_get_more_def Let_def)
  next
    case False
    then show ?thesis using w r recv assms(2)
      by (cases w; cases r)
        (auto simp: mongoc_cursor_get_more_def Let_def cursor_ok_def fail_done_def set_error_def)
  qed
qed

lemma reader_read_safe':
  assumes "cursor_ok c"
  shows "\<exists>b eof c'. reader_read c = Ok (b, eof, c') \<and> cursor_ok c' \<and> c_failed c' = c_failed c
     \<and> (\<forall>doc. b = Some doc \<longrightarrow> bson_ok doc)"
proof (cases "c_reader c")
  case (Some r)
  then obtain b eof r' where "bson_reader_read r = Ok (b, eof, r')" "reader_ok r'" "\<forall>doc. b = Some doc \<longrightarrow> bson_ok doc"
    using assms reader_read_safe [of r] by (fastforce simp: cursor_ok_def)
  then show ?thesis using Some by (simp add: reader_read_def cursor_ok_def)
qed (use assms in \<open>auto simp: reader_read_def cursor_ok_def\<close>)

definition next_safe :: "(bson_t option \<times> 'n state) result \<Rightarrow> bool" where
  "next_safe r \<longleftrightarrow> (\<exists>b s. r = Ok (b, s) \<and> cursor_ok (fst s)
     \<and> (\<forall>doc. b = Some doc \<longrightarrow> bson_ok doc \<and> \<not> c_failed (fst s)))"

lemma next_safe_Ok [simp]:
  "next_safe (Ok (b, c, cl)) \<longleftrightarrow> cursor_ok c \<and> (\<forall>doc. b = Some doc \<longrightarrow> bson_ok doc \<and> \<not> c_failed c)"
  by (auto simp: next_safe_def)

lemma next_complete_safe:
  assumes "cursor_ok c" "\<not> c_failed c" "\<forall>doc. b = Some doc \<longrightarrow> bson_ok doc"
  shows "next_safe (next_complete b eof (c, cl))"
  using assms by (simp add: next_complete_def Let_def)

lemma next_base_safe:
  assumes "driver_ok d" "cursor_ok c"
  shows "next_safe (mongoc_cursor_next_base d (c, cl))"
proof (cases "c_done c \<or> c_failed c \<or> cl_in_exhaust cl \<and> \<not> c_in_exhaust c \<or> c_limit c \<noteq> 0 \<and> c_limit c \<le> c_count c")
  case True
  then consider "c_done c \<or> c_failed c" | "\<not> (c_done c \<or> c_failed c)" "cl_in_exhaust cl \<and> \<not> c_in_exhaust c"
    | "\<not> (c_done c \<or> c_failed c)" "\<not> (cl_in_exhaust cl \<and> \<not> c_in_exhaust c)" "c_limit c \<noteq> 0 \<and> c_limit c \<le> c_count c"
    by blast
  then show ?thesis using assms(2) by cases (simp_all add: mongoc_cursor_next_base_def)
next
  case False
  have tail: "next_safe (rbind (reader_read c') (\<lambda>(b, eof, c). next_complete b eof (c, cl')))"
    if "cursor_ok c'" "\<not> c_failed c'" for c' and cl' :: "'a mongoc_client_t"
    using reader_read_safe' [OF that(1)] that(2) by (auto intro!: next_complete_safe)
  obtain b eof c1 where c1: "(if c_reader c = None then Ok (None, False, c) else reader_read c) = Ok (b, eof, c1)"
    "cursor_ok c1" "\<not> c_failed c1" "\<forall>doc. b = Some doc \<longrightarrow> bson_ok doc"
    using reader_read_safe' [OF assms(2)] False assms(2) by (cases "c_reader c = None") auto
  let ?ask = "if \<not> c_sent c1 then mongoc_cursor_query d (c1, cl)
    else if c_end_of_event c1 \<and> rp_cursor_id (c_rpc c1) \<noteq> 0 then mongoc_cursor_get_more d (c1, cl) else Ok (True, c1, cl)"
  obtain ok c2 cl2 where c2: "?ask = Ok (ok, c2, cl2)" "cursor_ok c2" "ok \<longrightarrow> \<not> c_failed c2"
    using query_safe [OF assms(1) c1(2), of cl] get_more_safe [OF assms(1) c1(2), of cl] c1(2,3)
    by (cases "c_sent c1"; cases "c_end_of_event c1 \<and> rp_cursor_id (c_rpc c1) \<noteq> 0") auto
  have "mongoc_cursor_next_base d (c, cl) =
      (if b \<noteq> None then next_complete b eof (c1, cl)
       else if \<not> ok then Ok (None, c2, cl2) else rbind (reader_read c2) (\<lambda>(b, eof, c). next_complete b eof (c, cl2)))"
    using False c1(1) c2(1) by (auto simp: mongoc_cursor_next_base_def)
  then show ?thesis
    using next_complete_safe [OF c1(2-4), of eof cl] c2 tail [of c2 cl2] by simp
qed

lemma cursor_next_safe:
  assumes "driver_ok d" "cursor_ok (fst s)"
  shows "next_safe (mongoc_cursor_next d s)"
proof -
  obtain c cl where s: "s = (c, cl)" by fastforce
  obtain b c' cl' where "mongoc_cursor_next_base d (c, cl) = Ok (b, c', cl')"
    "cursor_ok c'" "\<forall>doc. b = Some doc \<longrightarrow> bson_ok doc \<and> \<not> c_failed c'"
    using next_base_safe [of d c cl] assms s by (auto simp: next_safe_def)
  then show ?thesis using assms(2) s by (simp add: mongoc_cursor_next_def) (simp add: cursor_ok_def)
qed

lemma read_docs_safe:
  assumes "driver_ok d"
  shows "cursor_ok (fst s) \<Longrightarrow> \<exists>docs s'. read_docs (mongoc_cursor_next d) n s = Ok (docs, s') \<and> length docs \<le> n
     \<and> (\<forall>b \<in> set docs. bson_ok b) \<and> cursor_ok (fst s')"
proof (induction n arbitrary: s)
  case (Suc n)
  obtain b s1 where s1: "mongoc_cursor_next d s = Ok (b, s1)" "cursor_ok (fst s1)" "\<forall>doc. b = Some doc \<longrightarrow> bson_ok doc"
    using cursor_next_safe [OF assms Suc.prems] by (auto simp: next_safe_def)
  then show ?case using Suc.IH [OF s1(2)] by (cases b) auto
qed simp

section \<open>Properties\<close>

text \<open>
  C16: on replies of any content, as long as they are as long as they say, reading documents from a
  cursor never leaves the reply and always returns; every document handed out is a handle inside the
  reply. A cursor that has failed stays as it is and delivers nothing.
\<close>

theorem cursor_safe_on_any_reply:
  assumes "driver_ok d" "cursor_ok (fst s)"
  shows "\<exists>docs s'. read_docs (mongoc_cursor_next d) n s = Ok (docs, s') \<and> length docs \<le> n
     \<and> (\<forall>b \<in> set docs. bson_ok b) \<and> cursor_ok (fst s')
     \<and> (mongoc_cursor_error (fst s) \<noteq> None \<longrightarrow> docs = [] \<and> s' = s)"
proof -
  have "read_docs (mongoc_cursor_next d) n s = Ok ([], s)" if "c_failed (fst s)"
    using that by (cases n) (simp_all add: mongoc_cursor_next_def)
  then show ?thesis
    using read_docs_safe [OF assms, of n] by (auto simp: mongoc_cursor_error_def split: if_splits)
qed

definition empty_cursor :: mongoc_cursor_t where
  "empty_cursor = \<lparr>c_hint = 0, c_is_command = False, c_sent = False, c_done = False, c_failed = False,
     c_end_of_event = False, c_in_exhaust = False, c_redir_primary = False, c_has_fields = False,
     c_query = bson_init, c_fields = bson_init, c_read_prefs = None, c_flags = 0, c_skip = 0, c_limit = 0,
     c_count = 0, c_batch_size = 0, c_ns = [], c_error = (0, 0), c_rpc = zero_reply, c_reader = None,
     c_current = None\<rparr>"

text \<open>A reply whose only document claims to be longer than the reply.\<close>

definition bad_reply :: mongoc_rpc_reply_t where
  "bad_reply = (reply_with 0 [])\<lparr>rp_documents := Some [200, 0, 0, 0, 0, 0], rp_documents_len := 6\<rparr>"

lemma scripted_ok: "driver_ok (scripted\<lparr>d_recv := \<lambda>n h. (Inr bad_reply, n)\<rparr>)"
  by (simp add: driver_ok_def scripted_def bad_reply_def reply_with_def reply_ok_def)

theorem cursor_safe_on_any_reply_witness:
  "\<exists>docs s'. read_docs (mongoc_cursor_next (scripted\<lparr>d_recv := \<lambda>n h. (Inr bad_reply, n)\<rparr>)) 3
       (empty_cursor, client_with []) = Ok (docs, s')
     \<and> (\<forall>b \<in> set docs. bson_ok b)"
proof -
  have "cursor_ok (fst (empty_cursor, client_with []))" by (simp add: cursor_ok_def empty_cursor_def)
  from cursor_safe_on_any_reply [OF scripted_ok this, of 3] show ?thesis by blast
qed

text \<open>
  C38: the number of documents asked for: the batch size, or with a limit the smaller of the batch
  size and what is left; but with 2^31 or more documents left the cast to a signed number makes it
  negative, which in the protocol asks for a single batch.
\<close>

theorem n_return_value:
  assumes "\<not> c_is_command c" "c_count c \<le> c_limit c" "c_limit c < 4294967296" "c_batch_size c \<le> INT32_MAX"
  shows "mongoc_n_return c =
     (let left = int (c_limit c) - int (c_count c) in
      if c_limit c = 0 then int (c_batch_size c)
      else if left \<le> int INT32_MAX then min (int (c_batch_size c)) left else left - 4294967296)"
proof -
  have "sub32 (c_limit c) (c_count c) = c_limit c - c_count c"
    using assms(2,3) by (rule sub32_diff)
  then show ?thesis
    using assms by (auto simp: mongoc_n_return_def as_int32_def w32_def Let_def of_nat_diff)
qed

theorem n_return_value_witness: "mongoc_n_return (empty_cursor\<lparr>c_limit := 3000000000, c_batch_size := 100\<rparr>) < 0"
  using n_return_value [of "empty_cursor\<lparr>c_limit := 3000000000, c_batch_size := 100\<rparr>"]
  by (simp add: empty_cursor_def)

text \<open>
  The flags of a query: whatever the read preferences are, the cursor of a query keeps exactly
  the flags the caller gave. \<open>_mongoc_cursor_new\<close> does set the slave-ok flag for preferences other
  than primary, but only in its local variable, after the cursor has got its copy.
\<close>

theorem find_ignores_slave_ok:
  assumes "mongoc_collection_find cl coll flags skip limit batch_size q flds prefs = Ok c"
  shows "c_flags c = flags"
  using assms
  by (auto simp: mongoc_collection_find_def mongoc_cursor_new_def rbind_Ok_iff Let_def mark_failed_def set_error_def
      split: if_splits)

theorem find_ignores_slave_ok_witness:
  "\<exists>c. mongoc_collection_find (client_with []) (collection_ab\<lparr>co_read_prefs := Some secondary_prefs\<rparr>)
        0 0 0 0 sample_bson None None = Ok c
     \<and> mongoc_cursor_error c = None \<and> \<not> has_flag (c_flags c) MONGOC_QUERY_SLAVE_OK"
proof -
  let ?coll = "collection_ab\<lparr>co_read_prefs := Some secondary_prefs\<rparr>"
  obtain c where "mongoc_collection_find (client_with []) ?coll 0 0 0 0 sample_bson None None = Ok c" "\<not> c_failed c"
    using cursor_new_ok [OF find_sample_arguments(2), of "[]" 0 0 0 0]
    by (auto simp: mongoc_collection_find_def refused_sample cursor_for_def)
  with find_ignores_slave_ok [OF this(1)] show ?thesis by (auto simp: has_flag_def mongoc_cursor_error_def)
qed

text \<open>
  A clone of a cursor starts over with the same query, but not with its projection: the field
  that says there is one is not copied, so the clone asks for whole documents.
\<close>

theorem clone_loses_projection:
  assumes "cursor_for flags skip limit batch_size ns qs (Some fs) c" "c_read_prefs c = None"
  shows "\<exists>c'. mongoc_cursor_clone c = Ok c' \<and> cursor_for flags skip limit batch_size ns qs None (c'\<lparr>c_fields := bson_init\<rparr>)
     \<and> (\<exists>f. query_message c = Query flags (take 139 ns) skip (if has_flag flags MONGOC_QUERY_TAILABLE_CURSOR then 0
          else mongoc_n_return c) (bson_data (c_query c)) (Some f))
     \<and> (\<exists>q. query_message c' = Query flags (take 139 ns) skip (if has_flag flags MONGOC_QUERY_TAILABLE_CURSOR then 0
          else mongoc_n_return c) q None \<and> points_to (Some q) (encode_doc qs))"
proof -
  have h: "holds_doc (c_query c) qs" "holds_doc (c_fields c) fs"
    using assms(1) by (simp_all add: cursor_for_def)
  obtain q f where q: "bson_copy_to (c_query c) = Ok q" "holds_doc q qs" "bson_copy_to (c_fields c) = Ok f"
    using bson_copy_to_ok [OF h(1)] bson_copy_to_ok [OF h(2)] by blast
  moreover have "holds_doc bson_init []" using building_init by (simp add: building_def)
  ultimately show ?thesis
    using assms by (auto simp: mongoc_cursor_clone_def cursor_for_def query_message_def mongoc_n_return_def
        bson_get_data_def holds_doc_def)
qed


theorem clone_loses_projection_witness:
  "\<exists>c c' f q. mongoc_collection_find (client_with []) collection_ab 0 0 0 0 sample_bson (Some sample_bson) None = Ok c
     \<and> mongoc_cursor_clone c = Ok c'
     \<and> query_message c = Query 0 [0x61, 0x2E, 0x62] 0 0 (bson_data (c_query c)) (Some f)
     \<and> query_message c' = Query 0 [0x61, 0x2E, 0x62] 0 0 q None"
proof -
  have a: "query_arguments sample_bson (co_ns collection_ab) (if None = None then cl_read_prefs (client_with []) else None)
      (Some sample_bson) sample_doc [0x61, 0x2E, 0x62] [] (Some sample_doc)"
    using find_sample_arguments(1) [of "[]"] holds_sample by (simp add: query_arguments_def fields_hold_def sample_prefs)
  obtain c where c: "mongoc_cursor_new (client_with []) (co_ns collection_ab) 0 0 0 0 False sample_bson (Some sample_bson) None = Ok c"
    "cursor_for 0 0 0 0 [0x61, 0x2E, 0x62] (wrapped sample_doc) (Some sample_doc) c"
    using cursor_new_ok [OF a, of 0 0 0 0] by (auto simp: refused_sample sample_prefs)
  have p: "c_read_prefs c = None"
    using c(1) by (auto simp: mongoc_cursor_new_def rbind_Ok_iff Let_def client_with_def reroute_command_def
        mark_failed_def set_error_def split: if_splits)
  have "mongoc_n_return c = 0" using c(2) by (simp add: mongoc_n_return_def cursor_for_def as_int32_def w32_def)
  with clone_loses_projection [OF c(2) p] c(1) show ?thesis
    by (auto simp: mongoc_collection_find_def collection_ab_def has_flag_def)
qed

end
