(* ===== verification/Mongoc_Read_Prefs.thy ===== *)
theory Mongoc_Read_Prefs
  imports Mongoc_Command Bson_String
begin

text \<open>
  Read preferences (\<open>mongoc-read-prefs.c\<close>): changing them, and the score of a node, which
  \<open>_mongoc_cluster_select\<close> uses to choose where a message goes. Of a node the score reads the flag
  \<open>primary\<close> and the document \<open>tags\<close>.
\<close>

section \<open>Changing preferences\<close>

definition mongoc_read_prefs_set_mode :: "mongoc_read_prefs_t \<Rightarrow> nat \<Rightarrow> mongoc_read_prefs_t" where
  "mongoc_read_prefs_set_mode p mode = (if mode \<le> MONGOC_READ_NEAREST then p\<lparr>pf_mode := mode\<rparr> else p)"

definition mongoc_read_prefs_set_tags :: "mongoc_read_prefs_t \<Rightarrow> bson_t option \<Rightarrow> mongoc_read_prefs_t result" where
  "mongoc_read_prefs_set_tags p tags =
     rbind (case tags of Some t \<Rightarrow> bson_copy_to t | None \<Rightarrow> Ok bson_init) (\<lambda>t. Ok (p\<lparr>pf_tags := t\<rparr>))"

text \<open>The key of a new tag is the number of tags so far.\<close>

definition mongoc_read_prefs_add_tag :: "mongoc_read_prefs_t \<Rightarrow> bson_t option \<Rightarrow> mongoc_read_prefs_t result" where
  "mongoc_read_prefs_add_tag p tag =
     rbind (bson_count_keys (pf_tags p)) (\<lambda>key.
     rbind (bson_append_document (pf_tags p) (Some (snprintf 16 (c_signed (as_int32 key)))) (- 1)
              (case tag of Some t \<Rightarrow> t | None \<Rightarrow> bson_init)) (\<lambda>(_, t).
       Ok (p\<lparr>pf_tags := t\<rparr>)))"

definition mongoc_read_prefs_is_valid :: "mongoc_read_prefs_t \<Rightarrow> bool result" where
  "mongoc_read_prefs_is_valid p =
     (if pf_mode p = MONGOC_READ_PRIMARY then bson_empty (pf_tags p) else Ok True)"

section \<open>Scores\<close>

definition contains_tag :: "bson_t \<Rightarrow> view \<Rightarrow> view \<Rightarrow> nat \<Rightarrow> bool result" where
  "contains_tag b key val value_len =
     rbind (bson_iter_init_find b key) (\<lambda>(found, it).
       if \<not> found then Ok False
       else rbind (iter_holds it BSON_TYPE_UTF8) (\<lambda>u.
         if \<not> u then Ok False
         else rbind (bson_iter_utf8 it) (\<lambda>(s, _). case s of
             None \<Rightarrow> Fault Null_Deref
           | Some s \<Rightarrow> c_strncmp_eq value_len val s)))"

text \<open>The loop over the tags of the preferences; the fuel is the length of the document.\<close>

fun score_loop :: "nat \<Rightarrow> bson_iter_t \<Rightarrow> bson_t \<Rightarrow> int \<Rightarrow> int result" where
  "score_loop 0 it node_tags count = Fault No_Termination"
| "score_loop (Suc fuel) it node_tags count =
     rbind (bson_iter_next it) (\<lambda>(more, it).
       if \<not> more then Ok (- 1)
       else rbind (iter_holds it BSON_TYPE_UTF8) (\<lambda>u.
         if \<not> u then score_loop fuel it node_tags count
         else rbind (bson_iter_key it) (\<lambda>key. rbind (bson_iter_utf8 it) (\<lambda>(str, len).
           case str of None \<Rightarrow> Fault Null_Deref
           | Some str \<Rightarrow> rbind (contains_tag node_tags key str len) (\<lambda>found.
               if found then Ok count else score_loop fuel it node_tags count)))))"

definition score_tags :: "bson_t \<Rightarrow> bson_t \<Rightarrow> int result" where
  "score_tags read_tags node_tags =
     rbind (bson_count_keys read_tags) (\<lambda>count. rbind (bson_empty read_tags) (\<lambda>e.
       if e then Ok 0
       else case bson_iter_init read_tags of
           (False, _) \<Rightarrow> Ok 0
         | (True, it) \<Rightarrow> score_loop (iter_fuel it) it node_tags (as_int32 count)))"

definition tags_or_one :: "bson_t \<Rightarrow> bson_t \<Rightarrow> int result" where
  "tags_or_one read_tags node_tags =
     rbind (bson_empty read_tags) (\<lambda>e. if e then Ok 1 else score_tags read_tags node_tags)"

definition score_primary :: "bool \<Rightarrow> int result" where
  "score_primary primary = Ok (if primary then 2147483647 else 0)"

definition score_primary_preferred :: "mongoc_read_prefs_t \<Rightarrow> bool \<Rightarrow> bson_t \<Rightarrow> int result" where
  "score_primary_preferred p primary node_tags = (if primary then Ok 2147483647 else tags_or_one (pf_tags p) node_tags)"

definition score_secondary :: "mongoc_read_prefs_t \<Rightarrow> bool \<Rightarrow> bson_t \<Rightarrow> int result" where
  "score_secondary p primary node_tags = (if primary then Ok (- 1) else tags_or_one (pf_tags p) node_tags)"

definition score_secondary_preferred :: "mongoc_read_prefs_t \<Rightarrow> bool \<Rightarrow> bson_t \<Rightarrow> int result" where
  "score_secondary_preferred p primary node_tags = (if primary then Ok 0 else tags_or_one (pf_tags p) node_tags)"

definition score_nearest :: "mongoc_read_prefs_t \<Rightarrow> bson_t \<Rightarrow> int result" where
  "score_nearest p node_tags = tags_or_one (pf_tags p) node_tags"

definition mongoc_read_prefs_score :: "mongoc_read_prefs_t \<Rightarrow> bool \<Rightarrow> bson_t \<Rightarrow> int result" where
  "mongoc_read_prefs_score p primary node_tags =
     (if pf_mode p = MONGOC_READ_PRIMARY then score_primary primary
      else if pf_mode p = MONGOC_READ_PRIMARY_PREFERRED then score_primary_preferred p primary node_tags
      else if pf_mode p = MONGOC_READ_SECONDARY then score_secondary p primary node_tags
      else if pf_mode p = MONGOC_READ_SECONDARY_PREFERRED then score_secondary_preferred p primary node_tags
      else if pf_mode p = MONGOC_READ_NEAREST then score_nearest p node_tags
      else Fault Assertion_Failed)"

section \<open>What the tags select\<close>

text \<open>
  The texts of the tags are compared up to the length of the text of the preference, so that it
  suffices that the text of the node begins with it.
\<close>

definition tag_matches :: "bdoc \<Rightarrow> bytes \<times> bval \<Rightarrow> bool" where
  "tag_matches ns e \<longleftrightarrow> (case snd e of
     BUtf8 s \<Rightarrow> (case find (\<lambda>e'. fst e' = fst e) ns of Some (_, BUtf8 t) \<Rightarrow> take (length s) t = s | _ \<Rightarrow> False)
   | _ \<Rightarrow> False)"

definition texts_no_nul :: "bdoc \<Rightarrow> bool" where
  "texts_no_nul es \<longleftrightarrow> (\<forall>k s. (k, BUtf8 s) \<in> set es \<longrightarrow> 0 \<notin> set s)"

definition tags_score :: "bdoc \<Rightarrow> bdoc \<Rightarrow> int" where
  "tags_score ts ns = (if ts = [] then 1 else if list_ex (tag_matches ns) ts then int (length ts) else - 1)"

lemma init_find_key:
  assumes "holds_doc b es" "0 \<notin> set K"
  shows "case find (\<lambda>e. fst e = K) es of
      None \<Rightarrow> \<exists>it. bson_iter_init_find b (K @ 0 # u) = Ok (False, it)
    | Some (k, x) \<Rightarrow> \<exists>it. bson_iter_init_find b (K @ 0 # u) = Ok (True, it) \<and> on_elem K x it"
proof -
  obtain it where it: "bson_iter_init b = (True, it)" "iter_upto es 0 it"
    using assms(1) by (rule iter_init_holds_doc)
  have k: "k = K" if "find (\<lambda>e. fst e = K) es = Some (k, x)" for k x
    using that by (auto simp: find_Some_iff) (metis fst_conv)
  show ?thesis
    using bson_iter_find_correct [OF it(2) assms(2), of u] it(1) k
    by (auto simp: bson_iter_init_find_def split: option.splits)
qed

lemma utf8_on_elem: "on_elem k (BUtf8 s) it \<Longrightarrow> \<exists>t. bson_iter_utf8 it = Ok (Some (s @ 0 # t), length s)"
  using string_on_elem [of k "BUtf8 s" it bson_iter_utf8 s] by (auto simp: points_to_def)

lemma holds_type_on_elem: "on_elem k x it \<Longrightarrow> iter_holds it t = Ok (val_type x = t)"
  using on_elemE [of k x it] iter_holds_on_field by metis

lemma contains_tag_correct:
  assumes "holds_doc b ns" "texts_no_nul ns" "0 \<notin> set k" "0 \<notin> set s"
  shows "contains_tag b (k @ 0 # u) (s @ 0 # v) (length s) = Ok (tag_matches ns (k, BUtf8 s))"
proof (cases "find (\<lambda>e. fst e = k) ns")
  case None
  then show ?thesis using init_find_key [OF assms(1,3), of u] by (auto simp: contains_tag_def tag_matches_def)
next
  case (Some e)
  obtain k' x where e: "e = (k', x)" by (cases e)
  have mem: "(k', x) \<in> set ns" using Some e by (auto simp: find_Some_iff)
  obtain it where it: "bson_iter_init_find b (k @ 0 # u) = Ok (True, it)" "on_elem k x it"
    using init_find_key [OF assms(1,3), of u] Some e by auto
  show ?thesis
  proof (cases "\<exists>t. x = BUtf8 t")
    case True
    then obtain t where x: "x = BUtf8 t" by blast
    have t: "0 \<notin> set t" using mem assms(2) x by (auto simp: texts_no_nul_def)
    obtain w where "bson_iter_utf8 it = Ok (Some (t @ 0 # w), length t)" using utf8_on_elem it(2) x by blast
    then show ?thesis
      using it x Some e c_strncmp_eq_keys [OF assms(4) order_refl t, of v w]
      by (auto simp: contains_tag_def tag_matches_def holds_type_on_elem)
  next
    case False
    then have "val_type x \<noteq> BSON_TYPE_UTF8" by (cases x) auto
    then show ?thesis using it Some e False
      by (auto simp: contains_tag_def tag_matches_def holds_type_on_elem split: bval.splits)
  qed
qed


lemma score_loop_upto:
  assumes "holds_doc node_tags ns" "texts_no_nul ns" "texts_no_nul ts"
  shows "iter_upto ts n it \<Longrightarrow> length ts - n < fuel \<Longrightarrow>
    score_loop fuel it node_tags count = Ok (if list_ex (tag_matches ns) (drop n ts) then count else - 1)"
proof (induction fuel arbitrary: n it)
  case (Suc fuel)
  show ?case
  proof (cases "n < length ts")
    case True
    obtain it' where it: "bson_iter_next it = Ok (True, it')" "iter_upto ts (Suc n) it'"
      "on_elem (fst (ts ! n)) (snd (ts ! n)) it'" using iter_upto_next [OF Suc.prems(1) True] .
    obtain k x where kx: "ts ! n = (k, x)" by (cases "ts ! n")
    have d: "drop n ts = (k, x) # drop (Suc n) ts" using True kx by (simp add: Cons_nth_drop_Suc [symmetric])
    have ih: "score_loop fuel it' node_tags count = Ok (if list_ex (tag_matches ns) (drop (Suc n) ts) then count else - 1)"
      using Suc.IH [OF it(2)] Suc.prems(2) True by simp
    have k: "0 \<notin> set k" using it(3) kx by (auto elim: on_elemE)
    obtain t where key: "bson_iter_key it' = Ok (k @ 0 # t)" using on_elem_key [OF it(3)] kx by auto
    show ?thesis
    proof (cases "\<exists>s. x = BUtf8 s")
      case True
      then obtain s where x: "x = BUtf8 s" by blast
      have s: "0 \<notin> set s" using assms(3) x kx \<open>n < length ts\<close> by (metis nth_mem texts_no_nul_def)
      obtain u where "bson_iter_utf8 it' = Ok (Some (s @ 0 # u), length s)" using utf8_on_elem [of k s it'] it(3) kx x by auto
      then show ?thesis
        using it kx x key d ih contains_tag_correct [OF assms(1,2) k s, of t u]
        by (simp add: holds_type_on_elem)
    next
      case False
      then have "val_type x \<noteq> BSON_TYPE_UTF8" by (cases x) auto
      moreover have "\<not> tag_matches ns (k, x)" using False by (auto simp: tag_matches_def split: bval.splits)
      ultimately show ?thesis using it kx d ih by (simp add: holds_type_on_elem)
    qed
  next
    case False
    then have n: "n = length ts" using Suc.prems(1) by (simp add: iter_upto_def)
    obtain it' where "bson_iter_next it = Ok (False, it')" using iter_upto_end [OF Suc.prems(1) [unfolded n]] .
    then show ?thesis by (simp add: n)
  qed
qed simp

lemma tags_or_one_correct:
  assumes "holds_doc read_tags ts" "holds_doc node_tags ns" "texts_no_nul ts" "texts_no_nul ns"
  shows "tags_or_one read_tags node_tags = Ok (tags_score ts ns)"
proof (cases "ts = []")
  case True
  then show ?thesis using bson_empty_holds_doc [OF assms(1)] by (simp add: tags_or_one_def tags_score_def)
next
  case False
  obtain it where it: "bson_iter_init read_tags = (True, it)" "iter_upto ts 0 it"
    using assms(1) by (rule iter_init_holds_doc)
  have l: "2 * length ts \<le> length (enc_elems ts)" "length (enc_elems ts) \<le> INT32_MAX" "i_len it = length (enc_elems ts) + 5"
    using it(2) length_le_enc_elems by (auto simp: iter_upto_def)
  have "score_loop (iter_fuel it) it node_tags (int (length ts)) = Ok (if list_ex (tag_matches ns) ts then int (length ts) else - 1)"
    using score_loop_upto [OF assms(2,4,3) it(2)] l by (simp add: iter_fuel_def)
  then show ?thesis
    using False bson_empty_holds_doc [OF assms(1)] bson_count_keys_holds_doc [OF assms(1)] it(1) l
    by (simp add: tags_or_one_def score_tags_def tags_score_def as_int32_nonneg)
qed

text \<open>The score of each mode.\<close>

definition score_of :: "nat \<Rightarrow> bool \<Rightarrow> bdoc \<Rightarrow> bdoc \<Rightarrow> int" where
  "score_of mode primary ts ns =
     (if mode = MONGOC_READ_PRIMARY then if primary then 2147483647 else 0
      else if primary \<and> mode = MONGOC_READ_PRIMARY_PREFERRED then 2147483647
      else if primary \<and> mode = MONGOC_READ_SECONDARY then - 1
      else if primary \<and> mode = MONGOC_READ_SECONDARY_PREFERRED then 0
      else tags_score ts ns)"

definition read_modes :: "nat set" where
  "read_modes = {MONGOC_READ_PRIMARY, MONGOC_READ_SECONDARY, MONGOC_READ_PRIMARY_PREFERRED,
     MONGOC_READ_SECONDARY_PREFERRED, MONGOC_READ_NEAREST}"

lemma mongoc_read_prefs_score_correct:
  assumes "holds_doc (pf_tags p) ts" "holds_doc node_tags ns" "texts_no_nul ts" "texts_no_nul ns" "pf_mode p \<in> read_modes"
  shows "mongoc_read_prefs_score p primary node_tags = Ok (score_of (pf_mode p) primary ts ns)"
  using tags_or_one_correct [OF assms(1-4)] assms(5)
  by (auto simp: mongoc_read_prefs_score_def score_of_def read_modes_def score_primary_def score_primary_preferred_def
      score_secondary_def score_secondary_preferred_def score_nearest_def)

section \<open>Adding a tag\<close>

lemma length_c_decimal: "n < 10 ^ Suc k \<Longrightarrow> length (c_decimal n) \<le> Suc k"
proof (induction k arbitrary: n)
  case (Suc k)
  have "n div 10 < 10 ^ Suc k" using Suc.prems by (simp add: less_mult_imp_div_less ac_simps)
  from Suc.IH [OF this] show ?case by (subst c_decimal.simps) simp
qed (simp add: c_decimal.simps)

text \<open>
  A tag is added as a document under the next number, but \<open>score_tags\<close> only looks at texts: once a tag
  was added this way, no node but a preferred primary has a score of its own.
\<close>

lemma add_tag_correct:
  assumes "building (pf_tags p) ts" "roomy (pf_tags p)" "holds_doc t es" "b_len (pf_tags p) + length (encode_doc es) + 12 \<le> 2 ^ 30"
  shows "\<exists>p'. mongoc_read_prefs_add_tag p (Some t) = Ok p' \<and> pf_mode p' = pf_mode p
    \<and> building (pf_tags p') (ts @ [(c_decimal (length ts), BDocument es)])"
proof -
  have h: "holds_doc (pf_tags p) ts" using assms(1) by (simp add: building_def)
  have l: "2 * length ts \<le> length (enc_elems ts)" "length (enc_elems ts) + 5 = b_len (pf_tags p)"
    using length_le_enc_elems h by (auto simp: holds_doc_def)
  have n: "length ts < 10 ^ Suc 8 * 10" using l assms(4) by simp
  define K where "K = c_decimal (length ts)"
  have K: "0 \<notin> set K" "length K \<le> 10" "length K < 16"
    using c_decimal_nonzero length_c_decimal [of "length ts" 9] n by (auto simp: K_def)
  have key: "snprintf 16 (c_signed (as_int32 (length ts))) = K @ [0]"
    using l assms(4) K(3) by (simp add: c_signed_def as_int32_nonneg snprintf_def K_def)
  have arg: "str_arg (K @ [0]) (- 1) K" using K(1,2) by (auto simp: str_arg_def c_string_append)
  have size: "length (enc_elem K (BDocument es)) = length K + length (encode_doc es) + 2"
    by (simp add: length_enc_elem)
  have fit: "fits (pf_tags p) (length (enc_elem K (BDocument es)))"
    using assms(4) K(2) size by (intro roomy_fits assms(2)) simp
  have m: "doc_means BDocument t (BDocument es)" using assms(3) by (simp add: doc_means_def)
  have "length (enc_elem K (BDocument es)) \<le> INT32_MAX" using assms(4) K(2) size by simp
  with app_document.appends [OF assms(1) m arg K(1)] fit obtain b where
    "bson_append_document (pf_tags p) (Some (K @ [0])) (- 1) t = Ok (True, b)" "building b (ts @ [(K, BDocument es)])"
    by (auto simp: appended_def enc_elem_def)
  then show ?thesis
    using bson_count_keys_holds_doc [OF h] key by (simp add: mongoc_read_prefs_add_tag_def K_def)
qed

lemma documents_never_match: "ts \<noteq> [] \<Longrightarrow> (\<And>k s. (k, BUtf8 s) \<notin> set ts) \<Longrightarrow> tags_score ts ns = - 1"
  by (auto simp: tags_score_def list_ex_iff tag_matches_def split: bval.splits)

end
