(* ===== verification/Mongoc_Rpc.thy ===== *)
theory Mongoc_Rpc
  imports Bson_Iter
begin

text \<open>
  The wire protocol of \<open>mongoc-rpc.c\<close>. The source describes each message once, in an \<open>op-*.def\<close> file,
  and includes that file under several definitions of the field macros; here a message is a list of
  fields, and each set of macros is a function on fields.
\<close>

section \<open>Messages\<close>

datatype rpc_field =
    INT32_FIELD string
  | ENUM_FIELD string
  | INT64_FIELD string
  | INT64_ARRAY_FIELD string string
  | CSTRING_FIELD string
  | BSON_FIELD string
  | BSON_ARRAY_FIELD string
  | IOVEC_ARRAY_FIELD string
  | BSON_OPTIONAL string rpc_field

definition op_header :: "rpc_field list" where
  "op_header = [INT32_FIELD ''msg_len'', INT32_FIELD ''request_id'', INT32_FIELD ''response_to'', INT32_FIELD ''opcode'']"

definition op_reply :: "rpc_field list" where
  "op_reply = [INT32_FIELD ''msg_len'', INT32_FIELD ''request_id'', INT32_FIELD ''response_to'', INT32_FIELD ''opcode'',
     ENUM_FIELD ''flags'', INT64_FIELD ''cursor_id'', INT32_FIELD ''start_from'', INT32_FIELD ''n_returned'',
     BSON_ARRAY_FIELD ''documents'']"

definition op_msg :: "rpc_field list" where
  "op_msg = [INT32_FIELD ''msg_len'', INT32_FIELD ''request_id'', INT32_FIELD ''response_to'', INT32_FIELD ''opcode'',
     CSTRING_FIELD ''msg'']"

definition op_update :: "rpc_field list" where
  "op_update = [INT32_FIELD ''msg_len'', INT32_FIELD ''request_id'', INT32_FIELD ''response_to'', INT32_FIELD ''opcode'',
     INT32_FIELD ''zero'', CSTRING_FIELD ''collection'', ENUM_FIELD ''flags'', BSON_FIELD ''selector'', BSON_FIELD ''update'']"

definition op_insert :: "rpc_field list" where
  "op_insert = [INT32_FIELD ''msg_len'', INT32_FIELD ''request_id'', INT32_FIELD ''response_to'', INT32_FIELD ''opcode'',
     ENUM_FIELD ''flags'', CSTRING_FIELD ''collection'', IOVEC_ARRAY_FIELD ''documents'']"

definition op_query :: "rpc_field list" where
  "op_query = [INT32_FIELD ''msg_len'', INT32_FIELD ''request_id'', INT32_FIELD ''response_to'', INT32_FIELD ''opcode'',
     ENUM_FIELD ''flags'', CSTRING_FIELD ''collection'', INT32_FIELD ''skip'', INT32_FIELD ''n_return'', BSON_FIELD ''query'',
     BSON_OPTIONAL ''fields'' (BSON_FIELD ''fields'')]"

definition op_get_more :: "rpc_field list" where
  "op_get_more = [INT32_FIELD ''msg_len'', INT32_FIELD ''request_id'', INT32_FIELD ''response_to'', INT32_FIELD ''opcode'',
     INT32_FIELD ''zero'', CSTRING_FIELD ''collection'', INT32_FIELD ''n_return'', INT64_FIELD ''cursor_id'']"

definition op_delete :: "rpc_field list" where
  "op_delete = [INT32_FIELD ''msg_len'', INT32_FIELD ''request_id'', INT32_FIELD ''response_to'', INT32_FIELD ''opcode'',
     INT32_FIELD ''zero'', CSTRING_FIELD ''collection'', ENUM_FIELD ''flags'', BSON_FIELD ''selector'']"

definition op_kill_cursors :: "rpc_field list" where
  "op_kill_cursors = [INT32_FIELD ''msg_len'', INT32_FIELD ''request_id'', INT32_FIELD ''response_to'', INT32_FIELD ''opcode'',
     INT32_FIELD ''zero'', INT64_ARRAY_FIELD ''n_cursors'' ''cursors'']"

text \<open>The switch over \<open>header.opcode\<close>, the same in all four operations.\<close>

definition op_fields :: "nat \<Rightarrow> rpc_field list option" where
  "op_fields opcode =
     (if opcode = 1 then Some op_reply
      else if opcode = 1000 then Some op_msg
      else if opcode = 2001 then Some op_update
      else if opcode = 2002 then Some op_insert
      else if opcode = 2004 then Some op_query
      else if opcode = 2005 then Some op_get_more
      else if opcode = 2006 then Some op_delete
      else if opcode = 2007 then Some op_kill_cursors
      else None)"

text \<open>
  The members of the structure, one value per field. A pointer member is a view; \<open>Bson None\<close> is the
  NULL of an optional document.
\<close>

datatype rpc_value =
    Int32 "32 word"
  | Int64 "64 word"
  | Int64_Array "32 word" "view option"
  | CString "view option"
  | Bson "view option"
  | Bson_Array "view option" int
  | Iovec_Array "byte list list"

type_synonym mongoc_rpc_t = "rpc_value list"

section \<open>Gathering\<close>

text \<open>
  The entries appended to the I/O vector, as their bytes, on a little-endian host. A value that the
  member cannot have, or a NULL where the code follows the pointer, is a fault.
\<close>

definition iovec :: "byte list \<Rightarrow> byte list list result" where
  "iovec bs = (if bs = [] then Fault Assertion_Failed else Ok [bs])"

fun gather_field :: "rpc_field \<Rightarrow> rpc_value \<Rightarrow> byte list list result" where
  "gather_field (INT32_FIELD _) (Int32 w) = iovec (le_bytes 4 (unat w))"
| "gather_field (ENUM_FIELD _) (Int32 w) = iovec (le_bytes 4 (unat w))"
| "gather_field (INT64_FIELD _) (Int64 w) = iovec (le_bytes 8 (unat w))"
| "gather_field (INT64_ARRAY_FIELD _ _) (Int64_Array n (Some p)) =
     rbind (iovec (le_bytes 4 (unat n))) (\<lambda>a. rbind (mul_int32 (as_int32 (unat n)) 8) (\<lambda>size.
       if size < 0 then Fault Out_Of_Bounds
       else rbind (rdn (nat size) p 0) (\<lambda>bs. rbind (iovec bs) (\<lambda>b. Ok (a @ b)))))"
| "gather_field (CSTRING_FIELD _) (CString p) =
     (case p of None \<Rightarrow> Fault Assertion_Failed | Some v \<Rightarrow> rbind (c_string v) (\<lambda>s. iovec (s @ [0])))"
| "gather_field (BSON_FIELD _) (Bson (Some v)) =
     rbind (rd32 v 0) (\<lambda>l. if INT32_MAX < l then Fault Out_Of_Bounds else rbind (rdn l v 0) iovec)"
| "gather_field (BSON_OPTIONAL _ f) (Bson p) = (if p = None then Ok [] else gather_field f (Bson p))"
| "gather_field (BSON_ARRAY_FIELD _) (Bson_Array p n) =
     (if n = 0 then Ok []
      else if n < 0 then Fault Out_Of_Bounds
      else case p of None \<Rightarrow> Fault Null_Deref | Some v \<Rightarrow> rbind (rdn (nat n) v 0) iovec)"
| "gather_field (IOVEC_ARRAY_FIELD _) (Iovec_Array vs) =
     (if vs = [] \<or> [] \<in> set vs then Fault Assertion_Failed else Ok vs)"
| "gather_field _ _ = Fault Null_Deref"

text \<open>\<open>rpc->msg_len += (int32_t)iov.iov_len\<close> for every entry.\<close>

fun add_lengths :: "int \<Rightarrow> byte list list \<Rightarrow> int result" where
  "add_lengths len [] = Ok len"
| "add_lengths len (bs # iovs) = rbind (add_int32 len (as_int32 (w32 (length bs)))) (\<lambda>len. add_lengths len iovs)"

fun gather_fields :: "rpc_field list \<Rightarrow> mongoc_rpc_t \<Rightarrow> int \<Rightarrow> (int \<times> byte list list) result" where
  "gather_fields [] vals len = Ok (len, [])"
| "gather_fields (f # fs) (v # vals) len =
     rbind (gather_field f v) (\<lambda>a. rbind (add_lengths len a) (\<lambda>len.
       rbind (gather_fields fs vals len) (\<lambda>(len, b). Ok (len, a @ b))))"
| "gather_fields (f # fs) [] len = Fault Null_Deref"

text \<open>
  The first entry points to the member \<open>msg_len\<close> itself, so what is sent for it is the final sum.
\<close>

definition gather_op :: "rpc_field list \<Rightarrow> mongoc_rpc_t \<Rightarrow> (mongoc_rpc_t \<times> byte list list) result" where
  "gather_op fs rpc =
     rbind (gather_fields fs rpc 0) (\<lambda>(len, iovs).
       Ok (Int32 (of_int len) # tl rpc, le_bytes 4 (unat (of_int len :: 32 word)) # tl iovs))"

definition mongoc_rpc_gather :: "nat \<Rightarrow> mongoc_rpc_t \<Rightarrow> (mongoc_rpc_t \<times> byte list list) result" where
  "mongoc_rpc_gather opcode rpc =
     (case op_fields opcode of None \<Rightarrow> Ok (rpc, []) | Some fs \<Rightarrow> gather_op fs rpc)"

section \<open>Scattering\<close>

text \<open>
  The value of the field and what follows it in the buffer: a view and the number \<open>buflen\<close> of bytes
  left; \<open>None\<close> is the early \<open>return false\<close>. \<open>memset\<close> has set the optional members to NULL.
\<close>

fun scatter_field :: "rpc_field \<Rightarrow> view \<Rightarrow> nat \<Rightarrow> (rpc_value \<times> view \<times> nat) option result" where
  "scatter_field (INT32_FIELD _) buf n =
     (if n < 4 then Ok None else rbind (rd32 buf 0) (\<lambda>w. Ok (Some (Int32 (of_nat w), drop 4 buf, n - 4))))"
| "scatter_field (ENUM_FIELD _) buf n =
     (if n < 4 then Ok None else rbind (rd32 buf 0) (\<lambda>w. Ok (Some (Int32 (of_nat w), drop 4 buf, n - 4))))"
| "scatter_field (INT64_FIELD _) buf n =
     (if n < 8 then Ok None else rbind (rd64 buf 0) (\<lambda>w. Ok (Some (Int64 (of_nat w), drop 8 buf, n - 8))))"
| "scatter_field (INT64_ARRAY_FIELD _ _) buf n =
     (if n < 4 then Ok None
      else rbind (rd32 buf 0) (\<lambda>l.
        let needed = w32 (l * 8) in
        if n - 4 < needed then Ok None
        else Ok (Some (Int64_Array (of_nat l) (Some (drop 4 buf)), drop needed (drop 4 buf), n - 4 - needed))))"
| "scatter_field (CSTRING_FIELD _) buf n =
     rbind (scan_nul buf n 0) (\<lambda>z. case z of None \<Rightarrow> Ok None
       | Some i \<Rightarrow> Ok (Some (CString (Some buf), drop (i + 1) buf, n - (i + 1))))"
| "scatter_field (BSON_FIELD _) buf n =
     (if n < 4 then Ok None
      else rbind (rd32 buf 0) (\<lambda>l. if l < 5 \<or> n < l then Ok None else Ok (Some (Bson (Some buf), drop l buf, n - l))))"
| "scatter_field (BSON_ARRAY_FIELD _) buf n = Ok (Some (Bson_Array (Some buf) (as_int32 (w32 n)), [], 0))"
| "scatter_field (IOVEC_ARRAY_FIELD _) buf n = rbind (rdn n buf 0) (\<lambda>bs. Ok (Some (Iovec_Array [bs], [], 0)))"
| "scatter_field (BSON_OPTIONAL _ f) buf n = (if n = 0 then Ok (Some (Bson None, buf, n)) else scatter_field f buf n)"

fun scatter_fields :: "rpc_field list \<Rightarrow> view \<Rightarrow> nat \<Rightarrow> mongoc_rpc_t option result" where
  "scatter_fields [] buf n = Ok (Some [])"
| "scatter_fields (f # fs) buf n =
     rbind (scatter_field f buf n) (\<lambda>r. case r of None \<Rightarrow> Ok None
     | Some (v, buf, n) \<Rightarrow> rbind (scatter_fields fs buf n) (\<lambda>r. case r of None \<Rightarrow> Ok None
       | Some vs \<Rightarrow> Ok (Some (v # vs))))"

definition rpc_int :: "rpc_value \<Rightarrow> nat" where
  "rpc_int v = (case v of Int32 w \<Rightarrow> unat w | _ \<Rightarrow> 0)"

definition mongoc_rpc_scatter :: "view \<Rightarrow> nat \<Rightarrow> mongoc_rpc_t option result" where
  "mongoc_rpc_scatter buf n =
     (if n < 16 then Ok None
      else rbind (scatter_fields op_header buf 16) (\<lambda>h. case h of None \<Rightarrow> Ok None
      | Some header \<Rightarrow> (case op_fields (rpc_int (header ! 3)) of None \<Rightarrow> Ok None
        | Some fs \<Rightarrow> scatter_fields fs buf n)))"

section \<open>Any bytes\<close>

lemma scatter_field_total:
  "n \<le> length buf \<Longrightarrow> \<exists>r. scatter_field f buf n = Ok r
    \<and> (\<forall>v buf' n'. r = Some (v, buf', n') \<longrightarrow> n' \<le> length buf' \<and> n' \<le> n)"
proof (induction f)
  case (CSTRING_FIELD s)
  then show ?case
    by (cases rule: scan_nul_cases [of n buf 0]) (use CSTRING_FIELD in \<open>auto intro: diff_le_mono\<close>)
qed (auto simp: view_simps Let_def)

lemma scatter_fields_total: "n \<le> length buf \<Longrightarrow> \<exists>r. scatter_fields fs buf n = Ok r"
proof (induction fs arbitrary: buf n)
  case (Cons f fs)
  obtain r where r: "scatter_field f buf n = Ok r" "\<forall>v buf' n'. r = Some (v, buf', n') \<longrightarrow> n' \<le> length buf' \<and> n' \<le> n"
    using scatter_field_total [OF Cons.prems] by blast
  show ?case
  proof (cases r)
    case (Some t)
    obtain v buf' n' where t: "t = (v, buf', n')" by (cases t) auto
    then obtain r' where "scatter_fields fs buf' n' = Ok r'" using Cons.IH r(2) Some by blast
    then show ?thesis using r(1) Some t by (auto split: option.splits)
  qed (use r in simp)
qed simp


section \<open>What arrives\<close>

text \<open>
  \<open>carries x y\<close>: the received value \<open>y\<close> holds what was sent as \<open>x\<close>. Received pointers point into the
  buffer, so what they point to is followed by the rest of the message; the entries of an I/O vector
  arrive as one.
\<close>

definition carries :: "rpc_value \<Rightarrow> rpc_value \<Rightarrow> bool" where
  "carries x y \<longleftrightarrow> (case x of
     Int64_Array n (Some p) \<Rightarrow>
       \<exists>q. y = Int64_Array n (Some q) \<and> unat n * 8 \<le> length q \<and> take (unat n * 8) q = take (unat n * 8) p
   | CString (Some v) \<Rightarrow> \<exists>q. y = CString (Some q) \<and> c_string q = c_string v
   | Bson (Some v) \<Rightarrow> \<exists>q. y = Bson (Some (take (len_at v 0) v @ q))
   | Bson_Array p n \<Rightarrow> \<exists>q. y = Bson_Array (Some (take (nat n) (case p of None \<Rightarrow> [] | Some v \<Rightarrow> v) @ q)) n
   | Iovec_Array vs \<Rightarrow> y = Iovec_Array [concat vs]
   | _ \<Rightarrow> y = x)"

text \<open>What a field must hold to be sent: a document of at least five bytes, a number of bytes that is an
  \<open>int32_t\<close>.\<close>

fun sendable :: "rpc_field \<Rightarrow> rpc_value \<Rightarrow> bool" where
  "sendable (BSON_FIELD _) (Bson (Some v)) = (5 \<le> len_at v 0)"
| "sendable (BSON_OPTIONAL _ f) (Bson p) = (p \<noteq> None \<longrightarrow> sendable f (Bson p))"
| "sendable (BSON_ARRAY_FIELD _) (Bson_Array p n) = in_int32 n"
| "sendable _ _ = True"

text \<open>The fields that take all that is left of the buffer, or look whether anything is left.\<close>

fun takes_rest :: "rpc_field \<Rightarrow> bool" where
  "takes_rest (BSON_ARRAY_FIELD _) = True"
| "takes_rest (IOVEC_ARRAY_FIELD _) = True"
| "takes_rest (BSON_OPTIONAL _ f) = True"
| "takes_rest _ = False"

fun rest_last :: "rpc_field list \<Rightarrow> bool" where
  "rest_last [] = True"
| "rest_last [f] = True"
| "rest_last (f # fs) = (\<not> takes_rest f \<and> rest_last fs)"

lemma iovec_Ok: "iovec bs = Ok iovs \<longleftrightarrow> bs \<noteq> [] \<and> iovs = [bs]"
  by (auto simp: iovec_def)

lemma rd_le_bytes:
  "rd32 (le_bytes 4 (unat (w :: 32 word)) @ t) 0 = Ok (unat w)"
  "rd64 (le_bytes 8 (unat (z :: 64 word)) @ t) 0 = Ok (unat z)"
  by (simp_all add: rd32_def rd64_def rdn_def le_nat_le_bytes_word32 le_nat_le_bytes_word64)

lemma scan_nul_first:
  assumes "0 \<notin> set s" and that: "m \<le> length t"
  shows "scan_nul (s @ 0 # t) (Suc (length s) + m) 0 = Ok (Some (length s))"
proof -
  have "Suc (length s) + m \<le> length (s @ 0 # t)" using that by simp
  then show ?thesis
  proof (cases rule: scan_nul_cases [of "Suc (length s) + m" "s @ 0 # t" 0])
  case (found z)
  have "\<not> z < length s" using found(4) assms by (auto simp: nth_append in_set_conv_nth)
  moreover have "\<not> length s < z" using found(5) [of "length s"] by (auto simp: nth_append)
  ultimately show ?thesis using found(1) by simp
next
  case missing
  then show ?thesis using scan_nul_spec [of "Suc (length s) + m" "s @ 0 # t" 0] that
    by (auto dest: spec [of _ "length s"] simp: nth_append)
qed
qed

lemma gather_document_nonempty: "gather_field f (Bson (Some v)) = Ok iovs \<Longrightarrow> concat iovs \<noteq> []"
  by (induction f) (auto simp: rbind_Ok_iff iovec_Ok split: if_splits)

lemma gather_scatter_field:
  assumes "gather_field f x = Ok iovs" "sendable f x" "takes_rest f \<longrightarrow> m = 0" "m \<le> length rest"
  shows "\<exists>y r. scatter_field f (concat iovs @ rest) (length (concat iovs) + m) = Ok (Some (y, r, m)) \<and> carries x y
    \<and> (\<not> takes_rest f \<longrightarrow> r = rest)"
  using assms
proof (induction f x rule: gather_field.induct)
  case (1 n w)
  then show ?case by (auto simp: iovec_Ok rd_le_bytes carries_def)
next
  case (2 n w)
  then show ?case by (auto simp: iovec_Ok rd_le_bytes carries_def)
next
  case (3 n w)
  then show ?case by (auto simp: iovec_Ok rd_le_bytes carries_def)
next
  case (4 a b n p)
  then obtain size bs where s: "mul_int32 (as_int32 (unat n)) 8 = Ok size" "\<not> size < 0" "rdn (nat size) p 0 = Ok bs"
    "iovs = [le_bytes 4 (unat n), bs]" "bs \<noteq> []"
    by (auto simp: rbind_Ok_iff iovec_Ok split: if_splits)
  then have z: "size = as_int32 (unat n) * 8" "0 \<le> as_int32 (unat n)" "as_int32 (unat n) * 8 \<le> 2147483647"
    by (auto simp: mul_int32_def in_int32_def split: if_splits)
  have "unat n < 2 ^ LENGTH(32)" by (rule unsigned_less)
  then have "unat n < 4294967296" by simp
  then have u: "as_int32 (unat n) = int (unat n)" using z(2) by (simp add: as_int32_def w32_id Let_def split: if_splits)
  have size: "nat size = unat n * 8" "unat n * 8 < 4294967296" using z unfolding u by linarith+
  have bs: "bs = take (unat n * 8) p" "unat n * 8 \<le> length p"
    using s(3) by (auto simp: rdn_def size split: if_splits)
  have "scatter_field (INT64_ARRAY_FIELD a b) (le_bytes 4 (unat n) @ bs @ rest) (4 + length bs + m)
    = Ok (Some (Int64_Array n (Some (bs @ rest)), rest, m))"
  proof -
    have "length bs = unat n * 8" using bs by simp
    then show ?thesis using size(2) by (simp add: rd_le_bytes w32_id Let_def)
  qed
  then show ?case using s(4) bs by (auto simp: carries_def)
next
  case (5 a p)
  then obtain v s where v: "p = Some v" "c_string v = Ok s" "iovs = [s @ [0]]"
    by (auto simp: rbind_Ok_iff iovec_Ok split: option.splits)
  have s: "0 \<notin> set s" using v(2) by (auto simp: c_string_def dest: set_takeWhileD split: if_splits)
  show ?case
    using scan_nul_first [OF s, of m rest] 5(4) v c_string_append [OF s, of rest] by (auto simp: carries_def)
next
  case (6 a v)
  then obtain l where l: "rd32 v 0 = Ok l" "rdn l v 0 = Ok (take l v)" "iovs = [take l v]" "l \<le> length v" "take l v \<noteq> []"
    by (auto simp: rbind_Ok_iff iovec_Ok rdn_def split: if_splits)
  then have la: "l = len_at v 0" "4 \<le> length v" by (auto simp: rd32_def rdn_def len_at_def split: if_splits)
  then have "5 \<le> l" using 6 by simp
  moreover have "rd32 (take l v @ rest) 0 = Ok l"
    using l(1,4) la \<open>5 \<le> l\<close> by (simp add: rd32_def rdn_def min_def)
  ultimately show ?case using l la by (auto simp: carries_def)
next
  case (7 a f p)
  show ?case
  proof (cases "p = None")
    case True
    then show ?thesis using 7 by (auto simp: carries_def)
  next
    case False
    then have "concat iovs \<noteq> []" using gather_document_nonempty [of f] 7(2) by auto
    with 7 False show ?thesis by auto
  qed
next
  case (8 a p n)
  have "as_int32 (w32 (nat n)) = n" if "0 \<le> n"
    using that 8(2) by (simp add: in_int32_def as_int32_def w32_id Let_def)
  moreover have "as_int32 (w32 0) = 0" by (simp add: as_int32_def w32_def)
  ultimately show ?case
    using 8 by (auto simp: iovec_Ok rbind_Ok_iff rdn_def carries_def split: if_splits option.splits)
next
  case (9 a vs)
  then show ?case by (auto simp: rdn_def carries_def split: if_splits)
qed auto


lemma gather_scatter_fields:
  "gather_fields fs vals len = Ok (len', iovs) \<Longrightarrow> list_all2 sendable fs vals \<Longrightarrow> rest_last fs
    \<Longrightarrow> \<exists>ys. scatter_fields fs (concat iovs @ rest) (length (concat iovs)) = Ok (Some ys) \<and> list_all2 carries vals ys"
proof (induction fs arbitrary: vals len iovs)
  case (Cons f fs)
  then obtain v vs where vals: "vals = v # vs" "sendable f v" "list_all2 sendable fs vs" by (cases vals) auto
  from Cons.prems(1) obtain a len1 b where a: "gather_field f v = Ok a" "gather_fields fs vs len1 = Ok (len', b)" "iovs = a @ b"
    by (auto simp: vals rbind_Ok_iff)
  have last: "takes_rest f \<longrightarrow> fs = []" "rest_last fs" using Cons.prems(3) by (cases fs; simp)+
  obtain ys where ys: "scatter_fields fs (concat b @ rest) (length (concat b)) = Ok (Some ys)" "list_all2 carries vs ys"
    using Cons.IH [OF a(2) vals(3) last(2)] by blast
  have m: "takes_rest f \<longrightarrow> length (concat b) = 0"
    using last(1) a(2) by auto
  obtain y r where y: "scatter_field f (concat a @ concat b @ rest) (length (concat a) + length (concat b)) = Ok (Some (y, r, length (concat b)))"
    "carries v y" "\<not> takes_rest f \<longrightarrow> r = concat b @ rest"
    using gather_scatter_field [OF a(1) vals(2) m, of "concat b @ rest"] by auto
  show ?case
  proof (cases "takes_rest f")
    case True
    then show ?thesis using y ys last(1) vals by (auto simp: a(3))
  next
    case False
    then show ?thesis using y ys vals by (simp add: a(3))
  qed
qed simp

lemma add_lengths_sum:
  "add_lengths len iovs = Ok len' \<Longrightarrow> length (concat iovs) \<le> INT32_MAX \<Longrightarrow> len' = len + int (length (concat iovs))"
proof (induction iovs arbitrary: len)
  case (Cons a iovs)
  then obtain l where l: "add_int32 len (as_int32 (w32 (length a))) = Ok l" "add_lengths l iovs = Ok len'"
    by (auto simp: rbind_Ok_iff)
  have "as_int32 (w32 (length a)) = int (length a)" using Cons.prems(2) by (simp add: as_int32_def w32_id)
  with l(1) have "l = len + int (length a)" by (simp add: add_int32_def split: if_splits)
  with Cons.IH [OF l(2)] Cons.prems(2) show ?case by simp
qed simp

lemma gather_fields_sum:
  "gather_fields fs vals len = Ok (len', iovs) \<Longrightarrow> length (concat iovs) \<le> INT32_MAX \<Longrightarrow> len' = len + int (length (concat iovs))"
proof (induction fs arbitrary: vals len iovs)
  case (Cons f fs)
  then obtain v vs where "vals = v # vs" by (cases vals) auto
  with Cons.prems(1) obtain a len1 b where a: "add_lengths len a = Ok len1" "gather_fields fs vs len1 = Ok (len', b)" "iovs = a @ b"
    by (auto simp: rbind_Ok_iff)
  have "length (concat a) \<le> INT32_MAX" "length (concat b) \<le> INT32_MAX" using Cons.prems(2) by (simp_all add: a(3))
  with add_lengths_sum [OF a(1)] Cons.IH [OF a(2)] show ?case by (simp add: a(3))
qed simp

text \<open>Every message begins with the fields of the header.\<close>

lemma op_fields_cases:
  assumes "op_fields opcode = Some fs"
  obtains fs' where "fs = op_header @ fs'" "rest_last fs" "opcode < 4294967296"
proof -
  from assms have "\<exists>fs'. fs = op_header @ fs'" "rest_last fs" "opcode < 4294967296"
    by (auto simp: op_fields_def op_header_def op_reply_def op_msg_def op_update_def op_insert_def op_query_def
        op_get_more_def op_delete_def op_kill_cursors_def split: if_splits)
  then show ?thesis using that by blast
qed

lemma gather_header:
  assumes "gather_fields (op_header @ fs) rpc 0 = Ok (len, iovs)"
  obtains a b c d vs iovs' where "rpc = [Int32 a, Int32 b, Int32 c, Int32 d] @ vs"
    "iovs = map (\<lambda>w. le_bytes 4 (unat w)) [a, b, c, d] @ iovs'"
    "\<And>z. gather_fields (op_header @ fs) ([Int32 z, Int32 b, Int32 c, Int32 d] @ vs) 0
      = Ok (len, map (\<lambda>w. le_bytes 4 (unat w)) [z, b, c, d] @ iovs')"
proof -
  have int: "\<exists>w. v = Int32 w \<and> a = [le_bytes 4 (unat w)]" if "gather_field (INT32_FIELD s) v = Ok a" for s v a
    using that by (cases v) (auto simp: iovec_Ok)
  have step: "\<exists>w vs len' b. vals = Int32 w # vs \<and> iovs = le_bytes 4 (unat w) # b \<and> add_lengths l [le_bytes 4 (unat w)] = Ok len'
      \<and> gather_fields fs vs len' = Ok (len, b)"
    if "gather_fields (INT32_FIELD s # fs) vals l = Ok (len, iovs)" for s fs vals l iovs
    using that int by (cases vals) (fastforce simp: rbind_Ok_iff)+
  from assms obtain a vs1 l1 i1 where 1: "rpc = Int32 a # vs1" "iovs = le_bytes 4 (unat a) # i1"
    "add_lengths 0 [le_bytes 4 (unat a)] = Ok l1" "gather_fields (tl op_header @ fs) vs1 l1 = Ok (len, i1)"
    using step [of "''msg_len''" "tl op_header @ fs" rpc 0 iovs] by (auto simp: op_header_def)
  from 1(4) obtain b vs2 l2 i2 where 2: "vs1 = Int32 b # vs2" "i1 = le_bytes 4 (unat b) # i2"
    "add_lengths l1 [le_bytes 4 (unat b)] = Ok l2" "gather_fields (tl (tl op_header) @ fs) vs2 l2 = Ok (len, i2)"
    using step [of "''request_id''" "tl (tl op_header) @ fs" vs1 l1 i1] by (auto simp: op_header_def)
  from 2(4) obtain c vs3 l3 i3 where 3: "vs2 = Int32 c # vs3" "i2 = le_bytes 4 (unat c) # i3"
    "add_lengths l2 [le_bytes 4 (unat c)] = Ok l3" "gather_fields (tl (tl (tl op_header)) @ fs) vs3 l3 = Ok (len, i3)"
    using step [of "''response_to''" "tl (tl (tl op_header)) @ fs" vs2 l2 i2] by (auto simp: op_header_def)
  from 3(4) obtain d vs4 l4 i4 where 4: "vs3 = Int32 d # vs4" "i3 = le_bytes 4 (unat d) # i4"
    "add_lengths l3 [le_bytes 4 (unat d)] = Ok l4" "gather_fields fs vs4 l4 = Ok (len, i4)"
    using step [of "''opcode''" fs vs3 l3 i3] by (auto simp: op_header_def)
  have len4: "add_lengths l [le_bytes 4 w] = add_lengths l [le_bytes 4 w']" for l w w' by simp
  show ?thesis
  proof (rule that [of a b c d vs4 i4])
    fix z :: "32 word"
    have "add_lengths 0 [le_bytes 4 (unat z)] = Ok l1" using 1(3) len4 by metis
    then show "gather_fields (op_header @ fs) ([Int32 z, Int32 b, Int32 c, Int32 d] @ vs4) 0
      = Ok (len, map (\<lambda>w. le_bytes 4 (unat w)) [z, b, c, d] @ i4)"
      using 2(3) 3(3) 4(3,4) by (simp add: op_header_def iovec_def flip: length_0_conv del: add_lengths.simps)
  qed (use 1 2 3 4 in auto)
qed


section \<open>There and back\<close>

lemma message_round_trip:
  assumes "op_fields opcode = Some fs" "list_all2 sendable fs rpc" "rpc ! 3 = Int32 (of_nat opcode)"
    and "mongoc_rpc_gather opcode rpc = Ok (rpc', iovs)" "length (concat iovs) \<le> INT32_MAX"
  shows "take 4 (concat iovs) = le_bytes 4 (length (concat iovs)) \<and> 16 \<le> length (concat iovs)
    \<and> rpc' = Int32 (of_nat (length (concat iovs))) # tl rpc
    \<and> (\<exists>ys. mongoc_rpc_scatter (concat iovs @ rest) (length (concat iovs)) = Ok (Some ys) \<and> list_all2 carries rpc' ys)"
proof -
  from op_fields_cases [OF assms(1)] obtain fs' where fs: "fs = op_header @ fs'" "rest_last fs" "opcode < 4294967296" .
  from assms(1,4) obtain len iovs0 where g: "gather_fields fs rpc 0 = Ok (len, iovs0)"
    "rpc' = Int32 (of_int len) # tl rpc" "iovs = le_bytes 4 (unat (of_int len :: 32 word)) # tl iovs0"
    by (auto simp: mongoc_rpc_gather_def gather_op_def rbind_Ok_iff)
  from gather_header [OF g(1) [unfolded fs(1)]] obtain a b c d vs iovs' where h:
    "rpc = [Int32 a, Int32 b, Int32 c, Int32 d] @ vs" "iovs0 = map (\<lambda>w. le_bytes 4 (unat w)) [a, b, c, d] @ iovs'"
    "\<And>z. gather_fields (op_header @ fs') ([Int32 z, Int32 b, Int32 c, Int32 d] @ vs) 0
      = Ok (len, map (\<lambda>w. le_bytes 4 (unat w)) [z, b, c, d] @ iovs')" by blast
  let ?w = "of_int len :: 32 word"
  have iovs: "iovs = map (\<lambda>w. le_bytes 4 (unat w)) [?w, b, c, d] @ iovs'" and rpc': "rpc' = [Int32 ?w, Int32 b, Int32 c, Int32 d] @ vs"
    using g h(1,2) by simp_all
  have sent: "gather_fields fs rpc' 0 = Ok (len, iovs)" using h(3) [of ?w] iovs rpc' fs(1) by simp
  have "list_all2 sendable fs rpc'" using assms(2) h(1) fs(1) by (simp add: rpc' op_header_def)
  from gather_scatter_fields [OF sent this fs(2), of rest] obtain ys where
    ys: "scatter_fields fs (concat iovs @ rest) (length (concat iovs)) = Ok (Some ys)" "list_all2 carries rpc' ys" by blast
  have len: "len = int (length (concat iovs))" using gather_fields_sum [OF sent] assms(5) by simp
  have "d = of_nat opcode" using assms(3) h(1) by simp
  moreover have op: "unat (of_nat opcode :: 32 word) = opcode" using fs(3) by (simp add: unat_of_nat)
  ultimately have d: "unat d = opcode" by simp
  have r: "rd32 (le_bytes 4 opcode @ t) 0 = Ok opcode" for t using rd_le_bytes(1) [of "of_nat opcode" t] op by simp
  have "mongoc_rpc_scatter (concat iovs @ rest) (length (concat iovs)) = scatter_fields fs (concat iovs @ rest) (length (concat iovs))"
    using d op assms(1) by (simp add: r mongoc_rpc_scatter_def iovs op_header_def rd_le_bytes rpc_int_def)
  moreover have "unat ?w = length (concat iovs)" using len assms(5) by (simp add: unat_of_nat)
  then have "take 4 (concat iovs) = le_bytes 4 (length (concat iovs))" "16 \<le> length (concat iovs)" by (simp_all add: iovs)
  ultimately show ?thesis using ys len g(2) by simp
qed

text \<open>C11: a message that \<open>_mongoc_rpc_gather\<close> has put into an I/O vector is read by \<open>_mongoc_rpc_scatter\<close>.\<close>

theorem gathered_message_scatters:
  assumes "op_fields opcode = Some fs" "list_all2 sendable fs rpc" "rpc ! 3 = Int32 (of_nat opcode)"
    and "mongoc_rpc_gather opcode rpc = Ok (rpc', iovs)" "length (concat iovs) \<le> INT32_MAX"
  shows "rpc' = Int32 (of_nat (length (concat iovs))) # tl rpc
    \<and> (\<exists>ys. mongoc_rpc_scatter (concat iovs @ rest) (length (concat iovs)) = Ok (Some ys) \<and> list_all2 carries rpc' ys)"
  using message_round_trip [OF assms] by blast

definition some_get_more :: mongoc_rpc_t where
  "some_get_more = [Int32 0, Int32 1, Int32 0, Int32 2005, Int32 0, CString (Some [0x61, 0x2E, 0x62, 0]), Int32 5, Int64 7]"

lemma some_get_more_gathers:
  obtains rpc' iovs where "mongoc_rpc_gather 2005 some_get_more = Ok (rpc', iovs)" "length (concat iovs) = 36"
  by (simp add: mongoc_rpc_gather_def some_get_more_def op_fields_def gather_op_def op_get_more_def iovec_def c_string_def
      add_int32_def in_int32_def as_int32_nonneg w32_def flip: length_0_conv)

lemma some_get_more_sendable:
  "op_fields 2005 = Some op_get_more" "list_all2 sendable op_get_more some_get_more" "some_get_more ! 3 = Int32 (of_nat 2005)"
  by (simp_all add: op_fields_def op_get_more_def some_get_more_def)

theorem gathered_message_scatters_witness:
  "\<exists>rpc' iovs ys. mongoc_rpc_gather 2005 some_get_more = Ok (rpc', iovs) \<and> length (concat iovs) = 36
     \<and> rpc' = Int32 36 # tl some_get_more
     \<and> mongoc_rpc_scatter (concat iovs @ []) (length (concat iovs)) = Ok (Some ys) \<and> list_all2 carries rpc' ys"
proof -
  obtain rpc' iovs where g: "mongoc_rpc_gather 2005 some_get_more = Ok (rpc', iovs)" "length (concat iovs) = 36"
    by (rule some_get_more_gathers)
  then show ?thesis using gathered_message_scatters [OF some_get_more_sendable g(1), of "[]"] by auto
qed

lemma mongoc_rpc_scatter_total:
  assumes "n \<le> length buf"
  shows "\<exists>r. mongoc_rpc_scatter buf n = Ok r"
proof -
  have "\<exists>r. scatter_fields op_header buf 16 = Ok r" if "16 \<le> n" using scatter_fields_total [of 16 buf] that assms by simp
  moreover have "\<exists>r. scatter_fields fs buf n = Ok r" for fs using scatter_fields_total assms by simp
  ultimately show ?thesis
    by (cases "16 \<le> n") (force simp: mongoc_rpc_scatter_def split: option.splits)+
qed

text \<open>
  The number of cursors times eight is computed in 32 bits, so a message may name cursors that it
  does not hold.
\<close>

lemma scatter_counts_missing_cursors:
  "scatter_field (INT64_ARRAY_FIELD ''n_cursors'' ''cursors'') [0, 0, 0, 0x20] 4
    = Ok (Some (Int64_Array 0x20000000 (Some []), [], 0))"
  by (simp add: rd32_def rdn_def w32_def Let_def)

end
