(* ===== verification/Mongoc_Write_Concern.thy ===== *)
theory Mongoc_Write_Concern
  imports Mongoc_Command Mongoc_Rpc
begin

text \<open>
  Write concerns (\<open>mongoc-write-concern.c\<close>) and whether a message needs one (\<open>_mongoc_rpc_needs_gle\<close> of
  \<open>mongoc-rpc.c\<close>). A write concern is frozen when its \<open>getlasterror\<close> command is first compiled.
\<close>

record mongoc_write_concern_t =
  wc_fsync :: bool
  wc_journal :: bool
  wc_w :: int
  wc_wtimeout :: int
  wc_wtag :: "view option"
  wc_frozen :: bool
  wc_compiled :: bson_t

abbreviation (input) MONGOC_WRITE_CONCERN_W_UNACKNOWLEDGED :: int where "MONGOC_WRITE_CONCERN_W_UNACKNOWLEDGED \<equiv> 0"
abbreviation (input) MONGOC_WRITE_CONCERN_W_ERRORS_IGNORED :: int where "MONGOC_WRITE_CONCERN_W_ERRORS_IGNORED \<equiv> - 1"
abbreviation (input) MONGOC_WRITE_CONCERN_W_DEFAULT :: int where "MONGOC_WRITE_CONCERN_W_DEFAULT \<equiv> - 2"
abbreviation (input) MONGOC_WRITE_CONCERN_W_MAJORITY :: int where "MONGOC_WRITE_CONCERN_W_MAJORITY \<equiv> - 3"
abbreviation (input) MONGOC_WRITE_CONCERN_W_TAG :: int where "MONGOC_WRITE_CONCERN_W_TAG \<equiv> - 4"

text \<open>\<open>bson_malloc0\<close> leaves \<open>compiled\<close> all zeros.\<close>

definition zero_bson :: bson_t where
  "zero_bson = \<lparr>b_flags = {}, b_len = 0, b_buf = [], b_offset = 0, b_depth = 0, b_realloc = False\<rparr>"

definition mongoc_write_concern_new :: mongoc_write_concern_t where
  "mongoc_write_concern_new = \<lparr>wc_fsync = False, wc_journal = False, wc_w = - 2, wc_wtimeout = 0, wc_wtag = None,
     wc_frozen = False, wc_compiled = zero_bson\<rparr>"

definition dup_string :: "view option \<Rightarrow> view option result" where
  "dup_string s = (case s of None \<Rightarrow> Ok None | Some v \<Rightarrow> rbind (c_string v) (\<lambda>t. Ok (Some (t @ [0]))))"

definition mongoc_write_concern_copy :: "mongoc_write_concern_t option \<Rightarrow> mongoc_write_concern_t option result" where
  "mongoc_write_concern_copy write_concern =
     (case write_concern of None \<Rightarrow> Ok None
      | Some wc \<Rightarrow> rbind (dup_string (wc_wtag wc)) (\<lambda>tag.
          Ok (Some (mongoc_write_concern_new\<lparr>wc_fsync := wc_fsync wc, wc_journal := wc_journal wc, wc_w := wc_w wc,
            wc_wtimeout := wc_wtimeout wc, wc_frozen := False, wc_wtag := tag\<rparr>))))"

definition unless_frozen ::
    "(mongoc_write_concern_t \<Rightarrow> mongoc_write_concern_t) \<Rightarrow> mongoc_write_concern_t \<Rightarrow> mongoc_write_concern_t" where
  "unless_frozen f wc = (if wc_frozen wc then wc else f wc)"

definition mongoc_write_concern_set_fsync :: "bool \<Rightarrow> mongoc_write_concern_t \<Rightarrow> mongoc_write_concern_t" where
  "mongoc_write_concern_set_fsync b = unless_frozen (\<lambda>wc. wc\<lparr>wc_fsync := b\<rparr>)"

definition mongoc_write_concern_set_journal :: "bool \<Rightarrow> mongoc_write_concern_t \<Rightarrow> mongoc_write_concern_t" where
  "mongoc_write_concern_set_journal b = unless_frozen (\<lambda>wc. wc\<lparr>wc_journal := b\<rparr>)"

definition mongoc_write_concern_set_w :: "int \<Rightarrow> mongoc_write_concern_t \<Rightarrow> mongoc_write_concern_t" where
  "mongoc_write_concern_set_w w wc = (if w < - 3 then wc else unless_frozen (\<lambda>wc. wc\<lparr>wc_w := w\<rparr>) wc)"

definition mongoc_write_concern_set_wtimeout :: "int \<Rightarrow> mongoc_write_concern_t \<Rightarrow> mongoc_write_concern_t" where
  "mongoc_write_concern_set_wtimeout ms = unless_frozen (\<lambda>wc. wc\<lparr>wc_wtimeout := ms\<rparr>)"

definition mongoc_write_concern_set_wmajority :: "int \<Rightarrow> mongoc_write_concern_t \<Rightarrow> mongoc_write_concern_t" where
  "mongoc_write_concern_set_wmajority ms =
     unless_frozen (\<lambda>wc. wc\<lparr>wc_w := MONGOC_WRITE_CONCERN_W_MAJORITY, wc_wtimeout := ms\<rparr>)"

definition mongoc_write_concern_set_wtag :: "view option \<Rightarrow> mongoc_write_concern_t \<Rightarrow> mongoc_write_concern_t result" where
  "mongoc_write_concern_set_wtag tag wc =
     (if wc_frozen wc then Ok wc
      else rbind (dup_string tag) (\<lambda>tag. Ok (wc\<lparr>wc_wtag := tag, wc_w := MONGOC_WRITE_CONCERN_W_TAG\<rparr>)))"

definition mongoc_write_concern_get_wtag :: "mongoc_write_concern_t \<Rightarrow> view option" where
  "mongoc_write_concern_get_wtag wc = (if wc_w wc = MONGOC_WRITE_CONCERN_W_TAG then wc_wtag wc else None)"

definition mongoc_write_concern_get_wmajority :: "mongoc_write_concern_t \<Rightarrow> bool" where
  "mongoc_write_concern_get_wmajority wc \<longleftrightarrow> wc_w wc = - 3"

text \<open>The field \<open>w\<close> of the command; then the whole command.\<close>

definition append_w :: "mongoc_write_concern_t \<Rightarrow> bson_t \<Rightarrow> (bool \<times> bson_t) result" where
  "append_w wc b =
     (if wc_w wc = MONGOC_WRITE_CONCERN_W_TAG then
        (case wc_wtag wc of None \<Rightarrow> Fault Assertion_Failed
         | Some tag \<Rightarrow> bson_append_utf8 b (Some (ascii ''w'')) 1 (Some tag) (- 1))
      else if wc_w wc = MONGOC_WRITE_CONCERN_W_MAJORITY then
        bson_append_utf8 b (Some (ascii ''w'')) 1 (Some (ascii ''majority'')) (- 1)
      else if wc_w wc = MONGOC_WRITE_CONCERN_W_DEFAULT then Ok (True, b)
      else if 0 < wc_w wc then bson_append_int32 b (Some (ascii ''w'')) 1 (of_int (wc_w wc))
      else Ok (True, b))"

definition mongoc_write_concern_freeze :: "mongoc_write_concern_t \<Rightarrow> mongoc_write_concern_t result" where
  "mongoc_write_concern_freeze wc =
     (if wc_frozen wc then Ok wc
      else
        rbind (bson_append_int32 bson_init (Some (ascii ''getlasterror'')) 12 1) (\<lambda>(_, b).
        rbind (append_w wc b) (\<lambda>(_, b).
        rbind (if wc_fsync wc then bson_append_bool b (Some (ascii ''fsync'')) 5 True else Ok (True, b)) (\<lambda>(_, b).
        rbind (if wc_journal wc then bson_append_bool b (Some (ascii ''j'')) 1 True else Ok (True, b)) (\<lambda>(_, b).
        rbind (if wc_wtimeout wc \<noteq> 0 then bson_append_int32 b (Some (ascii ''wtimeout'')) 8 (of_int (wc_wtimeout wc))
               else Ok (True, b)) (\<lambda>(_, b).
          Ok (wc\<lparr>wc_frozen := True, wc_compiled := b\<rparr>)))))))"

definition mongoc_write_concern_has_gle :: "mongoc_write_concern_t option \<Rightarrow> bool" where
  "mongoc_write_concern_has_gle wc =
     (case wc of None \<Rightarrow> False | Some wc \<Rightarrow> wc_w wc \<noteq> 0 \<and> wc_w wc \<noteq> - 1)"

definition mongoc_rpc_needs_gle :: "nat \<Rightarrow> mongoc_write_concern_t option \<Rightarrow> bool" where
  "mongoc_rpc_needs_gle opcode wc =
     (if opcode \<in> {1, 2004, 1000, 2005, 2007} then False
      else case wc of None \<Rightarrow> False | Some wc \<Rightarrow> wc_w wc \<noteq> 0)"

text \<open>
  With \<open>w = -1\<close> the two tests disagree: \<open>getlasterror\<close> is sent, but the callers, who ask
  \<open>_mongoc_write_concern_has_gle\<close>, do not wait for its reply.
\<close>

lemma errors_ignored_reply_unread:
  "wc_w wc = MONGOC_WRITE_CONCERN_W_ERRORS_IGNORED
    \<Longrightarrow> mongoc_rpc_needs_gle 2002 (Some wc) \<and> \<not> mongoc_write_concern_has_gle (Some wc)"
  by (simp add: mongoc_rpc_needs_gle_def mongoc_write_concern_has_gle_def)


section \<open>The command\<close>

text \<open>A document under construction on a handle of its own.\<close>

definition made :: "bson_t \<Rightarrow> bdoc \<Rightarrow> bool" where
  "made b es \<longleftrightarrow> building b es \<and> roomy b"

lemma made_init: "made bson_init []"
  by (simp add: made_def building_init roomy_init)

lemma made_len: "made b es \<Longrightarrow> b_len b = length (enc_elems es) + 5"
  by (simp add: made_def building_def holds_doc_def)

lemma made_holds: "made b es \<Longrightarrow> holds_doc b es"
  by (simp add: made_def building_def)

lemma str_arg_ascii: "0 \<notin> set (map of_char key :: bytes) \<Longrightarrow> length key \<le> INT32_MAX \<Longrightarrow> n = int (length key) \<or> n = - 1
    \<Longrightarrow> str_arg (ascii key) n (map of_char key)"
  by (auto simp: str_arg_def ascii_def c_string_append)

context appender
begin

lemma makes:
  assumes "made b es" "means a x" "str_arg k kl K" "0 \<notin> set K" "length (enc_elems (es @ [(K, x)])) + 5 \<le> 2 ^ 30"
  shows "\<exists>b'. op a b (Some k) kl = Ok (True, b') \<and> made b' (es @ [(K, x)])"
proof -
  have "building b es" "roomy b" using assms(1) by (simp_all add: made_def)
  moreover have "b_len b + length (enc_elem K x) \<le> 2 ^ 30"
    using assms(5) made_len [OF assms(1)] by (simp add: enc_elems_append enc_elem_def)
  ultimately show ?thesis using appends_roomy [OF _ _ assms(2-4)] by (auto simp: made_def)
qed

end

text \<open>The \<open>getlasterror\<close> command that a write concern stands for.\<close>

abbreviation (input) field :: "string \<Rightarrow> bval \<Rightarrow> bytes \<times> bval" where
  "field key x \<equiv> (map of_char key, x)"

definition w_field :: "mongoc_write_concern_t \<Rightarrow> bytes \<Rightarrow> bdoc" where
  "w_field wc tag =
     (if wc_w wc = MONGOC_WRITE_CONCERN_W_TAG then [field ''w'' (BUtf8 tag)]
      else if wc_w wc = MONGOC_WRITE_CONCERN_W_MAJORITY then [field ''w'' (BUtf8 (map of_char ''majority''))]
      else if 0 < wc_w wc then [field ''w'' (BInt32 (of_int (wc_w wc)))] else [])"

definition gle_command :: "mongoc_write_concern_t \<Rightarrow> bytes \<Rightarrow> bdoc" where
  "gle_command wc tag = [field ''getlasterror'' (BInt32 1)] @ w_field wc tag
     @ (if wc_fsync wc then [field ''fsync'' (BBool True)] else [])
     @ (if wc_journal wc then [field ''j'' (BBool True)] else [])
     @ (if wc_wtimeout wc \<noteq> 0 then [field ''wtimeout'' (BInt32 (of_int (wc_wtimeout wc)))] else [])"


definition tag_ok :: "mongoc_write_concern_t \<Rightarrow> bytes \<Rightarrow> bool" where
  "tag_ok wc tag \<longleftrightarrow> (wc_w wc = MONGOC_WRITE_CONCERN_W_TAG
     \<longrightarrow> (\<exists>v. wc_wtag wc = Some v \<and> str_arg v (- 1) tag) \<and> length tag + 100 \<le> 2 ^ 30)"

lemma append_w_made:
  assumes "made b es" "tag_ok wc tag" "length (enc_elems (es @ w_field wc tag)) + 5 \<le> 2 ^ 30"
  shows "\<exists>b' r. append_w wc b = Ok (r, b') \<and> made b' (es @ w_field wc tag)"
proof -
  have k: "str_arg (ascii ''w'') 1 (map of_char ''w'')" "0 \<notin> set (map of_char ''w'' :: bytes)"
    by (simp_all add: str_arg_def ascii_def)
  consider (tag) v where "wc_w wc = - 4" "wc_wtag wc = Some v" "str_arg v (- 1) tag"
    | (majority) "wc_w wc = - 3" | (default) "wc_w wc = - 2" | (none) "wc_w wc \<le> 0" "wc_w wc \<notin> {- 2, - 3, - 4}" | (w) "0 < wc_w wc"
    using assms(2) by (fastforce simp: tag_ok_def)
  then show ?thesis
  proof cases
    case tag
    then have "str_means BUtf8 (v, - 1) (BUtf8 tag)" by (simp add: str_means_def)
    from app_utf8.makes [OF assms(1) this k] assms(3) tag show ?thesis
      by (fastforce simp: append_w_def w_field_def)
  next
    case majority
    have "str_arg (ascii ''majority'') (- 1) (map of_char ''majority'')" by (intro str_arg_ascii) simp_all
    then have "str_means BUtf8 (ascii ''majority'', - 1) (BUtf8 (map of_char ''majority''))" by (simp add: str_means_def)
    from app_utf8.makes [OF assms(1) this k] assms(3) majority show ?thesis
      by (fastforce simp: append_w_def w_field_def)
  next
    case w
    then show ?thesis using app_int32.makes [OF assms(1) refl k, of "of_int (wc_w wc)"] assms(3)
      by (auto simp: append_w_def w_field_def)
  qed (use assms(1) in \<open>auto simp: append_w_def w_field_def\<close>)
qed

text \<open>A field that is appended only when it is set.\<close>

lemma append_if:
  assumes "made b es" "0 \<notin> set (map of_char key :: bytes)" "kl = int (length key)" "length key \<le> INT32_MAX"
    and "length (enc_elems (es @ [(map of_char key, x)])) + 5 \<le> 2 ^ 30"
    and "\<And>k K. str_arg k kl K \<Longrightarrow> 0 \<notin> set K \<Longrightarrow> K = map of_char key
      \<Longrightarrow> \<exists>b'. op b (Some k) kl = Ok (True, b') \<and> made b' (es @ [(K, x)])"
  shows "\<exists>b' r. (if c then op b (Some (ascii key)) kl else Ok (True, b)) = Ok (r, b')
    \<and> made b' (es @ (if c then [(map of_char key, x)] else []))"
proof -
  have "str_arg (ascii key) kl (map of_char key)" using assms(2,3,4) by (intro str_arg_ascii) auto
  then show ?thesis using assms(1,2) assms(6) [of "ascii key" "map of_char key"] by auto
qed

text \<open>
  C23: the first \<open>_mongoc_write_concern_freeze\<close> compiles the \<open>getlasterror\<close> command of the settings, with
  the fields that are set and no others; from then on the setters change nothing, and freezing again
  returns the same command.
\<close>

theorem freeze_compiles:
  assumes "\<not> wc_frozen wc" "tag_ok wc tag"
  shows "\<exists>wc'. mongoc_write_concern_freeze wc = Ok wc' \<and> holds_doc (wc_compiled wc') (gle_command wc tag)
    \<and> mongoc_write_concern_freeze wc' = Ok wc'
    \<and> mongoc_write_concern_set_w w wc' = wc' \<and> mongoc_write_concern_set_fsync f wc' = wc' \<and> mongoc_write_concern_set_journal j wc' = wc'
    \<and> mongoc_write_concern_set_wtimeout t wc' = wc' \<and> mongoc_write_concern_set_wmajority t wc' = wc'
    \<and> mongoc_write_concern_set_wtag v wc' = Ok wc'"
proof -
  define es where "es = [field ''getlasterror'' (BInt32 1)]"
  define fs where "fs = (if wc_fsync wc then [field ''fsync'' (BBool True)] else [])"
  define js where "js = (if wc_journal wc then [field ''j'' (BBool True)] else [])"
  define ts where "ts = (if wc_wtimeout wc \<noteq> 0 then [field ''wtimeout'' (BInt32 (of_int (wc_wtimeout wc)))] else [])"
  have tag: "length (enc_elems (w_field wc tag)) \<le> 2 ^ 30 - 70" using assms(2)
    by (auto simp: w_field_def tag_ok_def length_enc_elem enc_string_def)
  have l: "length (enc_elems es) = 18" "length (enc_elems fs) \<le> 8" "length (enc_elems js) \<le> 4" "length (enc_elems ts) \<le> 14"
    by (auto simp: es_def fs_def js_def ts_def length_enc_elem)
  obtain b1 where b1: "bson_append_int32 bson_init (Some (ascii ''getlasterror'')) 12 1 = Ok (True, b1)" "made b1 es"
    using app_int32.makes [OF made_init refl, of "ascii ''getlasterror''" 12 "map of_char ''getlasterror''" 1] l(1)
      str_arg_ascii [of "''getlasterror''" 12] by (auto simp: es_def)
  obtain b2 r2 where b2: "append_w wc b1 = Ok (r2, b2)" "made b2 (es @ w_field wc tag)"
    using append_w_made [OF b1(2) assms(2)] l tag by auto
  obtain b3 r3 where b3: "(if wc_fsync wc then bson_append_bool b2 (Some (ascii ''fsync'')) 5 True else Ok (True, b2)) = Ok (r3, b3)"
    "made b3 (es @ w_field wc tag @ fs)"
    using append_if [OF b2(2), of "''fsync''" 5 "BBool True" "\<lambda>b k kl. bson_append_bool b k kl True" "wc_fsync wc"]
      app_bool.makes [OF b2(2) refl] l tag by (auto simp: fs_def length_enc_elem)
  obtain b4 r4 where b4: "(if wc_journal wc then bson_append_bool b3 (Some (ascii ''j'')) 1 True else Ok (True, b3)) = Ok (r4, b4)"
    "made b4 (es @ w_field wc tag @ fs @ js)"
    using append_if [OF b3(2), of "''j''" 1 "BBool True" "\<lambda>b k kl. bson_append_bool b k kl True" "wc_journal wc"]
      app_bool.makes [OF b3(2) refl] l tag by (auto simp: js_def length_enc_elem)
  obtain b5 r5 where b5: "(if wc_wtimeout wc \<noteq> 0 then bson_append_int32 b4 (Some (ascii ''wtimeout'')) 8 (of_int (wc_wtimeout wc))
       else Ok (True, b4)) = Ok (r5, b5)" "made b5 (es @ w_field wc tag @ fs @ js @ ts)"
    using append_if [OF b4(2), of "''wtimeout''" 8 "BInt32 (of_int (wc_wtimeout wc))"
        "\<lambda>b k kl. bson_append_int32 b k kl (of_int (wc_wtimeout wc))" "wc_wtimeout wc \<noteq> 0"]
      app_int32.makes [OF b4(2) refl] l tag by (auto simp: ts_def length_enc_elem)
  have "gle_command wc tag = es @ w_field wc tag @ fs @ js @ ts"
    by (simp add: gle_command_def es_def fs_def js_def ts_def)
  moreover have "mongoc_write_concern_freeze wc = Ok (wc\<lparr>wc_frozen := True, wc_compiled := b5\<rparr>)"
    unfolding mongoc_write_concern_freeze_def b1(1) rbind_simps prod.case b2(1) b3(1) b4(1) b5(1) using assms(1) by simp
  ultimately show ?thesis
    using made_holds [OF b5(2)]
    by (simp add: mongoc_write_concern_freeze_def mongoc_write_concern_set_w_def mongoc_write_concern_set_fsync_def
        mongoc_write_concern_set_journal_def mongoc_write_concern_set_wtimeout_def mongoc_write_concern_set_wmajority_def
        mongoc_write_concern_set_wtag_def unless_frozen_def)
qed

theorem freeze_compiles_witness:
  "\<exists>wc'. mongoc_write_concern_freeze (mongoc_write_concern_set_wmajority 500 mongoc_write_concern_new) = Ok wc'
     \<and> holds_doc (wc_compiled wc') [field ''getlasterror'' (BInt32 1), field ''w'' (BUtf8 (map of_char ''majority'')),
         field ''wtimeout'' (BInt32 500)]
     \<and> mongoc_write_concern_set_w 0 wc' = wc'"
proof -
  let ?wc = "mongoc_write_concern_set_wmajority 500 mongoc_write_concern_new"
  have wc: "\<not> wc_frozen ?wc" "tag_ok ?wc []"
    "gle_command ?wc [] = [field ''getlasterror'' (BInt32 1), field ''w'' (BUtf8 (map of_char ''majority'')), field ''wtimeout'' (BInt32 500)]"
    by (simp_all add: mongoc_write_concern_set_wmajority_def unless_frozen_def mongoc_write_concern_new_def tag_ok_def
        gle_command_def w_field_def)
  show ?thesis using freeze_compiles [OF wc(1,2), of 0 True True 0 None] unfolding wc(3) by blast
qed

end
