(* ===== verification/Mongoc_Cluster.thy ===== *)
theory Mongoc_Cluster
  imports Mongoc_Read_Prefs Mongoc_Uri
begin

text \<open>
  The nodes the driver is connected to (\<open>mongoc-cluster.c\<close>): their state, the health of the cluster
  and the choice of a node for a message.

  A stream is a handle of the network, whose state \<open>'w\<close> and operations are a parameter: the record
  \<open>network\<close> has what \<open>mongoc-stream.c\<close>, the stream initiator, the clock and \<open>rand\<close> do on it.
\<close>

section \<open>State\<close>

record 'w network =
  nw_connect :: "'w \<Rightarrow> mongoc_host_list_t \<Rightarrow> (bson_error_t + nat) \<times> 'w"
  nw_read :: "'w \<Rightarrow> nat \<Rightarrow> nat \<Rightarrow> nat \<Rightarrow> (byte list option \<times> 'w) result"
  nw_writev :: "'w \<Rightarrow> nat \<Rightarrow> byte list list \<Rightarrow> (int \<times> 'w) result"
  nw_close :: "'w \<Rightarrow> nat \<Rightarrow> 'w"
  nw_time :: "'w \<Rightarrow> int \<times> 'w"
  nw_rand :: "'w \<Rightarrow> nat \<times> 'w"

abbreviation (input) MONGOC_CLUSTER_MAX_NODES :: nat where "MONGOC_CLUSTER_MAX_NODES \<equiv> 12"
abbreviation (input) MONGOC_CLUSTER_PING_NUM_SAMPLES :: nat where "MONGOC_CLUSTER_PING_NUM_SAMPLES \<equiv> 5"

datatype mongoc_cluster_mode_t = MONGOC_CLUSTER_DIRECT | MONGOC_CLUSTER_REPLICA_SET | MONGOC_CLUSTER_SHARDED_CLUSTER

datatype mongoc_cluster_state_t =
    MONGOC_CLUSTER_STATE_BORN
  | MONGOC_CLUSTER_STATE_HEALTHY
  | MONGOC_CLUSTER_STATE_DEAD
  | MONGOC_CLUSTER_STATE_UNHEALTHY

record mongoc_cluster_node_t =
  n_index :: nat
  n_host :: mongoc_host_list_t
  n_stream :: "nat option"
  n_ping_avg_msec :: int
  n_pings :: "int list"
  n_pings_pos :: nat
  n_stamp :: nat
  n_tags :: bson_t
  n_primary :: bool
  n_needs_auth :: bool
  n_isdbgrid :: bool
  n_min_wire_version :: int
  n_max_wire_version :: int
  n_max_write_batch_size :: int
  n_replSet :: "bytes option"

record mongoc_cluster_t =
  k_mode :: mongoc_cluster_mode_t
  k_state :: mongoc_cluster_state_t
  k_request_id :: nat
  k_sockettimeoutms :: nat
  k_last_reconnect :: int
  k_uri :: "mongoc_uri_t option"
  k_requires_auth :: bool
  k_nodes :: "mongoc_cluster_node_t list"
  k_max_bson_size :: int
  k_max_msg_size :: int
  k_sec_latency_ms :: nat
  k_peers :: "bytes list"
  k_replSet :: "bytes option"

section \<open>Nodes\<close>

definition no_pings :: "int list" where
  "no_pings = replicate MONGOC_CLUSTER_PING_NUM_SAMPLES (- 1)"

definition no_host :: mongoc_host_list_t where
  "no_host = \<lparr>h_host = [], h_host_and_port = [], h_port = 0, h_family = 0\<rparr>"

definition mongoc_cluster_node_init :: mongoc_cluster_node_t where
  "mongoc_cluster_node_init =
     \<lparr>n_index = 0, n_host = no_host, n_stream = None, n_ping_avg_msec = - 1, n_pings = no_pings, n_pings_pos = 0,
      n_stamp = 0, n_tags = bson_init, n_primary = False, n_needs_auth = False, n_isdbgrid = False,
      n_min_wire_version = 0, n_max_wire_version = 0, n_max_write_batch_size = 0, n_replSet = None\<rparr>"

text \<open>
  The sum and the number of the samples that are not -1. Sums of five 32-bit numbers and quotients of
  such sums are exact enough in \<open>double\<close>: rounding cannot carry a quotient with a denominator of at most
  five to the next integer, so the cast truncates the true quotient.
\<close>

fun sum_pings :: "int list \<Rightarrow> int \<Rightarrow> nat \<Rightarrow> (int \<times> nat) result" where
  "sum_pings [] tot count = Ok (tot, count)"
| "sum_pings (p # ps) tot count =
     (if p \<noteq> - 1 then rbind (add_int32 tot p) (\<lambda>t. sum_pings ps t (count + 1)) else sum_pings ps tot count)"

definition truncated_quotient :: "int \<Rightarrow> nat \<Rightarrow> int" where
  "truncated_quotient a n = sgn a * (\<bar>a\<bar> div int n)"

definition mongoc_cluster_node_track_ping :: "mongoc_cluster_node_t \<Rightarrow> int \<Rightarrow> mongoc_cluster_node_t result" where
  "mongoc_cluster_node_track_ping n ping =
     (if length (n_pings n) \<le> n_pings_pos n then Fault Out_Of_Bounds
      else
        let pings = (n_pings n)[n_pings_pos n := ping] in
        rbind (sum_pings pings 0 0) (\<lambda>(tot, count).
          Ok (n\<lparr>n_pings := pings, n_pings_pos := (n_pings_pos n + 1) mod MONGOC_CLUSTER_PING_NUM_SAMPLES,
                n_ping_avg_msec := (if count \<noteq> 0 then truncated_quotient tot count else - 1)\<rparr>)))"

text \<open>
  Destroying a node closes its stream and frees the rest; \<open>primary\<close>, \<open>stamp\<close> and the other fields stay.
\<close>

definition close_stream :: "'w network \<Rightarrow> nat option \<Rightarrow> 'w \<Rightarrow> 'w" where
  "close_stream nw s w = (case s of None \<Rightarrow> w | Some h \<Rightarrow> nw_close nw w h)"

definition mongoc_cluster_node_destroy ::
    "'w network \<Rightarrow> mongoc_cluster_node_t \<Rightarrow> 'w \<Rightarrow> mongoc_cluster_node_t \<times> 'w" where
  "mongoc_cluster_node_destroy nw n w =
     (n\<lparr>n_stream := None, n_tags := (if b_len (n_tags n) \<noteq> 0 then zero_bson else n_tags n), n_replSet := None\<rparr>,
      close_stream nw (n_stream n) w)"

section \<open>The cluster\<close>

definition up_nodes :: "mongoc_cluster_node_t list \<Rightarrow> nat" where
  "up_nodes ns = length (filter (\<lambda>n. n_stream n \<noteq> None) ns)"

definition down_nodes :: "mongoc_cluster_node_t list \<Rightarrow> nat" where
  "down_nodes ns = length (filter (\<lambda>n. n_stamp n \<noteq> 0 \<and> n_stream n = None) ns)"

definition mongoc_cluster_update_state :: "mongoc_cluster_t \<Rightarrow> mongoc_cluster_t" where
  "mongoc_cluster_update_state k =
     (let up = up_nodes (k_nodes k); down = down_nodes (k_nodes k) in
      k\<lparr>k_state :=
        (if up = 0 \<and> down = 0 then MONGOC_CLUSTER_STATE_BORN
         else if up = 0 \<and> down \<noteq> 0 then MONGOC_CLUSTER_STATE_DEAD
         else if up \<noteq> 0 \<and> down = 0 then MONGOC_CLUSTER_STATE_HEALTHY
         else MONGOC_CLUSTER_STATE_UNHEALTHY)\<rparr>)"

definition mongoc_cluster_add_peer :: "mongoc_cluster_t \<Rightarrow> bytes \<Rightarrow> mongoc_cluster_t" where
  "mongoc_cluster_add_peer k peer = (if peer \<in> set (k_peers k) then k else k\<lparr>k_peers := peer # k_peers k\<rparr>)"

definition mongoc_cluster_clear_peers :: "mongoc_cluster_t \<Rightarrow> mongoc_cluster_t" where
  "mongoc_cluster_clear_peers k = k\<lparr>k_peers := []\<rparr>"

text \<open>A node that is disconnected: its stream is closed and it starts afresh with a new stamp.\<close>

definition disconnected :: "bool \<Rightarrow> mongoc_cluster_node_t \<Rightarrow> mongoc_cluster_node_t" where
  "disconnected requires_auth n =
     n\<lparr>n_stream := None, n_needs_auth := requires_auth, n_ping_avg_msec := - 1, n_pings := no_pings, n_pings_pos := 0,
       n_stamp := w32 (n_stamp n + 1), n_primary := False, n_tags := bson_init\<rparr>"

definition map_node :: "nat \<Rightarrow> (mongoc_cluster_node_t \<Rightarrow> mongoc_cluster_node_t) \<Rightarrow> mongoc_cluster_t \<Rightarrow> mongoc_cluster_t" where
  "map_node i f k = k\<lparr>k_nodes := (k_nodes k)[i := f (k_nodes k ! i)]\<rparr>"

definition mongoc_cluster_disconnect_node ::
    "'w network \<Rightarrow> mongoc_cluster_t \<Rightarrow> nat \<Rightarrow> 'w \<Rightarrow> mongoc_cluster_t \<times> 'w" where
  "mongoc_cluster_disconnect_node nw k i w =
     (mongoc_cluster_update_state (map_node i (disconnected (k_requires_auth k)) k),
      close_stream nw (n_stream (k_nodes k ! i)) w)"

text \<open>The options of the URI: the socket timeout and the latency that is accepted of secondaries.\<close>

definition cluster_node :: "bool \<Rightarrow> nat \<Rightarrow> mongoc_cluster_node_t" where
  "cluster_node requires_auth i = mongoc_cluster_node_init\<lparr>n_index := i, n_needs_auth := requires_auth\<rparr>"

definition fresh_nodes :: "bool \<Rightarrow> mongoc_cluster_node_t list" where
  "fresh_nodes requires_auth = map (cluster_node requires_auth) [0..<MONGOC_CLUSTER_MAX_NODES]"

definition fresh_cluster ::
    "mongoc_uri_t \<Rightarrow> mongoc_uri_t option \<Rightarrow> bool \<Rightarrow> bool \<Rightarrow> bytes option \<Rightarrow> 32 word \<Rightarrow> 32 word \<Rightarrow> mongoc_cluster_t" where
  "fresh_cluster uri copy requires_auth rs rset ms latency =
     \<lparr>k_mode = (if rs then MONGOC_CLUSTER_REPLICA_SET
                else if tl (u_hosts uri) \<noteq> [] then MONGOC_CLUSTER_SHARDED_CLUSTER
                else MONGOC_CLUSTER_DIRECT),
       k_state = MONGOC_CLUSTER_STATE_BORN, k_request_id = 0,
       k_sockettimeoutms = (if ms = 0 then 300000 else unat ms), k_last_reconnect = 0, k_uri = copy,
       k_requires_auth = requires_auth, k_nodes = fresh_nodes requires_auth,
       k_max_bson_size = 1024 * 1024 * 16, k_max_msg_size = 1024 * 1024 * 48,
       k_sec_latency_ms = unat latency, k_peers = [], k_replSet = rset\<rparr>"

definition mongoc_cluster_init :: "mongoc_uri_t \<Rightarrow> mongoc_cluster_t result" where
  "mongoc_cluster_init uri =
     rbind (bson_iter_init_find_case (u_options uri) (ascii ''replicaSet'')) (\<lambda>(rs, it).
     rbind (if rs then bson_iter_dup_utf8 it else Ok (None, 0)) (\<lambda>(rset, _).
     if \<not> rs \<and> u_hosts uri = [] then Fault Null_Deref
     else
     rbind (bson_iter_init_find_case (u_options uri) (ascii ''sockettimeoutms'')) (\<lambda>(st, it).
     rbind (if st then bson_iter_int32 it else Ok 0) (\<lambda>ms.
     rbind (mongoc_uri_copy uri) (\<lambda>copy.
     rbind (mongoc_uri_get_auth_mechanism uri) (\<lambda>mechanism.
     rbind (bson_iter_init_find_case (u_options uri) (ascii ''secondaryacceptablelatencyms'')) (\<lambda>(sl, it).
     rbind (if sl then iter_holds it BSON_TYPE_INT32 else Ok False) (\<lambda>sl.
     rbind (if sl then bson_iter_int32 it else Ok 15) (\<lambda>latency.
       Ok (fresh_cluster uri copy (u_username uri \<noteq> None \<or> mechanism \<noteq> None) rs rset ms latency))))))))))"

text \<open>Only nodes with a stream are destroyed.\<close>

fun destroy_nodes :: "'w network \<Rightarrow> mongoc_cluster_node_t list \<Rightarrow> 'w \<Rightarrow> mongoc_cluster_node_t list \<times> 'w" where
  "destroy_nodes nw [] w = ([], w)"
| "destroy_nodes nw (n # ns) w =
     (let (n, w) = (if n_stream n \<noteq> None then mongoc_cluster_node_destroy nw n w else (n, w));
          (ns, w) = destroy_nodes nw ns w
      in (n # ns, w))"

definition mongoc_cluster_destroy :: "'w network \<Rightarrow> mongoc_cluster_t \<Rightarrow> 'w \<Rightarrow> mongoc_cluster_t \<times> 'w" where
  "mongoc_cluster_destroy nw k w =
     (let (ns, w) = destroy_nodes nw (k_nodes k) w
      in (mongoc_cluster_clear_peers (k\<lparr>k_nodes := ns, k_replSet := None\<rparr>), w))"

definition mongoc_cluster_stamp :: "mongoc_cluster_t \<Rightarrow> nat \<Rightarrow> nat result" where
  "mongoc_cluster_stamp k node =
     (if node = 0 \<or> MONGOC_CLUSTER_MAX_NODES < node then Ok 0
      else if length (k_nodes k) \<le> node then Fault Out_Of_Bounds
      else Ok (n_stamp (k_nodes k ! node)))"

fun find_index :: "('a \<Rightarrow> bool) \<Rightarrow> nat \<Rightarrow> 'a list \<Rightarrow> nat option" where
  "find_index P i [] = None"
| "find_index P i (x # xs) = (if P x then Some i else find_index P (Suc i) xs)"

definition mongoc_cluster_get_primary :: "mongoc_cluster_t \<Rightarrow> nat option" where
  "mongoc_cluster_get_primary k = find_index n_primary 0 (k_nodes k)"

section \<open>Choosing a node\<close>

abbreviation (input) MONGOC_ERROR_CLIENT_NO_ACCEPTABLE_PEER :: nat where "MONGOC_ERROR_CLIENT_NO_ACCEPTABLE_PEER \<equiv> 12"

text \<open>
  Whether a message needs the primary; a query that may go to a secondary gets the slave-ok flag.
  The opcode is the fourth field, the flags of a query the fifth.
\<close>

definition rpc_opcode :: "mongoc_rpc_t \<Rightarrow> nat" where
  "rpc_opcode rpc = rpc_int (rpc ! 3)"

fun pin_rpcs :: "nat \<Rightarrow> bool \<Rightarrow> mongoc_rpc_t list \<Rightarrow> bool \<times> mongoc_rpc_t list" where
  "pin_rpcs read_mode need_primary [] = (need_primary, [])"
| "pin_rpcs read_mode need_primary (rpc # rpcs) =
     (if need_primary then (True, rpc # rpcs)
      else
        let opcode = rpc_opcode rpc in
        if opcode = 2007 \<or> opcode = 2005 \<or> opcode = 1000 \<or> opcode = 1
        then apsnd (Cons rpc) (pin_rpcs read_mode False rpcs)
        else if opcode = 2004 then
          let flags = (of_nat (rpc_int (rpc ! 4)) :: 32 word) in
          if bit read_mode 1
          then apsnd (Cons (rpc[4 := Int32 (set_bit MONGOC_QUERY_SLAVE_OK flags)])) (pin_rpcs read_mode False rpcs)
          else if \<not> has_flag flags MONGOC_QUERY_SLAVE_OK then (True, rpc # rpcs)
          else apsnd (Cons rpc) (pin_rpcs read_mode False rpcs)
        else (True, rpc # rpcs))"

text \<open>The nodes with a stream, without the primary when a secondary is needed.\<close>

definition candidate :: "bool \<Rightarrow> mongoc_cluster_node_t \<Rightarrow> mongoc_cluster_node_t option" where
  "candidate need_secondary n =
     (if need_secondary \<and> n_primary n then None else if n_stream n \<noteq> None then Some n else None)"

definition is_nearer_than :: "mongoc_cluster_node_t \<Rightarrow> int \<Rightarrow> bool" where
  "is_nearer_than n msec \<longleftrightarrow> msec < 0 \<and> 0 \<le> n_ping_avg_msec n \<or> n_ping_avg_msec n < msec"

text \<open>The loop that drops nodes with a negative score, counts the others and finds the nearest.\<close>

fun score_nodes ::
    "mongoc_read_prefs_t option \<Rightarrow> mongoc_cluster_node_t option list \<Rightarrow> nat \<Rightarrow> int
      \<Rightarrow> (mongoc_cluster_node_t option list \<times> nat \<times> int) result" where
  "score_nodes prefs [] count nearest = Ok ([], count, nearest)"
| "score_nodes prefs (None # ns) count nearest =
     rbind (score_nodes prefs ns count nearest) (\<lambda>(ns, r). Ok (None # ns, r))"
| "score_nodes prefs (Some n # ns) count nearest =
     rbind (case prefs of None \<Rightarrow> Ok 0 | Some p \<Rightarrow> mongoc_read_prefs_score p (n_primary n) (n_tags n)) (\<lambda>score.
       if score < 0 then rbind (score_nodes prefs ns count nearest) (\<lambda>(ns, r). Ok (None # ns, r))
       else rbind (score_nodes prefs ns (count + 1) (if is_nearer_than n nearest then n_ping_avg_msec n else nearest))
         (\<lambda>(ns, r). Ok (Some n # ns, r)))"

text \<open>\<open>nearest + sec_latency_ms\<close> is unsigned; it is compared as signed.\<close>

definition watermark :: "int \<Rightarrow> nat \<Rightarrow> int" where
  "watermark nearest latency = as_int32 (nat ((nearest + int latency) mod 4294967296))"

definition within_latency :: "int \<Rightarrow> nat \<Rightarrow> mongoc_cluster_node_t option \<Rightarrow> mongoc_cluster_node_t option" where
  "within_latency nearest latency x =
     (case x of Some n \<Rightarrow> if n_ping_avg_msec n > watermark nearest latency then None else x | None \<Rightarrow> None)"

text \<open>The loop that counts down to the chosen node.\<close>

fun pick :: "nat \<Rightarrow> nat \<Rightarrow> mongoc_cluster_node_t option list \<Rightarrow> nat option" where
  "pick count i [] = None"
| "pick count i (None # ns) = pick count (Suc i) ns"
| "pick count i (Some n # ns) = (if count = 0 then Some i else pick (count - 1) (Suc i) ns)"

text \<open>The index of the node, the messages with their flags, and the error if one was set.\<close>

definition no_acceptable_peer :: bson_error_t where
  "no_acceptable_peer = (MONGOC_ERROR_CLIENT, MONGOC_ERROR_CLIENT_NO_ACCEPTABLE_PEER)"

definition select_dispatch ::
    "'w network \<Rightarrow> mongoc_cluster_t \<Rightarrow> nat \<Rightarrow> mongoc_read_prefs_t option \<Rightarrow> bool \<Rightarrow> bool \<Rightarrow> 'w
      \<Rightarrow> (nat option \<times> bson_error_t option \<times> 'w) result" where
  "select_dispatch nw k hint prefs need_primary need_secondary w =
     (if need_primary then
        (case find_index n_primary 0 (k_nodes k) of
           Some i \<Rightarrow> Ok (Some i, None, w)
         | None \<Rightarrow> Ok (None, Some no_acceptable_peer, w))
      else
        let nodes = map (candidate need_secondary) (k_nodes k) in
        if hint \<noteq> 0 then
          (if nodes ! (hint - 1) = None then Ok (None, Some no_acceptable_peer, w) else Ok (Some (hint - 1), None, w))
        else
          rbind (score_nodes prefs nodes 0 (- 1)) (\<lambda>(nodes, count, nearest).
            let nodes = (if nearest \<noteq> - 1 then map (within_latency nearest (k_sec_latency_ms k)) nodes else nodes) in
            if count = 0 then Ok (None, Some no_acceptable_peer, w)
            else
              let (r, w) = nw_rand nw w in
              Ok (pick (r mod count) 0 nodes, None, w)))"

definition mongoc_cluster_select ::
    "'w network \<Rightarrow> mongoc_cluster_t \<Rightarrow> mongoc_rpc_t list \<Rightarrow> nat \<Rightarrow> mongoc_read_prefs_t option \<Rightarrow> 'w
      \<Rightarrow> (nat option \<times> mongoc_rpc_t list \<times> bson_error_t option \<times> 'w) result" where
  "mongoc_cluster_select nw k rpcs hint prefs w =
     (if rpcs = [] \<or> MONGOC_CLUSTER_MAX_NODES < hint then Ok (None, rpcs, None, w)
      else case k_mode k of
        MONGOC_CLUSTER_DIRECT \<Rightarrow> Ok (if n_stream (k_nodes k ! 0) \<noteq> None then Some 0 else None, rpcs, None, w)
      | MONGOC_CLUSTER_SHARDED_CLUSTER \<Rightarrow>
          rbind (select_dispatch nw k hint prefs False False w) (\<lambda>(i, e, w). Ok (i, rpcs, e, w))
      | MONGOC_CLUSTER_REPLICA_SET \<Rightarrow>
          let read_mode = (case prefs of None \<Rightarrow> MONGOC_READ_PRIMARY | Some p \<Rightarrow> pf_mode p);
              (need_primary, rpcs) = pin_rpcs read_mode (read_mode = MONGOC_READ_PRIMARY) rpcs
          in rbind (select_dispatch nw k hint prefs need_primary (read_mode = MONGOC_READ_SECONDARY) w)
               (\<lambda>(i, e, w). Ok (i, rpcs, e, w)))"


section \<open>Well-formed clusters\<close>

definition node_ok :: "nat \<Rightarrow> mongoc_cluster_node_t \<Rightarrow> bool" where
  "node_ok i n \<longleftrightarrow> n_index n = i \<and> length (n_pings n) = 5 \<and> n_pings_pos n < 5"

definition cluster_ok :: "mongoc_cluster_t \<Rightarrow> bool" where
  "cluster_ok k \<longleftrightarrow> length (k_nodes k) = 12 \<and> (\<forall>i < 12. node_ok i (k_nodes k ! i)) \<and> mongoc_cluster_update_state k = k"

lemma update_state_simps [simp]:
  "k_nodes (mongoc_cluster_update_state k) = k_nodes k" "k_requires_auth (mongoc_cluster_update_state k) = k_requires_auth k"
  "mongoc_cluster_update_state (mongoc_cluster_update_state k) = mongoc_cluster_update_state k"
  by (simp_all add: mongoc_cluster_update_state_def Let_def)

lemma map_node_simps [simp]:
  "length (k_nodes (map_node i f k)) = length (k_nodes k)"
  "j < length (k_nodes k) \<Longrightarrow> k_nodes (map_node i f k) ! j = (if j = i then f (k_nodes k ! i) else k_nodes k ! j)"
  by (auto simp: map_node_def)

lemma node_ok_init: "node_ok i (cluster_node a i)"
  by (simp add: node_ok_def cluster_node_def mongoc_cluster_node_init_def no_pings_def)

lemma up_down_0: "up_nodes ns = 0 \<longleftrightarrow> (\<forall>n \<in> set ns. n_stream n = None)"
    "down_nodes ns = 0 \<longleftrightarrow> (\<forall>n \<in> set ns. n_stamp n \<noteq> 0 \<longrightarrow> n_stream n \<noteq> None)"
  by (auto simp: up_nodes_def down_nodes_def filter_empty_conv)

lemma fault_unless: "(if c then Fault e else r) = Ok x \<longleftrightarrow> \<not> c \<and> r = Ok x"
  by simp

lemma mongoc_cluster_init_ok:
  assumes "mongoc_cluster_init uri = Ok k"
  shows "cluster_ok k \<and> k_state k = MONGOC_CLUSTER_STATE_BORN \<and> (\<forall>n \<in> set (k_nodes k). n_stream n = None \<and> n_stamp n = 0)
    \<and> (k_mode k \<noteq> MONGOC_CLUSTER_REPLICA_SET \<longrightarrow> u_hosts uri \<noteq> [])"
proof -
  have n: "n_stream (cluster_node a i) = None" "n_stamp (cluster_node a i) = 0" for a i
    by (simp_all add: cluster_node_def mongoc_cluster_node_init_def)
  from assms obtain copy auth rs rset ms latency where "k = fresh_cluster uri copy auth rs rset ms latency" "rs \<or> u_hosts uri \<noteq> []"
    unfolding mongoc_cluster_init_def by (auto simp: rbind_Ok_iff fault_unless)
  then obtain a where k: "k_nodes k = fresh_nodes a" "k_state k = MONGOC_CLUSTER_STATE_BORN"
    "k_mode k \<noteq> MONGOC_CLUSTER_REPLICA_SET \<longrightarrow> u_hosts uri \<noteq> []"
    by (auto simp: fresh_cluster_def)
  have all: "\<forall>n \<in> set (k_nodes k). n_stream n = None \<and> n_stamp n = 0" using n by (auto simp: k(1) fresh_nodes_def)
  have "up_nodes (k_nodes k) = 0" "down_nodes (k_nodes k) = 0"
    unfolding up_down_0 using all by auto
  then have "mongoc_cluster_update_state k = k" using k(2) by (simp add: mongoc_cluster_update_state_def)
  moreover have "length (k_nodes k) = 12" "\<forall>i < 12. node_ok i (k_nodes k ! i)"
    by (simp_all add: k(1) fresh_nodes_def node_ok_init del: upt_rec_numeral)
  ultimately show ?thesis using k(2,3) all by (simp add: cluster_ok_def)
qed

lemma disconnect_node_ok:
  assumes "cluster_ok k" "i < 12" "mongoc_cluster_disconnect_node nw k i w = (k', w')"
  shows "cluster_ok k'" "n_stream (k_nodes k' ! i) = None" "n_stamp (k_nodes k' ! i) = w32 (n_stamp (k_nodes k ! i) + 1)"
    "\<And>j. j < 12 \<Longrightarrow> j \<noteq> i \<Longrightarrow> k_nodes k' ! j = k_nodes k ! j"
proof -
  have k': "k' = mongoc_cluster_update_state (map_node i (disconnected (k_requires_auth k)) k)"
    using assms(3) by (simp add: mongoc_cluster_disconnect_node_def)
  have l: "length (k_nodes k) = 12" using assms(1) by (simp add: cluster_ok_def)
  show "cluster_ok k'"
    using assms(1,2) unfolding cluster_ok_def k' by (auto simp: node_ok_def disconnected_def no_pings_def)
  show "n_stream (k_nodes k' ! i) = None" "n_stamp (k_nodes k' ! i) = w32 (n_stamp (k_nodes k ! i) + 1)"
    "\<And>j. j < 12 \<Longrightarrow> j \<noteq> i \<Longrightarrow> k_nodes k' ! j = k_nodes k ! j"
    unfolding k' using l assms(2) by (simp_all add: disconnected_def)
qed

section \<open>The average ping\<close>

text \<open>The samples in the order they came: the ring turned to its position.\<close>

definition samples :: "mongoc_cluster_node_t \<Rightarrow> int list" where
  "samples n = rotate (n_pings_pos n) (n_pings n)"

definition ping_mean :: "int list \<Rightarrow> int" where
  "ping_mean ps = (let qs = filter (\<lambda>p. p \<noteq> - 1) ps in if qs = [] then - 1 else sum_list qs div int (length qs))"

lemma sum_pings_ok:
  "\<forall>p \<in> set ps. - 1 \<le> p \<and> p \<le> 100000000 \<Longrightarrow> 0 \<le> a \<Longrightarrow> a + 100000000 * int (length ps) \<le> 2147483647
    \<Longrightarrow> sum_pings ps a c = Ok (a + sum_list (filter (\<lambda>p. p \<noteq> - 1) ps), c + length (filter (\<lambda>p. p \<noteq> - 1) ps))"
proof (induction ps arbitrary: a c)
  case (Cons p ps)
  show ?case
  proof (cases "p = - 1")
    case False
    then have p: "0 \<le> p" "p \<le> 100000000" using Cons.prems(1) by force+
    have "add_int32 a p = Ok (a + p)" using p Cons.prems(2,3) by (simp add: add_int32_def in_int32_def)
    moreover have "sum_pings ps (a + p) (c + 1) = Ok (a + p + sum_list (filter (\<lambda>p. p \<noteq> - 1) ps), c + 1 + length (filter (\<lambda>p. p \<noteq> - 1) ps))"
      using p Cons.prems by (intro Cons.IH) auto
    ultimately show ?thesis using False by simp
  qed (use Cons in auto)
qed simp

lemma ping_mean_rotate: "ping_mean (rotate m ps) = ping_mean ps"
proof -
  define j where "j = m mod length ps"
  let ?f = "filter (\<lambda>p. p \<noteq> - 1)"
  have "?f (rotate m ps) = ?f (drop j ps) @ ?f (take j ps)" by (simp add: rotate_drop_take j_def)
  moreover have "?f ps = ?f (take j ps) @ ?f (drop j ps)" by (metis append_take_drop_id filter_append)
  ultimately have "sum_list (?f (rotate m ps)) = sum_list (?f ps)" "length (?f (rotate m ps)) = length (?f ps)"
    by simp_all
  moreover from this(2) have "?f (rotate m ps) = [] \<longleftrightarrow> ?f ps = []" by (metis length_0_conv)
  ultimately show ?thesis by (simp only: ping_mean_def Let_def)
qed

lemma rotate_update:
  assumes "k < length xs"
  shows "rotate ((k + 1) mod length xs) (xs[k := p]) = tl (rotate k xs) @ [p]"
proof -
  have u: "xs[k := p] = take k xs @ p # drop (Suc k) xs" using assms by (rule upd_conv_take_nth_drop)
  have r: "rotate k xs = xs ! k # drop (Suc k) xs @ take k xs"
    using assms by (simp add: rotate_drop_take Cons_nth_drop_Suc)
  show ?thesis
  proof (cases "k + 1 = length xs")
    case True
    then show ?thesis using u r by simp
  next
    case False
    then show ?thesis using u r assms by (simp add: rotate_drop_take)
  qed
qed

lemma track_ping_step:
  assumes "length (n_pings n) = 5" "n_pings_pos n < 5" "\<forall>p \<in> set (n_pings n). - 1 \<le> p \<and> p \<le> 100000000" "- 1 \<le> p" "p \<le> 100000000"
  shows "\<exists>n'. mongoc_cluster_node_track_ping n p = Ok n' \<and> samples n' = tl (samples n) @ [p] \<and> n_ping_avg_msec n' = ping_mean (samples n')
    \<and> length (n_pings n') = 5 \<and> n_pings_pos n' < 5 \<and> (\<forall>p \<in> set (n_pings n'). - 1 \<le> p \<and> p \<le> 100000000)"
proof -
  define pings where "pings = (n_pings n)[n_pings_pos n := p]"
  have range: "\<forall>p \<in> set pings. - 1 \<le> p \<and> p \<le> 100000000" "length pings = 5"
    using assms set_update_subset_insert [of "n_pings n" "n_pings_pos n" p] by (auto simp: pings_def)
  define qs where "qs = filter (\<lambda>p. p \<noteq> - 1) pings"
  have sum: "sum_pings pings 0 0 = Ok (sum_list qs, length qs)"
    using sum_pings_ok [OF range(1), of 0 0] range(2) by (simp add: qs_def)
  have "\<forall>q \<in> set qs. 0 \<le> q" using range(1) by (auto simp: qs_def)
  then have "0 \<le> sum_list qs" by (simp add: sum_list_nonneg)
  then have avg: "(if length qs \<noteq> 0 then truncated_quotient (sum_list qs) (length qs) else - 1) = ping_mean pings"
    by (auto simp: truncated_quotient_def ping_mean_def Let_def sgn_if simp flip: qs_def)
  let ?n' = "n\<lparr>n_pings := pings, n_pings_pos := (n_pings_pos n + 1) mod 5, n_ping_avg_msec := ping_mean pings\<rparr>"
  have track: "mongoc_cluster_node_track_ping n p = Ok ?n'"
    using assms(1,2) sum avg by (simp add: mongoc_cluster_node_track_ping_def Let_def flip: pings_def)
  have "rotate ((n_pings_pos n + 1) mod 5) pings = tl (rotate (n_pings_pos n) (n_pings n)) @ [p]"
    using rotate_update [of "n_pings_pos n" "n_pings n" p] assms(1,2) by (simp add: pings_def)
  then have "samples ?n' = tl (samples n) @ [p]" by (simp add: samples_def)
  moreover have "ping_mean (samples ?n') = ping_mean pings" by (simp add: samples_def ping_mean_rotate)
  ultimately show ?thesis using track range by auto
qed

fun track_pings :: "mongoc_cluster_node_t \<Rightarrow> int list \<Rightarrow> mongoc_cluster_node_t result" where
  "track_pings n [] = Ok n"
| "track_pings n (p # ps) = rbind (mongoc_cluster_node_track_ping n p) (\<lambda>n. track_pings n ps)"

lemma track_pings_samples:
  "length (n_pings n) = 5 \<Longrightarrow> n_pings_pos n < 5 \<Longrightarrow> \<forall>p \<in> set (n_pings n). - 1 \<le> p \<and> p \<le> 100000000
    \<Longrightarrow> n_ping_avg_msec n = ping_mean (samples n) \<Longrightarrow> \<forall>p \<in> set ps. - 1 \<le> p \<and> p \<le> 100000000
    \<Longrightarrow> \<exists>n'. track_pings n ps = Ok n' \<and> n_ping_avg_msec n' = ping_mean (samples n') \<and> samples n' = drop (length ps) (samples n @ ps)"
proof (induction ps arbitrary: n)
  case (Cons p ps)
  have p: "- 1 \<le> p" "p \<le> 100000000" using Cons.prems(5) by auto
  from track_ping_step [OF Cons.prems(1-3) p] obtain n1 where n1: "mongoc_cluster_node_track_ping n p = Ok n1"
    "samples n1 = tl (samples n) @ [p]" "n_ping_avg_msec n1 = ping_mean (samples n1)" "length (n_pings n1) = 5" "n_pings_pos n1 < 5"
    "\<forall>p \<in> set (n_pings n1). - 1 \<le> p \<and> p \<le> 100000000" by blast
  have "samples n \<noteq> []" using Cons.prems(1) by (auto simp: samples_def)
  then have "drop (length ps) (samples n1 @ ps) = drop (length (p # ps)) (samples n @ p # ps)"
    using n1(2) by (cases "samples n") auto
  with Cons.IH [OF n1(4,5,6,3)] Cons.prems(5) n1(1) show ?case by auto
qed simp

text \<open>
  C40: after any pings of a new node, failed ones (-1) among them and none above \<open>10\<^sup>8\<close> milliseconds,
  its average is the mean, rounded down, of those of the last five that succeeded, or -1 when none of
  these succeeded or there was no ping. (Longer pings could overflow the \<open>int\<close> sum.)
\<close>

theorem track_pings_mean:
  assumes "\<forall>p \<in> set ps. - 1 \<le> p \<and> p \<le> 100000000"
  shows "\<exists>n. track_pings mongoc_cluster_node_init ps = Ok n
    \<and> n_ping_avg_msec n =
        (let qs = filter (\<lambda>p. p \<noteq> - 1) (drop (length ps - 5) ps) in
         if qs = [] then - 1 else sum_list qs div int (length qs))"
proof -
  let ?n = "mongoc_cluster_node_init"
  have s: "samples ?n = replicate 5 (- 1)" by (simp add: samples_def mongoc_cluster_node_init_def no_pings_def)
  have "n_ping_avg_msec ?n = ping_mean (samples ?n)" unfolding s by (simp add: ping_mean_def mongoc_cluster_node_init_def)
  with track_pings_samples [of ?n ps] assms obtain n where n: "track_pings ?n ps = Ok n"
    "n_ping_avg_msec n = ping_mean (samples n)" "samples n = drop (length ps) (replicate 5 (- 1) @ ps)"
    unfolding s by (auto simp: mongoc_cluster_node_init_def no_pings_def)
  have "filter (\<lambda>p. p \<noteq> - 1) (samples n) = filter (\<lambda>p. p \<noteq> - 1) (drop (length ps - 5) ps)"
    unfolding n(3) by simp
  then show ?thesis using n(1,2) by (simp add: ping_mean_def)
qed

theorem track_pings_mean_witness:
  "\<exists>n m. track_pings mongoc_cluster_node_init [900, 10, -1, 30, 40, 51] = Ok n \<and> n_ping_avg_msec n = 32
     \<and> track_pings mongoc_cluster_node_init [900, -1, -1, -1, -1, -1] = Ok m \<and> n_ping_avg_msec m = -1"
  using track_pings_mean [of "[900, 10, -1, 30, 40, 51]"] track_pings_mean [of "[900, -1, -1, -1, -1, -1]"]
  by (simp add: Let_def)


section \<open>What is chosen\<close>

text \<open>Whether the messages need the primary, and whether a node may be used at all.\<close>

definition needs_primary :: "nat \<Rightarrow> mongoc_rpc_t \<Rightarrow> bool" where
  "needs_primary read_mode rpc \<longleftrightarrow> rpc_opcode rpc \<notin> {1, 1000, 2005, 2007}
     \<and> (rpc_opcode rpc = 2004 \<longrightarrow> \<not> bit read_mode 1 \<and> \<not> has_flag (of_nat (rpc_int (rpc ! 4))) MONGOC_QUERY_SLAVE_OK)"

definition prefs_mode :: "mongoc_read_prefs_t option \<Rightarrow> nat" where
  "prefs_mode prefs = (case prefs of None \<Rightarrow> MONGOC_READ_PRIMARY | Some p \<Rightarrow> pf_mode p)"

definition to_primary :: "mongoc_cluster_t \<Rightarrow> mongoc_rpc_t list \<Rightarrow> mongoc_read_prefs_t option \<Rightarrow> bool" where
  "to_primary k rpcs prefs \<longleftrightarrow> k_mode k = MONGOC_CLUSTER_REPLICA_SET
     \<and> (prefs_mode prefs = MONGOC_READ_PRIMARY \<or> list_ex (needs_primary (prefs_mode prefs)) rpcs)"

definition not_primary :: "mongoc_cluster_t \<Rightarrow> mongoc_read_prefs_t option \<Rightarrow> bool" where
  "not_primary k prefs \<longleftrightarrow> k_mode k = MONGOC_CLUSTER_REPLICA_SET \<and> prefs_mode prefs = MONGOC_READ_SECONDARY"

definition acceptable :: "mongoc_read_prefs_t option \<Rightarrow> mongoc_cluster_node_t \<Rightarrow> bool" where
  "acceptable prefs n \<longleftrightarrow> (case prefs of None \<Rightarrow> True
     | Some p \<Rightarrow> (case mongoc_read_prefs_score p (n_primary n) (n_tags n) of Inr s \<Rightarrow> 0 \<le> s | Inl _ \<Rightarrow> False))"

definition suitable :: "bool \<Rightarrow> mongoc_read_prefs_t option \<Rightarrow> mongoc_cluster_node_t \<Rightarrow> bool" where
  "suitable need_secondary prefs n \<longleftrightarrow> n_stream n \<noteq> None \<and> \<not> (need_secondary \<and> n_primary n) \<and> acceptable prefs n"

lemma pin_rpcs_need: "fst (pin_rpcs m need rpcs) = (need \<or> list_ex (needs_primary m) rpcs)"
  by (induction m need rpcs rule: pin_rpcs.induct) (auto simp: needs_primary_def Let_def)

lemma find_index_Some: "find_index P i xs = Some j \<longleftrightarrow> i \<le> j \<and> j - i < length xs \<and> P (xs ! (j - i)) \<and> (\<forall>l < j - i. \<not> P (xs ! l))"
proof (induction P i xs rule: find_index.induct)
  case (2 P i x xs)
  show ?case
  proof (cases "P x")
    case True
    then show ?thesis by (auto simp: nth_Cons' split: if_splits)
  next
    case False
    have "(i \<le> j \<and> j - i < length (x # xs) \<and> P ((x # xs) ! (j - i)) \<and> (\<forall>l < j - i. \<not> P ((x # xs) ! l)))
      \<longleftrightarrow> (Suc i \<le> j \<and> j - Suc i < length xs \<and> P (xs ! (j - Suc i)) \<and> (\<forall>l < j - Suc i. \<not> P (xs ! l)))"
    proof (cases "i < j")
      case True
      then obtain d where j: "j = Suc (i + d)" using less_imp_Suc_add by blast
      show ?thesis unfolding j using False by (auto simp: less_Suc_eq_0_disj)
    qed (use False in auto)
    then show ?thesis using 2 False by simp
  qed
qed simp

lemma find_index_None: "find_index P i xs = None \<longleftrightarrow> (\<forall>x \<in> set xs. \<not> P x)"
  by (induction P i xs rule: find_index.induct) auto

lemma pick_Some: "pick c i ns = Some j \<Longrightarrow> i \<le> j \<and> j - i < length ns \<and> ns ! (j - i) \<noteq> None"
proof (induction c i ns rule: pick.induct)
  case (2 c i ns)
  then show ?case by (auto simp: nth_Cons' Suc_diff_le Suc_le_eq)
next
  case (3 c i n ns)
  then show ?case by (auto simp: nth_Cons' split: if_splits)
qed simp

lemma pick_None: "pick c i ns = None \<longleftrightarrow> length (filter (\<lambda>x. x \<noteq> None) ns) \<le> c"
  by (induction c i ns rule: pick.induct) auto

definition kept :: "mongoc_read_prefs_t option \<Rightarrow> mongoc_cluster_node_t option \<Rightarrow> mongoc_cluster_node_t option" where
  "kept prefs x = (case x of Some n \<Rightarrow> if acceptable prefs n then Some n else None | None \<Rightarrow> None)"

text \<open>The nearest of nodes whose pings are known.\<close>

definition nearest_of :: "int \<Rightarrow> mongoc_cluster_node_t list \<Rightarrow> int \<Rightarrow> bool" where
  "nearest_of start ns m \<longleftrightarrow> - 1 \<le> m \<and> (0 \<le> start \<longrightarrow> 0 \<le> m \<and> m \<le> start) \<and> (ns \<noteq> [] \<longrightarrow> 0 \<le> m) \<and> (\<forall>n \<in> set ns. m \<le> n_ping_avg_msec n)
     \<and> (m = start \<or> (\<exists>n \<in> set ns. m = n_ping_avg_msec n))"

lemma score_nodes_kept:
  "score_nodes prefs ns c near = Ok (ns', c', near') \<Longrightarrow>
    ns' = map (kept prefs) ns \<and> c' = c + length (filter (\<lambda>x. x \<noteq> None) ns')
    \<and> (- 1 \<le> near \<longrightarrow> (\<forall>n. Some n \<in> set ns' \<longrightarrow> 0 \<le> n_ping_avg_msec n) \<longrightarrow> nearest_of near (List.map_filter (\<lambda>x. x) ns') near')"
proof (induction prefs ns c near arbitrary: ns' c' near' rule: score_nodes.induct)
  case (1 prefs count nearest)
  then show ?case by (auto simp: nearest_of_def map_filter_simps)
next
  case (2 prefs ns c near)
  then show ?case by (auto simp: rbind_Ok_iff kept_def map_filter_simps)
next
  case (3 prefs n ns c near)
  then obtain s where s: "(case prefs of None \<Rightarrow> Ok 0 | Some p \<Rightarrow> mongoc_read_prefs_score p (n_primary n) (n_tags n)) = Ok s"
    by (auto simp: rbind_Ok_iff)
  then have acc: "acceptable prefs n \<longleftrightarrow> 0 \<le> s" by (auto simp: acceptable_def split: option.splits)
  show ?case
  proof (cases "s < 0")
    case True
    with 3(3) s obtain ms where "score_nodes prefs ns c near = Ok (ms, c', near')" "ns' = None # ms"
      by (auto simp: rbind_Ok_iff)
    with 3(1) [OF s True] acc True show ?thesis by (auto simp: kept_def map_filter_simps)
  next
    case False
    define near1 where "near1 = (if is_nearer_than n near then n_ping_avg_msec n else near)"
    from 3(3) s False obtain ms where ms: "score_nodes prefs ns (c + 1) near1 = Ok (ms, c', near')" "ns' = Some n # ms"
      by (auto simp: rbind_Ok_iff near1_def)
    note ih = 3(2) [OF s False, folded near1_def, OF ms(1)]
    have "nearest_of near (n # List.map_filter (\<lambda>x. x) ms) near'" if h: "- 1 \<le> near" "\<forall>n. Some n \<in> set ns' \<longrightarrow> 0 \<le> n_ping_avg_msec n"
    proof -
      have p: "0 \<le> n_ping_avg_msec n" using h(2) ms(2) by simp
      then have n1: "0 \<le> near1" "near1 \<le> n_ping_avg_msec n" "0 \<le> near \<longrightarrow> near1 \<le> near" "near1 = near \<or> near1 = n_ping_avg_msec n"
        using h(1) by (auto simp: near1_def is_nearer_than_def)
      then have "nearest_of near1 (List.map_filter (\<lambda>x. x) ms) near'" using ih h(2) ms(2) by auto
      then show ?thesis using n1 by (auto simp: nearest_of_def)
    qed
    then show ?thesis using ih ms(2) acc False by (auto simp: kept_def map_filter_simps)
  qed
qed

lemma within_latency_kept: "within_latency m l x \<noteq> None \<longleftrightarrow> (\<exists>n. x = Some n \<and> n_ping_avg_msec n \<le> watermark m l)"
  by (auto simp: within_latency_def split: option.splits)

lemma watermark_plain: "0 \<le> m \<Longrightarrow> m + int l \<le> 2147483647 \<Longrightarrow> watermark m l = m + int l"
  by (simp add: watermark_def as_int32_nonneg)

lemma kept_candidate: "kept prefs (candidate need_secondary n) = (if suitable need_secondary prefs n then Some n else None)"
  by (auto simp: kept_def candidate_def suitable_def)

text \<open>The choice without a hint.\<close>

lemma select_any:
  assumes "select_dispatch nw k 0 prefs False sec w = Ok (r, e, w')"
  obtains (none) "\<forall>n \<in> set (k_nodes k). \<not> suitable sec prefs n" "r = None" "e = Some no_acceptable_peer" "w' = w"
  | (some) near keep rnd where
      "nw_rand nw w = (rnd, w')" "e = None"
      "\<And>i. i < length (k_nodes k) \<Longrightarrow> keep i \<longleftrightarrow> suitable sec prefs (k_nodes k ! i)
         \<and> (near \<noteq> - 1 \<longrightarrow> n_ping_avg_msec (k_nodes k ! i) \<le> watermark near (k_sec_latency_ms k))"
      "\<And>i. r = Some i \<Longrightarrow> i < length (k_nodes k) \<and> keep i"
      "r = None \<longleftrightarrow> card {i. i < length (k_nodes k) \<and> keep i} \<le> rnd mod card {i. i < length (k_nodes k) \<and> suitable sec prefs (k_nodes k ! i)}"
      "0 < card {i. i < length (k_nodes k) \<and> suitable sec prefs (k_nodes k ! i)}"
      "(\<forall>n \<in> set (k_nodes k). suitable sec prefs n \<longrightarrow> 0 \<le> n_ping_avg_msec n) \<Longrightarrow>
         0 \<le> near \<and> (\<forall>n \<in> set (k_nodes k). suitable sec prefs n \<longrightarrow> near \<le> n_ping_avg_msec n)
         \<and> (\<exists>n \<in> set (k_nodes k). suitable sec prefs n \<and> near = n_ping_avg_msec n)"
proof -
  let ?ns = "map (kept prefs) (map (candidate sec) (k_nodes k))"
  from assms obtain ns c near where s: "score_nodes prefs (map (candidate sec) (k_nodes k)) 0 (- 1) = Ok (ns, c, near)"
    by (auto simp: select_dispatch_def rbind_Ok_iff Let_def)
  from score_nodes_kept [OF s] have ns: "ns = ?ns" and c: "c = length (filter (\<lambda>x. x \<noteq> None) ?ns)" by simp_all
  have nth: "?ns ! i = (if suitable sec prefs (k_nodes k ! i) then Some (k_nodes k ! i) else None)" if "i < length (k_nodes k)" for i
    using that by (simp add: kept_candidate)
  have cc: "c = card {i. i < length (k_nodes k) \<and> suitable sec prefs (k_nodes k ! i)}"
    unfolding c length_filter_conv_card using nth by (intro arg_cong [of _ _ card]) (auto split: if_splits)
  show ?thesis
  proof (cases "c = 0")
    case True
    then have "\<forall>n \<in> set (k_nodes k). \<not> suitable sec prefs n" by (auto simp: cc in_set_conv_nth)
    moreover have "r = None" "e = Some no_acceptable_peer" "w' = w"
      using assms s True by (auto simp: select_dispatch_def Let_def)
    ultimately show ?thesis by (rule none)
  next
    case False
    define ms where "ms = (if near \<noteq> - 1 then map (within_latency near (k_sec_latency_ms k)) ns else ns)"
    obtain rnd where rnd: "nw_rand nw w = (rnd, w')" "e = None" "r = pick (rnd mod c) 0 ms"
      using assms s False by (auto simp: select_dispatch_def Let_def ms_def split: prod.splits)
    define keep where "keep i \<longleftrightarrow> ms ! i \<noteq> None" for i
    have keep: "keep i \<longleftrightarrow> suitable sec prefs (k_nodes k ! i)
         \<and> (near \<noteq> - 1 \<longrightarrow> n_ping_avg_msec (k_nodes k ! i) \<le> watermark near (k_sec_latency_ms k))" if i: "i < length (k_nodes k)" for i
    proof -
      have "ms ! i = (if near \<noteq> - 1 then within_latency near (k_sec_latency_ms k) (?ns ! i) else ?ns ! i)"
        using i unfolding ms_def ns by simp
      then show ?thesis using within_latency_kept unfolding keep_def nth [OF i] by (cases "near = - 1") auto
    qed
    have lm: "length ms = length (k_nodes k)" by (simp add: ms_def ns)
    show ?thesis
    proof (rule some [of rnd keep near])
      show "i < length (k_nodes k) \<and> keep i" if "r = Some i" for i
        using pick_Some [of "rnd mod c" 0 ms i] that rnd(3) lm by (simp add: keep_def)
      have "length (filter (\<lambda>x. x \<noteq> None) ms) = card {i. i < length (k_nodes k) \<and> keep i}"
        unfolding length_filter_conv_card keep_def lm ..
      then show "r = None \<longleftrightarrow> card {i. i < length (k_nodes k) \<and> keep i} \<le> rnd mod card {i. i < length (k_nodes k) \<and> suitable sec prefs (k_nodes k ! i)}"
        using rnd(3) pick_None [of "rnd mod c" 0 ms] by (simp add: cc)
      show "0 < card {i. i < length (k_nodes k) \<and> suitable sec prefs (k_nodes k ! i)}" using False unfolding cc [symmetric] by simp
      show "0 \<le> near \<and> (\<forall>n \<in> set (k_nodes k). suitable sec prefs n \<longrightarrow> near \<le> n_ping_avg_msec n)
         \<and> (\<exists>n \<in> set (k_nodes k). suitable sec prefs n \<and> near = n_ping_avg_msec n)"
        if h: "\<forall>n \<in> set (k_nodes k). suitable sec prefs n \<longrightarrow> 0 \<le> n_ping_avg_msec n"
      proof -
        have mem: "Some n \<in> set ns \<longleftrightarrow> n \<in> set (k_nodes k) \<and> suitable sec prefs n" for n
          unfolding ns by (auto simp: kept_candidate split: if_splits)
        have set: "set (List.map_filter (\<lambda>x. x) ns) = {n \<in> set (k_nodes k). suitable sec prefs n}"
          using mem by (force simp: List.map_filter_def)
        obtain n where n: "n \<in> set (k_nodes k)" "suitable sec prefs n" using False by (auto simp: cc in_set_conv_nth)
        have "nearest_of (- 1) (List.map_filter (\<lambda>x. x) ns) near"
          using score_nodes_kept [OF s] h mem by auto
        moreover have "List.map_filter (\<lambda>x. x) ns \<noteq> []" using set n by auto
        ultimately show ?thesis using set by (auto simp: nearest_of_def)
      qed
    qed (use rnd keep in auto)
  qed
qed


lemma select_cases:
  assumes "mongoc_cluster_select nw k rpcs hint prefs w = Ok (r, rpcs', e, w')" "rpcs \<noteq> []" "hint \<le> 12"
  obtains (direct) "k_mode k = MONGOC_CLUSTER_DIRECT" "r = (if n_stream (k_nodes k ! 0) \<noteq> None then Some 0 else None)" "e = None" "w' = w"
  | (primary) "k_mode k \<noteq> MONGOC_CLUSTER_DIRECT" "to_primary k rpcs prefs"
      "r = mongoc_cluster_get_primary k" "e = (if r = None then Some no_acceptable_peer else None)" "w' = w"
  | (hinted) "k_mode k \<noteq> MONGOC_CLUSTER_DIRECT" "\<not> to_primary k rpcs prefs" "hint \<noteq> 0"
      "r = (if map (candidate (not_primary k prefs)) (k_nodes k) ! (hint - 1) = None then None else Some (hint - 1))"
      "e = (if r = None then Some no_acceptable_peer else None)" "w' = w"
  | (any_node) "k_mode k \<noteq> MONGOC_CLUSTER_DIRECT" "\<not> to_primary k rpcs prefs" "hint = 0"
      "select_dispatch nw k 0 prefs False (not_primary k prefs) w = Ok (r, e, w')"
proof (cases "k_mode k = MONGOC_CLUSTER_DIRECT")
  case True
  then show ?thesis using assms direct by (auto simp: mongoc_cluster_select_def)
next
  case False
  define need where "need \<longleftrightarrow> to_primary k rpcs prefs"
  have d: "select_dispatch nw k hint prefs need (not_primary k prefs) w = Ok (r, e, w')"
  proof (cases "k_mode k")
    case MONGOC_CLUSTER_REPLICA_SET
    obtain b rs where b: "pin_rpcs (prefs_mode prefs) (prefs_mode prefs = MONGOC_READ_PRIMARY) rpcs = (b, rs)" by fastforce
    moreover have "b = need" using pin_rpcs_need [of "prefs_mode prefs" "prefs_mode prefs = MONGOC_READ_PRIMARY" rpcs] b
        MONGOC_CLUSTER_REPLICA_SET by (simp add: need_def to_primary_def)
    ultimately show ?thesis
      using assms MONGOC_CLUSTER_REPLICA_SET
      by (auto simp: mongoc_cluster_select_def rbind_Ok_iff not_primary_def Let_def simp flip: prefs_mode_def)
  qed (use False assms in \<open>auto simp: mongoc_cluster_select_def rbind_Ok_iff not_primary_def to_primary_def need_def\<close>)
  show ?thesis
  proof (cases need)
    case True
    then show ?thesis
      using primary False d by (auto simp: need_def select_dispatch_def mongoc_cluster_get_primary_def split: option.splits)
  next
    case np: False
    then show ?thesis
      using hinted any_node False d
      by (cases "hint = 0") (auto simp: need_def select_dispatch_def Let_def split: if_splits)
  qed
qed

text \<open>
  C17: which node is chosen, whatever the state of the cluster. With a direct connection it is the one
  node, connected. Writes, and reads that need the primary, get the first node marked as the primary,
  also when a hint names another one; that this node is connected is not checked
  (\<open>primary_without_stream_chosen\<close>). For all other messages the node is connected, it is not the
  primary where a secondary is asked for, and it is the node of the hint if there is one. Without a
  hint it is one that the read preferences accept, and, when the latencies of all suitable nodes are
  known, its latency exceeds that of none of them by more than \<open>sec_latency_ms\<close>. (With a suitable node
  that was never pinged the latency may be ignored.)
\<close>

theorem select_suitable:
  assumes "length (k_nodes k) = 12" "mongoc_cluster_select nw k rpcs hint prefs w = Ok (Some i, rpcs', e, w')"
  shows "i < 12 \<and> e = None
    \<and> (k_mode k = MONGOC_CLUSTER_DIRECT \<longrightarrow> i = 0)
    \<and> (to_primary k rpcs prefs \<longrightarrow>
        n_primary (k_nodes k ! i) \<and> (\<forall>j < i. \<not> n_primary (k_nodes k ! j)))
    \<and> (\<not> to_primary k rpcs prefs \<longrightarrow> n_stream (k_nodes k ! i) \<noteq> None)
    \<and> (k_mode k \<noteq> MONGOC_CLUSTER_DIRECT \<and> \<not> to_primary k rpcs prefs \<longrightarrow>
        \<not> (not_primary k prefs \<and> n_primary (k_nodes k ! i))
        \<and> (if hint \<noteq> 0 then i = hint - 1
           else acceptable prefs (k_nodes k ! i)
             \<and> ((\<forall>n \<in> set (k_nodes k). suitable (not_primary k prefs) prefs n \<longrightarrow>
                    0 \<le> n_ping_avg_msec n \<and> n_ping_avg_msec n + int (k_sec_latency_ms k) \<le> 2147483647) \<longrightarrow>
                 (\<forall>n \<in> set (k_nodes k). suitable (not_primary k prefs) prefs n \<longrightarrow>
                    n_ping_avg_msec (k_nodes k ! i) \<le> n_ping_avg_msec n + int (k_sec_latency_ms k)))))"
proof -
  note l = assms(1)
  have pre: "rpcs \<noteq> []" "hint \<le> 12" using assms(2) by (auto simp: mongoc_cluster_select_def split: if_splits)
  from assms(2) pre show ?thesis
  proof (cases rule: select_cases)
    case direct
    then show ?thesis by (auto simp: to_primary_def split: if_splits)
  next
    case primary
    then have e: "e = None" by (simp flip: primary(3))
    from primary have "i < 12" "n_primary (k_nodes k ! i)" "\<forall>j < i. \<not> n_primary (k_nodes k ! j)"
      using find_index_Some [of n_primary 0 "k_nodes k" i] l
      by (simp_all add: mongoc_cluster_get_primary_def)
    then show ?thesis using primary(1,2) e by simp
  next
    case hinted
    define sec where "sec = not_primary k prefs"
    have i: "i = hint - 1" "map (candidate sec) (k_nodes k) ! i \<noteq> None" "i < 12"
      using hinted(3,4) pre(2) unfolding sec_def by (auto split: if_split_asm)
    then have "candidate sec (k_nodes k ! i) \<noteq> None" using l by simp
    then have "n_stream (k_nodes k ! i) \<noteq> None" "\<not> (sec \<and> n_primary (k_nodes k ! i))" by (auto simp: candidate_def split: if_split_asm)
    moreover have "e = None" using hinted(5) by simp
    ultimately show ?thesis using hinted(1-3) i(1,3) unfolding sec_def by simp
  next
    case any_node
    from any_node(4) show ?thesis
    proof (cases rule: select_any)
      case (some near keep rnd)
      have i: "i < 12" "keep i" using some(4) [of i] l by auto
      note k = some(3) [of i, unfolded l, OF i(1)]
      have fit: "suitable (not_primary k prefs) prefs (k_nodes k ! i)" using k i by simp
      have lat: "n_ping_avg_msec (k_nodes k ! i) \<le> n_ping_avg_msec n + int (k_sec_latency_ms k)"
        if h: "\<forall>n \<in> set (k_nodes k). suitable (not_primary k prefs) prefs n \<longrightarrow>
              0 \<le> n_ping_avg_msec n \<and> n_ping_avg_msec n + int (k_sec_latency_ms k) \<le> 2147483647"
          and n: "n \<in> set (k_nodes k)" "suitable (not_primary k prefs) prefs n" for n
      proof -
        have near: "0 \<le> near" "near \<le> n_ping_avg_msec n" using some(7) h n by auto
        then have "watermark near (k_sec_latency_ms k) = near + int (k_sec_latency_ms k)"
          using h n by (intro watermark_plain) auto
        then show ?thesis using k i(2) near by auto
      qed
      show ?thesis using any_node i fit lat some(2) by (auto simp: suitable_def)
    qed simp
  qed
qed

text \<open>
  Nodes too far from the nearest are taken out of the list but not out of the count, so the random
  number may point behind the last node that is left: \<open>_mongoc_cluster_select\<close> then returns NULL
  although there are suitable nodes, and sets no error.
\<close>

theorem select_misses:
  assumes "cluster_ok k" "k_mode k \<noteq> MONGOC_CLUSTER_DIRECT" "\<not> to_primary k rpcs prefs" "rpcs \<noteq> []"
    and "mongoc_cluster_select nw k rpcs 0 prefs w = Ok (r, rpcs', e, w')"
    and "S = {i. i < 12 \<and> suitable (not_primary k prefs) prefs (k_nodes k ! i)}" "S \<noteq> {}"
    and "\<forall>i \<in> S. 0 \<le> n_ping_avg_msec (k_nodes k ! i) \<and> n_ping_avg_msec (k_nodes k ! i) + int (k_sec_latency_ms k) \<le> 2147483647"
    and "m \<in> S" "\<forall>i \<in> S. n_ping_avg_msec (k_nodes k ! m) \<le> n_ping_avg_msec (k_nodes k ! i)"
  shows "e = None \<and> (r = None \<longleftrightarrow>
      card {i \<in> S. n_ping_avg_msec (k_nodes k ! i) \<le> n_ping_avg_msec (k_nodes k ! m) + int (k_sec_latency_ms k)}
        \<le> fst (nw_rand nw w) mod card S)"
proof -
  have l: "length (k_nodes k) = 12" using assms(1) by (simp add: cluster_ok_def)
  have set: "n \<in> set (k_nodes k) \<and> suitable (not_primary k prefs) prefs n \<longleftrightarrow> (\<exists>i \<in> S. n = k_nodes k ! i)" for n
    using assms(6) l by (auto simp: in_set_conv_nth)
  from assms(5,4) le0 show ?thesis
  proof (cases rule: select_cases)
    case any_node
    from any_node(4) show ?thesis
    proof (cases rule: select_any)
      case none
      then show ?thesis using set assms(7) by blast
    next
      case (some near keep rnd)
      have h: "\<forall>n \<in> set (k_nodes k). suitable (not_primary k prefs) prefs n \<longrightarrow> 0 \<le> n_ping_avg_msec n"
      proof (intro ballI impI)
        fix n assume "n \<in> set (k_nodes k)" "suitable (not_primary k prefs) prefs n"
        then obtain i where "i \<in> S" "n = k_nodes k ! i" using set by blast
        then show "0 \<le> n_ping_avg_msec n" using assms(8) by simp
      qed
      have near: "\<exists>i \<in> S. near = n_ping_avg_msec (k_nodes k ! i)" "\<forall>i \<in> S. near \<le> n_ping_avg_msec (k_nodes k ! i)"
      proof -
        obtain n where n: "n \<in> set (k_nodes k)" "suitable (not_primary k prefs) prefs n" "near = n_ping_avg_msec n"
          using some(7) [OF h] by blast
        from n(1,2) obtain i where "i \<in> S" "n = k_nodes k ! i" using set by blast
        then show "\<exists>i \<in> S. near = n_ping_avg_msec (k_nodes k ! i)" using n(3) by auto
        show "\<forall>i \<in> S. near \<le> n_ping_avg_msec (k_nodes k ! i)"
        proof
          fix i assume "i \<in> S"
          then have "k_nodes k ! i \<in> set (k_nodes k) \<and> suitable (not_primary k prefs) prefs (k_nodes k ! i)" using set by blast
          then show "near \<le> n_ping_avg_msec (k_nodes k ! i)" using some(7) [OF h] by simp
        qed
      qed
      obtain j where j: "j \<in> S" "near = n_ping_avg_msec (k_nodes k ! j)" using near(1) by blast
      have m: "near = n_ping_avg_msec (k_nodes k ! m)"
      proof (rule antisym)
        show "near \<le> n_ping_avg_msec (k_nodes k ! m)" using near(2) assms(9) by simp
        show "n_ping_avg_msec (k_nodes k ! m) \<le> near" using assms(10) j by simp
      qed
      have w: "near \<noteq> - 1" "watermark near (k_sec_latency_ms k) = near + int (k_sec_latency_ms k)"
        using assms(8,9) m by (force, intro watermark_plain) force+
      have S: "{i. i < length (k_nodes k) \<and> suitable (not_primary k prefs) prefs (k_nodes k ! i)} = S"
        using assms(6) l by simp
      have "{i. i < length (k_nodes k) \<and> keep i} = {i \<in> S. n_ping_avg_msec (k_nodes k ! i) \<le> near + int (k_sec_latency_ms k)}"
        using some(3) w S by auto
      then show ?thesis using some(1,2,5) m by (simp add: S)
    qed
  qed (use assms in simp_all)
qed


section \<open>No faults\<close>

definition prefs_ok :: "mongoc_read_prefs_t option \<Rightarrow> bool" where
  "prefs_ok prefs \<longleftrightarrow> (\<forall>p. prefs = Some p \<longrightarrow> pf_mode p \<in> read_modes \<and> (\<exists>ts. holds_doc (pf_tags p) ts \<and> texts_no_nul ts))"

definition tags_ok :: "mongoc_cluster_node_t \<Rightarrow> bool" where
  "tags_ok n \<longleftrightarrow> (\<exists>ns. holds_doc (n_tags n) ns \<and> texts_no_nul ns)"

lemma score_total: "prefs_ok (Some p) \<Longrightarrow> tags_ok n \<Longrightarrow> \<exists>s. mongoc_read_prefs_score p (n_primary n) (n_tags n) = Ok s"
  using mongoc_read_prefs_score_correct by (fastforce simp: prefs_ok_def tags_ok_def)

lemma score_nodes_total:
  "prefs_ok prefs \<Longrightarrow> (\<forall>n. Some n \<in> set ns \<longrightarrow> tags_ok n) \<Longrightarrow> \<exists>r. score_nodes prefs ns c near = Ok r"
proof (induction ns arbitrary: c near)
  case (Cons x ns)
  have ih: "\<exists>r. score_nodes prefs ns c near = Ok r" for c near using Cons by simp
  show ?case
  proof (cases x)
    case None
    then show ?thesis using ih [of c near] by auto
  next
    case (Some n)
    obtain s where s: "(case prefs of None \<Rightarrow> Ok 0 | Some p \<Rightarrow> mongoc_read_prefs_score p (n_primary n) (n_tags n)) = Ok s"
    proof (cases prefs)
      case None
      then show ?thesis using that [of 0] by simp
    next
      case (Some p)
      have "tags_ok n" using Cons.prems(2) \<open>x = Some n\<close> by simp
      then show ?thesis using score_total [of p n] Cons.prems(1) Some that by auto
    qed
    obtain a1 where a1: "score_nodes prefs ns c near = Ok a1" using ih by blast
    obtain a2 where a2: "score_nodes prefs ns (c + 1) (if is_nearer_than n near then n_ping_avg_msec n else near) = Ok a2"
      using ih by blast
    show ?thesis using s a1 a2 unfolding Some by (cases a1; cases a2) (simp split del: if_split, simp)
  qed
qed simp

lemma select_total:
  assumes "prefs_ok prefs" "\<forall>n \<in> set (k_nodes k). tags_ok n"
  shows "\<exists>r rpcs' e w'. mongoc_cluster_select nw k rpcs hint prefs w = Ok (r, rpcs', e, w')"
proof -
  have "\<exists>r. score_nodes prefs (map (candidate sec) (k_nodes k)) 0 (- 1) = Ok r" for sec
    using assms by (intro score_nodes_total) (auto simp: candidate_def split: if_split_asm)
  then have d: "\<exists>i e w'. select_dispatch nw k hint prefs need sec w = Ok (i, e, w')" for need sec
  proof (cases "need \<or> hint \<noteq> 0")
    case True
    then show ?thesis by (auto simp: select_dispatch_def Let_def split: option.splits)
  next
    case False
    obtain ns c near where "score_nodes prefs (map (candidate sec) (k_nodes k)) 0 (- 1) = Ok (ns, c, near)"
      using \<open>\<And>sec. \<exists>r. score_nodes prefs (map (candidate sec) (k_nodes k)) 0 (- 1) = Ok r\<close> [of sec] by auto
    then show ?thesis using False by (cases "nw_rand nw w") (simp add: select_dispatch_def Let_def)
  qed
  obtain need rs where pin: "pin_rpcs (prefs_mode prefs) (prefs_mode prefs = MONGOC_READ_PRIMARY) rpcs = (need, rs)" by fastforce
  obtain i1 e1 w1 where "select_dispatch nw k hint prefs False False w = Ok (i1, e1, w1)" using d by blast
  moreover obtain i2 e2 w2 where "select_dispatch nw k hint prefs need (prefs_mode prefs = MONGOC_READ_SECONDARY) w = Ok (i2, e2, w2)"
    using d by blast
  ultimately show ?thesis
    using pin by (cases "k_mode k") (auto simp: mongoc_cluster_select_def Let_def simp flip: prefs_mode_def)
qed

section \<open>Examples\<close>

definition up_node :: "nat \<Rightarrow> nat \<Rightarrow> bool \<Rightarrow> int \<Rightarrow> mongoc_cluster_node_t" where
  "up_node i h primary ping = (cluster_node False i)\<lparr>n_stream := Some h, n_stamp := 1, n_primary := primary, n_ping_avg_msec := ping\<rparr>"

definition two_nodes :: "mongoc_cluster_mode_t \<Rightarrow> mongoc_cluster_t" where
  "two_nodes mode = mongoc_cluster_update_state
     \<lparr>k_mode = mode, k_state = MONGOC_CLUSTER_STATE_BORN, k_request_id = 0, k_sockettimeoutms = 300000,
      k_last_reconnect = 0, k_uri = None,
      k_requires_auth = False,
      k_nodes = (fresh_nodes False)[0 := up_node 0 7 True 3, 1 := up_node 1 8 False 90],
      k_max_bson_size = 16777216, k_max_msg_size = 50331648, k_sec_latency_ms = 15, k_peers = [], k_replSet = None\<rparr>"

text \<open>A network of which only the random numbers matter here.\<close>

definition dice :: "nat \<Rightarrow> unit network" where
  "dice r = \<lparr>nw_connect = \<lambda>w _. (Inl (2, 5), w), nw_read = \<lambda>w _ _ _. Ok (None, w), nw_writev = \<lambda>w _ _. Ok (0, w),
     nw_close = \<lambda>w _. w, nw_time = \<lambda>w. (0, w), nw_rand = \<lambda>w. (r, w)\<rparr>"

definition query_rpc :: "32 word \<Rightarrow> mongoc_rpc_t" where
  "query_rpc flags = [Int32 0, Int32 0, Int32 0, Int32 2004, Int32 flags]"

lemma two_nodes_ok: "cluster_ok (two_nodes mode)"
proof -
  have "length (k_nodes (two_nodes mode)) = 12" by (simp add: two_nodes_def fresh_nodes_def)
  moreover have "node_ok i (k_nodes (two_nodes mode) ! i)" if "i < 12" for i
    using that node_ok_init
    by (auto simp: two_nodes_def fresh_nodes_def nth_list_update up_node_def node_ok_def simp del: upt_rec_numeral)
  ultimately show ?thesis by (simp add: cluster_ok_def two_nodes_def)
qed

lemma two_nodes_simps:
  "k_nodes (two_nodes mode) = up_node 0 7 True 3 # up_node 1 8 False 90 # map (cluster_node False) [2,3,4,5,6,7,8,9,10,11]"
  "k_mode (two_nodes mode) = mode" "k_sec_latency_ms (two_nodes mode) = 15"
proof -
  have "[0..<12] = [0, 1, 2, 3, 4, 5, 6, 7, 8, 9, 10, 11 :: nat]" by code_simp
  then show "k_nodes (two_nodes mode) = up_node 0 7 True 3 # up_node 1 8 False 90 # map (cluster_node False) [2,3,4,5,6,7,8,9,10,11]"
    by (simp add: two_nodes_def mongoc_cluster_update_state_def Let_def fresh_nodes_def)
qed (simp_all add: two_nodes_def mongoc_cluster_update_state_def Let_def)

lemma node_simps:
  "n_stream (up_node i h p g) = Some h" "n_primary (up_node i h p g) = p" "n_ping_avg_msec (up_node i h p g) = g"
  "n_stream (cluster_node a i) = None" "n_primary (cluster_node a i) = False"
  by (simp_all add: up_node_def cluster_node_def mongoc_cluster_node_init_def)

lemmas select_simps = mongoc_cluster_select_def select_dispatch_def two_nodes_simps node_simps candidate_def dice_def
  is_nearer_than_def within_latency_def watermark_plain rpc_opcode_def rpc_int_def query_rpc_def

lemma two_nodes_length: "length (k_nodes (two_nodes mode)) = 12"
  using two_nodes_ok [of mode] by (simp add: cluster_ok_def)

theorem select_suitable_witness:
  "mongoc_cluster_select (dice 0) (two_nodes MONGOC_CLUSTER_REPLICA_SET) [query_rpc 0] 0 None () =
     Ok (Some 0, [query_rpc 0], None, ())
   \<and> n_primary (k_nodes (two_nodes MONGOC_CLUSTER_REPLICA_SET) ! 0)
   \<and> mongoc_cluster_select (dice 0) (two_nodes MONGOC_CLUSTER_SHARDED_CLUSTER) [query_rpc 0] 2 None () =
     Ok (Some 1, [query_rpc 0], None, ())
   \<and> n_stream (k_nodes (two_nodes MONGOC_CLUSTER_SHARDED_CLUSTER) ! 1) \<noteq> None"
proof -
  let ?k = "two_nodes MONGOC_CLUSTER_REPLICA_SET" and ?k' = "two_nodes MONGOC_CLUSTER_SHARDED_CLUSTER"
  have s: "mongoc_cluster_select (dice 0) ?k [query_rpc 0] 0 None () = Ok (Some 0, [query_rpc 0], None, ())"
    "mongoc_cluster_select (dice 0) ?k' [query_rpc 0] 2 None () = Ok (Some 1, [query_rpc 0], None, ())"
    by (simp_all add: select_simps)
  have "to_primary ?k [query_rpc 0] None" "\<not> to_primary ?k' [query_rpc 0] None"
    by (simp_all add: to_primary_def prefs_mode_def two_nodes_simps)
  with s select_suitable [OF two_nodes_length s(1)] select_suitable [OF two_nodes_length s(2)]
  show ?thesis by simp
qed

text \<open>
  A node marked as the primary is chosen although it has no stream: reconnecting leaves such nodes
  behind, and the assertions on the stream of the chosen node then stop the program.
\<close>

lemma primary_without_stream_chosen:
  "let k = map_node 0 (\<lambda>n. n\<lparr>n_stream := None\<rparr>) (two_nodes MONGOC_CLUSTER_REPLICA_SET) in
   mongoc_cluster_select (dice 0) k [query_rpc 0] 0 None () = Ok (Some 0, [query_rpc 0], None, ())
   \<and> n_stream (k_nodes k ! 0) = None"
  by (simp add: map_node_def select_simps Let_def)

theorem select_misses_witness:
  "mongoc_cluster_select (dice 1) (two_nodes MONGOC_CLUSTER_SHARDED_CLUSTER) [query_rpc 0] 0 None () = Ok (None, [query_rpc 0], None, ())"
proof -
  let ?k = "two_nodes MONGOC_CLUSTER_SHARDED_CLUSTER"
  have "mongoc_cluster_select (dice 1) ?k [query_rpc 0] 0 None () = Ok (None, [query_rpc 0], None, ())" by (simp add: select_simps)
  then obtain r e where s: "mongoc_cluster_select (dice 1) ?k [query_rpc 0] 0 None () = Ok (r, [query_rpc 0], e, ())" by blast
  define S where "S = {i. i < 12 \<and> suitable (not_primary ?k None) None (k_nodes ?k ! i)}"
  have "n_stream (k_nodes ?k ! i) = (if i = 0 then Some 7 else if i = 1 then Some 8 else None)" if "i < 12" for i
    using that by (auto simp: two_nodes_def fresh_nodes_def nth_list_update node_simps simp del: upt_rec_numeral)
  then have S: "S = {0, 1}" by (auto simp: S_def suitable_def not_primary_def acceptable_def two_nodes_simps(2) split: if_splits)
  have p: "n_ping_avg_msec (k_nodes ?k ! 0) = 3" "n_ping_avg_msec (k_nodes ?k ! 1) = 90" "k_sec_latency_ms ?k = 15"
    "k_mode ?k \<noteq> MONGOC_CLUSTER_DIRECT" "\<not> to_primary ?k [query_rpc 0] None" "nw_rand (dice 1) () = (1, ())"
    by (simp_all add: two_nodes_simps node_simps to_primary_def dice_def)
  have "{i \<in> S. n_ping_avg_msec (k_nodes ?k ! i) \<le> n_ping_avg_msec (k_nodes ?k ! 0) + int (k_sec_latency_ms ?k)} = {0}"
    using p by (auto simp: S)
  with select_misses [OF two_nodes_ok p(4,5) _ s S_def, of 0] p S s show ?thesis by simp
qed

end
