(* ===== verification/Mongoc_Buffer.thy ===== *)
theory Mongoc_Buffer
  imports Bson_Build
begin

text \<open>
  Bytes from the network: the growing buffer of \<open>mongoc-buffer.c\<close>, the buffered stream of
  \<open>mongoc-stream-buffered.c\<close> that every connection of the driver goes through, and the socket
  stream of \<open>mongoc-stream-socket.c\<close> below it.

  A stream is a state and the function \<open>readv\<close> of its table: how many bytes at most, how many at
  least, and then the bytes that arrived or \<open>None\<close> for the result -1. The bytes an iovec holds
  are the result. Timeouts and error texts are left out, and \<open>mongoc_socket_recv\<close> is a parameter,
  which \<open>Mongoc_Socket\<close> instantiates.
\<close>

section \<open>Memory\<close>

text \<open>A byte that was never written is \<open>None\<close>.\<close>

type_synonym cells = "byte option list"

definition cells_write :: "nat \<Rightarrow> cells \<Rightarrow> cells \<Rightarrow> cells result" where
  "cells_write i cs m =
     (if i + length cs \<le> length m then Ok (take i m @ cs @ drop (i + length cs) m) else Fault Out_Of_Bounds)"

definition cells_read :: "nat \<Rightarrow> nat \<Rightarrow> cells \<Rightarrow> cells result" where
  "cells_read i n m = (if i + n \<le> length m then Ok (take n (drop i m)) else Fault Out_Of_Bounds)"

definition cells_realloc :: "nat \<Rightarrow> cells \<Rightarrow> cells" where
  "cells_realloc n m = take n m @ replicate (n - length m) None"

definition cells_move :: "nat \<Rightarrow> nat \<Rightarrow> nat \<Rightarrow> cells \<Rightarrow> cells result" where
  "cells_move to from n m = rbind (cells_read from n m) (\<lambda>cs. cells_write to cs m)"

definition the_bytes :: "cells \<Rightarrow> byte list result" where
  "the_bytes cs = (if None \<in> set cs then Fault Out_Of_Bounds else Ok (map the cs))"

section \<open>The buffer\<close>

record mongoc_buffer_t =
  bf_data :: "cells option"
  bf_datalen :: nat
  bf_off :: nat
  bf_len :: nat

abbreviation (input) MONGOC_BUFFER_DEFAULT_SIZE :: nat where "MONGOC_BUFFER_DEFAULT_SIZE \<equiv> 1024"

definition SPACE_FOR :: "mongoc_buffer_t \<Rightarrow> nat \<Rightarrow> bool" where
  "SPACE_FOR b n \<longleftrightarrow> int (bf_datalen b) - int (bf_off b) - int (bf_len b) \<ge> int n"

text \<open>\<open>buf\<close> is the caller's block, or \<open>None\<close>; a length without a block of its own is refused.\<close>

definition mongoc_buffer_init :: "mongoc_buffer_t \<Rightarrow> cells option \<Rightarrow> nat \<Rightarrow> mongoc_buffer_t" where
  "mongoc_buffer_init b buf buflen =
     (if buflen = 0 \<and> buf \<noteq> None then b
      else
        let buflen = (if buflen = 0 then MONGOC_BUFFER_DEFAULT_SIZE else buflen);
            buf = (case buf of None \<Rightarrow> replicate buflen None | Some m \<Rightarrow> m)
        in \<lparr>bf_data = Some buf, bf_datalen = buflen, bf_off = 0, bf_len = 0\<rparr>)"

definition mongoc_buffer_destroy :: "mongoc_buffer_t \<Rightarrow> mongoc_buffer_t" where
  "mongoc_buffer_destroy b = \<lparr>bf_data = None, bf_datalen = 0, bf_off = 0, bf_len = 0\<rparr>"

definition mongoc_buffer_clear :: "mongoc_buffer_t \<Rightarrow> bool \<Rightarrow> mongoc_buffer_t result" where
  "mongoc_buffer_clear b zero =
     rbind (if \<not> zero then Ok (bf_data b)
            else case bf_data b of
                None \<Rightarrow> Fault Null_Deref
              | Some m \<Rightarrow> rbind (cells_write 0 (replicate (bf_datalen b) (Some 0)) m) (\<lambda>m. Ok (Some m)))
       (\<lambda>m. Ok (b\<lparr>bf_data := m, bf_off := 0, bf_len := 0\<rparr>))"

text \<open>\<open>memmove (&data[0], &data[off], len)\<close> when there is something to move, then \<open>off = 0\<close>.\<close>

definition buffer_to_front :: "mongoc_buffer_t \<Rightarrow> mongoc_buffer_t result" where
  "buffer_to_front b =
     rbind (if bf_len b = 0 then Ok (bf_data b)
            else case bf_data b of
                None \<Rightarrow> Fault Null_Deref
              | Some m \<Rightarrow> rbind (cells_move 0 (bf_off b) (bf_len b) m) (\<lambda>m. Ok (Some m)))
       (\<lambda>m. Ok (b\<lparr>bf_data := m, bf_off := 0\<rparr>))"

definition buffer_grow :: "mongoc_buffer_t \<Rightarrow> nat \<Rightarrow> mongoc_buffer_t" where
  "buffer_grow b n =
     b\<lparr>bf_datalen := npot n, bf_data := Some (cells_realloc (npot n) (case bf_data b of None \<Rightarrow> [] | Some m \<Rightarrow> m))\<rparr>"

type_synonym 's stream_read = "'s \<Rightarrow> nat \<Rightarrow> nat \<Rightarrow> (byte list option \<times> 's) result"

text \<open>What \<open>mongoc_stream_read\<close> stores behind the bytes that the buffer holds.\<close>

definition buffer_store :: "mongoc_buffer_t \<Rightarrow> byte list \<Rightarrow> mongoc_buffer_t result" where
  "buffer_store b bs =
     (case bf_data b of
        None \<Rightarrow> Fault Null_Deref
      | Some m \<Rightarrow> rbind (cells_write (bf_off b + bf_len b) (map Some bs) m) (\<lambda>m. Ok (b\<lparr>bf_data := Some m\<rparr>)))"

definition mongoc_buffer_append_from_stream ::
    "'s stream_read \<Rightarrow> mongoc_buffer_t \<Rightarrow> 's \<Rightarrow> nat \<Rightarrow> (bool \<times> mongoc_buffer_t \<times> 's) result" where
  "mongoc_buffer_append_from_stream read b s n =
     (if n = 0 then Ok (False, b, s)
      else if bf_datalen b = 0 \<or> \<not> bf_datalen b + n < INT32_MAX then Fault Assertion_Failed
      else
        rbind (if SPACE_FOR b n then Ok b
               else rbind (buffer_to_front b) (\<lambda>b.
                 if SPACE_FOR b n then Ok b else Ok (buffer_grow b (n + bf_len b + bf_off b)))) (\<lambda>b.
        if \<not> bf_off b + bf_len b + n \<le> bf_datalen b then Fault Assertion_Failed
        else rbind (read s n n) (\<lambda>(r, s). case r of
            None \<Rightarrow> Ok (False, b, s)
          | Some bs \<Rightarrow> rbind (buffer_store b bs) (\<lambda>b.
              if length bs \<noteq> n then Ok (False, b, s)
              else Ok (True, b\<lparr>bf_len := bf_len b + length bs\<rparr>, s)))))"

text \<open>\<open>None\<close> is the result -1.\<close>

definition mongoc_buffer_fill ::
    "'s stream_read \<Rightarrow> mongoc_buffer_t \<Rightarrow> 's \<Rightarrow> nat \<Rightarrow> (nat option \<times> mongoc_buffer_t \<times> 's) result" where
  "mongoc_buffer_fill read b s min_bytes =
     (if bf_data b = None \<or> bf_datalen b = 0 then Fault Assertion_Failed
      else if min_bytes \<le> bf_len b then Ok (Some (bf_len b), b, s)
      else
        let min_bytes = min_bytes - bf_len b in
        rbind (buffer_to_front b) (\<lambda>b.
          let b = (if SPACE_FOR b min_bytes then b else buffer_grow b (bf_len b + min_bytes));
              avail_bytes = bf_datalen b - bf_len b
          in rbind (read s avail_bytes min_bytes) (\<lambda>(r, s). case r of
               None \<Rightarrow> Ok (None, b, s)
             | Some bs \<Rightarrow> rbind (buffer_store b bs) (\<lambda>b.
                 let b = b\<lparr>bf_len := bf_len b + length bs\<rparr> in
                 if bf_len b < min_bytes then Ok (None, b, s) else Ok (Some (bf_len b), b, s)))))"

section \<open>The buffered stream\<close>

record 's mongoc_stream_buffered_t =
  bs_base_stream :: 's
  bs_buffer :: mongoc_buffer_t

definition mongoc_stream_buffered_new :: "'s \<Rightarrow> nat \<Rightarrow> 's mongoc_stream_buffered_t" where
  "mongoc_stream_buffered_new base buffer_size =
     \<lparr>bs_base_stream = base,
      bs_buffer = mongoc_buffer_init \<lparr>bf_data = None, bf_datalen = 0, bf_off = 0, bf_len = 0\<rparr> None buffer_size\<rparr>"

text \<open>The copy into one entry of the I/O vector, and the loop over the entries.\<close>

definition buffered_take :: "mongoc_buffer_t \<Rightarrow> nat \<Rightarrow> (byte list \<times> mongoc_buffer_t) result" where
  "buffered_take b n =
     rbind (cells_read (bf_off b) n (case bf_data b of None \<Rightarrow> [] | Some m \<Rightarrow> m)) (\<lambda>cs. rbind (the_bytes cs) (\<lambda>bs.
       Ok (bs, b\<lparr>bf_off := bf_off b + n, bf_len := bf_len b - n\<rparr>)))"

fun buffered_copy :: "mongoc_buffer_t \<Rightarrow> nat list \<Rightarrow> (byte list \<times> mongoc_buffer_t) result" where
  "buffered_copy b [] = Ok ([], b)"
| "buffered_copy b (n # iov) =
     rbind (buffered_take b n) (\<lambda>(bs, b). rbind (buffered_copy b iov) (\<lambda>(cs, b). Ok (bs @ cs, b)))"

definition mongoc_stream_buffered_readv ::
    "'s stream_read \<Rightarrow> 's mongoc_stream_buffered_t \<Rightarrow> nat list \<Rightarrow> nat
      \<Rightarrow> (byte list option \<times> 's mongoc_stream_buffered_t) result" where
  "mongoc_stream_buffered_readv read s iov min_bytes =
     (let total_bytes = sum_list iov in
      rbind (mongoc_buffer_fill read (bs_buffer s) (bs_base_stream s) total_bytes) (\<lambda>(r, b, base).
        case r of
          None \<Rightarrow> Ok (None, s\<lparr>bs_base_stream := base, bs_buffer := b\<rparr>)
        | Some _ \<Rightarrow>
            if \<not> total_bytes \<le> bf_len b then Fault Assertion_Failed
            else rbind (buffered_copy b iov) (\<lambda>(bs, b).
              Ok (Some bs, s\<lparr>bs_base_stream := base, bs_buffer := b\<rparr>))))"

text \<open>\<open>mongoc_stream_read\<close> makes an I/O vector of one entry.\<close>

definition mongoc_stream_read :: "('s \<Rightarrow> nat list \<Rightarrow> nat \<Rightarrow> (byte list option \<times> 's) result) \<Rightarrow> 's stream_read" where
  "mongoc_stream_read readv s count min_bytes = readv s [count] min_bytes"

section \<open>The socket stream\<close>

text \<open>
  \<open>recv s n\<close> receives at most \<open>n\<close> bytes: \<open>None\<close> is a failure, \<open>Some []\<close> the end of the stream. The
  lengths are what is left of the entries of the I/O vector from \<open>cur\<close> on.
\<close>

fun skip_entries :: "nat \<Rightarrow> nat list \<Rightarrow> nat \<times> nat list" where
  "skip_entries nread [] = (nread, [])"
| "skip_entries nread (n # iov) = (if n \<le> nread then skip_entries (nread - n) iov else (nread, n # iov))"

lemma skip_entries_sum:
  "nread \<le> sum_list iov \<Longrightarrow> skip_entries nread iov = (k, rest) \<Longrightarrow>
    sum_list rest = sum_list iov - nread + k \<and> k \<le> nread \<and> (if rest = [] then k = 0 else k < hd rest)"
proof (induction nread iov rule: skip_entries.induct)
  case (2 nread n iov)
  show ?case
  proof (cases "n \<le> nread")
    case True
    then have "nread - n \<le> sum_list iov" "skip_entries (nread - n) iov = (k, rest)" using 2(2,3) by simp_all
    with 2(1) [OF True] True 2(2) show ?thesis by (auto split: if_splits)
  qed (use 2 in auto)
qed simp

lemma skip_entries_less:
  assumes "(k, m # rest) = skip_entries (length bs) (n # ns)" "bs \<noteq> []" "\<not> n < length bs"
  shows "m + sum_list rest - k < n + sum_list ns"
  using skip_entries_sum [OF _ assms(1) [symmetric]] assms(2,3) by (cases bs) auto

function socket_readv_loop ::
    "('s \<Rightarrow> nat \<Rightarrow> (byte list option \<times> 's) result) \<Rightarrow> 's \<Rightarrow> nat list \<Rightarrow> nat \<Rightarrow> byte list
      \<Rightarrow> (byte list option \<times> 's) result" where
  "socket_readv_loop recv s iov min_bytes got =
     (case iov of
        [] \<Rightarrow> Fault Out_Of_Bounds
      | n # _ \<Rightarrow>
          (case recv s n of
             Fault f \<Rightarrow> Fault f
           | Ok (None, s) \<Rightarrow> Ok (if min_bytes \<le> length got then Some got else None, s)
           | Ok (Some bs, s) \<Rightarrow>
               if bs = [] then Ok (if min_bytes \<le> length got then Some got else None, s)
               else if n < length bs then Fault Out_Of_Bounds
               else
                 let got = got @ bs in
                 (case skip_entries (length bs) iov of
                    (nread, []) \<Rightarrow> Ok (Some got, s)
                  | (nread, m # rest) \<Rightarrow>
                      if min_bytes \<le> length got then Ok (Some got, s)
                      else if m - nread = 0 then Fault Assertion_Failed
                      else socket_readv_loop recv s ((m - nread) # rest) min_bytes got)))"
  by pat_completeness auto

termination
  by (relation "measure (\<lambda>(recv, s, iov, min_bytes, got). sum_list iov)")
    (auto simp del: skip_entries.simps dest: skip_entries_less)

definition mongoc_stream_socket_readv ::
    "('s \<Rightarrow> nat \<Rightarrow> (byte list option \<times> 's) result) \<Rightarrow> 's \<Rightarrow> nat list \<Rightarrow> nat \<Rightarrow> (byte list option \<times> 's) result" where
  "mongoc_stream_socket_readv recv s iov min_bytes = socket_readv_loop recv s iov min_bytes []"


section \<open>What a stream owes\<close>

text \<open>
  \<open>pending s\<close> are the bytes that will still arrive. A stream that meets the contract returns the next
  of them, in order and at least as many as asked for; when fewer are left it reports failure.
\<close>

definition delivers :: "'s stream_read \<Rightarrow> ('s \<Rightarrow> byte list) \<Rightarrow> ('s \<Rightarrow> bool) \<Rightarrow> bool" where
  "delivers read pending good \<longleftrightarrow> (\<forall>s count min_bytes. good s \<longrightarrow> 0 < min_bytes \<longrightarrow> min_bytes \<le> count \<longrightarrow>
     (if min_bytes \<le> length (pending s)
      then \<exists>bs s'. read s count min_bytes = Ok (Some bs, s') \<and> good s' \<and> pending s = bs @ pending s'
             \<and> min_bytes \<le> length bs \<and> length bs \<le> count
      else \<exists>s'. read s count min_bytes = Ok (None, s')))"

text \<open>
  What the socket owes when its peer has sent \<open>pending s\<close>: some of it, and a failure or the end of the
  stream only when nothing is left.
\<close>

definition receives :: "('s \<Rightarrow> nat \<Rightarrow> (byte list option \<times> 's) result) \<Rightarrow> ('s \<Rightarrow> byte list) \<Rightarrow> ('s \<Rightarrow> bool) \<Rightarrow> bool" where
  "receives recv pending good \<longleftrightarrow> (\<forall>s n. good s \<longrightarrow> 0 < n \<longrightarrow>
     (\<exists>s'. recv s n = Ok (None, s') \<and> pending s = [])
     \<or> (\<exists>bs s'. recv s n = Ok (Some bs, s') \<and> good s' \<and> pending s = bs @ pending s' \<and> length bs \<le> n
          \<and> (bs = [] \<longrightarrow> pending s = [])))"

lemma socket_loop_delivers:
  assumes "receives recv pending good"
  shows "good s \<Longrightarrow> 0 < n \<Longrightarrow> length got < min_bytes \<Longrightarrow> min_bytes \<le> length got + n \<Longrightarrow>
    (if min_bytes \<le> length got + length (pending s)
     then \<exists>bs s'. socket_readv_loop recv s [n] min_bytes got = Ok (Some (got @ bs), s') \<and> good s'
            \<and> pending s = bs @ pending s' \<and> min_bytes \<le> length got + length bs \<and> length bs \<le> n
     else \<exists>s'. socket_readv_loop recv s [n] min_bytes got = Ok (None, s'))"
proof (induction n arbitrary: s got rule: less_induct)
  case (less n)
  from assms less.prems(1,2) consider (none) s' where "recv s n = Ok (None, s')" "pending s = []"
    | (some) bs s' where "recv s n = Ok (Some bs, s')" "good s'" "pending s = bs @ pending s'"
        "length bs \<le> n" "bs = [] \<Longrightarrow> pending s = []"
    unfolding receives_def by meson
  then show ?case
  proof cases
    case none
    then show ?thesis using less.prems by simp
  next
  case (some bs s')
  note r = some
  show ?thesis
  proof (cases "bs = []")
    case True
    then show ?thesis using r less.prems by simp
  next
    case False
    then have "0 < length bs" by simp
    show ?thesis
    proof (cases "min_bytes \<le> length (got @ bs) \<or> length bs = n")
      case True
      with False r less.prems show ?thesis by (auto simp: Let_def)
    next
      case more: False
      have "n - length bs < n" "0 < n - length bs" using \<open>0 < length bs\<close> more r(4) by auto
      moreover have "socket_readv_loop recv s [n] min_bytes got = socket_readv_loop recv s' [n - length bs] min_bytes (got @ bs)"
        using False r more by (subst socket_readv_loop.simps) (simp add: Let_def)
      ultimately show ?thesis
        using less.IH [of "n - length bs" s' "got @ bs"] r more less.prems by (auto simp del: socket_readv_loop.simps)
    qed
  qed
  qed
qed

lemma socket_delivers:
  "receives recv pending good \<Longrightarrow> delivers (mongoc_stream_read (mongoc_stream_socket_readv recv)) pending good"
  unfolding delivers_def
proof (intro allI impI)
  fix s count min_bytes
  assume "receives recv pending good" "good s" "(0 :: nat) < min_bytes" "min_bytes \<le> count"
  with socket_loop_delivers [of recv pending good s count "[]" min_bytes]
  show "if min_bytes \<le> length (pending s)
      then \<exists>bs s'. mongoc_stream_read (mongoc_stream_socket_readv recv) s count min_bytes = Ok (Some bs, s') \<and> good s'
        \<and> pending s = bs @ pending s' \<and> min_bytes \<le> length bs \<and> length bs \<le> count
      else \<exists>s'. mongoc_stream_read (mongoc_stream_socket_readv recv) s count min_bytes = Ok (None, s')"
    by (auto simp: mongoc_stream_read_def mongoc_stream_socket_readv_def simp del: socket_readv_loop.simps)
qed


section \<open>The buffer as a queue\<close>

definition buffer_ok :: "mongoc_buffer_t \<Rightarrow> bool" where
  "buffer_ok b \<longleftrightarrow> (\<exists>m. bf_data b = Some m \<and> length m = bf_datalen b \<and> 0 < bf_datalen b
     \<and> bf_off b + bf_len b \<le> bf_datalen b \<and> None \<notin> set (take (bf_len b) (drop (bf_off b) m)))"

definition contents :: "mongoc_buffer_t \<Rightarrow> byte list" where
  "contents b = map the (take (bf_len b) (drop (bf_off b) (the (bf_data b))))"

lemma length_contents: "buffer_ok b \<Longrightarrow> length (contents b) = bf_len b"
  by (auto simp: buffer_ok_def contents_def)

lemma init_ok: "buflen \<noteq> 0 \<longrightarrow> buf = None \<or> (\<exists>m. buf = Some m \<and> length m = buflen) \<Longrightarrow> buflen = 0 \<longrightarrow> buf = None \<Longrightarrow>
    buffer_ok (mongoc_buffer_init b buf buflen) \<and> contents (mongoc_buffer_init b buf buflen) = []"
  by (auto simp: mongoc_buffer_init_def buffer_ok_def contents_def Let_def)

lemma clear_ok:
  assumes "buffer_ok b"
  shows "\<exists>b'. mongoc_buffer_clear b zero = Ok b' \<and> buffer_ok b' \<and> contents b' = [] \<and> bf_datalen b' = bf_datalen b
    \<and> (zero \<longrightarrow> bf_data b' = Some (replicate (bf_datalen b) (Some 0)))"
  using assms by (auto simp: mongoc_buffer_clear_def buffer_ok_def contents_def cells_write_def)

lemma to_front_ok:
  assumes "buffer_ok b"
  shows "\<exists>b'. buffer_to_front b = Ok b' \<and> buffer_ok b' \<and> contents b' = contents b \<and> bf_off b' = 0
    \<and> bf_len b' = bf_len b \<and> bf_datalen b' = bf_datalen b"
proof -
  from assms obtain m where m: "bf_data b = Some m" "length m = bf_datalen b" "0 < bf_datalen b"
    "bf_off b + bf_len b \<le> bf_datalen b" "None \<notin> set (take (bf_len b) (drop (bf_off b) m))"
    unfolding buffer_ok_def by blast
  define c where "c = take (bf_len b) (drop (bf_off b) m)"
  have c: "length c = bf_len b" "None \<notin> set c" using m by (simp_all add: c_def)
  show ?thesis
  proof (cases "bf_len b = 0")
    case True
    then show ?thesis using m by (auto simp: buffer_to_front_def buffer_ok_def contents_def)
  next
    case False
    then have "buffer_to_front b = Ok (b\<lparr>bf_data := Some (c @ drop (bf_len b) m), bf_off := 0\<rparr>)"
      using m c by (simp add: buffer_to_front_def cells_move_def cells_read_def cells_write_def flip: c_def)
    then show ?thesis using m c by (auto simp: buffer_ok_def contents_def c_def)
  qed
qed

lemma grow_ok:
  assumes "buffer_ok b" "bf_off b = 0" "bf_len b \<le> n" "0 < n" "n \<le> 2 ^ 63"
  shows "buffer_ok (buffer_grow b n)" "contents (buffer_grow b n) = contents b" "bf_off (buffer_grow b n) = 0"
    "bf_len (buffer_grow b n) = bf_len b" "n \<le> bf_datalen (buffer_grow b n)"
proof -
  from assms(1) obtain m where m: "bf_data b = Some m" "length m = bf_datalen b"
    "bf_len b \<le> bf_datalen b" "None \<notin> set (take (bf_len b) m)"
    using assms(2) unfolding buffer_ok_def by auto
  have n: "n \<le> npot n" using npot_bounds [OF assms(4,5)] by simp
  then have "bf_len b \<le> npot n" using assms(3) by simp
  then have t: "take (bf_len b) (cells_realloc (npot n) m) = take (bf_len b) m"
    using m by (simp add: cells_realloc_def min_def)
  have "length (cells_realloc (npot n) m) = npot n" by (simp add: cells_realloc_def)
  then show "buffer_ok (buffer_grow b n)" "contents (buffer_grow b n) = contents b" "bf_off (buffer_grow b n) = 0"
    "bf_len (buffer_grow b n) = bf_len b" "n \<le> bf_datalen (buffer_grow b n)"
    using t m assms(2,4) n \<open>bf_len b \<le> npot n\<close> by (simp_all add: buffer_ok_def buffer_grow_def contents_def)
qed

lemma store_ok:
  assumes "buffer_ok b" "bf_off b + bf_len b + length bs \<le> bf_datalen b"
  shows "\<exists>b'. buffer_store b bs = Ok b' \<and> buffer_ok (b'\<lparr>bf_len := bf_len b' + length bs\<rparr>) \<and> buffer_ok b'
    \<and> contents (b'\<lparr>bf_len := bf_len b' + length bs\<rparr>) = contents b @ bs \<and> contents b' = contents b \<and> bf_len b' = bf_len b"
proof -
  from assms obtain m where m: "bf_data b = Some m" "length m = bf_datalen b" "0 < bf_datalen b"
    "None \<notin> set (take (bf_len b) (drop (bf_off b) m))"
    unfolding buffer_ok_def by auto
  define A C Z where "A = take (bf_off b) m" "C = take (bf_len b) (drop (bf_off b) m)" "Z = drop (bf_off b + bf_len b) m"
  have m': "m = A @ C @ Z"
    unfolding A_C_Z_def by (metis add.commute append_take_drop_id drop_drop)
  have len: "length A = bf_off b" "length C = bf_len b" "length bs \<le> length Z"
    using m(2) assms(2) by (auto simp: A_C_Z_def)
  define w where "w = A @ C @ map Some bs @ drop (length bs) Z"
  have store: "buffer_store b bs = Ok (b\<lparr>bf_data := Some w\<rparr>)"
    using m(1) len by (simp add: buffer_store_def cells_write_def w_def m')
  have w: "length w = bf_datalen b"
    "take (bf_len b) (drop (bf_off b) w) = take (bf_len b) (drop (bf_off b) m)"
    "take (bf_len b + length bs) (drop (bf_off b) w) = take (bf_len b) (drop (bf_off b) m) @ map Some bs"
    using m(2) len by (simp_all add: w_def m')
  show ?thesis using store w m assms(2) by (auto simp: buffer_ok_def contents_def)
qed

lemma buffered_copy_ok:
  "buffer_ok b \<Longrightarrow> sum_list iov \<le> bf_len b \<Longrightarrow> \<exists>b'. buffered_copy b iov = Ok (take (sum_list iov) (contents b), b')
    \<and> buffer_ok b' \<and> contents b' = drop (sum_list iov) (contents b)"
proof (induction iov arbitrary: b)
  case (Cons n iov)
  from Cons.prems(1) obtain m where m: "bf_data b = Some m" "length m = bf_datalen b" "0 < bf_datalen b"
    "bf_off b + bf_len b \<le> bf_datalen b" "None \<notin> set (take (bf_len b) (drop (bf_off b) m))"
    unfolding buffer_ok_def by blast
  have n: "n \<le> bf_len b" using Cons.prems(2) by simp
  let ?b = "b\<lparr>bf_off := bf_off b + n, bf_len := bf_len b - n\<rparr>"
  have split: "take (bf_len b) (drop (bf_off b) m) = take n (drop (bf_off b) m) @ take (bf_len b - n) (drop (bf_off b + n) m)"
    using n by (metis add.commute drop_drop le_add_diff_inverse take_add)
  have c: "contents b = map the (take n (drop (bf_off b) m)) @ contents ?b"
    using m(1) split by (simp add: contents_def)
  have taken: "buffered_take b n = Ok (map the (take n (drop (bf_off b) m)), ?b)"
    using m n split by (auto simp: buffered_take_def cells_read_def the_bytes_def)
  have ok: "buffer_ok ?b" using m n split by (auto simp: buffer_ok_def)
  have len: "length (map the (take n (drop (bf_off b) m))) = n" using m n by simp
  have "sum_list iov \<le> bf_len ?b" using Cons.prems(2) by simp
  from Cons.IH [OF ok this] obtain b' where b': "buffered_copy ?b iov = Ok (take (sum_list iov) (contents ?b), b')"
    "buffer_ok b'" "contents b' = drop (sum_list iov) (contents ?b)" by blast
  show ?case using b' taken c len by (simp add: take_add)
qed (auto)

lemma fill_delivers:
  assumes "delivers read pending good" "buffer_ok b" "good s" "n \<le> 2 ^ 63"
  shows "if n \<le> length (contents b @ pending s)
    then \<exists>b' s'. mongoc_buffer_fill read b s n = Ok (Some (bf_len b'), b', s') \<and> buffer_ok b' \<and> good s'
      \<and> contents b' @ pending s' = contents b @ pending s \<and> n \<le> bf_len b'
    else \<exists>b' s'. mongoc_buffer_fill read b s n = Ok (None, b', s')"
proof (cases "n \<le> bf_len b")
  case True
  then show ?thesis using assms by (auto simp: mongoc_buffer_fill_def buffer_ok_def length_contents)
next
  case False
  define k where "k = n - bf_len b"
  obtain b1 where b1: "buffer_to_front b = Ok b1" "buffer_ok b1" "contents b1 = contents b" "bf_off b1 = 0"
    "bf_len b1 = bf_len b" "bf_datalen b1 = bf_datalen b"
    using to_front_ok [OF assms(2)] by blast
  define b2 where "b2 = (if SPACE_FOR b1 k then b1 else buffer_grow b1 (bf_len b1 + k))"
  have k: "0 < k" "bf_len b1 + k \<le> 2 ^ 63" "bf_len b + k = n" using False assms(4) b1(5) by (auto simp: k_def)
  have g: "bf_len b1 \<le> bf_len b1 + k" "0 < bf_len b1 + k" using k(1) by auto
  have b2: "buffer_ok b2" "contents b2 = contents b" "bf_off b2 = 0" "bf_len b2 = bf_len b" "bf_len b2 + k \<le> bf_datalen b2"
    using b1 grow_ok [OF b1(2,4) g(1,2) k(2)] by (auto simp: b2_def SPACE_FOR_def)
  define avail where "avail = bf_datalen b2 - bf_len b2"
  have avail: "k \<le> avail" using b2(5) by (simp add: avail_def)
  have d: "bf_data b \<noteq> None" "bf_datalen b \<noteq> 0" using assms(2) by (auto simp: buffer_ok_def)
  have fill: "mongoc_buffer_fill read b s n =
      rbind (read s avail k) (\<lambda>(r, s). case r of
               None \<Rightarrow> Ok (None, b2, s)
             | Some bs \<Rightarrow> rbind (buffer_store b2 bs) (\<lambda>b.
                 let b = b\<lparr>bf_len := bf_len b + length bs\<rparr> in
                 if bf_len b < k then Ok (None, b, s) else Ok (Some (bf_len b), b, s)))"
    using False d b1(1) unfolding b2_def avail_def
    by (cases "SPACE_FOR b1 k") (auto simp: mongoc_buffer_fill_def Let_def simp flip: k_def)
  have len: "n \<le> length (contents b @ pending s) \<longleftrightarrow> k \<le> length (pending s)"
    using k length_contents [OF assms(2)] by auto
  note c = assms(1) [unfolded delivers_def, rule_format, OF assms(3) k(1) avail]
  show ?thesis
  proof (cases "k \<le> length (pending s)")
    case True
    with c obtain bs s' where r: "read s avail k = Ok (Some bs, s')" "good s'" "pending s = bs @ pending s'"
      "k \<le> length bs" "length bs \<le> avail" by auto
    have "bf_off b2 + bf_len b2 + length bs \<le> bf_datalen b2" using r(4,5) b2(3) k(1) by (auto simp: avail_def)
    from store_ok [OF b2(1) this] obtain b3 where b3: "buffer_store b2 bs = Ok b3"
      "buffer_ok (b3\<lparr>bf_len := bf_len b3 + length bs\<rparr>)" "contents (b3\<lparr>bf_len := bf_len b3 + length bs\<rparr>) = contents b2 @ bs"
      "bf_len b3 = bf_len b2" by blast
    show ?thesis
      unfolding fill using True len r b3 b2 k by (auto simp: Let_def)
  next
    case False
    with c obtain s' where "read s avail k = Ok (None, s')" by auto
    then show ?thesis unfolding fill using False len by auto
  qed
qed

section \<open>Reading exactly what is asked for\<close>

definition delivers_exactly :: "'s stream_read \<Rightarrow> ('s \<Rightarrow> byte list) \<Rightarrow> ('s \<Rightarrow> bool) \<Rightarrow> bool" where
  "delivers_exactly read pending good \<longleftrightarrow> (\<forall>s n. good s \<longrightarrow> 0 < n \<longrightarrow> n \<le> INT32_MAX \<longrightarrow>
     (if n \<le> length (pending s)
      then \<exists>s'. read s n n = Ok (Some (take n (pending s)), s') \<and> good s' \<and> pending s' = drop n (pending s)
      else \<exists>s'. read s n n = Ok (None, s')))"

definition buffered_pending :: "('s \<Rightarrow> byte list) \<Rightarrow> 's mongoc_stream_buffered_t \<Rightarrow> byte list" where
  "buffered_pending pending s = contents (bs_buffer s) @ pending (bs_base_stream s)"

definition buffered_good :: "('s \<Rightarrow> bool) \<Rightarrow> 's mongoc_stream_buffered_t \<Rightarrow> bool" where
  "buffered_good good s \<longleftrightarrow> buffer_ok (bs_buffer s) \<and> good (bs_base_stream s)"

lemma buffered_new_ok:
  "buffered_good good (mongoc_stream_buffered_new s n) = good s"
  "buffered_pending pending (mongoc_stream_buffered_new s n) = pending s"
  using init_ok [of n None "\<lparr>bf_data = None, bf_datalen = 0, bf_off = 0, bf_len = 0\<rparr>"]
  by (simp_all add: buffered_good_def buffered_pending_def mongoc_stream_buffered_new_def)

lemma buffered_delivers_exactly:
  assumes "delivers read pending good"
  shows "delivers_exactly (mongoc_stream_read (mongoc_stream_buffered_readv read)) (buffered_pending pending) (buffered_good good)"
  unfolding delivers_exactly_def
proof (intro allI impI)
  fix s :: "'a mongoc_stream_buffered_t" and n :: nat
  assume s: "buffered_good good s" and n: "0 < n" "n \<le> INT32_MAX"
  have "n \<le> 2 ^ 63" using n(2) by simp
  note f = fill_delivers [OF assms _ _ this, of "bs_buffer s" "bs_base_stream s"]
  show "if n \<le> length (buffered_pending pending s)
     then \<exists>s'. mongoc_stream_read (mongoc_stream_buffered_readv read) s n n = Ok (Some (take n (buffered_pending pending s)), s')
       \<and> buffered_good good s' \<and> buffered_pending pending s' = drop n (buffered_pending pending s)
     else \<exists>s'. mongoc_stream_read (mongoc_stream_buffered_readv read) s n n = Ok (None, s')"
  proof (cases "n \<le> length (buffered_pending pending s)")
    case True
    with f s obtain b' base where b: "mongoc_buffer_fill read (bs_buffer s) (bs_base_stream s) n = Ok (Some (bf_len b'), b', base)"
      "buffer_ok b'" "good base" "contents b' @ pending base = buffered_pending pending s" "n \<le> bf_len b'"
      by (auto simp: buffered_pending_def buffered_good_def)
    from buffered_copy_ok [OF b(2), of "[n]"] b(5) obtain b'' where c: "buffered_copy b' [n] = Ok (take n (contents b'), b'')"
      "buffer_ok b''" "contents b'' = drop n (contents b')" by auto
    have "take n (contents b') = take n (buffered_pending pending s)"
      "contents b'' @ pending base = drop n (buffered_pending pending s)"
      using b(4) [symmetric] b(5) c(3) length_contents [OF b(2)] by simp_all
    then show ?thesis using True b c
      by (simp add: mongoc_stream_read_def mongoc_stream_buffered_readv_def buffered_good_def buffered_pending_def Let_def
          del: buffered_copy.simps)
  next
    case False
    with f s obtain b' base where "mongoc_buffer_fill read (bs_buffer s) (bs_base_stream s) n = Ok (None, b', base)"
      by (auto simp: buffered_pending_def buffered_good_def)
    then show ?thesis using False
      by (simp add: mongoc_stream_read_def mongoc_stream_buffered_readv_def Let_def)
  qed
qed

abbreviation connection_read :: "('s \<Rightarrow> nat \<Rightarrow> (byte list option \<times> 's) result) \<Rightarrow> 's mongoc_stream_buffered_t stream_read" where
  "connection_read recv \<equiv>
     mongoc_stream_read (mongoc_stream_buffered_readv (mongoc_stream_read (mongoc_stream_socket_readv recv)))"

lemma connection_delivers_exactly:
  "receives recv pending good \<Longrightarrow> delivers_exactly (connection_read recv) (buffered_pending pending) (buffered_good good)"
  by (rule buffered_delivers_exactly [OF socket_delivers])

text \<open>The reader's buffer on such a stream.\<close>

lemma append_from_stream_delivers:
  assumes "delivers_exactly read pending good" "buffer_ok b" "good s" "0 < n" "bf_datalen b + n < INT32_MAX"
  shows "if n \<le> length (pending s)
    then \<exists>b' s'. mongoc_buffer_append_from_stream read b s n = Ok (True, b', s') \<and> buffer_ok b' \<and> good s'
      \<and> contents b' = contents b @ take n (pending s) \<and> pending s' = drop n (pending s)
    else \<exists>b' s'. mongoc_buffer_append_from_stream read b s n = Ok (False, b', s')"
proof -
  have d: "bf_datalen b \<noteq> 0" using assms(2) by (auto simp: buffer_ok_def)
  obtain b1 where b1: "rbind (if SPACE_FOR b n then Ok b
               else rbind (buffer_to_front b) (\<lambda>b.
                 if SPACE_FOR b n then Ok b else Ok (buffer_grow b (n + bf_len b + bf_off b)))) f = f b1"
      "buffer_ok b1" "contents b1 = contents b" "bf_off b1 + bf_len b1 + n \<le> bf_datalen b1"
    for f :: "mongoc_buffer_t \<Rightarrow> (bool \<times> mongoc_buffer_t \<times> 'a) result"
  proof (cases "SPACE_FOR b n")
    case True
    then show ?thesis using that [of b] assms(2) by (auto simp: SPACE_FOR_def)
  next
    case False
    obtain b1 where b1: "buffer_to_front b = Ok b1" "buffer_ok b1" "contents b1 = contents b" "bf_off b1 = 0"
      "bf_len b1 = bf_len b" "bf_datalen b1 = bf_datalen b"
      using to_front_ok [OF assms(2)] by blast
    show ?thesis
    proof (cases "SPACE_FOR b1 n")
      case True
      then show ?thesis using that [of b1] b1 False by (auto simp: SPACE_FOR_def)
    next
      case grow: False
      have "bf_len b \<le> bf_datalen b" using assms(2) by (auto simp: buffer_ok_def)
      then have "n + bf_len b1 + bf_off b1 \<le> 2 ^ 63" using assms(5) b1 by simp
      from grow_ok [OF b1(2,4) _ _ this] assms(4) b1 False grow show ?thesis
        by (intro that [of "buffer_grow b1 (n + bf_len b1 + bf_off b1)"]) auto
    qed
  qed
  have app: "mongoc_buffer_append_from_stream read b s n = rbind (read s n n) (\<lambda>(r, s). case r of
            None \<Rightarrow> Ok (False, b1, s)
          | Some bs \<Rightarrow> rbind (buffer_store b1 bs) (\<lambda>b.
              if length bs \<noteq> n then Ok (False, b, s)
              else Ok (True, b\<lparr>bf_len := bf_len b + length bs\<rparr>, s)))"
    using d assms(4,5) b1(4) by (simp add: mongoc_buffer_append_from_stream_def b1(1))
  note c = assms(1) [unfolded delivers_exactly_def, rule_format, OF assms(3,4)]
  show ?thesis
  proof (cases "n \<le> length (pending s)")
    case True
    with c assms(5) obtain s' where r: "read s n n = Ok (Some (take n (pending s)), s')" "good s'" "pending s' = drop n (pending s)"
      by auto
    have "bf_off b1 + bf_len b1 + length (take n (pending s)) \<le> bf_datalen b1" using b1(4) True by simp
    from store_ok [OF b1(2) this] obtain b2 where "buffer_store b1 (take n (pending s)) = Ok b2"
      "buffer_ok (b2\<lparr>bf_len := bf_len b2 + n\<rparr>)" "contents (b2\<lparr>bf_len := bf_len b2 + n\<rparr>) = contents b1 @ take n (pending s)"
      using True by auto
    then show ?thesis unfolding app using True r b1(3) by simp
  next
    case False
    with c assms(5) show ?thesis unfolding app by auto
  qed
qed

text \<open>The memory does not grow while there is room.\<close>

lemma append_from_stream_datalen:
  assumes "mongoc_buffer_append_from_stream read b s n = Ok (r, b', s')" "buffer_ok b" "bf_len b + n \<le> bf_datalen b"
  shows "bf_datalen b' = bf_datalen b"
proof -
  obtain b1 where b1: "buffer_to_front b = Ok b1" "bf_off b1 = 0" "bf_len b1 = bf_len b" "bf_datalen b1 = bf_datalen b"
    using to_front_ok [OF assms(2)] by blast
  then have "SPACE_FOR b1 n" using assms(3) by (simp add: SPACE_FOR_def)
  moreover have "bf_datalen b' = bf_datalen b1" if "buffer_store b1 bs = Ok b'" for b1 b' bs
    using that by (auto simp: buffer_store_def rbind_Ok_iff split: option.splits)
  ultimately show ?thesis using assms(1) b1
    by (auto simp: mongoc_buffer_append_from_stream_def rbind_Ok_iff split: if_split_asm option.splits)
qed

text \<open>
  A stream that stops early at the end, as \<open>mongoc_stream_read\<close> allows: \<open>fill\<close> has subtracted the
  bytes it held from \<open>min_bytes\<close> and then compares all of them with what is left of it, so it may
  report success with too few bytes; the buffered stream then fails its assertion.
\<close>

lemma fill_accepts_short:
  assumes "\<And>n m. read s n m = Ok (Some [], s)" "buffer_ok b" "bf_len b < n" "n \<le> 2 * bf_len b" "n \<le> 2 ^ 63"
  shows "mongoc_stream_read (mongoc_stream_buffered_readv read) \<lparr>bs_base_stream = s, bs_buffer = b\<rparr> n n = Fault Assertion_Failed"
proof -
  obtain b1 where b1: "buffer_to_front b = Ok b1" "buffer_ok b1" "bf_off b1 = 0" "bf_len b1 = bf_len b"
    using to_front_ok [OF assms(2)] by blast
  obtain m where m: "bf_data b = Some m" "bf_datalen b \<noteq> 0" using assms(2) by (auto simp: buffer_ok_def)
  define b2 where "b2 = (if SPACE_FOR b1 (n - bf_len b) then b1 else buffer_grow b1 (bf_len b1 + (n - bf_len b)))"
  have g: "bf_len b1 \<le> bf_len b1 + (n - bf_len b)" "0 < bf_len b1 + (n - bf_len b)" "bf_len b1 + (n - bf_len b) \<le> 2 ^ 63"
    using assms(3-5) b1(4) by auto
  have b2: "buffer_ok b2" "bf_off b2 = 0" "bf_len b2 = bf_len b"
    using b1 grow_ok [OF b1(2,3) g] by (auto simp: b2_def)
  then have "bf_off b2 + bf_len b2 + length [] \<le> bf_datalen b2" by (auto simp: buffer_ok_def)
  from store_ok [OF b2(1) this] obtain b3 where b3: "buffer_store b2 [] = Ok b3" "bf_len b3 = bf_len b2" by blast
  have "mongoc_buffer_fill read b s n = Ok (Some (bf_len b), b3, s)"
    using assms(1,3,4) m b1(1) b3 b2(3)
    by (simp add: mongoc_buffer_fill_def Let_def flip: b2_def)
  then show ?thesis using assms(3)
    using b3 b2(3) by (simp add: mongoc_stream_read_def mongoc_stream_buffered_readv_def)
qed


text \<open>
  C12: the buffer of a reader on a buffered stream on a socket. However the network cuts the bytes
  into pieces, \<open>_mongoc_buffer_append_from_stream\<close> appends exactly the next \<open>n\<close> bytes of what the peer
  sends, keeping those that were read ahead for the next call; when the peer closes before \<open>n\<close> bytes
  came it reports failure.
\<close>

theorem append_from_connection:
  assumes "receives recv pending good" "buffered_good good s" "buffer_ok b" "0 < n" "bf_datalen b + n < INT32_MAX"
  shows "if n \<le> length (buffered_pending pending s)
    then \<exists>b' s'. mongoc_buffer_append_from_stream (connection_read recv) b s n = Ok (True, b', s')
      \<and> contents b' = contents b @ take n (buffered_pending pending s)
      \<and> buffered_pending pending s' = drop n (buffered_pending pending s) \<and> buffer_ok b' \<and> buffered_good good s'
    else \<exists>b' s'. mongoc_buffer_append_from_stream (connection_read recv) b s n = Ok (False, b', s')"
  using append_from_stream_delivers [OF connection_delivers_exactly [OF assms(1)] assms(3,2,4,5)] by (simp split: if_splits) blast

text \<open>A network that delivers given packets and then closes.\<close>

fun packet_recv :: "byte list list \<Rightarrow> nat \<Rightarrow> (byte list option \<times> byte list list) result" where
  "packet_recv [] n = Ok (Some [], [])"
| "packet_recv ([] # ps) n = packet_recv ps n"
| "packet_recv (p # ps) n = Ok (Some (take n p), drop n p # ps)"

lemma packets_received: "receives packet_recv concat (\<lambda>_. True)"
proof -
  have "\<exists>bs s'. packet_recv s n = Ok (Some bs, s') \<and> concat s = bs @ concat s' \<and> length bs \<le> n \<and> (bs = [] \<longrightarrow> concat s = [])"
    if "0 < n" for s n
    using that by (induction s n rule: packet_recv.induct) auto
  then show ?thesis by (auto simp: receives_def)
qed

abbreviation (input) some_packets :: "byte list list" where "some_packets \<equiv> [[1, 2], [], [3], [4, 5, 6]]"

lemma append_from_connection_witness:
  "\<exists>b s. mongoc_buffer_append_from_stream (connection_read packet_recv)
      (mongoc_buffer_init \<lparr>bf_data = None, bf_datalen = 0, bf_off = 0, bf_len = 0\<rparr> None 0)
      (mongoc_stream_buffered_new some_packets 1024) 4 = Ok (True, b, s)
    \<and> contents b = [1, 2, 3, 4] \<and> buffered_pending concat s = [5, 6]"
proof -
  let ?b = "mongoc_buffer_init \<lparr>bf_data = None, bf_datalen = 0, bf_off = 0, bf_len = 0\<rparr> None 0"
  have b: "buffer_ok ?b" "contents ?b = []" "bf_datalen ?b = 1024"
    using init_ok [of 0 None] by (auto simp: mongoc_buffer_init_def)
  have s: "buffered_good (\<lambda>_. True) (mongoc_stream_buffered_new some_packets 1024)"
    "buffered_pending concat (mongoc_stream_buffered_new some_packets 1024) = [1, 2, 3, 4, 5, 6]"
    by (simp_all add: buffered_new_ok)
  show ?thesis
    using append_from_connection [OF packets_received s(1) b(1), of 4] b(2,3) s(2) by auto
qed

end
