(* ===== verification/Bson_Md5.thy ===== *)
theory Bson_Md5
  imports Bson_String
begin

text \<open>
  The MD5 digest of \<open>bson-md5.c\<close>, on a little-endian host, and \<open>_mongoc_hex_md5\<close> of \<open>mongoc-util.c\<close>, which
  the driver uses to authenticate. The theorem is that however a text is cut into pieces for
  \<open>bson_md5_append\<close>, the digest is that of the padded text.
\<close>

unbundle bit_operations_syntax

section \<open>The block function\<close>

type_synonym md5_words = "32 word \<times> 32 word \<times> 32 word \<times> 32 word"

record bson_md5_t =
  md_count0 :: "32 word"
  md_count1 :: "32 word"
  md_abcd :: md5_words
  md_buf :: "byte list"

abbreviation (input) T_MASK :: "32 word" where "T_MASK \<equiv> 0xFFFFFFFF"

definition md5_F :: "32 word \<Rightarrow> 32 word \<Rightarrow> 32 word \<Rightarrow> 32 word" where
  "md5_F x y z = (x AND y) OR (NOT x AND z)"

definition md5_G :: "32 word \<Rightarrow> 32 word \<Rightarrow> 32 word \<Rightarrow> 32 word" where
  "md5_G x y z = (x AND z) OR (y AND NOT z)"

definition md5_H :: "32 word \<Rightarrow> 32 word \<Rightarrow> 32 word \<Rightarrow> 32 word" where
  "md5_H x y z = x XOR y XOR z"

definition md5_I :: "32 word \<Rightarrow> 32 word \<Rightarrow> 32 word \<Rightarrow> 32 word" where
  "md5_I x y z = y XOR (x OR NOT z)"

definition ROTATE_LEFT :: "nat \<Rightarrow> 32 word \<Rightarrow> 32 word" where
  "ROTATE_LEFT n x = push_bit n x OR drop_bit (32 - n) x"

text \<open>The arguments \<open>k\<close>, \<open>s\<close> and \<open>Ti\<close> of the sixteen \<open>SET\<close> of each round.\<close>

definition md5_round_1 :: "(nat \<times> nat \<times> 32 word) list" where
  "md5_round_1 = [
     (0, 7, T_MASK XOR 0x28955b87), (1, 12, T_MASK XOR 0x173848a9), (2, 17, 0x242070db), (3, 22, T_MASK XOR 0x3e423111),
     (4, 7, T_MASK XOR 0x0a83f050), (5, 12, 0x4787c62a), (6, 17, T_MASK XOR 0x57cfb9ec), (7, 22, T_MASK XOR 0x02b96afe),
     (8, 7, 0x698098d8), (9, 12, T_MASK XOR 0x74bb0850), (10, 17, T_MASK XOR 0x0000a44e), (11, 22, T_MASK XOR 0x76a32841),
     (12, 7, 0x6b901122), (13, 12, T_MASK XOR 0x02678e6c), (14, 17, T_MASK XOR 0x5986bc71), (15, 22, 0x49b40821)]"

definition md5_round_2 :: "(nat \<times> nat \<times> 32 word) list" where
  "md5_round_2 = [
     (1, 5, T_MASK XOR 0x09e1da9d), (6, 9, T_MASK XOR 0x3fbf4cbf), (11, 14, 0x265e5a51), (0, 20, T_MASK XOR 0x16493855),
     (5, 5, T_MASK XOR 0x29d0efa2), (10, 9, 0x02441453), (15, 14, T_MASK XOR 0x275e197e), (4, 20, T_MASK XOR 0x182c0437),
     (9, 5, 0x21e1cde6), (14, 9, T_MASK XOR 0x3cc8f829), (3, 14, T_MASK XOR 0x0b2af278), (8, 20, 0x455a14ed),
     (13, 5, T_MASK XOR 0x561c16fa), (2, 9, T_MASK XOR 0x03105c07), (7, 14, 0x676f02d9), (12, 20, T_MASK XOR 0x72d5b375)]"

definition md5_round_3 :: "(nat \<times> nat \<times> 32 word) list" where
  "md5_round_3 = [
     (5, 4, T_MASK XOR 0x0005c6bd), (8, 11, T_MASK XOR 0x788e097e), (11, 16, 0x6d9d6122), (14, 23, T_MASK XOR 0x021ac7f3),
     (1, 4, T_MASK XOR 0x5b4115bb), (4, 11, 0x4bdecfa9), (7, 16, T_MASK XOR 0x0944b49f), (10, 23, T_MASK XOR 0x4140438f),
     (13, 4, 0x289b7ec6), (0, 11, T_MASK XOR 0x155ed805), (3, 16, T_MASK XOR 0x2b10cf7a), (6, 23, 0x04881d05),
     (9, 4, T_MASK XOR 0x262b2fc6), (12, 11, T_MASK XOR 0x1924661a), (15, 16, 0x1fa27cf8), (2, 23, T_MASK XOR 0x3b53a99a)]"

definition md5_round_4 :: "(nat \<times> nat \<times> 32 word) list" where
  "md5_round_4 = [
     (0, 6, T_MASK XOR 0x0bd6ddbb), (7, 10, 0x432aff97), (14, 15, T_MASK XOR 0x546bdc58), (5, 21, T_MASK XOR 0x036c5fc6),
     (12, 6, 0x655b59c3), (3, 10, T_MASK XOR 0x70f3336d), (10, 15, T_MASK XOR 0x00100b82), (1, 21, T_MASK XOR 0x7a7ba22e),
     (8, 6, 0x6fa87e4f), (15, 10, T_MASK XOR 0x01d3191f), (6, 15, T_MASK XOR 0x5cfebceb), (13, 21, 0x4e0811a1),
     (4, 6, T_MASK XOR 0x08ac817d), (11, 10, T_MASK XOR 0x42c50dca), (2, 15, 0x2ad7d2bb), (9, 21, T_MASK XOR 0x14792c6e)]"

text \<open>
  \<open>SET (a, b, c, d, k, s, Ti)\<close> assigns to \<open>a\<close>; the next one is \<open>SET (d, a, b, c, ...)\<close>, so the tuple turns
  by one place, and is back after four of them.
\<close>

definition md5_SET ::
    "(32 word \<Rightarrow> 32 word \<Rightarrow> 32 word \<Rightarrow> 32 word) \<Rightarrow> (nat \<Rightarrow> 32 word) \<Rightarrow> nat \<times> nat \<times> 32 word \<Rightarrow> md5_words \<Rightarrow> md5_words" where
  "md5_SET f X p abcd =
     (case p of (k, s, Ti) \<Rightarrow> case abcd of (a, b, c, d) \<Rightarrow>
        let t = a + f b c d + X k + Ti in (d, ROTATE_LEFT s t + b, b, c))"

definition md5_rounds :: "(nat \<Rightarrow> 32 word) \<Rightarrow> md5_words \<Rightarrow> md5_words" where
  "md5_rounds X abcd =
     fold (md5_SET md5_I X) md5_round_4 (fold (md5_SET md5_H X) md5_round_3
       (fold (md5_SET md5_G X) md5_round_2 (fold (md5_SET md5_F X) md5_round_1 abcd)))"

definition bson_md5_process :: "md5_words \<Rightarrow> view \<Rightarrow> md5_words result" where
  "bson_md5_process abcd data =
     rbind (rdn 64 data 0) (\<lambda>bs.
       case md5_rounds (\<lambda>k. of_nat (len_at bs (4 * k))) abcd of (a, b, c, d) \<Rightarrow>
       case abcd of (a0, b0, c0, d0) \<Rightarrow> Ok (a0 + a, b0 + b, c0 + c, d0 + d))"

section \<open>Digests of messages\<close>

definition bson_md5_init :: bson_md5_t where
  "bson_md5_init = \<lparr>md_count0 = 0, md_count1 = 0,
     md_abcd = (0x67452301, T_MASK XOR 0x10325476, T_MASK XOR 0x67452301, 0x10325476), md_buf = replicate 64 0\<rparr>"

fun md5_blocks :: "md5_words \<Rightarrow> view \<Rightarrow> nat \<Rightarrow> (md5_words \<times> view \<times> nat) result" where
  "md5_blocks abcd p left =
     (if left < 64 then Ok (abcd, p, left)
      else rbind (bson_md5_process abcd p) (\<lambda>abcd. md5_blocks abcd (drop 64 p) (left - 64)))"

text \<open>
  The full blocks and the partial block at the end; then the whole function. A length above \<open>INT_MAX\<close>
  makes \<open>left\<close> negative, so that the last \<open>memcpy\<close> gets a huge length.
\<close>

definition md5_append_rest :: "bson_md5_t \<Rightarrow> view \<Rightarrow> nat \<Rightarrow> bson_md5_t result" where
  "md5_append_rest pms p left =
     rbind (md5_blocks (md_abcd pms) p left) (\<lambda>(abcd, p, left).
     rbind (rdn left p 0) (\<lambda>bs. Ok (pms\<lparr>md_abcd := abcd, md_buf := splice 0 bs (md_buf pms)\<rparr>)))"

definition bson_md5_append :: "bson_md5_t \<Rightarrow> view \<Rightarrow> nat \<Rightarrow> bson_md5_t result" where
  "bson_md5_append pms data nbytes =
     (let offset = unat (drop_bit 3 (md_count0 pms) AND 63); nbits = of_nat (nbytes * 8) in
      if nbytes = 0 then Ok pms
      else if INT32_MAX < nbytes then Fault Out_Of_Bounds
      else
        let count0 = md_count0 pms + nbits;
            pms = pms\<lparr>md_count1 := md_count1 pms + of_nat (nbytes div 2 ^ 29) + (if count0 < nbits then 1 else 0),
                      md_count0 := count0\<rparr>
        in if offset = 0 then md5_append_rest pms data nbytes
           else
             let copy = (if offset + nbytes > 64 then 64 - offset else nbytes) in
             rbind (rdn copy data 0) (\<lambda>bs.
               let pms = pms\<lparr>md_buf := splice offset bs (md_buf pms)\<rparr> in
               if offset + copy < 64 then Ok pms
               else rbind (bson_md5_process (md_abcd pms) (md_buf pms)) (\<lambda>abcd.
                 md5_append_rest (pms\<lparr>md_abcd := abcd\<rparr>) (drop copy data) (nbytes - copy))))"

definition md5_pad :: "byte list" where
  "md5_pad = 0x80 # replicate 63 0"

definition bson_md5_finish :: "bson_md5_t \<Rightarrow> byte list result" where
  "bson_md5_finish pms =
     (let data = le_bytes 4 (unat (md_count0 pms)) @ le_bytes 4 (unat (md_count1 pms)) in
      rbind (bson_md5_append pms md5_pad (unat ((55 - drop_bit 3 (md_count0 pms)) AND 63) + 1)) (\<lambda>pms.
      rbind (bson_md5_append pms data 8) (\<lambda>pms.
        case md_abcd pms of (a, b, c, d) \<Rightarrow>
          Ok (le_bytes 4 (unat a) @ le_bytes 4 (unat b) @ le_bytes 4 (unat c) @ le_bytes 4 (unat d)))))"

definition mongoc_hex_md5 :: "view \<Rightarrow> view result" where
  "mongoc_hex_md5 input =
     rbind (c_string input) (\<lambda>s.
     rbind (bson_md5_append bson_md5_init input (w32 (length s))) (\<lambda>md5.
     rbind (bson_md5_finish md5) (\<lambda>digest. Ok (concat (map hex_pair digest) @ [0]))))"


declare md5_blocks.simps [simp del]

section \<open>The padded text\<close>

definition md5_compress :: "md5_words \<Rightarrow> byte list \<Rightarrow> md5_words" where
  "md5_compress abcd bs =
     (case md5_rounds (\<lambda>k. of_nat (len_at bs (4 * k))) abcd of (a, b, c, d) \<Rightarrow>
      case abcd of (a0, b0, c0, d0) \<Rightarrow> (a0 + a, b0 + b, c0 + c, d0 + d))"

fun digest_blocks :: "md5_words \<Rightarrow> byte list \<Rightarrow> md5_words" where
  "digest_blocks abcd msg =
     (if length msg < 64 then abcd else digest_blocks (md5_compress abcd (take 64 msg)) (drop 64 msg))"

declare digest_blocks.simps [simp del]

definition md5_padded :: "byte list \<Rightarrow> byte list" where
  "md5_padded msg = msg @ 0x80 # replicate ((119 - length msg mod 64) mod 64) 0 @ le_bytes 8 (8 * length msg mod 2 ^ 64)"

definition md5_bytes :: "md5_words \<Rightarrow> byte list" where
  "md5_bytes abcd = (case abcd of (a, b, c, d) \<Rightarrow>
     le_bytes 4 (unat a) @ le_bytes 4 (unat b) @ le_bytes 4 (unat c) @ le_bytes 4 (unat d))"

definition md5_digest :: "byte list \<Rightarrow> byte list" where
  "md5_digest msg = md5_bytes (digest_blocks (md_abcd bson_md5_init) (md5_padded msg))"

lemma digest_blocks_append:
  "64 dvd length xs \<Longrightarrow> digest_blocks abcd (xs @ ys) = digest_blocks (digest_blocks abcd xs) ys"
proof (induction abcd xs rule: digest_blocks.induct)
  case (1 abcd xs)
  show ?case
  proof (cases "length xs < 64")
    case True
    then have "xs = []" using 1(2) by (auto dest: dvd_imp_le)
    then show ?thesis by (simp add: digest_blocks.simps [of abcd "[]"])
  next
    case False
    then have "64 dvd length (drop 64 xs)" using 1(2) by (simp add: dvd_diff_nat)
    from 1(1) [OF False this] show ?thesis
      using False by (simp add: digest_blocks.simps [of abcd "xs @ ys"] digest_blocks.simps [of abcd xs])
  qed
qed

lemma digest_blocks_short: "length xs < 64 \<Longrightarrow> digest_blocks abcd xs = abcd"
  by (simp add: digest_blocks.simps)

lemma digest_blocks_one: "length xs = 64 \<Longrightarrow> digest_blocks abcd xs = md5_compress abcd xs"
  by (simp add: digest_blocks.simps [of abcd xs] digest_blocks_short)

lemma process_ok: "64 \<le> length data \<Longrightarrow> bson_md5_process abcd data = Ok (md5_compress abcd (take 64 data))"
  by (simp add: bson_md5_process_def md5_compress_def view_simps split: prod.splits)

lemma md5_blocks_ok:
  "left \<le> length p \<Longrightarrow> md5_blocks abcd p left
     = Ok (digest_blocks abcd (take left p), drop (64 * (left div 64)) p, left mod 64)"
proof (induction left arbitrary: abcd p rule: less_induct)
  case (less left)
  show ?case
  proof (cases "left < 64")
    case True
    then show ?thesis by (simp add: md5_blocks.simps digest_blocks_short)
  next
    case False
    have "md5_blocks (md5_compress abcd (take 64 p)) (drop 64 p) (left - 64)
      = Ok (digest_blocks (md5_compress abcd (take 64 p)) (take (left - 64) (drop 64 p)),
            drop (64 * ((left - 64) div 64)) (drop 64 p), (left - 64) mod 64)"
      using False less.prems by (intro less.IH) auto
    moreover have "take 64 (take left p) = take 64 p" "drop 64 (take left p) = take (left - 64) (drop 64 p)"
      using False by (simp_all add: min_def drop_take)
    moreover have "64 * ((left - 64) div 64) + 64 = 64 * (left div 64)" "(left - 64) mod 64 = left mod 64"
      using False by (auto simp: le_div_geq le_mod_geq)
    ultimately show ?thesis
      using False less.prems
      by (simp add: md5_blocks.simps [of abcd p left] digest_blocks.simps [of abcd "take left p"] process_ok)
  qed
qed

section \<open>Appending in pieces\<close>

text \<open>The state after the bytes \<open>msg\<close>.\<close>

definition md5_at :: "bson_md5_t \<Rightarrow> byte list \<Rightarrow> bool" where
  "md5_at pms msg \<longleftrightarrow> length (md_buf pms) = 64
     \<and> take (length msg mod 64) (md_buf pms) = drop (64 * (length msg div 64)) msg
     \<and> md_abcd pms = digest_blocks (md_abcd bson_md5_init) msg
     \<and> unat (md_count0 pms) + 2 ^ 32 * unat (md_count1 pms) = 8 * length msg mod 2 ^ 64"

lemma md5_at_init: "md5_at bson_md5_init []"
  by (simp add: md5_at_def bson_md5_init_def digest_blocks_short)

lemma md5_count_low: "md5_at pms msg \<Longrightarrow> unat (md_count0 pms) = 8 * length msg mod 2 ^ 32"
proof -
  assume "md5_at pms msg"
  then have "(unat (md_count0 pms) + 2 ^ 32 * unat (md_count1 pms)) mod 2 ^ 32 = 8 * length msg mod 2 ^ 64 mod 2 ^ 32"
    by (simp add: md5_at_def)
  moreover have "unat (md_count0 pms) < 2 ^ 32" using unat_word_less by simp
  moreover have "8 * length msg mod 2 ^ 64 mod 2 ^ 32 = 8 * length msg mod (2 ^ 32 :: nat)"
    by (rule mod_mod_cancel) simp
  ultimately show ?thesis by simp
qed

lemma unat_low_bits: "unat ((x :: 32 word) AND 63) = unat x mod 64"
proof -
  have "x AND 63 = take_bit 6 x" by (simp add: take_bit_eq_mask mask_eq_exp_minus_1)
  then show ?thesis by (simp add: unsigned_take_bit_eq) (simp add: take_bit_eq_mod)
qed

lemma md5_offset: "md5_at pms msg \<Longrightarrow> unat (drop_bit 3 (md_count0 pms) AND 63) = length msg mod 64"
proof -
  assume "md5_at pms msg"
  then have "unat (md_count0 pms) = 8 * length msg mod 2 ^ 32" by (rule md5_count_low)
  moreover have "8 * length msg mod 2 ^ 32 = 8 * (length msg mod 2 ^ 29)" using mult_mod_right [of 8 "length msg" "2 ^ 29"] by simp
  moreover have "length msg mod 2 ^ 29 mod 64 = length msg mod 64" by (rule mod_mod_cancel) simp
  moreover have "unat (drop_bit 3 (md_count0 pms)) = unat (md_count0 pms) div 8"
    by (simp add: unat_drop_bit_eq) (simp add: drop_bit_eq_div)
  ultimately show ?thesis by (simp add: unat_low_bits)
qed

lemma low_high: "(x :: nat) < 2 ^ 32 \<Longrightarrow> x + 2 ^ 32 * (y mod 2 ^ 32) = (x + 2 ^ 32 * y) mod 2 ^ 64"
  using mod_mult2_eq [of "x + 2 ^ 32 * y" "2 ^ 32" "2 ^ 32"] by (simp add: div_add1_eq [of x] flip: power_add)

text \<open>The two words of the bit count are a number of 64 bits.\<close>

lemma md5_count_step:
  fixes c0 c1 :: "32 word"
  assumes "unat c0 + 2 ^ 32 * unat c1 = 8 * l mod 2 ^ 64" "n \<le> INT32_MAX"
    and "c0' = c0 + of_nat (n * 8)" "c1' = c1 + of_nat (n div 2 ^ 29) + (if c0' < of_nat (n * 8) then 1 else 0)"
  shows "unat c0' + 2 ^ 32 * unat c1' = 8 * (l + n) mod 2 ^ 64"
proof -
  define b :: "32 word" where "b = of_nat (n * 8)"
  define m where "m = unat b"
  have m: "m = n * 8 mod 2 ^ 32" unfolding m_def b_def by (subst unat_of_nat) simp
  note assms = assms [folded b_def]
  have "n * 8 div 2 ^ 32 = n div 2 ^ 29" using div_mult_mult2 [of 8 n "2 ^ 29"] by simp
  then have m': "m + 2 ^ 32 * (n div 2 ^ 29) = 8 * n" using mod_mult_div_eq [of "n * 8" "2 ^ 32"] by (simp add: m)
  have c0: "unat c0' = (unat c0 + m) mod 2 ^ 32" by (simp add: assms(3) m_def unat_word_ariths)
  have u: "unat c0 < 2 ^ 32" "unat c1 < 2 ^ 32" using unat_word_less by simp_all
  have "m < 2 ^ 32" by (simp add: m)
  then have carry: "(c0' < b) = (2 ^ 32 \<le> unat c0 + m)"
    using u(1) by (simp add: word_less_nat_alt c0 flip: m_def) (auto simp: mod_if)
  define k where "k = n div 2 ^ 29 + (if 2 ^ 32 \<le> unat c0 + m then 1 else 0)"
  have c1: "unat c1' = (unat c1 + k) mod 2 ^ 32"
    by (simp add: assms(4) carry k_def unat_word_ariths unat_of_nat mod_simps split del: if_split) (simp add: mod_simps)
  have s: "unat c0' + 2 ^ 32 * (unat c1 + k) = unat c0 + 2 ^ 32 * unat c1 + 8 * n"
    using u(1) \<open>m < 2 ^ 32\<close> m' by (auto simp: c0 k_def algebra_simps mod_if)
  have "unat c0' + 2 ^ 32 * unat c1' = (unat c0' + 2 ^ 32 * (unat c1 + k)) mod 2 ^ 64"
    using low_high [of "unat c0'" "unat c1 + k"] c1 by (simp add: c0)
  also have "\<dots> = (8 * l mod 2 ^ 64 + 8 * n) mod 2 ^ 64" by (simp only: s assms(1))
  finally show ?thesis by (simp add: mod_simps algebra_simps)
qed


lemma drop_append_partial:
  assumes "length msg = 64 * q + r" "length ys = k" "r + k = 64"
  shows "take (length msg - r) (msg @ ys) = take (64 * q) msg" "drop (64 * q) (msg @ ys) = drop (64 * q) msg @ ys"
  using assms by simp_all

text \<open>The blocks of a message with a partial block at its end, when bytes come behind it.\<close>

lemma digest_blocks_partial:
  "digest_blocks abcd (msg @ ys) = digest_blocks (digest_blocks abcd msg) (drop (64 * (length msg div 64)) msg @ ys)"
proof -
  let ?n = "64 * (length msg div 64)"
  have l: "length (take ?n msg) = ?n" by simp
  have "digest_blocks abcd msg = digest_blocks abcd (take ?n msg @ drop ?n msg)" by simp
  also have "\<dots> = digest_blocks (digest_blocks abcd (take ?n msg)) (drop ?n msg)"
    by (rule digest_blocks_append) (simp add: l)
  also have "\<dots> = digest_blocks abcd (take ?n msg)" by (rule digest_blocks_short) simp
  finally have d: "digest_blocks abcd msg = digest_blocks abcd (take ?n msg)" .
  have "digest_blocks abcd (msg @ ys) = digest_blocks abcd (take ?n msg @ drop ?n msg @ ys)"
    by (metis append_assoc append_take_drop_id)
  also have "\<dots> = digest_blocks (digest_blocks abcd (take ?n msg)) (drop ?n msg @ ys)"
    by (rule digest_blocks_append) (simp add: l)
  finally show ?thesis by (simp add: d)
qed

lemma append_rest_ok:
  assumes "left \<le> length p" "length (md_buf pms) = 64"
  shows "\<exists>buf. md5_append_rest pms p left
      = Ok (pms\<lparr>md_abcd := digest_blocks (md_abcd pms) (take left p), md_buf := buf\<rparr>)
    \<and> length buf = 64 \<and> take (left mod 64) buf = drop (64 * (left div 64)) (take left p)"
proof -
  have l: "left = 64 * (left div 64) + left mod 64" by simp
  have h: "left mod 64 \<le> length (drop (64 * (left div 64)) p)" using assms(1) l unfolding length_drop by linarith
  then have r: "rdn (left mod 64) (drop (64 * (left div 64)) p) 0 = Ok (take (left mod 64) (drop (64 * (left div 64)) p))"
    by (simp only: rdn_ok drop_0 add_0)
  have "take (left mod 64) (drop (64 * (left div 64)) p) = drop (64 * (left div 64)) (take left p)"
    by (simp add: drop_take minus_mult_div_eq_mod)
  moreover have "length (take (left mod 64) (drop (64 * (left div 64)) p)) = left mod 64" using h by simp
  moreover have "left mod 64 \<le> 64" by (simp add: less_imp_le)
  ultimately show ?thesis
    using assms by (auto simp: md5_append_rest_def md5_blocks_ok r splice_def)
qed

lemma md5_append_ok:
  assumes "md5_at pms msg" "n \<le> INT32_MAX" "n \<le> length data"
  shows "\<exists>pms'. bson_md5_append pms data n = Ok pms' \<and> md5_at pms' (msg @ take n data)"
proof (cases "n = 0")
  case True
  then show ?thesis using assms(1) by (simp add: bson_md5_append_def)
next
  case False
  define c0 where "c0 = md_count0 pms + of_nat (n * 8)"
  define c1 where "c1 = md_count1 pms + of_nat (n div 2 ^ 29) + (if c0 < of_nat (n * 8) then 1 else 0)"
  define p1 where "p1 = pms\<lparr>md_count1 := c1, md_count0 := c0\<rparr>"
  define off where "off = length msg mod 64"
  define new where "new = msg @ take n data"
  have off: "unat (drop_bit 3 (md_count0 pms) AND 63) = off" using md5_offset [OF assms(1)] by (simp add: off_def)
  have at: "length (md_buf pms) = 64" "take off (md_buf pms) = drop (64 * (length msg div 64)) msg"
    "md_abcd pms = digest_blocks (md_abcd bson_md5_init) msg"
    "unat (md_count0 pms) + 2 ^ 32 * unat (md_count1 pms) = 8 * length msg mod 2 ^ 64"
    using assms(1) by (simp_all add: md5_at_def off_def)
  have ln: "length new = length msg + n" using assms(3) by (simp add: new_def)
  have count: "unat c0 + 2 ^ 32 * unat c1 = 8 * length new mod 2 ^ 64"
    using md5_count_step [OF at(4) assms(2) c0_def c1_def] by (simp add: ln)
  have off64: "off < 64" by (simp add: off_def)
  have lm: "length msg = 64 * (length msg div 64) + off" by (simp add: off_def)
  define copy where "copy = (if off + n > 64 then 64 - off else n)"
  have copy: "copy \<le> n" "off + copy \<le> 64" by (auto simp: copy_def off64 less_imp_le)
  have app: "bson_md5_append pms data n =
     (if off = 0 then md5_append_rest p1 data n
      else rbind (rdn copy data 0) (\<lambda>bs.
        let pms = p1\<lparr>md_buf := splice off bs (md_buf p1)\<rparr> in
        if off + copy < 64 then Ok pms
        else rbind (bson_md5_process (md_abcd pms) (md_buf pms)) (\<lambda>abcd.
          md5_append_rest (pms\<lparr>md_abcd := abcd\<rparr>) (drop copy data) (n - copy))))"
    using assms(2) by (simp only: bson_md5_append_def Let_def off False if_False not_less [THEN iffD2] copy_def p1_def c0_def c1_def)
  show ?thesis
  proof (cases "off = 0")
    case True
    obtain buf where r: "md5_append_rest p1 data n
      = Ok (p1\<lparr>md_abcd := digest_blocks (md_abcd p1) (take n data), md_buf := buf\<rparr>)"
      "length buf = 64" "take (n mod 64) buf = drop (64 * (n div 64)) (take n data)"
      using append_rest_ok [OF assms(3), of p1] at(1) by (auto simp: p1_def)
    have "64 dvd length msg" using True by (auto simp: off_def)
    then have "digest_blocks (md_abcd bson_md5_init) new = digest_blocks (md_abcd p1) (take n data)"
      by (simp add: new_def digest_blocks_append at(3) p1_def)
    moreover have "length new mod 64 = n mod 64" "drop (64 * (length new div 64)) new = drop (64 * (n div 64)) (take n data)"
      using \<open>64 dvd length msg\<close> by (auto simp: ln new_def min_absorb2 [OF assms(3)] elim!: dvdE)
    ultimately have "md5_at (p1\<lparr>md_abcd := digest_blocks (md_abcd p1) (take n data), md_buf := buf\<rparr>) new"
      using r count by (simp add: md5_at_def p1_def)
    then show ?thesis using app True r(1) by (simp add: new_def)
  next
    case off0: False
    have bs: "rdn copy data 0 = Ok (take copy data)" using copy(1) assms(3) by (simp add: rdn_ok)
    define buf where "buf = splice off (take copy data) (md_buf pms)"
    have buf: "length buf = 64" "take (off + copy) buf = drop (64 * (length msg div 64)) msg @ take copy data"
    proof -
      have "length (take copy data) = copy" using copy(1) assms(3) by simp
      then show "length buf = 64" using at(1) copy(2) by (simp add: buf_def)
      have "take (off + copy) buf = take off (md_buf pms) @ take copy data"
        using at(1) copy assms(3) by (simp add: buf_def splice_def)
      then show "take (off + copy) buf = drop (64 * (length msg div 64)) msg @ take copy data" by (simp add: at(2))
    qed
    show ?thesis
    proof (cases "off + copy < 64")
      case True
      then have cn: "copy = n" by (auto simp: copy_def split: if_splits)
      have "length new = 64 * (length msg div 64) + (off + n)" using lm ln by simp
      then have m: "length new mod 64 = off + n" "length new div 64 = length msg div 64" using True cn by auto
      have "length (drop (64 * (length msg div 64)) msg @ take n data) < 64"
        using True cn lm assms(3) by simp
      then have "digest_blocks (md_abcd bson_md5_init) new = md_abcd pms"
        by (simp only: new_def digest_blocks_partial [of _ msg] at(3) digest_blocks_short)
      moreover have "drop (64 * (length new div 64)) new = drop (64 * (length msg div 64)) msg @ take n data"
        unfolding m(2) unfolding new_def using lm by simp
      ultimately have "md5_at (p1\<lparr>md_buf := buf\<rparr>) new"
        using count buf cn by (simp add: md5_at_def p1_def m)
      then show ?thesis using app off0 True bs by (simp add: new_def buf_def p1_def Let_def)
    next
      case False
      then have c64: "off + copy = 64" using copy(2) by simp
      define p2 where "p2 = p1\<lparr>md_buf := buf, md_abcd := md5_compress (md_abcd p1) buf\<rparr>"
      have proc: "bson_md5_process (md_abcd p1) buf = Ok (md5_compress (md_abcd p1) buf)"
        using buf(1) by (simp add: process_ok)
      obtain buf' where r: "md5_append_rest p2 (drop copy data) (n - copy)
        = Ok (p2\<lparr>md_abcd := digest_blocks (md_abcd p2) (take (n - copy) (drop copy data)), md_buf := buf'\<rparr>)"
        "length buf' = 64" "take ((n - copy) mod 64) buf' = drop (64 * ((n - copy) div 64)) (take (n - copy) (drop copy data))"
      proof -
        have "n - copy \<le> length (drop copy data)" "length (md_buf p2) = 64" using assms(3) buf(1) by (simp_all add: p2_def)
        from append_rest_ok [OF this] that show thesis by blast
      qed
      have split: "take n data = take copy data @ take (n - copy) (drop copy data)"
        using copy(1) by (simp flip: take_add)
      have full: "drop (64 * (length msg div 64)) msg @ take copy data = buf" using buf c64 by simp
      have "digest_blocks (md_abcd bson_md5_init) new
        = digest_blocks (digest_blocks (md_abcd bson_md5_init) msg) (buf @ take (n - copy) (drop copy data))"
        using full split by (simp only: new_def digest_blocks_partial [of _ msg]) (metis append_assoc)
      also have "\<dots> = digest_blocks (md_abcd p2) (take (n - copy) (drop copy data))"
        using buf(1) by (simp add: digest_blocks_append digest_blocks_one at(3) p2_def p1_def)
      finally have d: "digest_blocks (md_abcd bson_md5_init) new = digest_blocks (md_abcd p2) (take (n - copy) (drop copy data))" .
      have l64: "length new = 64 * (Suc (length msg div 64)) + (n - copy)" using lm ln c64 copy(1) by simp
      have n64: "new = take (64 * (length msg div 64)) msg @ buf @ take (n - copy) (drop copy data)"
        using full split by (metis new_def append_assoc append_take_drop_id)
      have m: "length new mod 64 = (n - copy) mod 64" "length new div 64 = Suc (length msg div 64) + (n - copy) div 64"
        unfolding l64 by (rule mod_mult_self4, rule div_mult_self4) simp
      have "drop (64 * (length new div 64)) new = drop (64 * ((n - copy) div 64)) (take (n - copy) (drop copy data))"
      proof -
        have "64 * (length new div 64) = length (take (64 * (length msg div 64)) msg @ buf) + 64 * ((n - copy) div 64)"
          using buf(1) lm by (simp add: m min_def)
        then show ?thesis by (simp add: n64 flip: append_assoc)
      qed
      then have "md5_at (p2\<lparr>md_abcd := digest_blocks (md_abcd p2) (take (n - copy) (drop copy data)), md_buf := buf'\<rparr>) new"
        using r(2,3) count d by (simp add: md5_at_def p2_def p1_def m)
      then show ?thesis using app off0 False bs r(1) proc by (simp add: new_def buf_def p1_def p2_def Let_def)
    qed
  qed
qed


section \<open>The digest\<close>

text \<open>The state after several calls of \<open>bson_md5_append\<close>.\<close>

fun md5_append_all :: "bson_md5_t \<Rightarrow> byte list list \<Rightarrow> bson_md5_t result" where
  "md5_append_all pms [] = Ok pms"
| "md5_append_all pms (d # ds) = rbind (bson_md5_append pms d (length d)) (\<lambda>pms. md5_append_all pms ds)"

lemma md5_append_all_ok:
  "md5_at pms msg \<Longrightarrow> \<forall>d \<in> set ds. length d \<le> INT32_MAX
    \<Longrightarrow> \<exists>pms'. md5_append_all pms ds = Ok pms' \<and> md5_at pms' (msg @ concat ds)"
proof (induction ds arbitrary: pms msg)
  case (Cons d ds)
  then obtain p1 where p1: "bson_md5_append pms d (length d) = Ok p1" "md5_at p1 (msg @ d)"
    using md5_append_ok [OF Cons.prems(1), of "length d" d] by auto
  show ?case using Cons.IH [OF p1(2)] p1(1) Cons.prems(2) by auto
qed simp

lemma mod_64_cases:
  assumes "(a + b) mod 64 = (55 :: nat)" "a < 64" "b < 64"
  shows "a + b = 55 \<or> a + b = 119"
  using assms by (cases "a + b < 64") (auto simp: mod_if split: if_splits)

lemma nat_diff_mod_64: "a + b = 55 \<or> a + b = 119 \<Longrightarrow> a < 64 \<Longrightarrow> a = (119 - b) mod (64 :: nat)"
  by (auto simp: mod_if)

lemma md5_pad_length:
  assumes "md5_at pms msg"
  shows "unat ((55 - drop_bit 3 (md_count0 pms)) AND 63) = (119 - length msg mod 64) mod 64"
proof -
  define x where "x = drop_bit 3 (md_count0 pms)"
  have x: "unat x mod 64 = length msg mod 64"
    using md5_offset [OF assms] unat_low_bits [of x] by (simp add: x_def)
  have "unat ((55 - x) + x) = 55" by simp
  then have "(unat (55 - x) + unat x) mod 2 ^ 32 = 55" unfolding unat_word_ariths(1) by simp
  then have "(unat (55 - x) + unat x) mod 2 ^ 32 mod 64 = 55" by simp
  then have "(unat (55 - x) + unat x) mod 64 = 55" by (simp add: mod_mod_cancel)
  then have "(unat (55 - x) mod 64 + length msg mod 64) mod 64 = 55" by (metis mod_add_eq x)
  then have "unat (55 - x) mod 64 + length msg mod 64 = 55 \<or> unat (55 - x) mod 64 + length msg mod 64 = 119"
    by (rule mod_64_cases) simp_all
  then have "unat (55 - x) mod 64 = (119 - length msg mod 64) mod 64"
    by (rule nat_diff_mod_64) simp
  then show ?thesis unfolding unat_low_bits x_def [symmetric] .
qed

lemma count_bytes: "md5_at pms msg \<Longrightarrow>
  le_bytes 4 (unat (md_count0 pms)) @ le_bytes 4 (unat (md_count1 pms)) = le_bytes 8 (8 * length msg mod 2 ^ 64)"
proof -
  assume at: "md5_at pms msg"
  define v where "v = 8 * length msg mod 2 ^ 64"
  have v: "v = unat (md_count0 pms) + 2 ^ 32 * unat (md_count1 pms)" using at by (simp add: md5_at_def v_def)
  have u: "unat (md_count0 pms) < 2 ^ 32" using unat_word_less by simp
  have "le_bytes 8 v = le_bytes 4 v @ le_bytes 4 (v div 256 ^ 4)" using le_bytes_add [of 4 4 v] by simp
  also have "le_bytes 4 v = le_bytes 4 (v mod 256 ^ 4)" by (rule le_bytes_mod [symmetric])
  finally have "le_bytes 8 v = le_bytes 4 (unat (md_count0 pms)) @ le_bytes 4 (unat (md_count1 pms))" using u by (simp add: v)
  then show ?thesis unfolding v_def by simp
qed

lemma md5_finish_ok:
  assumes "md5_at pms msg"
  shows "bson_md5_finish pms = Ok (md5_digest msg)"
proof -
  define k where "k = (119 - length msg mod 64) mod 64"
  have k: "unat ((55 - drop_bit 3 (md_count0 pms)) AND 63) + 1 = Suc k" "Suc k \<le> 64" "Suc k \<le> length md5_pad"
    using md5_pad_length [OF assms] by (auto simp: k_def md5_pad_def Suc_le_eq)
  have pad: "take (Suc k) md5_pad = 0x80 # replicate k 0" using k(2) by (simp add: md5_pad_def min_def)
  obtain p1 where p1: "bson_md5_append pms md5_pad (Suc k) = Ok p1" "md5_at p1 (msg @ 0x80 # replicate k 0)"
    using md5_append_ok [OF assms, of "Suc k" md5_pad] k pad by auto
  obtain p2 where p2: "bson_md5_append p1 (le_bytes 8 (8 * length msg mod 2 ^ 64)) 8 = Ok p2" "md5_at p2 (md5_padded msg)"
    using md5_append_ok [OF p1(2), of 8 "le_bytes 8 (8 * length msg mod 2 ^ 64)"] by (auto simp: md5_padded_def k_def)
  have "md_abcd p2 = digest_blocks (md_abcd bson_md5_init) (md5_padded msg)" using p2(2) by (simp add: md5_at_def)
  then show ?thesis
    using k(1) p1(1) p2(1) by (simp add: bson_md5_finish_def count_bytes [OF assms] md5_digest_def md5_bytes_def split: prod.splits)
qed

text \<open>
  C24: however a message is cut into the pieces given to \<open>bson_md5_append\<close>, \<open>bson_md5_finish\<close> returns the
  digest of the message: the block function folded over the blocks of the text that is padded with a
  one bit, zeros and its length in bits.
\<close>

theorem md5_of_pieces:
  assumes "\<forall>d \<in> set ds. length d \<le> INT32_MAX"
  shows "rbind (md5_append_all bson_md5_init ds) bson_md5_finish = Ok (md5_digest (concat ds))"
  using md5_append_all_ok [OF md5_at_init assms] md5_finish_ok by auto

theorem md5_of_pieces_witness:
  "rbind (md5_append_all bson_md5_init [[0x61], [], [0x62, 0x63]]) bson_md5_finish = Ok (md5_digest [0x61, 0x62, 0x63])"
  using md5_of_pieces [of "[[0x61], [], [0x62, 0x63]]"] by simp

end
