(* ===== verification/Mongoc_Connect.thy ===== *)
theory Mongoc_Connect
  imports Mongoc_Cluster Mongoc_Buffer Bson_Md5
begin

text \<open>
  Talking to a node (\<open>mongoc-cluster.c\<close>): running a command on it, \<open>isMaster\<close>, \<open>ping\<close>, authentication, and
  reconnecting in each of the three modes. The library is built without SSL and SASL, so that the only
  mechanism is MONGODB-CR.

  The functions take a pointer to a node, which is a slot of the cluster or a local variable of
  \<open>_mongoc_cluster_reconnect_replica_set\<close>; the state holds both. Its error is what the functions have
  written to \<open>*error\<close> so far. Timeouts are left out.
\<close>

section \<open>State\<close>

datatype node_ref = Slot nat | Local

record 'w conn =
  cn_cluster :: mongoc_cluster_t
  cn_local :: mongoc_cluster_node_t
  cn_error :: "bson_error_t option"
  cn_world :: 'w

definition the_node :: "node_ref \<Rightarrow> 'w conn \<Rightarrow> mongoc_cluster_node_t" where
  "the_node r s = (case r of Slot i \<Rightarrow> k_nodes (cn_cluster s) ! i | Local \<Rightarrow> cn_local s)"

definition put_node :: "node_ref \<Rightarrow> mongoc_cluster_node_t \<Rightarrow> 'w conn \<Rightarrow> 'w conn" where
  "put_node r n s =
     (case r of
        Slot i \<Rightarrow> s\<lparr>cn_cluster := (cn_cluster s)\<lparr>k_nodes := (k_nodes (cn_cluster s))[i := n]\<rparr>\<rparr>
      | Local \<Rightarrow> s\<lparr>cn_local := n\<rparr>)"

definition fail_with :: "nat \<Rightarrow> nat \<Rightarrow> 'w conn \<Rightarrow> 'w conn" where
  "fail_with domain code s = s\<lparr>cn_error := Some (domain, code)\<rparr>"

abbreviation (input) MONGOC_ERROR_STREAM :: nat where "MONGOC_ERROR_STREAM \<equiv> 2"
abbreviation (input) MONGOC_ERROR_STREAM_SOCKET :: nat where "MONGOC_ERROR_STREAM_SOCKET \<equiv> 4"
abbreviation (input) MONGOC_ERROR_CLIENT_NOT_READY :: nat where "MONGOC_ERROR_CLIENT_NOT_READY \<equiv> 7"
abbreviation (input) MONGOC_ERROR_CLIENT_TOO_BIG :: nat where "MONGOC_ERROR_CLIENT_TOO_BIG \<equiv> 8"
abbreviation (input) MONGOC_ERROR_CLIENT_GETNONCE :: nat where "MONGOC_ERROR_CLIENT_GETNONCE \<equiv> 10"
abbreviation (input) MONGOC_ERROR_CLIENT_AUTHENTICATE :: nat where "MONGOC_ERROR_CLIENT_AUTHENTICATE \<equiv> 11"
abbreviation (input) MONGOC_ERROR_PROTOCOL_BAD_WIRE_VERSION :: nat where "MONGOC_ERROR_PROTOCOL_BAD_WIRE_VERSION \<equiv> 15"

definition disconnect_node :: "'w network \<Rightarrow> node_ref \<Rightarrow> 'w conn \<Rightarrow> 'w conn" where
  "disconnect_node nw r s =
     (let k = cn_cluster s; n = the_node r s; s = put_node r (disconnected (k_requires_auth k) n) s in
      s\<lparr>cn_cluster := mongoc_cluster_update_state (cn_cluster s), cn_world := close_stream nw (n_stream n) (cn_world s)\<rparr>)"

definition destroy_node :: "'w network \<Rightarrow> node_ref \<Rightarrow> 'w conn \<Rightarrow> 'w conn" where
  "destroy_node nw r s =
     (let (n, w) = mongoc_cluster_node_destroy nw (the_node r s) (cn_world s) in (put_node r n s)\<lparr>cn_world := w\<rparr>)"

section \<open>Commands\<close>

text \<open>The bytes that a buffer holds, from its offset on.\<close>

definition buffer_bytes :: "mongoc_buffer_t \<Rightarrow> byte list result" where
  "buffer_bytes b =
     (case bf_data b of None \<Rightarrow> Fault Null_Deref | Some m \<Rightarrow> rbind (cells_read (bf_off b) (bf_len b) m) the_bytes)"

definition read_into ::
    "'w network \<Rightarrow> nat \<Rightarrow> mongoc_buffer_t \<Rightarrow> nat \<Rightarrow> 'w conn \<Rightarrow> (bool \<times> mongoc_buffer_t \<times> 'w conn) result" where
  "read_into nw h b n s =
     rbind (mongoc_buffer_append_from_stream (\<lambda>w. nw_read nw w h) b (cn_world s) n) (\<lambda>(ok, b, w).
       let s = s\<lparr>cn_world := w\<rparr> in
       Ok (ok, b, if ok then s else fail_with MONGOC_ERROR_STREAM MONGOC_ERROR_STREAM_SOCKET s))"

definition empty_buffer :: mongoc_buffer_t where
  "empty_buffer = mongoc_buffer_init \<lparr>bf_data = None, bf_datalen = 0, bf_off = 0, bf_len = 0\<rparr> None 0"

text \<open>The members of a reply, for a message with the opcode of one.\<close>

definition reply_of :: "mongoc_rpc_t \<Rightarrow> mongoc_rpc_reply_t" where
  "reply_of rpc =
     (case rpc of
        [_, Int32 rid, Int32 to, Int32 opcode, Int32 flags, Int64 cursor_id, _, _, Bson_Array docs n] \<Rightarrow>
          \<lparr>rp_opcode = unat opcode, rp_request_id = unat rid, rp_response_to = unat to, rp_flags = flags,
           rp_cursor_id = cursor_id, rp_documents = docs, rp_documents_len = nat n\<rparr>
      | _ \<Rightarrow> zero_reply\<lparr>rp_opcode := rpc_opcode rpc\<rparr>)"

definition command_rpc :: "nat \<Rightarrow> bytes \<Rightarrow> bson_t \<Rightarrow> mongoc_rpc_t" where
  "command_rpc request_id db command =
     [Int32 0, Int32 (of_nat request_id), Int32 0, Int32 2004, Int32 (set_bit MONGOC_QUERY_SLAVE_OK 0),
      CString (Some (snprintf MONGOC_NAMESPACE_MAX (db @ chars ''.$cmd''))), Int32 0, Int32 (- 1),
      Bson (Some (bson_get_data command)), Bson None]"

text \<open>
  Receiving the reply of a command: the message, or \<open>None\<close> for the label \<open>failure\<close>, where the error has
  been set (\<open>invalid_reply\<close> sets it first).
\<close>

definition invalid_reply :: "'w conn \<Rightarrow> 'w conn" where
  "invalid_reply = fail_with MONGOC_ERROR_PROTOCOL MONGOC_ERROR_PROTOCOL_INVALID_REPLY"

definition command_reply :: "'w network \<Rightarrow> nat \<Rightarrow> 'w conn \<Rightarrow> (mongoc_rpc_t option \<times> 'w conn) result" where
  "command_reply nw h s =
     rbind (read_into nw h empty_buffer 4 s) (\<lambda>(ok, b, s).
     if \<not> ok then Ok (None, s)
     else if bf_len b \<noteq> 4 then Fault Assertion_Failed
     else rbind (buffer_bytes b) (\<lambda>bs.
       let msg_len = as_int32 (le_nat bs) in
       if msg_len < 16 \<or> 1024 * 1024 * 16 < msg_len then Ok (None, invalid_reply s)
       else rbind (read_into nw h b (nat msg_len - 4) s) (\<lambda>(ok, b, s).
         if \<not> ok then Ok (None, s)
         else rbind (buffer_bytes b) (\<lambda>bs.
           rbind (mongoc_rpc_scatter bs (bf_len b)) (\<lambda>r. case r of
             None \<Rightarrow> Ok (None, invalid_reply s)
           | Some rpc \<Rightarrow> if rpc_opcode rpc \<noteq> MONGOC_OPCODE_REPLY then Ok (None, invalid_reply s) else Ok (Some rpc, s))))))"

text \<open>The document of the reply, if the caller wants it; \<open>None\<close> is the label \<open>failure\<close>.\<close>

definition command_document :: "mongoc_rpc_t \<Rightarrow> bool \<Rightarrow> 'w conn \<Rightarrow> (bson_t option \<times> 'w conn) result" where
  "command_document rpc want s =
     (if \<not> want then Ok (Some bson_init, s)
      else rbind (mongoc_rpc_reply_get_first (reply_of rpc)) (\<lambda>r. case r of
          None \<Rightarrow> Ok (None, fail_with MONGOC_ERROR_BSON MONGOC_ERROR_BSON_INVALID s)
        | Some b \<Rightarrow> rbind (bson_copy_to b) (\<lambda>b. Ok (Some b, s))))"

text \<open>Whether the command ran, and its reply, which is empty after a failure.\<close>

definition command_failure :: "'w network \<Rightarrow> node_ref \<Rightarrow> 'w conn \<Rightarrow> (bool \<times> bson_t \<times> 'w conn) result" where
  "command_failure nw r s = Ok (False, bson_init, disconnect_node nw r s)"

definition command_result ::
    "'w network \<Rightarrow> node_ref \<Rightarrow> nat \<Rightarrow> bool \<Rightarrow> 'w conn \<Rightarrow> (bool \<times> bson_t \<times> 'w conn) result" where
  "command_result nw r h want s =
     rbind (command_reply nw h s) (\<lambda>(rpc, s). case rpc of
         None \<Rightarrow> command_failure nw r s
       | Some rpc \<Rightarrow> rbind (command_document rpc want s) (\<lambda>(b, s). case b of
             None \<Rightarrow> command_failure nw r s
           | Some b \<Rightarrow> Ok (True, b, s)))"

definition mongoc_cluster_run_command ::
    "'w network \<Rightarrow> node_ref \<Rightarrow> bytes \<Rightarrow> bson_t \<Rightarrow> bool \<Rightarrow> 'w conn \<Rightarrow> (bool \<times> bson_t \<times> 'w conn) result" where
  "mongoc_cluster_run_command nw r db command want s =
     (case n_stream (the_node r s) of
        None \<Rightarrow> Fault Assertion_Failed
      | Some h \<Rightarrow>
          let k = cn_cluster s; rid = w32 (k_request_id k + 1); s = s\<lparr>cn_cluster := k\<lparr>k_request_id := rid\<rparr>\<rparr> in
          rbind (mongoc_rpc_gather 2004 (command_rpc rid db command)) (\<lambda>(_, iov).
          rbind (nw_writev nw (cn_world s) h iov) (\<lambda>(n, w).
            let s = s\<lparr>cn_world := w\<rparr> in if n = 0 then command_failure nw r s else command_result nw r h want s)))"

definition one_command :: "string \<Rightarrow> bson_t result" where
  "one_command name = rbind (bson_append_int32 bson_init (Some (ascii name)) (int (length name)) 1) (\<lambda>(_, b). Ok b)"

section \<open>isMaster and ping\<close>

definition find_int32 :: "bson_t \<Rightarrow> string \<Rightarrow> bool \<Rightarrow> int option result" where
  "find_int32 reply key only_int32 =
     rbind (bson_iter_init_find_case reply (ascii key)) (\<lambda>(found, it).
     rbind (if found \<and> only_int32 then iter_holds it BSON_TYPE_INT32 else Ok found) (\<lambda>use.
       if use then rbind (bson_iter_int32 it) (\<lambda>v. Ok (Some (sint v))) else Ok None))"

definition smaller_size :: "int option \<Rightarrow> int \<Rightarrow> int" where
  "smaller_size v old = (case v of None \<Rightarrow> old | Some v \<Rightarrow> if old = 0 \<or> v < old then v else old)"

text \<open>The fields of the reply up to the wire versions.\<close>

definition ismaster_primary :: "bson_t \<Rightarrow> bool result" where
  "ismaster_primary reply =
     rbind (bson_iter_init_find_case reply (ascii ''isMaster'')) (\<lambda>(found, it).
     rbind (if found then iter_holds it BSON_TYPE_BOOL else Ok False) (\<lambda>h. if h then bson_iter_bool it else Ok False))"

definition ismaster_numbers ::
    "bson_t \<Rightarrow> mongoc_cluster_t \<times> mongoc_cluster_node_t \<Rightarrow> (mongoc_cluster_t \<times> mongoc_cluster_node_t) result" where
  "ismaster_numbers reply s =
     (let (k, n) = s in
      rbind (find_int32 reply ''maxMessageSizeBytes'' False) (\<lambda>msg.
      rbind (find_int32 reply ''maxBsonObjectSize'' False) (\<lambda>bson.
      rbind (find_int32 reply ''maxWriteBatchSize'' False) (\<lambda>batch.
      rbind (find_int32 reply ''maxWireVersion'' True) (\<lambda>maxw.
      rbind (find_int32 reply ''minWireVersion'' True) (\<lambda>minw.
        Ok (k\<lparr>k_max_msg_size := smaller_size msg (k_max_msg_size k), k_max_bson_size := smaller_size bson (k_max_bson_size k)\<rparr>,
            n\<lparr>n_max_write_batch_size := (case batch of None \<Rightarrow> n_max_write_batch_size n | Some v \<Rightarrow> v),
              n_max_wire_version := (case maxw of None \<Rightarrow> n_max_wire_version n | Some v \<Rightarrow> v),
              n_min_wire_version := (case minw of None \<Rightarrow> n_min_wire_version n | Some v \<Rightarrow> v)\<rparr>)))))))"

abbreviation (input) MIN_WIRE_VERSION :: int where "MIN_WIRE_VERSION \<equiv> 0"
abbreviation (input) MAX_WIRE_VERSION :: int where "MAX_WIRE_VERSION \<equiv> 2"

definition ismaster_dbgrid :: "bson_t \<Rightarrow> bool result" where
  "ismaster_dbgrid reply =
     rbind (bson_iter_init_find reply (ascii ''msg'')) (\<lambda>(found, it).
     rbind (if found then iter_holds it BSON_TYPE_UTF8 else Ok False) (\<lambda>u.
       if u then rbind (bson_iter_utf8 it) (\<lambda>(s, _). rbind (deref s) (c_strcasecmp_eq (ascii ''isdbgrid'')))
       else Ok False))"

fun add_peers :: "nat \<Rightarrow> bson_iter_t \<Rightarrow> mongoc_cluster_t \<Rightarrow> mongoc_cluster_t result" where
  "add_peers 0 it k = Fault No_Termination"
| "add_peers (Suc fuel) it k =
     rbind (bson_iter_next it) (\<lambda>(more, it).
     rbind (if more then iter_holds it BSON_TYPE_UTF8 else Ok False) (\<lambda>u.
       if \<not> u then Ok k
       else rbind (bson_iter_utf8 it) (\<lambda>(s, _). rbind (deref s) (\<lambda>s. rbind (c_string s) (\<lambda>peer.
         add_peers fuel it (mongoc_cluster_add_peer k peer))))))"

definition ismaster_hosts :: "bson_t \<Rightarrow> bool \<Rightarrow> mongoc_cluster_t \<Rightarrow> mongoc_cluster_t result" where
  "ismaster_hosts reply primary k =
     rbind (bson_iter_init_find reply (ascii ''hosts'')) (\<lambda>(found, it).
     rbind (if found then bson_iter_recurse it else Ok None) (\<lambda>child. case child of
         None \<Rightarrow> Ok k
       | Some child \<Rightarrow> add_peers (iter_fuel child) child (if primary then mongoc_cluster_clear_peers k else k)))"

definition ismaster_set_name :: "bson_t \<Rightarrow> bytes option result" where
  "ismaster_set_name reply =
     rbind (bson_iter_init_find reply (ascii ''setName'')) (\<lambda>(found, it).
     rbind (if found then iter_holds it BSON_TYPE_UTF8 else Ok False) (\<lambda>u.
       if u then rbind (bson_iter_dup_utf8 it) (\<lambda>(s, _). Ok s) else Ok None))"

definition ismaster_set :: "bson_t \<Rightarrow> mongoc_cluster_t \<Rightarrow> mongoc_cluster_node_t \<Rightarrow> (bool \<times> mongoc_cluster_t \<times> mongoc_cluster_node_t) result" where
  "ismaster_set reply k n =
     (if k_mode k \<noteq> MONGOC_CLUSTER_REPLICA_SET then Ok (True, k, n)
      else
        rbind (ismaster_hosts reply (n_primary n) k) (\<lambda>k.
        rbind (ismaster_set_name reply) (\<lambda>name.
          Ok (True, k, if name = None then n else n\<lparr>n_replSet := name\<rparr>))))"

text \<open>What the function does with the reply; the flag says whether the wire versions are acceptable.\<close>

definition ismaster_reply ::
    "bson_t \<Rightarrow> mongoc_cluster_t \<times> mongoc_cluster_node_t \<Rightarrow> (bool \<times> mongoc_cluster_t \<times> mongoc_cluster_node_t) result" where
  "ismaster_reply reply s =
     (let (k, n) = s in
      rbind (ismaster_primary reply) (\<lambda>primary.
      rbind (ismaster_numbers reply (k, n\<lparr>n_primary := primary, n_replSet := None\<rparr>)) (\<lambda>(k, n).
      if MAX_WIRE_VERSION < n_min_wire_version n \<or> n_max_wire_version n < MIN_WIRE_VERSION then Ok (False, k, n)
      else
        rbind (ismaster_dbgrid reply) (\<lambda>grid. ismaster_set reply k (n\<lparr>n_isdbgrid := grid\<rparr>)))))"

definition mongoc_cluster_ismaster :: "'w network \<Rightarrow> node_ref \<Rightarrow> 'w conn \<Rightarrow> (bool \<times> 'w conn) result" where
  "mongoc_cluster_ismaster nw r s =
     (if n_stream (the_node r s) = None then Fault Assertion_Failed
      else rbind (one_command ''isMaster'') (\<lambda>command.
        rbind (mongoc_cluster_run_command nw r (chars ''admin'') command True s) (\<lambda>(ok, reply, s).
          if \<not> ok then Ok (False, disconnect_node nw r s)
          else rbind (ismaster_reply reply (cn_cluster s, the_node r s)) (\<lambda>(good, k, n).
            let s = put_node r n (s\<lparr>cn_cluster := k\<rparr>) in
            Ok (good, if good then s else fail_with MONGOC_ERROR_PROTOCOL MONGOC_ERROR_PROTOCOL_BAD_WIRE_VERSION s)))))"

definition mongoc_cluster_ping_node :: "'w network \<Rightarrow> node_ref \<Rightarrow> 'w conn \<Rightarrow> (int \<times> 'w conn) result" where
  "mongoc_cluster_ping_node nw r s =
     (if n_stream (the_node r s) = None then Fault Assertion_Failed
      else rbind (one_command ''ping'') (\<lambda>cmd.
        let (t_begin, w) = nw_time nw (cn_world s) in
        rbind (mongoc_cluster_run_command nw r (chars ''admin'') cmd False (s\<lparr>cn_world := w\<rparr>)) (\<lambda>(ok, _, s).
          let (t_end, w) = nw_time nw (cn_world s) in
          Ok (if ok then as_int32 (nat (truncated_quotient (t_end - t_begin) 1000 mod 4294967296)) else - 1, s\<lparr>cn_world := w\<rparr>))))"


section \<open>Authentication\<close>

text \<open>\<open>%s\<close> of a NULL pointer is undefined.\<close>

definition format_string :: "view option \<Rightarrow> bytes result" where
  "format_string s = rbind (deref s) c_string"

definition mongoc_cluster_build_basic_auth_digest :: "mongoc_cluster_t \<Rightarrow> view option \<Rightarrow> view result" where
  "mongoc_cluster_build_basic_auth_digest k nonce =
     (case k_uri k of
        None \<Rightarrow> Fault Assertion_Failed
      | Some uri \<Rightarrow>
          rbind (format_string (u_username uri)) (\<lambda>username.
          rbind (format_string (u_password uri)) (\<lambda>password.
          rbind (mongoc_hex_md5 (username @ chars '':mongo:'' @ password @ [0])) (\<lambda>password_md5.
          rbind (format_string nonce) (\<lambda>nonce.
          rbind (c_string password_md5) (\<lambda>md5. mongoc_hex_md5 (nonce @ username @ md5 @ [0])))))))"

definition auth_source :: "mongoc_cluster_t \<Rightarrow> bytes result" where
  "auth_source k =
     rbind (case k_uri k of None \<Rightarrow> Ok None | Some uri \<Rightarrow> mongoc_uri_get_auth_source uri) (\<lambda>src.
     rbind (case src of None \<Rightarrow> Ok [] | Some v \<Rightarrow> c_string v) (\<lambda>t. Ok (if t = [] then chars ''admin'' else t)))"

definition authenticate_command :: "mongoc_cluster_t \<Rightarrow> view option \<Rightarrow> view \<Rightarrow> bson_t result" where
  "authenticate_command k nonce digest =
     rbind (bson_append_int32 bson_init (Some (ascii ''authenticate'')) 12 1) (\<lambda>(_, b).
     rbind (bson_append_utf8 b (Some (ascii ''user'')) 4 (case k_uri k of None \<Rightarrow> None | Some uri \<Rightarrow> u_username uri) (- 1)) (\<lambda>(_, b).
     rbind (bson_append_utf8 b (Some (ascii ''nonce'')) 5 nonce (- 1)) (\<lambda>(_, b).
     rbind (bson_append_utf8 b (Some (ascii ''key'')) 3 (Some digest) (- 1)) (\<lambda>(_, b). Ok b))))"

definition reply_is_ok :: "bson_t \<Rightarrow> bool result" where
  "reply_is_ok reply =
     rbind (bson_iter_init_find_case reply (ascii ''ok'')) (\<lambda>(found, it). if found then bson_iter_as_bool it else Ok False)"

definition mongoc_cluster_auth_node_cr :: "'w network \<Rightarrow> node_ref \<Rightarrow> 'w conn \<Rightarrow> (bool \<times> 'w conn) result" where
  "mongoc_cluster_auth_node_cr nw r s =
     rbind (auth_source (cn_cluster s)) (\<lambda>src.
     rbind (one_command ''getnonce'') (\<lambda>command.
     rbind (mongoc_cluster_run_command nw r src command True s) (\<lambda>(ok, reply, s).
       if \<not> ok then Ok (False, s)
       else rbind (bson_iter_init_find_case reply (ascii ''nonce'')) (\<lambda>(found, it).
         if \<not> found then Ok (False, fail_with MONGOC_ERROR_CLIENT MONGOC_ERROR_CLIENT_GETNONCE s)
         else rbind (bson_iter_dup_utf8 it) (\<lambda>(nonce, _).
           let nonce = map_option (\<lambda>t. t @ [0]) nonce in
           rbind (mongoc_cluster_build_basic_auth_digest (cn_cluster s) nonce) (\<lambda>digest.
           rbind (authenticate_command (cn_cluster s) nonce digest) (\<lambda>command.
           rbind (mongoc_cluster_run_command nw r src command True s) (\<lambda>(ok, reply, s).
             if \<not> ok then Ok (False, s)
             else rbind (reply_is_ok reply) (\<lambda>ok.
               if ok then Ok (True, s)
               else Ok (False, fail_with MONGOC_ERROR_CLIENT MONGOC_ERROR_CLIENT_AUTHENTICATE s)))))))))) "

definition mongoc_cluster_auth_node :: "'w network \<Rightarrow> node_ref \<Rightarrow> 'w conn \<Rightarrow> (bool \<times> 'w conn) result" where
  "mongoc_cluster_auth_node nw r s =
     rbind (case k_uri (cn_cluster s) of None \<Rightarrow> Ok None | Some uri \<Rightarrow> mongoc_uri_get_auth_mechanism uri) (\<lambda>mechanism.
     rbind (c_strcasecmp_eq (case mechanism of None \<Rightarrow> lit ''MONGODB-CR'' | Some m \<Rightarrow> m) (lit ''MONGODB-CR'')) (\<lambda>cr.
       if cr then mongoc_cluster_auth_node_cr nw r s
       else Ok (False, fail_with MONGOC_ERROR_CLIENT MONGOC_ERROR_CLIENT_AUTHENTICATE s)))"

section \<open>Reconnecting\<close>

definition uri_hosts :: "mongoc_cluster_t \<Rightarrow> mongoc_host_list_t list" where
  "uri_hosts k = (case k_uri k of None \<Rightarrow> [] | Some uri \<Rightarrow> u_hosts uri)"

definition create_stream :: "'w network \<Rightarrow> mongoc_host_list_t \<Rightarrow> 'w conn \<Rightarrow> nat option \<times> 'w conn" where
  "create_stream nw host s =
     (case nw_connect nw (cn_world s) host of
        (Inl e, w) \<Rightarrow> (None, s\<lparr>cn_error := Some e, cn_world := w\<rparr>)
      | (Inr h, w) \<Rightarrow> (Some h, s\<lparr>cn_world := w\<rparr>))"

definition note_reconnect :: "'w network \<Rightarrow> 'w conn \<Rightarrow> 'w conn" where
  "note_reconnect nw s =
     (let (t, w) = nw_time nw (cn_world s) in s\<lparr>cn_cluster := (cn_cluster s)\<lparr>k_last_reconnect := t\<rparr>, cn_world := w\<rparr>)"

definition update_state :: "'w conn \<Rightarrow> 'w conn" where
  "update_state s = s\<lparr>cn_cluster := mongoc_cluster_update_state (cn_cluster s)\<rparr>"

text \<open>Authentication when the node needs it, with what is done to the node when it fails.\<close>

definition authenticated ::
    "'w network \<Rightarrow> node_ref \<Rightarrow> (node_ref \<Rightarrow> 'w conn \<Rightarrow> 'w conn) \<Rightarrow> 'w conn \<Rightarrow> (bool \<times> 'w conn) result" where
  "authenticated nw r undo s =
     (if \<not> n_needs_auth (the_node r s) then Ok (True, s)
      else rbind (mongoc_cluster_auth_node nw r s) (\<lambda>(ok, s).
        if \<not> ok then Ok (False, undo r s)
        else Ok (True, put_node r ((the_node r s)\<lparr>n_needs_auth := False\<rparr>) s)))"

definition direct_node :: "bool \<Rightarrow> mongoc_host_list_t \<Rightarrow> mongoc_cluster_node_t \<Rightarrow> mongoc_cluster_node_t" where
  "direct_node requires_auth host n =
     n\<lparr>n_index := 0, n_host := host, n_needs_auth := requires_auth, n_primary := False, n_ping_avg_msec := - 1,
       n_pings := no_pings, n_pings_pos := 0, n_stream := None, n_stamp := w32 (n_stamp n + 1), n_tags := bson_init\<rparr>"

definition mongoc_cluster_reconnect_direct :: "'w network \<Rightarrow> 'w conn \<Rightarrow> (bool \<times> 'w conn) result" where
  "mongoc_cluster_reconnect_direct nw s =
     (case uri_hosts (cn_cluster s) of
        [] \<Rightarrow> Ok (False, fail_with MONGOC_ERROR_CLIENT MONGOC_ERROR_CLIENT_NOT_READY s)
      | host # _ \<Rightarrow>
          let s = note_reconnect nw s; r = Slot 0;
              s = put_node r (direct_node (k_requires_auth (cn_cluster s)) host (the_node r s)) s;
              (stream, s) = create_stream nw host s
          in case stream of
               None \<Rightarrow> Ok (False, s)
             | Some h \<Rightarrow>
                 let n = the_node r s; s = put_node r (n\<lparr>n_stream := Some h, n_stamp := w32 (n_stamp n + 1)\<rparr>) s in
                 rbind (mongoc_cluster_ismaster nw r s) (\<lambda>(ok, s).
                   if \<not> ok then Ok (False, disconnect_node nw r s)
                   else rbind (authenticated nw r (disconnect_node nw) s) (\<lambda>(ok, s).
                     if \<not> ok then Ok (False, s) else Ok (True, update_state s))))"

text \<open>The seeds are asked for the peers, until a primary answers.\<close>

fun ask_seeds :: "'w network \<Rightarrow> mongoc_host_list_t list \<Rightarrow> 'w conn \<Rightarrow> 'w conn result" where
  "ask_seeds nw [] s = Ok s"
| "ask_seeds nw (host # hosts) s =
     (let (stream, s) = create_stream nw host s in
      case stream of
        None \<Rightarrow> ask_seeds nw hosts s
      | Some h \<Rightarrow>
          rbind (mongoc_cluster_ismaster nw Local
                   (put_node Local (mongoc_cluster_node_init\<lparr>n_host := host, n_stream := Some h\<rparr>) s)) (\<lambda>(ok, s).
            let primary = n_primary (cn_local s); s = destroy_node nw Local s in
            if ok \<and> primary then Ok s else ask_seeds nw hosts s))"

text \<open>The connections that are kept, by the text of their host.\<close>

definition save_nodes :: "mongoc_cluster_node_t list \<Rightarrow> (bytes \<times> nat option) list" where
  "save_nodes ns = map (\<lambda>n. if n_stream n \<noteq> None then (h_host_and_port (n_host n), n_stream n) else ([], None)) ns"

fun take_saved :: "bytes \<Rightarrow> (bytes \<times> nat option) list \<Rightarrow> nat option \<Rightarrow> nat option \<times> (bytes \<times> nat option) list" where
  "take_saved host [] stream = (stream, [])"
| "take_saved host ((h, st) # saved) stream =
     (if h = host then (let (r, saved) = take_saved host saved st in (r, (h, None) # saved))
      else (let (r, saved) = take_saved host saved stream in (r, (h, st) # saved)))"

definition new_node :: "bool \<Rightarrow> mongoc_host_list_t \<Rightarrow> nat \<Rightarrow> nat \<Rightarrow> mongoc_cluster_node_t" where
  "new_node requires_auth host i h =
     mongoc_cluster_node_init\<lparr>n_host := host, n_index := i, n_stream := Some h, n_needs_auth := requires_auth\<rparr>"

text \<open>
  What is done with a node that was connected, after \<open>isMaster\<close> and a check of its own: \<open>Some True\<close> if it
  stays in its slot, \<open>Some False\<close> if the loop goes on with the slot free, \<open>None\<close> for \<open>return false\<close>.
\<close>

definition admit_node ::
    "'w network \<Rightarrow> nat \<Rightarrow> (mongoc_cluster_node_t \<Rightarrow> bool) \<Rightarrow> 'w conn \<Rightarrow> (bool option \<times> 'w conn) result" where
  "admit_node nw i accept s =
     (let r = Slot i in
      rbind (mongoc_cluster_ismaster nw r s) (\<lambda>(ok, s).
      if \<not> ok \<or> \<not> accept (the_node r s) then Ok (Some False, destroy_node nw r s)
      else rbind (authenticated nw r (destroy_node nw) s) (\<lambda>(ok, s).
        if \<not> ok then Ok (None, s)
        else rbind (mongoc_cluster_ping_node nw r s) (\<lambda>(ping, s).
          if ping = - 1 then Ok (Some False, destroy_node nw r s)
          else rbind (mongoc_cluster_node_track_ping (the_node r s) ping) (\<lambda>n. Ok (Some True, put_node r n s))))))"

fun connect_peers ::
    "'w network \<Rightarrow> bytes \<Rightarrow> bytes list \<Rightarrow> nat \<Rightarrow> (bytes \<times> nat option) list \<Rightarrow> 'w conn
      \<Rightarrow> (nat option \<times> (bytes \<times> nat option) list \<times> 'w conn) result" where
  "connect_peers nw replSet [] i saved s = Ok (Some i, saved, s)"
| "connect_peers nw replSet (peer # peers) i saved s =
     (if MONGOC_CLUSTER_MAX_NODES \<le> i then Ok (Some i, saved, s)
      else rbind (mongoc_host_list_from_string (peer @ [0])) (\<lambda>host. case host of
          None \<Rightarrow> connect_peers nw replSet peers i saved s
        | Some host \<Rightarrow>
            let (stream, saved) = take_saved (h_host_and_port host) saved None;
                (stream, s) = (if stream = None then create_stream nw host s else (stream, s))
            in case stream of
                 None \<Rightarrow> connect_peers nw replSet peers i saved s
               | Some h \<Rightarrow>
                   rbind (admit_node nw i (\<lambda>n. n_replSet n = Some replSet)
                            (put_node (Slot i) (new_node (k_requires_auth (cn_cluster s)) host i h) s)) (\<lambda>(r, s).
                     case r of
                       None \<Rightarrow> Ok (None, saved, s)
                     | Some True \<Rightarrow> connect_peers nw replSet peers (i + 1) saved s
                     | Some False \<Rightarrow> connect_peers nw replSet peers i saved s)))"

definition close_saved :: "'w network \<Rightarrow> (bytes \<times> nat option) list \<Rightarrow> 'w \<Rightarrow> 'w" where
  "close_saved nw saved w = fold (close_stream nw \<circ> snd) saved w"

definition finish_replica_set ::
    "'w network \<Rightarrow> nat option \<times> (bytes \<times> nat option) list \<times> 'w conn \<Rightarrow> (bool \<times> 'w conn) result" where
  "finish_replica_set nw r =
     (case r of
        (None, saved, s) \<Rightarrow> Ok (False, s)
      | (Some i, saved, s) \<Rightarrow>
          let s = s\<lparr>cn_world := close_saved nw saved (cn_world s)\<rparr> in
          if i = 0 then Ok (False, fail_with MONGOC_ERROR_CLIENT MONGOC_ERROR_CLIENT_NO_ACCEPTABLE_PEER s)
          else Ok (True, update_state s))"

definition no_nodes :: "mongoc_cluster_t \<Rightarrow> mongoc_cluster_t" where
  "no_nodes k = k\<lparr>k_peers := [], k_nodes := map (\<lambda>n. n\<lparr>n_stream := None\<rparr>) (k_nodes k)\<rparr>"

definition mongoc_cluster_reconnect_replica_set :: "'w network \<Rightarrow> 'w conn \<Rightarrow> (bool \<times> 'w conn) result" where
  "mongoc_cluster_reconnect_replica_set nw s =
     (let hosts = uri_hosts (cn_cluster s) in
      if k_mode (cn_cluster s) \<noteq> MONGOC_CLUSTER_REPLICA_SET then Fault Assertion_Failed
      else if hosts = [] then Ok (False, fail_with MONGOC_ERROR_CLIENT MONGOC_ERROR_CLIENT_NOT_READY s)
      else
        rbind (case k_uri (cn_cluster s) of None \<Rightarrow> Ok None | Some uri \<Rightarrow> mongoc_uri_get_replica_set uri) (\<lambda>rs. case rs of
          None \<Rightarrow> Fault Assertion_Failed
        | Some v \<Rightarrow> rbind (c_string v) (\<lambda>replSet.
            let s = note_reconnect nw s; s = s\<lparr>cn_cluster := mongoc_cluster_clear_peers (cn_cluster s)\<rparr> in
            rbind (ask_seeds nw hosts s) (\<lambda>s.
            rbind (connect_peers nw replSet (k_peers (cn_cluster s)) 0 (save_nodes (k_nodes (cn_cluster s)))
                     (s\<lparr>cn_cluster := no_nodes (cn_cluster s)\<rparr>)) (finish_replica_set nw)))))"

text \<open>
  In a sharded cluster every host of the URI gets the next slot; nothing bounds their number. When the
  first one turns out to belong to a replica set, the function goes over to the other mode: \<open>Inl\<close>.
\<close>

definition wrong_mode :: "mongoc_cluster_node_t \<Rightarrow> mongoc_cluster_t \<Rightarrow> bool result" where
  "wrong_mode n k =
     rbind (case k_uri k of None \<Rightarrow> Ok None | Some uri \<Rightarrow> mongoc_uri_get_replica_set uri) (\<lambda>rs.
       Ok (\<not> n_isdbgrid n \<and> rs = None \<and> n_replSet n \<noteq> None))"

fun connect_shards ::
    "'w network \<Rightarrow> mongoc_host_list_t list \<Rightarrow> nat \<Rightarrow> 'w conn \<Rightarrow> (('w conn + nat option \<times> 'w conn)) result" where
  "connect_shards nw [] i s = Ok (Inr (Some i, s))"
| "connect_shards nw (host # hosts) i s =
     (let (stream, s) = create_stream nw host s in
      case stream of
        None \<Rightarrow> connect_shards nw hosts i s
      | Some h \<Rightarrow>
          if MONGOC_CLUSTER_MAX_NODES \<le> i then Fault Out_Of_Bounds
          else rbind (admit_node nw i (\<lambda>_. True)
                 (put_node (Slot i) (new_node (k_requires_auth (cn_cluster s)) host i h) s)) (\<lambda>(r, s).
            case r of
              None \<Rightarrow> Ok (Inr (None, s))
            | Some False \<Rightarrow> connect_shards nw hosts i s
            | Some True \<Rightarrow>
                rbind (if i = 0 then wrong_mode (the_node (Slot 0) s) (cn_cluster s) else Ok False) (\<lambda>wrong.
                  if wrong then Ok (Inl s) else connect_shards nw hosts (i + 1) s)))"

definition finish_sharded :: "'w network \<Rightarrow> 'w conn + nat option \<times> 'w conn \<Rightarrow> (bool \<times> 'w conn) result" where
  "finish_sharded nw r =
     (case r of
        Inl s \<Rightarrow>
          mongoc_cluster_reconnect_replica_set nw
            (s\<lparr>cn_cluster := (cn_cluster s)\<lparr>k_mode := MONGOC_CLUSTER_REPLICA_SET, k_replSet := n_replSet (the_node (Slot 0) s)\<rparr>\<rparr>)
      | Inr (None, s) \<Rightarrow> Ok (False, s)
      | Inr (Some i, s) \<Rightarrow>
          if i = 0 then Ok (False, fail_with MONGOC_ERROR_CLIENT MONGOC_ERROR_CLIENT_NO_ACCEPTABLE_PEER s)
          else Ok (True, update_state s))"

definition mongoc_cluster_reconnect_sharded_cluster :: "'w network \<Rightarrow> 'w conn \<Rightarrow> (bool \<times> 'w conn) result" where
  "mongoc_cluster_reconnect_sharded_cluster nw s =
     (let s = note_reconnect nw s in rbind (connect_shards nw (uri_hosts (cn_cluster s)) 0 s) (finish_sharded nw))"

definition close_nodes :: "'w network \<Rightarrow> 'w conn \<Rightarrow> 'w conn" where
  "close_nodes nw s =
     (let k = cn_cluster s in
      s\<lparr>cn_cluster := k\<lparr>k_nodes := map (\<lambda>n. n\<lparr>n_stream := None\<rparr>) (k_nodes k)\<rparr>,
        cn_world := fold (close_stream nw \<circ> n_stream) (k_nodes k) (cn_world s)\<rparr>)"

definition mongoc_cluster_reconnect :: "'w network \<Rightarrow> 'w conn \<Rightarrow> (bool \<times> 'w conn) result" where
  "mongoc_cluster_reconnect nw s =
     (let s = update_state (close_nodes nw s) in
      case k_mode (cn_cluster s) of
        MONGOC_CLUSTER_DIRECT \<Rightarrow> mongoc_cluster_reconnect_direct nw s
      | MONGOC_CLUSTER_REPLICA_SET \<Rightarrow> mongoc_cluster_reconnect_replica_set nw s
      | MONGOC_CLUSTER_SHARDED_CLUSTER \<Rightarrow> mongoc_cluster_reconnect_sharded_cluster nw s)"

definition mongoc_cluster_command_early ::
    "'w network \<Rightarrow> bytes \<Rightarrow> bson_t \<Rightarrow> bool \<Rightarrow> 'w conn \<Rightarrow> (bool \<times> bson_t \<times> 'w conn) result" where
  "mongoc_cluster_command_early nw dbname command want s =
     (if k_state (cn_cluster s) \<noteq> MONGOC_CLUSTER_STATE_BORN then Fault Assertion_Failed
      else rbind (mongoc_cluster_reconnect nw s) (\<lambda>(ok, s).
        if \<not> ok then Ok (False, bson_init, s)
        else
          let node = (case mongoc_cluster_get_primary (cn_cluster s) of Some i \<Rightarrow> Some i
                      | None \<Rightarrow> find_index (\<lambda>n. n_stream n \<noteq> None) 0 (k_nodes (cn_cluster s)))
          in case node of
               None \<Rightarrow> Fault Assertion_Failed
             | Some i \<Rightarrow> mongoc_cluster_run_command nw (Slot i) dbname command want s))"

section \<open>Connections are authenticated\<close>

text \<open>What an operation on one node leaves alone.\<close>

definition only :: "node_ref \<Rightarrow> 'w conn \<Rightarrow> 'w conn \<Rightarrow> bool" where
  "only r s s' \<longleftrightarrow> length (k_nodes (cn_cluster s')) = length (k_nodes (cn_cluster s))
     \<and> k_requires_auth (cn_cluster s') = k_requires_auth (cn_cluster s)
     \<and> (\<forall>j. r \<noteq> Slot j \<longrightarrow> k_nodes (cn_cluster s') ! j = k_nodes (cn_cluster s) ! j)"

definition in_range :: "node_ref \<Rightarrow> 'w conn \<Rightarrow> bool" where
  "in_range r s \<longleftrightarrow> (case r of Slot i \<Rightarrow> i < length (k_nodes (cn_cluster s)) | Local \<Rightarrow> True)"

lemma only_refl [simp]: "only r s s"
  by (simp add: only_def)

lemma only_trans: "only r s s' \<Longrightarrow> only r s' s'' \<Longrightarrow> only r s s''"
  by (simp add: only_def)

lemma only_in_range: "only r s s' \<Longrightarrow> in_range r s' = in_range r s"
  by (auto simp: only_def in_range_def split: node_ref.splits)

lemma only_world [simp]: "only r s (s'\<lparr>cn_world := w\<rparr>) = only r s s'" "only r s (s'\<lparr>cn_error := e\<rparr>) = only r s s'"
  "the_node r (s\<lparr>cn_world := w\<rparr>) = the_node r s" "the_node r (s\<lparr>cn_error := e\<rparr>) = the_node r s"
  by (simp_all add: only_def the_node_def split: node_ref.splits)

lemma only_put_node [simp]: "only r s (put_node r n s)"
  by (auto simp: only_def put_node_def split: node_ref.splits)

lemma the_node_put [simp]: "in_range r s \<Longrightarrow> the_node r (put_node r n s) = n"
  by (auto simp: the_node_def put_node_def in_range_def split: node_ref.splits)

lemma only_fail [simp]: "only r s (fail_with d c s') = only r s s'" "the_node r (fail_with d c s) = the_node r s"
  by (simp_all add: fail_with_def)

lemma only_disconnect [simp]: "only r s (disconnect_node nw r s)"
  using only_put_node [of r s] by (simp add: disconnect_node_def only_def Let_def)

lemma disconnect_no_stream: "in_range r s \<Longrightarrow> n_stream (the_node r (disconnect_node nw r s)) = None"
  using the_node_put [of r s "disconnected (k_requires_auth (cn_cluster s)) (the_node r s)"]
  by (cases r) (auto simp: disconnect_node_def Let_def the_node_def disconnected_def)

lemma only_destroy [simp]: "only r s (destroy_node nw r s)"
  by (simp add: destroy_node_def split: prod.split)

lemma destroy_no_stream: "in_range r s \<Longrightarrow> n_stream (the_node r (destroy_node nw r s)) = None"
  by (auto simp: destroy_node_def mongoc_cluster_node_destroy_def split: prod.split)

definition unchanged :: "'w conn \<Rightarrow> 'w conn \<Rightarrow> bool" where
  "unchanged s s' \<longleftrightarrow> k_nodes (cn_cluster s') = k_nodes (cn_cluster s) \<and> cn_local s' = cn_local s
     \<and> k_requires_auth (cn_cluster s') = k_requires_auth (cn_cluster s)"

lemma unchanged_only: "unchanged s s' \<Longrightarrow> only r s s'" "unchanged s s' \<Longrightarrow> the_node r s' = the_node r s"
  by (auto simp: unchanged_def only_def the_node_def split: node_ref.splits)

lemma unchanged_simps [simp]: "unchanged s s" "unchanged s (s'\<lparr>cn_world := w\<rparr>) = unchanged s s'"
  "unchanged s (fail_with d c s') = unchanged s s'" "unchanged s (invalid_reply s') = unchanged s s'"
  by (simp_all add: unchanged_def fail_with_def invalid_reply_def)

lemma unchanged_trans: "unchanged s s' \<Longrightarrow> unchanged s' s'' \<Longrightarrow> unchanged s s''"
  by (simp add: unchanged_def)

lemma read_into_unchanged: "read_into nw h b n s = Ok (ok, b', s') \<Longrightarrow> unchanged s s'"
  by (auto simp: read_into_def rbind_Ok_iff Let_def)

definition keeps :: "'w conn \<Rightarrow> ('a \<times> 'w conn) result \<Rightarrow> bool" where
  "keeps s m \<longleftrightarrow> (\<forall>r s'. m = Ok (r, s') \<longrightarrow> unchanged s s')"

lemma keeps_simps [simp]: "keeps s (Ok (r, s')) = unchanged s s'" "keeps s (Fault e)"
  by (simp_all add: keeps_def)

lemma keeps_rbind: "(\<And>x. m = Ok x \<Longrightarrow> keeps s (f x)) \<Longrightarrow> keeps s (rbind m f)"
  by (auto simp: keeps_def rbind_Ok_iff)

lemma command_reply_unchanged: "command_reply nw h s = Ok (rpc, s') \<Longrightarrow> unchanged s s'"
proof -
  have "keeps s (command_reply nw h s)" unfolding command_reply_def
    by (auto intro!: keeps_rbind dest!: read_into_unchanged simp: Let_def unchanged_def invalid_reply_def fail_with_def split: option.split)
  then show "command_reply nw h s = Ok (rpc, s') \<Longrightarrow> unchanged s s'" by (simp add: keeps_def)
qed

lemma command_document_unchanged: "command_document rpc want s = Ok (b, s') \<Longrightarrow> unchanged s s'"
  by (auto simp: command_document_def rbind_Ok_iff split: if_split_asm option.splits)

lemma command_failure_only:
  assumes "command_failure nw r s1 = Ok (ok, b, s')" "unchanged s s1" "in_range r s"
  shows "only r s s' \<and> \<not> ok \<and> n_stream (the_node r s') = None"
  using assms only_trans [OF unchanged_only(1) [OF assms(2)] only_disconnect]
    disconnect_no_stream only_in_range [OF unchanged_only(1) [OF assms(2)], of r]
  by (auto simp: command_failure_def)

lemma command_result_only:
  assumes "command_result nw r h want s1 = Ok (ok, b, s')" "unchanged s s1" "in_range r s"
  shows "only r s s' \<and> (if ok then the_node r s' = the_node r s else n_stream (the_node r s') = None)"
proof -
  obtain rpc s2 where r: "command_reply nw h s1 = Ok (rpc, s2)"
    "(case rpc of None \<Rightarrow> command_failure nw r s2
      | Some rpc \<Rightarrow> rbind (command_document rpc want s2) (\<lambda>(b, s). case b of
             None \<Rightarrow> command_failure nw r s | Some b \<Rightarrow> Ok (True, b, s))) = Ok (ok, b, s')"
    using assms(1) by (auto simp: command_result_def rbind_Ok_iff)
  have s2: "unchanged s s2" by (rule unchanged_trans [OF assms(2) command_reply_unchanged [OF r(1)]])
  show ?thesis
  proof (cases rpc)
    case None
    then have "command_failure nw r s2 = Ok (ok, b, s')" using r(2) by simp
    from command_failure_only [OF this s2 assms(3)] show ?thesis by simp
  next
    case (Some m)
    then obtain d s3 where d: "command_document m want s2 = Ok (d, s3)"
      "(case d of None \<Rightarrow> command_failure nw r s3 | Some b \<Rightarrow> Ok (True, b, s3)) = Ok (ok, b, s')"
      using r(2) by (auto simp: rbind_Ok_iff)
    have s3: "unchanged s s3" by (rule unchanged_trans [OF s2 command_document_unchanged [OF d(1)]])
    show ?thesis
    proof (cases d)
      case None
      then have "command_failure nw r s3 = Ok (ok, b, s')" using d(2) by simp
      from command_failure_only [OF this s3 assms(3)] show ?thesis by simp
    qed (use d(2) unchanged_only [OF s3] in auto)
  qed
qed

lemma run_command_only:
  assumes "mongoc_cluster_run_command nw r db command want s = Ok (ok, b, s')" "in_range r s"
  shows "only r s s' \<and> (if ok then the_node r s' = the_node r s else n_stream (the_node r s') = None)"
proof -
  from assms(1) obtain h n w rid where g:
    "(if n = (0 :: int) then command_failure nw r (s\<lparr>cn_cluster := (cn_cluster s)\<lparr>k_request_id := rid\<rparr>, cn_world := w\<rparr>)
      else command_result nw r h want (s\<lparr>cn_cluster := (cn_cluster s)\<lparr>k_request_id := rid\<rparr>, cn_world := w\<rparr>)) = Ok (ok, b, s')"
    by (clarsimp simp: mongoc_cluster_run_command_def rbind_Ok_iff Let_def split: option.splits)
  have w: "unchanged s (s\<lparr>cn_cluster := (cn_cluster s)\<lparr>k_request_id := rid\<rparr>, cn_world := w\<rparr>)" by (simp add: unchanged_def)
  show ?thesis
  proof (cases "n = 0")
    case True
    with g command_failure_only [OF _ w assms(2), of nw ok b s'] show ?thesis by simp
  next
    case False
    with g command_result_only [OF _ w assms(2), of nw h want ok b s'] show ?thesis by simp
  qed
qed

text \<open>The steps on a node keep its stream as long as they succeed.\<close>

lemma add_peers_keeps:
  "add_peers fuel it k = Ok k' \<Longrightarrow> k_nodes k' = k_nodes k \<and> k_requires_auth k' = k_requires_auth k"
  by (induction fuel it k rule: add_peers.induct)
    (fastforce simp: rbind_Ok_iff mongoc_cluster_add_peer_def split: if_split_asm)+

lemma ismaster_reply_keeps:
  assumes "ismaster_reply reply (k, n) = Ok (good, k', n')"
  shows "k_nodes k' = k_nodes k \<and> k_requires_auth k' = k_requires_auth k \<and> n_stream n' = n_stream n \<and> n_needs_auth n' = n_needs_auth n"
proof -
  have numbers: "k_nodes k2 = k_nodes k1 \<and> k_requires_auth k2 = k_requires_auth k1 \<and> n_stream n2 = n_stream n1 \<and> n_needs_auth n2 = n_needs_auth n1"
    if "ismaster_numbers reply (k1, n1) = Ok (k2, n2)" for k1 k2 n1 n2
    using that by (auto simp: ismaster_numbers_def rbind_Ok_iff)
  have hosts: "k_nodes k2 = k_nodes k1 \<and> k_requires_auth k2 = k_requires_auth k1" if "ismaster_hosts reply primary k1 = Ok k2" for primary k1 k2
    using that by (cases primary)
      (auto simp: ismaster_hosts_def rbind_Ok_iff mongoc_cluster_clear_peers_def dest!: add_peers_keeps split: option.splits)
  have set: "k_nodes k2 = k_nodes k1 \<and> k_requires_auth k2 = k_requires_auth k1 \<and> n_stream n2 = n_stream n1 \<and> n_needs_auth n2 = n_needs_auth n1"
    if "ismaster_set reply k1 n1 = Ok (good2, k2, n2)" for k1 k2 n1 n2 good2
    using that by (auto simp: ismaster_set_def rbind_Ok_iff dest!: hosts split: if_split_asm)
  from assms obtain primary k1 n1 good1 where "ismaster_numbers reply (k, n\<lparr>n_primary := primary, n_replSet := None\<rparr>) = Ok (k1, n1)"
    "(k', n') = (k1, n1) \<or> (\<exists>grid. ismaster_set reply k1 (n1\<lparr>n_isdbgrid := grid\<rparr>) = Ok (good1, k', n'))"
    by (auto simp: ismaster_reply_def rbind_Ok_iff split: if_split_asm) blast
  then show ?thesis using numbers set by fastforce
qed

lemma only_cluster:
  "k_nodes k = k_nodes (cn_cluster s1) \<Longrightarrow> k_requires_auth k = k_requires_auth (cn_cluster s1) \<Longrightarrow> only r s (s1\<lparr>cn_cluster := k\<rparr>) = only r s s1"
  "k_nodes k = k_nodes (cn_cluster s1) \<Longrightarrow> in_range r (s1\<lparr>cn_cluster := k\<rparr>) = in_range r s1"
  by (auto simp: only_def in_range_def split: node_ref.splits)

lemma ismaster_only:
  assumes "mongoc_cluster_ismaster nw r s = Ok (ok, s')" "in_range r s"
  shows "only r s s' \<and> (ok \<longrightarrow> n_stream (the_node r s') = n_stream (the_node r s) \<and> n_needs_auth (the_node r s') = n_needs_auth (the_node r s))"
proof -
  from assms(1) obtain command ran reply s1 where run: "mongoc_cluster_run_command nw r (chars ''admin'') command True s = Ok (ran, reply, s1)"
    "(if \<not> ran then Ok (False, disconnect_node nw r s1)
      else rbind (ismaster_reply reply (cn_cluster s1, the_node r s1)) (\<lambda>(good, k, n).
        let s = put_node r n (s1\<lparr>cn_cluster := k\<rparr>) in
        Ok (good, if good then s else fail_with MONGOC_ERROR_PROTOCOL MONGOC_ERROR_PROTOCOL_BAD_WIRE_VERSION s))) = Ok (ok, s')"
    by (auto simp: mongoc_cluster_ismaster_def rbind_Ok_iff split: if_split_asm)
  note o = run_command_only [OF run(1) assms(2)]
  show ?thesis
  proof (cases ran)
    case False
    then show ?thesis using run(2) o only_trans [OF _ only_disconnect] by auto
  next
    case True
    then obtain good k n where reply: "ismaster_reply reply (cn_cluster s1, the_node r s1) = Ok (good, k, n)"
      "ok = good" "s' = (if good then put_node r n (s1\<lparr>cn_cluster := k\<rparr>)
         else fail_with MONGOC_ERROR_PROTOCOL MONGOC_ERROR_PROTOCOL_BAD_WIRE_VERSION (put_node r n (s1\<lparr>cn_cluster := k\<rparr>)))"
      using run(2) by (auto simp: rbind_Ok_iff Let_def)
    note k = ismaster_reply_keeps [OF reply(1)]
    have range: "in_range r (s1\<lparr>cn_cluster := k\<rparr>)" using only_cluster(2) k o only_in_range assms(2) by metis
    have "only r s (s1\<lparr>cn_cluster := k\<rparr>)" using only_cluster(1) k o by blast
    then have "only r s (put_node r n (s1\<lparr>cn_cluster := k\<rparr>))" using only_trans only_put_node by blast
    then show ?thesis using reply k o True the_node_put [OF range] by simp
  qed
qed

lemma auth_node_only:
  assumes "mongoc_cluster_auth_node nw r s = Ok (ok, s')" "in_range r s"
  shows "only r s s' \<and> (ok \<longrightarrow> the_node r s' = the_node r s)"
proof -
  have cr: "only r s s' \<and> (ok \<longrightarrow> the_node r s' = the_node r s)" if "mongoc_cluster_auth_node_cr nw r s = Ok (ok, s')"
  proof -
    have second: "only r s s3" "ok2 \<Longrightarrow> the_node r s2 = the_node r s \<Longrightarrow> the_node r s3 = the_node r s"
      if "mongoc_cluster_run_command nw r db c w s2 = Ok (ok2, b, s3)" "only r s s2" for db c w s2 s3 ok2 b
      using run_command_only [OF that(1)] only_in_range [OF that(2)] assms(2) only_trans [OF that(2)] by auto
    have first: "only r s s2 \<and> (ok2 \<longrightarrow> the_node r s2 = the_node r s)"
      if "mongoc_cluster_run_command nw r db c w s = Ok (ok2, b, s2)" for db c w s2 ok2 b
      using run_command_only [OF that assms(2)] by auto
    show ?thesis using that
      by (auto simp: mongoc_cluster_auth_node_cr_def rbind_Ok_iff Let_def split: if_split_asm
          dest!: first intro: second)
  qed
  show ?thesis using assms(1) cr by (auto simp: mongoc_cluster_auth_node_def rbind_Ok_iff split: if_split_asm)
qed

text \<open>That some authentication succeeds on the network.\<close>

definition accepted :: "'w network \<Rightarrow> bool" where
  "accepted nw \<longleftrightarrow> (\<exists>r s s'. mongoc_cluster_auth_node nw r s = Ok (True, s'))"

lemma authenticated_only:
  assumes "authenticated nw r undo s = Ok (ok, s')" "in_range r s" "undo = disconnect_node nw \<or> undo = destroy_node nw"
  shows "only r s s' \<and> (if ok then n_stream (the_node r s') = n_stream (the_node r s) \<and> \<not> n_needs_auth (the_node r s')
      \<and> (n_needs_auth (the_node r s) \<longrightarrow> accepted nw)
    else n_stream (the_node r s') = None)"
proof (cases "n_needs_auth (the_node r s)")
  case True
  with assms(1) obtain ok1 s1 where a: "mongoc_cluster_auth_node nw r s = Ok (ok1, s1)" "ok = ok1"
    "s' = (if ok1 then put_node r ((the_node r s1)\<lparr>n_needs_auth := False\<rparr>) s1 else undo r s1)"
    by (auto simp: authenticated_def rbind_Ok_iff split: if_split_asm)
  note o = auth_node_only [OF a(1) assms(2)]
  then have range: "in_range r s1" using only_in_range assms(2) by blast
  have "only r s1 (undo r s1)" "n_stream (the_node r (undo r s1)) = None"
    using assms(3) range disconnect_no_stream destroy_no_stream by auto
  moreover have "ok1 \<Longrightarrow> accepted nw" using a(1) by (auto simp: accepted_def)
  ultimately show ?thesis using a o range only_trans [OF conjunct1 [OF o]] by (auto split: if_split_asm)
qed (use assms(1) in \<open>auto simp: authenticated_def\<close>)

lemma ping_only:
  assumes "mongoc_cluster_ping_node nw r s = Ok (ping, s')" "in_range r s"
  shows "only r s s' \<and> (ping \<noteq> - 1 \<longrightarrow> the_node r s' = the_node r s)"
proof -
  from assms(1) obtain cmd ok b w s1 w' where run:
    "mongoc_cluster_run_command nw r (chars ''admin'') cmd False (s\<lparr>cn_world := w\<rparr>) = Ok (ok, b, s1)"
    "s' = s1\<lparr>cn_world := w'\<rparr>" "\<not> ok \<longrightarrow> ping = - 1"
    by (auto simp: mongoc_cluster_ping_node_def rbind_Ok_iff Let_def case_prod_beta split: if_split_asm)
  have "in_range r (s\<lparr>cn_world := w\<rparr>)" using assms(2) by (cases r) (simp_all add: in_range_def)
  from run_command_only [OF run(1) this] have "only r (s\<lparr>cn_world := w\<rparr>) s1" "ok \<longrightarrow> the_node r s1 = the_node r s" by auto
  moreover from this(1) have "only r s s1" by (simp add: only_def)
  ultimately show ?thesis using run(2,3) by auto
qed

text \<open>A node that is connected has been authenticated, if that is asked for.\<close>

definition node_authed :: "'w network \<Rightarrow> bool \<Rightarrow> mongoc_cluster_node_t \<Rightarrow> bool" where
  "node_authed nw requires_auth n \<longleftrightarrow>
     (n_stream n \<noteq> None \<longrightarrow> \<not> n_needs_auth n \<and> (requires_auth \<longrightarrow> accepted nw))"

abbreviation (input) requires :: "'w conn \<Rightarrow> bool" where
  "requires s \<equiv> k_requires_auth (cn_cluster s)"

definition authed :: "'w network \<Rightarrow> 'w conn \<Rightarrow> bool" where
  "authed nw s \<longleftrightarrow> length (k_nodes (cn_cluster s)) = 12
     \<and> (\<forall>j < 12. node_authed nw (requires s) (k_nodes (cn_cluster s) ! j))"

lemma authed_cluster [simp]:
  "k_nodes k = k_nodes (cn_cluster s) \<Longrightarrow> k_requires_auth k = requires s \<Longrightarrow> authed nw (s\<lparr>cn_cluster := k\<rparr>) = authed nw s"
  "authed nw (s\<lparr>cn_world := w\<rparr>) = authed nw s" "authed nw (s\<lparr>cn_error := e\<rparr>) = authed nw s" "authed nw (fail_with d c s) = authed nw s"
  "authed nw (update_state s) = authed nw s" "authed nw (note_reconnect nw' s) = authed nw s"
  by (simp_all add: authed_def fail_with_def update_state_def mongoc_cluster_update_state_def note_reconnect_def case_prod_beta Let_def)

lemma authed_only:
  assumes "only (Slot i) s s'" "authed nw s" "node_authed nw (requires s) (the_node (Slot i) s')"
  shows "authed nw s'"
  unfolding authed_def
proof (intro conjI allI impI)
  show "length (k_nodes (cn_cluster s')) = 12" using assms(1,2) by (simp add: only_def authed_def)
  fix j :: nat
  assume "j < 12"
  then show "node_authed nw (requires s') (k_nodes (cn_cluster s') ! j)" using assms by (cases "j = i") (simp_all add: only_def authed_def the_node_def)
qed

lemma authed_local: "only Local s s' \<Longrightarrow> authed nw s \<Longrightarrow> authed nw s'"
  by (simp add: authed_def only_def)

lemma in_range_slot: "authed nw s \<Longrightarrow> in_range (Slot i) s \<longleftrightarrow> i < 12"
  by (simp add: authed_def in_range_def)

lemma create_stream_keeps:
  assumes "create_stream nw host s = (stream, s')"
  shows "cn_cluster s' = cn_cluster s \<and> authed nw' s' = authed nw' s \<and> only r s s'"
  using assms by (auto simp: create_stream_def authed_def only_def split: prod.splits sum.splits)

lemma node_authed_no_stream: "n_stream n = None \<Longrightarrow> node_authed nw requires_auth n"
  by (simp add: node_authed_def)

lemma admit_node_only:
  assumes "admit_node nw i accept s = Ok (r, s')" "in_range (Slot i) s" "n_needs_auth (the_node (Slot i) s) = requires s"
  shows "only (Slot i) s s' \<and> node_authed nw (requires s) (the_node (Slot i) s')"
proof -
  have drop: "only (Slot i) s (destroy_node nw (Slot i) s1) \<and> node_authed nw (requires s) (the_node (Slot i) (destroy_node nw (Slot i) s1))"
    if "only (Slot i) s s1" for s1
    using that only_trans [OF that only_destroy] destroy_no_stream only_in_range [OF that] assms(2) by (auto intro!: node_authed_no_stream)
  from assms(1) obtain ok1 s1 where i: "mongoc_cluster_ismaster nw (Slot i) s = Ok (ok1, s1)"
    "(if \<not> ok1 \<or> \<not> accept (the_node (Slot i) s1) then Ok (Some False, destroy_node nw (Slot i) s1)
      else rbind (authenticated nw (Slot i) (destroy_node nw) s1) (\<lambda>(ok, s).
        if \<not> ok then Ok (None, s)
        else rbind (mongoc_cluster_ping_node nw (Slot i) s) (\<lambda>(ping, s).
          if ping = - 1 then Ok (Some False, destroy_node nw (Slot i) s)
          else rbind (mongoc_cluster_node_track_ping (the_node (Slot i) s) ping) (\<lambda>n. Ok (Some True, put_node (Slot i) n s))))) = Ok (r, s')"
    by (auto simp: admit_node_def rbind_Ok_iff Let_def)
  note o1 = conjunct1 [OF ismaster_only [OF i(1) assms(2)]]
  have r1: "in_range (Slot i) s1" using only_in_range [OF o1] assms(2) by simp
  show ?thesis
  proof (cases "\<not> ok1 \<or> \<not> accept (the_node (Slot i) s1)")
    case True
    then show ?thesis using i(2) drop [OF o1] by auto
  next
    case False
    with i(2) obtain ok2 s2 where a: "authenticated nw (Slot i) (destroy_node nw) s1 = Ok (ok2, s2)"
      "(if \<not> ok2 then Ok (None, s2)
        else rbind (mongoc_cluster_ping_node nw (Slot i) s2) (\<lambda>(ping, s).
          if ping = - 1 then Ok (Some False, destroy_node nw (Slot i) s)
          else rbind (mongoc_cluster_node_track_ping (the_node (Slot i) s) ping) (\<lambda>n. Ok (Some True, put_node (Slot i) n s)))) = Ok (r, s')"
      by (auto simp: rbind_Ok_iff)
    have o2: "only (Slot i) s s2" using only_trans [OF o1] authenticated_only [OF a(1) r1] by blast
    have r2: "in_range (Slot i) s2" using only_in_range [OF o2] assms(2) by simp
    have n2: "node_authed nw (requires s) (the_node (Slot i) s2)"
      using authenticated_only [OF a(1) r1] ismaster_only [OF i(1) assms(2)] assms(3) False by (auto simp: node_authed_def split: if_split_asm)
    show ?thesis
    proof (cases ok2)
      case False
      then show ?thesis using a(2) o2 n2 by simp
    next
      case True
      with a(2) obtain ping s3 where p: "mongoc_cluster_ping_node nw (Slot i) s2 = Ok (ping, s3)"
        "(if ping = - 1 then Ok (Some False, destroy_node nw (Slot i) s3)
          else rbind (mongoc_cluster_node_track_ping (the_node (Slot i) s3) ping) (\<lambda>n. Ok (Some True, put_node (Slot i) n s3))) = Ok (r, s')"
        by (auto simp: rbind_Ok_iff)
      have o3: "only (Slot i) s s3" using only_trans [OF o2] ping_only [OF p(1) r2] by blast
      show ?thesis
      proof (cases "ping = - 1")
        case True
        then show ?thesis using p(2) drop [OF o3] by auto
      next
        case False
        with p(2) obtain n where n: "mongoc_cluster_node_track_ping (the_node (Slot i) s3) ping = Ok n" "s' = put_node (Slot i) n s3"
          by (auto simp: rbind_Ok_iff)
        have "n_stream n = n_stream (the_node (Slot i) s3) \<and> n_needs_auth n = n_needs_auth (the_node (Slot i) s3)"
          using n(1) by (auto simp: mongoc_cluster_node_track_ping_def rbind_Ok_iff Let_def split: if_split_asm)
        then have "node_authed nw (requires s) n" using n2 ping_only [OF p(1) r2] False by (simp add: node_authed_def)
        then show ?thesis using n(2) only_trans [OF o3 only_put_node] the_node_put only_in_range [OF o3] assms(2) by simp
      qed
    qed
  qed
qed

lemma admit_authed:
  assumes "admit_node nw i accept (put_node (Slot i) n s) = Ok (r, s')" "authed nw s" "i < 12" "n_needs_auth n = requires s"
  shows "authed nw s'"
proof -
  have "in_range (Slot i) (put_node (Slot i) n s)" using only_in_range [OF only_put_node] in_range_slot [OF assms(2)] assms(3) by blast
  moreover have p: "requires (put_node (Slot i) n s) = requires s" by (simp add: put_node_def)
  moreover have "in_range (Slot i) s" using in_range_slot [OF assms(2)] assms(3) by simp
  ultimately have "only (Slot i) (put_node (Slot i) n s) s' \<and> node_authed nw (requires s) (the_node (Slot i) s')"
    using admit_node_only [OF assms(1)] assms(4) by simp
  then show ?thesis using authed_only [OF only_trans [OF only_put_node]] assms(2) by blast
qed

text \<open>What a turn of either loop does with a node, as a function of what follows.\<close>

lemma connect_peers_authed:
  "connect_peers nw replSet peers i saved s = Ok (r, saved', s') \<Longrightarrow> authed nw s \<Longrightarrow> authed nw s'"
proof (induction peers arbitrary: i saved s)
  case (Cons peer peers)
  note IH = Cons.IH and eq = Cons.prems(1) and s = Cons.prems(2)
  show ?case
  proof (cases "12 \<le> i")
    case True
    then show ?thesis using eq s by simp
  next
    case i: False
    from eq i obtain host where host: "mongoc_host_list_from_string (peer @ [0]) = Ok host" by (auto simp: rbind_Ok_iff)
    show ?thesis
    proof (cases host)
      case None
      then have "connect_peers nw replSet peers i saved s = Ok (r, saved', s')" using eq host i by simp
      then show ?thesis by (rule IH [OF _ s])
    next
      case (Some h)
      obtain st saved1 where t: "take_saved (h_host_and_port h) saved None = (st, saved1)" by fastforce
      obtain st1 s1 where c: "(if st = None then create_stream nw h s else (st, s)) = (st1, s1)" by fastforce
      have s1: "authed nw s1" using c create_stream_keeps [of nw h s] s by (auto split: if_split_asm)
      show ?thesis
      proof (cases st1)
        case None
        then have "connect_peers nw replSet peers i saved1 s1 = Ok (r, saved', s')" using eq host i Some t c by simp
        then show ?thesis by (rule IH [OF _ s1])
      next
        case (Some k)
        let ?n = "new_node (k_requires_auth (cn_cluster s1)) h i k"
        have "rbind (admit_node nw i (\<lambda>n. n_replSet n = Some replSet) (put_node (Slot i) ?n s1)) (\<lambda>(r, s). case r of
            None \<Rightarrow> Ok (None, saved1, s)
          | Some True \<Rightarrow> connect_peers nw replSet peers (i + 1) saved1 s
          | Some False \<Rightarrow> connect_peers nw replSet peers i saved1 s) = Ok (r, saved', s')"
          using eq host i \<open>host = Some h\<close> t c Some by simp
        then obtain q s2 where q: "admit_node nw i (\<lambda>n. n_replSet n = Some replSet) (put_node (Slot i) ?n s1) = Ok (q, s2)"
          "(case q of None \<Rightarrow> Ok (None, saved1, s2)
            | Some True \<Rightarrow> connect_peers nw replSet peers (i + 1) saved1 s2
            | Some False \<Rightarrow> connect_peers nw replSet peers i saved1 s2) = Ok (r, saved', s')"
          by (auto simp: rbind_Ok_iff)
        have "authed nw s2" by (rule admit_authed [OF q(1) s1]) (use i in \<open>simp_all add: new_node_def\<close>)
        then show ?thesis using q(2) IH by (auto split: option.splits bool.splits)
      qed
    qed
  qed
qed simp

lemma connect_shards_authed:
  "connect_shards nw hosts i s = Ok r \<Longrightarrow> authed nw s \<Longrightarrow> (case r of Inl s' \<Rightarrow> authed nw s' | Inr (_, s') \<Rightarrow> authed nw s')"
proof (induction hosts arbitrary: i s)
  case (Cons host hosts)
  note IH = Cons.IH and eq = Cons.prems(1) and s = Cons.prems(2)
  obtain st s1 where c: "create_stream nw host s = (st, s1)" by fastforce
  have s1: "authed nw s1" using create_stream_keeps [OF c] s by simp
  show ?case
  proof (cases st)
    case None
    then have "connect_shards nw hosts i s1 = Ok r" using eq c by simp
    then show ?thesis by (rule IH [OF _ s1])
  next
    case (Some h)
    let ?n = "new_node (k_requires_auth (cn_cluster s1)) host i h"
    have i: "i < 12" using eq c Some by (auto split: if_split_asm)
    then have "rbind (admit_node nw i (\<lambda>_. True) (put_node (Slot i) ?n s1)) (\<lambda>(q, s). case q of
              None \<Rightarrow> Ok (Inr (None, s))
            | Some False \<Rightarrow> connect_shards nw hosts i s
            | Some True \<Rightarrow>
                rbind (if i = 0 then wrong_mode (the_node (Slot 0) s) (cn_cluster s) else Ok False) (\<lambda>wrong.
                  if wrong then Ok (Inl s) else connect_shards nw hosts (i + 1) s)) = Ok r"
      using eq c Some by simp
    then obtain q s2 where q: "admit_node nw i (\<lambda>_. True) (put_node (Slot i) ?n s1) = Ok (q, s2)"
      "(case q of None \<Rightarrow> Ok (Inr (None, s2))
        | Some False \<Rightarrow> connect_shards nw hosts i s2
        | Some True \<Rightarrow>
            rbind (if i = 0 then wrong_mode (the_node (Slot 0) s2) (cn_cluster s2) else Ok False) (\<lambda>wrong.
              if wrong then Ok (Inl s2) else connect_shards nw hosts (i + 1) s2)) = Ok r"
      by (auto simp: rbind_Ok_iff)
    have s2: "authed nw s2" by (rule admit_authed [OF q(1) s1 i]) (simp add: new_node_def)
    show ?thesis
    proof (cases q)
      case None
      then show ?thesis using q(2) s2 by auto
    next
      case (Some kept)
      show ?thesis
      proof (cases kept)
        case False
        then have "connect_shards nw hosts i s2 = Ok r" using q(2) Some by simp
        then show ?thesis by (rule IH [OF _ s2])
      next
        case True
        with q(2) Some obtain wrong where w: "(if wrong then Ok (Inl s2) else connect_shards nw hosts (i + 1) s2) = Ok r"
          by (auto simp: rbind_Ok_iff)
        show ?thesis
        proof (cases wrong)
          case True
          then show ?thesis using w s2 by auto
        next
          case False
          then have "connect_shards nw hosts (i + 1) s2 = Ok r" using w by simp
          then show ?thesis by (rule IH [OF _ s2])
        qed
      qed
    qed
  qed
qed auto

lemma ask_seeds_authed: "ask_seeds nw hosts s = Ok s' \<Longrightarrow> authed nw s \<Longrightarrow> authed nw s'"
proof (induction hosts arbitrary: s)
  case (Cons host hosts)
  obtain st s1 where c: "create_stream nw host s = (st, s1)" by fastforce
  have s1: "authed nw s1" using create_stream_keeps [OF c] Cons.prems(2) by simp
  show ?case
  proof (cases st)
    case None
    then have "ask_seeds nw hosts s1 = Ok s'" using Cons.prems(1) c by simp
    then show ?thesis by (rule Cons.IH [OF _ s1])
  next
    case (Some h)
    define s2 where "s2 = put_node Local (mongoc_cluster_node_init\<lparr>n_host := host, n_stream := Some h\<rparr>) s1"
    from Cons.prems(1) c Some obtain ok s3 where q: "mongoc_cluster_ismaster nw Local s2 = Ok (ok, s3)"
      "s' = destroy_node nw Local s3 \<or> ask_seeds nw hosts (destroy_node nw Local s3) = Ok s'"
      by (auto simp: rbind_Ok_iff Let_def s2_def split: if_split_asm)
    have "in_range Local s2" by (simp add: in_range_def)
    from conjunct1 [OF ismaster_only [OF q(1) this]] have "only Local s2 s3" .
    moreover have "only Local s1 s2" unfolding s2_def by (rule only_put_node)
    ultimately have "only Local s1 s3" by (metis only_trans)
    then have "authed nw (destroy_node nw Local s3)" using authed_local [OF only_trans [OF _ only_destroy] s1] by blast
    then show ?thesis using q(2) Cons.IH by blast
  qed
qed simp

lemma no_streams_authed: "length (k_nodes k) = 12 \<Longrightarrow> authed nw (s\<lparr>cn_cluster := k\<lparr>k_nodes := map (\<lambda>n. n\<lparr>n_stream := None\<rparr>) (k_nodes k)\<rparr>\<rparr>)"
  by (simp add: authed_def node_authed_def)

lemma reconnect_direct_authed:
  assumes "mongoc_cluster_reconnect_direct nw s = Ok (ok, s')" "authed nw s"
  shows "authed nw s'"
proof (cases "uri_hosts (cn_cluster s)")
  case Nil
  then show ?thesis using assms by (auto simp: mongoc_cluster_reconnect_direct_def)
next
  case (Cons host hosts)
  define s1 where "s1 = put_node (Slot 0) (direct_node (k_requires_auth (cn_cluster (note_reconnect nw s))) host
      (the_node (Slot 0) (note_reconnect nw s))) (note_reconnect nw s)"
  have n: "authed nw (note_reconnect nw s)" using assms(2) by simp
  have r0: "in_range (Slot 0) t" if "authed nw t" for t using in_range_slot [OF that] by simp
  have s1: "authed nw s1" unfolding s1_def
    by (rule authed_only [OF only_put_node n]) (simp add: the_node_put [OF r0 [OF n]] node_authed_def direct_node_def)
  obtain st s2 where c: "create_stream nw host s1 = (st, s2)" by fastforce
  have s2: "authed nw s2" using create_stream_keeps [OF c] s1 by simp
  show ?thesis
  proof (cases st)
    case None
    then show ?thesis using assms(1) Cons c s2 by (simp add: mongoc_cluster_reconnect_direct_def Let_def flip: s1_def)
  next
    case (Some h)
    define s3 where "s3 = put_node (Slot 0) ((the_node (Slot 0) s2)\<lparr>n_stream := Some h, n_stamp := w32 (Suc (n_stamp (the_node (Slot 0) s2)))\<rparr>) s2"
    have o3: "only (Slot 0) s2 s3" unfolding s3_def by (rule only_put_node)
    have r3: "in_range (Slot 0) s3" using only_in_range [OF o3] r0 [OF s2] by simp
    have "n_needs_auth (the_node (Slot 0) s1) = requires s"
      using the_node_put [OF r0 [OF n]] by (simp add: s1_def direct_node_def note_reconnect_def case_prod_beta)
    then have need: "n_needs_auth (the_node (Slot 0) s3) = requires s"
      using the_node_put [OF r0 [OF s2]] create_stream_keeps [OF c] by (simp add: s3_def the_node_def)
    have rq: "requires s2 = requires s"
      using create_stream_keeps [OF c] by (simp add: s1_def put_node_def note_reconnect_def case_prod_beta)
    from assms(1) Cons c Some obtain ok1 s4 where q: "mongoc_cluster_ismaster nw (Slot 0) s3 = Ok (ok1, s4)"
      "(if \<not> ok1 then Ok (False, disconnect_node nw (Slot 0) s4)
        else rbind (authenticated nw (Slot 0) (disconnect_node nw) s4) (\<lambda>(ok, s).
          if \<not> ok then Ok (False, s) else Ok (True, update_state s))) = Ok (ok, s')"
      by (auto simp: mongoc_cluster_reconnect_direct_def rbind_Ok_iff Let_def simp flip: s1_def s3_def)
    have o4: "only (Slot 0) s2 s4" using only_trans [OF o3] ismaster_only [OF q(1) r3] by blast
    have r4: "in_range (Slot 0) s4" using only_in_range [OF o4] r0 [OF s2] by simp
    show ?thesis
    proof (cases ok1)
      case False
      have "authed nw (disconnect_node nw (Slot 0) s4)"
        by (rule authed_only [OF only_trans [OF o4 only_disconnect] s2]) (rule node_authed_no_stream [OF disconnect_no_stream [OF r4]])
      then show ?thesis using q(2) False by simp
    next
      case True
      with q(2) obtain ok2 s5 where a: "authenticated nw (Slot 0) (disconnect_node nw) s4 = Ok (ok2, s5)"
        "s' = s5 \<or> s' = update_state s5" by (auto simp: rbind_Ok_iff split: if_split_asm)
      have au: "only (Slot 0) s4 s5 \<and> node_authed nw (requires s2) (the_node (Slot 0) s5)"
        using authenticated_only [OF a(1) r4] ismaster_only [OF q(1) r3] True need rq by (auto simp: node_authed_def split: if_split_asm)
      then have "authed nw s5" using authed_only [OF only_trans [OF o4] s2] by blast
      then show ?thesis using a(2) by auto
    qed
  qed
qed

lemma reconnect_replica_set_authed:
  assumes "mongoc_cluster_reconnect_replica_set nw s = Ok (ok, s')" "authed nw s"
  shows "authed nw s'"
proof (cases "uri_hosts (cn_cluster s) = []")
  case True
  then show ?thesis using assms by (auto simp: mongoc_cluster_reconnect_replica_set_def Let_def split: if_split_asm)
next
  case False
  define s1 where "s1 = (note_reconnect nw s)\<lparr>cn_cluster := mongoc_cluster_clear_peers (cn_cluster (note_reconnect nw s))\<rparr>"
  have s1: "authed nw s1" unfolding s1_def using assms(2) by (simp add: mongoc_cluster_clear_peers_def)
  from assms(1) False obtain replSet s2 r where q: "ask_seeds nw (uri_hosts (cn_cluster s)) s1 = Ok s2"
    "connect_peers nw replSet (k_peers (cn_cluster s2)) 0 (save_nodes (k_nodes (cn_cluster s2)))
       (s2\<lparr>cn_cluster := no_nodes (cn_cluster s2)\<rparr>) = Ok r" "finish_replica_set nw r = Ok (ok, s')"
    by (auto simp: mongoc_cluster_reconnect_replica_set_def rbind_Ok_iff Let_def simp flip: s1_def split: if_split_asm option.split_asm)
  obtain i saved s3 where r: "r = (i, saved, s3)" by (cases r)
  have "authed nw s2" by (rule ask_seeds_authed [OF q(1) s1])
  then have "authed nw (s2\<lparr>cn_cluster := no_nodes (cn_cluster s2)\<rparr>)" by (simp add: authed_def node_authed_def no_nodes_def)
  then have "authed nw s3" by (rule connect_peers_authed [OF q(2) [unfolded r]])
  then show ?thesis using q(3) by (auto simp: finish_replica_set_def r Let_def split: option.splits if_split_asm)
qed

lemma reconnect_sharded_authed:
  assumes "mongoc_cluster_reconnect_sharded_cluster nw s = Ok (ok, s')" "authed nw s"
  shows "authed nw s'"
proof -
  from assms(1) obtain r where r: "connect_shards nw (uri_hosts (cn_cluster (note_reconnect nw s))) 0 (note_reconnect nw s) = Ok r"
    "finish_sharded nw r = Ok (ok, s')"
    by (auto simp: mongoc_cluster_reconnect_sharded_cluster_def rbind_Ok_iff Let_def)
  have "authed nw (note_reconnect nw s)" using assms(2) by simp
  from connect_shards_authed [OF r(1) this] have a: "case r of Inl s' \<Rightarrow> authed nw s' | Inr (_, s') \<Rightarrow> authed nw s'" .
  show ?thesis
  proof (cases r)
    case (Inl t)
    let ?t = "t\<lparr>cn_cluster := (cn_cluster t)\<lparr>k_mode := MONGOC_CLUSTER_REPLICA_SET, k_replSet := n_replSet (the_node (Slot 0) t)\<rparr>\<rparr>"
    have "mongoc_cluster_reconnect_replica_set nw ?t = Ok (ok, s')" using r(2) Inl by (simp add: finish_sharded_def)
    moreover have "authed nw ?t" using a Inl by simp
    ultimately show ?thesis by (rule reconnect_replica_set_authed)
  next
    case (Inr p)
    then show ?thesis using r(2) a by (cases p) (auto simp: finish_sharded_def split: option.splits if_split_asm)
  qed
qed

text \<open>
  C10: after \<open>_mongoc_cluster_reconnect\<close>, in each of the three modes, whatever the servers answer and
  whether or not it succeeds, no connected node still needs authentication. In particular, if the cluster
  requires authentication and no exchange of credentials ever succeeds on the network, no node is left
  connected.
\<close>

theorem reconnect_authenticates:
  assumes "mongoc_cluster_reconnect nw s = Ok (ok, s')" "length (k_nodes (cn_cluster s)) = 12"
  shows "length (k_nodes (cn_cluster s')) = 12
    \<and> (\<forall>j < 12. n_stream (k_nodes (cn_cluster s') ! j) \<noteq> None \<longrightarrow> \<not> n_needs_auth (k_nodes (cn_cluster s') ! j))
    \<and> (k_requires_auth (cn_cluster s') \<and> (\<forall>r t t'. mongoc_cluster_auth_node nw r t \<noteq> Ok (True, t'))
        \<longrightarrow> (\<forall>j < 12. n_stream (k_nodes (cn_cluster s') ! j) = None))"
proof -
  define t where "t = update_state (close_nodes nw s)"
  have t: "authed nw t"
    unfolding t_def authed_cluster using assms(2) by (simp add: close_nodes_def Let_def authed_def node_authed_def)
  have r: "(case k_mode (cn_cluster t) of
      MONGOC_CLUSTER_DIRECT \<Rightarrow> mongoc_cluster_reconnect_direct nw t
    | MONGOC_CLUSTER_REPLICA_SET \<Rightarrow> mongoc_cluster_reconnect_replica_set nw t
    | MONGOC_CLUSTER_SHARDED_CLUSTER \<Rightarrow> mongoc_cluster_reconnect_sharded_cluster nw t) = Ok (ok, s')"
    using assms(1) by (simp add: mongoc_cluster_reconnect_def Let_def flip: t_def)
  have "authed nw s'"
  proof (cases "k_mode (cn_cluster t)")
    case MONGOC_CLUSTER_DIRECT
    then show ?thesis using r reconnect_direct_authed [OF _ t] by simp
  next
    case MONGOC_CLUSTER_REPLICA_SET
    then show ?thesis using r reconnect_replica_set_authed [OF _ t] by simp
  next
    case MONGOC_CLUSTER_SHARDED_CLUSTER
    then show ?thesis using r reconnect_sharded_authed [OF _ t] by simp
  qed
  then show ?thesis by (auto simp: authed_def node_authed_def accepted_def)
qed

text \<open>A server that takes the connection and then no bytes: the node is disconnected again.\<close>

definition deaf :: "unit network" where
  "deaf =
     \<lparr>nw_connect = \<lambda>w _. (Inr 7, w), nw_read = \<lambda>w _ _ _. Ok (None, w), nw_writev = \<lambda>w _ _. Ok (0, w), nw_close = \<lambda>w _. w,
      nw_time = \<lambda>w. (0, w), nw_rand = \<lambda>w. (0, w)\<rparr>"

definition secured_uri :: mongoc_uri_t where
  "secured_uri =
     \<lparr>u_str = None, u_hosts = [no_host], u_username = Some (lit ''user''), u_password = Some (lit ''secret''), u_database = None,
      u_options = bson_init, u_read_prefs = bson_init, u_write_concern = None\<rparr>"

definition secured_conn :: "unit conn" where
  "secured_conn =
     \<lparr>cn_cluster = fresh_cluster secured_uri (Some secured_uri) True False None 0 0, cn_local = mongoc_cluster_node_init,
      cn_error = None, cn_world = ()\<rparr>"

lemma deaf_refuses:
  "case mongoc_cluster_reconnect deaf secured_conn of
     Ok (ok, s') \<Rightarrow> \<not> ok \<and> k_request_id (cn_cluster s') = 1 \<and> n_stamp (k_nodes (cn_cluster s') ! 0) = 5 | Fault _ \<Rightarrow> False"
  by code_simp

lemma reconnect_authenticates_witness:
  "\<exists>s'. mongoc_cluster_reconnect deaf secured_conn = Ok (False, s') \<and> k_request_id (cn_cluster s') = 1
     \<and> (\<forall>j < 12. n_stream (k_nodes (cn_cluster s') ! j) \<noteq> None \<longrightarrow> \<not> n_needs_auth (k_nodes (cn_cluster s') ! j))"
proof -
  obtain s' where s': "mongoc_cluster_reconnect deaf secured_conn = Ok (False, s')" "k_request_id (cn_cluster s') = 1"
    using deaf_refuses by (cases "mongoc_cluster_reconnect deaf secured_conn") auto
  have "length (k_nodes (cn_cluster secured_conn)) = 12" by (simp add: secured_conn_def fresh_cluster_def fresh_nodes_def)
  from reconnect_authenticates [OF s'(1) this] s' show ?thesis by blast
qed

end
