(* ===== verification/Mongoc_Socket.thy ===== *)
theory Mongoc_Socket
  imports Mongoc_Buffer
begin

text \<open>
  The transfers of a connected socket (\<open>mongoc-socket.c\<close>): waiting for it, receiving, and sending an
  I/O vector, on POSIX.

  The system calls and the clock act on a state \<open>'s\<close> of the operating system, a parameter; the error
  numbers are those of Linux. The loops of the driver need not end, as when the system goes on
  reporting that the call may be tried again: then the result is the fault \<open>No_Termination\<close>.
\<close>

section \<open>The system\<close>

abbreviation (input) EINTR :: nat where "EINTR \<equiv> 4"
abbreviation (input) EAGAIN :: nat where "EAGAIN \<equiv> 11"
abbreviation (input) EMSGSIZE :: nat where "EMSGSIZE \<equiv> 90"
abbreviation (input) ETIMEDOUT :: nat where "ETIMEDOUT \<equiv> 110"
abbreviation (input) EINPROGRESS :: nat where "EINPROGRESS \<equiv> 115"

definition errno_is_again :: "nat \<Rightarrow> bool" where
  "errno_is_again e \<longleftrightarrow> e = EINTR \<or> e = EAGAIN \<or> e = EINPROGRESS"

text \<open>
  A call fails with an error number or returns. \<open>os_poll s out timeout\<close>: \<open>None\<close> when \<open>poll\<close> returns zero
  or -1, otherwise whether the event that was asked for (\<open>POLLOUT\<close> if \<open>out\<close>) is among those reported.
\<close>

record 's os =
  os_sendmsg :: "'s \<Rightarrow> byte list list \<Rightarrow> (nat + nat) \<times> 's"
  os_send :: "'s \<Rightarrow> byte list \<Rightarrow> (nat + nat) \<times> 's"
  os_recv :: "'s \<Rightarrow> nat \<Rightarrow> (nat + byte list) \<times> 's"
  os_poll :: "'s \<Rightarrow> bool \<Rightarrow> int \<Rightarrow> bool option \<times> 's"
  os_time :: "'s \<Rightarrow> int \<times> 's"

text \<open>\<open>errno\<close>, the error number the socket keeps, and the state of the system. A call that succeeds leaves \<open>errno\<close>.\<close>

record 's sock =
  sk_errno :: nat
  sk_last_errno :: nat
  sk_os :: 's

definition sys :: "('s \<Rightarrow> (nat + 'a) \<times> 's) \<Rightarrow> 's sock \<Rightarrow> 'a option \<times> 's sock" where
  "sys call k =
     (case call (sk_os k) of
        (Inl e, s) \<Rightarrow> (None, k\<lparr>sk_errno := e, sk_os := s\<rparr>)
      | (Inr r, s) \<Rightarrow> (Some r, k\<lparr>sk_os := s\<rparr>))"

definition capture_errno :: "'s sock \<Rightarrow> 's sock" where
  "capture_errno k = k\<lparr>sk_last_errno := sk_errno k\<rparr>"

definition sk_time :: "'s os \<Rightarrow> 's sock \<Rightarrow> int \<times> 's sock" where
  "sk_time os k = (let (t, s) = os_time os (sk_os k) in (t, k\<lparr>sk_os := s\<rparr>))"

definition operation_expired :: "'s os \<Rightarrow> int \<Rightarrow> 's sock \<Rightarrow> bool \<times> 's sock" where
  "operation_expired os expire_at k =
     (if 0 \<le> expire_at then let (t, k) = sk_time os k in (expire_at < t, k) else (False, k))"

definition poll_timeout :: "'s os \<Rightarrow> int \<Rightarrow> 's sock \<Rightarrow> int \<times> 's sock" where
  "poll_timeout os expire_at k =
     (if expire_at < 0 then (- 1, k)
      else if expire_at = 0 then (0, k)
      else
        let (t, k) = sk_time os k; ms = sgn (expire_at - t) * (\<bar>expire_at - t\<bar> div 1000);
            timeout = as_int32 (nat (ms mod 4294967296))
        in (if timeout < 0 then 0 else timeout, k))"

definition mongoc_socket_wait :: "'s os \<Rightarrow> bool \<Rightarrow> int \<Rightarrow> 's sock \<Rightarrow> bool \<times> 's sock" where
  "mongoc_socket_wait os out expire_at k =
     (let (timeout, k) = poll_timeout os expire_at k; (r, s) = os_poll os (sk_os k) out timeout
      in (r = Some True, k\<lparr>sk_os := s\<rparr>))"

section \<open>Receiving\<close>

partial_function (option) recv_loop ::
    "'s os \<Rightarrow> int \<Rightarrow> 's sock \<Rightarrow> nat \<Rightarrow> (byte list option \<times> 's sock) option" where
  "recv_loop os expire_at k buflen =
     (let (ret, k) = sys (\<lambda>s. os_recv os s buflen) (k\<lparr>sk_last_errno := 0\<rparr>); k = capture_errno k in
      case ret of
        Some bs \<Rightarrow> Some (Some bs, k)
      | None \<Rightarrow>
          if errno_is_again (sk_last_errno k) then
            (let (ready, k) = mongoc_socket_wait os False expire_at k in
             if ready then recv_loop os expire_at k buflen else Some (None, k))
          else Some (None, k))"

definition returned :: "'a option \<Rightarrow> 'a result" where
  "returned r = (case r of None \<Rightarrow> Fault No_Termination | Some x \<Rightarrow> Ok x)"

definition mongoc_socket_recv :: "'s os \<Rightarrow> int \<Rightarrow> 's sock \<Rightarrow> nat \<Rightarrow> (byte list option \<times> 's sock) result" where
  "mongoc_socket_recv os expire_at k buflen =
     (if buflen = 0 then Ok (None, k) else returned (recv_loop os expire_at k buflen))"

section \<open>Sending\<close>

fun mongoc_socket_try_sendv_slow :: "'s os \<Rightarrow> byte list list \<Rightarrow> nat \<Rightarrow> 's sock \<Rightarrow> int \<times> 's sock" where
  "mongoc_socket_try_sendv_slow os [] ret k = (int ret, k)"
| "mongoc_socket_try_sendv_slow os (v # iov) ret k =
     (let (wrote, k) = sys (\<lambda>s. os_send os s v) k; k = capture_errno k in
      case wrote of
        None \<Rightarrow> (if \<not> errno_is_again (sk_last_errno k) then - 1 else if ret \<noteq> 0 then int ret else - 1, k)
      | Some w \<Rightarrow> if w \<noteq> length v then (int (ret + w), k) else mongoc_socket_try_sendv_slow os iov (ret + w) k)"

text \<open>What the slow variant sent is not looked at: the result is still that of \<open>sendmsg\<close>.\<close>

definition mongoc_socket_try_sendv :: "'s os \<Rightarrow> byte list list \<Rightarrow> 's sock \<Rightarrow> nat option \<times> 's sock" where
  "mongoc_socket_try_sendv os iov k =
     (let (ret, k) = sys (\<lambda>s. os_sendmsg os s iov) k;
          k = (if ret = None \<and> sk_errno k = EMSGSIZE then snd (mongoc_socket_try_sendv_slow os iov 0 k) else k)
      in (ret, capture_errno k))"

fun skip_iov :: "nat \<Rightarrow> byte list list \<Rightarrow> nat \<times> byte list list" where
  "skip_iov sent [] = (sent, [])"
| "skip_iov sent (v # iov) = (if length v \<le> sent then skip_iov (sent - length v) iov else (sent, v # iov))"

definition sent_or_error :: "nat \<Rightarrow> int" where
  "sent_or_error ret = (if ret \<noteq> 0 then int ret else - 1)"

definition timed_out :: "'s sock \<Rightarrow> 's sock" where
  "timed_out k = k\<lparr>sk_errno := ETIMEDOUT\<rparr>"

text \<open>
  One turn of the loop: the result of the function, or what is left of the vector and the bytes sent so
  far when the socket is ready for the next turn.
\<close>

definition sendv_wait ::
    "'s os \<Rightarrow> int \<Rightarrow> byte list list \<Rightarrow> nat \<Rightarrow> 's sock \<Rightarrow> (int \<times> 's sock) + (byte list list \<times> nat \<times> 's sock)" where
  "sendv_wait os expire_at iov ret k =
     (let (ready, k) = mongoc_socket_wait os True expire_at k in
      if ready then Inr (iov, ret, k) else Inl (sent_or_error ret, if ret = 0 then timed_out k else k))"

definition sendv_turn ::
    "'s os \<Rightarrow> int \<Rightarrow> byte list list \<Rightarrow> nat \<Rightarrow> 's sock \<Rightarrow> (int \<times> 's sock) + (byte list list \<times> nat \<times> 's sock)" where
  "sendv_turn os expire_at iov ret k =
     (let (sent, k) = mongoc_socket_try_sendv os iov k in
      if sent = None \<and> \<not> errno_is_again (sk_last_errno k) then Inl (sent_or_error ret, k)
      else if sent \<noteq> None \<and> 0 < the sent then
        (case skip_iov (the sent) iov of
           (_, []) \<Rightarrow> Inl (int (ret + the sent), k)
         | (n, v # iov) \<Rightarrow> sendv_wait os expire_at (drop n v # iov) (ret + the sent) k)
      else
        let (expired, k) = operation_expired os expire_at k in
        if expired then Inl (sent_or_error ret, timed_out k) else sendv_wait os expire_at iov ret k)"

partial_function (option) sendv_loop ::
    "'s os \<Rightarrow> int \<Rightarrow> byte list list \<Rightarrow> nat \<Rightarrow> 's sock \<Rightarrow> (int \<times> 's sock) option" where
  "sendv_loop os expire_at iov ret k =
     (case sendv_turn os expire_at iov ret k of
        Inl r \<Rightarrow> Some r
      | Inr (iov, ret, k) \<Rightarrow> sendv_loop os expire_at iov ret k)"

text \<open>
  The two assertions on \<open>iovcnt - cur\<close> and \<open>iov_len\<close> hold by the loop before them, which stops at an entry
  that is longer than what is left of \<open>sent\<close>.
\<close>

lemma skip_iov_longer: "skip_iov sent iov = (n, v # vs) \<Longrightarrow> n < length v"
  by (induction sent iov rule: skip_iov.induct) (auto split: if_splits)

definition mongoc_socket_sendv :: "'s os \<Rightarrow> int \<Rightarrow> 's sock \<Rightarrow> byte list list \<Rightarrow> (int \<times> 's sock) result" where
  "mongoc_socket_sendv os expire_at k iov =
     (if iov = [] then Ok (- 1, k) else returned (sendv_loop os expire_at iov 0 k))"

text \<open>
  A socket stream and a buffered stream pass writes on to what is below them. The deadline is the one the
  caller's timeout gives.
\<close>

definition mongoc_stream_socket_writev :: "'s os \<Rightarrow> int \<Rightarrow> 's sock \<Rightarrow> byte list list \<Rightarrow> (int \<times> 's sock) result" where
  "mongoc_stream_socket_writev os expire_at k iov =
     rbind (mongoc_socket_sendv os expire_at k iov) (\<lambda>(n, k). Ok (n, k\<lparr>sk_errno := sk_last_errno k\<rparr>))"

definition mongoc_stream_buffered_writev ::
    "('s \<Rightarrow> byte list list \<Rightarrow> (int \<times> 's) result) \<Rightarrow> 's mongoc_stream_buffered_t \<Rightarrow> byte list list
      \<Rightarrow> (int \<times> 's mongoc_stream_buffered_t) result" where
  "mongoc_stream_buffered_writev writev s iov =
     rbind (writev (bs_base_stream s) iov) (\<lambda>(n, base). Ok (n, s\<lparr>bs_base_stream := base\<rparr>))"

section \<open>A connected socket\<close>

text \<open>
  What POSIX says of a connected stream socket, over what the peer has got so far (\<open>pv_out\<close>), how many
  bytes of its answer have been taken (\<open>pv_taken\<close>), and how often the system may still ask to try again
  (\<open>pv_patience\<close>). \<open>answer\<close> is what the peer sends in all when it has got the bytes so far.
\<close>

record 's peer =
  pv_good :: "'s \<Rightarrow> bool"
  pv_out :: "'s \<Rightarrow> byte list"
  pv_taken :: "'s \<Rightarrow> nat"
  pv_patience :: "'s \<Rightarrow> nat"

definition pending :: "(byte list \<Rightarrow> byte list) \<Rightarrow> 's peer \<Rightarrow> 's \<Rightarrow> byte list" where
  "pending answer p s = drop (pv_taken p s) (answer (pv_out p s))"

definition same :: "'s peer \<Rightarrow> 's \<Rightarrow> 's \<Rightarrow> bool" where
  "same p s s' \<longleftrightarrow> pv_good p s' \<and> pv_out p s' = pv_out p s \<and> pv_taken p s' = pv_taken p s \<and> pv_patience p s' \<le> pv_patience p s"

definition try_again :: "'s peer \<Rightarrow> 's \<Rightarrow> (nat + 'a) \<times> 's \<Rightarrow> bool" where
  "try_again p s r \<longleftrightarrow> (\<exists>e s'. r = (Inl e, s') \<and> errno_is_again e \<and> same p s s' \<and> pv_patience p s' < pv_patience p s)"

definition sends_on :: "'s os \<Rightarrow> 's peer \<Rightarrow> bool" where
  "sends_on os p \<longleftrightarrow> (\<forall>s iov. pv_good p s \<longrightarrow> concat iov \<noteq> [] \<longrightarrow>
     try_again p s (os_sendmsg os s iov)
     \<or> (\<exists>n s'. os_sendmsg os s iov = (Inr n, s') \<and> pv_good p s' \<and> 0 < n \<and> n \<le> length (concat iov)
          \<and> pv_out p s' = pv_out p s @ take n (concat iov) \<and> pv_taken p s' = pv_taken p s))"

definition receives_on :: "'s os \<Rightarrow> (byte list \<Rightarrow> byte list) \<Rightarrow> 's peer \<Rightarrow> bool" where
  "receives_on os answer p \<longleftrightarrow> (\<forall>s n. pv_good p s \<longrightarrow> 0 < n \<longrightarrow>
     try_again p s (os_recv os s n)
     \<or> pending answer p s = [] \<and> (\<exists>e s'. os_recv os s n = (Inl e, s') \<and> \<not> errno_is_again e)
     \<or> (\<exists>bs s'. os_recv os s n = (Inr bs, s') \<and> pv_good p s' \<and> pv_out p s' = pv_out p s
          \<and> pv_taken p s' = pv_taken p s + length bs \<and> bs = take (length bs) (pending answer p s) \<and> length bs \<le> n
          \<and> (bs = [] \<longrightarrow> pending answer p s = [])))"

definition polls_on :: "'s os \<Rightarrow> (byte list \<Rightarrow> byte list) \<Rightarrow> 's peer \<Rightarrow> bool" where
  "polls_on os answer p \<longleftrightarrow> (\<forall>s out t. pv_good p s \<longrightarrow>
     (\<exists>r s'. os_poll os s out t = (r, s') \<and> same p s s' \<and> (r = Some True \<or> \<not> out \<and> pending answer p s = [])))"

definition clock_on :: "'s os \<Rightarrow> int \<Rightarrow> 's peer \<Rightarrow> bool" where
  "clock_on os expire_at p \<longleftrightarrow> (\<forall>s. pv_good p s \<longrightarrow>
     (\<exists>t s'. os_time os s = (t, s') \<and> same p s s' \<and> (expire_at < 0 \<or> t \<le> expire_at)))"

definition connected :: "'s os \<Rightarrow> int \<Rightarrow> (byte list \<Rightarrow> byte list) \<Rightarrow> 's peer \<Rightarrow> bool" where
  "connected os expire_at answer p \<longleftrightarrow>
     sends_on os p \<and> receives_on os answer p \<and> polls_on os answer p \<and> clock_on os expire_at p
     \<and> (\<forall>x y. \<exists>z. answer (x @ y) = answer x @ z) \<and> (\<forall>s. pv_good p s \<longrightarrow> pv_taken p s \<le> length (answer (pv_out p s)))"

lemma same_refl: "pv_good p s \<Longrightarrow> same p s s"
  and same_trans: "same p s s' \<Longrightarrow> same p s' s'' \<Longrightarrow> same p s s''"
  by (auto simp: same_def)

section \<open>Waiting\<close>

lemma clock_same:
  assumes "clock_on os expire_at p" "pv_good p (sk_os k)"
  obtains t k' where "sk_time os k = (t, k')" "same p (sk_os k) (sk_os k')" "expire_at < 0 \<or> t \<le> expire_at"
    "sk_last_errno k' = sk_last_errno k"
  using assms unfolding clock_on_def sk_time_def by (cases "os_time os (sk_os k)") fastforce

lemma not_expired:
  assumes "clock_on os expire_at p" "pv_good p (sk_os k)"
  obtains k' where "operation_expired os expire_at k = (False, k')" "same p (sk_os k) (sk_os k')"
proof (cases "0 \<le> expire_at")
  case True
  obtain t k' where "sk_time os k = (t, k')" "same p (sk_os k) (sk_os k')" "expire_at < 0 \<or> t \<le> expire_at"
    by (rule clock_same [OF assms])
  then show ?thesis using True by (auto intro: that simp: operation_expired_def)
qed (use assms(2) in \<open>auto intro: that simp: operation_expired_def same_refl\<close>)

lemma poll_timeout_same:
  assumes "clock_on os expire_at p" "pv_good p (sk_os k)"
  obtains t k' where "poll_timeout os expire_at k = (t, k')" "same p (sk_os k) (sk_os k')"
proof -
  obtain t k' where "sk_time os k = (t, k')" "same p (sk_os k) (sk_os k')" by (rule clock_same [OF assms])
  then have "same p (sk_os k) (sk_os (snd (poll_timeout os expire_at k)))"
    using assms(2) by (simp add: poll_timeout_def same_refl Let_def)
  then show ?thesis by (rule that [OF surjective_pairing])
qed

lemma wait_ready:
  assumes "connected os expire_at answer p" "pv_good p (sk_os k)"
  obtains r k' where "mongoc_socket_wait os out expire_at k = (r, k')" "same p (sk_os k) (sk_os k')"
    "r \<or> \<not> out \<and> pending answer p (sk_os k) = []"
proof -
  from assms obtain t k1 where t: "poll_timeout os expire_at k = (t, k1)" "same p (sk_os k) (sk_os k1)"
    by (auto simp: connected_def elim: poll_timeout_same)
  then have "pv_good p (sk_os k1)" by (simp add: same_def)
  with assms(1) obtain r s' where r: "os_poll os (sk_os k1) out t = (r, s')" "same p (sk_os k1) s'"
    "r = Some True \<or> \<not> out \<and> pending answer p (sk_os k1) = []"
    unfolding connected_def polls_on_def by meson
  have "pending answer p (sk_os k1) = pending answer p (sk_os k)" using t(2) by (simp add: pending_def same_def)
  with t r show ?thesis
    by (intro that [of "r = Some True" "k1\<lparr>sk_os := s'\<rparr>"])
       (auto simp: mongoc_socket_wait_def intro: same_trans)
qed

section \<open>Receiving what was sent\<close>

lemma receives_socket:
  assumes "connected os expire_at answer p"
  shows "receives (mongoc_socket_recv os expire_at) (\<lambda>k. pending answer p (sk_os k)) (\<lambda>k. pv_good p (sk_os k))"
proof -
  let ?pending = "\<lambda>k. pending answer p (sk_os k)"
  have "(\<exists>k'. recv_loop os expire_at k n = Some (None, k') \<and> ?pending k = [])
    \<or> (\<exists>bs k'. recv_loop os expire_at k n = Some (Some bs, k') \<and> pv_good p (sk_os k') \<and> ?pending k = bs @ ?pending k'
         \<and> length bs \<le> n \<and> (bs = [] \<longrightarrow> ?pending k = []))"
    if "pv_good p (sk_os k)" "0 < n" for k n
    using that
  proof (induction "pv_patience p (sk_os k)" arbitrary: k rule: less_induct)
    case less
    from assms less.prems consider (again) "try_again p (sk_os k) (os_recv os (sk_os k) n)"
      | (fail) e s' where "?pending k = []" "os_recv os (sk_os k) n = (Inl e, s')" "\<not> errno_is_again e"
      | (some) bs s' where "os_recv os (sk_os k) n = (Inr bs, s')" "pv_good p s'" "pv_out p s' = pv_out p (sk_os k)"
          "pv_taken p s' = pv_taken p (sk_os k) + length bs" "bs = take (length bs) (?pending k)" "length bs \<le> n"
          "bs = [] \<longrightarrow> ?pending k = []"
      unfolding connected_def receives_on_def by meson
    then show ?case
    proof cases
      case again
      then obtain e s' where e: "os_recv os (sk_os k) n = (Inl e, s')" "errno_is_again e" "same p (sk_os k) s'"
        "pv_patience p s' < pv_patience p (sk_os k)" unfolding try_again_def by blast
      define k1 where "k1 = capture_errno (k\<lparr>sk_last_errno := 0, sk_errno := e, sk_os := s'\<rparr>)"
      have k1: "sk_os k1 = s'" "sk_last_errno k1 = e" by (simp_all add: k1_def capture_errno_def)
      then have "pv_good p (sk_os k1)" using e(3) by (simp add: same_def)
      from wait_ready [OF assms this] obtain r k2 where w: "mongoc_socket_wait os False expire_at k1 = (r, k2)"
        "same p s' (sk_os k2)" "r \<or> ?pending k1 = []" using k1 by metis
      have same: "same p (sk_os k) (sk_os k2)" by (rule same_trans [OF e(3) w(2)])
      then have pend: "?pending k2 = ?pending k" by (simp add: pending_def same_def)
      have pend1: "?pending k1 = ?pending k" using e(3) k1 by (simp add: pending_def same_def)
      have step: "recv_loop os expire_at k n = (if r then recv_loop os expire_at k2 n else Some (None, k2))"
        using e(1,2) w(1) k1 by (subst recv_loop.simps) (simp add: sys_def flip: k1_def)
      show ?thesis
      proof (cases r)
        case True
        have "pv_patience p (sk_os k2) < pv_patience p (sk_os k)" "pv_good p (sk_os k2)"
          using e(4) w(2) by (simp_all add: same_def)
        from less.hyps [OF this less.prems(2)] show ?thesis using True step pend by simp
      next
        case False
        then show ?thesis using step w(3) pend1 by simp
      qed
    next
      case fail
      then show ?thesis by (subst recv_loop.simps) (simp add: sys_def capture_errno_def)
    next
      case (some bs s')
      have "?pending k = bs @ drop (length bs) (?pending k)" using some(5) by (metis append_take_drop_id)
      also have "drop (length bs) (?pending k) = pending answer p s'" using some(3,4) by (simp add: pending_def add.commute)
      finally have pend: "?pending k = bs @ pending answer p s'" .
      define k' where "k' = capture_errno (k\<lparr>sk_last_errno := 0, sk_os := s'\<rparr>)"
      have "recv_loop os expire_at k n = Some (Some bs, k')"
        using some(1) by (subst recv_loop.simps) (simp add: sys_def k'_def)
      moreover have "sk_os k' = s'" by (simp add: k'_def capture_errno_def)
      ultimately show ?thesis using some(2,6,7) pend by metis
    qed
  qed
  note loop = this
  show ?thesis unfolding receives_def
  proof (intro allI impI)
    fix k :: "'a sock" and n :: nat
    assume "pv_good p (sk_os k)" "0 < n"
    moreover from this have "mongoc_socket_recv os expire_at k n = Ok r" if "recv_loop os expire_at k n = Some r" for r
      using that by (simp add: mongoc_socket_recv_def returned_def)
    ultimately show "(\<exists>k'. mongoc_socket_recv os expire_at k n = Ok (None, k') \<and> ?pending k = [])
      \<or> (\<exists>bs k'. mongoc_socket_recv os expire_at k n = Ok (Some bs, k') \<and> pv_good p (sk_os k') \<and> ?pending k = bs @ ?pending k'
           \<and> length bs \<le> n \<and> (bs = [] \<longrightarrow> ?pending k = []))"
      using loop [of k n] by meson
  qed
qed

section \<open>Sending it all\<close>

lemma skip_iov_rest:
  "skip_iov sent iov = (n, vs) \<Longrightarrow> sent \<le> length (concat iov) \<Longrightarrow> drop n (concat vs) = drop sent (concat iov)
    \<and> (vs = [] \<longrightarrow> length (concat iov) = sent)"
proof (induction sent iov rule: skip_iov.induct)
  case (2 sent v iov)
  show ?case
  proof (cases "length v \<le> sent")
    case True
    with 2 show ?thesis by (simp add: le_diff_conv add.commute)
  qed (use 2 in auto)
qed simp

definition unsent :: "'s peer \<Rightarrow> 's \<Rightarrow> 's \<Rightarrow> byte list \<Rightarrow> bool" where
  "unsent p s s' bs \<longleftrightarrow> pv_good p s' \<and> pv_out p s' = pv_out p s @ bs \<and> pv_taken p s' = pv_taken p s"

lemma unsent_same: "same p s s' \<Longrightarrow> unsent p s s' []" "unsent p s s' bs \<Longrightarrow> same p s' s'' \<Longrightarrow> unsent p s s'' bs"
  and unsent_trans: "unsent p s s' as \<Longrightarrow> unsent p s' s'' bs \<Longrightarrow> unsent p s s'' (as @ bs)"
  by (simp_all add: unsent_def same_def)

text \<open>A turn ends the loop with everything sent, or makes progress.\<close>

lemma sendv_turn_cases:
  assumes "connected os expire_at answer p" "pv_good p (sk_os k)" "concat iov \<noteq> []"
  obtains
    (all) k' where "sendv_turn os expire_at iov ret k = Inl (int (ret + length (concat iov)), k')"
      "unsent p (sk_os k) (sk_os k') (concat iov)"
  | (part) n iov' k' where "sendv_turn os expire_at iov ret k = Inr (iov', ret + n, k')" "0 < n" "n < length (concat iov)"
      "concat iov' = drop n (concat iov)" "unsent p (sk_os k) (sk_os k') (take n (concat iov))"
  | (none) k' where "sendv_turn os expire_at iov ret k = Inr (iov, ret, k')" "pv_patience p (sk_os k') < pv_patience p (sk_os k)"
      "unsent p (sk_os k) (sk_os k') []"
proof -
  have wait: "\<exists>k2. (\<forall>iov ret. sendv_wait os expire_at iov ret k1 = Inr (iov, ret, k2)) \<and> same p (sk_os k1) (sk_os k2)"
    if good: "pv_good p (sk_os k1)" for k1 :: "'a sock"
  proof -
    obtain r k2 where "mongoc_socket_wait os True expire_at k1 = (r, k2)" "same p (sk_os k1) (sk_os k2)"
      "r \<or> \<not> True \<and> pending answer p (sk_os k1) = []" by (rule wait_ready [OF assms(1) good])
    then show ?thesis by (intro exI [of _ k2]) (simp add: sendv_wait_def)
  qed
  from assms consider (again) "try_again p (sk_os k) (os_sendmsg os (sk_os k) iov)"
    | (some) n s' where "os_sendmsg os (sk_os k) iov = (Inr n, s')" "0 < n" "n \<le> length (concat iov)"
        "unsent p (sk_os k) s' (take n (concat iov))"
    unfolding connected_def sends_on_def unsent_def by meson
  then show ?thesis
  proof cases
    case again
    then obtain e s' where e: "os_sendmsg os (sk_os k) iov = (Inl e, s')" "errno_is_again e" "same p (sk_os k) s'"
      "pv_patience p s' < pv_patience p (sk_os k)" unfolding try_again_def by blast
    define k1 where "k1 = capture_errno (k\<lparr>sk_errno := e, sk_os := s'\<rparr>)"
    have k1: "sk_os k1 = s'" "sk_last_errno k1 = e" by (simp_all add: k1_def capture_errno_def)
    have tried: "mongoc_socket_try_sendv os iov k = (None, k1)"
      using e(1,2) by (auto simp: mongoc_socket_try_sendv_def sys_def errno_is_again_def k1_def)
    have clock: "clock_on os expire_at p" using assms(1) by (simp add: connected_def)
    have "pv_good p (sk_os k1)" using e(3) k1 by (simp add: same_def)
    with clock obtain k2 where k2: "operation_expired os expire_at k1 = (False, k2)" "same p (sk_os k1) (sk_os k2)"
      by (rule not_expired)
    then have "pv_good p (sk_os k2)" by (simp add: same_def)
    with wait obtain k3 where k3: "sendv_wait os expire_at iov ret k2 = Inr (iov, ret, k3)" "same p (sk_os k2) (sk_os k3)"
      by blast
    have same: "same p s' (sk_os k3)" using same_trans [OF k2(2) k3(2)] k1 by simp
    have "sendv_turn os expire_at iov ret k = Inr (iov, ret, k3)"
      using tried e(2) k1 k2(1) k3(1) by (simp add: sendv_turn_def)
    moreover have "pv_patience p (sk_os k3) < pv_patience p (sk_os k)" using same e(4) by (simp add: same_def)
    moreover have "unsent p (sk_os k) (sk_os k3) []" by (rule unsent_same(1) [OF same_trans [OF e(3) same]])
    ultimately show ?thesis by (rule none)
  next
    case (some n s')
    define k1 where "k1 = capture_errno (k\<lparr>sk_os := s'\<rparr>)"
    have k1: "sk_os k1 = s'" by (simp add: k1_def capture_errno_def)
    have tried: "mongoc_socket_try_sendv os iov k = (Some n, k1)"
      using some(1) by (simp add: mongoc_socket_try_sendv_def sys_def k1_def)
    obtain m vs where skip: "skip_iov n iov = (m, vs)" by fastforce
    note rest = skip_iov_rest [OF skip some(3)]
    show ?thesis
    proof (cases vs)
      case Nil
      with rest have "length (concat iov) = n" by simp
      moreover from this have "sendv_turn os expire_at iov ret k = Inl (int (ret + length (concat iov)), k1)"
        using tried skip Nil some(2) by (simp add: sendv_turn_def)
      ultimately show ?thesis using some(4) k1 by (intro all) auto
    next
      case (Cons v us)
      from wait [of k1] some(4) k1 obtain k2 where k2: "\<And>iov ret. sendv_wait os expire_at iov ret k1 = Inr (iov, ret, k2)"
        "same p s' (sk_os k2)" unfolding unsent_def by metis
      have less: "m < length v" using skip Cons by (auto intro: skip_iov_longer)
      then have drop: "concat (drop m v # us) = drop n (concat iov)" using rest Cons by simp
      have "concat (drop m v # us) \<noteq> []" using less by simp
      then have "n < length (concat iov)" unfolding drop by simp
      moreover have "sendv_turn os expire_at iov ret k = Inr (drop m v # us, ret + n, k2)"
        using tried skip Cons some(2) k2(1) by (simp add: sendv_turn_def)
      ultimately show ?thesis using part some(2) drop unsent_same(2) [OF some(4) k2(2)] by blast
    qed
  qed
qed

lemma sendv_loop_sends:
  assumes "connected os expire_at answer p"
  shows "pv_good p (sk_os k) \<Longrightarrow> concat iov \<noteq> [] \<Longrightarrow>
    \<exists>k'. sendv_loop os expire_at iov ret k = Some (int (ret + length (concat iov)), k')
      \<and> unsent p (sk_os k) (sk_os k') (concat iov)"
proof (induction "(length (concat iov), pv_patience p (sk_os k))" arbitrary: iov ret k
    rule: wf_induct_rule [OF wf_lex_prod [OF wf_less_than wf_less_than]])
  case 1
  show ?case
  proof (rule sendv_turn_cases [OF assms 1(2,3), of ret], goal_cases all part none)
    case (all k')
    then show ?thesis by (subst sendv_loop.simps) simp
  next
    case (part n iov' k')
    have good: "pv_good p (sk_os k')" "concat iov' \<noteq> []" using part by (simp_all add: unsent_def)
    have "((length (concat iov'), pv_patience p (sk_os k')), length (concat iov), pv_patience p (sk_os k)) \<in> less_than <*lex*> less_than"
      using part(2-4) by (cases "length (concat iov)") auto
    from 1(1) [OF this good, of "ret + n"] obtain k'' where
      "sendv_loop os expire_at iov' (ret + n) k' = Some (int (ret + n + length (concat iov')), k'')"
      "unsent p (sk_os k') (sk_os k'') (concat iov')" by blast
    moreover have "ret + n + length (concat iov') = ret + length (concat iov)" using part(3,4) by simp
    moreover have "unsent p (sk_os k) (sk_os k'') (concat iov)" if "unsent p (sk_os k') (sk_os k'') (concat iov')"
      using unsent_trans [OF part(5) that] part(4) by simp
    ultimately show ?thesis using part(1) by (subst sendv_loop.simps) auto
  next
    case (none k')
    have good: "pv_good p (sk_os k')" using none by (simp add: unsent_def)
    have "((length (concat iov), pv_patience p (sk_os k')), length (concat iov), pv_patience p (sk_os k)) \<in> less_than <*lex*> less_than"
      using none by simp
    from 1(1) [OF this good 1(3), of ret] none show ?thesis
      by (subst sendv_loop.simps) (auto dest: unsent_trans)
  qed
qed

text \<open>
  C13: \<open>mongoc_socket_sendv\<close> on a connected socket. However little the system takes per call, wherever it
  cuts the entries, and however often it asks to try again, the function returns, with the number of
  all bytes of the vector, and the peer has got exactly these bytes in this order.
\<close>

theorem sendv_sends_all:
  assumes "connected os expire_at answer p" "pv_good p (sk_os k)" "concat iov \<noteq> []"
  shows "\<exists>k'. mongoc_socket_sendv os expire_at k iov = Ok (int (length (concat iov)), k')
    \<and> pv_out p (sk_os k') = pv_out p (sk_os k) @ concat iov \<and> pv_taken p (sk_os k') = pv_taken p (sk_os k) \<and> pv_good p (sk_os k')"
proof -
  have "iov \<noteq> []" using assms(3) by auto
  with sendv_loop_sends [OF assms, of 0] show ?thesis
    by (auto simp: mongoc_socket_sendv_def returned_def unsent_def)
qed

section \<open>A system\<close>

text \<open>
  A system that interrupts every other call and takes and gives at most three bytes, with a peer that
  sends back what it gets: what it has got, how much of its answer has been taken, and whether the next
  call is interrupted.
\<close>

definition echo_os :: "(byte list \<times> nat \<times> bool) os" where
  "echo_os =
     \<lparr>os_sendmsg = (\<lambda>(got, taken, again) iov.
        if again then (Inl EINTR, got, taken, False)
        else let bs = take 3 (concat iov) in (Inr (length bs), got @ bs, taken, True)),
      os_send = (\<lambda>s _. (Inl EINTR, s)),
      os_recv = (\<lambda>(got, taken, again) n.
        if again then (Inl EAGAIN, got, taken, False)
        else let bs = take (min 3 n) (drop taken got) in (Inr bs, got, taken + length bs, True)),
      os_poll = (\<lambda>s _ _. (Some True, s)),
      os_time = (\<lambda>s. (1000, s))\<rparr>"

definition echo_peer :: "(byte list \<times> nat \<times> bool) peer" where
  "echo_peer = \<lparr>pv_good = (\<lambda>(got, taken, _). taken \<le> length got), pv_out = fst, pv_taken = fst \<circ> snd, pv_patience = (\<lambda>(_, _, again). of_bool again)\<rparr>"

lemma echo_connected: "connected echo_os 2000 id echo_peer"
proof -
  have "sends_on echo_os echo_peer"
    by (auto simp: sends_on_def try_again_def echo_os_def echo_peer_def same_def errno_is_again_def Let_def min_def)
  moreover have "receives_on echo_os id echo_peer"
    by (auto simp: receives_on_def try_again_def echo_os_def echo_peer_def same_def errno_is_again_def pending_def Let_def min_def)
  moreover have "polls_on echo_os id echo_peer" "clock_on echo_os 2000 echo_peer"
    by (auto simp: polls_on_def clock_on_def echo_os_def echo_peer_def same_def)
  moreover have "\<forall>s. pv_good echo_peer s \<longrightarrow> pv_taken echo_peer s \<le> length (id (pv_out echo_peer s))" by (auto simp: echo_peer_def)
  ultimately show ?thesis by (simp add: connected_def)
qed

lemma sendv_sends_all_witness:
  "\<exists>k'. mongoc_socket_sendv echo_os 2000 \<lparr>sk_errno = 0, sk_last_errno = 0, sk_os = ([], 0, True)\<rparr> [[1, 2], [], [3, 4, 5], [6]] = Ok (6, k')
    \<and> fst (sk_os k') = [1, 2, 3, 4, 5, 6]"
  using sendv_sends_all [OF echo_connected, of "\<lparr>sk_errno = 0, sk_last_errno = 0, sk_os = ([], 0, True)\<rparr>" "[[1, 2], [], [3, 4, 5], [6]]"]
  by (auto simp: echo_peer_def)

text \<open>
  When \<open>sendmsg\<close> refuses the vector as too big, the entries are sent one by one, but -1 stays the
  result: the function reports a failure although the peer has got everything. If the last of these
  calls was interrupted instead, what had been sent before is sent again.
\<close>

definition small_os :: "(byte list \<times> nat) os" where
  "small_os =
     \<lparr>os_sendmsg = (\<lambda>(got, n) iov. if n = 1 then (Inr (length (concat iov)), got @ concat iov, n) else (Inl EMSGSIZE, got, n)),
      os_send = (\<lambda>(got, n) bs. if n = 2 \<and> got \<noteq> [] then (Inl EINTR, got, 1) else (Inr (length bs), got @ bs, n)),
      os_recv = (\<lambda>s n. (Inl EAGAIN, s)), os_poll = (\<lambda>s _ _. (Some True, s)), os_time = (\<lambda>s. (0, s))\<rparr>"

lemma too_big_sent_but_failed:
  "mongoc_socket_sendv small_os (- 1) \<lparr>sk_errno = 0, sk_last_errno = 0, sk_os = ([], 0)\<rparr> [[1, 2], [3]]
    = Ok (- 1, \<lparr>sk_errno = EMSGSIZE, sk_last_errno = EMSGSIZE, sk_os = ([1, 2, 3], 0)\<rparr>)"
  by (simp add: mongoc_socket_sendv_def sendv_loop.simps sendv_turn_def mongoc_socket_try_sendv_def sys_def small_os_def
      capture_errno_def errno_is_again_def sent_or_error_def returned_def)

lemma too_big_sent_twice:
  "\<exists>k. mongoc_socket_sendv small_os (- 1) \<lparr>sk_errno = 0, sk_last_errno = 0, sk_os = ([], 2)\<rparr> [[1, 2], [3]] = Ok (3, k)
    \<and> fst (sk_os k) = [1, 2, 1, 2, 3]"
  by (simp add: mongoc_socket_sendv_def sendv_loop.simps sendv_turn_def mongoc_socket_try_sendv_def sys_def small_os_def
      capture_errno_def errno_is_again_def sent_or_error_def returned_def operation_expired_def sendv_wait_def
      mongoc_socket_wait_def poll_timeout_def)

end
