(* ===== verification/Mongoc_Client.thy ===== *)
theory Mongoc_Client
  imports Mongoc_Connect Mongoc_Socket
begin

text \<open>
  Sending and receiving messages (\<open>mongoc-cluster.c\<close>, \<open>mongoc-client.c\<close>): the choice of a node with
  reconnecting, the \<open>getlasterror\<close> after a write, receiving a reply, and the client on top.

  The functions take an array of messages; every call in the driver passes one, and so do the
  definitions. A message that the callee changes is part of the result, as is the write concern,
  which is frozen on its first use.
\<close>

section \<open>Sending\<close>

definition cluster_inc_rpc :: "nat \<Rightarrow> unit result" where
  "cluster_inc_rpc opcode =
     (if opcode \<in> {1, 1000, 2001, 2002, 2004, 2005, 2006, 2007} then Ok () else Fault Assertion_Failed)"

text \<open>The database of a collection and \<open>.$cmd\<close>, in \<open>char cmdname[140]\<close>.\<close>

definition db_and_cmd :: "view option \<Rightarrow> bytes result" where
  "db_and_cmd name =
     rbind (deref name) (\<lambda>name. rbind (c_string name) (\<lambda>t.
       let db = takeWhile (\<lambda>c. c \<noteq> 0x2E) t in
       Ok (if db = t \<or> 134 < length db then chars ''admin.$cmd'' else db @ chars ''.$cmd'')))"

definition rpc_collection :: "mongoc_rpc_t \<Rightarrow> view option" where
  "rpc_collection rpc = (case rpc ! 5 of CString p \<Rightarrow> p | _ \<Rightarrow> None)"

definition gle_rpc :: "nat \<Rightarrow> bytes \<Rightarrow> bson_t \<Rightarrow> mongoc_rpc_t" where
  "gle_rpc request_id cmdname command =
     [Int32 0, Int32 (of_nat request_id), Int32 0, Int32 2004, Int32 MONGOC_QUERY_NONE, CString (Some (cmdname @ [0])),
      Int32 0, Int32 1, Bson (Some (bson_get_data command)), Bson None]"

definition next_request_id :: "mongoc_cluster_t \<Rightarrow> nat \<times> mongoc_cluster_t" where
  "next_request_id k = (let rid = w32 (k_request_id k + 1) in (rid, k\<lparr>k_request_id := rid\<rparr>))"

text \<open>The entries of the \<open>getlasterror\<close> that follows a message of the given opcode.\<close>

definition gather_gle ::
    "nat \<Rightarrow> mongoc_rpc_t \<Rightarrow> mongoc_write_concern_t option \<Rightarrow> mongoc_cluster_t
      \<Rightarrow> (byte list list \<times> mongoc_write_concern_t option \<times> mongoc_cluster_t) result" where
  "gather_gle opcode rpc wc k =
     (if \<not> mongoc_rpc_needs_gle opcode wc then Ok ([], wc, k)
      else if opcode \<notin> {2001, 2002, 2006} then Fault Assertion_Failed
      else
        let (rid, k) = next_request_id k in
        rbind (db_and_cmd (rpc_collection rpc)) (\<lambda>cmdname.
        rbind (case wc of None \<Rightarrow> Fault Null_Deref | Some wc \<Rightarrow> mongoc_write_concern_freeze wc) (\<lambda>wc.
        rbind (mongoc_rpc_gather 2004 (gle_rpc rid cmdname (wc_compiled wc))) (\<lambda>(_, iov).
          Ok (iov, Some wc, k)))))"

text \<open>
  What both ways of sending do once a node is chosen. The result is zero for a failure, or the hint;
  the vector is never empty, as every known opcode has a header.
\<close>

type_synonym 'w sent = "nat \<times> mongoc_rpc_t \<times> mongoc_write_concern_t option \<times> 'w conn"

definition deliver ::
    "'w network \<Rightarrow> nat \<Rightarrow> mongoc_rpc_t \<Rightarrow> mongoc_write_concern_t option \<Rightarrow> 'w conn \<Rightarrow> 'w sent result" where
  "deliver nw i rpc wc s =
     (case n_stream (the_node (Slot i) s) of
        None \<Rightarrow> Fault Assertion_Failed
      | Some h \<Rightarrow>
          let opcode = rpc_opcode rpc; (rid, k) = next_request_id (cn_cluster s) in
          rbind (cluster_inc_rpc opcode) (\<lambda>_.
          rbind (mongoc_rpc_gather opcode (rpc[1 := Int32 (of_nat rid)])) (\<lambda>(rpc, iov).
            if k_max_msg_size k < as_int32 (rpc_int (rpc ! 0))
            then Ok (0, rpc, wc, fail_with MONGOC_ERROR_CLIENT MONGOC_ERROR_CLIENT_TOO_BIG (s\<lparr>cn_cluster := k\<rparr>))
            else
              rbind (gather_gle opcode rpc wc k) (\<lambda>(gle, wc, k).
              rbind (nw_writev nw (cn_world s) h (iov @ gle)) (\<lambda>(n, w).
                let s = s\<lparr>cn_cluster := k, cn_world := w\<rparr> in
                if n = 0
                then Ok (0, rpc, wc, disconnect_node nw (Slot i) (fail_with MONGOC_ERROR_STREAM MONGOC_ERROR_STREAM_SOCKET s))
                else Ok (w32 (n_index (the_node (Slot i) s) + 1), rpc, wc, s))))))"

text \<open>The selection, with the error it may have set.\<close>

definition select_node ::
    "'w network \<Rightarrow> mongoc_rpc_t \<Rightarrow> nat \<Rightarrow> mongoc_read_prefs_t option \<Rightarrow> 'w conn
      \<Rightarrow> (nat option \<times> mongoc_rpc_t \<times> 'w conn) result" where
  "select_node nw rpc hint prefs s =
     rbind (mongoc_cluster_select nw (cn_cluster s) [rpc] hint prefs (cn_world s)) (\<lambda>(i, rpcs, e, w).
       Ok (i, rpcs ! 0, s\<lparr>cn_error := (case e of None \<Rightarrow> cn_error s | Some e \<Rightarrow> Some e), cn_world := w\<rparr>))"

definition mongoc_cluster_try_sendv ::
    "'w network \<Rightarrow> mongoc_rpc_t \<Rightarrow> nat \<Rightarrow> mongoc_write_concern_t option \<Rightarrow> mongoc_read_prefs_t option \<Rightarrow> 'w conn
      \<Rightarrow> 'w sent result" where
  "mongoc_cluster_try_sendv nw rpc hint wc prefs s =
     rbind (select_node nw rpc hint prefs s) (\<lambda>(i, rpc, s). case i of
         None \<Rightarrow> Ok (0, rpc, wc, s)
       | Some i \<Rightarrow> deliver nw i rpc wc s)"

text \<open>The first argument is the number of retries that are left, at first \<open>MAX_RETRY_COUNT\<close>.\<close>

fun select_or_reconnect ::
    "nat \<Rightarrow> 'w network \<Rightarrow> mongoc_rpc_t \<Rightarrow> nat \<Rightarrow> mongoc_read_prefs_t option \<Rightarrow> 'w conn
      \<Rightarrow> (nat option \<times> mongoc_rpc_t \<times> 'w conn) result" where
  "select_or_reconnect 0 nw rpc hint prefs s = select_node nw rpc hint prefs s"
| "select_or_reconnect (Suc n) nw rpc hint prefs s =
     rbind (select_node nw rpc hint prefs s) (\<lambda>(i, rpc, s).
       if i \<noteq> None then Ok (i, rpc, s)
       else rbind (mongoc_cluster_reconnect nw s) (\<lambda>(ok, s).
         if \<not> ok then Ok (None, rpc, s) else select_or_reconnect n nw rpc hint prefs s))"

abbreviation (input) MAX_RETRY_COUNT :: nat where "MAX_RETRY_COUNT \<equiv> 3"
abbreviation (input) UNHEALTHY_RECONNECT_TIMEOUT_USEC :: int where "UNHEALTHY_RECONNECT_TIMEOUT_USEC \<equiv> 20000000"

definition mongoc_cluster_preselect ::
    "'w network \<Rightarrow> nat \<Rightarrow> mongoc_read_prefs_t option \<Rightarrow> 'w conn \<Rightarrow> (nat \<times> 'w conn) result" where
  "mongoc_cluster_preselect nw opcode prefs s =
     rbind (select_or_reconnect MAX_RETRY_COUNT nw [Int32 0, Int32 0, Int32 0, Int32 (of_nat opcode), Int32 0] 0 prefs s)
       (\<lambda>(i, _, s). Ok (case i of None \<Rightarrow> 0 | Some i \<Rightarrow> w32 (n_index (the_node (Slot i) s) + 1), s))"

definition wants_reconnect :: "mongoc_cluster_t \<Rightarrow> int \<Rightarrow> bool" where
  "wants_reconnect k now \<longleftrightarrow>
     k_state k = MONGOC_CLUSTER_STATE_DEAD
     \<or> k_state k = MONGOC_CLUSTER_STATE_UNHEALTHY \<and> k_last_reconnect k + UNHEALTHY_RECONNECT_TIMEOUT_USEC \<le> now"

definition mongoc_cluster_sendv ::
    "'w network \<Rightarrow> mongoc_rpc_t \<Rightarrow> nat \<Rightarrow> mongoc_write_concern_t option \<Rightarrow> mongoc_read_prefs_t option \<Rightarrow> 'w conn
      \<Rightarrow> 'w sent result" where
  "mongoc_cluster_sendv nw rpc hint wc prefs s =
     (let (now, w) = nw_time nw (cn_world s); s = s\<lparr>cn_world := w\<rparr> in
      rbind (if wants_reconnect (cn_cluster s) now then mongoc_cluster_reconnect nw s else Ok (True, s)) (\<lambda>(ok, s).
        if \<not> ok then Ok (0, rpc, wc, s)
        else rbind (select_or_reconnect MAX_RETRY_COUNT nw rpc hint prefs s) (\<lambda>(i, rpc, s). case i of
            None \<Rightarrow> Ok (0, rpc, wc, s)
          | Some i \<Rightarrow> deliver nw i rpc wc s)))"

section \<open>Receiving\<close>

definition buffer_from :: "mongoc_buffer_t \<Rightarrow> nat \<Rightarrow> byte list result" where
  "buffer_from b pos =
     (case bf_data b of None \<Rightarrow> Fault Null_Deref
      | Some m \<Rightarrow> rbind (cells_read (bf_off b + pos) (bf_len b - pos) m) the_bytes)"

text \<open>\<open>None\<close> is the result \<open>false\<close>.\<close>

definition mongoc_cluster_try_recv ::
    "'w network \<Rightarrow> mongoc_buffer_t \<Rightarrow> nat \<Rightarrow> 'w conn \<Rightarrow> (mongoc_rpc_t option \<times> mongoc_buffer_t \<times> 'w conn) result" where
  "mongoc_cluster_try_recv nw b hint s =
     (if hint = 0 \<or> MONGOC_CLUSTER_MAX_NODES < hint then Ok (None, b, s)
      else
        let r = Slot (hint - 1); pos = bf_len b; failure = (\<lambda>b s. Ok (None, b, disconnect_node nw r s)) in
        case n_stream (the_node r s) of
          None \<Rightarrow> Ok (None, b, fail_with MONGOC_ERROR_CLIENT MONGOC_ERROR_CLIENT_NOT_READY s)
        | Some h \<Rightarrow>
            rbind (read_into nw h b 4 s) (\<lambda>(ok, b, s).
              if \<not> ok then failure b s
              else rbind (buffer_from b pos) (\<lambda>bs.
                let msg_len = as_int32 (le_nat bs) in
                if msg_len < 16 \<or> k_max_msg_size (cn_cluster s) < msg_len then failure b (invalid_reply s)
                else rbind (read_into nw h b (nat msg_len - 4) s) (\<lambda>(ok, b, s).
                  if \<not> ok then failure b s
                  else rbind (buffer_from b pos) (\<lambda>bs.
                    rbind (mongoc_rpc_scatter bs (nat msg_len)) (\<lambda>rpc. case rpc of
                        None \<Rightarrow> failure b (invalid_reply s)
                      | Some rpc \<Rightarrow> rbind (cluster_inc_rpc (rpc_opcode rpc)) (\<lambda>_. Ok (Some rpc, b, s))))))))"

section \<open>The client\<close>

record 'w client =
  mc_in_exhaust :: bool
  mc_request_id :: nat
  mc_read_prefs :: "mongoc_read_prefs_t option"
  mc_conn :: "'w conn"

definition mongoc_client_sendv ::
    "'w network \<Rightarrow> mongoc_rpc_t \<Rightarrow> nat \<Rightarrow> mongoc_write_concern_t option \<Rightarrow> mongoc_read_prefs_t option \<Rightarrow> 'w client
      \<Rightarrow> (nat \<times> mongoc_rpc_t \<times> mongoc_write_concern_t option \<times> 'w client) result" where
  "mongoc_client_sendv nw rpc hint wc prefs c =
     (if mc_in_exhaust c
      then Ok (0, rpc, wc, c\<lparr>mc_conn := fail_with MONGOC_ERROR_CLIENT MONGOC_ERROR_CLIENT_IN_EXHAUST (mc_conn c)\<rparr>)
      else
        let rid = w32 (mc_request_id c + 1); rpc = rpc[0 := Int32 0, 1 := Int32 (of_nat rid)];
            c = c\<lparr>mc_request_id := rid\<rparr>; s = mc_conn c in
        rbind (case k_state (cn_cluster s) of
            MONGOC_CLUSTER_STATE_BORN \<Rightarrow> mongoc_cluster_sendv nw rpc hint wc prefs s
          | MONGOC_CLUSTER_STATE_DEAD \<Rightarrow> Ok (0, rpc, wc, fail_with MONGOC_ERROR_CLIENT MONGOC_ERROR_CLIENT_NOT_READY s)
          | _ \<Rightarrow> mongoc_cluster_try_sendv nw rpc hint wc prefs s) (\<lambda>(h, rpc, wc, s). Ok (h, rpc, wc, c\<lparr>mc_conn := s\<rparr>)))"

definition mongoc_client_recv ::
    "'w network \<Rightarrow> mongoc_buffer_t \<Rightarrow> nat \<Rightarrow> 'w client \<Rightarrow> (mongoc_rpc_t option \<times> mongoc_buffer_t \<times> 'w client) result" where
  "mongoc_client_recv nw b hint c =
     (if hint = 0 \<or> MONGOC_CLUSTER_MAX_NODES < hint then Ok (None, b, c)
      else rbind (mongoc_cluster_try_recv nw b hint (mc_conn c)) (\<lambda>(rpc, b, s). Ok (rpc, b, c\<lparr>mc_conn := s\<rparr>)))"

definition holds_utf8 :: "bson_t \<Rightarrow> string \<Rightarrow> bool result" where
  "holds_utf8 b key =
     rbind (bson_iter_init_find b (ascii key)) (\<lambda>(found, it). if found then iter_holds it BSON_TYPE_UTF8 else Ok False)"

text \<open>The code is that of an \<open>int32\<close> field, zero without one, and a failed query when there is no message.\<close>

definition bson_to_error :: "bson_t \<Rightarrow> bson_error_t result" where
  "bson_to_error b =
     rbind (bson_iter_init_find b (ascii ''code'')) (\<lambda>(found, it).
     rbind (if found then iter_holds it BSON_TYPE_INT32 else Ok False) (\<lambda>h.
     rbind (if h then rbind (bson_iter_int32 it) (\<lambda>w. Ok (unat w)) else Ok 0) (\<lambda>code.
     rbind (holds_utf8 b ''$err'') (\<lambda>err.
     rbind (if err then Ok True else holds_utf8 b ''errmsg'') (\<lambda>msg.
       Ok (if msg then (MONGOC_ERROR_QUERY, code) else (MONGOC_ERROR_QUERY, MONGOC_ERROR_QUERY_FAILURE)))))))"

definition set_bson_error :: "bson_t \<Rightarrow> 'w conn \<Rightarrow> 'w conn result" where
  "set_bson_error b s = rbind (bson_to_error b) (\<lambda>e. Ok (s\<lparr>cn_error := Some e\<rparr>))"

text \<open>A missing \<open>ok\<close> is read as a double through the iterator that is past the end.\<close>

definition check_gle_ok :: "bson_t \<Rightarrow> 'w conn \<Rightarrow> 'w conn result" where
  "check_gle_ok b s =
     rbind (bson_iter_init_find b (ascii ''ok'')) (\<lambda>(found, it).
     rbind (if found then iter_holds it BSON_TYPE_DOUBLE else Ok True) (\<lambda>look.
       if \<not> look then Ok s
       else rbind (bson_iter_double it) (\<lambda>d. if double_is_zero d then set_bson_error b s else Ok s)))"

text \<open>The result, the document of the reply if there is one, and the connection.\<close>

definition mongoc_client_recv_gle :: "'w network \<Rightarrow> nat \<Rightarrow> 'w conn \<Rightarrow> (bool \<times> bson_t option \<times> 'w conn) result" where
  "mongoc_client_recv_gle nw hint s =
     (if hint = 0 then Ok (False, None, s)
      else rbind (mongoc_cluster_try_recv nw empty_buffer hint s) (\<lambda>(rpc, _, s). case rpc of
          None \<Rightarrow> Ok (False, None, s)
        | Some rpc \<Rightarrow>
            if rpc_opcode rpc \<noteq> MONGOC_OPCODE_REPLY then Ok (False, None, invalid_reply s)
            else rbind (mongoc_rpc_reply_get_first (reply_of rpc)) (\<lambda>first. case first of
                None \<Rightarrow> Ok (True, None, s)
              | Some b \<Rightarrow> rbind (bson_copy_to b) (\<lambda>doc.
                  if has_flag (rp_flags (reply_of rpc)) MONGOC_REPLY_QUERY_FAILURE
                  then rbind (set_bson_error b s) (\<lambda>s. Ok (False, Some doc, s))
                  else rbind (check_gle_ok b s) (\<lambda>s. Ok (True, Some doc, s))))))"

definition mongoc_client_warm_up :: "'w network \<Rightarrow> 'w client \<Rightarrow> (bool \<times> 'w client) result" where
  "mongoc_client_warm_up nw c =
     (let s = mc_conn c in
      rbind (case k_state (cn_cluster s) of
          MONGOC_CLUSTER_STATE_BORN \<Rightarrow>
            rbind (one_command ''ping'') (\<lambda>cmd.
            rbind (mongoc_cluster_command_early nw (chars ''admin'') cmd False s) (\<lambda>(ok, _, s). Ok (ok, s)))
        | MONGOC_CLUSTER_STATE_DEAD \<Rightarrow> mongoc_cluster_reconnect nw s
        | _ \<Rightarrow> Ok (True, s)) (\<lambda>(ok, s). Ok (ok, c\<lparr>mc_conn := s\<rparr>)))"

section \<open>A stream to a peer\<close>

text \<open>The message as it leaves: the cluster puts its own request id over the client's.\<close>

definition outgoing :: "mongoc_cluster_t \<Rightarrow> mongoc_rpc_t \<Rightarrow> mongoc_rpc_t" where
  "outgoing k rpc = rpc[0 := Int32 0, 1 := Int32 (of_nat (w32 (k_request_id k + 1)))]"

lemma sendable_header:
  assumes "op_fields opcode = Some fs" "list_all2 sendable fs rpc" "j < 4"
  shows "list_all2 sendable fs (rpc[j := v])"
proof -
  from op_fields_cases [OF assms(1)] obtain fs' where "fs = op_header @ fs'" .
  then have "sendable (fs ! j) v" using assms(3) by (auto simp: op_header_def less_Suc_eq numeral_eq_Suc)
  from list_all2_update_cong [OF assms(2) this, of j] show ?thesis by simp
qed

lemma op_fields_known: "op_fields opcode = Some fs \<Longrightarrow> opcode \<in> {1, 1000, 2001, 2002, 2004, 2005, 2006, 2007}"
  by (auto simp: op_fields_def split: if_split_asm)

lemma known_opcode_word: "op_fields opcode = Some fs \<Longrightarrow> unat (of_nat opcode :: 32 word) = opcode"
  by (drule op_fields_known) auto

lemma buffer_from_ok:
  assumes "buffer_ok b" "pos \<le> bf_len b"
  shows "buffer_from b pos = Ok (drop pos (contents b))"
proof -
  from assms(1) obtain m where m: "bf_data b = Some m" "length m = bf_datalen b" "bf_off b + bf_len b \<le> bf_datalen b"
    "None \<notin> set (take (bf_len b) (drop (bf_off b) m))"
    unfolding buffer_ok_def by blast
  have t: "take (bf_len b - pos) (drop (bf_off b + pos) m) = drop pos (take (bf_len b) (drop (bf_off b) m))"
    by (simp add: drop_take add.commute)
  have "None \<notin> set (drop pos (take (bf_len b) (drop (bf_off b) m)))" using m(4) by (meson in_set_dropD)
  then show ?thesis using m(1-3) assms(2)
    by (simp add: buffer_from_def cells_read_def the_bytes_def t contents_def drop_map)
qed

text \<open>
  What the client needs of a stream: what it writes reaches the peer whole and in order, and it reads
  exactly what the peer answers.
\<close>

locale peer_stream =
  fixes nw :: "'w network" and h :: nat and good :: "'w \<Rightarrow> bool" and out pend :: "'w \<Rightarrow> byte list"
    and answer :: "byte list \<Rightarrow> byte list"
  assumes writes: "good w \<Longrightarrow> concat iov \<noteq> [] \<Longrightarrow>
      \<exists>w' z. nw_writev nw w h iov = Ok (int (length (concat iov)), w') \<and> good w' \<and> out w' = out w @ concat iov
        \<and> answer (out w @ concat iov) = answer (out w) @ z \<and> pend w' = pend w @ z"
    and reads: "delivers_exactly (\<lambda>w. nw_read nw w h) pend good"
begin

lemma deliver_sends:
  assumes node: "n_stream (the_node (Slot i) s) = Some h" and good: "good (cn_world s)"
    and opcode: "op_fields opcode = Some fs" "list_all2 sendable fs rpc" "rpc ! 3 = Int32 (of_nat opcode)"
    and gather: "mongoc_rpc_gather opcode (rpc[1 := Int32 (of_nat rid)]) = Ok (rpc', iov)"
    and rid: "rid = w32 (k_request_id (cn_cluster s) + 1)"
    and size: "int (length (concat iov)) \<le> k_max_msg_size (cn_cluster s)" "length (concat iov) \<le> INT32_MAX"
    and gle: "\<not> mongoc_rpc_needs_gle opcode wc"
  shows "\<exists>z w'. deliver nw i rpc wc s
      = Ok (w32 (n_index (the_node (Slot i) s) + 1), rpc', wc, s\<lparr>cn_cluster := (cn_cluster s)\<lparr>k_request_id := rid\<rparr>, cn_world := w'\<rparr>)
    \<and> good w' \<and> out w' = out (cn_world s) @ concat iov
    \<and> answer (out (cn_world s) @ concat iov) = answer (out (cn_world s)) @ z \<and> pend w' = pend (cn_world s) @ z"
proof -
  note op = op_fields_known [OF opcode(1)]
  then have code: "rpc_opcode rpc = opcode" using opcode(3) by (auto simp: rpc_opcode_def rpc_int_def)
  have "list_all2 sendable fs (rpc[1 := Int32 (of_nat rid)])" by (rule sendable_header [OF opcode(1,2)]) simp
  from message_round_trip [OF opcode(1) this _ gather size(2)] opcode(3)
  have iov: "16 \<le> length (concat iov)" "rpc' ! 0 = Int32 (of_nat (length (concat iov)))" by auto
  then have ne: "concat iov \<noteq> []" by (cases "concat iov") (simp_all del: concat_eq_Nil_conv)
  from writes [OF good ne] obtain w' z where w: "nw_writev nw (cn_world s) h iov = Ok (int (length (concat iov)), w')"
    "good w'" "out w' = out (cn_world s) @ concat iov"
    "answer (out (cn_world s) @ concat iov) = answer (out (cn_world s)) @ z" "pend w' = pend (cn_world s) @ z" by blast
  have "as_int32 (rpc_int (rpc' ! 0)) = int (length (concat iov))"
    using iov(2) size(2) by (simp add: rpc_int_def unat_of_nat as_int32_nonneg)
  moreover have inc: "cluster_inc_rpc opcode = Ok ()" using op by (simp add: cluster_inc_rpc_def)
  moreover have rid': "next_request_id (cn_cluster s) = (rid, (cn_cluster s)\<lparr>k_request_id := rid\<rparr>)"
    by (simp add: next_request_id_def rid Let_def)
  ultimately have "deliver nw i rpc wc s
      = Ok (w32 (n_index (the_node (Slot i) s) + 1), rpc', wc, s\<lparr>cn_cluster := (cn_cluster s)\<lparr>k_request_id := rid\<rparr>, cn_world := w'\<rparr>)"
    using node code gather size gle w(1) ne inc rid'
    by (simp add: deliver_def gather_gle_def the_node_def Let_def del: concat_eq_Nil_conv)
  with w show ?thesis by blast
qed

lemma try_recv_receives:
  assumes hint: "0 < hint" "hint \<le> 12" and node: "n_stream (the_node (Slot (hint - 1)) s) = Some h" and good: "good (cn_world s)"
    and buffer: "buffer_ok b" "bf_len b = 0" "4 \<le> bf_datalen b" "bf_datalen b + length (concat iov) < INT32_MAX"
    and opcode: "op_fields opcode = Some fs" "list_all2 sendable fs rpc" "rpc ! 3 = Int32 (of_nat opcode)"
    and gather: "mongoc_rpc_gather opcode rpc = Ok (rpc', iov)"
    and size: "int (length (concat iov)) \<le> k_max_msg_size (cn_cluster s)"
    and pend: "pend (cn_world s) = concat iov @ rest"
  shows "\<exists>reply b' w'. mongoc_cluster_try_recv nw b hint s = Ok (Some reply, b', s\<lparr>cn_world := w'\<rparr>)
    \<and> list_all2 carries rpc' reply \<and> good w' \<and> pend w' = rest"
proof -
  let ?L = "length (concat iov)"
  have L: "?L \<le> INT32_MAX" using buffer(4) by simp
  from message_round_trip [OF opcode gather L, of "[]"] obtain reply where msg: "take 4 (concat iov) = le_bytes 4 ?L" "16 \<le> ?L"
    "rpc' = Int32 (of_nat ?L) # tl rpc" "mongoc_rpc_scatter (concat iov) ?L = Ok (Some reply)" "list_all2 carries rpc' reply"
    by auto
  have empty: "contents b = []" using buffer(1,2) length_contents by force
  have bound: "bf_datalen b + 4 < INT32_MAX" using buffer(4) msg(2) by simp
  from append_from_stream_delivers [OF reads buffer(1) good _ this] pend msg(2) obtain b1 w1 where 1:
    "mongoc_buffer_append_from_stream (\<lambda>w. nw_read nw w h) b (cn_world s) 4 = Ok (True, b1, w1)" "buffer_ok b1" "good w1"
    "contents b1 = take 4 (concat iov)" "pend w1 = drop 4 (concat iov) @ rest"
    by (auto simp: empty)
  have d1: "bf_datalen b1 = bf_datalen b" using append_from_stream_datalen [OF 1(1) buffer(1)] buffer(2,3) by simp
  have bs1: "buffer_from b1 0 = Ok (le_bytes 4 ?L)" using buffer_from_ok [OF 1(2), of 0] 1(4) msg(1) by simp
  have ml: "as_int32 (le_nat (le_bytes 4 ?L)) = int ?L" using L by (simp add: le_nat_le_bytes as_int32_nonneg)
  have n: "0 < ?L - 4" "bf_datalen b1 + (?L - 4) < INT32_MAX" using msg(2) d1 buffer(4) by simp_all
  have more: "?L - 4 \<le> length (pend w1)" "take (?L - 4) (pend w1) = drop 4 (concat iov)" "drop (?L - 4) (pend w1) = rest"
    using 1(5) by simp_all
  from append_from_stream_delivers [OF reads 1(2,3) n] obtain b2 w2 where 2:
    "mongoc_buffer_append_from_stream (\<lambda>w. nw_read nw w h) b1 w1 (?L - 4) = Ok (True, b2, w2)" "buffer_ok b2" "good w2"
    "contents b2 = take 4 (concat iov) @ drop 4 (concat iov)" "pend w2 = rest"
    using 1(4) by (auto simp: more)
  have bs2: "buffer_from b2 0 = Ok (concat iov)" using buffer_from_ok [OF 2(2), of 0] 2(4) by simp
  have op: "rpc_opcode reply = opcode"
  proof -
    have "3 < length rpc" using list_all2_lengthD [OF opcode(2)] op_fields_cases [OF opcode(1)] by (force simp: op_header_def)
    then have "rpc' ! 3 = Int32 (of_nat opcode)" "3 < length rpc'" using msg(3) opcode(3) by (cases rpc; simp)+
    with list_all2_nthD [OF msg(5), of 3] have "reply ! 3 = Int32 (of_nat opcode)" by (auto simp: carries_def)
    then show ?thesis using known_opcode_word [OF opcode(1)] by (simp add: rpc_opcode_def rpc_int_def)
  qed
  have read1: "read_into nw h b 4 s = Ok (True, b1, s\<lparr>cn_world := w1\<rparr>)" using 1(1) by (simp add: read_into_def)
  have read2: "read_into nw h b1 (?L - 4) (s\<lparr>cn_world := w1\<rparr>) = Ok (True, b2, s\<lparr>cn_world := w2\<rparr>)"
    using 2(1) by (simp add: read_into_def)
  have "mongoc_cluster_try_recv nw b hint s = Ok (Some reply, b2, s\<lparr>cn_world := w2\<rparr>)"
    using hint node buffer(2) read1 bs1 ml msg(2,4) size read2 bs2 op op_fields_known [OF opcode(1)]
    by (simp add: mongoc_cluster_try_recv_def the_node_def Let_def cluster_inc_rpc_def)
  then show ?thesis using msg(5) 2(3,5) by blast
qed

text \<open>A message and its reply, in direct mode.\<close>

lemma exchange:
  fixes c :: "'w client"
  defines "k \<equiv> cn_cluster (mc_conn c)" and "w \<equiv> cn_world (mc_conn c)"
  assumes client: "\<not> mc_in_exhaust c" "k_state k = MONGOC_CLUSTER_STATE_HEALTHY \<or> k_state k = MONGOC_CLUSTER_STATE_UNHEALTHY"
      "k_mode k = MONGOC_CLUSTER_DIRECT" "n_stream (k_nodes k ! 0) = Some h" "n_index (k_nodes k ! 0) = 0" "hint \<le> 12"
    and request: "op_fields opcode = Some fs" "list_all2 sendable fs rpc" "rpc ! 3 = Int32 (of_nat opcode)"
      "mongoc_rpc_gather opcode (outgoing k rpc) = Ok (sent, iov)" "\<not> mongoc_rpc_needs_gle opcode wc"
    and reply: "op_fields opcode' = Some fs'" "list_all2 sendable fs' reply" "reply ! 3 = Int32 (of_nat opcode')"
      "mongoc_rpc_gather opcode' reply = Ok (reply', iov')"
    and size: "int (length (concat iov)) \<le> k_max_msg_size k" "int (length (concat iov')) \<le> k_max_msg_size k"
      "length (concat iov) \<le> INT32_MAX" "bf_datalen b + length (concat iov') < INT32_MAX"
    and buffer: "buffer_ok b" "bf_len b = 0" "4 \<le> bf_datalen b"
    and peer: "good w" "pend w = []" "answer (out w @ concat iov) = answer (out w) @ concat iov'"
  shows "\<exists>c' received b' c''.
    mongoc_client_sendv nw rpc hint wc prefs c = Ok (1, sent, wc, c')
    \<and> out (cn_world (mc_conn c')) = out w @ concat iov
    \<and> mongoc_client_recv nw b 1 c' = Ok (Some received, b', c'') \<and> list_all2 carries reply' received
    \<and> pend (cn_world (mc_conn c'')) = []"
proof -
  let ?rid = "w32 (k_request_id k + 1)" and ?cid = "w32 (mc_request_id c + 1)"
  define rpc1 where "rpc1 = rpc[0 := Int32 0, 1 := Int32 (of_nat ?cid)]"
  have "list_all2 sendable fs rpc1" unfolding rpc1_def by (intro sendable_header [OF request(1)] request(2)) simp_all
  moreover have "rpc1 ! 3 = Int32 (of_nat opcode)" "rpc1[1 := Int32 (of_nat ?rid)] = outgoing k rpc"
    using request(3) by (simp_all add: rpc1_def outgoing_def)
  ultimately have out1: "list_all2 sendable fs rpc1" "rpc1 ! 3 = Int32 (of_nat opcode)"
    "mongoc_rpc_gather opcode (rpc1[1 := Int32 (of_nat ?rid)]) = Ok (sent, iov)" using request(4) by simp_all
  have node: "n_stream (the_node (Slot 0) (mc_conn c)) = Some h" "n_index (the_node (Slot 0) (mc_conn c)) = 0"
    using client(4,5) by (simp_all add: the_node_def k_def)
  from deliver_sends [OF node(1) peer(1) [unfolded w_def] request(1) out1 _ size(1) [unfolded k_def] size(3) request(5)]
  obtain w' z where d: "deliver nw 0 rpc1 wc (mc_conn c)
      = Ok (1, sent, wc, (mc_conn c)\<lparr>cn_cluster := k\<lparr>k_request_id := ?rid\<rparr>, cn_world := w'\<rparr>)"
    "good w'" "out w' = out w @ concat iov" "answer (out w @ concat iov) = answer (out w) @ z" "pend w' = pend w @ z"
    using node(2) by (auto simp: k_def w_def w32_def)
  define s' where "s' = (mc_conn c)\<lparr>cn_cluster := k\<lparr>k_request_id := ?rid\<rparr>, cn_world := w'\<rparr>"
  have "select_node nw rpc1 hint prefs (mc_conn c) = Ok (Some 0, rpc1, mc_conn c)"
    using client(3,4,6) by (simp add: select_node_def mongoc_cluster_select_def k_def)
  then have "mongoc_cluster_try_sendv nw rpc1 hint wc prefs (mc_conn c) = Ok (1, sent, wc, s')"
    using d(1) by (simp add: mongoc_cluster_try_sendv_def s'_def)
  then have send: "mongoc_client_sendv nw rpc hint wc prefs c = Ok (1, sent, wc, c\<lparr>mc_request_id := ?cid, mc_conn := s'\<rparr>)"
    using client(1,2) by (auto simp: mongoc_client_sendv_def k_def rpc1_def Let_def)
  have "z = concat iov'" using d(4) peer(3) by simp
  then have pend: "pend (cn_world s') = concat iov' @ []" using d(5) peer(2) by (simp add: s'_def)
  have node': "n_stream (the_node (Slot (1 - 1)) s') = Some h" "good (cn_world s')"
    "int (length (concat iov')) \<le> k_max_msg_size (cn_cluster s')"
    using client(4) d(2) size(2) by (simp_all add: the_node_def s'_def)
  from try_recv_receives [OF _ _ node'(1,2) buffer size(4) reply node'(3) pend] obtain received b' w''
    where r: "mongoc_cluster_try_recv nw b 1 s' = Ok (Some received, b', s'\<lparr>cn_world := w''\<rparr>)"
      "list_all2 carries reply' received" "pend w'' = []" by auto
  show ?thesis
    by (rule exI [of _ "c\<lparr>mc_request_id := ?cid, mc_conn := s'\<rparr>"]) (use send d(3) r in \<open>auto simp: mongoc_client_recv_def s'_def\<close>)
qed

end

section \<open>The stream of a connection\<close>

text \<open>The network of one connection: its stream is a buffered stream on the stream of a socket.\<close>

definition socket_network :: "'s os \<Rightarrow> int \<Rightarrow> 's sock mongoc_stream_buffered_t network" where
  "socket_network os expire_at =
     \<lparr>nw_connect = \<lambda>w _. (Inl (MONGOC_ERROR_STREAM, MONGOC_ERROR_STREAM_SOCKET), w),
      nw_read = \<lambda>w _. connection_read (mongoc_socket_recv os expire_at) w,
      nw_writev = \<lambda>w _. mongoc_stream_buffered_writev (mongoc_stream_socket_writev os expire_at) w,
      nw_close = \<lambda>w _. w,
      nw_time = \<lambda>w. (let (t, k) = sk_time os (bs_base_stream w) in (t, w\<lparr>bs_base_stream := k\<rparr>)),
      nw_rand = \<lambda>w. (0, w)\<rparr>"

definition sock_good :: "'s peer \<Rightarrow> 's sock mongoc_stream_buffered_t \<Rightarrow> bool" where
  "sock_good p = buffered_good (\<lambda>k. pv_good p (sk_os k))"

definition sock_out :: "'s peer \<Rightarrow> 's sock mongoc_stream_buffered_t \<Rightarrow> byte list" where
  "sock_out p w = pv_out p (sk_os (bs_base_stream w))"

definition sock_pending :: "(byte list \<Rightarrow> byte list) \<Rightarrow> 's peer \<Rightarrow> 's sock mongoc_stream_buffered_t \<Rightarrow> byte list" where
  "sock_pending answer p = buffered_pending (\<lambda>k. pending answer p (sk_os k))"

lemma socket_peer_stream:
  assumes "connected os expire_at answer p"
  shows "peer_stream (socket_network os expire_at) h (sock_good p) (sock_out p) (sock_pending answer p) answer"
proof
  show "delivers_exactly (\<lambda>w. nw_read (socket_network os expire_at) w h) (sock_pending answer p) (sock_good p)"
    using connection_delivers_exactly [OF receives_socket [OF assms]]
    by (simp add: socket_network_def sock_pending_def sock_good_def)
next
  fix w :: "'a sock mongoc_stream_buffered_t" and iov :: "byte list list"
  let ?s = "sk_os (bs_base_stream w)"
  assume good: "sock_good p w" and ne: "concat iov \<noteq> []"
  then have g: "pv_good p ?s" by (simp add: sock_good_def buffered_good_def)
  from sendv_loop_sends [OF assms g ne, of 0] obtain k' where k':
    "sendv_loop os expire_at iov 0 (bs_base_stream w) = Some (int (length (concat iov)), k')" "unsent p ?s (sk_os k') (concat iov)"
    by auto
  obtain z where z: "answer (pv_out p ?s @ concat iov) = answer (pv_out p ?s) @ z"
    using assms unfolding connected_def by blast
  have "pv_taken p ?s \<le> length (answer (pv_out p ?s))" using assms g unfolding connected_def by blast
  then have "pending answer p (sk_os k') = pending answer p ?s @ z"
    using k'(2) z by (simp add: pending_def unsent_def)
  moreover have "iov \<noteq> []" using ne by auto
  ultimately show "\<exists>w' z. nw_writev (socket_network os expire_at) w h iov = Ok (int (length (concat iov)), w') \<and> sock_good p w'
      \<and> sock_out p w' = sock_out p w @ concat iov \<and> answer (sock_out p w @ concat iov) = answer (sock_out p w) @ z
      \<and> sock_pending answer p w' = sock_pending answer p w @ z"
    using k' z good
    by (intro exI [of _ "w\<lparr>bs_base_stream := k'\<lparr>sk_errno := sk_last_errno k'\<rparr>\<rparr>"] exI [of _ z])
       (simp add: socket_network_def mongoc_stream_buffered_writev_def mongoc_stream_socket_writev_def mongoc_socket_sendv_def
         returned_def sock_good_def sock_out_def sock_pending_def buffered_good_def buffered_pending_def unsent_def)
qed

interpretation echo: peer_stream "socket_network echo_os 2000" h "sock_good echo_peer" "sock_out echo_peer"
    "sock_pending id echo_peer" id for h
  by (rule socket_peer_stream [OF echo_connected])

text \<open>
  C9: a request and its reply over a connection, from \<open>_mongoc_client_sendv\<close> and \<open>_mongoc_client_recv\<close>
  through the cluster, the messages, the buffered stream and the loops over the system calls. Whatever
  pieces the system cuts the bytes into, the peer gets exactly the gathered message, with the request id
  of the cluster, and what the client returns carries the fields of the peer's reply.
\<close>

theorem request_and_reply:
  fixes c :: "'s sock mongoc_stream_buffered_t client"
  defines "k \<equiv> cn_cluster (mc_conn c)" and "w \<equiv> cn_world (mc_conn c)"
  assumes "connected os expire_at answer p" "sock_good p w" "sock_pending answer p w = []"
    and "\<not> mc_in_exhaust c" "k_state k = MONGOC_CLUSTER_STATE_HEALTHY \<or> k_state k = MONGOC_CLUSTER_STATE_UNHEALTHY"
      "k_mode k = MONGOC_CLUSTER_DIRECT" "n_stream (k_nodes k ! 0) = Some h" "n_index (k_nodes k ! 0) = 0" "hint \<le> 12"
    and "op_fields opcode = Some fs" "list_all2 sendable fs rpc" "rpc ! 3 = Int32 (of_nat opcode)"
      "mongoc_rpc_gather opcode (outgoing k rpc) = Ok (sent, iov)" "\<not> mongoc_rpc_needs_gle opcode wc"
    and "op_fields opcode' = Some fs'" "list_all2 sendable fs' reply" "reply ! 3 = Int32 (of_nat opcode')"
      "mongoc_rpc_gather opcode' reply = Ok (reply', iov')"
    and "answer (sock_out p w @ concat iov) = answer (sock_out p w) @ concat iov'"
    and "int (length (concat iov)) \<le> k_max_msg_size k" "int (length (concat iov')) \<le> k_max_msg_size k"
      "length (concat iov) \<le> INT32_MAX" "bf_datalen b + length (concat iov') < INT32_MAX"
    and "buffer_ok b" "bf_len b = 0" "4 \<le> bf_datalen b"
  shows "\<exists>c' received b' c''.
    mongoc_client_sendv (socket_network os expire_at) rpc hint wc prefs c = Ok (1, sent, wc, c')
    \<and> sock_out p (cn_world (mc_conn c')) = sock_out p w @ concat iov
    \<and> mongoc_client_recv (socket_network os expire_at) b 1 c' = Ok (Some received, b', c'') \<and> list_all2 carries reply' received
    \<and> sock_pending answer p (cn_world (mc_conn c'')) = []"
  using peer_stream.exchange [OF socket_peer_stream [OF assms(3)], of c h hint opcode fs rpc sent iov wc opcode' fs' reply reply' iov' b prefs]
    assms(4-) unfolding k_def w_def by blast

definition echo_node :: mongoc_cluster_node_t where
  "echo_node = (cluster_node False 0)\<lparr>n_stream := Some 0\<rparr>"

definition echo_cluster :: mongoc_cluster_t where
  "echo_cluster =
     \<lparr>k_mode = MONGOC_CLUSTER_DIRECT, k_state = MONGOC_CLUSTER_STATE_HEALTHY, k_request_id = 0, k_sockettimeoutms = 300000,
      k_last_reconnect = 0, k_uri = None, k_requires_auth = False, k_nodes = (fresh_nodes False)[0 := echo_node],
      k_max_bson_size = 16777216, k_max_msg_size = 50331648, k_sec_latency_ms = 15, k_peers = [], k_replSet = None\<rparr>"

definition echo_world :: "(byte list \<times> nat \<times> bool) sock mongoc_stream_buffered_t" where
  "echo_world = mongoc_stream_buffered_new \<lparr>sk_errno = 0, sk_last_errno = 0, sk_os = ([], 0, True)\<rparr> 1024"

definition echo_client :: "(byte list \<times> nat \<times> bool) sock mongoc_stream_buffered_t client" where
  "echo_client = \<lparr>mc_in_exhaust = False, mc_request_id = 0, mc_read_prefs = None,
     mc_conn = \<lparr>cn_cluster = echo_cluster, cn_local = mongoc_cluster_node_init, cn_error = None, cn_world = echo_world\<rparr>\<rparr>"

lemma buffered_new_base [simp]: "bs_base_stream (mongoc_stream_buffered_new s n) = s"
  by (simp add: mongoc_stream_buffered_new_def)

lemma echo_facts:
  "sock_good echo_peer echo_world" "sock_pending id echo_peer echo_world = []" "sock_out echo_peer echo_world = []"
  "k_nodes echo_cluster ! 0 = echo_node" "outgoing echo_cluster some_get_more = some_get_more"
  "cn_cluster (mc_conn echo_client) = echo_cluster" "cn_world (mc_conn echo_client) = echo_world"
proof -
  show "sock_good echo_peer echo_world" "sock_pending id echo_peer echo_world = []" "sock_out echo_peer echo_world = []"
    by (simp_all add: echo_world_def sock_good_def sock_pending_def sock_out_def buffered_new_ok echo_peer_def pending_def)
qed (simp_all add: echo_cluster_def fresh_nodes_def outgoing_def some_get_more_def w32_def echo_client_def nth_list_update del: upt_Suc)

lemma request_and_reply_witness:
  "\<exists>sent iov c' received b' c''.
    mongoc_client_sendv (socket_network echo_os 2000) some_get_more 0 None None echo_client = Ok (1, sent, None, c')
    \<and> sock_out echo_peer (cn_world (mc_conn c')) = concat iov \<and> length (concat iov) = 36
    \<and> mongoc_client_recv (socket_network echo_os 2000) empty_buffer 1 c' = Ok (Some received, b', c'') \<and> list_all2 carries sent received"
proof -
  obtain sent iov where g: "mongoc_rpc_gather 2005 some_get_more = Ok (sent, iov)" "length (concat iov) = 36"
    by (rule some_get_more_gathers)
  have b: "buffer_ok empty_buffer" "bf_len empty_buffer = 0" "bf_datalen empty_buffer = 1024"
    using init_ok [of 0 None] by (auto simp: empty_buffer_def mongoc_buffer_init_def)
  have "\<not> mongoc_rpc_needs_gle 2005 None" by (simp add: mongoc_rpc_needs_gle_def)
  then have "\<exists>c' received b' c''.
    mongoc_client_sendv (socket_network echo_os 2000) some_get_more 0 None None echo_client = Ok (1, sent, None, c')
    \<and> sock_out echo_peer (cn_world (mc_conn c')) = sock_out echo_peer echo_world @ concat iov
    \<and> mongoc_client_recv (socket_network echo_os 2000) empty_buffer 1 c' = Ok (Some received, b', c'') \<and> list_all2 carries sent received
    \<and> sock_pending id echo_peer (cn_world (mc_conn c'')) = []"
    using request_and_reply [OF echo_connected, of echo_client 0 0 2005 op_get_more some_get_more sent iov None 2005 op_get_more
        some_get_more sent iov empty_buffer None, unfolded echo_facts] some_get_more_sendable g b
    by (simp add: echo_facts echo_client_def echo_cluster_def echo_node_def cluster_node_def)
  then show ?thesis using g(2) by (auto simp: echo_facts)
qed

end
