(* ===== verification/Spec2Isabelle.thy ===== *)
theory Spec2Isabelle
  imports Bson_Nest Bson_Json_Text Monary_Aggregate Mongoc_Safe Mongoc_Client Mongoc_Uri_Text
begin

text \<open>
  A verification of Monary (\<open>src/monary/cmonary.c\<close>), which loads the results of MongoDB queries into
  numpy arrays, together with the parts of the bundled MongoDB C driver it runs on: the BSON library
  (\<open>libbson/src/bson\<close>), and of the driver (\<open>mongoc\<close>) the cursors, commands and collections, connection
  strings, the cluster with its connections and authentication, and messages down to the socket.

  \<^bold>\<open>How the program works.\<close> A caller describes columns (a dotted field name, a type, an array and a
  mask) in a \<open>monary_column_data\<close>. \<open>monary_init_query\<close> turns the bytes of a query into a BSON handle,
  builds a projection from the names of the columns and asks the driver for a cursor.
  \<open>monary_load_query\<close> calls \<open>mongoc_cursor_next\<close> until the rows are full or the cursor ends; each
  document goes through \<open>monary_bson_to_arrays\<close>, which looks up every column's field with the BSON
  iterator and hands it to the loader of the column's type. The cursor sends the query on first use,
  reads documents out of the replies with a BSON reader and sends get-more requests between batches.
  \<open>monary_init_aggregate\<close> opens an aggregation instead: the driver sends an \<open>aggregate\<close> command and puts
  a cursor over the command's reply (a cursor document, or the result array of an old server) behind
  the same functions; loading goes on as for a query. \<open>monary_query_count\<close> runs a \<open>count\<close> command.

  \<^bold>\<open>Theories.\<close>

  \<^item> \<open>Prelude\<close>: results with faults, C integers on \<open>nat\<close> and \<open>int\<close> with the wrap-around written out,
    reads of bytes with bounds checks, C strings; the lemma collections the others use.
  \<^item> \<open>Bson_Types\<close> (\<open>bson-types.h\<close>, \<open>bson-private.h\<close>): element types, the handle \<open>bson_t\<close>, the iterator record.
  \<^item> \<open>Bson_Iter\<close> (\<open>bson-iter.c\<close>): \<open>bson_iter_init\<close> and \<open>bson_iter_next\<close>, one definition per group of
    cases of its switch; memory safety on any bytes.
  \<^item> \<open>Bson_Access\<close> (\<open>bson-iter.c\<close>, \<open>bson-iter.h\<close>): all typed accessors and the in-place overwrites, safe on
    every field the iterator accepts.
  \<^item> \<open>Bson_Utf8\<close> (\<open>bson-utf8.c\<close>): validation, decoding, encoding.
  \<^item> \<open>Readers\<close>: the loops \<open>while (next (it))\<close> and the contracts \<open>safe_reader\<close> and \<open>list_reader\<close> as locales.
  \<^item> \<open>Bson_Spec\<close>: documents as values (\<open>bdoc\<close>), their encoding, and that iterating over an encoding
    yields the document; \<open>Bson_Find\<close> (\<open>bson-iter.c\<close>, \<open>bson.c\<close>): lookup by key and by dotted path
    refines \<open>lookup_path\<close>, through the interpretation of \<open>list_reader\<close> on the iterator.
  \<^item> \<open>Bson_Build\<close>, \<open>Bson_Append\<close>, \<open>Bson_Nest\<close>, \<open>Bson_Copy\<close> (\<open>bson.c\<close>): growth of the buffer, the append
    primitive, one append function per type, begin and end of embedded documents, copies, exclusion,
    concatenation, comparison. The locale \<open>appender\<close> is the contract of an append function (it extends
    the list of elements or reports that there is no room), interpreted on each of them; the inductive
    relation \<open>build_step\<close> gives the sequences of calls.
  \<^item> \<open>Bson_Reader\<close> (\<open>bson-reader.c\<close>): the reader over documents in memory.
  \<^item> \<open>Bson_Visit\<close> (\<open>bson-iter.c\<close>): \<open>bson_iter_visit_all\<close> for visitors on any state; the two ways to use it
    are a walk that keeps an invariant on any bytes (\<open>visit_all_safe\<close>) and a walk over a document that
    follows an abstract step (\<open>visit_all_doc\<close>). \<open>Bson_Validate\<close> (\<open>bson.c\<close>): \<open>bson_validate\<close>, total on any
    bytes with a bound on its recursion, and exact on documents. \<open>Bson_String\<close> (\<open>bson-string.c\<close>, \<open>bson-utf8.c\<close>): growing strings, formatted
    numbers, JSON escapes. \<open>Bson_Base64\<close> (\<open>b64_ntop.h\<close>). \<open>Bson_Json\<close> (\<open>bson.c\<close>): the visitor that prints
    JSON; \<open>Bson_Json_Text\<close>: the text of a document as a function of the document, and that the visitor
    computes it.
  \<^item> \<open>C_Float\<close>: conversions between \<open>double\<close>, \<open>float\<close> and integers on bit patterns.
  \<^item> \<open>Monary_Column\<close>, \<open>Monary_Load\<close>, \<open>Monary_Rows\<close> (\<open>cmonary.c\<close>): the column descriptions with the heap
    blocks they own (the structure, its array of columns and the names), the loader of each type against
    the specification \<open>column_cell\<close>, and one document into one row of every column.
  \<^item> \<open>Mongoc_Cursor\<close> (\<open>mongoc-cursor.c\<close>, \<open>mongoc-rpc.c\<close>): the cursor as a state machine on
    \<open>mongoc_cursor_t \<times> mongoc_client_t\<close>. The locale \<open>document_cursor\<close> is what a reader of documents may
    rely on; its interpretation \<open>mongoc\<close> shows that \<open>mongoc_cursor_next\<close> provides it for every server
    that answers as \<open>serves\<close> says. \<open>Mongoc_Find\<close> (\<open>mongoc-collection.c\<close>): what becomes of a query.
    \<open>Mongoc_Safe\<close>: the cursor on replies of any content, and deviations from what it means to do.
  \<^item> \<open>Mongoc_Command\<close> (\<open>mongoc-client.c\<close>, \<open>mongoc-collection.c\<close>): handles of collections, commands as
    queries with one reply, \<open>mongoc_collection_count\<close>. \<open>Mongoc_Aggregate\<close> (\<open>mongoc-collection.c\<close>,
    \<open>mongoc-cursor-cursorid.c\<close>, \<open>mongoc-cursor-array.c\<close>): the aggregate command and the cursors over its
    reply, with the dispatch of \<open>mongoc_cursor_next\<close> and its companions on the interface table.
  \<^item> \<open>Monary_Query\<close>, \<open>Monary_Count\<close>, \<open>Monary_Aggregate\<close> (\<open>cmonary.c\<close>): the projection, choosing a
    collection, counting, opening, loading and closing; the loop of \<open>monary_load_query\<close> is verified inside
    \<open>document_cursor\<close>, and the theorems \<open>query_fills_columns\<close> and \<open>aggregate_fills_columns\<close>, for two
    interpretations of that locale, join all components.
  \<^item> \<open>Mongoc_Buffer\<close> (\<open>mongoc-buffer.c\<close>, \<open>mongoc-stream-buffered.c\<close>, \<open>mongoc-stream-socket.c\<close>): the bytes of a
    connection. A stream is shown to hand on the bytes of the stream below it (\<open>delivers\<close>,
    \<open>delivers_exactly\<close>), from \<open>recv\<close> up to the buffer of the cursor; the abstraction is the list of bytes
    still to come. \<open>Mongoc_Socket\<close> (\<open>mongoc-socket.c\<close>): the loops over the system calls \<open>recv\<close>, \<open>sendmsg\<close>,
    \<open>send\<close> and \<open>poll\<close>, which are shown to end and to transfer exactly the bytes on a system that behaves
    as a connected socket (\<open>connected\<close>). \<open>Mongoc_Rpc\<close> (\<open>mongoc-rpc.c\<close>, \<open>op-*.def\<close>): messages as lists of fields, gathered and scattered.
  \<^item> \<open>Mongoc_Read_Prefs\<close> (\<open>mongoc-read-prefs.c\<close>): changing read preferences and the score of a node, against
    the value of its tags. \<open>Mongoc_Cluster\<close> (\<open>mongoc-cluster.c\<close>): the twelve nodes of a cluster with the
    invariant \<open>cluster_ok\<close>, their pings, and \<open>_mongoc_cluster_select\<close>, which chooses a node for messages.
  \<^item> \<open>Bson_Md5\<close> (\<open>bson-md5.c\<close>): MD5 over messages that come in pieces, against padding the whole message.
    \<open>Mongoc_Write_Concern\<close> (\<open>mongoc-write-concern.c\<close>): the \<open>getlasterror\<close> command of a write concern.
    \<open>Mongoc_Uri\<close> (\<open>mongoc-uri.c\<close>): the parser of connection strings with the write concern it builds;
    \<open>Mongoc_Uri_Text\<close>: printing a connection string, and that the parser reads back what was printed.
  \<^item> \<open>Mongoc_Connect\<close> (\<open>mongoc-cluster.c\<close>): commands on one node, \<open>isMaster\<close>, \<open>ping\<close>, MONGODB-CR, and
    reconnecting to a single server, a replica set and a sharded cluster. The relation \<open>only\<close> says that an
    operation on a node leaves the other nodes alone; with it the invariant \<open>authed\<close> (a connected node has
    been authenticated) goes through all three ways to reconnect.
  \<^item> \<open>Mongoc_Client\<close> (\<open>mongoc-cluster.c\<close>, \<open>mongoc-client.c\<close>): sending a message and receiving its reply. The
    locale \<open>peer_stream\<close> is what the driver relies on of a stream to a server; the lemma
    \<open>socket_peer_stream\<close> shows that a buffered stream over a connected socket provides it, so that
    \<open>request_and_reply\<close> joins client, cluster, messages, buffer, streams and socket.

  \<^bold>\<open>Correspondence.\<close> A pointer into a buffer is the list of the bytes from there on (\<open>view\<close>); the heap of
  Monary is a map from blocks to bytes. An operation returns \<open>Ok\<close> with its results and the new state, or
  \<open>Fault\<close> where the C code would leave a buffer, follow a null or dangling pointer, overflow a signed
  integer, fail an assertion or never end; so a theorem that gives an \<open>Ok\<close> result excludes all of these.
  Handles passed to the functions are not NULL unless the code tests them. Documents that a cursor
  hands out are values here; in the code they are valid until the next reply is received.

  \<^bold>\<open>Loops.\<close> Loops over an iterator carry the length of the document as fuel; each step consumes at least
  one byte, so it suffices, and the theorems show that the fault \<open>No_Termination\<close> does not occur.
  \<open>load_rows\<close> ends because \<open>row\<close> grows towards \<open>num_rows\<close>; \<open>bson_iter_find_descendant\<close> because the path
  gets shorter. \<open>bson_validate\<close> has no limit on its recursion in the code; it carries the length of its
  document as a depth that is never used up, because an embedded document is at least seven bytes
  shorter than the one around it. \<open>validate_terminates\<close> gives the depth that is reached; the C stack is
  not modelled, here or elsewhere. The index of \<open>bson_utf8_validate\<close> has 32 bits and wraps in texts of
  4 GiB and more; its fuel is the length of the text. The JSON printer carries \<open>BSON_MAX_RECURSION\<close>
  levels, the bound of the code. The escaping loop carries the length of its text, which suffices on
  UTF-8; on a byte that begins no sequence the C loop does not end, and the model faults. The scans of a
  connection string carry its length. The loops of a socket are partial functions, since they need not
  end; \<open>sendv_sends_all\<close> and \<open>receives_socket\<close> show that they do on a connected socket.

  \<^bold>\<open>The standard library.\<close> \<open>printf\<close> conversions are the functions \<open>c_decimal\<close>, \<open>c_signed\<close>, \<open>hex_pair\<close> and
  \<open>c_lf\<close>; \<open>%lf\<close> rounds the exact value of the double to six places, ties to even. Texts printed by the
  JSON functions are followed up to half a gigabyte (\<open>STRING_LIMIT\<close>), far above what a document of the
  server can give.

  \<^bold>\<open>Parameters.\<close> The network is the record \<open>driver\<close> of the four functions of \<open>mongoc-client.c\<close> and
  \<open>mongoc-cluster.c\<close> that the cursor calls; a command is a function from the command document to a
  reply. The hypotheses on them (\<open>serves\<close>, \<open>driver_ok\<close>) are met by the scripted server of the examples.
  Below that level the network is the record \<open>network\<close> (connecting, reading, writing and closing a stream,
  the clock, \<open>rand\<close>), and below a stream the record \<open>os\<close> of the system calls; the hypothesis \<open>connected\<close> on
  the latter is met by the system \<open>echo_os\<close>, which interrupts calls and cuts transfers into pieces. The
  deadline of an operation is a parameter of the socket functions and not computed from the timeout.
  Allocation succeeds, the host is little-endian, \<open>int\<close> has 32 and \<open>size_t\<close> 64 bits, and the checks of
  \<open>bson_return_val_if_fail\<close> and \<open>BSON_ASSERT\<close> are compiled in.

  \<^bold>\<open>Not modelled.\<close> Opening, accepting and closing sockets; TLS, SASL, PLAIN and X.509 authentication, which
  are compiled out; sending several messages in one call, which no caller does; the pool of clients;
  writes, bulk operations and GridFS (Monary only reads); JSON parsing, which is built on a vendored
  parser; generation of object identifiers, the matcher and the containers of the driver; statistics and
  log output; the Python module. \<open>monary_connect\<close> and the other connection functions only pass their
  arguments on.
\<close>

end
